(* ===== verification/Rgb_Prelude.thy ===== *)
theory Rgb_Prelude
  imports "HOL-Library.Word" "HOL-Library.Multiset"
begin

unbundle bit_operations_syntax

text \<open>
  Shared vocabulary of the development: the names of the machine integer types, the
  collections of rewrite rules that the component proofs use, the memory helpers that
  stand for the C library and driver primitives (block copy, fill, index), byte order
  conversions, and exhaustive checking of a property of one byte.
\<close>

section \<open>Names of types\<close>

type_synonym u8 = "8 word"
type_synonym u16 = "16 word"
type_synonym u32 = "32 word"
type_synonym u64 = "64 word"
type_synonym bytes = "u8 list"

named_theorems wf_intros \<open>well-formedness of results, proved once per operation\<close>
named_theorems step_simps \<open>unfolding rules of the step functions of the state machines\<close>

section \<open>Memory primitives\<close>

text \<open>
  \<open>move_memory dst off src soff len\<close> is \<open>memcpy(dst + off, src + soff, len)\<close>. Reading or
  writing outside one of the two arrays is undefined behaviour in C and is the value None.
\<close>

definition move_memory :: "'a list \<Rightarrow> nat \<Rightarrow> 'a list \<Rightarrow> nat \<Rightarrow> nat \<Rightarrow> 'a list option" where
  "move_memory dst off src soff len =
     (if off + len \<le> length dst \<and> soff + len \<le> length src
      then Some (take off dst @ take len (drop soff src) @ drop (off + len) dst)
      else None)"

lemma move_memory_length:
  "move_memory dst off src soff len = Some r \<Longrightarrow> length r = length dst"
  by (auto simp: move_memory_def split: if_splits)

lemma move_memory_Some_iff:
  "(\<exists>r. move_memory dst off src soff len = Some r)
     \<longleftrightarrow> off + len \<le> length dst \<and> soff + len \<le> length src"
  by (simp add: move_memory_def)

section \<open>Exclusive or of byte strings\<close>

definition xor_bytes :: "bytes \<Rightarrow> bytes \<Rightarrow> bytes" where
  "xor_bytes xs ys = map2 (XOR) xs ys"

lemma length_xor_bytes [simp]: "length (xor_bytes xs ys) = min (length xs) (length ys)"
  by (simp add: xor_bytes_def)

lemma xor_bytes_Nil [simp]: "xor_bytes [] ys = []" "xor_bytes xs [] = []"
  by (simp_all add: xor_bytes_def)

lemma xor_bytes_Cons [simp]: "xor_bytes (x # xs) (y # ys) = (x XOR y) # xor_bytes xs ys"
  by (simp add: xor_bytes_def)

lemma word_xor_cancel [simp]:
  fixes a b :: "'a::len word"
  shows "(a XOR b) XOR b = a" and "b XOR (b XOR a) = a" and "(b XOR a) XOR b = a"
proof -
  show *: "(a XOR b) XOR b = a" by (simp add: xor.assoc)
  show "b XOR (b XOR a) = a" by (simp flip: xor.assoc)
  show "(b XOR a) XOR b = a" using * by (simp add: xor.commute)
qed

lemma xor_bytes_cancel:
  "length ks = length xs \<Longrightarrow> xor_bytes (xor_bytes xs ks) ks = xs"
  by (induction xs ks rule: list_induct2') auto

lemma nth_xor_bytes [simp]:
  "i < length xs \<Longrightarrow> i < length ys \<Longrightarrow> xor_bytes xs ys ! i = xs ! i XOR ys ! i"
  by (simp add: xor_bytes_def)

section \<open>Checking a property of every byte\<close>

text \<open>
  A byte has 256 values, so a property of all bytes is a finite conjunction that the
  simplifier can evaluate.
\<close>

lemma all_u8: "(\<forall>x::u8. P x) \<longleftrightarrow> list_all (\<lambda>n. P (of_nat n)) [0..<256]"
proof
  assume "\<forall>x. P x"
  then show "list_all (\<lambda>n. P (of_nat n)) [0..<256]" by (simp add: list_all_iff)
next
  assume *: "list_all (\<lambda>n. P (of_nat n)) [0..<256]"
  show "\<forall>x. P x"
  proof
    fix x :: u8
    have "unat x < 256" using unsigned_less [of x] by simp
    with * have "P (of_nat (unat x))" unfolding list_all_iff by (metis atLeastLessThan_upt atLeastLessThan_iff zero_le)
    then show "P x" by simp
  qed
qed

end
