(* ===== verification/Cpp_Std.thy ===== *)
theory Cpp_Std
  imports Rgb_Prelude
begin

text \<open>
  The part of the C++ standard library the clock program computes with: decimal printing
  (\<open>std::to_string\<close>, \<open>operator<<\<close> with \<open>std::setw\<close>), \<open>std::stoi\<close> with the two exceptions it
  throws, and \<open>std::bitset<7>\<close> read from and printed to a string. The round trips at the
  end are what the alarm file relies on.
\<close>

section \<open>Exceptions\<close>

datatype std_exception = invalid_argument | out_of_range | null_pointer

type_synonym 'a throws = "std_exception + 'a"

definition bind_throws :: "'a throws \<Rightarrow> ('a \<Rightarrow> 'b throws) \<Rightarrow> 'b throws" where
  "bind_throws m f = (case m of Inl e \<Rightarrow> Inl e | Inr x \<Rightarrow> f x)"

lemma bind_throws_simps [simp]:
  "bind_throws (Inl e) f = Inl e" "bind_throws (Inr x) f = f x"
  by (simp_all add: bind_throws_def)

section \<open>Decimal numbers\<close>

definition digit_char :: "nat \<Rightarrow> char" where
  "digit_char d = char_of (48 + d)"

definition is_digit :: "char \<Rightarrow> bool" where
  "is_digit c \<longleftrightarrow> 48 \<le> (of_char c :: nat) \<and> (of_char c :: nat) \<le> 57"

definition digit_val :: "char \<Rightarrow> nat" where
  "digit_val c = of_char c - 48"

lemma digit_char_props [simp]:
  assumes "d < 10"
  shows "is_digit (digit_char d)" and "digit_val (digit_char d) = d"
  using assms by (simp_all add: is_digit_def digit_val_def digit_char_def)

fun show_nat :: "nat \<Rightarrow> string" where
  "show_nat n = (if n < 10 then [digit_char n] else show_nat (n div 10) @ [digit_char (n mod 10)])"

declare show_nat.simps [simp del]

definition to_string_int :: "int \<Rightarrow> string" where
  "to_string_int i = (if i < 0 then CHR ''-'' # show_nat (nat (- i)) else show_nat (nat i))"

text \<open>\<open>std::setw(w) << std::setfill('0')\<close>: pad on the left to at least \<open>w\<close> characters.\<close>

definition setw0 :: "nat \<Rightarrow> string \<Rightarrow> string" where
  "setw0 w s = replicate (w - length s) CHR ''0'' @ s"

definition read_digits :: "string \<Rightarrow> nat" where
  "read_digits s = foldl (\<lambda>a c. 10 * a + digit_val c) 0 s"

text \<open>White space as \<open>isspace\<close> in the C locale.\<close>

definition is_space :: "char \<Rightarrow> bool" where
  "is_space c \<longleftrightarrow> (of_char c :: nat) = 32 \<or> (9 \<le> (of_char c :: nat) \<and> (of_char c :: nat) \<le> 13)"

definition INT_MAX :: int where "INT_MAX = 2147483647"
definition INT_MIN :: int where "INT_MIN = - 2147483648"

text \<open>
  \<open>std::stoi\<close>: skip white space, an optional sign, then the longest run of digits;
  \<open>invalid_argument\<close> when there is no digit, \<open>out_of_range\<close> when the value is no \<open>int\<close>.
\<close>

definition stoi :: "string \<Rightarrow> int throws" where
  "stoi s =
     (let t = dropWhile is_space s;
          neg = (t \<noteq> [] \<and> hd t = CHR ''-'');
          u = (if t \<noteq> [] \<and> (hd t = CHR ''-'' \<or> hd t = CHR ''+'') then tl t else t);
          ds = takeWhile is_digit u;
          v = (if neg then - int (read_digits ds) else int (read_digits ds))
      in if ds = [] then Inl invalid_argument
         else if v < INT_MIN \<or> INT_MAX < v then Inl out_of_range
         else Inr v)"

text \<open>Integer division of C++ and the conversion of a quotient to \<open>int\<close> round towards zero.\<close>

definition trunc_div :: "int \<Rightarrow> int \<Rightarrow> int" where
  "trunc_div a b = sgn a * sgn b * (\<bar>a\<bar> div \<bar>b\<bar>)"

section \<open>The bit set of week days\<close>

type_synonym bitset7 = "7 word"

definition bitset_to_string :: "bitset7 \<Rightarrow> string" where
  "bitset_to_string w = map (\<lambda>i. if bit w i then CHR ''1'' else CHR ''0'') (rev [0..<7])"

text \<open>
  The constructor from a character string: every character must be 0 or 1; of a string
  longer than seven characters the first seven are used, and the last character used is bit 0.
\<close>

definition bitset_of_string :: "string \<Rightarrow> bitset7 throws" where
  "bitset_of_string s =
     (if \<exists>c \<in> set s. c \<noteq> CHR ''0'' \<and> c \<noteq> CHR ''1'' then Inl invalid_argument
      else Inr (horner_sum of_bool 2 (map (\<lambda>c. c = CHR ''1'') (rev (take 7 s)))))"

section \<open>Round trips\<close>

lemma show_nat_digits: "list_all is_digit (show_nat n)"
proof (induction n rule: show_nat.induct)
  case (1 n)
  then show ?case by (subst show_nat.simps) (cases "n < 10"; simp)
qed

lemma show_nat_nonempty [simp]: "show_nat n \<noteq> []"
  by (subst show_nat.simps) simp

lemma read_digits_snoc [simp]: "read_digits (s @ [c]) = 10 * read_digits s + digit_val c"
  by (simp add: read_digits_def)

lemma read_show_nat [simp]: "read_digits (show_nat n) = n"
proof (induction n rule: show_nat.induct)
  case (1 n)
  show ?case
  proof (cases "n < 10")
    case True
    then show ?thesis by (subst show_nat.simps) (simp add: read_digits_def)
  next
    case False
    with "1.IH" show ?thesis by (subst show_nat.simps) (simp add: mult.commute)
  qed
qed

lemma digit_not_space: "is_digit c \<Longrightarrow> \<not> is_space c"
  by (auto simp: is_digit_def is_space_def)

lemma digit_not_sign:
  "is_digit c \<Longrightarrow> c \<noteq> CHR ''-''" "is_digit c \<Longrightarrow> c \<noteq> CHR ''+''"
  by (auto simp: is_digit_def)

lemma takeWhile_all_digits: "list_all is_digit s \<Longrightarrow> takeWhile is_digit s = s"
  by (simp add: list_all_iff takeWhile_eq_all_conv)

lemma hd_show_nat_digit: "is_digit (hd (show_nat n))"
  using show_nat_digits [of n] hd_in_set [OF show_nat_nonempty [of n]] by (simp add: list_all_iff)

lemma stoi_to_string:
  assumes "INT_MIN \<le> i" and "i \<le> INT_MAX"
  shows "stoi (to_string_int i) = Inr i"
proof (cases "i < 0")
  case True
  have "dropWhile is_space (CHR ''-'' # show_nat (nat (- i))) = CHR ''-'' # show_nat (nat (- i))"
    by (simp add: is_space_def)
  with True assms show ?thesis
    by (simp add: stoi_def to_string_int_def takeWhile_all_digits show_nat_digits)
next
  case False
  have h: "is_digit (hd (show_nat (nat i)))" by (rule hd_show_nat_digit)
  have "dropWhile is_space (show_nat (nat i)) = show_nat (nat i)"
    using h digit_not_space by (cases "show_nat (nat i)") auto
  with False assms digit_not_sign [OF h] show ?thesis
    by (simp add: stoi_def to_string_int_def takeWhile_all_digits show_nat_digits Let_def)
qed

lemma bitset_string_roundtrip: "bitset_of_string (bitset_to_string w) = Inr w"
proof -
  have "map (\<lambda>c. c = CHR ''1'') (rev (take 7 (bitset_to_string w))) = map (bit w) [0..<7]"
    by (simp add: bitset_to_string_def upt_rec)
  moreover have "horner_sum of_bool 2 (map (bit w) [0..<7]) = w"
    using horner_sum_bit_eq_take_bit [of w 7] by (simp add: take_bit_word_eq_self)
  ultimately show ?thesis
    by (auto simp: bitset_of_string_def bitset_to_string_def)
qed

end
