(* ===== verification/Alarm_Manager.thy ===== *)
theory Alarm_Manager
  imports Cpp_Std
begin

text \<open>
  The alarm manager of the clock (\<open>rgbclock/RgbLib/src/AlarmManager.h\<close>, \<open>AlarmManager.cpp\<close>):
  the alarm record and its printed forms, the computation of the minutes left until an alarm
  fires, the edit lock, the table of next alarms per unit, and one pass of the alarm thread.
  The registered observers are an ascending list of (address, name) pairs, the order in which
  a \<open>std::set\<close> of pointers is traversed; the calls made to them are events of the result.
\<close>

section \<open>Time\<close>

datatype DayOfWeek = Sunday | Monday | Thuesday | Wednesday | Thursday | Friday | Saturday

fun day_int :: "DayOfWeek \<Rightarrow> nat" where
  "day_int Sunday = 0"
| "day_int Monday = 1"
| "day_int Thuesday = 2"
| "day_int Wednesday = 3"
| "day_int Thursday = 4"
| "day_int Friday = 5"
| "day_int Saturday = 6"

record LocalTime =
  lt_mDay :: DayOfWeek
  lt_mHour :: u8
  lt_mMin :: u8

text \<open>
  \<open>SystemClockIf\<close> is an interface: the program sees a sequence of readings, one per call of
  \<open>localTime()\<close>. A clock is that sequence, and a position counts the calls made so far.
\<close>

type_synonym system_clock = "nat \<Rightarrow> LocalTime"

section \<open>Alarms\<close>

datatype AlarmType = Daily | OnTimeSmooth | OnTimeLoud

record Alarm =
  mEnabled :: bool
  mHour :: int
  mMinutes :: int
  mAlarmType :: AlarmType
  mDays :: bitset7
  mUnit :: string
  mVolume :: int
  mSignalled :: bool

definition new_Alarm :: Alarm where
  "new_Alarm = \<lparr>mEnabled = True, mHour = 7, mMinutes = 0, mAlarmType = Daily, mDays = 0,
     mUnit = '''', mVolume = 40, mSignalled = False\<rparr>"

definition daysString :: "Alarm \<Rightarrow> string" where
  "daysString a =
     ''['' @ (if bit (mDays a) (day_int Sunday) then ''Z'' else ''_'')
     @ (if bit (mDays a) (day_int Monday) then ''M'' else ''_'')
     @ (if bit (mDays a) (day_int Thuesday) then ''D'' else ''_'')
     @ (if bit (mDays a) (day_int Wednesday) then ''W'' else ''_'')
     @ (if bit (mDays a) (day_int Thursday) then ''D'' else ''_'')
     @ (if bit (mDays a) (day_int Friday) then ''V'' else ''_'')
     @ (if bit (mDays a) (day_int Saturday) then ''Z'' else ''_'') @ '']''"

definition typeString :: "Alarm \<Rightarrow> string" where
  "typeString a = (case mAlarmType a of Daily \<Rightarrow> ''D'' | OnTimeLoud \<Rightarrow> ''L'' | OnTimeSmooth \<Rightarrow> ''E'')"

definition to_string_long :: "Alarm \<Rightarrow> string" where
  "to_string_long a =
     ''Unit: '' @ mUnit a @ '': '' @ to_string_int (mHour a) @ '':'' @ to_string_int (mMinutes a)
     @ '', Type: '' @ typeString a
     @ (if mAlarmType a = Daily then '', Days: '' @ daysString a else '''')
     @ '', Volume: '' @ to_string_int (mVolume a)"

definition to_string_short :: "Alarm \<Rightarrow> string" where
  "to_string_short a =
     [CHR 39] @ mUnit a @ [CHR 39] @ '' '' @ to_string_int (mHour a) @ '':''
     @ to_string_int (mMinutes a) @ '' '' @ typeString a
     @ (if mAlarmType a = Daily then daysString a @ '' '' else '''')
     @ to_string_int (mVolume a)"

record NextAlarm =
  mIntervalMinutes :: int
  na_mHour :: int
  na_mMinutes :: int

definition NextAlarm_to_string :: "NextAlarm \<Rightarrow> string" where
  "NextAlarm_to_string n =
     setw0 2 (to_string_int (na_mHour n)) @ '':'' @ setw0 2 (to_string_int (na_mMinutes n))"

section \<open>The manager's state\<close>

record AlarmObserver =
  obs_addr :: nat
  obs_name :: string

record AlarmManager =
  mUnitList :: "string list"
  mAlarmList :: "Alarm list"
  mAlarmObservers :: "AlarmObserver list"
  mCurrentEditor :: string
  mAlarmThreadRunning :: bool
  mNextAlarmMap :: "string \<rightharpoonup> NextAlarm"
  mSendAlarmSnooze :: bool
  mSendAlarmOff :: bool

text \<open>What the manager does to the outside: calls of observers, the alarm file, the watchdog.\<close>

datatype alarm_event =
    SignalWatchdog
  | AlarmNotify AlarmObserver int bool
  | AlarmSnooze AlarmObserver
  | AlarmOff AlarmObserver
  | SaveAlarms "Alarm list"

text \<open>Insertion into a \<open>std::set\<close> of pointers (no effect when present) and removal.\<close>

fun set_insert :: "AlarmObserver \<Rightarrow> AlarmObserver list \<Rightarrow> AlarmObserver list" where
  "set_insert o1 [] = [o1]"
| "set_insert o1 (x # xs) =
     (if obs_addr o1 < obs_addr x then o1 # x # xs
      else if obs_addr o1 = obs_addr x then x # xs
      else x # set_insert o1 xs)"

definition registerAlarmObserver :: "AlarmObserver option \<Rightarrow> AlarmManager \<Rightarrow> AlarmManager" where
  "registerAlarmObserver p m =
     (case p of None \<Rightarrow> m
      | Some obs \<Rightarrow> m\<lparr>mAlarmObservers := set_insert obs (mAlarmObservers m)\<rparr>)"

definition unRegisterAlarmObserver :: "AlarmObserver option \<Rightarrow> AlarmManager \<Rightarrow> AlarmManager" where
  "unRegisterAlarmObserver p m =
     (case p of None \<Rightarrow> m
      | Some obs \<Rightarrow> m\<lparr>mAlarmObservers :=
           filter (\<lambda>x. obs_addr x \<noteq> obs_addr obs) (mAlarmObservers m)\<rparr>)"

text \<open>
  \<open>editAlarms\<close> returns a pointer to the list (True) or a null pointer (False). The holder of
  the pointer then changes the list in place, which is \<open>client_edit\<close>.
\<close>

definition editAlarms :: "string \<Rightarrow> AlarmManager \<Rightarrow> bool \<times> AlarmManager" where
  "editAlarms unitName m =
     (if mCurrentEditor m = '''' \<or> mCurrentEditor m = unitName
      then (True, m\<lparr>mCurrentEditor := unitName\<rparr>)
      else (False, m))"

definition saveAlarms_unit :: "string \<Rightarrow> AlarmManager \<Rightarrow> AlarmManager \<times> alarm_event list" where
  "saveAlarms_unit unitName m =
     (if mCurrentEditor m = unitName
      then (m\<lparr>mCurrentEditor := ''''\<rparr>, [SaveAlarms (mAlarmList m)])
      else (m, []))"

definition nextAlarm :: "string \<Rightarrow> AlarmManager \<Rightarrow> string" where
  "nextAlarm unitName m =
     (if mCurrentEditor m = '''' \<and> mNextAlarmMap m unitName \<noteq> None
      then NextAlarm_to_string (the (mNextAlarmMap m unitName))
      else '''')"

text \<open>
  \<open>nextUnitName\<close>: \<open>front()\<close> of an empty unit list is undefined behaviour, the value None.
\<close>

definition nextUnitName :: "string \<Rightarrow> AlarmManager \<Rightarrow> string option" where
  "nextUnitName currentUnitName m =
     (let current = dropWhile (\<lambda>u. u \<noteq> currentUnitName) (mUnitList m)
      in if currentUnitName = '''' \<or> current = []
         then (case mUnitList m of [] \<Rightarrow> None | u # _ \<Rightarrow> Some u)
         else (case tl current of [] \<Rightarrow> Some '''' | u # _ \<Rightarrow> Some u))"

definition sendAlarmSnooze :: "AlarmManager \<Rightarrow> AlarmManager" where
  "sendAlarmSnooze m = m\<lparr>mSendAlarmSnooze := True\<rparr>"

definition sendAlarmOff :: "AlarmManager \<Rightarrow> AlarmManager" where
  "sendAlarmOff m = m\<lparr>mSendAlarmOff := True\<rparr>"

section \<open>Minutes until an alarm fires\<close>

text \<open>The result and the position of the clock after the call; a disabled alarm reads no clock.\<close>

definition minutesUntilFired :: "Alarm \<Rightarrow> system_clock \<Rightarrow> nat \<Rightarrow> int \<times> nat" where
  "minutesUntilFired alarm systemClock n =
     (if \<not> mEnabled alarm then (-1, n)
      else
       (let time = systemClock n;
            nextDay = (if day_int (lt_mDay time) < day_int Saturday
                       then day_int (lt_mDay time) + 1 else 0);
            nowMinutes = uint (lt_mHour time) * 60 + uint (lt_mMin time);
            almMinutes = mHour alarm * 60 + mMinutes alarm;
            oneTimeAlarm = (mAlarmType alarm = OnTimeLoud \<or> mAlarmType alarm = OnTimeSmooth);
            today = bit (mDays alarm) (day_int (lt_mDay time));
            tomorrow = bit (mDays alarm) nextDay
        in if \<not> oneTimeAlarm \<and> ((today \<and> almMinutes < nowMinutes) \<or> \<not> today) \<and> \<not> tomorrow
           then (-1, Suc n)
           else
            (let almMinutes' =
                   (if oneTimeAlarm \<and> almMinutes < nowMinutes then almMinutes + 24 * 60
                    else if \<not> oneTimeAlarm \<and> \<not> (today \<and> almMinutes \<ge> nowMinutes) \<and> tomorrow
                    then almMinutes + 60 * 24
                    else almMinutes)
             in (almMinutes' - nowMinutes, Suc n))))"

section \<open>One pass of the alarm thread\<close>

definition concerns :: "Alarm \<Rightarrow> AlarmObserver \<Rightarrow> bool" where
  "concerns alarm obs \<longleftrightarrow> obs_name obs = mUnit alarm \<or> mUnit alarm = ''''"

definition fire_alarm :: "AlarmObserver list \<Rightarrow> Alarm \<Rightarrow> alarm_event list" where
  "fire_alarm obss alarm =
     map (\<lambda>obs. AlarmNotify obs (mVolume alarm)
            (mAlarmType alarm = Daily \<or> mAlarmType alarm = OnTimeSmooth))
       (filter (concerns alarm) obss)"

definition update_next ::
  "Alarm \<Rightarrow> int \<Rightarrow> AlarmObserver \<Rightarrow> (string \<rightharpoonup> NextAlarm) \<Rightarrow> (string \<rightharpoonup> NextAlarm)" where
  "update_next alarm minutesLeft obs nam =
     (let entry = \<lparr>mIntervalMinutes = minutesLeft, na_mHour = mHour alarm,
                   na_mMinutes = mMinutes alarm\<rparr>
      in if \<not> concerns alarm obs then nam
         else case nam (obs_name obs) of
             Some na \<Rightarrow> if mIntervalMinutes na > minutesLeft
                         then nam(obs_name obs \<mapsto> entry) else nam
           | None \<Rightarrow> if minutesLeft < 23 * 60 then nam(obs_name obs \<mapsto> entry) else nam)"

record tick_state =
  ts_next :: "string \<rightharpoonup> NextAlarm"
  ts_pos :: nat
  ts_events :: "alarm_event list"
  ts_save :: bool

text \<open>The body of the loop over \<open>mAlarmList\<close> for one alarm, which it changes in place.\<close>

definition alarm_body ::
  "system_clock \<Rightarrow> AlarmObserver list \<Rightarrow> Alarm \<Rightarrow> tick_state \<Rightarrow> Alarm \<times> tick_state" where
  "alarm_body systemClock obss alarm ts =
     (let (minutesLeft, n) = minutesUntilFired alarm systemClock (ts_pos ts);
          fires = (minutesLeft = 0 \<and> \<not> mSignalled alarm);
          oneTime = (mAlarmType alarm = OnTimeLoud \<or> mAlarmType alarm = OnTimeSmooth);
          alarm1 = (if fires
                    then (if oneTime then alarm\<lparr>mSignalled := True, mEnabled := False\<rparr>
                          else alarm\<lparr>mSignalled := True\<rparr>)
                    else alarm);
          nam = (if \<not> fires \<and> minutesLeft > 0
                 then foldl (\<lambda>nam obs. update_next alarm minutesLeft obs nam) (ts_next ts) obss
                 else ts_next ts);
          time = systemClock n;
          alarm2 = (if mHour alarm1 \<noteq> uint (lt_mHour time) \<or> mMinutes alarm1 \<noteq> uint (lt_mMin time)
                    then alarm1\<lparr>mSignalled := False\<rparr> else alarm1)
      in (alarm2,
          \<lparr>ts_next = nam, ts_pos = Suc n,
           ts_events = ts_events ts @ (if fires then fire_alarm obss alarm else []),
           ts_save = (ts_save ts \<or> fires \<and> oneTime)\<rparr>))"

fun alarm_loop ::
  "system_clock \<Rightarrow> AlarmObserver list \<Rightarrow> Alarm list \<Rightarrow> tick_state \<Rightarrow> Alarm list \<times> tick_state" where
  "alarm_loop systemClock obss [] ts = ([], ts)"
| "alarm_loop systemClock obss (a # as) ts =
     (let (a', ts1) = alarm_body systemClock obss a ts;
          (as', ts2) = alarm_loop systemClock obss as ts1
      in (a' # as', ts2))"

text \<open>
  One iteration of \<open>alarmThread\<close> after its sleep: signal the watchdog; nothing more while an
  editor holds the list; else the loop over the alarms, the save, the snooze and off requests.
\<close>

definition alarmThread_pass ::
  "system_clock \<Rightarrow> nat \<Rightarrow> AlarmManager \<Rightarrow> AlarmManager \<times> nat \<times> alarm_event list" where
  "alarmThread_pass systemClock n m =
     (if mCurrentEditor m \<noteq> '''' then (m, n, [SignalWatchdog])
      else
       (let obss = mAlarmObservers m;
            (alarms, ts) = alarm_loop systemClock obss (mAlarmList m)
               \<lparr>ts_next = Map.empty, ts_pos = n, ts_events = [SignalWatchdog], ts_save = False\<rparr>;
            ev_save = (if ts_save ts then [SaveAlarms alarms] else []);
            ev_snooze = (if mSendAlarmSnooze m then map AlarmSnooze obss else []);
            ev_off = (if mSendAlarmOff m then map AlarmOff obss else [])
        in (m\<lparr>mAlarmList := alarms, mNextAlarmMap := ts_next ts,
              mSendAlarmSnooze := False, mSendAlarmOff := False\<rparr>,
            ts_pos ts, ts_events ts @ ev_save @ ev_snooze @ ev_off)))"

section \<open>The next occurrence of an alarm\<close>

text \<open>
  Specification: with \<open>k\<close> minutes added to the reading, the time of day is the alarm's and, for
  a daily alarm, the day reached is one of its days.
\<close>

definition now_minutes :: "LocalTime \<Rightarrow> int" where
  "now_minutes t = uint (lt_mHour t) * 60 + uint (lt_mMin t)"

definition occurs_after :: "Alarm \<Rightarrow> LocalTime \<Rightarrow> int \<Rightarrow> bool" where
  "occurs_after a t k \<longleftrightarrow>
     (now_minutes t + k) mod 1440 = mHour a * 60 + mMinutes a \<and>
     (mAlarmType a = Daily \<longrightarrow>
        bit (mDays a) ((day_int (lt_mDay t) + nat ((now_minutes t + k) div 1440)) mod 7))"

definition valid_time :: "LocalTime \<Rightarrow> bool" where
  "valid_time t \<longleftrightarrow> uint (lt_mHour t) < 24 \<and> uint (lt_mMin t) < 60"

definition valid_alarm :: "Alarm \<Rightarrow> bool" where
  "valid_alarm a \<longleftrightarrow> 0 \<le> mHour a \<and> mHour a < 24 \<and> 0 \<le> mMinutes a \<and> mMinutes a < 60"

lemma day_int_less [simp]: "day_int d < 7"
  by (cases d) auto

lemma next_day_mod:
  "(if day_int d < day_int Saturday then day_int d + 1 else 0) = (day_int d + 1) mod 7"
  by (cases d) auto

lemma now_minutes_range: "valid_time t \<Longrightarrow> 0 \<le> now_minutes t \<and> now_minutes t < 1440"
  by (auto simp: valid_time_def now_minutes_def)

lemma alarm_minutes_range:
  "valid_alarm a \<Longrightarrow> 0 \<le> mHour a * 60 + mMinutes a \<and> mHour a * 60 + mMinutes a < 1440"
  by (auto simp: valid_alarm_def)

text \<open>The occurrences of today and of tomorrow, with the division by the day eliminated.\<close>

lemma occurs_after_today:
  assumes "valid_time t" "0 \<le> k" "now_minutes t + k < 1440"
  shows "occurs_after a t k \<longleftrightarrow>
     now_minutes t + k = mHour a * 60 + mMinutes a \<and>
     (mAlarmType a = Daily \<longrightarrow> bit (mDays a) (day_int (lt_mDay t)))"
  using assms now_minutes_range [OF assms(1)] by (simp add: occurs_after_def)

lemma occurs_after_tomorrow:
  assumes "valid_time t" "1440 \<le> now_minutes t + k" "now_minutes t + k < 2880"
  shows "occurs_after a t k \<longleftrightarrow>
     now_minutes t + k = mHour a * 60 + mMinutes a + 1440 \<and>
     (mAlarmType a = Daily \<longrightarrow> bit (mDays a) ((day_int (lt_mDay t) + 1) mod 7))"
proof -
  define x where "x = now_minutes t + k"
  have "x mod 1440 = x - 1440" and "x div 1440 = 1"
    using assms(2,3) unfolding x_def [symmetric] by (auto simp: minus_div_mult_eq_mod [symmetric])
  then show ?thesis by (auto simp: occurs_after_def x_def [symmetric])
qed

lemma minutesUntilFired_disabled:
  "\<not> mEnabled a \<Longrightarrow> minutesUntilFired a clk n = (-1, n)"
  by (simp add: minutesUntilFired_def)

lemma minutesUntilFired_pos:
  "mEnabled a \<Longrightarrow> snd (minutesUntilFired a clk n) = Suc n"
  by (simp add: minutesUntilFired_def Let_def)

definition on_day :: "Alarm \<Rightarrow> LocalTime \<Rightarrow> nat \<Rightarrow> bool" where
  "on_day a t i \<longleftrightarrow> (mAlarmType a = Daily \<longrightarrow> bit (mDays a) ((day_int (lt_mDay t) + i) mod 7))"

lemma minutesUntilFired_enabled:
  assumes "mEnabled a"
  shows "fst (minutesUntilFired a clk n) =
     (let alm = mHour a * 60 + mMinutes a; now = now_minutes (clk n)
      in if on_day a (clk n) 0 \<and> now \<le> alm then alm - now
         else if on_day a (clk n) 1 then alm + 1440 - now else -1)"
  using assms unfolding minutesUntilFired_def Let_def next_day_mod
  by (cases "mAlarmType a") (auto simp: now_minutes_def on_day_def)

lemma occurs_after_two_days:
  assumes "valid_alarm a" "valid_time t" "0 \<le> k" "now_minutes t + k < 2880"
  defines "alm \<equiv> mHour a * 60 + mMinutes a"
  shows "occurs_after a t k \<longleftrightarrow>
     (now_minutes t + k = alm \<and> on_day a t 0) \<or> (now_minutes t + k = alm + 1440 \<and> on_day a t 1)"
proof (cases "now_minutes t + k < 1440")
  case True
  with assms alarm_minutes_range [OF assms(1)] show ?thesis
    by (auto simp: occurs_after_today on_day_def)
next
  case False
  with assms alarm_minutes_range [OF assms(1)] show ?thesis
    by (auto simp: occurs_after_tomorrow on_day_def)
qed




section \<open>A pass at a fixed time\<close>

definition left_at :: "LocalTime \<Rightarrow> Alarm \<Rightarrow> int" where
  "left_at t a = fst (minutesUntilFired a (\<lambda>_. t) 0)"

definition due :: "LocalTime \<Rightarrow> Alarm \<Rightarrow> bool" where
  "due t a \<longleftrightarrow> left_at t a = 0 \<and> \<not> mSignalled a"

definition one_time :: "Alarm \<Rightarrow> bool" where
  "one_time a \<longleftrightarrow> mAlarmType a = OnTimeLoud \<or> mAlarmType a = OnTimeSmooth"

definition alarm_after :: "LocalTime \<Rightarrow> Alarm \<Rightarrow> Alarm" where
  "alarm_after t a =
     (let a1 = (if due t a then a\<lparr>mSignalled := True, mEnabled := mEnabled a \<and> \<not> one_time a\<rparr> else a)
      in if mHour a \<noteq> uint (lt_mHour t) \<or> mMinutes a \<noteq> uint (lt_mMin t)
         then a1\<lparr>mSignalled := False\<rparr> else a1)"

definition next_after :: "LocalTime \<Rightarrow> AlarmObserver list \<Rightarrow> Alarm \<Rightarrow> (string \<rightharpoonup> NextAlarm) \<Rightarrow> (string \<rightharpoonup> NextAlarm)" where
  "next_after t obss a nam =
     (if left_at t a > 0 then foldl (\<lambda>nam obs. update_next a (left_at t a) obs nam) nam obss else nam)"

lemma minutesUntilFired_const: "fst (minutesUntilFired a (\<lambda>_. t) n) = left_at t a"
  by (simp add: left_at_def minutesUntilFired_def Let_def)

lemma left_at_disabled: "\<not> mEnabled a \<Longrightarrow> left_at t a = -1"
  by (simp add: left_at_def minutesUntilFired_disabled)

lemma due_enabled: "due t a \<Longrightarrow> mEnabled a"
  using left_at_disabled [of a t] by (auto simp: due_def)

lemma alarm_body_const:
  "fst (alarm_body (\<lambda>_. t) obss a ts) = alarm_after t a"
  "ts_next (snd (alarm_body (\<lambda>_. t) obss a ts)) = next_after t obss a (ts_next ts)"
  "ts_events (snd (alarm_body (\<lambda>_. t) obss a ts))
     = ts_events ts @ (if due t a then fire_alarm obss a else [])"
  "ts_save (snd (alarm_body (\<lambda>_. t) obss a ts)) = (ts_save ts \<or> due t a \<and> one_time a)"
proof -
  obtain n where mu: "minutesUntilFired a (\<lambda>_. t) (ts_pos ts) = (left_at t a, n)"
    using minutesUntilFired_const [of a t "ts_pos ts"] by (metis prod.collapse)
  note unf = alarm_body_def mu Let_def split_beta fst_conv snd_conv tick_state.simps
  show "fst (alarm_body (\<lambda>_. t) obss a ts) = alarm_after t a"
    unfolding unf alarm_after_def one_time_def
    by (cases "due t a"; simp only: due_def [symmetric] if_True if_False)
      (use due_enabled in auto)
  show "ts_next (snd (alarm_body (\<lambda>_. t) obss a ts)) = next_after t obss a (ts_next ts)"
    unfolding unf next_after_def by simp
  show "ts_events (snd (alarm_body (\<lambda>_. t) obss a ts))
     = ts_events ts @ (if due t a then fire_alarm obss a else [])"
    unfolding unf due_def by simp
  show "ts_save (snd (alarm_body (\<lambda>_. t) obss a ts)) = (ts_save ts \<or> due t a \<and> one_time a)"
    unfolding unf due_def one_time_def by blast
qed

lemma alarm_loop_const:
  "fst (alarm_loop (\<lambda>_. t) obss as ts) = map (alarm_after t) as"
  "ts_next (snd (alarm_loop (\<lambda>_. t) obss as ts)) = foldl (\<lambda>nam a. next_after t obss a nam) (ts_next ts) as"
  "ts_events (snd (alarm_loop (\<lambda>_. t) obss as ts))
     = ts_events ts @ concat (map (fire_alarm obss) (filter (due t) as))"
  "ts_save (snd (alarm_loop (\<lambda>_. t) obss as ts)) = (ts_save ts \<or> (\<exists>a \<in> set as. due t a \<and> one_time a))"
proof (induction as arbitrary: ts)
  case (Cons a as)
  { case 1 show ?case using Cons.IH(1) by (simp add: alarm_body_const split: prod.splits) (metis alarm_body_const(1) fst_conv)
  next case 2 show ?case using Cons.IH(2) by (simp add: alarm_body_const Let_def split_beta)
  next case 3 show ?case using Cons.IH(3) by (simp add: alarm_body_const Let_def split_beta)
  next case 4 show ?case using Cons.IH(4) by (auto simp add: alarm_body_const Let_def split_beta) }
qed simp_all


lemma alarmThread_pass_const:
  assumes "mCurrentEditor m = ''''"
  shows "fst (alarmThread_pass (\<lambda>_. t) n m) =
      m\<lparr>mAlarmList := map (alarm_after t) (mAlarmList m),
        mNextAlarmMap := foldl (\<lambda>nam a. next_after t (mAlarmObservers m) a nam) Map.empty (mAlarmList m),
        mSendAlarmSnooze := False, mSendAlarmOff := False\<rparr>"
    and "snd (snd (alarmThread_pass (\<lambda>_. t) n m)) =
      SignalWatchdog # concat (map (fire_alarm (mAlarmObservers m)) (filter (due t) (mAlarmList m)))
      @ (if \<exists>a \<in> set (mAlarmList m). due t a \<and> one_time a
         then [SaveAlarms (map (alarm_after t) (mAlarmList m))] else [])
      @ (if mSendAlarmSnooze m then map AlarmSnooze (mAlarmObservers m) else [])
      @ (if mSendAlarmOff m then map AlarmOff (mAlarmObservers m) else [])"
  using assms by (simp_all add: alarmThread_pass_def alarm_loop_const Let_def split_beta)

lemma due_iff_occurs:
  assumes "valid_alarm a" and "valid_time t"
  shows "due t a \<longleftrightarrow> mEnabled a \<and> \<not> mSignalled a \<and> occurs_after a t 0"
proof (cases "mEnabled a")
  case True
  note occ = occurs_after_two_days [OF assms, of 0]
  show ?thesis
    using minutesUntilFired_enabled [OF True, of "\<lambda>_. t" 0] occ
      alarm_minutes_range [OF assms(1)] now_minutes_range [OF assms(2)] True
    by (auto simp: due_def left_at_def Let_def split: if_splits)
next
  case False
  then show ?thesis by (auto simp: due_def left_at_disabled)
qed

text \<open>
  C2. In a pass of the alarm thread with no editor active, an observer is notified with a volume
  and a smoothness exactly when it is registered and some enabled, not yet signalled alarm that
  concerns it occurs at the time read, with that alarm's volume and type.
\<close>

theorem alarm_pass_notifies:
  assumes "mCurrentEditor m = ''''" and "valid_time t"
    and "\<And>a. a \<in> set (mAlarmList m) \<Longrightarrow> valid_alarm a"
  shows "AlarmNotify obs v s \<in> set (snd (snd (alarmThread_pass (\<lambda>_. t) n m))) \<longleftrightarrow>
     obs \<in> set (mAlarmObservers m) \<and>
     (\<exists>a \<in> set (mAlarmList m). mEnabled a \<and> \<not> mSignalled a \<and> occurs_after a t 0 \<and>
        (mUnit a = obs_name obs \<or> mUnit a = '''') \<and>
        v = mVolume a \<and> s = (mAlarmType a \<noteq> OnTimeLoud))"
proof -
  have type: "(T = Daily \<or> T = OnTimeSmooth) = (T \<noteq> OnTimeLoud)" for T
    by (cases T) auto
  show ?thesis
    unfolding alarmThread_pass_const(2) [OF assms(1)]
    using due_iff_occurs [OF assms(3) assms(2)]
    by (auto simp: fire_alarm_def concerns_def type)
qed

lemma left_at_signalled [simp]: "left_at t (a\<lparr>mSignalled := b\<rparr>) = left_at t a"
  by (simp add: left_at_def minutesUntilFired_def Let_def)

lemma left_zero_same_time:
  assumes "valid_alarm a" "valid_time t" "left_at t a = 0"
  shows "mHour a = uint (lt_mHour t) \<and> mMinutes a = uint (lt_mMin t)"
proof -
  have "mEnabled a" using assms(3) left_at_disabled by fastforce
  then have "now_minutes t = mHour a * 60 + mMinutes a"
    using minutesUntilFired_enabled [of a "\<lambda>_. t" 0] assms(3)
      alarm_minutes_range [OF assms(1)] now_minutes_range [OF assms(2)]
    by (auto simp: left_at_def Let_def split: if_splits)
  then have "(uint (lt_mHour t) * 60 + uint (lt_mMin t)) div 60 = (mHour a * 60 + mMinutes a) div 60"
    and "(uint (lt_mHour t) * 60 + uint (lt_mMin t)) mod 60 = (mHour a * 60 + mMinutes a) mod 60"
    by (simp_all add: now_minutes_def)
  with assms(1,2) show ?thesis by (simp add: valid_alarm_def valid_time_def)
qed

lemma not_due_after:
  assumes "valid_alarm a" "valid_time t"
  shows "\<not> due t (alarm_after t a)"
proof (cases "left_at t a = 0")
  case True
  then show ?thesis
    using left_zero_same_time [OF assms True] by (auto simp: alarm_after_def due_def Let_def)
next
  case False
  then show ?thesis by (auto simp: alarm_after_def due_def Let_def)
qed

lemma valid_alarm_after [wf_intros]: "valid_alarm (alarm_after t a) \<longleftrightarrow> valid_alarm a"
  by (auto simp: alarm_after_def valid_alarm_def Let_def)



definition ex_time :: LocalTime where
  "ex_time = \<lparr>lt_mDay = Monday, lt_mHour = 7, lt_mMin = 10\<rparr>"

definition ex_manager :: AlarmManager where
  "ex_manager = \<lparr>mUnitList = [''unit1'', ''unit2''],
     mAlarmList = [new_Alarm\<lparr>mUnit := ''unit1'', mMinutes := 10, mDays := 2\<rparr>,
                   new_Alarm\<lparr>mMinutes := 30, mAlarmType := OnTimeSmooth\<rparr>],
     mAlarmObservers = [\<lparr>obs_addr = 1, obs_name = ''unit1''\<rparr>, \<lparr>obs_addr = 2, obs_name = ''unit2''\<rparr>],
     mCurrentEditor = '''', mAlarmThreadRunning = True, mNextAlarmMap = Map.empty,
     mSendAlarmSnooze = False, mSendAlarmOff = False\<rparr>"

lemma ex_valid: "valid_time ex_time" "a \<in> set (mAlarmList ex_manager) \<Longrightarrow> valid_alarm a"
  by (auto simp: ex_time_def ex_manager_def valid_time_def valid_alarm_def new_Alarm_def)

theorem alarm_pass_notifies_witness:
  "AlarmNotify \<lparr>obs_addr = 1, obs_name = ''unit1''\<rparr> 40 True
     \<in> set (snd (snd (alarmThread_pass (\<lambda>_. ex_time) 0 ex_manager)))"
proof -
  have "mCurrentEditor ex_manager = ''''" by (simp add: ex_manager_def)
  from alarm_pass_notifies [OF this ex_valid(1) ex_valid(2)] show ?thesis
    by (simp add: ex_manager_def ex_time_def new_Alarm_def occurs_after_def now_minutes_def)
qed


section \<open>The table of next alarms\<close>

definition next_entry :: "LocalTime \<Rightarrow> Alarm \<Rightarrow> NextAlarm" where
  "next_entry t a = \<lparr>mIntervalMinutes = left_at t a, na_mHour = mHour a, na_mMinutes = mMinutes a\<rparr>"

definition better :: "LocalTime \<Rightarrow> Alarm \<Rightarrow> NextAlarm option \<Rightarrow> NextAlarm option" where
  "better t a cur =
     (case cur of
        Some na \<Rightarrow> Some (if mIntervalMinutes na > left_at t a then next_entry t a else na)
      | None \<Rightarrow> if left_at t a < 1380 then Some (next_entry t a) else None)"

lemma better_idem [simp]: "better t a (better t a c) = better t a c"
  by (auto simp: better_def next_entry_def split: option.splits)

lemma update_next_at:
  "update_next a (left_at t a) obs nam u =
     (if concerns a obs \<and> obs_name obs = u then better t a (nam u) else nam u)"
  by (auto simp: update_next_def better_def next_entry_def Let_def split: option.splits)

lemma foldl_update_next:
  "foldl (\<lambda>nam obs. update_next a (left_at t a) obs nam) nam obss u =
     (if \<exists>obs \<in> set obss. concerns a obs \<and> obs_name obs = u then better t a (nam u) else nam u)"
  by (induction obss arbitrary: nam) (auto simp: update_next_at)

definition is_candidate :: "LocalTime \<Rightarrow> string \<Rightarrow> Alarm \<Rightarrow> bool" where
  "is_candidate t u a \<longleftrightarrow> 0 < left_at t a \<and> left_at t a < 23 * 60 \<and> (mUnit a = u \<or> mUnit a = '''')"

lemma arg_min_list_snoc:
  "xs \<noteq> [] \<Longrightarrow> arg_min_list f (xs @ [x]) =
     (if f x < f (arg_min_list f xs) then x else (arg_min_list f xs :: 'a))"
  for f :: "'a \<Rightarrow> 'b::linorder"
proof (induction xs rule: induct_list012)
  case (3 y z zs)
  then show ?case by (auto simp: Let_def)
qed auto

definition soonest :: "LocalTime \<Rightarrow> Alarm list \<Rightarrow> NextAlarm option" where
  "soonest t cs = (if cs = [] then None else Some (next_entry t (arg_min_list (left_at t) cs)))"

lemma soonest_snoc:
  assumes "left_at t a < 1380"
  shows "soonest t (cs @ [a]) = better t a (soonest t cs)"
  using assms by (auto simp: soonest_def better_def next_entry_def arg_min_list_snoc)

lemma better_not_soon:
  assumes "\<not> left_at t a < 1380" "\<forall>c \<in> set cs. left_at t c < 1380"
  shows "better t a (soonest t cs) = soonest t cs"
  using assms arg_min_list_in [of cs "left_at t"]
  by (fastforce simp: better_def soonest_def next_entry_def)

lemma next_table:
  "foldl (\<lambda>nam a. next_after t obss a nam) Map.empty as u =
     (if u \<in> obs_name ` set obss then soonest t (filter (is_candidate t u) as) else None)"
proof (induction as rule: rev_induct)
  case Nil
  then show ?case by (simp add: soonest_def)
next
  case (snoc a as)
  let ?m = "foldl (\<lambda>nam a. next_after t obss a nam) Map.empty as"
  have step: "next_after t obss a ?m u =
      (if 0 < left_at t a \<and> u \<in> obs_name ` set obss \<and> (mUnit a = u \<or> mUnit a = '''')
       then better t a (?m u) else ?m u)"
    by (auto simp: next_after_def foldl_update_next concerns_def)
  show ?case
  proof (cases "left_at t a < 1380")
    case True
    then show ?thesis using step snoc.IH by (auto simp: is_candidate_def [of t u a] soonest_snoc)
  next
    case False
    moreover have "\<forall>c \<in> set (filter (is_candidate t u) as). left_at t c < 1380"
      by (simp add: is_candidate_def)
    ultimately show ?thesis using step snoc.IH better_not_soon [OF False]
      by (simp add: is_candidate_def [of t u a])
  qed
qed

text \<open>
  After a pass with no editor active, the next alarm shown for the unit of a registered
  observer is the time of the first soonest alarm that concerns it among those due in less than
  23 hours and not now, printed as two two-digit fields; with no such alarm it is empty.
\<close>

theorem next_alarm_shown:
  assumes "mCurrentEditor m = ''''" and "u \<in> obs_name ` set (mAlarmObservers m)"
  shows "nextAlarm u (fst (alarmThread_pass (\<lambda>_. t) n m)) =
     (let cs = filter (is_candidate t u) (mAlarmList m);
          a = arg_min_list (left_at t) cs
      in if cs = [] then ''''
         else setw0 2 (to_string_int (mHour a)) @ '':'' @ setw0 2 (to_string_int (mMinutes a)))"
  using assms next_table [of t "mAlarmObservers m" "mAlarmList m" u]
  by (simp add: nextAlarm_def alarmThread_pass_const soonest_def next_entry_def
      NextAlarm_to_string_def Let_def)

theorem next_alarm_shown_witness:
  "nextAlarm ''unit1'' (fst (alarmThread_pass (\<lambda>_. ex_time\<lparr>lt_mMin := 20\<rparr>) 0 ex_manager)) = ''07:30''"
proof -
  have "mCurrentEditor ex_manager = ''''" by (simp add: ex_manager_def)
  moreover have "''unit1'' \<in> obs_name ` set (mAlarmObservers ex_manager)" by (simp add: ex_manager_def)
  ultimately have "nextAlarm ''unit1'' (fst (alarmThread_pass (\<lambda>_. ex_time\<lparr>lt_mMin := 20\<rparr>) 0 ex_manager)) =
     (let cs = filter (is_candidate (ex_time\<lparr>lt_mMin := 20\<rparr>) ''unit1'') (mAlarmList ex_manager);
          a = arg_min_list (left_at (ex_time\<lparr>lt_mMin := 20\<rparr>)) cs
      in if cs = [] then ''''
         else setw0 2 (to_string_int (mHour a)) @ '':'' @ setw0 2 (to_string_int (mMinutes a)))"
    by (rule next_alarm_shown)
  also have "\<dots> = ''07:30''" by code_simp
  finally show ?thesis .
qed

section \<open>The edit lock\<close>

text \<open>
  The units' user interfaces and the alarm thread run concurrently; each operation of the
  manager is atomic under its mutexes. The system records which units hold the pointer that
  \<open>editAlarms\<close> returned; a holder may write the list until it calls \<open>saveAlarms\<close>. Unit names
  are not empty.
\<close>

record alarm_sys =
  as_mgr :: AlarmManager
  as_holders :: "string set"

inductive alarm_step :: "alarm_sys \<Rightarrow> alarm_event list \<Rightarrow> alarm_sys \<Rightarrow> bool" where
  edit: "\<lbrakk>u \<noteq> ''''; editAlarms u (as_mgr s) = (granted, m)\<rbrakk> \<Longrightarrow>
    alarm_step s [] (s\<lparr>as_mgr := m,
      as_holders := if granted then insert u (as_holders s) else as_holders s\<rparr>)"
| write_list: "u \<in> as_holders s \<Longrightarrow>
    alarm_step s [] (s\<lparr>as_mgr := (as_mgr s)\<lparr>mAlarmList := alarms\<rparr>\<rparr>)"
| save: "\<lbrakk>u \<noteq> ''''; saveAlarms_unit u (as_mgr s) = (m, ev)\<rbrakk> \<Longrightarrow>
    alarm_step s ev (s\<lparr>as_mgr := m, as_holders := as_holders s - {u}\<rparr>)"
| pass: "alarmThread_pass clk n (as_mgr s) = (m, n', ev) \<Longrightarrow> alarm_step s ev (s\<lparr>as_mgr := m\<rparr>)"
| register: "alarm_step s [] (s\<lparr>as_mgr := registerAlarmObserver p (as_mgr s)\<rparr>)"
| unregister: "alarm_step s [] (s\<lparr>as_mgr := unRegisterAlarmObserver p (as_mgr s)\<rparr>)"
| snooze: "alarm_step s [] (s\<lparr>as_mgr := sendAlarmSnooze (as_mgr s)\<rparr>)"
| off: "alarm_step s [] (s\<lparr>as_mgr := sendAlarmOff (as_mgr s)\<rparr>)"

inductive alarm_reachable :: "alarm_sys \<Rightarrow> bool" where
  start: "\<lbrakk>mCurrentEditor (as_mgr s) = ''''; as_holders s = {}\<rbrakk> \<Longrightarrow> alarm_reachable s"
| step: "\<lbrakk>alarm_reachable s; alarm_step s ev s'\<rbrakk> \<Longrightarrow> alarm_reachable s'"

definition edit_inv :: "alarm_sys \<Rightarrow> bool" where
  "edit_inv s \<longleftrightarrow> as_holders s =
     (if mCurrentEditor (as_mgr s) = '''' then {} else {mCurrentEditor (as_mgr s)})"

lemma alarmThread_pass_editor:
  "alarmThread_pass clk n m = (m', n', ev) \<Longrightarrow> mCurrentEditor m' = mCurrentEditor m"
  by (auto simp: alarmThread_pass_def Let_def split: if_splits prod.splits)

lemma observer_ops_editor [simp]:
  "mCurrentEditor (registerAlarmObserver p m) = mCurrentEditor m"
  "mCurrentEditor (unRegisterAlarmObserver p m) = mCurrentEditor m"
  "mCurrentEditor (sendAlarmSnooze m) = mCurrentEditor m"
  "mCurrentEditor (sendAlarmOff m) = mCurrentEditor m"
  by (auto simp: registerAlarmObserver_def unRegisterAlarmObserver_def sendAlarmSnooze_def
      sendAlarmOff_def split: option.splits)

lemma editAlarms_editor:
  "editAlarms u m = (granted, m') \<Longrightarrow>
     granted = (mCurrentEditor m = '''' \<or> mCurrentEditor m = u) \<and>
     mCurrentEditor m' = (if granted then u else mCurrentEditor m)"
  by (auto simp: editAlarms_def split: if_splits)

lemma saveAlarms_unit_editor:
  "saveAlarms_unit u m = (m', ev) \<Longrightarrow>
     mCurrentEditor m' = (if mCurrentEditor m = u then '''' else mCurrentEditor m)"
  by (auto simp: saveAlarms_unit_def split: if_splits)

lemma edit_inv_step: "alarm_step s ev s' \<Longrightarrow> edit_inv s \<Longrightarrow> edit_inv s'"
proof (induction rule: alarm_step.induct)
  case (edit u s granted m)
  from editAlarms_editor [OF edit.hyps(2)] edit.hyps(1) edit.prems show ?case
    by (auto simp: edit_inv_def)
next
  case (save u s m ev)
  from saveAlarms_unit_editor [OF save.hyps(2)] save.hyps(1) save.prems show ?case
    by (auto simp: edit_inv_def)
next
  case (pass clk n s m n' ev)
  then show ?case by (simp add: edit_inv_def alarmThread_pass_editor)
qed (simp_all add: edit_inv_def)

lemma alarm_reachable_inv: "alarm_reachable s \<Longrightarrow> edit_inv s"
proof (induction rule: alarm_reachable.induct)
  case (start s)
  then show ?case by (simp add: edit_inv_def)
next
  case (step s ev s')
  then show ?case by (blast intro: edit_inv_step)
qed

text \<open>
  C12. In every state the units and the alarm thread can reach, a unit that holds the alarm list
  for editing is the only one: any other unit is refused, its save changes nothing, and a pass
  of the alarm thread leaves the manager as it is and only feeds the watchdog.
\<close>

theorem edit_lock_exclusive:
  assumes "alarm_reachable s" and "u \<in> as_holders s"
  shows "as_holders s = {u} \<and>
     (\<forall>v. v \<noteq> u \<longrightarrow> editAlarms v (as_mgr s) = (False, as_mgr s)
                \<and> saveAlarms_unit v (as_mgr s) = (as_mgr s, [])) \<and>
     alarmThread_pass clk n (as_mgr s) = (as_mgr s, n, [SignalWatchdog])"
proof -
  from alarm_reachable_inv [OF assms(1)] assms(2)
  have "mCurrentEditor (as_mgr s) = u" "u \<noteq> ''''" "as_holders s = {u}"
    by (auto simp: edit_inv_def split: if_splits)
  then show ?thesis by (simp add: editAlarms_def saveAlarms_unit_def alarmThread_pass_def)
qed

theorem edit_lock_exclusive_witness:
  "alarmThread_pass (\<lambda>_. ex_time) 0 (ex_manager\<lparr>mCurrentEditor := ''unit1''\<rparr>)
     = (ex_manager\<lparr>mCurrentEditor := ''unit1''\<rparr>, 0, [SignalWatchdog])
   \<and> fst (editAlarms ''unit2'' (ex_manager\<lparr>mCurrentEditor := ''unit1''\<rparr>)) = False"
proof -
  define s where "s = \<lparr>as_mgr = ex_manager, as_holders = {}\<rparr>"
  define s' where "s' = \<lparr>as_mgr = ex_manager\<lparr>mCurrentEditor := ''unit1''\<rparr>, as_holders = {''unit1''}\<rparr>"
  have "alarm_reachable s" by (rule alarm_reachable.start) (simp_all add: s_def ex_manager_def)
  moreover have "alarm_step s [] s'"
    using alarm_step.edit [of "''unit1''" s True "ex_manager\<lparr>mCurrentEditor := ''unit1''\<rparr>"]
    by (simp add: s_def s'_def editAlarms_def ex_manager_def)
  ultimately have r: "alarm_reachable s'" by (rule alarm_reachable.step)
  have h: "''unit1'' \<in> as_holders s'" by (simp add: s'_def)
  show ?thesis
    using edit_lock_exclusive [OF r h, of "\<lambda>_. ex_time" 0] by (simp add: s'_def)
qed

section \<open>Cycling through the units\<close>

lemma dropWhile_at:
  "distinct us \<Longrightarrow> i < length us \<Longrightarrow> dropWhile (\<lambda>x. x \<noteq> us ! i) us = drop i us"
  by (induction us arbitrary: i) (auto simp: nth_Cons split: nat.splits)

text \<open>
  From the empty name, \<open>nextUnitName\<close> walks through the whole unit list in order and then
  returns to the empty name, for a list of distinct, non-empty names.
\<close>

theorem nextUnitName_cycle:
  assumes "mUnitList m = us" and "us \<noteq> []" and "distinct us" and "'''' \<notin> set us"
  shows "nextUnitName '''' m = Some (us ! 0) \<and>
     (\<forall>i. Suc i < length us \<longrightarrow> nextUnitName (us ! i) m = Some (us ! Suc i)) \<and>
     nextUnitName (us ! (length us - 1)) m = Some ''''"
proof (intro conjI allI impI)
  show "nextUnitName '''' m = Some (us ! 0)"
    using assms(1,2) by (cases us) (auto simp: nextUnitName_def Let_def)
  have nonempty: "us ! j \<noteq> ''''" if "j < length us" for j
    using assms(4) that nth_mem by metis
  show "nextUnitName (us ! i) m = Some (us ! Suc i)" if "Suc i < length us" for i
    using that nonempty [of i] assms(1) dropWhile_at [OF assms(3), of i]
    by (simp add: nextUnitName_def Let_def Cons_nth_drop_Suc [symmetric])
  have "\<not> length us \<le> length us - 1" using assms(2) by (cases us) auto
  then show "nextUnitName (us ! (length us - 1)) m = Some ''''"
    using nonempty [of "length us - 1"] assms(1,2) dropWhile_at [OF assms(3), of "length us - 1"]
    by (simp add: nextUnitName_def Let_def tl_drop)
qed

theorem nextUnitName_cycle_witness:
  "nextUnitName '''' ex_manager = Some ''unit1'' \<and> nextUnitName ''unit1'' ex_manager = Some ''unit2''
   \<and> nextUnitName ''unit2'' ex_manager = Some ''''"
proof -
  have us: "mUnitList ex_manager = [''unit1'', ''unit2'']" by (simp add: ex_manager_def)
  show ?thesis using nextUnitName_cycle [OF us] by auto
qed

end
