(* ===== verification/Alarm_File.thy ===== *)
theory Alarm_File
  imports Alarm_Manager
begin

text \<open>
  The alarm file: \<open>AlarmManager::loadAlarms\<close> and \<open>saveAlarms\<close>, and the constructor and thread
  control of the manager. The XML library tinyxml2 is not part of the sources: it is a parameter,
  a record of the calls the code makes, over an opaque type of files, documents and element
  pointers. The document the save code builds by its calls of \<open>NewElement\<close>, \<open>SetText\<close> and
  \<open>InsertEndChild\<close> is a tree.
\<close>

section \<open>The XML library as a parameter\<close>

datatype xml_elem = XElem (xe_name: string) (xe_text: "string option") (xe_kids: "xml_elem list")

record ('f, 'd, 'e) tinyxml2 =
  xml_SaveFile :: "xml_elem \<Rightarrow> 'f"
  xml_LoadFile :: "'f \<Rightarrow> 'd option"
  xml_DocFirstChild :: "'d \<Rightarrow> string \<Rightarrow> 'e option"
  xml_FirstChildElement :: "'e \<Rightarrow> string \<Rightarrow> 'e option"
  xml_NextSiblingElement :: "'e \<Rightarrow> 'e option"
  xml_GetText :: "'e \<Rightarrow> string option"

text \<open>
  The library's documented behaviour on a saved document that is loaded again: element pointers
  show the tree; children are found by name, first match first, and chained in order; the text
  of an element is what was set, an empty text reading as a null pointer. Text of white space
  only is dropped and a carriage return is normalised on loading, so both are excluded.
\<close>

fun chained :: "('e \<Rightarrow> 'e option) \<Rightarrow> 'e list \<Rightarrow> bool" where
  "chained nxt [] = True"
| "chained nxt [e] = (nxt e = None)"
| "chained nxt (e # e' # es) = (nxt e = Some e' \<and> chained nxt (e' # es))"

fun shows_elem :: "('f, 'd, 'e) tinyxml2 \<Rightarrow> xml_elem \<Rightarrow> 'e \<Rightarrow> bool" where
  "shows_elem x (XElem nm txt kids) e \<longleftrightarrow>
     xml_GetText x e = (if txt = Some '''' then None else txt) \<and>
     (\<exists>es. list_all2 (shows_elem x) kids es \<and> chained (xml_NextSiblingElement x) es \<and>
        (\<forall>tag. xml_FirstChildElement x e tag =
           map_option snd (find (\<lambda>(k, _). xe_name k = tag) (zip kids es))))"

definition text_ok :: "string \<Rightarrow> bool" where
  "text_ok t \<longleftrightarrow> t = '''' \<or> (list_ex (\<lambda>c. \<not> is_space c) t \<and>
      list_all (\<lambda>c. (of_char c :: nat) \<noteq> 13 \<and> (of_char c :: nat) \<noteq> 0) t)"

fun tree_ok :: "xml_elem \<Rightarrow> bool" where
  "tree_ok (XElem nm txt kids) \<longleftrightarrow>
     (case txt of None \<Rightarrow> True | Some t \<Rightarrow> text_ok t) \<and> list_all tree_ok kids"

definition xml_faithful :: "('f, 'd, 'e) tinyxml2 \<Rightarrow> bool" where
  "xml_faithful x \<longleftrightarrow>
     (\<forall>tree. tree_ok tree \<longrightarrow>
       (\<exists>d r. xml_LoadFile x (xml_SaveFile x tree) = Some d \<and>
              xml_DocFirstChild x d (xe_name tree) = Some r \<and> shows_elem x tree r))"

section \<open>Loading\<close>

text \<open>The text of an optional child element: the element is absent, has no text, or has text.\<close>

definition child_text :: "('f, 'd, 'e) tinyxml2 \<Rightarrow> 'e \<Rightarrow> string \<Rightarrow> string option option" where
  "child_text x e tag = map_option (xml_GetText x) (xml_FirstChildElement x e tag)"

text \<open>The fields guarded by a test of the element and of its text.\<close>

definition guarded_int ::
  "('f, 'd, 'e) tinyxml2 \<Rightarrow> 'e \<Rightarrow> string \<Rightarrow> (int \<Rightarrow> Alarm \<Rightarrow> Alarm) \<Rightarrow> Alarm \<Rightarrow> Alarm throws" where
  "guarded_int x e tag upd a =
     (case child_text x e tag of
        Some (Some s) \<Rightarrow> bind_throws (stoi s) (\<lambda>v. Inr (upd v a))
      | _ \<Rightarrow> Inr a)"

definition load_unit :: "('f, 'd, 'e) tinyxml2 \<Rightarrow> 'e \<Rightarrow> Alarm \<Rightarrow> Alarm" where
  "load_unit x e a = (case child_text x e ''unit'' of Some (Some s) \<Rightarrow> a\<lparr>mUnit := s\<rparr> | _ \<Rightarrow> a)"

text \<open>The fields guarded by a test of the element only: a null text is dereferenced.\<close>

definition load_type :: "('f, 'd, 'e) tinyxml2 \<Rightarrow> 'e \<Rightarrow> Alarm \<Rightarrow> Alarm throws" where
  "load_type x e a =
     (case child_text x e ''type'' of
        None \<Rightarrow> Inr a
      | Some None \<Rightarrow> Inl null_pointer
      | Some (Some s) \<Rightarrow>
          (let a1 = (if s = ''D'' then a\<lparr>mAlarmType := Daily\<rparr> else a);
               a2 = (if s = ''L'' then a1\<lparr>mAlarmType := OnTimeLoud\<rparr> else a1)
           in Inr (if s = ''E'' then a2\<lparr>mAlarmType := OnTimeSmooth\<rparr> else a2)))"

definition load_volume :: "('f, 'd, 'e) tinyxml2 \<Rightarrow> 'e \<Rightarrow> Alarm \<Rightarrow> Alarm throws" where
  "load_volume x e a =
     (case child_text x e ''volume'' of
        None \<Rightarrow> Inr a
      | Some None \<Rightarrow> Inl null_pointer
      | Some (Some s) \<Rightarrow> bind_throws (stoi s) (\<lambda>v. Inr (a\<lparr>mVolume := v\<rparr>)))"

definition load_days :: "('f, 'd, 'e) tinyxml2 \<Rightarrow> 'e \<Rightarrow> Alarm \<Rightarrow> Alarm throws" where
  "load_days x e a =
     (case child_text x e ''days'' of
        None \<Rightarrow> Inr a
      | Some None \<Rightarrow> Inl null_pointer
      | Some (Some s) \<Rightarrow> bind_throws (bitset_of_string s) (\<lambda>w. Inr (a\<lparr>mDays := w\<rparr>)))"

definition load_alarm :: "('f, 'd, 'e) tinyxml2 \<Rightarrow> 'e \<Rightarrow> Alarm throws" where
  "load_alarm x e =
     bind_throws (guarded_int x e ''enabled'' (\<lambda>v a. a\<lparr>mEnabled := v \<noteq> 0\<rparr>) new_Alarm) (\<lambda>a1.
     let a2 = load_unit x e a1 in
     bind_throws (guarded_int x e ''hour'' (\<lambda>v a. a\<lparr>mHour := v\<rparr>) a2) (\<lambda>a3.
     bind_throws (guarded_int x e ''minutes'' (\<lambda>v a. a\<lparr>mMinutes := v\<rparr>) a3) (\<lambda>a4.
     bind_throws (load_type x e a4) (\<lambda>a5.
     bind_throws (load_volume x e a5) (\<lambda>a6.
     load_days x e a6)))))"

text \<open>
  The loop over the sibling elements. Whether it ends is up to the library's sibling pointers:
  None is a loop that does not end.
\<close>

partial_function (option) load_loop ::
  "('f, 'd, 'e) tinyxml2 \<Rightarrow> 'e \<Rightarrow> Alarm list \<Rightarrow> Alarm list throws option" where
  "load_loop x e acc =
     (case load_alarm x e of
        Inl ex \<Rightarrow> Some (Inl ex)
      | Inr a \<Rightarrow>
         (case xml_NextSiblingElement x e of
            None \<Rightarrow> Some (Inr (acc @ [a]))
          | Some e' \<Rightarrow> load_loop x e' (acc @ [a])))"

text \<open>
  \<open>loadAlarms\<close> on a manager: a missing file, a file that is not XML or a document without an
  \<open>alarms\<close> element leave the list as it is; otherwise the list is replaced.
\<close>

definition loadAlarms ::
  "('f, 'd, 'e) tinyxml2 \<Rightarrow> 'f option \<Rightarrow> AlarmManager \<Rightarrow> AlarmManager throws option" where
  "loadAlarms x file m =
     (case file of
        None \<Rightarrow> Some (Inr m)
      | Some f \<Rightarrow>
         (case xml_LoadFile x f of
            None \<Rightarrow> Some (Inr m)
          | Some doc \<Rightarrow>
             (case xml_DocFirstChild x doc ''alarms'' of
                None \<Rightarrow> Some (Inr m)
              | Some alarms \<Rightarrow>
                 (case xml_FirstChildElement x alarms ''alarm'' of
                    None \<Rightarrow> Some (Inr (m\<lparr>mAlarmList := []\<rparr>))
                  | Some e \<Rightarrow>
                     map_option (\<lambda>r. bind_throws r (\<lambda>as. Inr (m\<lparr>mAlarmList := as\<rparr>)))
                       (load_loop x e [])))))"

section \<open>Saving\<close>

definition leaf :: "string \<Rightarrow> string \<Rightarrow> xml_elem" where
  "leaf tag txt = XElem tag (Some txt) []"

definition save_alarm :: "Alarm \<Rightarrow> xml_elem" where
  "save_alarm alarm = XElem ''alarm'' None
     [leaf ''enabled'' (to_string_int (if mEnabled alarm then 1 else 0)),
      leaf ''unit'' (mUnit alarm),
      leaf ''hour'' (to_string_int (mHour alarm)),
      leaf ''minutes'' (to_string_int (mMinutes alarm)),
      leaf ''type'' (typeString alarm),
      leaf ''days'' (bitset_to_string (mDays alarm)),
      leaf ''volume'' (to_string_int (mVolume alarm))]"

definition saveAlarms :: "('f, 'd, 'e) tinyxml2 \<Rightarrow> AlarmManager \<Rightarrow> 'f" where
  "saveAlarms x m = xml_SaveFile x (XElem ''alarms'' None (map save_alarm (mAlarmList m)))"

section \<open>Construction and thread control\<close>

definition startAlarmThread :: "AlarmManager \<Rightarrow> AlarmManager" where
  "startAlarmThread m = m\<lparr>mAlarmThreadRunning := True\<rparr>"

definition stopAlarmThread :: "AlarmManager \<Rightarrow> AlarmManager" where
  "stopAlarmThread m = m\<lparr>mAlarmThreadRunning := False\<rparr>"

definition new_AlarmManager ::
  "('f, 'd, 'e) tinyxml2 \<Rightarrow> 'f option \<Rightarrow> string list \<Rightarrow> AlarmManager throws option" where
  "new_AlarmManager x file unitList =
     map_option (\<lambda>r. bind_throws r (\<lambda>m. Inr (startAlarmThread m)))
       (loadAlarms x file
         \<lparr>mUnitList = unitList, mAlarmList = [], mAlarmObservers = [], mCurrentEditor = '''',
          mAlarmThreadRunning = False, mNextAlarmMap = Map.empty, mSendAlarmSnooze = False,
          mSendAlarmOff = False\<rparr>)"

section \<open>Round trip\<close>

definition in_int_range :: "int \<Rightarrow> bool" where
  "in_int_range i \<longleftrightarrow> INT_MIN \<le> i \<and> i \<le> INT_MAX"

definition storable :: "Alarm \<Rightarrow> bool" where
  "storable a \<longleftrightarrow> in_int_range (mHour a) \<and> in_int_range (mMinutes a) \<and> in_int_range (mVolume a)
     \<and> text_ok (mUnit a)"

lemma stoi_to_string_range: "in_int_range i \<Longrightarrow> stoi (to_string_int i) = Inr i"
  by (simp add: in_int_range_def stoi_to_string)

lemma to_string_int_nonempty [simp]: "to_string_int i \<noteq> ''''"
  by (simp add: to_string_int_def)

lemma bitset_to_string_nonempty [simp]: "bitset_to_string w \<noteq> ''''"
  by (simp add: bitset_to_string_def)

lemma typeString_nonempty [simp]: "typeString a \<noteq> ''''"
  by (simp add: typeString_def split: AlarmType.splits)

lemma text_ok_printed:
  "list_all is_digit t \<Longrightarrow> text_ok t"
  "list_all is_digit t \<Longrightarrow> text_ok (CHR ''-'' # t)"
  by (auto simp: text_ok_def list_all_iff list_ex_iff is_digit_def is_space_def neq_Nil_conv)

lemma text_ok_to_string [simp]: "text_ok (to_string_int i)"
  by (simp add: to_string_int_def text_ok_printed show_nat_digits)

lemma text_ok_bitset [simp]: "text_ok (bitset_to_string w)"
  by (rule text_ok_printed(1)) (auto simp: bitset_to_string_def is_digit_def list_all_iff)

lemma text_ok_type [simp]: "text_ok (typeString a)"
  by (simp add: typeString_def text_ok_def is_space_def split: AlarmType.splits)

lemma tree_ok_save: "storable a \<Longrightarrow> tree_ok (save_alarm a)"
  by (simp add: save_alarm_def leaf_def storable_def)

lemma child_text_leaves:
  assumes "shows_elem x (XElem nm t (map (\<lambda>(k, v). leaf k v) kvs)) e"
  shows "child_text x e tag = map_option (\<lambda>v. if v = '''' then None else Some v) (map_of kvs tag)"
proof -
  from assms obtain es where es: "list_all2 (shows_elem x) (map (\<lambda>(k, v). leaf k v) kvs) es"
    and fc: "\<And>tag. xml_FirstChildElement x e tag =
       map_option snd (find (\<lambda>(k, _). xe_name k = tag) (zip (map (\<lambda>(k, v). leaf k v) kvs) es))"
    by auto
  have "map_option (xml_GetText x)
      (map_option snd (find (\<lambda>(k, _). xe_name k = tag) (zip (map (\<lambda>(k, v). leaf k v) kvs) es)))
      = map_option (\<lambda>v. if v = '''' then None else Some v) (map_of kvs tag)"
    using es
  proof (induction kvs arbitrary: es)
    case (Cons kv kvs)
    then obtain e1 es1 where "es = e1 # es1" by (auto simp: list_all2_Cons1)
    with Cons show ?case by (cases kv) (auto simp: leaf_def)
  qed simp
  then show ?thesis by (simp add: child_text_def fc)
qed

lemma save_alarm_leaves:
  "save_alarm a = XElem ''alarm'' None (map (\<lambda>(k, v). leaf k v)
     [(''enabled'', to_string_int (if mEnabled a then 1 else 0)), (''unit'', mUnit a),
      (''hour'', to_string_int (mHour a)), (''minutes'', to_string_int (mMinutes a)),
      (''type'', typeString a), (''days'', bitset_to_string (mDays a)),
      (''volume'', to_string_int (mVolume a))])"
  by (simp add: save_alarm_def)

lemma load_save_alarm:
  assumes "shows_elem x (save_alarm a) e" and "storable a"
  shows "load_alarm x e = Inr (a\<lparr>mSignalled := False\<rparr>)"
proof -
  note ct = child_text_leaves [OF assms(1) [unfolded save_alarm_leaves]]
  have b: "stoi (to_string_int (if mEnabled a then 1 else 0)) = Inr (if mEnabled a then 1 else 0)"
    by (simp add: stoi_to_string INT_MIN_def INT_MAX_def)
  have r: "stoi (to_string_int (mHour a)) = Inr (mHour a)"
    "stoi (to_string_int (mMinutes a)) = Inr (mMinutes a)"
    "stoi (to_string_int (mVolume a)) = Inr (mVolume a)"
    using assms(2) by (simp_all add: storable_def stoi_to_string_range)
  have "load_unit x e b' = b'\<lparr>mUnit := mUnit a\<rparr>" if "mUnit b' = ''''" for b' :: Alarm
    using that by (simp add: load_unit_def ct)
  then show ?thesis
    by (cases "mAlarmType a")
      (simp_all add: load_alarm_def guarded_int_def ct b r load_type_def load_volume_def
        load_days_def bitset_string_roundtrip new_Alarm_def typeString_def)
qed

lemma load_loop_saved:
  assumes "list_all2 (shows_elem x) (map save_alarm as) (e # es)"
    and "chained (xml_NextSiblingElement x) (e # es)" and "list_all storable as"
  shows "load_loop x e acc = Some (Inr (acc @ map (\<lambda>a. a\<lparr>mSignalled := False\<rparr>) as))"
  using assms
proof (induction as arbitrary: e es acc)
  case (Cons a as)
  from Cons.prems have la: "load_alarm x e = Inr (a\<lparr>mSignalled := False\<rparr>)"
    by (auto intro: load_save_alarm)
  show ?case
  proof (cases es)
    case Nil
    with Cons.prems la show ?thesis by (simp add: load_loop.simps)
  next
    case (Cons e' es')
    with Cons.prems Cons.IH [of e' es' "acc @ [a\<lparr>mSignalled := False\<rparr>]"] la show ?thesis
      by (simp add: load_loop.simps [of x e])
  qed
qed simp

lemma find_first_alarm:
  assumes "list_all2 (shows_elem x) (map save_alarm (a # as)) es"
  shows "find (\<lambda>(k, _). xe_name k = ''alarm'') (zip (map save_alarm (a # as)) es) = Some (save_alarm a, hd es)"
  using assms by (cases es) (auto simp: save_alarm_def)

text \<open>
  C13. Saving the alarm list and loading the file again, in a new manager or in the same one,
  gives back every alarm with all its fields, in order, only the transient signalled flag
  cleared, and the load ends without an exception. The XML library is assumed to read back what
  it wrote; numbers fit in an int and unit names survive XML text.
\<close>

theorem alarm_file_roundtrip:
  assumes "xml_faithful x" and "list_all storable (mAlarmList m)"
  shows "loadAlarms x (Some (saveAlarms x m)) m0 =
     Some (Inr (m0\<lparr>mAlarmList := map (\<lambda>a. a\<lparr>mSignalled := False\<rparr>) (mAlarmList m)\<rparr>))"
proof -
  let ?tree = "XElem ''alarms'' None (map save_alarm (mAlarmList m))"
  have "tree_ok ?tree"
    using assms(2) by (auto simp: list_all_iff intro: tree_ok_save)
  with assms(1) obtain d r where ld: "xml_LoadFile x (xml_SaveFile x ?tree) = Some d"
    "xml_DocFirstChild x d ''alarms'' = Some r" and sh: "shows_elem x ?tree r"
    unfolding xml_faithful_def by (metis xml_elem.sel(1))
  from sh obtain es where es: "list_all2 (shows_elem x) (map save_alarm (mAlarmList m)) es"
    "chained (xml_NextSiblingElement x) es"
    and fc: "xml_FirstChildElement x r ''alarm'' = map_option snd
       (find (\<lambda>(k, _). xe_name k = ''alarm'') (zip (map save_alarm (mAlarmList m)) es))"
    by auto
  show ?thesis
  proof (cases "mAlarmList m")
    case Nil
    then show ?thesis using ld fc by (simp add: loadAlarms_def saveAlarms_def)
  next
    case (Cons a as)
    then obtain e es' where e: "es = e # es'" using es by (cases es) auto
    have "xml_FirstChildElement x r ''alarm'' = Some e"
      using fc find_first_alarm [of x a as es] es(1) Cons e by simp
    then show ?thesis
      using ld load_loop_saved [of x "mAlarmList m" e es' "[]"] es e assms(2)
      by (simp add: loadAlarms_def saveAlarms_def)
  qed
qed

text \<open>
  A concrete library for the witness: a file is the tree itself and an element pointer is the
  element with its later siblings.
\<close>

definition tree_xml :: "(xml_elem, xml_elem, xml_elem list) tinyxml2" where
  "tree_xml = \<lparr>xml_SaveFile = (\<lambda>t. t), xml_LoadFile = Some,
     xml_DocFirstChild = (\<lambda>d tag. if xe_name d = tag then Some [d] else None),
     xml_FirstChildElement = (\<lambda>e tag. case e of [] \<Rightarrow> None | k # _ \<Rightarrow>
        (case dropWhile (\<lambda>c. xe_name c \<noteq> tag) (xe_kids k) of [] \<Rightarrow> None | ks \<Rightarrow> Some ks)),
     xml_NextSiblingElement = (\<lambda>e. if tl e = [] then None else Some (tl e)),
     xml_GetText = (\<lambda>e. case e of [] \<Rightarrow> None | k # _ \<Rightarrow>
        (if xe_text k = Some '''' then None else xe_text k))\<rparr>"

fun suffixes_of :: "'a list \<Rightarrow> 'a list list" where
  "suffixes_of [] = []"
| "suffixes_of (k # ks) = (k # ks) # suffixes_of ks"

lemma suffixes_chained: "chained (xml_NextSiblingElement tree_xml) (suffixes_of ks)"
proof (induction ks)
  case (Cons k ks)
  then show ?case by (cases ks) (auto simp: tree_xml_def)
qed simp

lemma suffixes_find:
  "map_option snd (find (\<lambda>(k, _). xe_name k = tag) (zip ks (suffixes_of ks))) =
     (case dropWhile (\<lambda>c. xe_name c \<noteq> tag) ks of [] \<Rightarrow> None | ks' \<Rightarrow> Some ks')"
  by (induction ks) auto

lemma tree_xml_shows: "shows_elem tree_xml t (t # rest)"
proof (induction t arbitrary: rest)
  case (XElem nm tx kids)
  have "list_all2 (shows_elem tree_xml) ks (suffixes_of ks)" if "set ks \<subseteq> set kids" for ks
    using that XElem.IH by (induction ks) auto
  then show ?case
    using suffixes_chained [of kids] suffixes_find [of _ kids]
    by (auto simp: tree_xml_def intro!: exI [of _ "suffixes_of kids"])
qed

lemma tree_xml_faithful: "xml_faithful tree_xml"
proof -
  have "xml_LoadFile tree_xml (xml_SaveFile tree_xml t) = Some t"
    "xml_DocFirstChild tree_xml t (xe_name t) = Some [t]" for t
    by (simp_all add: tree_xml_def)
  then show ?thesis unfolding xml_faithful_def using tree_xml_shows by blast
qed

theorem alarm_file_roundtrip_witness:
  "loadAlarms tree_xml (Some (saveAlarms tree_xml ex_manager)) (ex_manager\<lparr>mAlarmList := []\<rparr>)
     = Some (Inr ex_manager)"
proof -
  have s: "list_all storable (mAlarmList ex_manager)"
    by (simp add: ex_manager_def new_Alarm_def storable_def in_int_range_def INT_MIN_def INT_MAX_def
        text_ok_def is_space_def)
  show ?thesis
    using alarm_file_roundtrip [OF tree_xml_faithful s, of "ex_manager\<lparr>mAlarmList := []\<rparr>"]
    by (simp add: ex_manager_def new_Alarm_def)
qed

end
