(* ===== verification/I2C_Bus.thy ===== *)
theory I2C_Bus
  imports Cpp_Std
begin

text \<open>
  The I2C bus (\<open>rgbclock/RgbLib/src/lib/I2C.cpp\<close>): a transfer with its statistics and error flags,
  the retry loop, the register accesses built on it, and the thread that computes the byte
  rates. What the kernel does with a transfer is an outcome read from a sequence, one per attempt;
  a position counts the attempts made so far. \<open>bus_log\<close> collects the address and the data of every
  write the kernel accepted.
\<close>

section \<open>State\<close>

record StatData =
  mName :: string
  mByteCount :: int
  mBytesPerSecond :: int
  mMaxBytesPerSecond :: int

definition new_StatData :: StatData where
  "new_StatData = \<lparr>mName = '''', mByteCount = 0, mBytesPerSecond = 0, mMaxBytesPerSecond = 0\<rparr>"

text \<open>
  The outcome of one attempt: the bus does not open, the address is refused, the write is short,
  the read fails after some bytes, or the transfer succeeds. The function gives the bytes the device sends.
\<close>

datatype i2c_outcome =
    OpenFails
  | AddressFails
  | WriteFails
  | ReadFails nat "nat \<Rightarrow> u8"
  | Transferred "nat \<Rightarrow> u8"

type_synonym i2c_bus = "nat \<Rightarrow> i2c_outcome"

datatype i2c_exception = FailedToOpenBus

record I2C =
  mI2CWriteError :: "u8 \<Rightarrow> bool"
  mAddressStatistics :: "u8 \<rightharpoonup> StatData"
  mGeneralStatistics :: StatData
  mStatisticsThreadRunning :: bool
  bus_pos :: nat
  bus_log :: "(u8 \<times> bytes) list"

text \<open>The constructor opens the bus once; the exception leaves no object.\<close>

definition new_I2C :: "bool \<Rightarrow> I2C option" where
  "new_I2C opens =
     (if opens
      then Some \<lparr>mI2CWriteError = (\<lambda>_. False), mAddressStatistics = Map.empty, mGeneralStatistics = new_StatData,
                 mStatisticsThreadRunning = True, bus_pos = 0, bus_log = []\<rparr>
      else None)"

definition DEFAULT_I2C_RETRY :: int where "DEFAULT_I2C_RETRY = 3"

text \<open>\<open>operator[]\<close> of the map: a missing entry is created with zeros.\<close>

definition stat_at :: "I2C \<Rightarrow> u8 \<Rightarrow> StatData" where
  "stat_at s a = (case mAddressStatistics s a of None \<Rightarrow> new_StatData | Some st \<Rightarrow> st)"

definition count_bytes :: "u8 \<Rightarrow> int \<Rightarrow> I2C \<Rightarrow> I2C" where
  "count_bytes a n s =
     s\<lparr>mAddressStatistics := (mAddressStatistics s)
         (a \<mapsto> (stat_at s a)\<lparr>mByteCount := mByteCount (stat_at s a) + n\<rparr>)\<rparr>"

section \<open>Transfers\<close>

definition readWriteDataNoRetry ::
  "i2c_bus \<Rightarrow> u8 \<Rightarrow> bytes \<Rightarrow> bytes \<Rightarrow> I2C \<Rightarrow> (i2c_exception + bool \<times> bytes) \<times> I2C" where
  "readWriteDataNoRetry bus a wdata rdata s =
     (let s1 = count_bytes a (1 + int (length wdata) + int (length rdata)) s in
      if length wdata = 0 then (Inr (False, rdata), s1)
      else
       (let s2 = s1\<lparr>bus_pos := Suc (bus_pos s1)\<rparr>;
            err = s2\<lparr>mI2CWriteError := (mI2CWriteError s2)(a := True)\<rparr>;
            ok = s2\<lparr>mI2CWriteError := (mI2CWriteError s2)(a := False), bus_log := bus_log s2 @ [(a, wdata)]\<rparr>
        in case bus (bus_pos s1) of
             OpenFails \<Rightarrow> (Inl FailedToOpenBus, s2)
           | AddressFails \<Rightarrow> (Inr (False, rdata), err)
           | WriteFails \<Rightarrow> (Inr (False, rdata), err)
           | ReadFails k f \<Rightarrow>
               if length rdata = 0 then (Inr (True, rdata), ok)
               else (Inr (False, map f [0..<min k (length rdata)] @ drop k rdata), ok)
           | Transferred f \<Rightarrow> (Inr (True, map f [0..<length rdata]), ok)))"

function retry_loop ::
  "i2c_bus \<Rightarrow> u8 \<Rightarrow> bytes \<Rightarrow> bytes \<Rightarrow> int \<Rightarrow> int \<Rightarrow> I2C \<Rightarrow> (i2c_exception + bool \<times> bytes) \<times> I2C" where
  "retry_loop bus a wdata rdata retryCount retry s =
     (if retry < retryCount
      then (case readWriteDataNoRetry bus a wdata rdata s of
              (Inl e, s') \<Rightarrow> (Inl e, s')
            | (Inr (r, rdata'), s') \<Rightarrow>
                if r then (Inr (True, rdata'), s')
                else retry_loop bus a wdata rdata' retryCount (retry + 1) s')
      else (Inr (False, rdata), s))"
  by pat_completeness auto
termination
  by (relation "measure (\<lambda>(bus, a, wdata, rdata, retryCount, retry, s). nat (retryCount - retry))") auto

declare retry_loop.simps [simp del]

definition readWriteDataWithRetry ::
  "i2c_bus \<Rightarrow> u8 \<Rightarrow> bytes \<Rightarrow> bytes \<Rightarrow> int \<Rightarrow> I2C \<Rightarrow> (i2c_exception + bool \<times> bytes) \<times> I2C" where
  "readWriteDataWithRetry bus a wdata rdata retryCount s = retry_loop bus a wdata rdata retryCount (- 1) s"

definition readWriteData ::
  "i2c_bus \<Rightarrow> u8 \<Rightarrow> bytes \<Rightarrow> bytes \<Rightarrow> int \<Rightarrow> I2C \<Rightarrow> (i2c_exception + bool \<times> bytes) \<times> I2C" where
  "readWriteData bus a wdata rdata retryCount s = readWriteDataWithRetry bus a wdata rdata retryCount s"

definition bool_result :: "(i2c_exception + bool \<times> bytes) \<times> I2C \<Rightarrow> (i2c_exception + bool) \<times> I2C" where
  "bool_result r = (map_sum id fst (fst r), snd r)"

definition probeAddress :: "i2c_bus \<Rightarrow> u8 \<Rightarrow> I2C \<Rightarrow> (i2c_exception + bool) \<times> I2C" where
  "probeAddress bus a s = bool_result (readWriteDataWithRetry bus a [0] [] 0 s)"

definition writeByte :: "i2c_bus \<Rightarrow> u8 \<Rightarrow> u8 \<Rightarrow> int \<Rightarrow> I2C \<Rightarrow> (i2c_exception + bool) \<times> I2C" where
  "writeByte bus a b retryCount s = bool_result (readWriteDataWithRetry bus a [b] [] retryCount s)"

definition writeRegByte :: "i2c_bus \<Rightarrow> u8 \<Rightarrow> u8 \<Rightarrow> u8 \<Rightarrow> int \<Rightarrow> I2C \<Rightarrow> (i2c_exception + bool) \<times> I2C" where
  "writeRegByte bus a reg b retryCount s = bool_result (readWriteDataWithRetry bus a [reg, b] [] retryCount s)"

definition writeData :: "i2c_bus \<Rightarrow> u8 \<Rightarrow> bytes \<Rightarrow> int \<Rightarrow> I2C \<Rightarrow> (i2c_exception + bool) \<times> I2C" where
  "writeData bus a data retryCount s = bool_result (readWriteDataWithRetry bus a data [] retryCount s)"

definition readData_byte :: "i2c_bus \<Rightarrow> u8 \<Rightarrow> u8 \<Rightarrow> int \<Rightarrow> I2C \<Rightarrow> (i2c_exception + bool \<times> u8) \<times> I2C" where
  "readData_byte bus a reg retryCount s =
     (let (r, s') = readWriteDataWithRetry bus a [reg] [0] retryCount s
      in (map_sum id (\<lambda>(b, rd). (b, rd ! 0)) r, s'))"

definition readData_word :: "i2c_bus \<Rightarrow> u8 \<Rightarrow> u8 \<Rightarrow> int \<Rightarrow> I2C \<Rightarrow> (i2c_exception + bool \<times> u16) \<times> I2C" where
  "readData_word bus a reg retryCount s =
     (let (r, s') = readWriteDataWithRetry bus a [reg] [0, 0] retryCount s
      in (map_sum id (\<lambda>(b, rd). (b, ucast (rd ! 0) OR push_bit 8 (ucast (rd ! 1)))) r, s'))"

section \<open>Statistics\<close>

definition registerAddress :: "u8 \<Rightarrow> string \<Rightarrow> I2C \<Rightarrow> I2C" where
  "registerAddress a name s =
     (if mAddressStatistics s a = None
      then s\<lparr>mAddressStatistics := (mAddressStatistics s)(a \<mapsto> new_StatData\<lparr>mName := name\<rparr>)\<rparr>
      else s)"

definition resetStat :: "I2C \<Rightarrow> I2C" where
  "resetStat s =
     s\<lparr>mGeneralStatistics := (mGeneralStatistics s)\<lparr>mBytesPerSecond := 0, mMaxBytesPerSecond := 0\<rparr>,
       mAddressStatistics := (\<lambda>a. map_option (\<lambda>st. st\<lparr>mMaxBytesPerSecond := 0\<rparr>) (mAddressStatistics s a))\<rparr>"

text \<open>The keys of a map of byte addresses in the order of its traversal.\<close>

definition addresses :: "u8 list" where
  "addresses = map of_nat [0..<256]"

definition stat_pass :: "StatData \<Rightarrow> StatData" where
  "stat_pass st =
     st\<lparr>mBytesPerSecond := mByteCount st,
        mMaxBytesPerSecond := (if mByteCount st > mMaxBytesPerSecond st then mByteCount st else mMaxBytesPerSecond st),
        mByteCount := 0\<rparr>"

definition statisticsThread_pass :: "I2C \<Rightarrow> I2C" where
  "statisticsThread_pass s =
     (let total = (\<Sum>a \<leftarrow> addresses. case mAddressStatistics s a of None \<Rightarrow> 0 | Some st \<Rightarrow> mByteCount st);
          g = mGeneralStatistics s
      in s\<lparr>mAddressStatistics := (\<lambda>a. map_option stat_pass (mAddressStatistics s a)),
           mGeneralStatistics := g\<lparr>mName := ''General Statistics'', mBytesPerSecond := total,
              mMaxBytesPerSecond := (if total > mMaxBytesPerSecond g then total else mMaxBytesPerSecond g)\<rparr>\<rparr>)"

section \<open>The retry loop\<close>

text \<open>The first attempt that succeeds among the next ones, and whether an attempt throws.\<close>

definition succeeds :: "bytes \<Rightarrow> i2c_outcome \<Rightarrow> bool" where
  "succeeds rdata c \<longleftrightarrow> (case c of Transferred f \<Rightarrow> True | ReadFails k f \<Rightarrow> rdata = [] | _ \<Rightarrow> False)"

lemma count_bytes_simps [simp]:
  "bus_pos (count_bytes a n s) = bus_pos s" "bus_log (count_bytes a n s) = bus_log s"
  "mByteCount (stat_at (count_bytes a n s) a) = mByteCount (stat_at s a) + n"
  by (simp_all add: count_bytes_def stat_at_def)

lemma stat_at_upd [simp]:
  "stat_at (s\<lparr>bus_pos := p\<rparr>) a = stat_at s a" "stat_at (s\<lparr>mI2CWriteError := e\<rparr>) a = stat_at s a"
  "stat_at (s\<lparr>bus_log := l\<rparr>) a = stat_at s a"
  by (simp_all add: stat_at_def)

text \<open>One attempt: its result, what it counts and what it leaves of the bus.\<close>

lemma attempt:
  assumes "wdata \<noteq> []" "bus (bus_pos s) \<noteq> OpenFails"
  shows "\<exists>rdata' s'. readWriteDataNoRetry bus a wdata rdata s = (Inr (succeeds rdata (bus (bus_pos s)), rdata'), s') \<and>
     length rdata' = length rdata \<and> bus_pos s' = Suc (bus_pos s) \<and>
     (\<forall>f. bus (bus_pos s) = Transferred f \<longrightarrow> rdata' = map f [0..<length rdata]) \<and>
     (rdata = [] \<longrightarrow> bus_log s' = bus_log s @ (if succeeds rdata (bus (bus_pos s)) then [(a, wdata)] else [])) \<and>
     mByteCount (stat_at s' a) = mByteCount (stat_at s a) + (1 + int (length wdata) + int (length rdata))"
  using assms
  by (cases "bus (bus_pos s)") (auto simp: readWriteDataNoRetry_def Let_def succeeds_def)

lemma succeeds_cong: "length r1 = length r2 \<Longrightarrow> succeeds r1 c = succeeds r2 c"
  by (cases c) (auto simp: succeeds_def)

definition retried :: "i2c_bus \<Rightarrow> u8 \<Rightarrow> bytes \<Rightarrow> bytes \<Rightarrow> nat \<Rightarrow> I2C \<Rightarrow> bool \<Rightarrow> bytes \<Rightarrow> I2C \<Rightarrow> bool" where
  "retried bus a wdata rdata n s ok rdata' s' \<longleftrightarrow>
     (\<exists>used \<le> n. bus_pos s' = bus_pos s + used \<and> length rdata' = length rdata \<and>
        (\<forall>k. Suc k < used \<longrightarrow> \<not> succeeds rdata (bus (bus_pos s + k))) \<and>
        (if ok then 0 < used \<and> succeeds rdata (bus (bus_pos s + used - 1)) \<and>
               (\<forall>f. bus (bus_pos s + used - 1) = Transferred f \<longrightarrow> rdata' = map f [0..<length rdata])
         else used = n \<and> (\<forall>k < n. \<not> succeeds rdata (bus (bus_pos s + k)))) \<and>
        (rdata = [] \<longrightarrow> bus_log s' = bus_log s @ (if ok then [(a, wdata)] else [])) \<and>
        mByteCount (stat_at s' a) =
          mByteCount (stat_at s a) + int used * (1 + int (length wdata) + int (length rdata)))"

lemma retried_first:
  assumes "bus_pos s1 = Suc (bus_pos s)" "length rdata1 = length rdata" "\<not> succeeds rdata (bus (bus_pos s))"
    and "rdata = [] \<longrightarrow> bus_log s1 = bus_log s"
    and "mByteCount (stat_at s1 a) = mByteCount (stat_at s a) + (1 + int (length wdata) + int (length rdata))"
    and "retried bus a wdata rdata1 n s1 ok rdata' s'"
  shows "retried bus a wdata rdata (Suc n) s ok rdata' s'"
proof -
  obtain used where u: "used \<le> n" "bus_pos s' = bus_pos s1 + used" "length rdata' = length rdata1"
      "\<forall>k. Suc k < used \<longrightarrow> \<not> succeeds rdata1 (bus (bus_pos s1 + k))"
      "if ok then 0 < used \<and> succeeds rdata1 (bus (bus_pos s1 + used - 1)) \<and>
          (\<forall>f. bus (bus_pos s1 + used - 1) = Transferred f \<longrightarrow> rdata' = map f [0..<length rdata1])
       else used = n \<and> (\<forall>k < n. \<not> succeeds rdata1 (bus (bus_pos s1 + k)))"
      "rdata1 = [] \<longrightarrow> bus_log s' = bus_log s1 @ (if ok then [(a, wdata)] else [])"
      "mByteCount (stat_at s' a) =
          mByteCount (stat_at s1 a) + int used * (1 + int (length wdata) + int (length rdata1))"
    using assms(6) unfolding retried_def by blast
  have eq: "succeeds rdata1 = succeeds rdata" using succeeds_cong [OF assms(2)] by blast
  have early: "\<not> succeeds rdata (bus (bus_pos s + k))" if "k = 0 \<or> (\<exists>j. k = Suc j \<and> \<not> succeeds rdata1 (bus (bus_pos s1 + j)))" for k
    using that assms(1,3) by (auto simp: eq)
  have empty: "rdata1 = [] \<longleftrightarrow> rdata = []" using assms(2) by (metis length_0_conv)
  have pos: "\<forall>k. Suc k < Suc used \<longrightarrow> \<not> succeeds rdata (bus (bus_pos s + k))"
    using u(4) early by (metis Suc_less_eq not0_implies_Suc)
  have fails: "\<forall>k < Suc n. \<not> succeeds rdata (bus (bus_pos s + k))" if "\<not> ok"
  proof (intro allI impI)
    fix k assume "k < Suc n"
    with that u(5) show "\<not> succeeds rdata (bus (bus_pos s + k))" by (intro early) (cases k; auto)
  qed
  show ?thesis
    unfolding retried_def
    using u(1,2,3,5,6,7) assms(1,2,4,5) pos fails
    by (intro exI [of _ "Suc used"]) (auto simp: eq empty algebra_simps)
qed

lemma retry_loop_retried:
  assumes "wdata \<noteq> []" "\<forall>k < nat (retryCount - retry). bus (bus_pos s + k) \<noteq> OpenFails"
  shows "\<exists>ok rdata' s'. retry_loop bus a wdata rdata retryCount retry s = (Inr (ok, rdata'), s') \<and>
     retried bus a wdata rdata (nat (retryCount - retry)) s ok rdata' s'"
  using assms
proof (induction "nat (retryCount - retry)" arbitrary: retry rdata s)
  case 0
  then show ?case by (subst retry_loop.simps) (auto simp: retried_def)
next
  case (Suc n)
  then have less: "retry < retryCount" and n: "n = nat (retryCount - (retry + 1))" by auto
  have "bus (bus_pos s) \<noteq> OpenFails" using Suc.prems(2) Suc.hyps(2) by (metis add_0_right zero_less_Suc)
  from attempt [of wdata bus s a rdata, OF Suc.prems(1) this] obtain rdata1 s1 where
    att: "readWriteDataNoRetry bus a wdata rdata s = (Inr (succeeds rdata (bus (bus_pos s)), rdata1), s1)"
      "length rdata1 = length rdata" "bus_pos s1 = Suc (bus_pos s)"
      "\<forall>f. bus (bus_pos s) = Transferred f \<longrightarrow> rdata1 = map f [0..<length rdata]"
      "rdata = [] \<longrightarrow> bus_log s1 = bus_log s @ (if succeeds rdata (bus (bus_pos s)) then [(a, wdata)] else [])"
      "mByteCount (stat_at s1 a) = mByteCount (stat_at s a) + (1 + int (length wdata) + int (length rdata))"
    by blast
  show ?case
  proof (cases "succeeds rdata (bus (bus_pos s))")
    case True
    have "retried bus a wdata rdata (Suc n) s True rdata1 s1"
      unfolding retried_def using True att by (intro exI [of _ 1]) auto
    moreover have "retry_loop bus a wdata rdata retryCount retry s = (Inr (True, rdata1), s1)"
      using True less att(1) by (subst retry_loop.simps) simp
    ultimately show ?thesis using Suc.hyps(2) by metis
  next
    case False
    have "\<forall>k < nat (retryCount - (retry + 1)). bus (bus_pos s1 + k) \<noteq> OpenFails"
    proof (intro allI impI)
      fix k assume "k < nat (retryCount - (retry + 1))"
      then show "bus (bus_pos s1 + k) \<noteq> OpenFails"
        using Suc.prems(2) [rule_format, of "Suc k"] Suc.hyps(2) n att(3) by simp
    qed
    from Suc.hyps(1) [OF n Suc.prems(1) this, of rdata1] obtain ok rdata' s' where
      rest: "retry_loop bus a wdata rdata1 retryCount (retry + 1) s1 = (Inr (ok, rdata'), s')"
        "retried bus a wdata rdata1 (nat (retryCount - (retry + 1))) s1 ok rdata' s'"
      by blast
    have "rdata = [] \<longrightarrow> bus_log s1 = bus_log s" using att(5) False by auto
    from retried_first [OF att(3,2) False this att(6) rest(2)]
    have "retried bus a wdata rdata (Suc n) s ok rdata' s'" using n by simp
    moreover have "retry_loop bus a wdata rdata retryCount retry s = (Inr (ok, rdata'), s')"
      using False less att(1) rest(1) by (subst retry_loop.simps) simp
    ultimately show ?thesis using Suc.hyps(2) by metis
  qed
qed

text \<open>
  C25. A transfer of some data makes at most one attempt more than the retry count and stops at the
  first that succeeds: it returns true exactly when one of these attempts succeeds, with the bytes
  that attempt read, it returns false only after all of them failed, and the byte counter of the
  address grows by the bytes of the attempts made. No attempt throws, as the bus device opens.
\<close>

theorem i2c_retry:
  assumes "wdata \<noteq> []" and "\<forall>k < nat (retryCount + 1). bus (bus_pos s + k) \<noteq> OpenFails"
  shows "\<exists>ok rdata' s' used.
     readWriteDataWithRetry bus a wdata rdata retryCount s = (Inr (ok, rdata'), s') \<and>
     used \<le> nat (retryCount + 1) \<and> bus_pos s' = bus_pos s + used \<and> length rdata' = length rdata \<and>
     (ok \<longleftrightarrow> (\<exists>k < nat (retryCount + 1). succeeds rdata (bus (bus_pos s + k)))) \<and>
     (\<forall>k. Suc k < used \<longrightarrow> \<not> succeeds rdata (bus (bus_pos s + k))) \<and>
     (ok \<longrightarrow> 0 < used \<and> (\<forall>f. bus (bus_pos s + used - 1) = Transferred f \<longrightarrow> rdata' = map f [0..<length rdata])) \<and>
     (\<not> ok \<longrightarrow> used = nat (retryCount + 1)) \<and>
     mByteCount (stat_at s' a) =
       mByteCount (stat_at s a) + int used * (1 + int (length wdata) + int (length rdata))"
proof -
  obtain ok rdata' s' where
    r: "readWriteDataWithRetry bus a wdata rdata retryCount s = (Inr (ok, rdata'), s')"
      "retried bus a wdata rdata (nat (retryCount + 1)) s ok rdata' s'"
    using retry_loop_retried [of wdata retryCount "- 1" bus s a rdata] assms
    unfolding readWriteDataWithRetry_def by auto
  from r(2) obtain used where u: "used \<le> nat (retryCount + 1)" "bus_pos s' = bus_pos s + used"
      "length rdata' = length rdata" "\<forall>k. Suc k < used \<longrightarrow> \<not> succeeds rdata (bus (bus_pos s + k))"
      "if ok then 0 < used \<and> succeeds rdata (bus (bus_pos s + used - 1)) \<and>
          (\<forall>f. bus (bus_pos s + used - 1) = Transferred f \<longrightarrow> rdata' = map f [0..<length rdata])
       else used = nat (retryCount + 1) \<and> (\<forall>k < nat (retryCount + 1). \<not> succeeds rdata (bus (bus_pos s + k)))"
      "mByteCount (stat_at s' a) =
          mByteCount (stat_at s a) + int used * (1 + int (length wdata) + int (length rdata))"
    unfolding retried_def by blast
  have "ok \<longleftrightarrow> (\<exists>k < nat (retryCount + 1). succeeds rdata (bus (bus_pos s + k)))"
  proof (cases ok)
    case True
    with u(1,5) have "used - 1 < nat (retryCount + 1)" "succeeds rdata (bus (bus_pos s + (used - 1)))" by auto
    with True show ?thesis by blast
  qed (use u(5) in auto)
  moreover have "ok \<longrightarrow> 0 < used \<and> (\<forall>f. bus (bus_pos s + used - 1) = Transferred f \<longrightarrow> rdata' = map f [0..<length rdata])"
    and "\<not> ok \<longrightarrow> used = nat (retryCount + 1)"
    using u(5) by presburger+
  ultimately show ?thesis
    using r(1) u(1-4,6) by (intro exI [of _ ok] exI [of _ rdata'] exI [of _ s'] exI [of _ used] conjI)
qed

definition ex_i2c :: I2C where
  "ex_i2c = the (new_I2C True)"

definition ex_bus :: i2c_bus where
  "ex_bus n = (if n = 0 then WriteFails else Transferred (\<lambda>i. of_nat (i + 7)))"

theorem i2c_retry_witness:
  "\<exists>rdata' s'. readWriteDataWithRetry ex_bus 104 [0] [0, 0] DEFAULT_I2C_RETRY ex_i2c = (Inr (True, rdata'), s') \<and>
     bus_pos s' \<le> 4 \<and> length rdata' = 2"
proof -
  have pos: "bus_pos ex_i2c = 0" by (simp add: ex_i2c_def new_I2C_def)
  have ok: "\<exists>k < 4. succeeds [0, 0] (ex_bus k)"
    by (intro exI [of _ 1]) (simp add: succeeds_def ex_bus_def)
  have opens: "\<forall>k < nat (DEFAULT_I2C_RETRY + 1). ex_bus (bus_pos ex_i2c + k) \<noteq> OpenFails"
    by (simp add: ex_bus_def)
  show ?thesis
    using i2c_retry [OF _ opens, of "[0]" 104 "[0, 0]"] ok by (auto simp: pos DEFAULT_I2C_RETRY_def)
qed

end
