(* ===== verification/Rtc.thy ===== *)
theory Rtc
  imports I2C_Bus
begin

text \<open>
  The clock chip (\<open>rgbclock/RgbLib/src/lib/RTC.cpp\<close>): binary coded decimals, the registers of the
  chip, the constructor that sets the system time from the chip, and the thread that sets the
  chip from the system time. Whether the system time is synchronised, and the time written, are
  inputs of the operations.
\<close>

section \<open>Binary coded decimals\<close>

definition bcdToInt :: "u8 \<Rightarrow> u8" where
  "bcdToInt bcd = (bcd AND 0x0F) + drop_bit 4 bcd * 10"

definition intToBcd :: "u8 \<Rightarrow> u8" where
  "intToBcd v = push_bit 4 (v div 10) + v mod 10"

lemma bcd_roundtrip_all: "\<forall>v::u8. v < 100 \<longrightarrow> bcdToInt (intToBcd v) = v"
  unfolding all_u8 bcdToInt_def intToBcd_def by code_simp

lemma bcd_small_all: "\<forall>v::u8. v < 80 \<longrightarrow> intToBcd v AND 0x7F = intToBcd v"
  unfolding all_u8 intToBcd_def by code_simp

section \<open>The registers of the chip\<close>

record utc_time =
  utc_sec :: int
  utc_min :: int
  utc_hour :: int
  utc_wday :: int
  utc_mday :: int
  utc_mon :: int
  utc_year :: int

definition rtcValidDateTime :: "utc_time \<Rightarrow> bool" where
  "rtcValidDateTime t \<longleftrightarrow> utc_year t > 100 \<and> utc_year t < 200"

text \<open>What \<open>readRTCTime\<close> makes of the eight bytes it reads.\<close>

definition decode_time :: "bytes \<Rightarrow> utc_time" where
  "decode_time r =
     \<lparr>utc_sec = uint (bcdToInt (r ! 0 AND 0x7F)), utc_min = uint (bcdToInt (r ! 1)),
      utc_hour = uint (bcdToInt (r ! 2)), utc_wday = uint (bcdToInt (r ! 3)) - 1,
      utc_mday = uint (bcdToInt (r ! 4)), utc_mon = uint (bcdToInt (r ! 5)),
      utc_year = uint (bcdToInt (r ! 6)) + (2000 - 1900)\<rparr>"

text \<open>The bytes \<open>writeRTCTime\<close> sends: the register number, then the registers.\<close>

definition encode_time :: "utc_time \<Rightarrow> bytes" where
  "encode_time t =
     [0, intToBcd (word_of_int (utc_sec t)), intToBcd (word_of_int (utc_min t)),
      intToBcd (word_of_int (utc_hour t)), intToBcd (word_of_int (utc_wday t + 1)),
      intToBcd (word_of_int (utc_mday t)), intToBcd (word_of_int (utc_mon t)),
      intToBcd (word_of_int (utc_year t - (2000 - 1900)))]"

definition readRTCTime :: "i2c_bus \<Rightarrow> u8 \<Rightarrow> I2C \<Rightarrow> (i2c_exception + utc_time) \<times> I2C" where
  "readRTCTime bus a s =
     (let (r, s') = readWriteData bus a [0] (replicate 8 0) DEFAULT_I2C_RETRY s
      in (map_sum id (\<lambda>(ok, response). decode_time response) r, s'))"

definition writeRTCTime :: "i2c_bus \<Rightarrow> u8 \<Rightarrow> utc_time \<Rightarrow> I2C \<Rightarrow> (i2c_exception + bool) \<times> I2C" where
  "writeRTCTime bus a utc s = writeData bus a (encode_time utc) DEFAULT_I2C_RETRY s"

section \<open>The object and its thread\<close>

record RTC =
  rtc_mAddress :: u8
  mNTPSync :: bool
  mRTCThreadRunning :: bool
  secondsInterval :: int
  secondsPassed :: int
  rtc_I2C :: I2C
  system_time :: "utc_time list"

definition NTP_INTERVAL_SECONDS :: int where "NTP_INTERVAL_SECONDS = 10"

text \<open>
  The constructor; \<open>sync\<close> is whether the system time is synchronised. \<open>system_time\<close> collects the
  calls of \<open>setSystemTime\<close>. The locals of the thread start with it.
\<close>

definition new_RTC :: "i2c_bus \<Rightarrow> I2C \<Rightarrow> u8 \<Rightarrow> bool \<Rightarrow> (i2c_exception + unit) \<times> RTC" where
  "new_RTC bus i2c a sync =
     (let s = \<lparr>rtc_mAddress = a, mNTPSync = False, mRTCThreadRunning = False, secondsInterval = 60,
               secondsPassed = 0, rtc_I2C = i2c, system_time = []\<rparr>
      in case readRTCTime bus a i2c of
           (Inl e, i) \<Rightarrow> (Inl e, s\<lparr>rtc_I2C := i\<rparr>)
         | (Inr t, i) \<Rightarrow>
             (Inr (), s\<lparr>rtc_I2C := i, mRTCThreadRunning := True,
                system_time := (if \<not> sync \<and> rtcValidDateTime t then [t] else [])\<rparr>))"

text \<open>One iteration of \<open>rtcThread\<close> after its sleep; \<open>now\<close> is the time it writes.\<close>

definition rtcThread_pass :: "i2c_bus \<Rightarrow> bool \<Rightarrow> utc_time \<Rightarrow> RTC \<Rightarrow> (i2c_exception + unit) \<times> RTC" where
  "rtcThread_pass bus sync now s =
     (if \<not> mRTCThreadRunning s then (Inr (), s)
      else
       (let s1 = s\<lparr>secondsPassed := secondsPassed s + NTP_INTERVAL_SECONDS, mNTPSync := sync\<rparr>
        in if secondsPassed s1 > secondsInterval s1
           then (let s2 = s1\<lparr>secondsPassed := 0\<rparr>
                 in if mNTPSync s2
                    then (case readRTCTime bus (rtc_mAddress s2) (rtc_I2C s2) of
                            (Inl e, i) \<Rightarrow> (Inl e, s2\<lparr>rtc_I2C := i\<rparr>)
                          | (Inr t, i) \<Rightarrow>
                              (let (r, j) = writeRTCTime bus (rtc_mAddress s2) now i
                               in (map_sum id (\<lambda>_. ()) r,
                                   s2\<lparr>rtc_I2C := j, secondsInterval := 3 * 24 * 60 * 60\<rparr>)))
                    else (Inr (), s2))
           else (Inr (), s1)))"

section \<open>The chip gives back the time it was given\<close>

definition valid_utc :: "utc_time \<Rightarrow> bool" where
  "valid_utc t \<longleftrightarrow>
     0 \<le> utc_sec t \<and> utc_sec t < 60 \<and> 0 \<le> utc_min t \<and> utc_min t < 60 \<and> 0 \<le> utc_hour t \<and> utc_hour t < 24 \<and>
     0 \<le> utc_wday t \<and> utc_wday t < 7 \<and> 1 \<le> utc_mday t \<and> utc_mday t \<le> 31 \<and>
     0 \<le> utc_mon t \<and> utc_mon t < 12 \<and> 100 \<le> utc_year t \<and> utc_year t < 200"

lemma bcd_int:
  assumes "0 \<le> i" "i < 100"
  shows "uint (bcdToInt (intToBcd (word_of_int i))) = i"
proof -
  have "word_of_int i < (100 :: u8)"
    using assms by (simp add: word_less_def uint_word_of_int take_bit_int_eq_self)
  with bcd_roundtrip_all have "bcdToInt (intToBcd (word_of_int i)) = (word_of_int i :: u8)" by blast
  with assms show ?thesis by (simp add: uint_word_of_int take_bit_int_eq_self)
qed

lemma bcd_int_masked:
  assumes "0 \<le> i" "i < 80"
  shows "uint (bcdToInt (intToBcd (word_of_int i) AND 0x7F)) = i"
proof -
  have "word_of_int i < (80 :: u8)"
    using assms by (simp add: word_less_def uint_word_of_int take_bit_int_eq_self)
  with bcd_small_all have "intToBcd (word_of_int i) AND 0x7F = intToBcd (word_of_int i :: u8)" by blast
  with bcd_int assms show ?thesis by simp
qed

lemma decode_encode:
  assumes "valid_utc t" and "\<forall>i < 7. r ! i = encode_time t ! Suc i"
  shows "decode_time r = t"
proof -
  have r: "r ! 0 = encode_time t ! Suc 0" "r ! 1 = encode_time t ! Suc 1" "r ! 2 = encode_time t ! Suc 2"
    "r ! 3 = encode_time t ! Suc 3" "r ! 4 = encode_time t ! Suc 4" "r ! 5 = encode_time t ! Suc 5"
    "r ! 6 = encode_time t ! Suc 6"
    by (rule assms(2) [rule_format], simp)+
  show ?thesis
    using assms(1) by (simp add: decode_time_def r encode_time_def valid_utc_def bcd_int bcd_int_masked
        del: One_nat_def of_int_add of_int_diff)
qed

lemma attempt_written:
  "readWriteDataNoRetry bus a wdata rdata s = (Inr (True, rdata'), s') \<Longrightarrow> last (bus_log s') = (a, wdata)"
  by (cases "bus (bus_pos s)") (auto simp: readWriteDataNoRetry_def Let_def split: if_splits)

lemma retry_written:
  "retry_loop bus a wdata rdata retryCount retry s = (Inr (True, rdata'), s') \<Longrightarrow> last (bus_log s') = (a, wdata)"
proof (induction bus a wdata rdata retryCount retry s rule: retry_loop.induct)
  case (1 bus a wdata rdata retryCount retry s)
  obtain r s1 where r: "readWriteDataNoRetry bus a wdata rdata s = (r, s1)" by fastforce
  show ?case
  proof (cases "retry < retryCount \<and> (\<exists>d. r = Inr (False, d))")
    case True
    then obtain d where d: "retry < retryCount" "r = Inr (False, d)" by blast
    then have "retry_loop bus a wdata rdata retryCount retry s = retry_loop bus a wdata d retryCount (retry + 1) s1"
      using r by (subst retry_loop.simps) simp
    with "1.IH" [of r s1 "(False, d)" False d] "1.prems" r d show ?thesis by simp
  next
    case False
    with "1.prems" r attempt_written [of bus a wdata rdata s] show ?thesis
      by (subst (asm) retry_loop.simps) (auto split: if_splits sum.splits)
  qed
qed

lemma writeData_written:
  "writeData bus a data retryCount s = (Inr True, s') \<Longrightarrow> last (bus_log s') = (a, data)"
  using retry_written [of bus a data "[]" retryCount "- 1" s]
  by (cases "readWriteDataWithRetry bus a data [] retryCount s")
    (auto simp: writeData_def bool_result_def readWriteDataWithRetry_def map_sum_def split: sum.splits)

text \<open>
  C26. A time from 2000 to 2099 written to the clock chip is read back: when the write succeeds and
  a later transfer from the chip delivers the registers as they were last written on the bus,
  \<open>readRTCTime\<close> gives every field of the time again, whatever the control register holds.
\<close>

theorem rtc_time_roundtrip:
  assumes "valid_utc t" and "writeRTCTime bus a t s = (Inr True, s')"
    and "bus (bus_pos s2) = Transferred f"
    and "\<forall>i < 7. f i = snd (last (bus_log s')) ! Suc i"
  shows "fst (readRTCTime bus a s2) = Inr t"
proof -
  have "snd (last (bus_log s')) = encode_time t"
    using writeData_written assms(2) by (simp add: writeRTCTime_def)
  with assms(4) have "decode_time (map f [0..<8]) = t"
    by (intro decode_encode [OF assms(1)]) simp
  moreover have "readWriteData bus a [0] (replicate 8 0) DEFAULT_I2C_RETRY s2 =
      (Inr (True, map f [0..<8]), snd (readWriteDataNoRetry bus a [0] (replicate 8 0) s2))"
    using assms(3) unfolding readWriteData_def readWriteDataWithRetry_def
    by (subst retry_loop.simps) (simp add: readWriteDataNoRetry_def Let_def DEFAULT_I2C_RETRY_def)
  ultimately show ?thesis by (simp add: readRTCTime_def)
qed

definition ex_utc :: utc_time where
  "ex_utc = \<lparr>utc_sec = 59, utc_min = 30, utc_hour = 23, utc_wday = 6, utc_mday = 31, utc_mon = 11, utc_year = 117\<rparr>"

definition ex_chip :: i2c_bus where
  "ex_chip n = Transferred (\<lambda>i. (encode_time ex_utc @ [0x93]) ! Suc i)"

theorem rtc_time_roundtrip_witness:
  "fst (readRTCTime ex_chip 104 (the (new_I2C True))) = Inr ex_utc"
proof -
  let ?s = "the (new_I2C True)"
  obtain s' where s': "writeRTCTime ex_chip 104 ex_utc ?s = (Inr True, s')"
    by (simp add: writeRTCTime_def writeData_def bool_result_def readWriteDataWithRetry_def retry_loop.simps [of ex_chip]
        readWriteDataNoRetry_def Let_def ex_chip_def DEFAULT_I2C_RETRY_def encode_time_def)
  have log: "last (bus_log s') = (104, encode_time ex_utc)"
    using writeData_written s' by (simp add: writeRTCTime_def)
  have "(encode_time ex_utc @ [0x93]) ! Suc i = encode_time ex_utc ! Suc i" if "i < 7" for i
  proof -
    have "length (encode_time ex_utc) = 8" by (simp add: encode_time_def)
    with that show ?thesis by (subst nth_append) simp
  qed
  with log rtc_time_roundtrip [OF _ s', of ?s] show ?thesis
    by (simp add: ex_chip_def valid_utc_def ex_utc_def)
qed

end
