(* ===== verification/Double_Arith.thy ===== *)
theory Double_Arith
  imports Rgb_Prelude Complex_Main
begin

text \<open>
  Arithmetic of type \<open>double\<close>, for the colours of the lamp and the light sensor. A double is the real
  number it stands for; every operation computes the exact result and rounds it. The
  rounding is a parameter, of which only what IEEE 754 promises is used: it is monotone, keeps the
  integers a double holds, and errs by at most one part in 2^53 (2^-1074 near zero).
\<close>

section \<open>Rounding\<close>

type_synonym rounding = "real \<Rightarrow> real"

definition double_rounding :: "rounding \<Rightarrow> bool" where
  "double_rounding fl \<longleftrightarrow> mono fl \<and> (\<forall>n :: int. \<bar>n\<bar> \<le> 2 ^ 53 \<longrightarrow> fl (of_int n) = of_int n) \<and>
     (\<forall>x. \<bar>x\<bar> \<le> 2 ^ 1023 \<longrightarrow> \<bar>fl x - x\<bar> \<le> \<bar>x\<bar> / 2 ^ 53 + 1 / 2 ^ 1074)"

text \<open>
  The conversion of a double to \<open>uint16_t\<close> cuts off the fraction; it is undefined, and None here,
  when the integer that is left does not fit.
\<close>

definition trunc :: "real \<Rightarrow> int" where
  "trunc x = (if 0 \<le> x then \<lfloor>x\<rfloor> else \<lceil>x\<rceil>)"

definition to_u16 :: "real \<Rightarrow> u16 option" where
  "to_u16 x = (if 0 \<le> trunc x \<and> trunc x < 2 ^ 16 then Some (word_of_int (trunc x)) else None)"

definition of_u16 :: "u16 \<Rightarrow> real" where
  "of_u16 w = of_nat (unat w)"

text \<open>The quotient of two doubles that are not negative, with the two special results.\<close>

datatype quotient = Finite real | Infinite | NaN

definition fdiv :: "rounding \<Rightarrow> real \<Rightarrow> real \<Rightarrow> quotient" where
  "fdiv fl a b = (if b = 0 then (if a = 0 then NaN else Infinite) else Finite (fl (a / b)))"

fun q_greater :: "quotient \<Rightarrow> real \<Rightarrow> bool" where
  "q_greater (Finite x) c \<longleftrightarrow> c < x"
| "q_greater Infinite c \<longleftrightarrow> True"
| "q_greater NaN c \<longleftrightarrow> False"

fun q_le :: "quotient \<Rightarrow> real \<Rightarrow> bool" where
  "q_le (Finite x) c \<longleftrightarrow> x \<le> c"
| "q_le Infinite c \<longleftrightarrow> False"
| "q_le NaN c \<longleftrightarrow> False"

section \<open>Error bounds\<close>

lemma double_mono: "double_rounding fl \<Longrightarrow> x \<le> y \<Longrightarrow> fl x \<le> fl y"
  by (simp add: double_rounding_def mono_def)

lemma double_int: "double_rounding fl \<Longrightarrow> \<bar>n\<bar> \<le> 2 ^ 53 \<Longrightarrow> fl (of_int n) = of_int n"
  unfolding double_rounding_def by blast

lemma double_small: "double_rounding fl \<Longrightarrow> fl 0 = 0" "double_rounding fl \<Longrightarrow> fl 1 = 1"
  using double_int [of fl 0] double_int [of fl 1] by simp_all

lemma double_between: "double_rounding fl \<Longrightarrow> of_int m \<le> x \<Longrightarrow> x \<le> of_int n \<Longrightarrow> \<bar>m\<bar> \<le> 2 ^ 53 \<Longrightarrow> \<bar>n\<bar> \<le> 2 ^ 53 \<Longrightarrow>
   of_int m \<le> fl x \<and> fl x \<le> of_int n"
  by (metis double_int double_mono)

lemma double_error:
  assumes "double_rounding fl" and "\<bar>x\<bar> \<le> 2 ^ k" and "k \<le> 1000"
  shows "\<bar>fl x - x\<bar> \<le> 2 ^ k / 2 ^ 52"
proof -
  have "(2 :: real) ^ k \<le> 2 ^ 1000" using assms(3) by (intro power_increasing) simp_all
  also have "\<dots> \<le> 2 ^ 1023" by (intro power_increasing) simp_all
  finally have x: "\<bar>x\<bar> \<le> 2 ^ 1023" using assms(2) by linarith
  have one: "(1 :: real) \<le> 2 ^ k" by simp
  have "(1 :: real) / 2 ^ 1074 \<le> 1 / 2 ^ 53" by (intro divide_left_mono power_increasing) simp_all
  also have "\<dots> \<le> 2 ^ k / 2 ^ 53" using one by (intro divide_right_mono) simp_all
  finally have "1 / 2 ^ 1074 \<le> (2 :: real) ^ k / 2 ^ 53" .
  moreover have "\<bar>x\<bar> / 2 ^ 53 \<le> 2 ^ k / 2 ^ 53" using assms(2) by (intro divide_right_mono) simp_all
  moreover have "\<bar>fl x - x\<bar> \<le> \<bar>x\<bar> / 2 ^ 53 + 1 / 2 ^ 1074"
    using assms(1) x unfolding double_rounding_def by blast
  ultimately have "\<bar>fl x - x\<bar> \<le> 2 ^ k / 2 ^ 53 + 2 ^ k / 2 ^ 53" by linarith
  also have "\<dots> = 2 ^ k / 2 ^ 52" by (simp add: field_simps)
  finally show ?thesis .
qed

text \<open>The forms used below: values up to 8, up to 2^13 and up to 2^17.\<close>

lemma double_error_8: "double_rounding fl \<Longrightarrow> \<bar>x\<bar> \<le> 8 \<Longrightarrow> \<bar>fl x - x\<bar> \<le> 1 / 1000000000000"
  using double_error [of fl x 3] by simp

lemma double_error_8192: "double_rounding fl \<Longrightarrow> \<bar>x\<bar> \<le> 8192 \<Longrightarrow> \<bar>fl x - x\<bar> \<le> 1 / 10000000000"
  using double_error [of fl x 13] by simp

lemma double_error_131072: "double_rounding fl \<Longrightarrow> \<bar>x\<bar> \<le> 131072 \<Longrightarrow> \<bar>fl x - x\<bar> \<le> 1 / 10000000000"
  using double_error [of fl x 17] by simp

lemma near_trans: "\<bar>a - b\<bar> \<le> d \<Longrightarrow> \<bar>b - c\<bar> \<le> e \<Longrightarrow> d + e \<le> f \<Longrightarrow> \<bar>a - c\<bar> \<le> f" for a b c d e f :: real
  by linarith

lemma product_error:
  fixes a b a' b' :: real
  assumes "\<bar>a - a'\<bar> \<le> d" and "\<bar>b - b'\<bar> \<le> e" and "\<bar>a'\<bar> \<le> A" and "\<bar>b\<bar> \<le> B"
  shows "\<bar>a * b - a' * b'\<bar> \<le> d * B + A * e"
proof -
  have d: "0 \<le> d" using abs_ge_zero [of "a - a'"] assms(1) by linarith
  have A: "0 \<le> A" using abs_ge_zero [of a'] assms(3) by linarith
  have "a * b - a' * b' = (a - a') * b + a' * (b - b')" by (simp add: algebra_simps)
  then have "\<bar>a * b - a' * b'\<bar> \<le> \<bar>a - a'\<bar> * \<bar>b\<bar> + \<bar>a'\<bar> * \<bar>b - b'\<bar>"
    by (metis abs_mult abs_triangle_ineq)
  also have "\<dots> \<le> d * B + A * e"
    using assms d A by (intro add_mono mult_mono) simp_all
  finally show ?thesis .
qed

lemma to_u16_range:
  assumes "- 1 < x" and "x < of_nat (Suc n)" and "n < 65536"
  shows "\<exists>w. to_u16 x = Some w \<and> unat w \<le> n"
proof -
  have t: "0 \<le> trunc x \<and> trunc x \<le> int n"
  proof (cases "0 \<le> x")
    case True
    then have "\<lfloor>x\<rfloor> \<le> int n" using assms(2) by (simp add: floor_le_iff)
    with True show ?thesis by (simp add: trunc_def)
  next
    case False
    then have "\<lceil>x\<rceil> = 0" using assms(1) by (intro ceiling_unique) simp_all
    with False show ?thesis by (simp add: trunc_def)
  qed
  then have "unat (word_of_int (trunc x) :: u16) = nat (trunc x)"
    using assms(3) by (simp add: unat_eq_nat_uint uint_word_of_int)
  with t assms(3) show ?thesis by (auto simp: to_u16_def)
qed

text \<open>A concrete rounding: down to a multiple of 2^-1074.\<close>

definition grid_rounding :: rounding where
  "grid_rounding x = of_int \<lfloor>x * 2 ^ 1074\<rfloor> / 2 ^ 1074"

lemma grid_double_rounding: "double_rounding grid_rounding"
proof -
  define M :: real where "M = 2 ^ 1074"
  have M: "0 < M" by (simp add: M_def)
  have Mi: "M = of_int (2 ^ 1074)" by (simp add: M_def)
  have fl: "grid_rounding x = of_int \<lfloor>x * M\<rfloor> / M" for x unfolding grid_rounding_def M_def ..
  have "grid_rounding x \<le> grid_rounding y" if "x \<le> y" for x y
    using M that unfolding fl by (intro divide_right_mono) (simp_all add: floor_mono)
  moreover have "grid_rounding (of_int n) = of_int n" for n
  proof -
    have "\<lfloor>of_int n * M\<rfloor> = n * 2 ^ 1074" unfolding Mi of_int_mult [symmetric] floor_of_int ..
    then show ?thesis using M unfolding fl by (simp add: Mi)
  qed
  moreover have "\<bar>grid_rounding x - x\<bar> \<le> \<bar>x\<bar> / 2 ^ 53 + 1 / M" for x
  proof -
    have "x * M - 1 \<le> of_int \<lfloor>x * M\<rfloor> \<and> of_int \<lfloor>x * M\<rfloor> \<le> x * M" by linarith
    then have "(x * M - 1) / M \<le> grid_rounding x \<and> grid_rounding x \<le> x * M / M"
      using M unfolding fl by (intro conjI divide_right_mono) simp_all
    then have "\<bar>grid_rounding x - x\<bar> \<le> 1 / M" using M by (simp add: diff_divide_distrib abs_if)
    moreover have "0 \<le> \<bar>x\<bar> / 2 ^ 53" by simp
    ultimately show ?thesis by linarith
  qed
  ultimately show ?thesis unfolding double_rounding_def mono_def M_def by blast
qed

end
