(* ===== verification/Device_Timers.thy ===== *)
theory Device_Timers
  imports Cpp_Std
begin

text \<open>
  The two timers that the light and the radio own: \<open>UpDownTimer\<close>, a thread that moves a device up
  or down in steps, and \<open>AutoPowerOffTimer\<close>, a thread that counts seconds and then switches the
  device off. A timer holds a reference to its device and the device holds the timer, so the
  thread steps are written over the device's whole state, with the access to the timer inside it
  as an argument. Each step is what a thread does between two points where it can be overtaken:
  a loop test, or the work after a sleep. Joining a thread is the step that ends it: after the
  running flag is cleared the remaining steps of the thread do not touch the device.
\<close>

section \<open>The up and down timer\<close>

datatype thread_pc = Ended | AtTest | Asleep

record UpDownTimer =
  mThreadRunning :: bool
  mStep :: int
  mTotalSteps :: int
  mThreadIntervalms :: int
  mDown :: bool
  th_pc :: thread_pc
  th_totalSteps :: int
  th_step :: int

definition new_UpDownTimer :: UpDownTimer where
  "new_UpDownTimer = \<lparr>mThreadRunning = False, mStep = 0, mTotalSteps = 0, mThreadIntervalms = 0,
     mDown = False, th_pc = Ended, th_totalSteps = 0, th_step = 0\<rparr>"

text \<open>
  The quotients are computed with \<open>double\<close>. For operands of the range of \<open>int\<close> the rounded
  quotient lies on the same side of every integer as the exact one, so its ceiling and its
  truncation are those of the exact quotient. A product outside \<open>int\<close>, and the conversion of an
  infinite or undefined quotient to \<open>int\<close>, are undefined behaviour: None.
\<close>

definition calculate :: "int \<Rightarrow> int \<Rightarrow> UpDownTimer \<Rightarrow> UpDownTimer option" where
  "calculate steps timeSeconds t =
     (let ms = timeSeconds * 1000 in
      if ms < INT_MIN \<or> INT_MAX < ms then None
      else if steps > ms then
        (if ms = 0 then None
         else Some (t\<lparr>mTotalSteps := steps, mStep := - ((- steps) div ms), mThreadIntervalms := 1\<rparr>))
      else
        (if steps = 0 then None
         else Some (t\<lparr>mTotalSteps := steps, mStep := 1, mThreadIntervalms := trunc_div ms steps\<rparr>)))"

definition stopDimmerThread :: "UpDownTimer \<Rightarrow> UpDownTimer" where
  "stopDimmerThread t = t\<lparr>mThreadRunning := False, th_pc := Ended\<rparr>"

definition startDimmerThread :: "UpDownTimer \<Rightarrow> UpDownTimer" where
  "startDimmerThread t =
     (let t1 = stopDimmerThread t
      in t1\<lparr>mThreadRunning := True, th_pc := AtTest,
            th_totalSteps := mTotalSteps t1, th_step := mStep t1\<rparr>)"

definition initiateUp :: "int \<Rightarrow> int \<Rightarrow> UpDownTimer \<Rightarrow> UpDownTimer option" where
  "initiateUp target timeSeconds t =
     map_option (\<lambda>t1. startDimmerThread (t1\<lparr>mDown := False\<rparr>)) (calculate target timeSeconds t)"

definition initiateDown :: "int \<Rightarrow> int \<Rightarrow> UpDownTimer \<Rightarrow> UpDownTimer option" where
  "initiateDown current timeSeconds t =
     map_option (\<lambda>t1. startDimmerThread (t1\<lparr>mDown := True\<rparr>)) (calculate current timeSeconds t)"

definition cancelDimmer :: "UpDownTimer \<Rightarrow> UpDownTimer" where
  "cancelDimmer t = t\<lparr>mThreadRunning := False\<rparr>"

text \<open>One step of \<open>dimmerThread\<close>: the loop test, or the work after the sleep.\<close>

definition dimmerThread_step ::
  "('d \<Rightarrow> UpDownTimer) \<Rightarrow> ((UpDownTimer \<Rightarrow> UpDownTimer) \<Rightarrow> 'd \<Rightarrow> 'd) \<Rightarrow>
   (int \<Rightarrow> 'd \<Rightarrow> 'd) \<Rightarrow> (int \<Rightarrow> 'd \<Rightarrow> 'd) \<Rightarrow> 'd \<Rightarrow> 'd" where
  "dimmerThread_step tm upd up down d =
     (case th_pc (tm d) of
        Ended \<Rightarrow> d
      | AtTest \<Rightarrow>
          upd (\<lambda>t. t\<lparr>th_pc := if mThreadRunning t \<and> 0 < th_totalSteps t then Asleep else Ended\<rparr>) d
      | Asleep \<Rightarrow>
          (let d1 = upd (\<lambda>t. t\<lparr>th_pc := AtTest\<rparr>) d; t1 = tm d1 in
           if mThreadRunning t1 then
             if mDown t1 then down (th_step t1) d1
             else up (th_step t1) (upd (\<lambda>t. t\<lparr>th_totalSteps := th_totalSteps t - th_step t\<rparr>) d1)
           else d1))"

section \<open>The automatic power-off timer\<close>

record AutoPowerOffTimer =
  mAutoOffThreadRunning :: bool
  ao_pc :: thread_pc
  ao_countDownSeconds :: int

definition new_AutoPowerOffTimer :: AutoPowerOffTimer where
  "new_AutoPowerOffTimer =
     \<lparr>mAutoOffThreadRunning = False, ao_pc = Ended, ao_countDownSeconds = 0\<rparr>"

definition stopAutoOffThread :: "AutoPowerOffTimer \<Rightarrow> AutoPowerOffTimer" where
  "stopAutoOffThread t = t\<lparr>mAutoOffThreadRunning := False, ao_pc := Ended\<rparr>"

definition startAutoOffThread :: "int \<Rightarrow> AutoPowerOffTimer \<Rightarrow> AutoPowerOffTimer" where
  "startAutoOffThread minutes t =
     (stopAutoOffThread t)\<lparr>mAutoOffThreadRunning := True, ao_pc := AtTest,
        ao_countDownSeconds := minutes * 60\<rparr>"

definition startAutoPowerOff :: "int \<Rightarrow> AutoPowerOffTimer \<Rightarrow> AutoPowerOffTimer" where
  "startAutoPowerOff minutes t = startAutoOffThread minutes t"

definition cancelAutoPowerOff :: "AutoPowerOffTimer \<Rightarrow> AutoPowerOffTimer" where
  "cancelAutoPowerOff t = t\<lparr>mAutoOffThreadRunning := False\<rparr>"

text \<open>
  One step of \<open>autoOffThread\<close>: the loop test, or the work after the sleep of one second, where
  the device's \<open>pwrOff\<close> may fail (None) as the device's own operation can.
\<close>

definition autoOffThread_step ::
  "('d \<Rightarrow> AutoPowerOffTimer) \<Rightarrow> ((AutoPowerOffTimer \<Rightarrow> AutoPowerOffTimer) \<Rightarrow> 'd \<Rightarrow> 'd) \<Rightarrow>
   ('d \<Rightarrow> 'd option) \<Rightarrow> 'd \<Rightarrow> 'd option" where
  "autoOffThread_step ao upd pwrOff d =
     (case ao_pc (ao d) of
        Ended \<Rightarrow> Some d
      | AtTest \<Rightarrow>
          Some (upd (\<lambda>t. t\<lparr>ao_pc := if mAutoOffThreadRunning t then Asleep else Ended\<rparr>) d)
      | Asleep \<Rightarrow>
          (let d1 = upd (\<lambda>t. t\<lparr>ao_pc := AtTest, ao_countDownSeconds := ao_countDownSeconds t - 1\<rparr>) d in
           if ao_countDownSeconds (ao d1) = 0 \<and> mAutoOffThreadRunning (ao d1) then
             pwrOff (upd (\<lambda>t. t\<lparr>mAutoOffThreadRunning := False\<rparr>) d1)
           else Some d1))"

section \<open>What the up timer does to its device\<close>

text \<open>The number of steps that an up thread makes: the quotient of its two locals, rounded up.\<close>

definition up_count :: "UpDownTimer \<Rightarrow> nat" where
  "up_count t = nat (- ((- th_totalSteps t) div th_step t))"

lemma up_count_0: "th_totalSteps t \<le> 0 \<Longrightarrow> 0 < th_step t \<Longrightarrow> up_count t = 0"
  by (simp add: up_count_def pos_imp_zdiv_nonneg_iff)

lemma up_count_Suc:
  assumes "0 < th_totalSteps t" and "0 < th_step t"
  shows "up_count t = Suc (up_count (t\<lparr>th_totalSteps := th_totalSteps t - th_step t\<rparr>))"
proof -
  let ?a = "th_totalSteps t" and ?b = "th_step t"
  have "(- ?a + ?b * 1) div ?b = 1 + (- ?a) div ?b"
    using assms by (subst div_mult_self2) auto
  then have e: "(- (?a - ?b)) div ?b = 1 + (- ?a) div ?b" by (simp add: algebra_simps)
  have "(- ?a) div ?b < 0" using assms by (simp add: div_neg_pos_less0)
  then show ?thesis using e unfolding up_count_def
    by (simp add: Suc_nat_eq_nat_zadd1 add.commute)
qed

locale up_down_device =
  fixes tm :: "'d \<Rightarrow> UpDownTimer"
    and upd :: "(UpDownTimer \<Rightarrow> UpDownTimer) \<Rightarrow> 'd \<Rightarrow> 'd"
    and up :: "int \<Rightarrow> 'd \<Rightarrow> 'd"
    and down :: "int \<Rightarrow> 'd \<Rightarrow> 'd"
    and level :: "'d \<Rightarrow> 'l"
    and raise :: "int \<Rightarrow> 'l \<Rightarrow> 'l"
    and powered :: "'d \<Rightarrow> bool"
  assumes tm_upd [simp]: "tm (upd f d) = f (tm d)"
    and level_upd [simp]: "level (upd f d) = level d"
    and powered_upd [simp]: "powered (upd f d) = powered d"
    and tm_up [simp]: "tm (up n d) = tm d"
    and level_up [simp]: "powered d \<Longrightarrow> level (up n d) = raise n (level d)"
    and powered_up [simp]: "powered d \<Longrightarrow> powered (up n d)"
begin

lemma up_cycle:
  assumes "th_pc (tm d) = AtTest" and "mThreadRunning (tm d)" and "\<not> mDown (tm d)"
    and "0 < th_totalSteps (tm d)" and "powered d"
  defines "d' \<equiv> dimmerThread_step tm upd up down (dimmerThread_step tm upd up down d)"
  shows "tm d' = (tm d)\<lparr>th_totalSteps := th_totalSteps (tm d) - th_step (tm d)\<rparr>"
    and "level d' = raise (th_step (tm d)) (level d)" and "powered d'"
  using assms by (simp_all add: dimmerThread_step_def d'_def Let_def)

lemma up_run:
  assumes "th_pc (tm d) = AtTest" and "mThreadRunning (tm d)" and "\<not> mDown (tm d)"
    and "0 < th_step (tm d)" and "powered d" and "up_count (tm d) = n"
  defines "d' \<equiv> (dimmerThread_step tm upd up down ^^ (2 * n + 1)) d"
  shows "level d' = (raise (th_step (tm d)) ^^ n) (level d) \<and> powered d' \<and> th_pc (tm d') = Ended"
  unfolding d'_def using assms(1-6)
proof (induction n arbitrary: d)
  case 0
  then have "th_totalSteps (tm d) \<le> 0" using up_count_Suc [of "tm d"] by fastforce
  then show ?case using 0 by (simp add: dimmerThread_step_def)
next
  case (Suc n)
  let ?s = "dimmerThread_step tm upd up down"
  have pos: "0 < th_totalSteps (tm d)" using Suc.prems up_count_0 [of "tm d"] by fastforce
  note c = up_cycle [OF Suc.prems(1-3) pos Suc.prems(5)]
  have "up_count (tm (?s (?s d))) = n"
    using up_count_Suc [OF pos Suc.prems(4)] Suc.prems(6) by (simp add: c)
  note IH = Suc.IH [of "?s (?s d)", OF _ _ _ _ _ this]
  have "(?s ^^ (2 * Suc n + 1)) d = (?s ^^ (2 * n + 1)) (?s (?s d))"
    by (simp add: funpow_swap1)
  then show ?case using IH Suc.prems c by (simp add: funpow_swap1)
qed

lemma cancelled_stays:
  assumes "\<not> mThreadRunning (tm d)"
  shows "level ((dimmerThread_step tm upd up down ^^ k) d) = level d \<and>
    \<not> mThreadRunning (tm ((dimmerThread_step tm upd up down ^^ k) d)) \<and>
    (2 \<le> k \<longrightarrow> th_pc (tm ((dimmerThread_step tm upd up down ^^ k) d)) = Ended)"
proof -
  have one: "level (dimmerThread_step tm upd up down d) = level d \<and>
      \<not> mThreadRunning (tm (dimmerThread_step tm upd up down d)) \<and>
      th_pc (tm (dimmerThread_step tm upd up down d))
        = (if th_pc (tm d) = Asleep then AtTest else Ended)"
    if "\<not> mThreadRunning (tm d)" for d
    using that by (cases "th_pc (tm d)") (simp_all add: dimmerThread_step_def Let_def)
  have gen: "level ((dimmerThread_step tm upd up down ^^ k) d) = level d \<and>
      \<not> mThreadRunning (tm ((dimmerThread_step tm upd up down ^^ k) d)) \<and>
      (1 \<le> k \<longrightarrow> th_pc (tm ((dimmerThread_step tm upd up down ^^ k) d)) \<noteq> Asleep) \<and>
      (2 \<le> k \<longrightarrow> th_pc (tm ((dimmerThread_step tm upd up down ^^ k) d)) = Ended)" for k
  proof (induction k)
    case 0
    show ?case using assms by simp
  next
    case (Suc k)
    then show ?case
      using one [of "(dimmerThread_step tm upd up down ^^ k) d"] by auto
  qed
  then show ?thesis by blast
qed

end

section \<open>What the power-off timer does to its device\<close>

text \<open>
  An interleaving of the two timer threads of a device: True is a step of the power-off thread,
  False a step of the other one.
\<close>

fun timer_schedule :: "('d \<Rightarrow> 'd option) \<Rightarrow> ('d \<Rightarrow> 'd) \<Rightarrow> bool list \<Rightarrow> 'd \<Rightarrow> 'd option" where
  "timer_schedule auto other [] d = Some d"
| "timer_schedule auto other (b # bs) d =
     Option.bind (if b then auto d else Some (other d)) (timer_schedule auto other bs)"

lemma timer_schedule_snoc:
  "timer_schedule auto other (bs @ [b]) d =
     Option.bind (timer_schedule auto other bs d) (\<lambda>d'. if b then auto d' else Some (other d'))"
proof (induction bs arbitrary: d)
  case (Cons a bs)
  then show ?case by (cases a; cases "auto d") simp_all
next
  case Nil
  show ?case by (cases "auto d") simp_all
qed

lemma autoOffThread_step_simps [step_simps]:
  "ao_pc (ao d) = Ended \<Longrightarrow> autoOffThread_step ao upd pwrOff d = Some d"
  "ao_pc (ao d) = AtTest \<Longrightarrow> autoOffThread_step ao upd pwrOff d =
     Some (upd (\<lambda>t. t\<lparr>ao_pc := if mAutoOffThreadRunning t then Asleep else Ended\<rparr>) d)"
  "ao_pc (ao d) = Asleep \<Longrightarrow> autoOffThread_step ao upd pwrOff d =
     (let d1 = upd (\<lambda>t. t\<lparr>ao_pc := AtTest, ao_countDownSeconds := ao_countDownSeconds t - 1\<rparr>) d in
      if ao_countDownSeconds (ao d1) = 0 \<and> mAutoOffThreadRunning (ao d1) then
        pwrOff (upd (\<lambda>t. t\<lparr>mAutoOffThreadRunning := False\<rparr>) d1)
      else Some d1)"
  by (simp_all add: autoOffThread_step_def)

locale auto_off_device =
  fixes ao :: "'d \<Rightarrow> AutoPowerOffTimer"
    and upd :: "(AutoPowerOffTimer \<Rightarrow> AutoPowerOffTimer) \<Rightarrow> 'd \<Rightarrow> 'd"
    and pwrOff :: "'d \<Rightarrow> 'd option"
    and other :: "'d \<Rightarrow> 'd"
    and waiting :: "'d \<Rightarrow> bool"
  assumes ao_upd [simp]: "ao (upd f d) = f (ao d)"
    and ao_other [simp]: "waiting d \<Longrightarrow> ao (other d) = ao d"
    and waiting_upd [simp]: "waiting (upd f d) = waiting d"
    and waiting_other [simp]: "waiting d \<Longrightarrow> waiting (other d)"
begin

lemma counts_down:
  assumes "ao_pc (ao d) = AtTest" and "mAutoOffThreadRunning (ao d)"
    and "ao_countDownSeconds (ao d) = int n" and "waiting d"
    and "count_list bs True < 2 * n"
  shows "\<exists>d'. timer_schedule (autoOffThread_step ao upd pwrOff) other bs d = Some d' \<and> waiting d' \<and>
     mAutoOffThreadRunning (ao d') \<and>
     ao_countDownSeconds (ao d') = int n - int (count_list bs True div 2) \<and>
     ao_pc (ao d') = (if even (count_list bs True) then AtTest else Asleep)"
  using assms(5)
proof (induction bs rule: rev_induct)
  case Nil
  show ?case using assms by simp
next
  case (snoc b bs)
  let ?c = "count_list bs True"
  have "?c < 2 * n" using snoc.prems by (cases b) simp_all
  then obtain d' where d': "timer_schedule (autoOffThread_step ao upd pwrOff) other bs d = Some d'"
    "waiting d'" "mAutoOffThreadRunning (ao d')"
    "ao_countDownSeconds (ao d') = int n - int (?c div 2)"
    "ao_pc (ao d') = (if even ?c then AtTest else Asleep)"
    using snoc.IH by blast
  show ?case
  proof (cases "b \<and> odd ?c")
    case True
    then obtain m where m: "?c = Suc (2 * m)" by (auto elim: oddE)
    then have "Suc m < n" using snoc.prems True by simp
    then show ?thesis using d' m True
      by (simp add: timer_schedule_snoc step_simps Let_def)
  next
    case False
    then show ?thesis using d'
      by (cases b) (auto simp: timer_schedule_snoc step_simps)
  qed
qed

lemma fires:
  assumes "ao_pc (ao d) = AtTest" and "mAutoOffThreadRunning (ao d)"
    and "ao_countDownSeconds (ao d) = int n" and "waiting d" and "0 < n"
    and "count_list bs True = 2 * n - 1"
  shows "\<exists>d' f. timer_schedule (autoOffThread_step ao upd pwrOff) other bs d = Some d' \<and> waiting d' \<and>
     timer_schedule (autoOffThread_step ao upd pwrOff) other (bs @ [True]) d
       = pwrOff (upd f (upd (\<lambda>t. t\<lparr>ao_pc := AtTest, ao_countDownSeconds := ao_countDownSeconds t - 1\<rparr>) d'))"
proof -
  obtain m where m: "n = Suc m" using assms(5) by (cases n) auto
  have "count_list bs True < 2 * n" "odd (count_list bs True)" "count_list bs True div 2 = m"
    using assms(6) m by simp_all
  then obtain d' where d': "timer_schedule (autoOffThread_step ao upd pwrOff) other bs d = Some d'"
    "waiting d'" "mAutoOffThreadRunning (ao d')"
    "ao_countDownSeconds (ao d') = 1" "ao_pc (ao d') = Asleep"
    using counts_down [OF assms(1-4)] m by fastforce
  then show ?thesis
    by (intro exI [of _ d'] exI [of _ "\<lambda>t. t\<lparr>mAutoOffThreadRunning := False\<rparr>"])
      (simp add: timer_schedule_snoc step_simps Let_def)
qed

end

end
