(* ===== verification/Keyboard.thy ===== *)
theory Keyboard
  imports Rgb_Prelude
begin

text \<open>
  The touch keyboard (\<open>rgbclock/RgbLib/src/lib/Keyboard.cpp\<close>): initialisation of the MPR121
  controller, sampling of the nine keys with a 16-bit press history each, classification of
  presses, and the queue by which the read thread hands key events to the worker thread that
  calls the observers. The value read from the controller is an input of the read step.
\<close>

section \<open>Data\<close>

datatype KeyboardState = stNormal | stAlarmEdit | stAlarmActive

record KeyInfo =
  mShortPressed :: bool
  mLongPress :: bool
  mReleased :: bool
  mPressed :: bool
  mRepeat :: bool

record KeyboardInfo =
  mKeyInfo :: "KeyInfo list"
  mState :: KeyboardState

definition KEY_LEFT :: nat where "KEY_LEFT = 0"
definition KEY_CENTRAL_L :: nat where "KEY_CENTRAL_L = 1"
definition KEY_CENTRAL_R :: nat where "KEY_CENTRAL_R = 2"
definition KEY_UP :: nat where "KEY_UP = 3"
definition KEY_DOWN :: nat where "KEY_DOWN = 4"
definition KEY_REL1 :: nat where "KEY_REL1 = 5"
definition KEY_REL2 :: nat where "KEY_REL2 = 6"
definition KEY_REL3 :: nat where "KEY_REL3 = 7"
definition KEY_REL4 :: nat where "KEY_REL4 = 8"

definition LONG_MASK :: u16 where "LONG_MASK = 0x80"
definition LONG_MASKREPEAT :: u16 where "LONG_MASKREPEAT = 0x100"
definition MONITORED_KEYS :: nat where "MONITORED_KEYS = 9"

record Keyboard =
  mAttached :: bool
  mKeyboardState :: KeyboardState
  mKeyHistory :: "u16 list"
  mKeyboardObservers :: "nat list"
  mKeyboardQueue :: "KeyboardInfo list"
  mReadThreadRunning :: bool
  mKeyboardWorkerRunning :: bool

section \<open>Initialisation of the controller\<close>

text \<open>The register writes of \<open>init\<close>, in order, as (register, value) pairs.\<close>

definition threshold_writes :: "(u8 \<times> u8) list" where
  "threshold_writes =
     [(0x41, 0x10), (0x42, 0x0E), (0x43, 0x10), (0x44, 0x0E), (0x45, 0x10), (0x46, 0x0E),
      (0x47, 0x10), (0x48, 0x0E), (0x49, 0x10), (0x4A, 0x0E), (0x4B, 0x10), (0x4C, 0x0E),
      (0x4D, 0x10), (0x4E, 0x0E), (0x4F, 0x10), (0x50, 0x0E), (0x51, 0x10), (0x52, 0x0E),
      (0x53, 0x10), (0x54, 0x0E), (0x55, 0x10), (0x56, 0x0E), (0x57, 0x10), (0x58, 0x0E)]"

definition keyboard_init :: "(u8 \<times> u8) list" where
  "keyboard_init =
     [(0x80, 0x63)]
     @ [(0x2B, 0x01), (0x2C, 0x01), (0x2D, 0x00), (0x2E, 0x00)]
     @ [(0x2F, 0x01), (0x30, 0x01), (0x31, 0xFF), (0x32, 0x02)]
     @ threshold_writes
     @ [(0x5D, 0x04)]
     @ [(0x5E, 0x0C)]"

definition new_Keyboard :: Keyboard where
  "new_Keyboard = \<lparr>mAttached = True, mKeyboardState = stNormal,
     mKeyHistory = replicate MONITORED_KEYS 0, mKeyboardObservers = [], mKeyboardQueue = [],
     mReadThreadRunning = True, mKeyboardWorkerRunning = True\<rparr>"

fun ptr_insert :: "nat \<Rightarrow> nat list \<Rightarrow> nat list" where
  "ptr_insert p [] = [p]"
| "ptr_insert p (q # qs) = (if p < q then p # q # qs else if p = q then q # qs else q # ptr_insert p qs)"

definition registerKeyboardObserver :: "nat option \<Rightarrow> Keyboard \<Rightarrow> Keyboard" where
  "registerKeyboardObserver obs k =
     (case obs of None \<Rightarrow> k
      | Some p \<Rightarrow> k\<lparr>mKeyboardObservers := ptr_insert p (mKeyboardObservers k)\<rparr>)"

definition unRegisterKeyboardObserver :: "nat option \<Rightarrow> Keyboard \<Rightarrow> Keyboard" where
  "unRegisterKeyboardObserver obs k =
     (case obs of None \<Rightarrow> k
      | Some p \<Rightarrow> k\<lparr>mKeyboardObservers := filter (\<lambda>q. q \<noteq> p) (mKeyboardObservers k)\<rparr>)"

definition keyboardState :: "KeyboardState \<Rightarrow> Keyboard \<Rightarrow> Keyboard" where
  "keyboardState st k = k\<lparr>mKeyboardState := st\<rparr>"

definition isAttached :: "Keyboard \<Rightarrow> bool" where
  "isAttached k = mAttached k"

section \<open>Sampling\<close>

text \<open>
  The body of the loop over the keys in \<open>readThread\<close>: the history of one key and the rest of the
  value read give the new history, the key's information, and whether this key makes the
  state change flag true. The shift is a shift of a \<open>uint16_t\<close>.
\<close>

definition key_body :: "u16 \<Rightarrow> u16 \<Rightarrow> u16 \<times> KeyInfo \<times> bool" where
  "key_body hist0 keybValue =
     (let hist = push_bit 1 hist0 OR (keybValue AND 0x01);
          info = \<lparr>mShortPressed = False, mLongPress = False, mReleased = False,
                  mPressed = (hist AND 0x01 \<noteq> 0), mRepeat = False\<rparr>;
          change = ((0 < hist AND 2) \<noteq> (0 < hist AND 1));
          (hist2, info2) =
            (if hist AND 0x01 = 0
             then (0, if 6 < hist
                      then (if hist < LONG_MASK then info\<lparr>mShortPressed := True\<rparr>
                            else info\<lparr>mReleased := True\<rparr>)
                      else info)
             else (hist, info))
      in if LONG_MASK < hist2
         then (hist2,
               if LONG_MASKREPEAT < hist2 then info2\<lparr>mLongPress := True, mRepeat := True\<rparr>
               else info2\<lparr>mLongPress := True\<rparr>,
               True)
         else (hist2, info2, change))"

fun key_loop :: "u16 list \<Rightarrow> u16 \<Rightarrow> u16 list \<times> KeyInfo list \<times> bool" where
  "key_loop [] keybValue = ([], [], False)"
| "key_loop (h # hs) keybValue =
     (let (h', info, c) = key_body h keybValue;
          (hs', infos, cs) = key_loop hs (drop_bit 1 keybValue)
      in (h' # hs', info # infos, c \<or> cs))"

text \<open>
  One iteration of \<open>readThread\<close>, given the result and the value of the I2C read. The key state is
  queued when some key changed or is pressed long.
\<close>

definition readThread_pass :: "bool \<Rightarrow> u16 \<Rightarrow> Keyboard \<Rightarrow> Keyboard" where
  "readThread_pass ok keybValue k =
     (let (hist, infos, stateChange) = key_loop (mKeyHistory k) keybValue;
          k1 = k\<lparr>mAttached := mAttached k \<and> ok, mKeyHistory := hist\<rparr>
      in if stateChange
         then k1\<lparr>mKeyboardQueue := mKeyboardQueue k @ [\<lparr>mKeyInfo = infos, mState = mKeyboardState k\<rparr>]\<rparr>
         else k1)"

section \<open>Classification of a press\<close>

text \<open>A run of one key over a sequence of samples, with the information of each sample.\<close>

fun key_run :: "u16 \<Rightarrow> bool list \<Rightarrow> u16 \<times> KeyInfo list" where
  "key_run h [] = (h, [])"
| "key_run h (b # bs) =
     (let (h', info, _) = key_body h (if b then 1 else 0); (h'', infos) = key_run h' bs
      in (h'', info # infos))"

text \<open>Number of consecutive pressed samples at the end of a sequence.\<close>

definition streak :: "bool list \<Rightarrow> nat" where
  "streak bs = length (takeWhile (\<lambda>b. b) (rev bs))"

lemma streak_Nil [simp]: "streak [] = 0"
  by (simp add: streak_def)

lemma streak_snoc [simp]: "streak (bs @ [b]) = (if b then Suc (streak bs) else 0)"
  by (simp add: streak_def)

definition press_info :: "nat \<Rightarrow> KeyInfo" where
  "press_info n = \<lparr>mShortPressed = False, mLongPress = (8 \<le> n), mReleased = False,
     mPressed = True, mRepeat = (9 \<le> n)\<rparr>"

definition release_info :: "nat \<Rightarrow> KeyInfo" where
  "release_info n = \<lparr>mShortPressed = (3 \<le> n \<and> n \<le> 6), mLongPress = False, mReleased = (7 \<le> n),
     mPressed = False, mRepeat = False\<rparr>"

definition sample_info :: "bool list \<Rightarrow> nat \<Rightarrow> KeyInfo" where
  "sample_info bs j =
     (let n = streak (take j bs) in if bs ! j then press_info (Suc n) else release_info n)"

definition sample_change :: "bool list \<Rightarrow> nat \<Rightarrow> bool" where
  "sample_change bs j \<longleftrightarrow> bs ! j \<noteq> (0 < streak (take j bs)) \<or> 8 \<le> streak (take (Suc j) bs)"

text \<open>The history after \<open>n\<close> pressed samples is a mask of \<open>n\<close> ones; sixteen or more fill it.\<close>

lemma mask16_min: "(mask n :: u16) = mask (min n 16)"
  by (rule bit_eqI) (simp add: bit_simps)

lemma key_body_table:
  "list_all (\<lambda>n. key_body (mask n) 1 = (mask (Suc n), press_info (Suc n), n = 0 \<or> 8 \<le> Suc n) \<and>
                 key_body (mask n) 0 = (0, release_info n, 0 < n)) [0..<17]"
  by code_simp

lemma press_info_min: "press_info (Suc n) = press_info (Suc (min n 16))"
  by (auto simp: press_info_def)

lemma release_info_min: "release_info n = release_info (min n 16)"
  by (auto simp: release_info_def)

lemma key_body_mask:
  "key_body (mask n) (if b then 1 else 0) =
     (if b then (mask (Suc n), press_info (Suc n), n = 0 \<or> 8 \<le> Suc n)
      else (0, release_info n, 0 < n))"
proof -
  let ?m = "min n 16"
  have "?m \<in> set [0..<17]" by auto
  with key_body_table have t: "key_body (mask ?m) 1 = (mask (Suc ?m), press_info (Suc ?m), ?m = 0 \<or> 8 \<le> Suc ?m)"
    "key_body (mask ?m) 0 = (0, release_info ?m, 0 < ?m)"
    by (auto simp: list_all_iff simp del: set_upt)
  have "(mask (Suc n) :: u16) = mask (Suc ?m)"
    by (rule bit_eqI) (auto simp: bit_simps)
  moreover have "(mask n :: u16) = mask ?m" by (rule mask16_min)
  ultimately show ?thesis
    using t press_info_min [of n] release_info_min [of n] by (cases b) (simp_all, linarith+)
qed

lemma key_body_low_bit: "key_body h v = key_body h (if bit v 0 then 1 else 0)"
proof -
  have "v AND 1 = (if bit v 0 then 1 else 0)" by (simp add: and_one_eq odd_iff_mod_2_eq_one bit_0)
  then show ?thesis unfolding key_body_def by simp
qed

text \<open>Every key of a read pass sees its own bit of the value read.\<close>

lemma key_loop_nth:
  assumes "i < length hs" and "length hs \<le> 16"
  shows "fst (key_loop hs v) ! i = fst (key_body (hs ! i) (if bit v i then 1 else 0))"
    and "fst (snd (key_loop hs v)) ! i = fst (snd (key_body (hs ! i) (if bit v i then 1 else 0)))"
  using assms
proof (induction hs arbitrary: i v)
  case (Cons h hs)
  { case 1
    then show ?case
      using Cons.IH(1) [of "i - 1" "drop_bit 1 v"] key_body_low_bit [of h v]
      by (cases i) (auto simp: Let_def split_beta bit_drop_bit_eq)
  next
    case 2
    then show ?case
      using Cons.IH(2) [of "i - 1" "drop_bit 1 v"] key_body_low_bit [of h v]
      by (cases i) (auto simp: Let_def split_beta bit_drop_bit_eq) }
qed simp_all

lemma key_loop_length [simp]:
  "length (fst (key_loop hs v)) = length hs" "length (fst (snd (key_loop hs v))) = length hs"
  by (induction hs arbitrary: v) (auto simp: Let_def split_beta)

lemma key_loop_change:
  "snd (snd (key_loop hs v)) \<longleftrightarrow>
     (\<exists>i < length hs. snd (snd (key_body (hs ! i) (if bit v i then 1 else 0))))"
proof (induction hs arbitrary: v)
  case (Cons h hs)
  then show ?case
    using key_body_low_bit [of h v]
    by (simp add: Let_def split_beta bit_drop_bit_eq Ex_less_Suc2 del: fst_conv)
qed simp

definition key_bits :: "nat \<Rightarrow> u16 list \<Rightarrow> bool list" where
  "key_bits i vs = map (\<lambda>v. bit v i) vs"

definition keyboard_run :: "(bool \<times> u16) list \<Rightarrow> Keyboard" where
  "keyboard_run rs = foldl (\<lambda>k (ok, v). readThread_pass ok v k) new_Keyboard rs"

lemma sample_prefix:
  assumes "j < length bs"
  shows "sample_info (bs @ [b]) j = sample_info bs j" "sample_change (bs @ [b]) j = sample_change bs j"
  using assms by (simp_all add: sample_info_def sample_change_def nth_append)

lemma sample_last:
  "sample_info (bs @ [b]) (length bs) =
     (if b then press_info (Suc (streak bs)) else release_info (streak bs))"
  "sample_change (bs @ [b]) (length bs) \<longleftrightarrow>
     (if b then streak bs = 0 \<or> 8 \<le> Suc (streak bs) else 0 < streak bs)"
  by (auto simp: sample_info_def sample_change_def)

lemma key_bits_snoc [simp]: "key_bits i (vs @ [v]) = key_bits i vs @ [bit v i]"
  by (simp add: key_bits_def)

lemma length_key_bits [simp]: "length (key_bits i vs) = length vs"
  by (simp add: key_bits_def)

lemma key_loop_masks:
  assumes "hs = map (\<lambda>i. mask (streak (key_bits i vs))) [0..<9]"
  shows "fst (key_loop hs v) = map (\<lambda>i. mask (streak (key_bits i (vs @ [v])))) [0..<9]"
    and "fst (snd (key_loop hs v)) = map (\<lambda>i. sample_info (key_bits i (vs @ [v])) (length vs)) [0..<9]"
    and "snd (snd (key_loop hs v)) \<longleftrightarrow> (\<exists>i < 9. sample_change (key_bits i (vs @ [v])) (length vs))"
proof -
  have len: "length hs = 9" using assms by simp
  have nth: "hs ! i = mask (streak (key_bits i vs))" if "i < 9" for i
    using assms that by simp
  show "fst (key_loop hs v) = map (\<lambda>i. mask (streak (key_bits i (vs @ [v])))) [0..<9]"
    by (rule nth_equalityI) (use len nth in \<open>auto simp: key_loop_nth key_body_mask\<close>)
  show "fst (snd (key_loop hs v)) = map (\<lambda>i. sample_info (key_bits i (vs @ [v])) (length vs)) [0..<9]"
    by (rule nth_equalityI)
      (use len nth sample_last(1) [of "key_bits _ vs"] in \<open>auto simp: key_loop_nth key_body_mask\<close>)
  show "snd (snd (key_loop hs v)) \<longleftrightarrow> (\<exists>i < 9. sample_change (key_bits i (vs @ [v])) (length vs))"
  proof -
    have "snd (snd (key_body (hs ! i) (if bit v i then 1 else 0)))
        = sample_change (key_bits i (vs @ [v])) (length vs)" if "i < 9" for i
      unfolding nth [OF that] key_body_mask
      using sample_last(2) [of "key_bits i vs" "bit v i"] by (cases "bit v i") simp_all
    then show ?thesis unfolding key_loop_change len by blast
  qed
qed

text \<open>
  C14. For every sequence of values read by the keyboard thread, each key is classified by the
  number of consecutive samples it was pressed: a release after three to six is a short press,
  after seven or more a release of a long press, a pressed key is long from the eighth and
  repeats from the ninth sample; the queue holds, in order, exactly the samples in which some
  key changed or was pressed long; and the history never loses a key in its sixteen bits.
\<close>

theorem keyboard_run_classifies:
  "let k = keyboard_run rs; vs = map snd rs in
     mKeyHistory k = map (\<lambda>i. mask (streak (key_bits i vs))) [0..<9] \<and>
     mKeyboardQueue k =
       map (\<lambda>j. \<lparr>mKeyInfo = map (\<lambda>i. sample_info (key_bits i vs) j) [0..<9], mState = stNormal\<rparr>)
         (filter (\<lambda>j. \<exists>i < 9. sample_change (key_bits i vs) j) [0..<length rs]) \<and>
     mAttached k = list_all fst rs"
proof -
  have "let k = keyboard_run rs; vs = map snd rs in
     mKeyHistory k = map (\<lambda>i. mask (streak (key_bits i vs))) [0..<9] \<and>
     mKeyboardQueue k =
       map (\<lambda>j. \<lparr>mKeyInfo = map (\<lambda>i. sample_info (key_bits i vs) j) [0..<9], mState = stNormal\<rparr>)
         (filter (\<lambda>j. \<exists>i < 9. sample_change (key_bits i vs) j) [0..<length rs]) \<and>
     mAttached k = list_all fst rs \<and> mKeyboardState k = stNormal"
  proof (induction rs rule: rev_induct)
    case Nil
    show ?case
      by (simp add: keyboard_run_def new_Keyboard_def MONITORED_KEYS_def key_bits_def map_replicate_const)
  next
    case (snoc r rs)
    obtain ok v where r: "r = (ok, v)" by (cases r)
    let ?k = "keyboard_run rs" and ?vs = "map snd rs"
    note IH = snoc.IH [unfolded Let_def]
    note kl = key_loop_masks [of "mKeyHistory ?k" ?vs v]
    have eq: "keyboard_run (rs @ [r]) = readThread_pass ok v ?k"
      by (simp add: keyboard_run_def r)
    have old: "map (\<lambda>j. \<lparr>mKeyInfo = map (\<lambda>i. sample_info (key_bits i (?vs @ [v])) j) [0..<9], mState = stNormal\<rparr>)
         (filter (\<lambda>j. \<exists>i < 9. sample_change (key_bits i (?vs @ [v])) j) [0..<length rs]) = mKeyboardQueue ?k"
      using IH by (auto simp: sample_prefix intro!: map_cong filter_cong)
    show ?case
      unfolding Let_def eq using IH kl old
      by (auto simp: readThread_pass_def Let_def split_beta r)
  qed
  then show ?thesis by (simp add: Let_def)
qed

section \<open>Hand-over to the worker thread\<close>

text \<open>
  The read thread and \<open>keyboardWorkerThread\<close> share the queue under its mutex, one critical
  section at a time: the worker reads the queue size, pops the front element, calls every
  observer, and reads the size again. Taking the front of an empty queue is undefined
  behaviour, recorded in \<open>ks_ub\<close>. \<open>ks_pushed\<close> and \<open>ks_calls\<close> record what was queued and what
  was delivered, the latter with the observers called.
\<close>

datatype worker = Sleeping | QueueSize nat | Handling KeyboardInfo

record kb_sys =
  ks_kb :: Keyboard
  ks_worker :: worker
  ks_calls :: "(KeyboardInfo \<times> nat list) list"
  ks_pushed :: "KeyboardInfo list"
  ks_ub :: bool

definition queued_by :: "Keyboard \<Rightarrow> Keyboard \<Rightarrow> KeyboardInfo list" where
  "queued_by k k' = drop (length (mKeyboardQueue k)) (mKeyboardQueue k')"

inductive kb_step :: "kb_sys \<Rightarrow> kb_sys \<Rightarrow> bool" where
  read: "k' = readThread_pass ok v (ks_kb s) \<Longrightarrow>
    kb_step s (s\<lparr>ks_kb := k', ks_pushed := ks_pushed s @ queued_by (ks_kb s) k'\<rparr>)"
| set_state: "kb_step s (s\<lparr>ks_kb := keyboardState st (ks_kb s)\<rparr>)"
| register: "kb_step s (s\<lparr>ks_kb := registerKeyboardObserver p (ks_kb s)\<rparr>)"
| unregister: "kb_step s (s\<lparr>ks_kb := unRegisterKeyboardObserver p (ks_kb s)\<rparr>)"
| wake: "ks_worker s = Sleeping \<Longrightarrow>
    kb_step s (s\<lparr>ks_worker := QueueSize (length (mKeyboardQueue (ks_kb s)))\<rparr>)"
| drained: "ks_worker s = QueueSize 0 \<Longrightarrow> kb_step s (s\<lparr>ks_worker := Sleeping\<rparr>)"
| pop: "\<lbrakk>ks_worker s = QueueSize n; 0 < n; mKeyboardQueue (ks_kb s) = i # q\<rbrakk> \<Longrightarrow>
    kb_step s (s\<lparr>ks_worker := Handling i, ks_kb := (ks_kb s)\<lparr>mKeyboardQueue := q\<rparr>\<rparr>)"
| pop_empty: "\<lbrakk>ks_worker s = QueueSize n; 0 < n; mKeyboardQueue (ks_kb s) = []\<rbrakk> \<Longrightarrow>
    kb_step s (s\<lparr>ks_ub := True\<rparr>)"
| deliver: "ks_worker s = Handling i \<Longrightarrow>
    kb_step s (s\<lparr>ks_calls := ks_calls s @ [(i, mKeyboardObservers (ks_kb s))],
                 ks_worker := QueueSize (length (mKeyboardQueue (ks_kb s)))\<rparr>)"

definition kb_start :: kb_sys where
  "kb_start = \<lparr>ks_kb = new_Keyboard, ks_worker = Sleeping, ks_calls = [], ks_pushed = [], ks_ub = False\<rparr>"

inductive kb_reachable :: "kb_sys \<Rightarrow> bool" where
  start: "kb_reachable kb_start"
| step: "\<lbrakk>kb_reachable s; kb_step s s'\<rbrakk> \<Longrightarrow> kb_reachable s'"

fun in_flight :: "worker \<Rightarrow> KeyboardInfo list" where
  "in_flight (Handling i) = [i]"
| "in_flight _ = []"

definition queue_inv :: "kb_sys \<Rightarrow> bool" where
  "queue_inv s \<longleftrightarrow> \<not> ks_ub s \<and>
     (\<forall>n. ks_worker s = QueueSize n \<longrightarrow> n \<le> length (mKeyboardQueue (ks_kb s))) \<and>
     map fst (ks_calls s) @ in_flight (ks_worker s) @ mKeyboardQueue (ks_kb s) = ks_pushed s"

lemma readThread_pass_queue:
  "mKeyboardQueue (readThread_pass ok v k) = mKeyboardQueue k @ queued_by k (readThread_pass ok v k)"
  by (simp add: readThread_pass_def queued_by_def Let_def split_beta)

lemma observer_ops_queue [simp]:
  "mKeyboardQueue (registerKeyboardObserver p k) = mKeyboardQueue k"
  "mKeyboardQueue (unRegisterKeyboardObserver p k) = mKeyboardQueue k"
  "mKeyboardQueue (keyboardState st k) = mKeyboardQueue k"
  by (simp_all add: registerKeyboardObserver_def unRegisterKeyboardObserver_def keyboardState_def
      split: option.splits)

lemma queue_inv_step: "kb_step s s' \<Longrightarrow> queue_inv s \<Longrightarrow> queue_inv s'"
proof (induction rule: kb_step.induct)
  case (read k' ok v s)
  then have q: "mKeyboardQueue k' = mKeyboardQueue (ks_kb s) @ queued_by (ks_kb s) k'"
    using readThread_pass_queue by simp
  have "n \<le> length (mKeyboardQueue k')" if "ks_worker s = QueueSize n" for n
    using read.prems that by (simp add: queue_inv_def q trans_le_add1)
  moreover have "map fst (ks_calls s) @ in_flight (ks_worker s) @ mKeyboardQueue k'
      = ks_pushed s @ queued_by (ks_kb s) k'"
    using read.prems unfolding queue_inv_def q by (metis append.assoc)
  ultimately show ?case using read.prems by (simp add: queue_inv_def)
qed (auto simp: queue_inv_def)

lemma kb_reachable_inv: "kb_reachable s \<Longrightarrow> queue_inv s"
proof (induction rule: kb_reachable.induct)
  case start
  show ?case by (simp add: queue_inv_def kb_start_def new_Keyboard_def)
next
  case (step s s')
  then show ?case by (blast intro: queue_inv_step)
qed

text \<open>
  However the read thread, the worker thread and the registration calls interleave, the
  worker never takes the front of an empty queue, and the key events delivered to the observers,
  the one being delivered and those still queued are together exactly the events queued so far,
  each once and in order.
\<close>

theorem keyboard_queue_fifo:
  assumes "kb_reachable s"
  shows "\<not> ks_ub s \<and>
     ks_pushed s = map fst (ks_calls s) @ in_flight (ks_worker s) @ mKeyboardQueue (ks_kb s)"
  using kb_reachable_inv [OF assms] by (simp add: queue_inv_def)

theorem keyboard_queue_fifo_witness:
  "\<not> ks_ub (kb_start\<lparr>ks_worker := QueueSize 0\<rparr>)
   \<and> ks_pushed (kb_start\<lparr>ks_worker := QueueSize 0\<rparr>) = []"
proof -
  have "kb_step kb_start (kb_start\<lparr>ks_worker := QueueSize (length (mKeyboardQueue (ks_kb kb_start)))\<rparr>)"
    by (rule kb_step.wake) (simp add: kb_start_def)
  then have r: "kb_reachable (kb_start\<lparr>ks_worker := QueueSize 0\<rparr>)"
    using kb_reachable.step [OF kb_reachable.start] by (simp add: kb_start_def new_Keyboard_def)
  show ?thesis using keyboard_queue_fifo [OF r] by (simp add: kb_start_def new_Keyboard_def)
qed

end
