(* ===== verification/Light.thy ===== *)
theory Light
  imports Device_Timers Keyboard
begin

text \<open>
  The light (\<open>rgbclock/RgbLib/src/lib/Light.cpp\<close>) with its two timers, and the luminance part of the
  colour LED it drives (\<open>RgbLed.cpp\<close>). Operations that start a timer can run into the undefined
  behaviour of \<open>calculate\<close> and return None there. Luminances stay below 2^31 by the bounds proved
  here, so \<open>int\<close> values are unbounded integers. The time of day is an argument of the operation
  that reads it.
\<close>

section \<open>The colour LED\<close>

definition MAX_RESOLUTION :: u16 where "MAX_RESOLUTION = 4000"

record RgbLed =
  mHue :: u16
  mSat :: u16
  mLum :: u16
  led_on :: bool

definition new_RgbLed :: RgbLed where
  "new_RgbLed = \<lparr>mHue = 0, mSat = 0, mLum = 0, led_on = True\<rparr>"

definition RgbLed_pwrOn :: "RgbLed \<Rightarrow> RgbLed" where "RgbLed_pwrOn l = l\<lparr>led_on := True\<rparr>"
definition RgbLed_pwrOff :: "RgbLed \<Rightarrow> RgbLed" where "RgbLed_pwrOff l = l\<lparr>led_on := False\<rparr>"
definition hue :: "u16 \<Rightarrow> RgbLed \<Rightarrow> RgbLed" where "hue v l = l\<lparr>mHue := v\<rparr>"
definition saturation :: "u16 \<Rightarrow> RgbLed \<Rightarrow> RgbLed" where "saturation v l = l\<lparr>mSat := v\<rparr>"

definition luminance :: "u16 \<Rightarrow> RgbLed \<Rightarrow> RgbLed" where
  "luminance v l =
     (let lum = (if MAX_RESOLUTION < v then MAX_RESOLUTION else v) in
      l\<lparr>mLum := if lum = 759 then 758 else if lum = 1175 then 1174
                else if lum = 1176 then 1174 else lum\<rparr>)"

section \<open>The light\<close>

definition MIN_DIMMER_INTENSITY :: int where "MIN_DIMMER_INTENSITY = 40"
definition SUNRISE_DIMMER_INTENSITY :: int where "SUNRISE_DIMMER_INTENSITY = 1500"
definition MAX_DIMMER_INTENSITY :: int where "MAX_DIMMER_INTENSITY = 4000"
definition DIMMER_STEP :: int where "DIMMER_STEP = 20"
definition AUTO_OFF_MINUTES :: int where "AUTO_OFF_MINUTES = 60"
definition SLOWUP_MINUTES :: int where "SLOWUP_MINUTES = 15"

lemmas light_consts =
  MIN_DIMMER_INTENSITY_def SUNRISE_DIMMER_INTENSITY_def MAX_DIMMER_INTENSITY_def
  DIMMER_STEP_def AUTO_OFF_MINUTES_def SLOWUP_MINUTES_def

record Light =
  mPowerOn :: bool
  mPowerDownInitiated :: bool
  mRGBLed :: RgbLed
  mCurrentLuminance :: int
  mStoredLuminance :: int
  mLastLong :: int
  mDimDown :: bool
  mUpDownTimer :: UpDownTimer
  mAutoPowerOffTimer :: AutoPowerOffTimer

text \<open>The call \<open>mRGBLed.luminance(mCurrentLuminance)\<close>, where the argument becomes a \<open>uint16_t\<close>.\<close>

definition show_luminance :: "Light \<Rightarrow> Light" where
  "show_luminance l = l\<lparr>mRGBLed := luminance (of_int (mCurrentLuminance l)) (mRGBLed l)\<rparr>"

definition internalPwrOn :: "Light \<Rightarrow> Light" where
  "internalPwrOn l =
     (let l1 = show_luminance (l\<lparr>mCurrentLuminance := MIN_DIMMER_INTENSITY\<rparr>)
      in l1\<lparr>mRGBLed := RgbLed_pwrOn (mRGBLed l1), mPowerOn := True\<rparr>)"

definition internalPwrOff :: "Light \<Rightarrow> Light" where
  "internalPwrOff l =
     (let l1 = show_luminance (l\<lparr>mCurrentLuminance := 0\<rparr>)
      in l1\<lparr>mRGBLed := RgbLed_pwrOff (mRGBLed l1), mPowerOn := False\<rparr>)"

definition new_Light :: "int \<Rightarrow> Light" where
  "new_Light now =
     (let l = internalPwrOff \<lparr>mPowerOn = False, mPowerDownInitiated = False, mRGBLed = new_RgbLed,
                mCurrentLuminance = 0, mStoredLuminance = SUNRISE_DIMMER_INTENSITY, mLastLong = now,
                mDimDown = True, mUpDownTimer = new_UpDownTimer,
                mAutoPowerOffTimer = new_AutoPowerOffTimer\<rparr>
      in l\<lparr>mRGBLed := saturation 4000 (hue 200 (mRGBLed l))\<rparr>)"

definition initiateFastUp :: "Light \<Rightarrow> Light option" where
  "initiateFastUp l =
     (let l1 = (if mStoredLuminance l < MIN_DIMMER_INTENSITY
                then l\<lparr>mStoredLuminance := MIN_DIMMER_INTENSITY\<rparr> else l);
          l2 = (if mStoredLuminance l1 > MAX_DIMMER_INTENSITY
                then l1\<lparr>mStoredLuminance := MAX_DIMMER_INTENSITY\<rparr> else l1)
      in map_option (\<lambda>t. l2\<lparr>mUpDownTimer := t\<rparr>)
           (initiateUp (mStoredLuminance l2 - MIN_DIMMER_INTENSITY) 1 (mUpDownTimer l2)))"

definition initiateSlowUp :: "Light \<Rightarrow> Light option" where
  "initiateSlowUp l = map_option (\<lambda>t. l\<lparr>mUpDownTimer := t\<rparr>)
     (initiateUp (SUNRISE_DIMMER_INTENSITY - MIN_DIMMER_INTENSITY) (SLOWUP_MINUTES * 60) (mUpDownTimer l))"

definition initiateFastDown :: "Light \<Rightarrow> Light option" where
  "initiateFastDown l = map_option (\<lambda>t. l\<lparr>mUpDownTimer := t\<rparr>)
     (initiateDown (mCurrentLuminance l) 1 (mUpDownTimer l))"

definition Light_pwrOn :: "bool \<Rightarrow> Light \<Rightarrow> Light option" where
  "Light_pwrOn slow l =
     (let l1 = l\<lparr>mAutoPowerOffTimer := cancelAutoPowerOff (mAutoPowerOffTimer l),
                 mUpDownTimer := cancelDimmer (mUpDownTimer l)\<rparr>
      in if \<not> mPowerOn l1
         then map_option
                (\<lambda>l2. l2\<lparr>mAutoPowerOffTimer := startAutoPowerOff AUTO_OFF_MINUTES (mAutoPowerOffTimer l2)\<rparr>)
                ((if slow then initiateSlowUp else initiateFastUp)
                   (internalPwrOn (l1\<lparr>mPowerDownInitiated := False\<rparr>)))
         else Some l1)"

definition Light_pwrOff :: "Light \<Rightarrow> Light option" where
  "Light_pwrOff l =
     (let l1 = l\<lparr>mAutoPowerOffTimer := cancelAutoPowerOff (mAutoPowerOffTimer l)\<rparr>
      in if mPowerOn l1 \<and> \<not> mPowerDownInitiated l1
         then initiateFastDown
                (l1\<lparr>mUpDownTimer := cancelDimmer (mUpDownTimer l1),
                    mStoredLuminance := mCurrentLuminance l1, mPowerDownInitiated := True\<rparr>)
         else Some l1)"

definition Light_pwrToggle :: "Light \<Rightarrow> Light option" where
  "Light_pwrToggle l = (if mPowerOn l then Light_pwrOff l else Light_pwrOn False l)"

definition Light_up :: "int \<Rightarrow> Light \<Rightarrow> Light" where
  "Light_up step l =
     (if mPowerOn l
      then show_luminance (l\<lparr>mCurrentLuminance := min (mCurrentLuminance l + step) MAX_DIMMER_INTENSITY\<rparr>)
      else l)"

definition Light_down :: "int \<Rightarrow> Light \<Rightarrow> Light" where
  "Light_down step l =
     (if mPowerOn l
      then (let l1 = l\<lparr>mCurrentLuminance := max (mCurrentLuminance l - step) MIN_DIMMER_INTENSITY\<rparr>;
                l2 = show_luminance l1
            in if mCurrentLuminance l2 \<le> MIN_DIMMER_INTENSITY \<and> mPowerDownInitiated l2
               then internalPwrOff (l2\<lparr>mUpDownTimer := cancelDimmer (mUpDownTimer l2)\<rparr>)
               else l2)
      else l)"

definition key_is :: "(KeyInfo \<Rightarrow> bool) \<Rightarrow> KeyboardInfo \<Rightarrow> nat \<Rightarrow> bool" where
  "key_is f ki k = f (mKeyInfo ki ! k)"

definition either_central :: "(KeyInfo \<Rightarrow> bool) \<Rightarrow> KeyboardInfo \<Rightarrow> bool" where
  "either_central f ki \<longleftrightarrow> key_is f ki KEY_CENTRAL_L \<or> key_is f ki KEY_CENTRAL_R"

text \<open>The action on a long press of a central key, the last part of \<open>keyboardPressed\<close>.\<close>

definition Light_long_press :: "int \<Rightarrow> Light \<Rightarrow> Light option" where
  "Light_long_press now l =
     (if mPowerOn l then
        (let l1 = (if now - mLastLong l > 5 then l\<lparr>mDimDown := True\<rparr> else l);
             l2 = l1\<lparr>mLastLong := now\<rparr>
         in Some (if mDimDown l2 then Light_down DIMMER_STEP l2 else Light_up DIMMER_STEP l2))
      else Light_pwrOn True l)"

definition Light_keyboardPressed :: "int \<Rightarrow> KeyboardInfo \<Rightarrow> Light \<Rightarrow> Light option" where
  "Light_keyboardPressed now ki l =
     (if mState ki \<noteq> stNormal then Some l
      else Option.bind (if either_central mShortPressed ki then Light_pwrToggle l else Some l) (\<lambda>l1.
        let l2 = (if either_central mReleased ki then l1\<lparr>mDimDown := \<not> mDimDown l1\<rparr> else l1)
        in if either_central mLongPress ki then Light_long_press now l2 else Some l2))"

text \<open>The steps of the light's two timer threads.\<close>

definition light_dimmer :: "Light \<Rightarrow> Light" where
  "light_dimmer = dimmerThread_step mUpDownTimer mUpDownTimer_update Light_up Light_down"

definition light_auto_off :: "Light \<Rightarrow> Light option" where
  "light_auto_off = autoOffThread_step mAutoPowerOffTimer mAutoPowerOffTimer_update Light_pwrOff"


section \<open>The invariant\<close>

definition shown_luminance :: "int \<Rightarrow> u16" where
  "shown_luminance lum = (if lum = 759 then 758 else if lum = 1175 \<or> lum = 1176 then 1174 else of_int lum)"

lemma of_int_u16_eq:
  "0 \<le> a \<Longrightarrow> a < 65536 \<Longrightarrow> 0 \<le> b \<Longrightarrow> b < 65536 \<Longrightarrow> (of_int a :: u16) = of_int b \<longleftrightarrow> a = b"
  by (simp add: of_int_eq_iff word_of_int_eq_iff take_bit_int_eq_self)

lemma mLum_luminance:
  assumes "0 \<le> lum" and "lum \<le> 4000"
  shows "mLum (luminance (of_int lum) l) = shown_luminance lum"
proof -
  have "\<not> MAX_RESOLUTION < of_int lum"
    using assms by (simp add: MAX_RESOLUTION_def word_less_def uint_word_of_int_eq take_bit_int_eq_self)
  moreover have "(of_int lum :: u16) = 759 \<longleftrightarrow> lum = 759" "(of_int lum :: u16) = 1175 \<longleftrightarrow> lum = 1175"
    "(of_int lum :: u16) = 1176 \<longleftrightarrow> lum = 1176"
    using assms of_int_u16_eq [of lum 759] of_int_u16_eq [of lum 1175] of_int_u16_eq [of lum 1176] by simp_all
  ultimately show ?thesis by (simp add: luminance_def shown_luminance_def)
qed

lemma led_on_luminance [simp]: "led_on (luminance v l) = led_on l"
  by (simp add: luminance_def Let_def)

definition light_inv :: "Light \<Rightarrow> bool" where
  "light_inv l \<longleftrightarrow>
     (if mPowerOn l then MIN_DIMMER_INTENSITY \<le> mCurrentLuminance l \<and> mCurrentLuminance l \<le> MAX_DIMMER_INTENSITY
      else mCurrentLuminance l = 0) \<and>
     MIN_DIMMER_INTENSITY \<le> mStoredLuminance l \<and> mStoredLuminance l \<le> MAX_DIMMER_INTENSITY \<and>
     led_on (mRGBLed l) = mPowerOn l \<and> mLum (mRGBLed l) = shown_luminance (mCurrentLuminance l) \<and>
     0 \<le> th_step (mUpDownTimer l)"

lemma new_Light_inv [wf_intros]: "light_inv (new_Light now)"
  by (simp add: new_Light_def light_inv_def internalPwrOff_def show_luminance_def Let_def light_consts
      saturation_def hue_def RgbLed_pwrOff_def new_UpDownTimer_def mLum_luminance [of 0, simplified]
      shown_luminance_def)

lemma internalPwrOn_inv:
  assumes "light_inv l" shows "light_inv (internalPwrOn l)"
  using assms mLum_luminance [of 40]
  by (simp add: light_inv_def internalPwrOn_def show_luminance_def Let_def RgbLed_pwrOn_def light_consts)

lemma internalPwrOff_inv:
  assumes "light_inv l" shows "light_inv (internalPwrOff l)"
  using assms mLum_luminance [of 0]
  by (simp add: light_inv_def internalPwrOff_def show_luminance_def Let_def RgbLed_pwrOff_def light_consts)

lemma Light_up_inv [wf_intros]:
  assumes "light_inv l" and "0 \<le> n" shows "light_inv (Light_up n l)"
  using assms mLum_luminance [of "min (mCurrentLuminance l + n) 4000"]
  by (auto simp: light_inv_def Light_up_def show_luminance_def light_consts split: if_splits)

lemma Light_down_inv [wf_intros]:
  assumes "light_inv l" and "0 \<le> n" shows "light_inv (Light_down n l)"
proof (cases "mPowerOn l")
  case True
  let ?l2 = "show_luminance (l\<lparr>mCurrentLuminance := max (mCurrentLuminance l - n) MIN_DIMMER_INTENSITY\<rparr>)"
  have "light_inv ?l2"
    using assms True mLum_luminance [of "max (mCurrentLuminance l - n) 40"]
    by (auto simp: light_inv_def show_luminance_def light_consts)
  moreover from this have "light_inv (?l2\<lparr>mUpDownTimer := cancelDimmer (mUpDownTimer ?l2)\<rparr>)"
    by (simp add: light_inv_def cancelDimmer_def)
  ultimately show ?thesis
    using internalPwrOff_inv by (simp add: Light_down_def Let_def True)
qed (use assms in \<open>simp add: Light_down_def\<close>)

text \<open>The fields of a timer that was started.\<close>

lemma calculate_step:
  assumes "calculate steps s t = Some t'" and "0 < s"
  shows "1 \<le> mStep t'" and "mTotalSteps t' = steps"
proof -
  show "1 \<le> mStep t'"
  proof (cases "steps > s * 1000")
    case True
    have "(- steps) div (s * 1000) < 0"
      using True assms(2) by (intro div_neg_pos_less0) auto
    then show ?thesis using assms True by (auto simp: calculate_def Let_def split: if_splits)
  qed (use assms in \<open>auto simp: calculate_def Let_def split: if_splits\<close>)
  show "mTotalSteps t' = steps"
    using assms by (auto simp: calculate_def Let_def split: if_splits)
qed

lemma initiate_step:
  assumes "0 < s"
  shows "initiateUp n s t = Some t' \<Longrightarrow> 0 \<le> th_step t'"
    and "initiateDown n s t = Some t' \<Longrightarrow> 0 \<le> th_step t'"
  using calculate_step [of n s t, OF _ assms]
  by (fastforce simp: initiateUp_def initiateDown_def startDimmerThread_def stopDimmerThread_def Let_def)+

lemma light_inv_cong:
  "light_inv l \<Longrightarrow> 0 \<le> th_step t \<Longrightarrow>
   light_inv (l\<lparr>mUpDownTimer := t, mAutoPowerOffTimer := a\<rparr>)"
  "light_inv l \<Longrightarrow> light_inv (l\<lparr>mAutoPowerOffTimer := a\<rparr>)"
  "light_inv l \<Longrightarrow> light_inv (l\<lparr>mPowerDownInitiated := b\<rparr>)"
  "light_inv l \<Longrightarrow> light_inv (l\<lparr>mDimDown := b\<rparr>)"
  "light_inv l \<Longrightarrow> light_inv (l\<lparr>mLastLong := i\<rparr>)"
  "light_inv l \<Longrightarrow> 0 \<le> th_step t \<Longrightarrow> light_inv (l\<lparr>mUpDownTimer := t\<rparr>)"
  by (simp_all add: light_inv_def)

lemma initiateFastUp_inv: "light_inv l \<Longrightarrow> initiateFastUp l = Some l' \<Longrightarrow> light_inv l'"
  using initiate_step(1) [of 1 "mStoredLuminance l - 40" "mUpDownTimer l"]
  by (auto simp: initiateFastUp_def light_inv_def light_consts Let_def split: if_splits)

lemma initiateSlowUp_inv: "light_inv l \<Longrightarrow> initiateSlowUp l = Some l' \<Longrightarrow> light_inv l'"
  using initiate_step(1) [of 900 1460 "mUpDownTimer l"]
  by (auto simp: initiateSlowUp_def light_inv_def light_consts Let_def split: if_splits)

lemma initiateFastDown_inv: "light_inv l \<Longrightarrow> initiateFastDown l = Some l' \<Longrightarrow> light_inv l'"
  using initiate_step(2) [of 1 "mCurrentLuminance l" "mUpDownTimer l"]
  by (auto simp: initiateFastDown_def light_inv_def light_consts Let_def split: if_splits)

lemma Light_pwrOn_inv [wf_intros]:
  assumes "light_inv l" and "Light_pwrOn slow l = Some l'" shows "light_inv l'"
proof -
  let ?l1 = "l\<lparr>mAutoPowerOffTimer := cancelAutoPowerOff (mAutoPowerOffTimer l),
               mUpDownTimer := cancelDimmer (mUpDownTimer l)\<rparr>"
  have "light_inv ?l1" using assms(1) by (simp add: light_inv_def cancelDimmer_def)
  then have i1: "light_inv ?l1" "light_inv (internalPwrOn (?l1\<lparr>mPowerDownInitiated := False\<rparr>))"
    by (auto intro: internalPwrOn_inv light_inv_cong(3))
  show ?thesis
    using assms(2) i1 initiateSlowUp_inv [OF i1(2)] initiateFastUp_inv [OF i1(2)]
    by (auto simp: Light_pwrOn_def Let_def intro: light_inv_cong split: if_splits)
qed

lemma Light_pwrOff_inv [wf_intros]:
  assumes "light_inv l" and "Light_pwrOff l = Some l'" shows "light_inv l'"
proof -
  let ?l1 = "l\<lparr>mAutoPowerOffTimer := cancelAutoPowerOff (mAutoPowerOffTimer l)\<rparr>"
  let ?l2 = "?l1\<lparr>mUpDownTimer := cancelDimmer (mUpDownTimer ?l1),
                    mStoredLuminance := mCurrentLuminance ?l1, mPowerDownInitiated := True\<rparr>"
  have "light_inv ?l1" using assms(1) by (rule light_inv_cong)
  moreover have "light_inv ?l2" if "mPowerOn l"
    using assms(1) that by (simp add: light_inv_def cancelDimmer_def)
  ultimately show ?thesis
    using assms(2) initiateFastDown_inv [of ?l2]
    by (auto simp: Light_pwrOff_def Let_def split: if_splits)
qed

lemma Light_pwrToggle_inv [wf_intros]:
  "light_inv l \<Longrightarrow> Light_pwrToggle l = Some l' \<Longrightarrow> light_inv l'"
  by (auto simp: Light_pwrToggle_def intro: wf_intros split: if_splits)

lemma Light_long_press_inv:
  assumes "light_inv l" and "Light_long_press now l = Some l'" shows "light_inv l'"
proof (cases "mPowerOn l")
  case True
  define l2 where "l2 = (if now - mLastLong l > 5 then l\<lparr>mDimDown := True\<rparr> else l)\<lparr>mLastLong := now\<rparr>"
  have i2: "light_inv l2" using assms(1) by (simp add: l2_def light_inv_cong)
  have "l' = (if mDimDown l2 then Light_down DIMMER_STEP l2 else Light_up DIMMER_STEP l2)"
    using assms(2) True by (auto simp: Light_long_press_def Let_def l2_def split: if_splits)
  then show ?thesis
    using Light_down_inv [OF i2, of DIMMER_STEP] Light_up_inv [OF i2, of DIMMER_STEP]
    by (simp add: DIMMER_STEP_def)
qed (use assms Light_pwrOn_inv [of l True l'] in \<open>simp add: Light_long_press_def\<close>)

lemma Light_keyboardPressed_inv [wf_intros]:
  assumes "light_inv l" and "Light_keyboardPressed now ki l = Some l'" shows "light_inv l'"
proof (cases "mState ki = stNormal")
  case True
  then obtain l1 where l1: "(if either_central mShortPressed ki then Light_pwrToggle l else Some l) = Some l1"
    and l': "(let l2 = (if either_central mReleased ki then l1\<lparr>mDimDown := \<not> mDimDown l1\<rparr> else l1)
        in if either_central mLongPress ki then Light_long_press now l2 else Some l2) = Some l'"
    using assms(2) by (auto simp: Light_keyboardPressed_def bind_eq_Some_conv)
  have "light_inv l1"
    using l1 assms(1) Light_pwrToggle_inv [of l l1] by (auto split: if_splits)
  then have "light_inv (if either_central mReleased ki then l1\<lparr>mDimDown := \<not> mDimDown l1\<rparr> else l1)"
    by (simp add: light_inv_cong)
  with l' show ?thesis
    using Light_long_press_inv [of _ now l'] by (simp add: Let_def split: if_splits)
qed (use assms in \<open>simp add: Light_keyboardPressed_def\<close>)

lemma light_dimmer_inv [wf_intros]: "light_inv l \<Longrightarrow> light_inv (light_dimmer l)"
  by (auto simp: light_dimmer_def dimmerThread_step_def Let_def split: thread_pc.splits
      intro!: Light_up_inv Light_down_inv) (auto simp: light_inv_def)

lemma light_inv_auto [simp]: "light_inv (mAutoPowerOffTimer_update f l) = light_inv l"
  by (simp add: light_inv_def)

lemma light_auto_off_inv [wf_intros]:
  assumes "light_inv l" and "light_auto_off l = Some l'"
  shows "light_inv l'"
proof (cases "ao_pc (mAutoPowerOffTimer l)")
  case Asleep
  then show ?thesis
    using assms Light_pwrOff_inv [of _ l']
    by (simp add: light_auto_off_def autoOffThread_step_def Let_def split: if_splits)
      (metis light_inv_auto)+
qed (use assms in \<open>auto simp: light_auto_off_def autoOffThread_step_def\<close>)

section \<open>The contracts of the timers\<close>

lemma show_luminance_simps [simp]:
  "mUpDownTimer (show_luminance l) = mUpDownTimer l"
  "mAutoPowerOffTimer (show_luminance l) = mAutoPowerOffTimer l"
  "mCurrentLuminance (show_luminance l) = mCurrentLuminance l"
  "mStoredLuminance (show_luminance l) = mStoredLuminance l"
  "mPowerOn (show_luminance l) = mPowerOn l"
  "mPowerDownInitiated (show_luminance l) = mPowerDownInitiated l"
  by (simp_all add: show_luminance_def)

lemma Light_up_simps [simp]:
  "mUpDownTimer (Light_up n l) = mUpDownTimer l"
  "mAutoPowerOffTimer (Light_up n l) = mAutoPowerOffTimer l"
  "mStoredLuminance (Light_up n l) = mStoredLuminance l"
  "mPowerOn (Light_up n l) = mPowerOn l"
  "mPowerDownInitiated (Light_up n l) = mPowerDownInitiated l"
  by (simp_all add: Light_up_def)

interpretation light_timer:
  up_down_device mUpDownTimer mUpDownTimer_update Light_up Light_down mCurrentLuminance
    "\<lambda>n lum. min (lum + n) MAX_DIMMER_INTENSITY" mPowerOn
  by unfold_locales (simp_all add: Light_up_def)

text \<open>A light that is on, not going off, and whose dimmer thread, if any, moves it up.\<close>

definition shining :: "Light \<Rightarrow> bool" where
  "shining l \<longleftrightarrow> mPowerOn l \<and> \<not> mPowerDownInitiated l \<and> \<not> mDown (mUpDownTimer l)"

lemma light_dimmer_shining:
  assumes "shining l"
  shows "shining (light_dimmer l)" and "mAutoPowerOffTimer (light_dimmer l) = mAutoPowerOffTimer l"
  using assms
  by (auto simp: shining_def light_dimmer_def dimmerThread_step_def Let_def split: thread_pc.splits)

interpretation light_auto:
  auto_off_device mAutoPowerOffTimer mAutoPowerOffTimer_update Light_pwrOff light_dimmer shining
  by unfold_locales (auto simp: light_dimmer_shining, simp_all add: shining_def)

section \<open>Reachable states\<close>

text \<open>
  Every call of the light's interface and every step of its two threads, in any order. A call
  that runs into undefined behaviour has no successor.
\<close>

inductive light_step :: "Light \<Rightarrow> Light \<Rightarrow> bool" where
  on: "Light_pwrOn slow l = Some l' \<Longrightarrow> light_step l l'"
| off: "Light_pwrOff l = Some l' \<Longrightarrow> light_step l l'"
| toggle: "Light_pwrToggle l = Some l' \<Longrightarrow> light_step l l'"
| key: "Light_keyboardPressed now ki l = Some l' \<Longrightarrow> light_step l l'"
| dim: "light_step l (light_dimmer l)"
| auto: "light_auto_off l = Some l' \<Longrightarrow> light_step l l'"

inductive light_reachable :: "Light \<Rightarrow> bool" where
  start: "light_reachable (new_Light now)"
| step: "light_reachable l \<Longrightarrow> light_step l l' \<Longrightarrow> light_reachable l'"

lemma light_step_inv: "light_step l l' \<Longrightarrow> light_inv l \<Longrightarrow> light_inv l'"
  by (induction rule: light_step.induct)
    (rule Light_pwrOn_inv Light_pwrOff_inv Light_pwrToggle_inv Light_keyboardPressed_inv
      light_dimmer_inv light_auto_off_inv; assumption)+

lemma light_reachable_inv: "light_reachable l \<Longrightarrow> light_inv l"
proof (induction rule: light_reachable.induct)
  case (start now)
  show ?case by (rule new_Light_inv)
next
  case (step l l')
  then show ?case using light_step_inv by blast
qed

text \<open>
  C9. In every reachable state of the light, with its timers and key events interleaved in any
  order, the LED is powered exactly when the light is on, a light that is on has a luminance
  between the minimum and the maximum of the dimmer and one that is off has luminance zero, the
  LED shows that luminance, and the stored luminance lies in the range of the dimmer.
\<close>

theorem light_luminance_bounds:
  assumes "light_reachable l"
  shows "led_on (mRGBLed l) = mPowerOn l \<and>
    (mPowerOn l \<longrightarrow> 40 \<le> mCurrentLuminance l \<and> mCurrentLuminance l \<le> 4000) \<and>
    (\<not> mPowerOn l \<longrightarrow> mCurrentLuminance l = 0) \<and>
    40 \<le> mStoredLuminance l \<and> mStoredLuminance l \<le> 4000 \<and>
    mLum (mRGBLed l) = shown_luminance (mCurrentLuminance l)"
  using light_reachable_inv [OF assms] by (simp add: light_inv_def light_consts split: if_splits)

section \<open>Switching on\<close>

lemma funpow_min_add:
  fixes s x m :: int
  assumes "0 \<le> s" and "x \<le> m"
  shows "((\<lambda>v. min (v + s) m) ^^ n) x = min (x + int n * s) m"
  using assms by (induction n) (auto simp: algebra_simps min_def)

lemma up_count_bounds:
  assumes "0 < th_step t" and "0 < th_totalSteps t"
  shows "th_totalSteps t \<le> int (up_count t) * th_step t"
    and "int (up_count t) * th_step t < th_totalSteps t + th_step t"
proof -
  let ?a = "th_totalSteps t" and ?b = "th_step t"
  have d: "(- ?a) div ?b * ?b + (- ?a) mod ?b = - ?a" by simp
  have m: "0 \<le> (- ?a) mod ?b" "(- ?a) mod ?b < ?b" using assms by simp_all
  have "(- ?a) div ?b < 0" using assms by (simp add: div_neg_pos_less0)
  then have n: "int (up_count t) = - ((- ?a) div ?b)" by (simp add: up_count_def)
  have e: "int (up_count t) * ?b = - ((- ?a) div ?b * ?b)" by (simp add: n)
  show "?a \<le> int (up_count t) * ?b" using d m e by linarith
  show "int (up_count t) * ?b < ?a + ?b" using d m e by linarith
qed

lemma initiateUp_Some:
  assumes "0 < n" and "0 < s" and "s * 1000 \<le> INT_MAX"
  shows "\<exists>t'. initiateUp n s t = Some t' \<and> th_pc t' = AtTest \<and> mThreadRunning t' \<and> \<not> mDown t' \<and>
    th_totalSteps t' = n \<and> 0 < th_step t' \<and> th_step t' = (if n > s * 1000 then - ((- n) div (s * 1000)) else 1)"
proof -
  have "(- n) div (s * 1000) < 0" using assms by (intro div_neg_pos_less0) auto
  then show ?thesis
    using assms
    by (simp add: initiateUp_def calculate_def startDimmerThread_def stopDimmerThread_def Let_def INT_MIN_def)
qed

text \<open>The result of switching on a light that is off.\<close>

lemma Light_pwrOn_off:
  assumes "light_inv l" and "\<not> mPowerOn l" and "slow \<or> 40 < mStoredLuminance l"
  shows "\<exists>l'. Light_pwrOn slow l = Some l' \<and> mPowerOn l' \<and> \<not> mPowerDownInitiated l' \<and>
    mCurrentLuminance l' = 40 \<and> mStoredLuminance l' = mStoredLuminance l \<and>
    (let t = mUpDownTimer l' in th_pc t = AtTest \<and> mThreadRunning t \<and> \<not> mDown t \<and> 0 < th_step t \<and>
      th_totalSteps t = (if slow then 1460 else mStoredLuminance l - 40) \<and>
      th_step t = (if \<not> slow \<and> mStoredLuminance l > 1040 then - ((40 - mStoredLuminance l) div 1000) else 1)) \<and>
    (let a = mAutoPowerOffTimer l' in ao_pc a = AtTest \<and> mAutoOffThreadRunning a \<and>
      ao_countDownSeconds a = 3600)"
proof -
  let ?l1 = "l\<lparr>mAutoPowerOffTimer := cancelAutoPowerOff (mAutoPowerOffTimer l),
               mUpDownTimer := cancelDimmer (mUpDownTimer l)\<rparr>"
  let ?l2 = "internalPwrOn (?l1\<lparr>mPowerDownInitiated := False\<rparr>)"
  have l2: "mPowerOn ?l2" "\<not> mPowerDownInitiated ?l2" "mCurrentLuminance ?l2 = 40"
    "mStoredLuminance ?l2 = mStoredLuminance l" "mUpDownTimer ?l2 = cancelDimmer (mUpDownTimer l)"
    by (simp_all add: internalPwrOn_def Let_def light_consts)
  have st: "\<not> mStoredLuminance l < 40" "\<not> 4000 < mStoredLuminance l"
    using assms(1) by (simp_all add: light_inv_def light_consts)
  show ?thesis
  proof (cases slow)
    case True
    obtain t where "initiateUp 1460 900 (mUpDownTimer ?l2) = Some t" "th_pc t = AtTest"
      "mThreadRunning t" "\<not> mDown t" "th_totalSteps t = 1460" "th_step t = 1"
      using initiateUp_Some [of 1460 900 "mUpDownTimer ?l2"] by (auto simp: INT_MAX_def)
    then show ?thesis using True assms l2
      by (simp add: Light_pwrOn_def initiateSlowUp_def light_consts startAutoPowerOff_def
          startAutoOffThread_def Let_def)
  next
    case False
    then have pos: "0 < mStoredLuminance l - 40" using assms by simp
    obtain t where "initiateUp (mStoredLuminance l - 40) 1 (mUpDownTimer ?l2) = Some t" "th_pc t = AtTest"
      "mThreadRunning t" "\<not> mDown t" "th_totalSteps t = mStoredLuminance l - 40" "0 < th_step t"
      "th_step t = (if mStoredLuminance l - 40 > 1000 then - ((40 - mStoredLuminance l) div 1000) else 1)"
      using initiateUp_Some [OF pos, of 1 "mUpDownTimer ?l2"] by (auto simp: INT_MAX_def)
    then show ?thesis using False assms l2 st
      by (simp add: Light_pwrOn_def initiateFastUp_def light_consts startAutoPowerOff_def
          startAutoOffThread_def Let_def)
  qed
qed


text \<open>
  Switching on a light that is off and remembers a luminance above the minimum starts a
  dimmer thread that ends after at most a thousand steps up, of at least one millisecond each,
  with the light at the remembered luminance or at most three units above it, and never above
  the maximum; up to luminance 1040 it is reached exactly. A slow start ends at the sunrise
  luminance after 1460 steps.
\<close>

theorem light_pwrOn_reaches_level:
  assumes "light_reachable l" and "\<not> mPowerOn l" and "slow \<or> 40 < mStoredLuminance l"
  shows "\<exists>l' n. Light_pwrOn slow l = Some l' \<and>
    (let l'' = (light_dimmer ^^ (2 * n + 1)) l'; lum = mCurrentLuminance l'' in
      mPowerOn l'' \<and> th_pc (mUpDownTimer l'') = Ended \<and>
      (if slow then n = 1460 \<and> lum = 1500
       else n \<le> 1000 \<and> mStoredLuminance l \<le> lum \<and> lum \<le> min 4000 (mStoredLuminance l + 3) \<and>
            (mStoredLuminance l \<le> 1040 \<longrightarrow> lum = mStoredLuminance l)))"
proof -
  note inv = light_reachable_inv [OF assms(1)]
  have st: "40 \<le> mStoredLuminance l" "mStoredLuminance l \<le> 4000"
    using inv by (simp_all add: light_inv_def light_consts)
  obtain l' where l': "Light_pwrOn slow l = Some l'" "mPowerOn l'" "mCurrentLuminance l' = 40"
    and t: "th_pc (mUpDownTimer l') = AtTest" "mThreadRunning (mUpDownTimer l')"
      "\<not> mDown (mUpDownTimer l')" "0 < th_step (mUpDownTimer l')"
      "th_totalSteps (mUpDownTimer l') = (if slow then 1460 else mStoredLuminance l - 40)"
      "th_step (mUpDownTimer l') =
        (if \<not> slow \<and> mStoredLuminance l > 1040 then - ((40 - mStoredLuminance l) div 1000) else 1)"
    using Light_pwrOn_off [OF inv assms(2,3)] by (auto simp: Let_def)
  let ?t = "mUpDownTimer l'" and ?n = "up_count (mUpDownTimer l')"
  let ?l2 = "(light_dimmer ^^ (2 * ?n + 1)) l'"
  have run: "mCurrentLuminance ?l2 = ((\<lambda>v. min (v + th_step ?t) 4000) ^^ ?n) 40" "mPowerOn ?l2"
      "th_pc (mUpDownTimer ?l2) = Ended"
    using light_timer.up_run [OF t(1-4) l'(2) refl] l'(3)
    by (simp_all add: light_dimmer_def MAX_DIMMER_INTENSITY_def)
  have lum: "mCurrentLuminance ?l2 = min (40 + int ?n * th_step ?t) 4000"
    using run(1) funpow_min_add [of "th_step ?t" 40 4000] t(4) by simp
  have pos: "0 < th_totalSteps ?t" using t(5) assms(3) by (auto split: if_splits)
  note b = up_count_bounds [OF t(4) pos]
  show ?thesis
  proof (cases slow)
    case True
    then have "?n = 1460" using t by (simp add: up_count_def)
    then show ?thesis using True l' run(2,3) lum t(6)
      by (intro exI [of _ l'] exI [of _ 1460]) (simp add: Let_def)
  next
    case False
    have s: "th_step ?t \<le> 4" "mStoredLuminance l - 40 \<le> 1000 * th_step ?t"
      using False t(6) st by auto
    have "int ?n * th_step ?t < (1000 + 1) * th_step ?t"
      using b(2) s t(5) False by (simp add: algebra_simps)
    then have n: "?n \<le> 1000" using t(4) by (auto simp: mult_less_cancel_right)
    have exact: "mCurrentLuminance ?l2 = mStoredLuminance l" if "mStoredLuminance l \<le> 1040"
      using that lum b t False st by auto
    have "mStoredLuminance l \<le> mCurrentLuminance ?l2"
      "mCurrentLuminance ?l2 \<le> min 4000 (mStoredLuminance l + 3)"
      using lum b s t(5) st False by auto
    then show ?thesis using False l' run(2,3) n exact
      by (intro exI [of _ l'] exI [of _ ?n]) (simp add: Let_def)
  qed
qed

section \<open>Switching off\<close>

text \<open>One round of the dimmer thread of a light that is going off: a loop test, a sleep and a step down.\<close>

definition fading :: "Light \<Rightarrow> bool" where
  "fading l \<longleftrightarrow> mPowerOn l \<and> mPowerDownInitiated l \<and> th_pc (mUpDownTimer l) = AtTest \<and>
     mThreadRunning (mUpDownTimer l) \<and> mDown (mUpDownTimer l) \<and> 0 < th_totalSteps (mUpDownTimer l) \<and>
     0 < th_step (mUpDownTimer l)"

lemma mUpDownTimer_update_same: "f (mUpDownTimer l) = mUpDownTimer l \<Longrightarrow> mUpDownTimer_update f l = l"
  by (cases l) simp

lemma fade_round:
  assumes "fading l"
  shows "light_dimmer (light_dimmer l) = Light_down (th_step (mUpDownTimer l)) l"
  using assms
  by (simp add: fading_def light_dimmer_def dimmerThread_step_def Let_def mUpDownTimer_update_same)

lemma fade_last:
  assumes "fading l" and "mCurrentLuminance l - th_step (mUpDownTimer l) \<le> 40"
  defines "l' \<equiv> (light_dimmer ^^ 3) l"
  shows "\<not> mPowerOn l' \<and> mStoredLuminance l' = mStoredLuminance l \<and> th_pc (mUpDownTimer l') = Ended"
proof -
  let ?m = "light_dimmer (light_dimmer l)"
  have m: "\<not> mPowerOn ?m" "mStoredLuminance ?m = mStoredLuminance l"
    "mUpDownTimer ?m = cancelDimmer (mUpDownTimer l)"
    using assms by (simp_all add: fade_round Light_down_def fading_def Let_def light_consts internalPwrOff_def)
  have "l' = light_dimmer ?m" by (simp add: l'_def numeral_3_eq_3)
  then show ?thesis
    using m assms(1) by (simp add: light_dimmer_def dimmerThread_step_def cancelDimmer_def fading_def)
qed

lemma fade_more:
  assumes "fading l" and "40 < mCurrentLuminance l - th_step (mUpDownTimer l)"
  defines "l' \<equiv> light_dimmer (light_dimmer l)"
  shows "fading l'" and "mStoredLuminance l' = mStoredLuminance l"
    and "th_step (mUpDownTimer l') = th_step (mUpDownTimer l)"
    and "mCurrentLuminance l' = mCurrentLuminance l - th_step (mUpDownTimer l)"
proof -
  have "l' = show_luminance (l\<lparr>mCurrentLuminance := mCurrentLuminance l - th_step (mUpDownTimer l)\<rparr>)"
    using assms by (simp add: fade_round Light_down_def fading_def Let_def light_consts)
  then show "fading l'" and "mStoredLuminance l' = mStoredLuminance l"
    and "th_step (mUpDownTimer l') = th_step (mUpDownTimer l)"
    and "mCurrentLuminance l' = mCurrentLuminance l - th_step (mUpDownTimer l)"
    using assms(1) by (simp_all add: fading_def)
qed

lemma fade_run:
  assumes "fading l" and "mCurrentLuminance l - 40 \<le> int (Suc n) * th_step (mUpDownTimer l)"
  shows "\<exists>k \<le> 2 * n + 3. let l' = (light_dimmer ^^ k) l in
    \<not> mPowerOn l' \<and> mStoredLuminance l' = mStoredLuminance l \<and> th_pc (mUpDownTimer l') = Ended"
  using assms
proof (induction n arbitrary: l)
  case 0
  then show ?case using fade_last [of l] by (intro exI [of _ 3]) (simp add: Let_def)
next
  case (Suc n)
  let ?m = "light_dimmer (light_dimmer l)"
  show ?case
  proof (cases "40 < mCurrentLuminance l - th_step (mUpDownTimer l)")
    case False
    then show ?thesis
      using fade_last [OF Suc.prems(1)] by (intro exI [of _ 3]) (simp add: Let_def)
  next
    case True
    note m = fade_more [OF Suc.prems(1) True]
    have "mCurrentLuminance ?m - 40 \<le> int (Suc n) * th_step (mUpDownTimer ?m)"
      using Suc.prems(2) m(3,4) by (simp add: algebra_simps)
    then obtain k where "k \<le> 2 * n + 3" "let l' = (light_dimmer ^^ k) ?m in
      \<not> mPowerOn l' \<and> mStoredLuminance l' = mStoredLuminance ?m \<and> th_pc (mUpDownTimer l') = Ended"
      using Suc.IH [OF m(1)] by blast
    moreover have "(light_dimmer ^^ (k + 2)) l = (light_dimmer ^^ k) ?m"
      by (simp add: funpow_swap1)
    ultimately show ?thesis using m(2) by (intro exI [of _ "k + 2"]) (simp add: Let_def)
  qed
qed

lemma Light_pwrOff_on:
  assumes "light_inv l" and "mPowerOn l" and "\<not> mPowerDownInitiated l"
  shows "\<exists>l'. Light_pwrOff l = Some l' \<and> fading l' \<and> mStoredLuminance l' = mCurrentLuminance l \<and>
    mCurrentLuminance l' = mCurrentLuminance l \<and> mCurrentLuminance l \<le> 1000 * th_step (mUpDownTimer l')"
proof -
  have lum: "40 \<le> mCurrentLuminance l" "mCurrentLuminance l \<le> 4000"
    using assms by (simp_all add: light_inv_def light_consts)
  have "(- mCurrentLuminance l) div 1000 < 0" using lum by (intro div_neg_pos_less0) auto
  then show ?thesis
    using lum assms(2,3)
    by (auto simp: Light_pwrOff_def initiateFastDown_def initiateDown_def calculate_def Let_def
        INT_MAX_def INT_MIN_def fading_def startDimmerThread_def stopDimmerThread_def)
qed

text \<open>
  C10. Switching off a light that is on and not yet going off always ends: it remembers its
  luminance, and after at most a thousand steps of the dimmer thread the light is off, the LED is
  off, and the thread has ended.
\<close>

theorem light_pwrOff_terminates:
  assumes "light_reachable l" and "mPowerOn l" and "\<not> mPowerDownInitiated l"
  shows "\<exists>l' k. Light_pwrOff l = Some l' \<and> k \<le> 2001 \<and>
    (let l'' = (light_dimmer ^^ k) l' in
      \<not> mPowerOn l'' \<and> \<not> led_on (mRGBLed l'') \<and> mCurrentLuminance l'' = 0 \<and>
      mStoredLuminance l'' = mCurrentLuminance l \<and> th_pc (mUpDownTimer l'') = Ended)"
proof -
  note inv = light_reachable_inv [OF assms(1)]
  obtain l' where l': "Light_pwrOff l = Some l'" "fading l'" "mStoredLuminance l' = mCurrentLuminance l"
    "mCurrentLuminance l' = mCurrentLuminance l" "mCurrentLuminance l \<le> 1000 * th_step (mUpDownTimer l')"
    using Light_pwrOff_on [OF inv assms(2,3)] by blast
  then obtain k where k: "k \<le> 2 * 999 + 3" "let l'' = (light_dimmer ^^ k) l' in
      \<not> mPowerOn l'' \<and> mStoredLuminance l'' = mStoredLuminance l' \<and> th_pc (mUpDownTimer l'') = Ended"
    using fade_run [of l' 999] by auto
  have "light_inv ((light_dimmer ^^ k) l')"
    using Light_pwrOff_inv [OF inv l'(1)] by (induction k) (auto intro: light_dimmer_inv)
  with k l' show ?thesis
    by (intro exI [of _ l'] exI [of _ k]) (simp add: light_inv_def Let_def)
qed

section \<open>Automatic switching off\<close>

lemma light_schedule_inv:
  "light_inv l \<Longrightarrow> timer_schedule light_auto_off light_dimmer bs l = Some l' \<Longrightarrow> light_inv l'"
proof (induction bs arbitrary: l)
  case (Cons b bs)
  then show ?case
  proof (cases b)
    case True
    then obtain m where "light_auto_off l = Some m" "timer_schedule light_auto_off light_dimmer bs m = Some l'"
      using Cons.prems by (auto simp: bind_eq_Some_conv)
    then show ?thesis using Cons.IH [OF light_auto_off_inv [OF Cons.prems(1)]] by blast
  next
    case False
    then show ?thesis using Cons.IH [OF light_dimmer_inv [OF Cons.prems(1)]] Cons.prems(2) by simp
  qed
qed simp

text \<open>
  A light that was switched on and is left alone is switched off after an hour: however the
  dimmer thread interleaves, the power-off thread makes 7199 steps (3600 sleeps of a second, with
  the loop tests before them) with the light on, and its next step starts the fade-out and
  remembers the luminance.
\<close>

theorem light_auto_off_after_an_hour:
  assumes "light_reachable l" and "\<not> mPowerOn l" and "slow \<or> 40 < mStoredLuminance l"
    and "count_list bs True = 7199"
  shows "\<exists>l1 l2 l3. Light_pwrOn slow l = Some l1 \<and>
    timer_schedule light_auto_off light_dimmer bs l1 = Some l2 \<and> mPowerOn l2 \<and>
    timer_schedule light_auto_off light_dimmer (bs @ [True]) l1 = Some l3 \<and> fading l3 \<and>
    mStoredLuminance l3 = mCurrentLuminance l2"
proof -
  note inv = light_reachable_inv [OF assms(1)]
  obtain l1 where l1: "Light_pwrOn slow l = Some l1" "shining l1"
      "ao_pc (mAutoPowerOffTimer l1) = AtTest" "mAutoOffThreadRunning (mAutoPowerOffTimer l1)"
      "ao_countDownSeconds (mAutoPowerOffTimer l1) = int 3600"
    using Light_pwrOn_off [OF inv assms(2,3)] by (auto simp: Let_def shining_def)
  obtain l2 f g where l2: "timer_schedule light_auto_off light_dimmer bs l1 = Some l2" "shining l2"
      "timer_schedule light_auto_off light_dimmer (bs @ [True]) l1
        = Light_pwrOff (mAutoPowerOffTimer_update f (mAutoPowerOffTimer_update g l2))"
    using light_auto.fires [OF l1(3,4,5,2), of bs] assms(4) by (auto simp: light_auto_off_def)
  let ?l = "mAutoPowerOffTimer_update f (mAutoPowerOffTimer_update g l2)"
  have "light_inv l2" using Light_pwrOn_inv [OF inv l1(1)] l2(1) by (rule light_schedule_inv)
  then obtain l3 where "Light_pwrOff ?l = Some l3" "fading l3" "mStoredLuminance l3 = mCurrentLuminance ?l"
    using Light_pwrOff_on [of ?l] l2(2) by (auto simp: shining_def)
  with l1 l2 show ?thesis by (auto simp: shining_def)
qed


section \<open>A light that cannot be switched off\<close>

text \<open>
  \<open>pwrOn\<close> during the fade-out cancels the dimmer thread, but leaves \<open>mPowerDownInitiated\<close> set since
  the light is still on. From then on the light is on, and nothing but dimming it by key down to
  the minimum will switch it off.
\<close>

definition stranded :: "Light \<Rightarrow> bool" where
  "stranded l \<longleftrightarrow> mPowerOn l \<and> mPowerDownInitiated l \<and> \<not> mThreadRunning (mUpDownTimer l)"

lemma stranded_dimmer: "stranded l \<Longrightarrow> stranded (light_dimmer l)"
  by (auto simp: stranded_def light_dimmer_def dimmerThread_step_def Let_def split: thread_pc.splits)

lemma stranded_ops:
  assumes "stranded l"
  shows "\<exists>l'. Light_pwrOff l = Some l' \<and> stranded l'" "\<exists>l'. Light_pwrToggle l = Some l' \<and> stranded l'"
    "\<exists>l'. Light_pwrOn slow l = Some l' \<and> stranded l'"
  using assms
  by (auto simp: stranded_def Light_pwrOff_def Light_pwrToggle_def Light_pwrOn_def Let_def cancelDimmer_def)

lemma stranded_upd: "stranded (mAutoPowerOffTimer_update f l) = stranded l"
  by (simp add: stranded_def)

lemma stranded_auto:
  assumes "stranded l" shows "\<exists>l'. light_auto_off l = Some l' \<and> stranded l'"
proof (cases "ao_pc (mAutoPowerOffTimer l)")
  case Asleep
  then show ?thesis
    using assms stranded_ops(1) [of "mAutoPowerOffTimer_update f (mAutoPowerOffTimer_update g l)" for f g]
    by (auto simp: light_auto_off_def step_simps Let_def stranded_upd)
qed (use assms in \<open>auto simp: light_auto_off_def step_simps stranded_upd\<close>)

text \<open>The calls by which the light is meant to be switched off or on, and the steps of its threads.\<close>

datatype light_call = CallOff | CallToggle | CallOn bool | DimmerStep | AutoOffStep

fun do_call :: "light_call \<Rightarrow> Light \<Rightarrow> Light option" where
  "do_call CallOff l = Light_pwrOff l"
| "do_call CallToggle l = Light_pwrToggle l"
| "do_call (CallOn slow) l = Light_pwrOn slow l"
| "do_call DimmerStep l = Some (light_dimmer l)"
| "do_call AutoOffStep l = light_auto_off l"

fun light_calls :: "light_call list \<Rightarrow> Light \<Rightarrow> Light option" where
  "light_calls [] l = Some l"
| "light_calls (c # cs) l = Option.bind (do_call c l) (light_calls cs)"

lemma stranded_call: "stranded l \<Longrightarrow> \<exists>l'. do_call c l = Some l' \<and> stranded l'"
  by (cases c) (auto simp: stranded_ops stranded_auto stranded_dimmer)

lemma stranded_calls: "stranded l \<Longrightarrow> \<exists>l'. light_calls cs l = Some l' \<and> stranded l'"
proof (induction cs arbitrary: l)
  case (Cons c cs)
  then show ?case using stranded_call [OF Cons.prems, of c] by auto
qed simp

text \<open>
  When the light is switched on again while it fades out, it never goes off any more by the
  calls meant for it: after any sequence of power off, toggle and power on calls, interleaved with
  any number of steps of the dimmer and of the automatic power-off threads, it is still on.
\<close>

theorem light_pwrOn_in_fade_out_strands:
  assumes "fading l"
  shows "\<exists>l' l''. Light_pwrOn slow l = Some l' \<and> light_calls cs l' = Some l'' \<and> mPowerOn l''"
proof -
  obtain l' where "Light_pwrOn slow l = Some l'" "stranded l'"
    using assms by (auto simp: fading_def Light_pwrOn_def Let_def stranded_def cancelDimmer_def)
  then show ?thesis using stranded_calls [of l' cs] by (auto simp: stranded_def)
qed


section \<open>Concrete lights\<close>

definition ex_light :: Light where "ex_light = the (Light_pwrOn True (new_Light 0))"
definition ex_fading :: Light where "ex_fading = the (Light_pwrOff ex_light)"

lemma new_Light_fields: "\<not> mPowerOn (new_Light now)" "mStoredLuminance (new_Light now) = 1500"
  by (simp_all add: new_Light_def internalPwrOff_def Let_def light_consts)

lemma ex_light_on: "Light_pwrOn True (new_Light 0) = Some ex_light"
  "mPowerOn ex_light" "\<not> mPowerDownInitiated ex_light" "mCurrentLuminance ex_light = 40"
  using Light_pwrOn_off [OF new_Light_inv [of 0] new_Light_fields(1), of True] by (auto simp: ex_light_def)

lemma ex_light_reachable: "light_reachable ex_light"
  using light_reachable.step [OF light_reachable.start light_step.on [OF ex_light_on(1)]] .

lemma ex_fading: "Light_pwrOff ex_light = Some ex_fading" "fading ex_fading"
  using Light_pwrOff_on [OF light_reachable_inv [OF ex_light_reachable] ex_light_on(2,3)]
  by (auto simp: ex_fading_def)

theorem light_luminance_bounds_witness:
  "led_on (mRGBLed ex_light) \<and> mLum (mRGBLed ex_light) = 40"
  using light_luminance_bounds [OF ex_light_reachable] ex_light_on
  by (simp add: shown_luminance_def)

theorem light_pwrOn_reaches_level_witness:
  "\<exists>l' n. Light_pwrOn False (new_Light 0) = Some l' \<and> n \<le> 1000 \<and>
     1500 \<le> mCurrentLuminance ((light_dimmer ^^ (2 * n + 1)) l')"
  using light_pwrOn_reaches_level [OF light_reachable.start [of 0] new_Light_fields(1), of False]
  by (auto simp: new_Light_fields Let_def)

theorem light_pwrOff_terminates_witness:
  "\<exists>l' k. Light_pwrOff ex_light = Some l' \<and> k \<le> 2001 \<and> \<not> mPowerOn ((light_dimmer ^^ k) l') \<and>
     mStoredLuminance ((light_dimmer ^^ k) l') = 40"
  using light_pwrOff_terminates [OF ex_light_reachable ex_light_on(2,3)] ex_light_on(4)
  by (auto simp: Let_def)

theorem light_auto_off_after_an_hour_witness:
  "\<exists>l1 l2 l3. Light_pwrOn True (new_Light 0) = Some l1 \<and>
     timer_schedule light_auto_off light_dimmer (replicate 7199 True) l1 = Some l2 \<and> mPowerOn l2 \<and>
     timer_schedule light_auto_off light_dimmer (replicate 7199 True @ [True]) l1 = Some l3 \<and> fading l3"
proof -
  have "count_list (replicate n True) True = n" for n by (induction n) simp_all
  then show ?thesis
    using light_auto_off_after_an_hour [OF light_reachable.start [of 0] new_Light_fields(1), of True
        "replicate 7199 True"]
    by blast
qed

theorem light_pwrOn_in_fade_out_strands_witness:
  "\<exists>l' l''. Light_pwrOn False ex_fading = Some l' \<and>
     light_calls [CallOff, DimmerStep, CallToggle, AutoOffStep] l' = Some l'' \<and> mPowerOn l''"
  using light_pwrOn_in_fade_out_strands [OF ex_fading(2), of False] .

end
