(* ===== verification/Pwm_Driver.thy ===== *)
theory Pwm_Driver
  imports I2C_Bus
begin

text \<open>
  The driver of the lamps (\<open>rgbclock/RgbLib/src/lib/PwmLedDriver.cpp\<close>) and the backlight of the
  display (\<open>LCDBacklight.cpp\<close>): the set-up of the PWM chip and the scaling of a level from 0 to 4000
  to a time from 0 to 4095. The scaling of the colours is done in floating point; the quotient of
  integers below is its value for every level up to 4000, the only ones the lamp uses, and larger
  levels are the result None.
\<close>

section \<open>The PWM chip\<close>

definition PWM_MAX_RESOLUTION :: u16 where "PWM_MAX_RESOLUTION = 4000"
definition PRESCALER_REGISTER :: u8 where "PRESCALER_REGISTER = 0xFE"
definition PRESCALER_VALUE :: u8 where "PRESCALER_VALUE = 2"

definition pwm_init :: "i2c_bus \<Rightarrow> u8 \<Rightarrow> I2C \<Rightarrow> (i2c_exception + bool) \<times> I2C" where
  "pwm_init bus a s =
     (case writeData bus a [PRESCALER_REGISTER, PRESCALER_VALUE] DEFAULT_I2C_RETRY s of
        (Inl e, s1) \<Rightarrow> (Inl e, s1)
      | (Inr _, s1) \<Rightarrow>
          (case writeData bus a [0x00, 0x20] DEFAULT_I2C_RETRY s1 of
             (Inl e, s2) \<Rightarrow> (Inl e, s2)
           | (Inr _, s2) \<Rightarrow> writeData bus a [0x01, 0x00] DEFAULT_I2C_RETRY s2))"

definition chipSleep :: "i2c_bus \<Rightarrow> u8 \<Rightarrow> I2C \<Rightarrow> (i2c_exception + bool) \<times> I2C" where
  "chipSleep bus a s = writeData bus a [0x00, 0x30] DEFAULT_I2C_RETRY s"

definition new_PwmLedDriver :: "i2c_bus \<Rightarrow> u8 \<Rightarrow> I2C \<Rightarrow> (i2c_exception + bool) \<times> I2C" where
  "new_PwmLedDriver bus a s = pwm_init bus a (registerAddress a ''PWM'' s)"

definition powerOn :: "i2c_bus \<Rightarrow> u8 \<Rightarrow> bool \<Rightarrow> I2C \<Rightarrow> (i2c_exception + bool) \<times> I2C" where
  "powerOn bus a on s = (if on then pwm_init bus a s else chipSleep bus a s)"

definition pwm_isAttached :: "i2c_bus \<Rightarrow> u8 \<Rightarrow> I2C \<Rightarrow> (i2c_exception + bool) \<times> I2C" where
  "pwm_isAttached bus a s =
     (let (r, s') = readData_byte bus a PRESCALER_REGISTER DEFAULT_I2C_RETRY s
      in (map_sum id (\<lambda>(ok, prescaler). PRESCALER_VALUE - 1 \<le> prescaler \<and> prescaler \<le> PRESCALER_VALUE + 1) r, s'))"

text \<open>The registers of a channel: it goes on at time 0 and off at the given time.\<close>

definition channel_bytes :: "u16 \<Rightarrow> bytes" where
  "channel_bytes offTime = [0x00, 0x00, ucast (offTime AND 0xFF), ucast (drop_bit 8 offTime AND 0x0F)]"

text \<open>The quotient of the two constants is a quotient of integers.\<close>

definition single_time :: "u16 \<Rightarrow> u16" where
  "single_time v = (if v = PWM_MAX_RESOLUTION then 4095 else (4095 div PWM_MAX_RESOLUTION) * v)"

definition pwmSingle_data :: "u16 \<Rightarrow> bytes" where
  "pwmSingle_data v = 0x06 # channel_bytes (single_time v)"

definition pwmSingle :: "i2c_bus \<Rightarrow> u8 \<Rightarrow> u16 \<Rightarrow> I2C \<Rightarrow> (i2c_exception + bool) \<times> I2C" where
  "pwmSingle bus a v s = writeData bus a (pwmSingle_data v) DEFAULT_I2C_RETRY s"

definition colour_time :: "u16 \<Rightarrow> u16" where
  "colour_time v = (if v = PWM_MAX_RESOLUTION then 4095 else of_nat (4095 * unat v div 4000))"

definition pwmRGB_data :: "u16 \<Rightarrow> u16 \<Rightarrow> u16 \<Rightarrow> bytes option" where
  "pwmRGB_data red green blue =
     (if red \<le> PWM_MAX_RESOLUTION \<and> green \<le> PWM_MAX_RESOLUTION \<and> blue \<le> PWM_MAX_RESOLUTION
      then Some (0x06 # channel_bytes (colour_time red) @ channel_bytes (colour_time green)
                   @ channel_bytes (colour_time blue))
      else None)"

definition pwmRGB :: "i2c_bus \<Rightarrow> u8 \<Rightarrow> u16 \<Rightarrow> u16 \<Rightarrow> u16 \<Rightarrow> I2C \<Rightarrow> ((i2c_exception + bool) \<times> I2C) option" where
  "pwmRGB bus a red green blue s =
     map_option (\<lambda>d. writeData bus a d DEFAULT_I2C_RETRY s) (pwmRGB_data red green blue)"

section \<open>The backlight\<close>

record LCDBacklight =
  has_mPwmDriver :: bool
  bl_mUserActivityTimer :: u16
  mBackLightThreadRunning :: bool

definition BL_USERACTIVITY_TIMER :: u16 where "BL_USERACTIVITY_TIMER = 10"

definition signalUserActivity :: "LCDBacklight \<Rightarrow> LCDBacklight" where
  "signalUserActivity s = s\<lparr>bl_mUserActivityTimer := BL_USERACTIVITY_TIMER\<rparr>"

text \<open>
  One iteration of the thread: \<open>ambient\<close> is the level it computes from the light sensor; the result
  has the level given to the PWM driver, if there is one.
\<close>

definition backLightThread_pass :: "u16 \<Rightarrow> LCDBacklight \<Rightarrow> u16 option \<times> LCDBacklight" where
  "backLightThread_pass ambient s =
     (if \<not> mBackLightThreadRunning s then (None, s)
      else
       (let active = bl_mUserActivityTimer s > 0;
            s1 = (if active then s\<lparr>bl_mUserActivityTimer := bl_mUserActivityTimer s - 1\<rparr> else s);
            level = (if active then 2500 else ambient)
        in (if has_mPwmDriver s1 then Some level else None, s1)))"

section \<open>The times the chip is given\<close>

text \<open>The off time a channel of the chip reads from its two registers.\<close>

definition off_time :: "bytes \<Rightarrow> nat \<Rightarrow> nat" where
  "off_time d c = unat (d ! (4 * c + 3)) + 256 * unat (d ! (4 * c + 4))"

lemma channel_off:
  "unat (ucast (t AND 0xFF :: u16) :: u8) + 256 * unat (ucast (drop_bit 8 t AND 0x0F :: u16) :: u8) = unat t mod 4096"
proof -
  have m: "(0xFF :: u16) = mask 8" "(0x0F :: u16) = mask 4" by (simp_all add: mask_eq_exp_minus_1)
  have "unat (ucast (t AND 0xFF :: u16) :: u8) = unat t mod 256"
    unfolding m take_bit_eq_mask [symmetric]
    by (simp add: unsigned_ucast_eq unsigned_take_bit_eq) (simp add: take_bit_eq_mod)
  moreover have "unat (ucast (drop_bit 8 t AND 0x0F :: u16) :: u8) = unat t div 256 mod 16"
    unfolding m take_bit_eq_mask [symmetric]
    by (simp add: unsigned_ucast_eq unsigned_take_bit_eq unsigned_drop_bit_eq)
      (use unsigned_less [of t, where 'a = nat] in \<open>simp add: take_bit_eq_mod drop_bit_eq_div\<close>)
  moreover have "n mod 256 + 256 * (n div 256 mod 16) = n mod 4096" for n :: nat
    using mod_mult2_eq [of n 256 16] by simp
  ultimately show ?thesis by simp
qed

lemma colour_time_value:
  assumes "v \<le> PWM_MAX_RESOLUTION"
  shows "unat (colour_time v) = (if unat v = 4000 then 4095 else 4095 * unat v div 4000)"
    and "unat (colour_time v) < 4096"
proof -
  have v: "unat v \<le> 4000" using assms by (simp add: PWM_MAX_RESOLUTION_def word_le_nat_alt)
  have eq: "v = PWM_MAX_RESOLUTION \<longleftrightarrow> unat v = 4000"
    by (auto simp: PWM_MAX_RESOLUTION_def word_unat_eq_iff)
  have "4095 * unat v div 4000 \<le> 4095 * 4000 div 4000" using v by (intro div_le_mono) simp
  then have b: "4095 * unat v div 4000 \<le> 4095" by simp
  then have "unat (of_nat (4095 * unat v div 4000) :: u16) = 4095 * unat v div 4000"
    by (simp add: unat_of_nat take_bit_nat_eq_self)
  then show "unat (colour_time v) = (if unat v = 4000 then 4095 else 4095 * unat v div 4000)"
    by (simp add: colour_time_def eq)
  with b show "unat (colour_time v) < 4096" by simp
qed

text \<open>
  The lamp's three channels are given off times in the range of the chip's counter: for levels up
  to 4000 the data written address the registers of the first channel and give each channel the time
  4095 * level / 4000 rounded down, at most 4095, which is reached exactly by the full level 4000.
\<close>

theorem pwm_colour_times:
  assumes "red \<le> PWM_MAX_RESOLUTION" "green \<le> PWM_MAX_RESOLUTION" "blue \<le> PWM_MAX_RESOLUTION"
  shows "\<exists>d. pwmRGB_data red green blue = Some d \<and> length d = 13 \<and> d ! 0 = 0x06 \<and>
     (\<forall>c < 3. let level = unat ([red, green, blue] ! c) in
        off_time d c = 4095 * level div 4000 \<and> off_time d c \<le> 4095 \<and> (off_time d c = 4095 \<longleftrightarrow> level = 4000))"
proof -
  let ?d = "0x06 # channel_bytes (colour_time red) @ channel_bytes (colour_time green) @ channel_bytes (colour_time blue)"
  have off: "off_time ?d 0 = unat (colour_time red) mod 4096" "off_time ?d 1 = unat (colour_time green) mod 4096"
    "off_time ?d 2 = unat (colour_time blue) mod 4096"
    using channel_off [of "colour_time red"] channel_off [of "colour_time green"] channel_off [of "colour_time blue"]
    by (simp_all add: off_time_def channel_bytes_def)
  have lev: "off = unat (colour_time v) mod 4096 \<Longrightarrow>
      off = 4095 * unat v div 4000 \<and> off \<le> 4095 \<and> (off = 4095 \<longleftrightarrow> unat v = 4000)" if "v \<le> PWM_MAX_RESOLUTION" for v off
  proof -
    have "unat v \<le> 4000" using that by (simp add: PWM_MAX_RESOLUTION_def word_le_nat_alt)
    moreover have "4095 * unat v div 4000 < 4095" if "unat v < 4000"
      using that by (simp add: div_less_iff_less_mult)
    ultimately show "off = unat (colour_time v) mod 4096 \<Longrightarrow>
      off = 4095 * unat v div 4000 \<and> off \<le> 4095 \<and> (off = 4095 \<longleftrightarrow> unat v = 4000)"
      using colour_time_value [OF that] by (cases "unat v = 4000") auto
  qed
  show ?thesis
    using assms off lev
    by (intro exI [of _ ?d]) (auto simp: pwmRGB_data_def channel_bytes_def less_Suc_eq numeral_3_eq_3 numeral_2_eq_2 Let_def)
qed

theorem pwm_colour_times_witness:
  "\<exists>d. pwmRGB_data 4000 2000 40 = Some d \<and> off_time d 0 = 4095 \<and> off_time d 1 = 2047"
  using pwm_colour_times [of 4000 2000 40] by (auto simp: PWM_MAX_RESOLUTION_def Let_def dest: spec [of _ 0] spec [of _ 1])

text \<open>
  The single channel of the backlight is not scaled, since the quotient of the two constants is the
  integer 1: the chip is given the level modulo 4096 (4095 for the level 4000), so that a level of
  4096, which the light sensor asks for in bright light, switches the backlight off.
\<close>

theorem pwm_single_not_scaled:
  "off_time (pwmSingle_data v) 0 = (if unat v = 4000 then 4095 else unat v mod 4096)"
proof -
  have "unat (single_time v) mod 4096 = (if unat v = 4000 then 4095 else unat v mod 4096)"
    by (auto simp: single_time_def PWM_MAX_RESOLUTION_def word_unat_eq_iff)
  then show ?thesis
    using channel_off [of "single_time v"] by (simp add: off_time_def pwmSingle_data_def channel_bytes_def)
qed

end
