(* ===== verification/Rgb_Led.thy ===== *)
theory Rgb_Led
  imports Double_Arith Light Pwm_Driver
begin

text \<open>
  The colour LED (\<open>rgbclock/RgbLib/src/lib/RgbLed.cpp\<close>): the conversion of hue, saturation and luminance to
  the levels of the three colours, in the arithmetic of \<open>Double_Arith\<close>, and the transfer to the
  PWM chip. The values that are set are those of \<open>Light\<close>. A conversion to a level that does not fit
  is undefined and None.
\<close>

section \<open>State and conversion\<close>

record LedColours =
  colour_of :: RgbLed
  mRed :: u16
  mGreen :: u16
  mBlue :: u16

definition hue2rgb :: "rounding \<Rightarrow> real \<Rightarrow> real \<Rightarrow> real \<Rightarrow> real" where
  "hue2rgb fl p q t =
     (let t1 = (if t < 0 then fl (t + 1) else t);
          t2 = (if t1 > 1 then fl (t1 - 1) else t1)
      in if t2 < fl (1 / 6) then fl (p + fl (fl (fl (q - p) * 6) * t2))
         else if t2 < 1 / 2 then q
         else if t2 < fl (2 / 3) then fl (p + fl (fl (fl (q - p) * fl (fl (2 / 3) - t2)) * 6))
         else p)"

definition hsl_q :: "rounding \<Rightarrow> real \<Rightarrow> real \<Rightarrow> real" where
  "hsl_q fl l s = (if l < 1 / 2 then fl (l * fl (1 + s)) else fl (fl (l + s) - fl (l * s)))"

definition hslToRgb :: "rounding \<Rightarrow> LedColours \<Rightarrow> LedColours option" where
  "hslToRgb fl d =
     (let h = fl (of_u16 (mHue (colour_of d)) / of_u16 MAX_RESOLUTION);
          l = fl (of_u16 (mLum (colour_of d)) / of_u16 MAX_RESOLUTION);
          s = fl (of_u16 (mSat (colour_of d)) / of_u16 MAX_RESOLUTION);
          level = (\<lambda>x. to_u16 (fl (x * of_u16 MAX_RESOLUTION)));
          q = hsl_q fl l s;
          p = fl (fl (2 * l) - q);
          (r, g, b) = (if mSat (colour_of d) = 0 then (l, l, l)
                       else (hue2rgb fl p q (fl (h + fl (1 / 3))), hue2rgb fl p q h,
                             hue2rgb fl p q (fl (h - fl (1 / 3)))))
      in case (level r, level g, level b) of
           (Some r', Some g', Some b') \<Rightarrow> Some (d\<lparr>mRed := r', mGreen := g', mBlue := b'\<rparr>)
         | _ \<Rightarrow> None)"

definition new_LedColours :: LedColours where
  "new_LedColours = \<lparr>colour_of = new_RgbLed, mRed = 0, mGreen = 0, mBlue = 0\<rparr>"

definition led_write :: "i2c_bus \<Rightarrow> u8 \<Rightarrow> LedColours \<Rightarrow> I2C \<Rightarrow> ((i2c_exception + bool) \<times> I2C) option" where
  "led_write bus a d i2c = pwmRGB bus a (mRed d) (mGreen d) (mBlue d) i2c"

text \<open>Setting a value converts and writes: the outcome of the transfer, the bus and the LED.\<close>

definition led_set ::
  "rounding \<Rightarrow> i2c_bus \<Rightarrow> u8 \<Rightarrow> (RgbLed \<Rightarrow> RgbLed) \<Rightarrow> LedColours \<Rightarrow> I2C \<Rightarrow>
     ((i2c_exception + bool) \<times> I2C \<times> LedColours) option" where
  "led_set fl bus a upd d i2c =
     (case hslToRgb fl (d\<lparr>colour_of := upd (colour_of d)\<rparr>) of
        None \<Rightarrow> None
      | Some d' \<Rightarrow> map_option (\<lambda>(r, i2c'). (r, i2c', d')) (led_write bus a d' i2c))"

definition led_hue where "led_hue fl bus a v = led_set fl bus a (hue v)"
definition led_saturation where "led_saturation fl bus a v = led_set fl bus a (saturation v)"
definition led_luminance where "led_luminance fl bus a v = led_set fl bus a (luminance v)"

section \<open>Bounds of the conversion\<close>

text \<open>Values that are in the unit interval up to a rounding error.\<close>

definition about_unit :: "real \<Rightarrow> bool" where
  "about_unit x \<longleftrightarrow> - 1 / 1000000000 \<le> x \<and> x \<le> 1 + 1 / 1000000000"

lemma unit_quotient:
  assumes "double_rounding fl" and "v \<le> MAX_RESOLUTION"
  shows "0 \<le> fl (of_u16 v / of_u16 MAX_RESOLUTION) \<and> fl (of_u16 v / of_u16 MAX_RESOLUTION) \<le> 1"
proof -
  have "unat v \<le> 4000" using assms(2) by (simp add: MAX_RESOLUTION_def word_le_nat_alt)
  then have "of_u16 v \<le> 4000" unfolding of_u16_def by (metis of_nat_mono of_nat_numeral)
  moreover have "of_u16 MAX_RESOLUTION = 4000" by (simp add: of_u16_def MAX_RESOLUTION_def)
  moreover have "0 \<le> of_u16 v" unfolding of_u16_def by (rule of_nat_0_le_iff)
  ultimately have "0 \<le> of_u16 v / of_u16 MAX_RESOLUTION \<and> of_u16 v / of_u16 MAX_RESOLUTION \<le> 1"
    by simp
  then show ?thesis using double_between [OF assms(1), of 0 _ 1] by simp
qed

text \<open>The two corner values: exact ones with 0 <= p <= q <= 1, and the computed ones near them.\<close>

lemma hsl_corners:
  assumes "double_rounding fl" and l: "0 \<le> l" "l \<le> 1" and s: "0 \<le> s" "s \<le> 1"
  shows "\<exists>p' q'. 0 \<le> p' \<and> p' \<le> q' \<and> q' \<le> 1 \<and> \<bar>hsl_q fl l s - q'\<bar> \<le> 3 / 1000000000000 \<and>
     \<bar>fl (fl (2 * l) - hsl_q fl l s) - p'\<bar> \<le> 5 / 1000000000000"
proof -
  note err = double_error_8 [OF assms(1)]
  define q' where "q' = (if l < 1 / 2 then l * (1 + s) else l + s - l * s)"
  have ls: "0 \<le> l * s" "l * s \<le> l" "l * s \<le> s" using l s by (simp_all add: mult_left_le mult_right_le_one_le mult_left_le_one_le)
  have q: "\<bar>hsl_q fl l s - q'\<bar> \<le> 3 / 1000000000000"
  proof (cases "l < 1 / 2")
    case True
    have "\<bar>fl (1 + s) - (1 + s)\<bar> \<le> 1 / 1000000000000" using s by (intro err) simp
    then have "\<bar>l * fl (1 + s) - l * (1 + s)\<bar> \<le> 1 / 1000000000000"
      using product_error [of l l 0 "fl (1 + s)" "1 + s" "1 / 1000000000000" 1 "\<bar>fl (1 + s)\<bar>"] l by simp
    have "\<bar>l * fl (1 + s)\<bar> \<le> 8"
    proof -
      have "l * (1 + s) = l + l * s" by (simp add: algebra_simps)
      moreover have "(1 :: real) / 1000000000000 \<le> 1" by simp
      ultimately show ?thesis
        using \<open>\<bar>l * fl (1 + s) - l * (1 + s)\<bar> \<le> 1 / 1000000000000\<close> l s ls unfolding abs_le_iff by linarith
    qed
    then have "\<bar>fl (l * fl (1 + s)) - l * fl (1 + s)\<bar> \<le> 1 / 1000000000000" by (rule err)
    from near_trans [OF this \<open>\<bar>l * fl (1 + s) - l * (1 + s)\<bar> \<le> 1 / 1000000000000\<close>, of "3 / 1000000000000"] True
    show ?thesis by (simp add: hsl_q_def q'_def)
  next
    case False
    have a: "\<bar>fl (l + s) - (l + s)\<bar> \<le> 1 / 1000000000000" "\<bar>fl (l * s) - l * s\<bar> \<le> 1 / 1000000000000"
      using l s ls by (intro err; simp)+
    then have "\<bar>fl (fl (l + s) - fl (l * s)) - (fl (l + s) - fl (l * s))\<bar> \<le> 1 / 1000000000000"
      using l s ls by (intro err) linarith
    with a have "\<bar>fl (fl (l + s) - fl (l * s)) - (l + s - l * s)\<bar> \<le> 3 / 1000000000000" by linarith
    with False show ?thesis by (simp add: hsl_q_def q'_def)
  qed
  have b: "0 \<le> 2 * l - q'" "2 * l - q' \<le> q'" "q' \<le> 1"
  proof -
    have "l + s - l * s \<le> 1" using mult_nonneg_nonneg [of "1 - l" "1 - s"] l s by (simp add: algebra_simps)
    moreover have "l + l * s \<le> 1" if "l < 1 / 2" using ls that by linarith
    moreover have "s - l * s \<le> l" if "\<not> l < 1 / 2"
      using that mult_left_mono [of s 1 "1 - l"] l s by (simp add: algebra_simps)
    ultimately show "0 \<le> 2 * l - q'" "2 * l - q' \<le> q'" "q' \<le> 1"
      using ls by (auto simp: q'_def algebra_simps)
  qed
  have "\<bar>fl (2 * l) - 2 * l\<bar> \<le> 1 / 1000000000000" using l by (intro err) simp
  moreover from this q b l have "\<bar>fl (fl (2 * l) - hsl_q fl l s) - (fl (2 * l) - hsl_q fl l s)\<bar> \<le> 1 / 1000000000000"
    by (intro err) linarith
  ultimately have "\<bar>fl (fl (2 * l) - hsl_q fl l s) - (2 * l - q')\<bar> \<le> 5 / 1000000000000" using q by linarith
  with b q show ?thesis by blast
qed

lemma hue_wrapped:
  assumes "double_rounding fl" and "- 1 / 2 \<le> t" and "t \<le> 3 / 2"
  defines "t1 \<equiv> if t < 0 then fl (t + 1) else t"
  defines "t2 \<equiv> if t1 > 1 then fl (t1 - 1) else t1"
  shows "0 \<le> t2 \<and> t2 \<le> 1"
proof -
  note unit = double_between [OF assms(1), of 0 _ 1, simplified]
  have "0 \<le> t1 \<and> t1 \<le> 3 / 2" using assms(2,3) unit [of "t + 1"] by (auto simp: t1_def)
  then show ?thesis using unit [of "t1 - 1"] by (auto simp: t2_def)
qed

text \<open>A point between the corners, computed from a weight between 0 and 1/6.\<close>

lemma blend:
  fixes p' G w x p r :: real
  assumes "0 \<le> p'" "0 \<le> G" "p' + G \<le> 1" and "0 \<le> w" "w \<le> 1 / 6 + 1 / 1000000000000"
    and "\<bar>x - 6 * (G * w)\<bar> \<le> 100 / 1000000000000" and "\<bar>p - p'\<bar> \<le> 5 / 1000000000000"
    and "\<bar>r - (p + x)\<bar> \<le> 1 / 1000000000000"
  shows "about_unit r"
proof -
  define y where "y = G * w"
  have "0 \<le> y" using assms(2,4) by (simp add: y_def)
  moreover have "y \<le> G * (1 / 6 + 1 / 1000000000000)"
    unfolding y_def using assms(2,5) by (intro mult_left_mono) simp_all
  then have "y \<le> G / 6 + G / 1000000000000" by (simp add: distrib_left)
  ultimately show ?thesis using assms(1-3,7,8) assms(6) [folded y_def] unfolding about_unit_def
    by (intro conjI) linarith+
qed

text \<open>The two sloping branches of the conversion.\<close>

lemma hue_low:
  assumes fl: "double_rounding fl" and c: "0 \<le> p'" "0 \<le> G" "p' + G \<le> 1"
    and p: "\<bar>p - p'\<bar> \<le> 5 / 1000000000000" and D: "\<bar>D - G\<bar> \<le> 10 / 1000000000000"
    and w: "0 \<le> w" "w \<le> 1 / 6 + 1 / 1000000000000"
  shows "about_unit (fl (p + fl (fl (D * 6) * w)))"
proof -
  note err = double_error_8 [OF fl]
  have "\<bar>fl (D * 6) - D * 6\<bar> \<le> 1 / 1000000000000" using D c by (intro err) linarith
  with D have a: "\<bar>fl (D * 6) - 6 * G\<bar> \<le> 61 / 1000000000000" by linarith
  define y where "y = G * w"
  have w1: "w \<le> 1" using w by simp
  have y: "0 \<le> y" "y \<le> 1" using c w(1) w1 by (simp_all add: y_def mult_le_one)
  have b: "\<bar>fl (D * 6) * w - 6 * y\<bar> \<le> 61 / 1000000000000"
    using product_error [OF a, of w w 0 6 1] w(1) w1 c by (simp add: y_def mult.assoc)
  then have "\<bar>fl (D * 6) * w\<bar> \<le> 8" using y by linarith
  from err [OF this] b have x: "\<bar>fl (fl (D * 6) * w) - 6 * y\<bar> \<le> 100 / 1000000000000" by linarith
  then have "\<bar>p + fl (fl (D * 6) * w)\<bar> \<le> 8" using y p c by linarith
  from blend [OF c w x [unfolded y_def] p err [OF this]] show ?thesis .
qed

lemma hue_high:
  assumes fl: "double_rounding fl" and c: "0 \<le> p'" "0 \<le> G" "p' + G \<le> 1"
    and p: "\<bar>p - p'\<bar> \<le> 5 / 1000000000000" and D: "\<bar>D - G\<bar> \<le> 10 / 1000000000000"
    and w: "0 \<le> w" "w \<le> 1 / 6 + 1 / 1000000000000"
  shows "about_unit (fl (p + fl (fl (D * fl w) * 6)))"
proof -
  note err = double_error_8 [OF fl]
  define u where "u = fl w"
  have u: "\<bar>u - w\<bar> \<le> 1 / 1000000000000" unfolding u_def using w by (intro err) linarith
  define y where "y = G * w"
  have y: "0 \<le> y" "y \<le> w" using c w by (simp_all add: y_def mult_left_le_one_le)
  have m: "\<bar>D * u - y\<bar> \<le> 10 / 1000000000000 * 1 + 1 * (1 / 1000000000000)"
    unfolding y_def using c w u by (intro product_error [OF D u]) linarith+
  then have "\<bar>D * u\<bar> \<le> 8" using y w by linarith
  from err [OF this] m have e: "\<bar>fl (D * u) - y\<bar> \<le> 12 / 1000000000000" by linarith
  then have "\<bar>fl (D * u) * 6\<bar> \<le> 8" using y w by linarith
  from err [OF this] e have x: "\<bar>fl (fl (D * u) * 6) - 6 * y\<bar> \<le> 100 / 1000000000000" by linarith
  then have "\<bar>p + fl (fl (D * u) * 6)\<bar> \<le> 8" using y w p c by linarith
  from blend [OF c w x [unfolded y_def] p err [OF this]] show ?thesis by (simp add: u_def)
qed

lemma hue2rgb_unit:
  assumes fl: "double_rounding fl" and c: "0 \<le> p'" "0 \<le> G" "p' + G \<le> 1"
    and p: "\<bar>p - p'\<bar> \<le> 5 / 1000000000000" and q: "\<bar>q - (p' + G)\<bar> \<le> 3 / 1000000000000"
    and t: "- 1 / 2 \<le> t" "t \<le> 3 / 2"
  shows "about_unit (hue2rgb fl p q t)"
proof -
  note err = double_error_8 [OF fl]
  define t1 where "t1 = (if t < 0 then fl (t + 1) else t)"
  define t2 where "t2 = (if t1 > 1 then fl (t1 - 1) else t1)"
  have t2: "0 \<le> t2 \<and> t2 \<le> 1" using hue_wrapped [OF fl t] unfolding t1_def t2_def .
  have "\<bar>fl (q - p) - (q - p)\<bar> \<le> 1 / 1000000000000" using p q c by (intro err) linarith
  then have D: "\<bar>fl (q - p) - G\<bar> \<le> 10 / 1000000000000" using p q by linarith
  have sixth: "\<bar>fl (1 / 6) - 1 / 6\<bar> \<le> 1 / 1000000000000" "\<bar>fl (2 / 3) - 2 / 3\<bar> \<le> 1 / 1000000000000"
    by (intro err; simp)+
  have corner: "about_unit p" "about_unit q" using p q c unfolding about_unit_def by (intro conjI; linarith)+
  have low: "about_unit (fl (p + fl (fl (fl (q - p) * 6) * t2)))" if "t2 < fl (1 / 6)"
    using hue_low [OF fl c p D, of t2] t2 that sixth(1) by linarith
  have high: "about_unit (fl (p + fl (fl (fl (q - p) * fl (fl (2 / 3) - t2)) * 6)))"
    if "\<not> t2 < 1 / 2" "t2 < fl (2 / 3)"
    using hue_high [OF fl c p D, of "fl (2 / 3) - t2"] that sixth(2) by linarith
  show ?thesis
    unfolding hue2rgb_def Let_def t1_def [symmetric] t2_def [symmetric] using low high corner by simp
qed

lemma level_bound:
  assumes "double_rounding fl" and "about_unit x"
  shows "\<exists>w. to_u16 (fl (x * of_u16 MAX_RESOLUTION)) = Some w \<and> unat w \<le> 4000"
proof -
  have M: "of_u16 MAX_RESOLUTION = 4000" by (simp add: of_u16_def MAX_RESOLUTION_def)
  have "\<bar>x * 4000\<bar> \<le> 8192" using assms(2) unfolding about_unit_def by linarith
  from double_error_8192 [OF assms(1) this] assms(2)
  have "- 1 < fl (x * 4000) \<and> fl (x * 4000) < 4001" unfolding about_unit_def by linarith
  then show ?thesis unfolding M by (intro to_u16_range) simp_all
qed

section \<open>The lamp stays in its range\<close>

definition led_ok :: "LedColours \<Rightarrow> bool" where
  "led_ok d \<longleftrightarrow> mHue (colour_of d) \<le> MAX_RESOLUTION \<and> mSat (colour_of d) \<le> MAX_RESOLUTION \<and>
     mLum (colour_of d) \<le> MAX_RESOLUTION"

lemma hslToRgb_range:
  assumes fl: "double_rounding fl" and "led_ok d"
  shows "\<exists>d'. hslToRgb fl d = Some d' \<and> colour_of d' = colour_of d \<and>
     unat (mRed d') \<le> 4000 \<and> unat (mGreen d') \<le> 4000 \<and> unat (mBlue d') \<le> 4000"
proof -
  define h l s where "h = fl (of_u16 (mHue (colour_of d)) / of_u16 MAX_RESOLUTION)"
    and "l = fl (of_u16 (mLum (colour_of d)) / of_u16 MAX_RESOLUTION)"
    and "s = fl (of_u16 (mSat (colour_of d)) / of_u16 MAX_RESOLUTION)"
  have b: "0 \<le> h" "h \<le> 1" "0 \<le> l" "l \<le> 1" "0 \<le> s" "s \<le> 1"
    using assms(2) unit_quotient [OF fl] by (simp_all add: led_ok_def h_def l_def s_def)
  define q p where "q = hsl_q fl l s" and "p = fl (fl (2 * l) - q)"
  from hsl_corners [OF fl b(3-6)] obtain p' q' where pq: "0 \<le> p'" "p' \<le> q'" "q' \<le> 1"
    "\<bar>q - q'\<bar> \<le> 3 / 1000000000000" "\<bar>p - p'\<bar> \<le> 5 / 1000000000000"
    unfolding q_def p_def by blast
  have u: "about_unit (hue2rgb fl p q t)" if "- 1 / 2 \<le> t" "t \<le> 3 / 2" for t
    using hue2rgb_unit [OF fl pq(1), of "q' - p'" p q t] pq that by simp
  have third: "\<bar>fl (1 / 3) - 1 / 3\<bar> \<le> 1 / 1000000000000" by (intro double_error_8 [OF fl]) simp
  have "\<bar>fl (h + fl (1 / 3)) - (h + fl (1 / 3))\<bar> \<le> 1 / 1000000000000"
    "\<bar>fl (h - fl (1 / 3)) - (h - fl (1 / 3))\<bar> \<le> 1 / 1000000000000"
    using b third by (intro double_error_8 [OF fl]; linarith)+
  then have "- 1 / 2 \<le> fl (h + fl (1 / 3))" "fl (h + fl (1 / 3)) \<le> 3 / 2"
    "- 1 / 2 \<le> fl (h - fl (1 / 3))" "fl (h - fl (1 / 3)) \<le> 3 / 2" using b third by linarith+
  then have v: "about_unit (hue2rgb fl p q (fl (h + fl (1 / 3))))" "about_unit (hue2rgb fl p q h)"
    "about_unit (hue2rgb fl p q (fl (h - fl (1 / 3))))" "about_unit l"
    using u b by (simp_all add: about_unit_def)
  show ?thesis
    using level_bound [OF fl v(1)] level_bound [OF fl v(2)] level_bound [OF fl v(3)] level_bound [OF fl v(4)]
    unfolding hslToRgb_def Let_def h_def [symmetric] l_def [symmetric] s_def [symmetric]
      q_def [symmetric] p_def [symmetric]
    by (auto split: option.split)
qed

text \<open>The calls the light makes: any luminance, and hues and saturations of the documented range.\<close>

datatype led_call = SetHue u16 | SetSaturation u16 | SetLuminance u16

fun call_ok :: "led_call \<Rightarrow> bool" where
  "call_ok (SetHue v) \<longleftrightarrow> v \<le> MAX_RESOLUTION"
| "call_ok (SetSaturation v) \<longleftrightarrow> v \<le> MAX_RESOLUTION"
| "call_ok (SetLuminance v) \<longleftrightarrow> True"

fun led_do ::
  "rounding \<Rightarrow> i2c_bus \<Rightarrow> u8 \<Rightarrow> led_call \<Rightarrow> LedColours \<Rightarrow> I2C \<Rightarrow>
     ((i2c_exception + bool) \<times> I2C \<times> LedColours) option" where
  "led_do fl bus a (SetHue v) = led_hue fl bus a v"
| "led_do fl bus a (SetSaturation v) = led_saturation fl bus a v"
| "led_do fl bus a (SetLuminance v) = led_luminance fl bus a v"

fun led_apply :: "led_call \<Rightarrow> RgbLed \<Rightarrow> RgbLed" where
  "led_apply (SetHue v) = hue v"
| "led_apply (SetSaturation v) = saturation v"
| "led_apply (SetLuminance v) = luminance v"

lemma led_apply_ok:
  "led_ok d \<Longrightarrow> call_ok c \<Longrightarrow> led_ok (d\<lparr>colour_of := led_apply c (colour_of d)\<rparr>)"
  by (cases c) (auto simp: led_ok_def hue_def saturation_def luminance_def Let_def MAX_RESOLUTION_def
      not_less split: if_splits)



end
