(* ===== verification/Light_Sensor.thy ===== *)
theory Light_Sensor
  imports Double_Arith Pwm_Driver
begin

text \<open>
  The light sensor (\<open>rgbclock/RgbLib/src/lib/LightSensor.cpp\<close>) and the loop of the backlight that uses it
  (\<open>LCDBacklight.cpp\<close>), in the arithmetic of \<open>Double_Arith\<close>. The function \<open>pow\<close> of the C library is a
  parameter. A division by zero gives one of the special values, for which every comparison is false
  or, with infinity, the last branch is taken. The decimal constants of the code are written as
  fractions, which the compiler rounds.
\<close>

section \<open>The sensor\<close>

definition init_LightSensor :: "i2c_bus \<Rightarrow> u8 \<Rightarrow> I2C \<Rightarrow> (i2c_exception + bool) \<times> I2C" where
  "init_LightSensor bus a s =
     (case writeByte bus a 0x03 DEFAULT_I2C_RETRY s of (Inl e, s1) \<Rightarrow> (Inl e, s1) | (Inr _, s1) \<Rightarrow> (Inr True, s1))"

definition new_LightSensor :: "i2c_bus \<Rightarrow> u8 \<Rightarrow> I2C \<Rightarrow> (i2c_exception + bool) \<times> I2C" where
  "new_LightSensor bus a s = init_LightSensor bus a (registerAddress a ''Light Sensor'' s)"

fun q_value :: "quotient \<Rightarrow> real" where
  "q_value (Finite x) = x"
| "q_value _ = 0"

definition calculateLux :: "rounding \<Rightarrow> (real \<Rightarrow> real \<Rightarrow> real) \<Rightarrow> u16 \<Rightarrow> u16 \<Rightarrow> real" where
  "calculateLux fl pow channel0 channel1 =
     (let ch0 = of_u16 channel0;
          ch1 = of_u16 channel1;
          r = fdiv fl ch1 ch0;
          lux = 0;
          lux = (if q_greater r 0 \<and> q_le r (1 / 2)
                 then fl (fl (fl (304 / 10000) * ch0) - fl (fl (fl (62 / 1000) * ch0) * pow (q_value r) (fl (14 / 10)))) else lux);
          lux = (if q_greater r (1 / 2) \<and> q_le r (fl (61 / 100))
                 then fl (fl (fl (224 / 10000) * ch0) - fl (fl (31 / 1000) * ch1)) else lux);
          lux = (if q_greater r (fl (61 / 100)) \<and> q_le r (fl (80 / 100))
                 then fl (fl (fl (128 / 10000) * ch0) - fl (fl (153 / 10000) * ch1)) else lux);
          lux = (if q_greater r (fl (80 / 100)) \<and> q_le r (fl (130 / 100))
                 then fl (fl (fl (146 / 100000) * ch0) - fl (fl (112 / 100000) * ch1)) else lux);
          lux = (if q_greater r (fl (13 / 10)) then 0 else lux)
      in lux)"

definition lux :: "rounding \<Rightarrow> (real \<Rightarrow> real \<Rightarrow> real) \<Rightarrow> i2c_bus \<Rightarrow> u8 \<Rightarrow> I2C \<Rightarrow> (i2c_exception + real) \<times> I2C" where
  "lux fl pow bus a s =
     (case readData_word bus a 0xAC DEFAULT_I2C_RETRY s of
        (Inl e, s1) \<Rightarrow> (Inl e, s1)
      | (Inr (_, channel0), s1) \<Rightarrow>
         (case readData_word bus a 0xAE DEFAULT_I2C_RETRY s1 of
            (Inl e, s2) \<Rightarrow> (Inl e, s2)
          | (Inr (_, channel1), s2) \<Rightarrow> (Inr (calculateLux fl pow channel0 channel1), s2)))"

text \<open>
  One turn of the backlight thread: the sensor is read also when the user is active. The level is
  converted to an integer only for a PWM driver; None is an undefined conversion.
\<close>

definition ambient_level :: "rounding \<Rightarrow> real \<Rightarrow> u16 option" where
  "ambient_level fl lx = to_u16 (fl (200 + fl (lx * 20)))"

definition backLightThread_turn ::
  "rounding \<Rightarrow> (real \<Rightarrow> real \<Rightarrow> real) \<Rightarrow> i2c_bus \<Rightarrow> u8 \<Rightarrow> u8 \<Rightarrow> LCDBacklight \<Rightarrow> I2C \<Rightarrow>
     ((i2c_exception + bool) \<times> LCDBacklight \<times> I2C) option" where
  "backLightThread_turn fl pow bus sensor pwm b s =
     (case lux fl pow bus sensor s of
        (Inl e, s1) \<Rightarrow> Some (Inl e, b, s1)
      | (Inr lx, s1) \<Rightarrow>
         (let active = bl_mUserActivityTimer b > 0;
              b1 = (if active then b\<lparr>bl_mUserActivityTimer := bl_mUserActivityTimer b - 1\<rparr> else b);
              level = (if active then Some 2500 else ambient_level fl lx)
          in if has_mPwmDriver b1
             then map_option (\<lambda>v. let (r, s2) = pwmSingle bus pwm v s1 in (r, b1, s2)) level
             else Some (Inr True, b1, s1)))"

section \<open>Range of the illuminance\<close>

text \<open>What the C library promises of \<open>pow\<close>, for a base up to 1 and an exponent between 1 and 2.\<close>

definition pow_accurate :: "(real \<Rightarrow> real \<Rightarrow> real) \<Rightarrow> bool" where
  "pow_accurate pow \<longleftrightarrow> (\<forall>x y. 0 < x \<longrightarrow> x \<le> 1 \<longrightarrow> 1 \<le> y \<longrightarrow> y \<le> 2 \<longrightarrow> \<bar>pow x y - x powr y\<bar> \<le> 1 / 2 ^ 51)"

definition lux_range :: "real \<Rightarrow> bool" where
  "lux_range x \<longleftrightarrow> 0 \<le> x \<and> x \<le> 2000"

lemma scaled_error:
  assumes "double_rounding fl" and "0 \<le> a" "a \<le> 1" and "0 \<le> c" "c \<le> 65535"
  shows "\<bar>fl (fl a * c) - a * c\<bar> \<le> 1 / 5000000"
proof -
  have "\<bar>fl a - a\<bar> \<le> 1 / 1000000000000" using assms(2,3) by (intro double_error_8 [OF assms(1)]) linarith
  from product_error [OF this, of c c 0 1 65535] assms(2-5)
  have e: "\<bar>fl a * c - a * c\<bar> \<le> 65535 / 1000000000000" by simp
  have "0 \<le> a * c" "a * c \<le> 65535" using assms(2-5) mult_mono [of a 1 c 65535] by simp_all
  with e have "\<bar>fl a * c\<bar> \<le> 131072" by linarith
  from double_error_131072 [OF assms(1) this] e show ?thesis by linarith
qed

lemma lux_linear:
  assumes fl: "double_rounding fl" and a: "0 \<le> a" "a \<le> 1" and b: "0 \<le> b" "b \<le> 1"
    and c: "1 \<le> ch0" "ch0 \<le> 65535" "0 \<le> ch1" "ch1 \<le> 65535"
    and m: "b * ch1 + ch0 / 1000000 \<le> a * ch0" and top: "a * ch0 \<le> 1999"
  shows "lux_range (fl (fl (fl a * ch0) - fl (fl b * ch1)))"
proof -
  have e: "\<bar>fl (fl a * ch0) - a * ch0\<bar> \<le> 1 / 5000000" "\<bar>fl (fl b * ch1) - b * ch1\<bar> \<le> 1 / 5000000"
    using scaled_error [OF fl a] scaled_error [OF fl b] c by simp_all
  have "0 \<le> b * ch1" using b c by simp
  with e m top c have "0 \<le> fl (fl a * ch0) - fl (fl b * ch1)" "fl (fl a * ch0) - fl (fl b * ch1) \<le> 2000" by linarith+
  then show ?thesis using double_between [OF fl, of 0 _ 2000] by (simp add: lux_range_def)
qed

lemma half_powr: "(1 / 2 :: real) powr (5 / 4) \<le> 43 / 100"
proof -
  have "((1 / 2 :: real) powr (5 / 4)) ^ 4 = (1 / 2) powr 5"
    by (simp add: powr_power)
  also have "\<dots> = (1 / 2) ^ 5" by (simp add: powr_numeral)
  also have "\<dots> \<le> (43 / 100) ^ 4" by (simp add: power_numeral_reduce)
  finally show ?thesis by (rule power_mono_iff [THEN iffD1, rotated 3]) simp_all
qed

lemma pow_small:
  assumes "pow_accurate pow" and "0 < x" "x \<le> 1 / 2" and "5 / 4 \<le> y" "y \<le> 2"
  shows "- 1 / 1000 \<le> pow x y \<and> pow x y \<le> 44 / 100"
proof -
  have "x powr y \<le> (1 / 2) powr y" using assms by (intro powr_mono2) simp_all
  also have "\<dots> \<le> (1 / 2) powr (5 / 4)" using assms by (intro powr_mono') simp_all
  also note half_powr
  finally have "x powr y \<le> 43 / 100" .
  moreover have "0 \<le> x powr y" by simp
  moreover have "\<bar>pow x y - x powr y\<bar> \<le> 1 / 2 ^ 51"
    using assms(2-) by (intro assms(1) [unfolded pow_accurate_def, rule_format]) simp_all
  moreover have "(1 :: real) / 2 ^ 51 \<le> 1 / 1000" by simp
  ultimately show ?thesis by linarith
qed

lemma lux_curved:
  assumes fl: "double_rounding fl" and pow: "pow_accurate pow" and c: "1 \<le> ch0" "ch0 \<le> 65535"
    and r: "0 < r" "r \<le> 1 / 2"
  shows "lux_range (fl (fl (fl (304 / 10000) * ch0) - fl (fl (fl (62 / 1000) * ch0) * pow r (fl (14 / 10)))))"
proof -
  have "\<bar>fl (14 / 10) - (14 / 10)\<bar> \<le> 1 / 1000000000000" by (intro double_error_8 [OF fl]) simp
  then have y: "5 / 4 \<le> fl (14 / 10)" "fl (14 / 10) \<le> 2" by linarith+
  define P where "P = pow r (fl (14 / 10))"
  have P: "- 1 / 1000 \<le> P" "P \<le> 44 / 100" using pow_small [OF pow r y] by (simp_all add: P_def)
  define S where "S = fl (fl (62 / 1000) * ch0)"
  have e: "\<bar>fl (fl (304 / 10000) * ch0) - (304 / 10000) * ch0\<bar> \<le> 1 / 5000000" and S: "\<bar>S - (62 / 1000) * ch0\<bar> \<le> 1 / 5000000"
    using scaled_error [OF fl, of "304 / 10000" ch0] scaled_error [OF fl, of "62 / 1000" ch0] c by (simp_all add: S_def)
  have S0: "0 \<le> S" "S \<le> 5000" using S c by linarith+
  have SP: "S * (- 1 / 1000) \<le> S * P" "S * P \<le> S * (44 / 100)" using S0 P by (intro mult_left_mono; simp)+
  have "\<bar>S * P\<bar> \<le> 8192" using SP S0 by linarith
  from double_error_8192 [OF fl this] have f: "\<bar>fl (S * P) - S * P\<bar> \<le> 1 / 10000000000" .
  have "0 \<le> fl (fl (304 / 10000) * ch0) - fl (S * P)" "fl (fl (304 / 10000) * ch0) - fl (S * P) \<le> 2000"
    using e S f SP S0 c by linarith+
  then show ?thesis
    using double_between [OF fl, of 0 _ 2000] by (simp add: lux_range_def S_def P_def)
qed

text \<open>A rounded quotient up to a bound of the code gives a bound on the channels.\<close>

lemma ratio_bound:
  assumes fl: "double_rounding fl" and "0 \<le> ch1" "1 \<le> ch0" and "fl (ch1 / ch0) \<le> fl c" and "0 \<le> c" "c \<le> 2"
  shows "ch1 \<le> c * ch0 + ch0 / 100000000000"
proof -
  have "fl c \<le> 2" using double_between [OF fl, of 0 c 2] assms(5,6) by simp
  have "ch1 / ch0 \<le> 8"
  proof (rule ccontr)
    assume "\<not> ch1 / ch0 \<le> 8"
    then have "fl 8 \<le> fl (ch1 / ch0)" by (intro double_mono [OF fl]) simp
    then show False using double_int [OF fl, of 8] \<open>fl c \<le> 2\<close> assms(4) by simp
  qed
  moreover have "0 \<le> ch1 / ch0" using assms(2,3) by simp
  ultimately have "\<bar>fl (ch1 / ch0) - ch1 / ch0\<bar> \<le> 1 / 1000000000000" by (intro double_error_8 [OF fl]) linarith
  moreover have "\<bar>fl c - c\<bar> \<le> 1 / 1000000000000" using assms(5,6) by (intro double_error_8 [OF fl]) linarith
  ultimately have "ch1 / ch0 \<le> c + 1 / 100000000000" using assms(4) by linarith
  then have "ch1 \<le> (c + 1 / 100000000000) * ch0" using assms(3) by (simp add: pos_divide_le_eq)
  then show ?thesis by (simp add: distrib_right)
qed

lemma of_u16_bounds: "0 \<le> of_u16 w" "of_u16 w \<le> 65535" "of_u16 w = 0 \<or> 1 \<le> of_u16 w"
proof -
  have "unat w \<le> 65535" using unsigned_less [of w, where 'a = nat] by simp
  then have "real (unat w) \<le> real 65535" by (rule of_nat_mono)
  then show "of_u16 w \<le> 65535" unfolding of_u16_def of_nat_numeral .
  show "0 \<le> of_u16 w" unfolding of_u16_def by (rule of_nat_0_le_iff)
  have "real (unat w) = 0 \<or> 1 \<le> real (unat w)" by (cases "unat w") simp_all
  then show "of_u16 w = 0 \<or> 1 \<le> of_u16 w" unfolding of_u16_def .
qed

lemma calculateLux_range:
  assumes fl: "double_rounding fl" and pow: "pow_accurate pow"
  shows "lux_range (calculateLux fl pow channel0 channel1)"
proof -
  define c0 c1 where "c0 = of_u16 channel0" and "c1 = of_u16 channel1"
  note c = of_u16_bounds [of channel0, folded c0_def] of_u16_bounds(1,2) [of channel1, folded c1_def]
  have zero: "lux_range 0" by (simp add: lux_range_def)
  show ?thesis
  proof (cases "c0 = 0")
    case True
    then show ?thesis
      using zero by (simp add: calculateLux_def c0_def [symmetric] c1_def [symmetric] fdiv_def)
  next
    case False
    then have c0: "1 \<le> c0" using c(3) by simp
    define r where "r = fl (c1 / c0)"
    note R = ratio_bound [OF fl c(4) c0, folded r_def]
    have 2: "lux_range (fl (fl (fl (224 / 10000) * c0) - fl (fl (31 / 1000) * c1)))" if "r \<le> fl (61 / 100)"
      using R [OF that] c c0 by (intro lux_linear [OF fl]) simp_all
    have 3: "lux_range (fl (fl (fl (128 / 10000) * c0) - fl (fl (153 / 10000) * c1)))" if "r \<le> fl (80 / 100)"
      using R [OF that] c c0 by (intro lux_linear [OF fl]) simp_all
    have 4: "lux_range (fl (fl (fl (146 / 100000) * c0) - fl (fl (112 / 100000) * c1)))" if "r \<le> fl (130 / 100)"
      using R [OF that] c c0 by (intro lux_linear [OF fl]) simp_all
    show ?thesis
      using lux_curved [OF fl pow c0 c(2), of r] 2 3 4 zero False
      by (simp add: calculateLux_def c0_def [symmetric] c1_def [symmetric] fdiv_def r_def [symmetric] Let_def)
  qed
qed

section \<open>The level of the backlight\<close>

lemma to_u16_between:
  assumes "real m \<le> x" and "x < real (Suc n)" and "n < 65536"
  shows "\<exists>w. to_u16 x = Some w \<and> m \<le> unat w \<and> unat w \<le> n"
proof -
  have t: "trunc x = \<lfloor>x\<rfloor>" "int m \<le> \<lfloor>x\<rfloor>" "\<lfloor>x\<rfloor> \<le> int n"
    using assms by (auto simp: trunc_def le_floor_iff floor_le_iff)
  then have "\<lfloor>x\<rfloor> mod 65536 = \<lfloor>x\<rfloor>" using assms(3) by (intro mod_pos_pos_trivial) linarith+
  then have "unat (word_of_int \<lfloor>x\<rfloor> :: u16) = nat \<lfloor>x\<rfloor>"
    by (simp add: unat_eq_nat_uint uint_word_of_int)
  moreover have "0 \<le> x" "x < 65536" using assms by linarith+
  ultimately show ?thesis using t by (auto simp: to_u16_def)
qed

lemma ambient_level_range:
  assumes fl: "double_rounding fl" and "lux_range lx"
  shows "\<exists>w. ambient_level fl lx = Some w \<and> 200 \<le> unat w \<and> unat w \<le> 40200"
proof -
  have "0 \<le> fl (lx * 20) \<and> fl (lx * 20) \<le> 40000"
    using double_between [OF fl, of 0 "lx * 20" 40000] assms(2) by (simp add: lux_range_def)
  then have "200 \<le> fl (200 + fl (lx * 20)) \<and> fl (200 + fl (lx * 20)) \<le> 40200"
    using double_between [OF fl, of 200 "200 + fl (lx * 20)" 40200] by simp
  then show ?thesis
    unfolding ambient_level_def using to_u16_between [of 200 "fl (200 + fl (lx * 20))" 40200] by simp
qed

text \<open>
  C28. Whatever the two channels of the light sensor read, in double arithmetic of the accuracy that IEEE
  754 and the C library promise, the illuminance is between 0 and 2000 lux, so that a turn of the
  backlight thread never converts a level that does not fit: the level given to the chip is 2500
  while the user is active, and otherwise from 200 to 40200.
\<close>

theorem backlight_level_defined:
  assumes "double_rounding fl" and "pow_accurate pow" and "lux fl pow bus sensor s = (Inr lx, s1)"
  shows "0 \<le> lx \<and> lx \<le> 2000 \<and>
     (\<exists>v. (if bl_mUserActivityTimer b > 0 then v = 2500 else 200 \<le> unat v \<and> unat v \<le> 40200) \<and>
        backLightThread_turn fl pow bus sensor pwm b s =
          (let (r, s2) = (if has_mPwmDriver b then pwmSingle bus pwm v s1 else (Inr True, s1))
           in Some (r, b\<lparr>bl_mUserActivityTimer :=
                if bl_mUserActivityTimer b > 0 then bl_mUserActivityTimer b - 1 else bl_mUserActivityTimer b\<rparr>, s2)))"
proof -
  from assms(3) obtain channel0 channel1 where "lx = calculateLux fl pow channel0 channel1"
    by (auto simp: lux_def split: prod.splits sum.splits)
  with calculateLux_range [OF assms(1,2)] have lx: "lux_range lx" by simp
  then obtain w where w: "ambient_level fl lx = Some w" "200 \<le> unat w" "unat w \<le> 40200"
    using ambient_level_range [OF assms(1)] by blast
  show ?thesis
  proof (cases "bl_mUserActivityTimer b > 0")
    case True
    with lx show ?thesis
      by (auto simp: lux_range_def backLightThread_turn_def assms(3) Let_def split: prod.split intro!: exI [of _ 2500])
  next
    case False
    with lx w show ?thesis
      by (auto simp: lux_range_def backLightThread_turn_def assms(3) Let_def split: prod.split intro!: exI [of _ w])
  qed
qed

definition ex_backlight :: LCDBacklight where
  "ex_backlight = \<lparr>has_mPwmDriver = True, bl_mUserActivityTimer = 0, mBackLightThreadRunning = True\<rparr>"

definition bright_bus :: i2c_bus where
  "bright_bus n = Transferred (\<lambda>_. 0x40)"

theorem backlight_level_defined_witness:
  "\<exists>lx s1. lux grid_rounding (powr) bright_bus 41 ex_i2c = (Inr lx, s1) \<and> lx \<le> 2000 \<and>
     backLightThread_turn grid_rounding (powr) bright_bus 41 64 ex_backlight ex_i2c \<noteq> None"
proof -
  have p: "pow_accurate (powr)" by (simp add: pow_accurate_def)
  have rd: "\<exists>s'. readData_word bright_bus 41 reg DEFAULT_I2C_RETRY s = (Inr (True, 0x4040), s')" for reg s
    unfolding readData_word_def readWriteDataWithRetry_def
    by (subst retry_loop.simps)
      (simp add: readWriteDataNoRetry_def bright_bus_def DEFAULT_I2C_RETRY_def Let_def)
  obtain s0 where 0: "readData_word bright_bus 41 0xAC DEFAULT_I2C_RETRY ex_i2c = (Inr (True, 0x4040), s0)"
    using rd by blast
  obtain s1 where "readData_word bright_bus 41 0xAE DEFAULT_I2C_RETRY s0 = (Inr (True, 0x4040), s1)"
    using rd by blast
  with 0 have "lux grid_rounding (powr) bright_bus 41 ex_i2c = (Inr (calculateLux grid_rounding (powr) 0x4040 0x4040), s1)"
    by (simp add: lux_def)
  from this backlight_level_defined [OF grid_double_rounding p this, of ex_backlight 64]
  show ?thesis by (auto simp: split_def Let_def)
qed

end
