(* ===== verification/Clock_Utils.thy ===== *)
theory Clock_Utils
  imports Cpp_Std Alarm_Manager
begin

text \<open>
  Helpers: \<open>rgbclock/RgbLib/src/lib/Utils.cpp\<close>, which prints byte vectors for the log and reads and writes
  binary files, and \<open>SystemClock.cpp\<close>, which turns the broken-down local time of the C library into
  a reading of the clock.
\<close>

section \<open>Printing byte vectors\<close>

definition hex_char :: "nat \<Rightarrow> char" where
  "hex_char d = ''0123456789ABCDEF'' ! d"

fun show_hex :: "nat \<Rightarrow> string" where
  "show_hex n = (if n < 16 then [hex_char n] else show_hex (n div 16) @ [hex_char (n mod 16)])"

declare show_hex.simps [simp del]

text \<open>\<open>"0x" << std::hex << std::uppercase << std::setfill('0') << std::setw(2) << n << "|"\<close>\<close>

definition hex_field :: "nat \<Rightarrow> string" where
  "hex_field n = ''0x'' @ setw0 2 (show_hex n) @ ''|''"

definition newline :: char where "newline = CHR 0x0A"

definition dump_header :: string where
  "dump_header = replicate 5 CHR '' '' @ concat (map hex_field [0..<16]) @ newline # replicate 85 CHR ''=''"

definition dump_byte :: "bool \<Rightarrow> bool \<Rightarrow> u8 \<Rightarrow> string" where
  "dump_byte tryString blockMode c =
     (if 32 \<le> c \<and> c \<le> 126 \<and> tryString
      then (if blockMode then ''  '' @ [char_of (unat c)] @ ''  '' else [char_of (unat c)])
      else hex_field (unat c))"

fun dump_loop :: "bool \<Rightarrow> bool \<Rightarrow> nat \<Rightarrow> bytes \<Rightarrow> string" where
  "dump_loop tryString blockMode pos [] = ''''"
| "dump_loop tryString blockMode pos (c # cs) =
     (if blockMode \<and> pos mod 16 = 0 then newline # hex_field (pos div 16) else '''') @
     dump_byte tryString blockMode c @ dump_loop tryString blockMode (Suc pos) cs"

definition vectorToHexString :: "bytes \<Rightarrow> bool \<Rightarrow> bool \<Rightarrow> string" where
  "vectorToHexString v tryString blockMode =
     (if blockMode then dump_header else '''') @ dump_loop tryString blockMode 0 v"

section \<open>Reading a dump back\<close>

text \<open>
  A reader of dumps without text: a line begins with the number of its row, which is skipped; every
  other field is a byte.
\<close>

definition hex_value :: "char \<Rightarrow> nat" where
  "hex_value c = (let n = of_char c :: nat in if n < 58 then n - 48 else n - 55)"

function read_dump :: "string \<Rightarrow> bytes option" where
  "read_dump [] = Some []"
| "read_dump (c # rest) =
     (if c = newline then read_dump (tl (dropWhile (\<lambda>d. d \<noteq> CHR ''|'') rest))
      else (case rest of
              x # a # b # e # rest' \<Rightarrow>
                map_option (\<lambda>bs. of_nat (16 * hex_value a + hex_value b) # bs) (read_dump rest')
            | _ \<Rightarrow> None))"
  by pat_completeness auto
termination
proof (relation "measure length")
  show "(tl (dropWhile (\<lambda>d. d \<noteq> CHR ''|'') rest), c # rest) \<in> measure length" for c rest
    using length_dropWhile_le [of "\<lambda>d. d \<noteq> CHR ''|''" rest] by simp
qed auto

declare read_dump.simps [simp del]

lemma hex_digits: "d < 16 \<Longrightarrow> hex_value (hex_char d) = d \<and> hex_char d \<noteq> CHR ''|''"
proof -
  have "list_all (\<lambda>d. hex_value (hex_char d) = d \<and> hex_char d \<noteq> CHR ''|'') [0..<16]" by code_simp
  then show "d < 16 \<Longrightarrow> hex_value (hex_char d) = d \<and> hex_char d \<noteq> CHR ''|''" by (auto simp: list_all_iff)
qed

lemma show_hex_not_bar: "CHR ''|'' \<notin> set (show_hex n)"
proof (induction n rule: show_hex.induct)
  case (1 n)
  then show ?case
    using hex_digits [of n] hex_digits [of "n mod 16"] by (subst show_hex.simps) (auto simp: eq_commute)
qed

lemma hex_field_byte: "n < 256 \<Longrightarrow> hex_field n = ''0x'' @ [hex_char (n div 16), hex_char (n mod 16)] @ ''|''"
proof -
  assume n: "n < 256"
  have z: "hex_char 0 = CHR ''0''" by (simp add: hex_char_def)
  show ?thesis
  proof (cases "n < 16")
    case True
    then show ?thesis by (simp add: hex_field_def setw0_def show_hex.simps z)
  next
    case False
    with n have "n div 16 < 16" by simp
    with False show ?thesis by (simp add: hex_field_def setw0_def show_hex.simps [of n] show_hex.simps [of "n div 16"])
  qed
qed

lemma skip_row: "tl (dropWhile (\<lambda>d. d \<noteq> CHR ''|'') (hex_field n @ s)) = s"
proof -
  have "dropWhile (\<lambda>d. d \<noteq> CHR ''|'') (w @ CHR ''|'' # s) = CHR ''|'' # s" if "CHR ''|'' \<notin> set w" for w
    using that by (induction w) auto
  from this [of "''0x'' @ setw0 2 (show_hex n)"] show_hex_not_bar [of n]
  show ?thesis by (simp add: hex_field_def setw0_def)
qed

lemma read_dump_row: "read_dump (newline # hex_field n @ s) = read_dump s"
  by (simp add: read_dump.simps skip_row)

lemma read_dump_byte: "read_dump (hex_field (unat c) @ s) = map_option ((#) c) (read_dump s)" for c :: u8
proof -
  have c: "unat c < 256" using unsigned_less [of c, where 'a = nat] by simp
  have v: "of_nat (16 * hex_value (hex_char (unat c div 16)) + hex_value (hex_char (unat c mod 16))) = c"
    using c by (simp add: hex_digits)
  have "CHR ''0'' \<noteq> newline" by (simp add: newline_def)
  with v show ?thesis by (simp add: hex_field_byte [OF c] read_dump.simps(2))
qed

lemma read_dump_loop: "read_dump (dump_loop False blockMode pos v) = Some v"
proof (induction v arbitrary: pos)
  case Nil
  show ?case by (simp add: read_dump.simps)
next
  case (Cons c v)
  then show ?case by (cases blockMode) (simp_all add: dump_byte_def read_dump_row read_dump_byte)
qed

text \<open>A dump without text tells the vector exactly, in both layouts.\<close>

lemma hex_dump_roundtrip:
  "read_dump (drop (if blockMode then length dump_header else 0) (vectorToHexString v False blockMode)) = Some v"
  by (simp add: vectorToHexString_def read_dump_loop)

section \<open>Files\<close>

text \<open>
  A file system holds the contents of the readable files. \<open>writeFile\<close> does not look at the outcome of
  the write: what the file holds afterwards is up to the disk, a parameter.
\<close>

type_synonym file_system = "string \<rightharpoonup> bytes"

definition readFile :: "file_system \<Rightarrow> string \<Rightarrow> bytes \<Rightarrow> bool \<times> bytes" where
  "readFile fs fileName contents = (case fs fileName of Some fileContents \<Rightarrow> (True, fileContents) | None \<Rightarrow> (False, contents))"

definition writeFile :: "(string \<Rightarrow> bool) \<Rightarrow> (bytes \<Rightarrow> bytes) \<Rightarrow> file_system \<Rightarrow> string \<Rightarrow> bytes \<Rightarrow> bool \<times> file_system" where
  "writeFile opens disk fs fileName contents =
     (if opens fileName then (True, fs(fileName \<mapsto> disk contents)) else (False, fs))"

text \<open>A file that was written is read back where the disk stores what it is given; a full disk goes unnoticed.\<close>

lemma file_roundtrip:
  "writeFile opens disk fs name contents = (ok, fs') \<Longrightarrow> ok \<Longrightarrow> readFile fs' name old = (True, disk contents)"
  by (auto simp: writeFile_def readFile_def split: if_splits)

section \<open>The system clock\<close>

record tm =
  tm_wday :: int
  tm_hour :: int
  tm_min :: int

definition day_of :: "int \<Rightarrow> DayOfWeek" where
  "day_of d = (if d = 0 then Sunday else if d = 1 then Monday else if d = 2 then Thuesday else if d = 3 then Wednesday
     else if d = 4 then Thursday else if d = 5 then Friday else Saturday)"

definition localTime :: "tm \<Rightarrow> LocalTime" where
  "localTime timeInfo = \<lparr>lt_mDay = day_of (tm_wday timeInfo), lt_mHour = word_of_int (tm_hour timeInfo),
     lt_mMin = word_of_int (tm_min timeInfo)\<rparr>"

text \<open>The readings of the clock are valid times, as the alarms need them.\<close>

lemma localTime_valid:
  assumes "0 \<le> tm_wday t" "tm_wday t \<le> 6" "0 \<le> tm_hour t" "tm_hour t \<le> 23" "0 \<le> tm_min t" "tm_min t \<le> 59"
  shows "valid_time (localTime t)" and "int (day_int (lt_mDay (localTime t))) = tm_wday t"
    and "now_minutes (localTime t) = tm_hour t * 60 + tm_min t"
  using assms by (auto simp: valid_time_def localTime_def now_minutes_def day_of_def uint_word_of_int)

end
