(* ===== verification/Hash_Stream.thy ===== *)
theory Hash_Stream
  imports Rgb_Prelude
begin

text \<open>
  What the three hash functions of the WiFi driver share (\<open>rt5370.driver/common/crypt_md5.c\<close> and
  \<open>crypt_sha2.c\<close>): the context structure, the loop that cuts a message into blocks of 64 bytes
  (\<open>RT_MD5_Append\<close>, \<open>RT_SHA1_Append\<close> and \<open>RT_SHA256_Append\<close> are the same code over their \<open>Hash\<close>
  function), and the padding of the last block. The locale \<open>block_hash\<close> states what the block
  function of a hash must do, and proves that the streaming interface computes the iterated
  compression of the padded message.
\<close>

section \<open>Context\<close>

record HASH_CTX =
  HashValue :: "u32 list"
  MessageLen :: u64
  Block :: bytes
  BlockLen :: u32

definition zero_ctx :: "nat \<Rightarrow> HASH_CTX" where
  "zero_ctx n = \<lparr>HashValue = replicate n 0, MessageLen = 0, Block = replicate 64 0, BlockLen = 0\<rparr>"

definition hash_init :: "u32 list \<Rightarrow> HASH_CTX \<Rightarrow> HASH_CTX" where
  "hash_init iv c = c\<lparr>HashValue := iv, Block := replicate 64 0, BlockLen := 0, MessageLen := 0\<rparr>"

section \<open>Byte order\<close>

definition le32 :: "bytes \<Rightarrow> u32" where
  "le32 b = ucast (b ! 0) OR push_bit 8 (ucast (b ! 1)) OR push_bit 16 (ucast (b ! 2)) OR push_bit 24 (ucast (b ! 3))"

definition be32 :: "bytes \<Rightarrow> u32" where
  "be32 b = push_bit 24 (ucast (b ! 0)) OR push_bit 16 (ucast (b ! 1)) OR push_bit 8 (ucast (b ! 2)) OR ucast (b ! 3)"

definition bytes_le32 :: "u32 \<Rightarrow> bytes" where
  "bytes_le32 w = [ucast w, ucast (drop_bit 8 w), ucast (drop_bit 16 w), ucast (drop_bit 24 w)]"

definition bytes_be32 :: "u32 \<Rightarrow> bytes" where
  "bytes_be32 w = rev (bytes_le32 w)"

definition bytes_le64 :: "u64 \<Rightarrow> bytes" where
  "bytes_le64 w = map (\<lambda>i. ucast (drop_bit (8 * i) w)) [0..<8]"

definition bytes_be64 :: "u64 \<Rightarrow> bytes" where
  "bytes_be64 w = rev (bytes_le64 w)"

text \<open>The sixteen words of a block.\<close>

definition block_words :: "(bytes \<Rightarrow> u32) \<Rightarrow> bytes \<Rightarrow> u32 list" where
  "block_words ld b = map (\<lambda>i. ld (take 4 (drop (4 * i) b))) [0..<16]"

lemma length_bytes64 [simp]: "length (bytes_le64 w) = 8" "length (bytes_be64 w) = 8"
  by (simp_all add: bytes_le64_def bytes_be64_def)

lemma length_bytes32 [simp]: "length (bytes_le32 w) = 4" "length (bytes_be32 w) = 4"
  by (simp_all add: bytes_le32_def bytes_be32_def)

definition ROTL32 :: "u32 \<Rightarrow> nat \<Rightarrow> u32" where
  "ROTL32 x n = push_bit n x OR drop_bit (32 - n) x"

definition ROTR32 :: "u32 \<Rightarrow> nat \<Rightarrow> u32" where
  "ROTR32 x n = drop_bit n x OR push_bit (32 - n) x"

section \<open>Appending a message\<close>

text \<open>
  The while loop of the \<open>Append\<close> functions, from the position \<open>appendLen\<close>. Lengths are \<open>UINT\<close>, so
  the comparison with the block size is of a sum that wraps. None: a copy outside the block or
  the message, or no end of the loop.
\<close>

partial_function (option) hash_append_loop ::
  "(HASH_CTX \<Rightarrow> HASH_CTX) \<Rightarrow> bytes \<Rightarrow> u32 \<Rightarrow> u32 \<Rightarrow> HASH_CTX \<Rightarrow> HASH_CTX option" where
  "hash_append_loop Hash Message len appendLen c =
     (if appendLen = len then Some c
      else
       (let diffLen = len - appendLen in
        if BlockLen c + diffLen < 64 then
          Option.bind (move_memory (Block c) (unat (BlockLen c)) Message (unat appendLen) (unat diffLen))
            (\<lambda>b. hash_append_loop Hash Message len (appendLen + diffLen)
                   (c\<lparr>Block := b, BlockLen := BlockLen c + diffLen\<rparr>))
        else
          Option.bind (move_memory (Block c) (unat (BlockLen c)) Message (unat appendLen)
                         (unat (64 - BlockLen c)))
            (\<lambda>b. hash_append_loop Hash Message len (appendLen + (64 - BlockLen c))
                   (Hash (c\<lparr>Block := b, BlockLen := 64\<rparr>)))))"

declare hash_append_loop.simps [code]

definition hash_append :: "(HASH_CTX \<Rightarrow> HASH_CTX) \<Rightarrow> bytes \<Rightarrow> u32 \<Rightarrow> HASH_CTX \<Rightarrow> HASH_CTX option" where
  "hash_append Hash Message len c =
     map_option (\<lambda>c'. c'\<lparr>MessageLen := MessageLen c' + ucast len\<rparr>) (hash_append_loop Hash Message len 0 c)"

text \<open>A message handed over in several pieces.\<close>

fun hash_pieces :: "(bytes \<Rightarrow> u32 \<Rightarrow> HASH_CTX \<Rightarrow> HASH_CTX option) \<Rightarrow> bytes list \<Rightarrow> HASH_CTX \<Rightarrow> HASH_CTX option" where
  "hash_pieces app [] c = Some c"
| "hash_pieces app (x # xs) c = Option.bind (app x (of_nat (length x)) c) (hash_pieces app xs)"

section \<open>The end of a message\<close>

definition hash_end ::
  "(HASH_CTX \<Rightarrow> HASH_CTX) \<Rightarrow> (u64 \<Rightarrow> bytes) \<Rightarrow> (u32 \<Rightarrow> bytes) \<Rightarrow> HASH_CTX \<Rightarrow> bytes option" where
  "hash_end Hash cpu64 cpu32 c =
     Option.bind (move_memory (Block c) (unat (BlockLen c)) [0x80] 0 1) (\<lambda>b.
       let c1 = c\<lparr>Block := b\<rparr>;
           c2 = (if BlockLen c1 > 55 then Hash c1 else c1)
       in Option.bind (move_memory (Block c2) 56 (cpu64 (MessageLen c2 * 8)) 0 8) (\<lambda>b2.
            Some (concat (map cpu32 (HashValue (Hash (c2\<lparr>Block := b2\<rparr>)))))))"

section \<open>Specification: the padded message\<close>

definition blocks :: "bytes \<Rightarrow> bytes list" where
  "blocks m = map (\<lambda>i. take 64 (drop (64 * i) m)) [0..<length m div 64]"

definition rest :: "bytes \<Rightarrow> bytes" where
  "rest m = drop (64 * (length m div 64)) m"

definition padded :: "(u64 \<Rightarrow> bytes) \<Rightarrow> bytes \<Rightarrow> bytes" where
  "padded cpu64 m = m @ [0x80] @ replicate ((119 - length m mod 64) mod 64) 0 @ cpu64 (of_nat (length m) * 8)"

lemma length_rest: "length (rest m) = length m mod 64"
  by (simp add: rest_def minus_mult_div_eq_mod)

lemma blocks_rest: "concat (blocks m) @ rest m = m"
proof -
  have "concat (map (\<lambda>i. take 64 (drop (64 * i) m)) [0..<n]) = take (64 * n) m" for n
    by (induction n) (simp_all add: take_add [symmetric] add.commute)
  then show ?thesis by (simp add: blocks_def rest_def)
qed

lemma blocks_append_full:
  assumes "length m mod 64 = 0"
  shows "blocks (m @ x) = blocks m @ blocks x"
proof -
  obtain k where k: "length m = 64 * k" using assms by (auto simp: mod_eq_0_iff_dvd elim: dvdE)
  have d: "(64 * k + length x) div 64 = k + length x div 64" by simp
  have "blocks (m @ x) = map (\<lambda>i. take 64 (drop (64 * i) (m @ x))) ([0..<k] @ [k..<k + length x div 64])"
    by (simp only: blocks_def length_append k d upt_add_eq_append [OF le0])
  moreover have "map (\<lambda>i. take 64 (drop (64 * i) (m @ x))) [0..<k] = blocks m"
    by (auto simp: blocks_def k)
  moreover have "map (\<lambda>i. take 64 (drop (64 * i) (m @ x))) [k..<k + length x div 64] = blocks x"
    by (rule nth_equalityI) (auto simp: blocks_def k algebra_simps)
  ultimately show ?thesis by simp
qed

lemma blocks_one: "length b = 64 \<Longrightarrow> blocks b = [b]"
  by (simp add: blocks_def)

lemma blocks_short: "length b < 64 \<Longrightarrow> blocks b = []"
  by (simp add: blocks_def)

lemma rest_append_full: "length m mod 64 = 0 \<Longrightarrow> rest (m @ x) = rest x"
  by (auto simp: rest_def mod_eq_0_iff_dvd)

lemma concat_blocks_mod: "length (concat (blocks m)) mod 64 = 0"
proof -
  have "length (concat (blocks m)) + length m mod 64 = length m"
    using blocks_rest [of m] length_rest [of m] by (metis length_append)
  then show ?thesis by presburger
qed

text \<open>Appending to a message whose rest is \<open>r\<close> is appending to \<open>r\<close>.\<close>

lemma blocks_append: "blocks (m @ x) = blocks m @ blocks (rest m @ x)"
proof -
  have "m @ x = concat (blocks m) @ (rest m @ x)" using blocks_rest [of m] by simp
  then have "blocks (m @ x) = blocks (concat (blocks m)) @ blocks (rest m @ x)"
    using blocks_append_full [OF concat_blocks_mod] by metis
  moreover have "blocks m = blocks (concat (blocks m)) @ blocks (rest m)"
    using blocks_append_full [OF concat_blocks_mod, of m "rest m"] blocks_rest [of m] by simp
  ultimately show ?thesis using blocks_short [of "rest m"] length_rest [of m] by simp
qed

lemma rest_append: "rest (m @ x) = rest (rest m @ x)"
proof -
  have "m @ x = concat (blocks m) @ (rest m @ x)" using blocks_rest [of m] by simp
  then show ?thesis using rest_append_full [OF concat_blocks_mod] by metis
qed

lemma rest_short: "length b < 64 \<Longrightarrow> rest b = b"
  by (simp add: rest_def)


section \<open>The streaming interface computes the iterated compression\<close>

locale block_hash =
  fixes Hash :: "HASH_CTX \<Rightarrow> HASH_CTX"
    and compress :: "u32 list \<Rightarrow> bytes \<Rightarrow> u32 list"
    and iv :: "u32 list"
  assumes Hash_eq: "length (HashValue c) = length iv \<Longrightarrow> length (Block c) = 64 \<Longrightarrow>
      Hash c = c\<lparr>HashValue := compress (HashValue c) (Block c), Block := replicate 64 0, BlockLen := 0\<rparr>"
    and compress_length: "length h = length iv \<Longrightarrow> length b = 64 \<Longrightarrow> length (compress h b) = length iv"
begin

text \<open>The state of a context after the bytes \<open>m\<close>, without and with the length counter.\<close>

definition absorbed :: "HASH_CTX \<Rightarrow> bytes \<Rightarrow> bool" where
  "absorbed c m \<longleftrightarrow> HashValue c = foldl compress iv (blocks m) \<and>
     Block c = rest m @ replicate (64 - length (rest m)) 0 \<and> BlockLen c = of_nat (length (rest m))"

definition represents :: "HASH_CTX \<Rightarrow> bytes \<Rightarrow> bool" where
  "represents c m \<longleftrightarrow> absorbed c m \<and> MessageLen c = of_nat (length m)"

lemma foldl_compress_length:
  "length h = length iv \<Longrightarrow> list_all (\<lambda>b. length b = 64) bs \<Longrightarrow> length (foldl compress h bs) = length iv"
  by (induction bs arbitrary: h) (simp_all add: compress_length)

lemma blocks_length: "list_all (\<lambda>b. length b = 64) (blocks m)"
proof -
  have "64 \<le> length m - 64 * i" if "i < length m div 64" for i
  proof -
    have "64 * Suc i \<le> 64 * (length m div 64)" using that by (intro mult_le_mono2) simp
    also have "\<dots> \<le> length m" by (rule times_div_less_eq_dividend)
    finally show ?thesis by simp
  qed
  then show ?thesis by (auto simp: blocks_def list_all_iff min_def)
qed

lemma absorbed_lengths:
  assumes "absorbed c m"
  shows "length (HashValue c) = length iv" "length (Block c) = 64" "unat (BlockLen c) = length (rest m)"
    "length (rest m) < 64"
proof -
  show r: "length (rest m) < 64" by (simp add: length_rest)
  then show "length (HashValue c) = length iv" "length (Block c) = 64"
    using assms foldl_compress_length [OF refl blocks_length] by (simp_all add: absorbed_def)
  show "unat (BlockLen c) = length (rest m)"
    using assms r by (simp add: absorbed_def unat_of_nat)
qed

text \<open>A piece that stays inside the block, and one that fills it.\<close>

lemma absorb_short:
  assumes "absorbed c m" and "length (rest m) + length x < 64"
  shows "absorbed (c\<lparr>Block := rest m @ x @ replicate (64 - (length (rest m) + length x)) 0,
    BlockLen := of_nat (length (rest m) + length x)\<rparr>) (m @ x)"
  using assms by (simp add: absorbed_def blocks_append [of m] rest_append [of m] blocks_short rest_short)

lemma absorb_full:
  assumes "absorbed c m" and "length (rest m) + length x = 64"
  shows "absorbed (Hash (c\<lparr>Block := rest m @ x, BlockLen := l\<rparr>)) (m @ x)"
    and "MessageLen (Hash (c\<lparr>Block := rest m @ x, BlockLen := l\<rparr>)) = MessageLen c"
proof -
  have "Hash (c\<lparr>Block := rest m @ x, BlockLen := l\<rparr>) =
      c\<lparr>HashValue := compress (HashValue c) (rest m @ x), Block := replicate 64 0, BlockLen := 0\<rparr>"
    using absorbed_lengths [OF assms(1)] assms(2) by (subst Hash_eq) simp_all
  moreover have "rest (rest m @ x) = []" using assms(2) by (simp add: rest_def)
  ultimately show "absorbed (Hash (c\<lparr>Block := rest m @ x, BlockLen := l\<rparr>)) (m @ x)"
    and "MessageLen (Hash (c\<lparr>Block := rest m @ x, BlockLen := l\<rparr>)) = MessageLen c"
    using assms by (simp_all add: absorbed_def blocks_append [of m] rest_append [of m] blocks_one)
qed

lemma append_loop:
  assumes "absorbed c m" and "a \<le> len" and "unat len \<le> length Message" and "unat len + 64 \<le> 2 ^ 32"
  shows "\<exists>c'. hash_append_loop Hash Message len a c = Some c' \<and>
    absorbed c' (m @ take (unat len - unat a) (drop (unat a) Message)) \<and> MessageLen c' = MessageLen c"
  using assms(1,2)
proof (induction "unat len - unat a" arbitrary: a c m rule: less_induct)
  case less
  note L = absorbed_lengths [OF less.prems(1)]
  let ?r = "length (rest m)" and ?d = "len - a"
  have d: "unat ?d = unat len - unat a" using less.prems(2) by (rule unat_sub)
  have block: "Block c = rest m @ replicate (64 - ?r) 0" using less.prems(1) by (simp add: absorbed_def)
  show ?case
  proof (cases "a = len")
    case True
    then show ?thesis using less.prems(1) by (subst hash_append_loop.simps) simp
  next
    case False
    then have pos: "unat a < unat len"
      using less.prems(2) by (metis word_le_less_eq word_less_nat_alt)
    have sum: "unat (BlockLen c + ?d) = ?r + unat ?d"
      using L(3,4) d assms(4) by (subst unat_add_lem [THEN iffD1]) simp_all
    define x where "x = take (unat ?d) (drop (unat a) Message)"
    have lx: "length x = unat ?d" using assms(3) pos d by (simp add: x_def)
    show ?thesis
    proof (cases "BlockLen c + ?d < 64")
      case True
      then have short: "?r + length x < 64" using sum lx by (simp add: word_less_nat_alt)
      let ?c = "c\<lparr>Block := rest m @ x @ replicate (64 - (?r + length x)) 0, BlockLen := of_nat (?r + length x)\<rparr>"
      have mv: "move_memory (Block c) (unat (BlockLen c)) Message (unat a) (unat ?d)
          = Some (rest m @ x @ replicate (64 - (?r + length x)) 0)"
        using L short lx assms(3) d pos by (simp add: move_memory_def block) (simp add: x_def)
      have len: "BlockLen c + ?d = of_nat (?r + length x)"
        using arg_cong [OF sum, of "of_nat :: nat \<Rightarrow> u32"] lx by simp
      have "hash_append_loop Hash Message len a c = hash_append_loop Hash Message len len ?c"
        using False True mv len by (subst hash_append_loop.simps) (simp add: Let_def)
      also have "\<dots> = Some ?c" by (subst hash_append_loop.simps) simp
      finally show ?thesis
        using absorb_short [OF less.prems(1) short] d by (simp add: x_def)
    next
      case full: False
      define k where "k = 64 - BlockLen c"
      have k: "unat k = 64 - ?r" using L(3,4) by (simp add: k_def unat_sub word_le_nat_alt)
      have kd: "unat k \<le> unat ?d" using full sum k by (simp add: word_less_nat_alt)
      define y where "y = take (unat k) (drop (unat a) Message)"
      have ly: "?r + length y = 64" using assms(3) kd d k L(4) pos by (simp add: y_def)
      have mv: "move_memory (Block c) (unat (BlockLen c)) Message (unat a) (unat k) = Some (rest m @ y)"
      proof -
        have "unat a + unat k \<le> length Message" "?r + unat k = 64" using kd d pos assms(3) k L(4) by linarith+
        then show ?thesis using L by (simp add: move_memory_def block y_def)
      qed
      have ak: "unat (a + k) = unat a + unat k"
        using kd d pos assms(4) by (subst unat_add_lem [THEN iffD1]) simp_all
      let ?c = "Hash (c\<lparr>Block := rest m @ y, BlockLen := 64\<rparr>)"
      note f = absorb_full [OF less.prems(1) ly, of 64]
      have "\<exists>c'. hash_append_loop Hash Message len (a + k) ?c = Some c' \<and>
          absorbed c' ((m @ y) @ take (unat len - unat (a + k)) (drop (unat (a + k)) Message)) \<and>
          MessageLen c' = MessageLen ?c"
        using f(1) ak k kd d L(4) by (intro less.hyps) (auto simp: word_le_nat_alt)
      moreover have "y @ take (unat len - unat (a + k)) (drop (unat (a + k)) Message)
          = take (unat len - unat a) (drop (unat a) Message)"
        using kd d unfolding ak y_def
        by (metis (no_types, lifting) add.commute diff_diff_left drop_drop le_add_diff_inverse take_add)
      moreover have "hash_append_loop Hash Message len a c = hash_append_loop Hash Message len (a + k) ?c"
        using False full mv by (subst hash_append_loop.simps) (simp add: Let_def k_def)
      ultimately show ?thesis using f(2) by simp
    qed
  qed
qed

lemma append_represents:
  assumes "represents c m" and "length x + 64 \<le> 2 ^ 32"
  shows "\<exists>c'. hash_append Hash x (of_nat (length x)) c = Some c' \<and> represents c' (m @ x)"
proof -
  have len: "unat (of_nat (length x) :: u32) = length x" using assms(2) by (simp add: unat_of_nat)
  obtain c' where "hash_append_loop Hash x (of_nat (length x)) 0 c = Some c'" "absorbed c' (m @ x)"
      "MessageLen c' = MessageLen c"
    using append_loop [of c m 0 "of_nat (length x)" x] assms len by (auto simp: represents_def)
  moreover have "(ucast (of_nat (length x) :: u32) :: u64) = of_nat (length x)"
    using of_nat_unat [of "of_nat (length x) :: u32", where 'a = u64] len by simp
  ultimately show ?thesis
    using assms(1) by (auto simp: hash_append_def represents_def absorbed_def)
qed

text \<open>
  The end of the message: the padded message has one or two blocks more than the message. \<open>zeros\<close>
  fill the block after the byte 0x80.
\<close>

lemma blocks_padded:
  assumes "length (cpu64 (of_nat (length m) * 8)) = 8"
  shows "blocks (padded cpu64 m) =
    blocks m @ (if length (rest m) \<le> 55
      then [rest m @ [0x80] @ replicate (55 - length (rest m)) 0 @ cpu64 (of_nat (length m) * 8)]
      else [rest m @ [0x80] @ replicate (63 - length (rest m)) 0,
            replicate 56 0 @ cpu64 (of_nat (length m) * 8)])"
proof -
  let ?r = "length (rest m)" and ?l = "cpu64 (of_nat (length m) * 8)"
  have r: "?r < 64" "?r = length m mod 64" by (simp_all add: length_rest)
  show ?thesis
  proof (cases "?r \<le> 55")
    case True
    then have "119 - ?r = (55 - ?r) + 64" by simp
    then have "(119 - ?r) mod 64 = 55 - ?r" by (simp only: mod_add_self2) simp
    then have "blocks (padded cpu64 m) = blocks m @ blocks (rest m @ [0x80] @ replicate (55 - ?r) 0 @ ?l)"
      using blocks_append [of m "[0x80] @ replicate (55 - ?r) 0 @ ?l"] r(2) by (simp add: padded_def)
    then show ?thesis using True assms by (simp add: blocks_one)
  next
    case False
    let ?x = "rest m @ [0x80] @ replicate (63 - ?r) 0" and ?y = "replicate 56 0 @ ?l"
    have "(119 - ?r) mod 64 = (63 - ?r) + 56" using False r by simp
    then have "padded cpu64 m = m @ ([0x80] @ replicate (63 - ?r) 0 @ ?y)"
      by (simp only: padded_def r(2) [symmetric] replicate_add append_assoc)
    then have "blocks (padded cpu64 m) = blocks m @ blocks (?x @ ?y)"
      by (simp only: blocks_append [of m] append_assoc)
    moreover have "blocks (?x @ ?y) = blocks ?x @ blocks ?y"
      using False r by (intro blocks_append_full) simp
    ultimately show ?thesis using False r assms by (simp add: blocks_one)
  qed
qed

lemma end_represents:
  assumes "represents c m" and "\<And>w. length (cpu64 w) = 8"
  shows "hash_end Hash cpu64 cpu32 c =
    Some (concat (map cpu32 (foldl compress iv (blocks (padded cpu64 m)))))"
proof -
  have a: "absorbed c m" using assms(1) by (simp add: represents_def)
  note L = absorbed_lengths [OF a]
  let ?r = "length (rest m)" and ?l = "cpu64 (of_nat (length m) * 8)"
  have block: "Block c = rest m @ replicate (64 - ?r) 0"
    and h: "HashValue c = foldl compress iv (blocks m)" and ml: "MessageLen c = of_nat (length m)"
    using a assms(1) by (simp_all add: absorbed_def represents_def)
  let ?b = "rest m @ [0x80] @ replicate (63 - ?r) 0"
  have mv: "move_memory (Block c) (unat (BlockLen c)) [0x80] 0 1 = Some ?b"
    using L by (simp add: move_memory_def block)
  have hl: "length (foldl compress iv (blocks m)) = length iv"
    by (intro foldl_compress_length blocks_length refl)
  have cmp: "BlockLen c > 55 \<longleftrightarrow> \<not> ?r \<le> 55" using L(3) by (auto simp: word_less_nat_alt)
  have H: "Hash (c\<lparr>Block := b\<rparr>) = c\<lparr>HashValue := compress (HashValue c) b, Block := replicate 64 0, BlockLen := 0\<rparr>"
    if "length b = 64" for b
    using that h hl by (subst Hash_eq) simp_all
  show ?thesis
  proof (cases "?r \<le> 55")
    case True
    have "56 - ?r = Suc (55 - ?r)" using True by simp
    then have "move_memory ?b 56 ?l 0 8 = Some (rest m @ [0x80] @ replicate (55 - ?r) 0 @ ?l)"
      using True assms(2) by (simp add: move_memory_def min_def)
    then show ?thesis
      using True mv cmp ml h H L(4) assms(2)
      by (simp add: hash_end_def Let_def blocks_padded)
  next
    case False
    let ?c = "c\<lparr>HashValue := compress (HashValue c) ?b, Block := replicate 64 0, BlockLen := 0\<rparr>"
    have hb: "Hash (c\<lparr>Block := ?b\<rparr>) = ?c" using L(4) by (intro H) simp
    have "move_memory (replicate 64 0) 56 ?l 0 8 = Some (replicate 56 0 @ ?l)"
      using assms(2) by (simp add: move_memory_def min_def)
    moreover have "Hash (?c\<lparr>Block := replicate 56 0 @ ?l\<rparr>) =
        ?c\<lparr>HashValue := compress (HashValue ?c) (replicate 56 0 @ ?l), Block := replicate 64 0, BlockLen := 0\<rparr>"
      using h hl assms(2) L(4) by (subst Hash_eq) (simp_all add: compress_length)
    ultimately show ?thesis
      using False mv cmp ml h hb assms(2)
      by (simp add: hash_end_def Let_def blocks_padded)
  qed
qed

lemma init_represents: "represents (hash_init iv c) []"
  by (simp add: represents_def absorbed_def hash_init_def blocks_def rest_def)

lemma pieces_represent:
  assumes "represents c m" and "list_all (\<lambda>x. length x + 64 \<le> 2 ^ 32) xs"
  shows "\<exists>c'. hash_pieces (hash_append Hash) xs c = Some c' \<and> represents c' (m @ concat xs)"
  using assms
proof (induction xs arbitrary: c m)
  case (Cons x xs)
  then obtain c1 where "hash_append Hash x (of_nat (length x)) c = Some c1" "represents c1 (m @ x)"
    using append_represents [of c m x] by auto
  then show ?case using Cons.IH [of c1 "m @ x"] Cons.prems(2) by simp
qed simp

text \<open>The hash of a message in pieces, and in one call.\<close>

lemma hash_of_pieces:
  assumes "list_all (\<lambda>x. length x + 64 \<le> 2 ^ 32) xs" and "\<And>w. length (cpu64 w) = 8"
  shows "Option.bind (hash_pieces (hash_append Hash) xs (hash_init iv c)) (hash_end Hash cpu64 cpu32)
    = Some (concat (map cpu32 (foldl compress iv (blocks (padded cpu64 (concat xs))))))"
proof -
  obtain c' where "hash_pieces (hash_append Hash) xs (hash_init iv c) = Some c'" "represents c' (concat xs)"
    using pieces_represent [OF init_represents assms(1), of c] by auto
  then show ?thesis using end_represents [of c' _ cpu64 cpu32, OF _ assms(2)] by simp
qed

lemma hash_in_one_call:
  assumes "length m + 64 \<le> 2 ^ 32" and "\<And>w. length (cpu64 w) = 8"
  shows "Option.bind (hash_append Hash m (of_nat (length m)) (hash_init iv c)) (hash_end Hash cpu64 cpu32)
    = Some (concat (map cpu32 (foldl compress iv (blocks (padded cpu64 m)))))"
  using hash_of_pieces [of "[m]" cpu64 c cpu32] assms
  by (cases "hash_append Hash m (of_nat (length m)) (hash_init iv c)") simp_all

end

end
