(* ===== verification/Crypt_MD5.thy ===== *)
theory Crypt_MD5
  imports Hash_Stream
begin

text \<open>
  MD5 (\<open>rt5370.driver/common/crypt_md5.c\<close>): the block function over the shared streaming code, and
  its equality with the iterated compression of the padded message.
\<close>

section \<open>The block function\<close>

definition MD5_F :: "u32 \<Rightarrow> u32 \<Rightarrow> u32 \<Rightarrow> u32" where "MD5_F x y z = (x AND y) OR (NOT x AND z)"
definition MD5_G :: "u32 \<Rightarrow> u32 \<Rightarrow> u32 \<Rightarrow> u32" where "MD5_G x y z = (x AND z) OR (y AND NOT z)"
definition MD5_H :: "u32 \<Rightarrow> u32 \<Rightarrow> u32 \<Rightarrow> u32" where "MD5_H x y z = x XOR y XOR z"
definition MD5_I :: "u32 \<Rightarrow> u32 \<Rightarrow> u32 \<Rightarrow> u32" where "MD5_I x y z = y XOR (x OR NOT z)"

text \<open>The body of the macros \<open>ROUND1\<close> to \<open>ROUND4\<close>: the new value of the first register.\<close>

definition MD5_ROUND ::
  "(u32 \<Rightarrow> u32 \<Rightarrow> u32 \<Rightarrow> u32) \<Rightarrow> u32 \<Rightarrow> u32 \<Rightarrow> u32 \<Rightarrow> u32 \<Rightarrow> u32 \<Rightarrow> nat \<Rightarrow> u32 \<Rightarrow> u32" where
  "MD5_ROUND f a b c d x s ac = ROTL32 (a + (f b c d + x + ac)) s + b"

text \<open>
  The sixteen calls of each round, as (index of the word, rotation, constant). The registers are
  called in the order (a, b, c, d), (d, a, b, c), (c, d, a, b), (b, c, d, a) and so on: after a call
  the registers are handed to the next one rotated by one, and stand in place after sixteen calls.
\<close>

definition MD5_ROUND1 :: "(nat \<times> nat \<times> u32) list" where
  "MD5_ROUND1 =
     [(0, 7, 0xd76aa478), (1, 12, 0xe8c7b756), (2, 17, 0x242070db), (3, 22, 0xc1bdceee),
      (4, 7, 0xf57c0faf), (5, 12, 0x4787c62a), (6, 17, 0xa8304613), (7, 22, 0xfd469501),
      (8, 7, 0x698098d8), (9, 12, 0x8b44f7af), (10, 17, 0xffff5bb1), (11, 22, 0x895cd7be),
      (12, 7, 0x6b901122), (13, 12, 0xfd987193), (14, 17, 0xa679438e), (15, 22, 0x49b40821)]"

definition MD5_ROUND2 :: "(nat \<times> nat \<times> u32) list" where
  "MD5_ROUND2 =
     [(1, 5, 0xf61e2562), (6, 9, 0xc040b340), (11, 14, 0x265e5a51), (0, 20, 0xe9b6c7aa),
      (5, 5, 0xd62f105d), (10, 9, 0x2441453), (15, 14, 0xd8a1e681), (4, 20, 0xe7d3fbc8),
      (9, 5, 0x21e1cde6), (14, 9, 0xc33707d6), (3, 14, 0xf4d50d87), (8, 20, 0x455a14ed),
      (13, 5, 0xa9e3e905), (2, 9, 0xfcefa3f8), (7, 14, 0x676f02d9), (12, 20, 0x8d2a4c8a)]"

definition MD5_ROUND3 :: "(nat \<times> nat \<times> u32) list" where
  "MD5_ROUND3 =
     [(5, 4, 0xfffa3942), (8, 11, 0x8771f681), (11, 16, 0x6d9d6122), (14, 23, 0xfde5380c),
      (1, 4, 0xa4beea44), (4, 11, 0x4bdecfa9), (7, 16, 0xf6bb4b60), (10, 23, 0xbebfbc70),
      (13, 4, 0x289b7ec6), (0, 11, 0xeaa127fa), (3, 16, 0xd4ef3085), (6, 23, 0x4881d05),
      (9, 4, 0xd9d4d039), (12, 11, 0xe6db99e5), (15, 16, 0x1fa27cf8), (2, 23, 0xc4ac5665)]"

definition MD5_ROUND4 :: "(nat \<times> nat \<times> u32) list" where
  "MD5_ROUND4 =
     [(0, 6, 0xf4292244), (7, 10, 0x432aff97), (14, 15, 0xab9423a7), (5, 21, 0xfc93a039),
      (12, 6, 0x655b59c3), (3, 10, 0x8f0ccc92), (10, 15, 0xffeff47d), (1, 21, 0x85845dd1),
      (8, 6, 0x6fa87e4f), (15, 10, 0xfe2ce6e0), (6, 15, 0xa3014314), (13, 21, 0x4e0811a1),
      (4, 6, 0xf7537e82), (11, 10, 0xbd3af235), (2, 15, 0x2ad7d2bb), (9, 21, 0xeb86d391)]"

type_synonym md5_regs = "u32 \<times> u32 \<times> u32 \<times> u32"

definition md5_call ::
  "(u32 \<Rightarrow> u32 \<Rightarrow> u32 \<Rightarrow> u32) \<Rightarrow> u32 list \<Rightarrow> md5_regs \<Rightarrow> nat \<times> nat \<times> u32 \<Rightarrow> md5_regs" where
  "md5_call f X r call =
     (case r of (a, b, c, d) \<Rightarrow> case call of (k, s, ac) \<Rightarrow> (d, MD5_ROUND f a b c d (X ! k) s ac, b, c))"

definition md5_round ::
  "(u32 \<Rightarrow> u32 \<Rightarrow> u32 \<Rightarrow> u32) \<Rightarrow> u32 list \<Rightarrow> (nat \<times> nat \<times> u32) list \<Rightarrow> md5_regs \<Rightarrow> md5_regs" where
  "md5_round f X calls r = foldl (md5_call f X) r calls"

definition md5_compress :: "u32 list \<Rightarrow> bytes \<Rightarrow> u32 list" where
  "md5_compress H block =
     (let X = block_words le32 block;
          r0 = (H ! 0, H ! 1, H ! 2, H ! 3);
          r1 = md5_round MD5_F X MD5_ROUND1 r0;
          r2 = md5_round MD5_G X MD5_ROUND2 r1;
          r3 = md5_round MD5_H X MD5_ROUND3 r2;
          (a, b, c, d) = md5_round MD5_I X MD5_ROUND4 r3
      in [H ! 0 + a, H ! 1 + b, H ! 2 + c, H ! 3 + d])"

definition RT_MD5_Hash :: "HASH_CTX \<Rightarrow> HASH_CTX" where
  "RT_MD5_Hash ctx = ctx\<lparr>HashValue := md5_compress (HashValue ctx) (Block ctx), Block := replicate 64 0, BlockLen := 0\<rparr>"

section \<open>The interface\<close>

definition MD5_DefaultHashValue :: "u32 list" where
  "MD5_DefaultHashValue = [0x67452301, 0xefcdab89, 0x98badcfe, 0x10325476]"

definition RT_MD5_Init :: "HASH_CTX \<Rightarrow> HASH_CTX" where
  "RT_MD5_Init = hash_init MD5_DefaultHashValue"

definition RT_MD5_Append :: "bytes \<Rightarrow> u32 \<Rightarrow> HASH_CTX \<Rightarrow> HASH_CTX option" where
  "RT_MD5_Append = hash_append RT_MD5_Hash"

definition RT_MD5_End :: "HASH_CTX \<Rightarrow> bytes option" where
  "RT_MD5_End = hash_end RT_MD5_Hash bytes_le64 bytes_le32"

definition RT_MD5 :: "bytes \<Rightarrow> u32 \<Rightarrow> bytes option" where
  "RT_MD5 Message len = Option.bind (RT_MD5_Append Message len (RT_MD5_Init (zero_ctx 4))) RT_MD5_End"

section \<open>Correctness\<close>

interpretation md5: block_hash RT_MD5_Hash md5_compress MD5_DefaultHashValue
  by unfold_locales (simp_all add: RT_MD5_Hash_def md5_compress_def MD5_DefaultHashValue_def Let_def split_beta)

definition md5_digest :: "bytes \<Rightarrow> bytes" where
  "md5_digest m = concat (map bytes_le32 (foldl md5_compress MD5_DefaultHashValue (blocks (padded bytes_le64 m))))"

text \<open>
  The MD5 of a message, computed in one call or by appending it in pieces of any sizes below
  the limit of the 32-bit length arithmetic, is the iterated compression of the message padded with
  a one bit, zeros and its length in bits, and depends only on the message; no copy leaves the block
  buffer and every loop ends.
\<close>

theorem RT_MD5_correct:
  assumes "list_all (\<lambda>x. length x + 64 \<le> 2 ^ 32) xs" and "length m + 64 \<le> 2 ^ 32"
  shows "Option.bind (hash_pieces RT_MD5_Append xs (RT_MD5_Init c)) RT_MD5_End = Some (md5_digest (concat xs)) \<and>
    RT_MD5 m (of_nat (length m)) = Some (md5_digest m)"
  unfolding RT_MD5_def RT_MD5_Append_def RT_MD5_Init_def RT_MD5_End_def md5_digest_def
  using md5.hash_of_pieces [OF assms(1), of bytes_le64 c bytes_le32]
    md5.hash_in_one_call [OF assms(2), of bytes_le64 "zero_ctx 4" bytes_le32] by simp

theorem RT_MD5_correct_witness:
  "RT_MD5 [97, 98, 99] 3 = Some [0x90, 0x01, 0x50, 0x98, 0x3c, 0xd2, 0x4f, 0xb0,
                                 0xd6, 0x96, 0x3f, 0x7d, 0x28, 0xe1, 0x7f, 0x72]"
proof -
  have "md5_digest [97, 98, 99] = [0x90, 0x01, 0x50, 0x98, 0x3c, 0xd2, 0x4f, 0xb0,
                                   0xd6, 0x96, 0x3f, 0x7d, 0x28, 0xe1, 0x7f, 0x72]"
    by code_simp
  then show ?thesis using RT_MD5_correct [of "[]" "[97, 98, 99]"] by simp
qed

end
