(* ===== verification/Crypt_SHA2.thy ===== *)
theory Crypt_SHA2
  imports Hash_Stream
begin

text \<open>
  SHA-1 and SHA-256 (\<open>rt5370.driver/common/crypt_sha2.c\<close>): the two block functions over the shared
  streaming code, and their equality with the iterated compression of the padded message.
\<close>

section \<open>Basic functions\<close>

definition Ch :: "u32 \<Rightarrow> u32 \<Rightarrow> u32 \<Rightarrow> u32" where "Ch x y z = (x AND y) XOR (NOT x AND z)"
definition Maj :: "u32 \<Rightarrow> u32 \<Rightarrow> u32 \<Rightarrow> u32" where "Maj x y z = (x AND y) XOR (x AND z) XOR (y AND z)"
definition Parity :: "u32 \<Rightarrow> u32 \<Rightarrow> u32 \<Rightarrow> u32" where "Parity x y z = x XOR y XOR z"

definition Zsigma_256_0 :: "u32 \<Rightarrow> u32" where
  "Zsigma_256_0 x = ROTR32 x 2 XOR ROTR32 x 13 XOR ROTR32 x 22"
definition Zsigma_256_1 :: "u32 \<Rightarrow> u32" where
  "Zsigma_256_1 x = ROTR32 x 6 XOR ROTR32 x 11 XOR ROTR32 x 25"
definition Sigma_256_0 :: "u32 \<Rightarrow> u32" where
  "Sigma_256_0 x = ROTR32 x 7 XOR ROTR32 x 18 XOR drop_bit 3 x"
definition Sigma_256_1 :: "u32 \<Rightarrow> u32" where
  "Sigma_256_1 x = ROTR32 x 17 XOR ROTR32 x 19 XOR drop_bit 10 x"

section \<open>SHA-1\<close>

definition SHA1_K :: "u32 list" where
  "SHA1_K = [0x5a827999, 0x6ed9eba1, 0x8f1bbcdc, 0xca62c1d6]"

definition SHA1_DefaultHashValue :: "u32 list" where
  "SHA1_DefaultHashValue = [0x67452301, 0xefcdab89, 0x98badcfe, 0x10325476, 0xc3d2e1f0]"

text \<open>The message schedule: sixteen words of the block, extended to eighty.\<close>

definition sha1_schedule :: "bytes \<Rightarrow> u32 list" where
  "sha1_schedule block =
     foldl (\<lambda>W i. W @ [ROTL32 (W ! (i - 3) XOR W ! (i - 8) XOR W ! (i - 14) XOR W ! (i - 16)) 1])
       (block_words be32 block) [16..<80]"

type_synonym sha1_regs = "u32 \<times> u32 \<times> u32 \<times> u32 \<times> u32"

text \<open>The body of the four loops over the rounds, which differ in the function and the constant.\<close>

definition sha1_round :: "(u32 \<Rightarrow> u32 \<Rightarrow> u32 \<Rightarrow> u32) \<Rightarrow> u32 \<Rightarrow> u32 list \<Rightarrow> sha1_regs \<Rightarrow> nat \<Rightarrow> sha1_regs" where
  "sha1_round f K W r t =
     (case r of (a, b, c, d, e) \<Rightarrow> (ROTL32 a 5 + f b c d + e + K + W ! t, a, ROTL32 b 30, c, d))"

definition sha1_compress :: "u32 list \<Rightarrow> bytes \<Rightarrow> u32 list" where
  "sha1_compress H block =
     (let W = sha1_schedule block;
          r0 = (H ! 0, H ! 1, H ! 2, H ! 3, H ! 4);
          r1 = foldl (sha1_round Ch (SHA1_K ! 0) W) r0 [0..<20];
          r2 = foldl (sha1_round Parity (SHA1_K ! 1) W) r1 [20..<40];
          r3 = foldl (sha1_round Maj (SHA1_K ! 2) W) r2 [40..<60];
          (a, b, c, d, e) = foldl (sha1_round Parity (SHA1_K ! 3) W) r3 [60..<80]
      in [H ! 0 + a, H ! 1 + b, H ! 2 + c, H ! 3 + d, H ! 4 + e])"

definition RT_SHA1_Hash :: "HASH_CTX \<Rightarrow> HASH_CTX" where
  "RT_SHA1_Hash ctx = ctx\<lparr>HashValue := sha1_compress (HashValue ctx) (Block ctx), Block := replicate 64 0, BlockLen := 0\<rparr>"

definition RT_SHA1_Init :: "HASH_CTX \<Rightarrow> HASH_CTX" where
  "RT_SHA1_Init = hash_init SHA1_DefaultHashValue"

definition RT_SHA1_Append :: "bytes \<Rightarrow> u32 \<Rightarrow> HASH_CTX \<Rightarrow> HASH_CTX option" where
  "RT_SHA1_Append = hash_append RT_SHA1_Hash"

definition RT_SHA1_End :: "HASH_CTX \<Rightarrow> bytes option" where
  "RT_SHA1_End = hash_end RT_SHA1_Hash bytes_be64 bytes_be32"

definition RT_SHA1 :: "bytes \<Rightarrow> u32 \<Rightarrow> bytes option" where
  "RT_SHA1 Message len = Option.bind (RT_SHA1_Append Message len (RT_SHA1_Init (zero_ctx 5))) RT_SHA1_End"

section \<open>SHA-256\<close>

text \<open>The round constants, in the sixteen rows of the source.\<close>

definition SHA256_K :: "u32 list" where
  "SHA256_K = concat
     [[0x428a2f98, 0x71374491, 0xb5c0fbcf, 0xe9b5dba5],
      [0x3956c25b, 0x59f111f1, 0x923f82a4, 0xab1c5ed5],
      [0xd807aa98, 0x12835b01, 0x243185be, 0x550c7dc3],
      [0x72be5d74, 0x80deb1fe, 0x9bdc06a7, 0xc19bf174],
      [0xe49b69c1, 0xefbe4786, 0x0fc19dc6, 0x240ca1cc],
      [0x2de92c6f, 0x4a7484aa, 0x5cb0a9dc, 0x76f988da],
      [0x983e5152, 0xa831c66d, 0xb00327c8, 0xbf597fc7],
      [0xc6e00bf3, 0xd5a79147, 0x06ca6351, 0x14292967],
      [0x27b70a85, 0x2e1b2138, 0x4d2c6dfc, 0x53380d13],
      [0x650a7354, 0x766a0abb, 0x81c2c92e, 0x92722c85],
      [0xa2bfe8a1, 0xa81a664b, 0xc24b8b70, 0xc76c51a3],
      [0xd192e819, 0xd6990624, 0xf40e3585, 0x106aa070],
      [0x19a4c116, 0x1e376c08, 0x2748774c, 0x34b0bcb5],
      [0x391c0cb3, 0x4ed8aa4a, 0x5b9cca4f, 0x682e6ff3],
      [0x748f82ee, 0x78a5636f, 0x84c87814, 0x8cc70208],
      [0x90befffa, 0xa4506ceb, 0xbef9a3f7, 0xc67178f2]]"

definition SHA256_DefaultHashValue :: "u32 list" where
  "SHA256_DefaultHashValue =
     [0x6a09e667, 0xbb67ae85, 0x3c6ef372, 0xa54ff53a, 0x510e527f, 0x9b05688c,
      0x1f83d9ab, 0x5be0cd19]"

type_synonym sha256_regs = "u32 \<times> u32 \<times> u32 \<times> u32 \<times> u32 \<times> u32 \<times> u32 \<times> u32"

text \<open>One round, which first extends the message schedule where needed.\<close>

definition sha256_round :: "u32 list \<times> sha256_regs \<Rightarrow> nat \<Rightarrow> u32 list \<times> sha256_regs" where
  "sha256_round st t =
     (case st of (W0, a, b, c, d, e, f, g, h) \<Rightarrow>
       let W = (if t > 15
                then W0 @ [Sigma_256_1 (W0 ! (t - 2)) + W0 ! (t - 7) + Sigma_256_0 (W0 ! (t - 15)) + W0 ! (t - 16)]
                else W0);
           T1 = h + Zsigma_256_1 e + Ch e f g + SHA256_K ! t + W ! t;
           T2 = Zsigma_256_0 a + Maj a b c
       in (W, T1 + T2, a, b, c, d + T1, e, f, g))"

definition sha256_compress :: "u32 list \<Rightarrow> bytes \<Rightarrow> u32 list" where
  "sha256_compress H block =
     (let (W, a, b, c, d, e, f, g, h) =
            foldl sha256_round
              (block_words be32 block, H ! 0, H ! 1, H ! 2, H ! 3, H ! 4, H ! 5, H ! 6, H ! 7) [0..<64]
      in [H ! 0 + a, H ! 1 + b, H ! 2 + c, H ! 3 + d, H ! 4 + e, H ! 5 + f, H ! 6 + g, H ! 7 + h])"

definition RT_SHA256_Hash :: "HASH_CTX \<Rightarrow> HASH_CTX" where
  "RT_SHA256_Hash ctx =
     ctx\<lparr>HashValue := sha256_compress (HashValue ctx) (Block ctx), Block := replicate 64 0, BlockLen := 0\<rparr>"

definition RT_SHA256_Init :: "HASH_CTX \<Rightarrow> HASH_CTX" where
  "RT_SHA256_Init = hash_init SHA256_DefaultHashValue"

definition RT_SHA256_Append :: "bytes \<Rightarrow> u32 \<Rightarrow> HASH_CTX \<Rightarrow> HASH_CTX option" where
  "RT_SHA256_Append = hash_append RT_SHA256_Hash"

definition RT_SHA256_End :: "HASH_CTX \<Rightarrow> bytes option" where
  "RT_SHA256_End = hash_end RT_SHA256_Hash bytes_be64 bytes_be32"

definition RT_SHA256 :: "bytes \<Rightarrow> u32 \<Rightarrow> bytes option" where
  "RT_SHA256 Message len =
     Option.bind (RT_SHA256_Append Message len (RT_SHA256_Init (zero_ctx 8))) RT_SHA256_End"

section \<open>Correctness\<close>

interpretation sha1: block_hash RT_SHA1_Hash sha1_compress SHA1_DefaultHashValue
  by unfold_locales (simp_all add: RT_SHA1_Hash_def sha1_compress_def SHA1_DefaultHashValue_def Let_def split_beta)

interpretation sha256: block_hash RT_SHA256_Hash sha256_compress SHA256_DefaultHashValue
  by unfold_locales
    (simp_all add: RT_SHA256_Hash_def sha256_compress_def SHA256_DefaultHashValue_def Let_def split_beta)

definition sha1_digest :: "bytes \<Rightarrow> bytes" where
  "sha1_digest m = concat (map bytes_be32 (foldl sha1_compress SHA1_DefaultHashValue (blocks (padded bytes_be64 m))))"

definition sha256_digest :: "bytes \<Rightarrow> bytes" where
  "sha256_digest m =
     concat (map bytes_be32 (foldl sha256_compress SHA256_DefaultHashValue (blocks (padded bytes_be64 m))))"

text \<open>
  The SHA-1 of a message, computed in one call or by appending it in pieces, is the iterated
  compression of the padded message and depends only on the message.
\<close>

theorem RT_SHA1_correct:
  assumes "list_all (\<lambda>x. length x + 64 \<le> 2 ^ 32) xs" and "length m + 64 \<le> 2 ^ 32"
  shows "Option.bind (hash_pieces RT_SHA1_Append xs (RT_SHA1_Init c)) RT_SHA1_End = Some (sha1_digest (concat xs)) \<and>
    RT_SHA1 m (of_nat (length m)) = Some (sha1_digest m)"
  unfolding RT_SHA1_def RT_SHA1_Append_def RT_SHA1_Init_def RT_SHA1_End_def sha1_digest_def
  using sha1.hash_of_pieces [OF assms(1), of bytes_be64 c bytes_be32]
    sha1.hash_in_one_call [OF assms(2), of bytes_be64 "zero_ctx 5" bytes_be32] by simp

text \<open>
  The SHA-256 of a message, computed in one call or by appending it in pieces, is the iterated
  compression of the padded message and depends only on the message.
\<close>

theorem RT_SHA256_correct:
  assumes "list_all (\<lambda>x. length x + 64 \<le> 2 ^ 32) xs" and "length m + 64 \<le> 2 ^ 32"
  shows "Option.bind (hash_pieces RT_SHA256_Append xs (RT_SHA256_Init c)) RT_SHA256_End
      = Some (sha256_digest (concat xs)) \<and>
    RT_SHA256 m (of_nat (length m)) = Some (sha256_digest m)"
  unfolding RT_SHA256_def RT_SHA256_Append_def RT_SHA256_Init_def RT_SHA256_End_def sha256_digest_def
  using sha256.hash_of_pieces [OF assms(1), of bytes_be64 c bytes_be32]
    sha256.hash_in_one_call [OF assms(2), of bytes_be64 "zero_ctx 8" bytes_be32] by simp

theorem RT_SHA1_correct_witness:
  "RT_SHA1 [97, 98, 99] 3 =
     Option.bind (hash_pieces RT_SHA1_Append [[97, 98], [99]] (RT_SHA1_Init (zero_ctx 5))) RT_SHA1_End"
  using RT_SHA1_correct [of "[[97, 98], [99]]" "[97, 98, 99]" "zero_ctx 5"] by simp

theorem RT_SHA256_correct_witness:
  "RT_SHA256 [97, 98, 99] 3 =
     Option.bind (hash_pieces RT_SHA256_Append [[97], [], [98, 99]] (RT_SHA256_Init (zero_ctx 8))) RT_SHA256_End"
  using RT_SHA256_correct [of "[[97], [], [98, 99]]" "[97, 98, 99]" "zero_ctx 8"] by simp

end
