(* ===== verification/Crypt_HMAC.thy ===== *)
theory Crypt_HMAC
  imports Crypt_MD5 Crypt_SHA2
begin

text \<open>
  HMAC over SHA-1, SHA-256 and MD5 (\<open>rt5370.driver/common/crypt_hmac.c\<close>). The three functions are
  the same code over the interface of their hash; the locale \<open>hash_interface\<close> states what they rely
  on, and is interpreted by the three hash functions.
\<close>

section \<open>The three functions\<close>

text \<open>
  The block \<open>K0\<close>: the key, or the digest of a longer one, in a block of zeros. The copies of the
  source go into \<open>K0\<close> and \<open>MAC\<close>; the digest of the key fits, since it is written by the hash.
\<close>

definition hmac_K0 :: "(bytes \<Rightarrow> u32 \<Rightarrow> bytes option) \<Rightarrow> bytes \<Rightarrow> u32 \<Rightarrow> bytes option" where
  "hmac_K0 hash Key KeyLen =
     (if KeyLen \<le> 64 then move_memory (replicate 64 0) 0 Key 0 (unat KeyLen)
      else Option.bind (hash Key KeyLen) (\<lambda>h. move_memory (replicate 64 0) 0 h 0 (length h)))"

definition hmac ::
  "HASH_CTX \<Rightarrow> (HASH_CTX \<Rightarrow> HASH_CTX) \<Rightarrow> (bytes \<Rightarrow> u32 \<Rightarrow> HASH_CTX \<Rightarrow> HASH_CTX option) \<Rightarrow> (HASH_CTX \<Rightarrow> bytes option) \<Rightarrow>
   (bytes \<Rightarrow> u32 \<Rightarrow> bytes option) \<Rightarrow> u32 \<Rightarrow> bytes \<Rightarrow> u32 \<Rightarrow> bytes \<Rightarrow> u32 \<Rightarrow> u32 \<Rightarrow> bytes option" where
  "hmac ctx hinit happend hend hash dsize Key KeyLen Message len MACLen =
     Option.bind (hmac_K0 hash Key KeyLen) (\<lambda>K0.
       let K1 = map (\<lambda>k. k XOR 0x36) K0 in
       Option.bind (happend K1 64 (hinit ctx)) (\<lambda>c1.
       Option.bind (happend Message len c1) (\<lambda>c2.
       Option.bind (hend c2) (\<lambda>Digest.
       let K2 = map (\<lambda>k. k XOR (0x36 XOR 0x5c)) K1 in
       Option.bind (happend K2 64 (hinit ctx)) (\<lambda>c3.
       Option.bind (happend Digest dsize c3) (\<lambda>c4.
       Option.bind (hend c4) (\<lambda>Digest2.
         Some (take (unat (if MACLen > dsize then dsize else MACLen)) Digest2))))))))"

definition RT_HMAC_SHA1 :: "bytes \<Rightarrow> u32 \<Rightarrow> bytes \<Rightarrow> u32 \<Rightarrow> u32 \<Rightarrow> bytes option" where
  "RT_HMAC_SHA1 = hmac (zero_ctx 5) RT_SHA1_Init RT_SHA1_Append RT_SHA1_End RT_SHA1 20"

definition RT_HMAC_SHA256 :: "bytes \<Rightarrow> u32 \<Rightarrow> bytes \<Rightarrow> u32 \<Rightarrow> u32 \<Rightarrow> bytes option" where
  "RT_HMAC_SHA256 = hmac (zero_ctx 8) RT_SHA256_Init RT_SHA256_Append RT_SHA256_End RT_SHA256 32"

definition RT_HMAC_MD5 :: "bytes \<Rightarrow> u32 \<Rightarrow> bytes \<Rightarrow> u32 \<Rightarrow> u32 \<Rightarrow> bytes option" where
  "RT_HMAC_MD5 = hmac (zero_ctx 4) RT_MD5_Init RT_MD5_Append RT_MD5_End RT_MD5 16"

section \<open>Specification\<close>

definition hmac_key :: "(bytes \<Rightarrow> bytes) \<Rightarrow> bytes \<Rightarrow> bytes" where
  "hmac_key H K = (let k = (if length K \<le> 64 then K else H K) in k @ replicate (64 - length k) 0)"

definition hmac_spec :: "(bytes \<Rightarrow> bytes) \<Rightarrow> bytes \<Rightarrow> bytes \<Rightarrow> bytes" where
  "hmac_spec H K m =
     H (map (\<lambda>k. k XOR 0x5c) (hmac_key H K) @ H (map (\<lambda>k. k XOR 0x36) (hmac_key H K) @ m))"

locale hash_interface =
  fixes hinit :: "HASH_CTX \<Rightarrow> HASH_CTX"
    and happend :: "bytes \<Rightarrow> u32 \<Rightarrow> HASH_CTX \<Rightarrow> HASH_CTX option"
    and hend :: "HASH_CTX \<Rightarrow> bytes option"
    and hash :: "bytes \<Rightarrow> u32 \<Rightarrow> bytes option"
    and digest :: "bytes \<Rightarrow> bytes"
    and dsize :: u32
  assumes pieces: "list_all (\<lambda>x. length x + 64 \<le> 2 ^ 32) xs \<Longrightarrow>
      Option.bind (hash_pieces happend xs (hinit c)) hend = Some (digest (concat xs))"
    and one_call: "length m + 64 \<le> 2 ^ 32 \<Longrightarrow> hash m (of_nat (length m)) = Some (digest m)"
    and digest_length: "length (digest m) = unat dsize"
    and dsize_le: "dsize \<le> 64"
begin

lemma two_pieces:
  assumes "length x + 64 \<le> 2 ^ 32" and "length y + 64 \<le> 2 ^ 32"
  shows "\<exists>c1 c2. happend x (of_nat (length x)) (hinit c) = Some c1 \<and>
    happend y (of_nat (length y)) c1 = Some c2 \<and> hend c2 = Some (digest (x @ y))"
  using pieces [of "[x, y]" c] assms
  by (auto simp: bind_eq_Some_conv)

lemma K0:
  assumes "length K + 64 \<le> 2 ^ 32"
  shows "hmac_K0 hash K (of_nat (length K)) = Some (hmac_key digest K)" and "length (hmac_key digest K) = 64"
proof -
  have len: "unat (of_nat (length K) :: u32) = length K" using assms by (simp add: unat_of_nat)
  have d: "length (digest K) \<le> 64" using digest_length dsize_le by (simp add: word_le_nat_alt)
  show "hmac_K0 hash K (of_nat (length K)) = Some (hmac_key digest K)"
    using len d one_call [OF assms] by (auto simp: hmac_K0_def hmac_key_def move_memory_def Let_def word_le_nat_alt)
  show "length (hmac_key digest K) = 64" using d by (simp add: hmac_key_def Let_def)
qed

lemma hmac_correct:
  assumes "length K + 64 \<le> 2 ^ 32" and "length m + 64 \<le> 2 ^ 32"
  shows "hmac ctx hinit happend hend hash dsize K (of_nat (length K)) m (of_nat (length m)) n
    = Some (take (unat n) (hmac_spec digest K m))"
proof -
  define ik where "ik = map (\<lambda>k. k XOR 0x36) (hmac_key digest K)"
  define ok where "ok = map (\<lambda>k. k XOR 0x5c) (hmac_key digest K)"
  note k = K0 [OF assms(1)]
  have len: "length ik = 64" "length ok = 64" using k(2) by (simp_all add: ik_def ok_def)
  have flip: "map (\<lambda>k. k XOR (0x36 XOR 0x5c)) ik = ok"
    by (simp add: ik_def ok_def xor.assoc)
  define d where "d = digest (ik @ m)"
  obtain c1 c2 where a: "happend ik 64 (hinit ctx) = Some c1" "happend m (of_nat (length m)) c1 = Some c2"
      "hend c2 = Some d"
    using two_pieces [of ik m ctx] len assms(2) by (auto simp: d_def)
  have dl: "of_nat (length d) = dsize" "length d \<le> 64"
    using digest_length dsize_le by (simp_all add: d_def word_le_nat_alt)
  obtain c3 c4 where b: "happend ok 64 (hinit ctx) = Some c3" "happend d dsize c3 = Some c4"
      "hend c4 = Some (digest (ok @ d))"
    using two_pieces [of ok d ctx] len dl by auto
  have t: "take (unat (if n > dsize then dsize else n)) (digest x) = take (unat n) (digest x)" for x
    using digest_length [of x] by (auto simp: word_less_nat_alt)
  have "hmac ctx hinit happend hend hash dsize K (of_nat (length K)) m (of_nat (length m)) n
      = Some (take (unat (if n > dsize then dsize else n)) (digest (ok @ d)))"
    unfolding hmac_def k(1) bind.bind_lunit Let_def ik_def [symmetric] flip a b ..
  then show ?thesis unfolding t by (simp add: hmac_spec_def ik_def ok_def d_def)
qed

end

section \<open>The hash functions provide the interface\<close>

lemma md5_digest_length: "length (md5_digest m) = 16"
proof -
  have "length (foldl md5_compress MD5_DefaultHashValue (blocks (padded bytes_le64 m))) = 4"
    using md5.foldl_compress_length [OF refl md5.blocks_length] by (simp add: MD5_DefaultHashValue_def)
  then show ?thesis by (simp add: md5_digest_def length_concat comp_def sum_list_triv)
qed

lemma sha1_digest_length: "length (sha1_digest m) = 20"
proof -
  have "length (foldl sha1_compress SHA1_DefaultHashValue (blocks (padded bytes_be64 m))) = 5"
    using sha1.foldl_compress_length [OF refl sha1.blocks_length] by (simp add: SHA1_DefaultHashValue_def)
  then show ?thesis by (simp add: sha1_digest_def length_concat comp_def sum_list_triv)
qed

lemma sha256_digest_length: "length (sha256_digest m) = 32"
proof -
  have "length (foldl sha256_compress SHA256_DefaultHashValue (blocks (padded bytes_be64 m))) = 8"
    using sha256.foldl_compress_length [OF refl sha256.blocks_length] by (simp add: SHA256_DefaultHashValue_def)
  then show ?thesis by (simp add: sha256_digest_def length_concat comp_def sum_list_triv)
qed

interpretation md5_iface: hash_interface RT_MD5_Init RT_MD5_Append RT_MD5_End RT_MD5 md5_digest 16
  unfolding RT_MD5_Append_def RT_MD5_Init_def RT_MD5_End_def RT_MD5_def md5_digest_def
  by unfold_locales
    (simp_all add: md5.hash_of_pieces md5.hash_in_one_call md5_digest_length [unfolded md5_digest_def])

interpretation sha1_iface: hash_interface RT_SHA1_Init RT_SHA1_Append RT_SHA1_End RT_SHA1 sha1_digest 20
  unfolding RT_SHA1_Append_def RT_SHA1_Init_def RT_SHA1_End_def RT_SHA1_def sha1_digest_def
  by unfold_locales
    (simp_all add: sha1.hash_of_pieces sha1.hash_in_one_call sha1_digest_length [unfolded sha1_digest_def])

interpretation sha256_iface: hash_interface RT_SHA256_Init RT_SHA256_Append RT_SHA256_End RT_SHA256 sha256_digest 32
  unfolding RT_SHA256_Append_def RT_SHA256_Init_def RT_SHA256_End_def RT_SHA256_def sha256_digest_def
  by unfold_locales
    (simp_all add: sha256.hash_of_pieces sha256.hash_in_one_call sha256_digest_length [unfolded sha256_digest_def])

text \<open>
  C40. For keys of any length, messages and authentication codes below the limits of the length
  arithmetic, each HMAC function returns the first \<open>MACLen\<close> bytes (at most the digest) of
  H((K0 xor opad) || H((K0 xor ipad) || message)) over its hash H, where K0 is the key padded with
  zeros to a block, or the padded digest of a key longer than a block.
\<close>

theorem RT_HMAC_correct:
  assumes "length K + 64 \<le> 2 ^ 32" and "length m + 64 \<le> 2 ^ 32"
  shows "RT_HMAC_SHA1 K (of_nat (length K)) m (of_nat (length m)) n = Some (take (unat n) (hmac_spec sha1_digest K m)) \<and>
    RT_HMAC_SHA256 K (of_nat (length K)) m (of_nat (length m)) n = Some (take (unat n) (hmac_spec sha256_digest K m)) \<and>
    RT_HMAC_MD5 K (of_nat (length K)) m (of_nat (length m)) n = Some (take (unat n) (hmac_spec md5_digest K m))"
  unfolding RT_HMAC_SHA1_def RT_HMAC_SHA256_def RT_HMAC_MD5_def
  using sha1_iface.hmac_correct [OF assms] sha256_iface.hmac_correct [OF assms] md5_iface.hmac_correct [OF assms]
  by simp

theorem RT_HMAC_correct_witness:
  "RT_HMAC_SHA1 [1, 2] 2 [3] 1 20 = Some (take 20 (hmac_spec sha1_digest [1, 2] [3])) \<and>
   RT_HMAC_MD5 [1, 2] 2 [3] 1 8 = Some (take 8 (hmac_spec md5_digest [1, 2] [3]))"
  using RT_HMAC_correct [of "[1, 2]" "[3]" 20] RT_HMAC_correct [of "[1, 2]" "[3]" 8] by simp

end
