(* ===== verification/Crypt_AES.thy ===== *)
theory Crypt_AES
  imports Crypt_AES_Tables
begin

text \<open>
  The AES block cipher of the WiFi driver (\<open>rt5370.driver/common/crypt_aes.c\<close>): the key expansion,
  and the encryption and decryption of a block. The state is the 4 by 4 array of the source,
  \<open>State[row][column]\<close>; the expanded key is the 4 by 60 array \<open>KeyWordExpansion\<close>. The context memory
  that the functions allocate is taken to be available.
\<close>

section \<open>Key expansion\<close>

definition TempWord_step :: "nat \<Rightarrow> nat \<Rightarrow> bytes \<Rightarrow> bytes" where
  "TempWord_step KeyIndex NumberOfWordOfKey T =
     (if KeyIndex mod NumberOfWordOfKey = 0 then
        (let Temprcon = aes_rcon ! (KeyIndex div NumberOfWordOfKey) in
         [aes_sbox_enc ! unat (T ! 1) XOR ucast (drop_bit 24 Temprcon AND 0xff),
          aes_sbox_enc ! unat (T ! 2) XOR ucast (drop_bit 16 Temprcon AND 0xff),
          aes_sbox_enc ! unat (T ! 3) XOR ucast (drop_bit 8 Temprcon AND 0xff),
          aes_sbox_enc ! unat (T ! 0) XOR ucast (Temprcon AND 0xff)])
      else if NumberOfWordOfKey > 6 \<and> KeyIndex mod NumberOfWordOfKey = 4 then
        map (\<lambda>t. aes_sbox_enc ! unat t) T
      else T)"

text \<open>One iteration of the second loop, on the array of rows.\<close>

definition key_word_step :: "nat \<Rightarrow> bytes list \<Rightarrow> nat \<Rightarrow> bytes list" where
  "key_word_step Nk K KeyIndex =
     (let T = TempWord_step KeyIndex Nk (map (\<lambda>r. K ! r ! (KeyIndex - 1)) [0..<4])
      in map (\<lambda>r. (K ! r)[KeyIndex := K ! r ! (KeyIndex - Nk) XOR T ! r]) [0..<4])"

definition RT_AES_KeyExpansion :: "bytes \<Rightarrow> nat \<Rightarrow> bytes list" where
  "RT_AES_KeyExpansion Key KeyLength =
     (let Nk = KeyLength div 4;
          K0 = map (\<lambda>r. map (\<lambda>i. if i < Nk then Key ! (4 * i + r) else 0) [0..<60]) [0..<4]
      in foldl (key_word_step Nk) K0 [Nk..<4 * (Nk + 6 + 1)])"

section \<open>The transformations of the state\<close>

text \<open>An array filled by the double loop over rows and columns.\<close>

definition rows_cols :: "(nat \<Rightarrow> nat \<Rightarrow> 'a) \<Rightarrow> 'a list list" where
  "rows_cols f = map (\<lambda>RowIndex. map (\<lambda>ColumnIndex. f RowIndex ColumnIndex) [0..<4]) [0..<4]"

definition load_block :: "bytes \<Rightarrow> bytes list" where
  "load_block b = rows_cols (\<lambda>r c. b ! (r + 4 * c))"

definition store_block :: "bytes list \<Rightarrow> bytes" where
  "store_block S = map (\<lambda>i. S ! (i mod 4) ! (i div 4)) [0..<16]"

definition AddRoundKey :: "bytes list \<Rightarrow> nat \<Rightarrow> bytes list \<Rightarrow> bytes list" where
  "AddRoundKey K RoundIndex S = rows_cols (\<lambda>r c. S ! r ! c XOR K ! r ! (RoundIndex * 4 + c))"

definition SubBytes :: "bytes list \<Rightarrow> bytes list" where
  "SubBytes S = rows_cols (\<lambda>r c. aes_sbox_enc ! unat (S ! r ! c))"

definition InvSubBytes :: "bytes list \<Rightarrow> bytes list" where
  "InvSubBytes S = rows_cols (\<lambda>r c. aes_sbox_dec ! unat (S ! r ! c))"

definition ShiftRows :: "bytes list \<Rightarrow> bytes list" where
  "ShiftRows S =
     [S ! 0,
      [S ! 1 ! 1, S ! 1 ! 2, S ! 1 ! 3, S ! 1 ! 0],
      [S ! 2 ! 2, S ! 2 ! 3, S ! 2 ! 0, S ! 2 ! 1],
      [S ! 3 ! 3, S ! 3 ! 0, S ! 3 ! 1, S ! 3 ! 2]]"

definition InvShiftRows :: "bytes list \<Rightarrow> bytes list" where
  "InvShiftRows S =
     [S ! 0,
      [S ! 1 ! 3, S ! 1 ! 0, S ! 1 ! 1, S ! 1 ! 2],
      [S ! 2 ! 2, S ! 2 ! 3, S ! 2 ! 0, S ! 2 ! 1],
      [S ! 3 ! 1, S ! 3 ! 2, S ! 3 ! 3, S ! 3 ! 0]]"

definition mix_column :: "u8 \<Rightarrow> u8 \<Rightarrow> u8 \<Rightarrow> u8 \<Rightarrow> bytes" where
  "mix_column Row0 Row1 Row2 Row3 =
     [aes_mul_2 ! unat Row0 XOR aes_mul_3 ! unat Row1 XOR Row2 XOR Row3,
      Row0 XOR aes_mul_2 ! unat Row1 XOR aes_mul_3 ! unat Row2 XOR Row3,
      Row0 XOR Row1 XOR aes_mul_2 ! unat Row2 XOR aes_mul_3 ! unat Row3,
      aes_mul_3 ! unat Row0 XOR Row1 XOR Row2 XOR aes_mul_2 ! unat Row3]"

definition inv_mix_column :: "u8 \<Rightarrow> u8 \<Rightarrow> u8 \<Rightarrow> u8 \<Rightarrow> bytes" where
  "inv_mix_column Row0 Row1 Row2 Row3 =
     [aes_mul_e ! unat Row0 XOR aes_mul_b ! unat Row1 XOR aes_mul_d ! unat Row2 XOR aes_mul_9 ! unat Row3,
      aes_mul_9 ! unat Row0 XOR aes_mul_e ! unat Row1 XOR aes_mul_b ! unat Row2 XOR aes_mul_d ! unat Row3,
      aes_mul_d ! unat Row0 XOR aes_mul_9 ! unat Row1 XOR aes_mul_e ! unat Row2 XOR aes_mul_b ! unat Row3,
      aes_mul_b ! unat Row0 XOR aes_mul_d ! unat Row1 XOR aes_mul_9 ! unat Row2 XOR aes_mul_e ! unat Row3]"

definition MixColumns :: "bytes list \<Rightarrow> bytes list" where
  "MixColumns S = rows_cols (\<lambda>r c. mix_column (S ! 0 ! c) (S ! 1 ! c) (S ! 2 ! c) (S ! 3 ! c) ! r)"

definition InvMixColumns :: "bytes list \<Rightarrow> bytes list" where
  "InvMixColumns S = rows_cols (\<lambda>r c. inv_mix_column (S ! 0 ! c) (S ! 1 ! c) (S ! 2 ! c) (S ! 3 ! c) ! r)"

section \<open>Encryption and decryption of a block\<close>

definition encrypt_round :: "bytes list \<Rightarrow> bytes list \<Rightarrow> nat \<Rightarrow> bytes list" where
  "encrypt_round K S RoundIndex = AddRoundKey K RoundIndex (MixColumns (ShiftRows (SubBytes S)))"

definition aes_encrypt_state :: "bytes list \<Rightarrow> nat \<Rightarrow> bytes list \<Rightarrow> bytes list" where
  "aes_encrypt_state K NumberOfRound S =
     (let S1 = foldl (encrypt_round K) (AddRoundKey K 0 S) [1..<NumberOfRound]
      in AddRoundKey K NumberOfRound (ShiftRows (SubBytes S1)))"

definition decrypt_round :: "bytes list \<Rightarrow> bytes list \<Rightarrow> nat \<Rightarrow> bytes list" where
  "decrypt_round K S RoundIndex = InvMixColumns (AddRoundKey K RoundIndex (InvSubBytes (InvShiftRows S)))"

definition aes_decrypt_state :: "bytes list \<Rightarrow> nat \<Rightarrow> bytes list \<Rightarrow> bytes list" where
  "aes_decrypt_state K NumberOfRound S =
     (let S1 = foldl (decrypt_round K) (AddRoundKey K NumberOfRound S) (rev [1..<NumberOfRound])
      in AddRoundKey K 0 (InvSubBytes (InvShiftRows S1)))"

definition valid_key_length :: "u32 \<Rightarrow> bool" where
  "valid_key_length KeyLength \<longleftrightarrow> KeyLength = 16 \<or> KeyLength = 24 \<or> KeyLength = 32"

text \<open>
  The results are the bytes written to the output block and the new value of the size argument,
  or None where the function returns early and writes nothing.
\<close>

definition RT_AES_Encrypt :: "bytes \<Rightarrow> u32 \<Rightarrow> bytes \<Rightarrow> u32 \<Rightarrow> u32 \<Rightarrow> (bytes \<times> u32) option" where
  "RT_AES_Encrypt PlainBlock PlainBlockSize Key KeyLength CipherBlockSize =
     (if PlainBlockSize \<noteq> 16 then None
      else if \<not> valid_key_length KeyLength then None
      else if CipherBlockSize < 16 then None
      else
       (let K = RT_AES_KeyExpansion Key (unat KeyLength);
            NumberOfRound = unat KeyLength div 4 + 6
        in Some (store_block (aes_encrypt_state K NumberOfRound (load_block PlainBlock)), 16)))"

definition RT_AES_Decrypt :: "bytes \<Rightarrow> u32 \<Rightarrow> bytes \<Rightarrow> u32 \<Rightarrow> u32 \<Rightarrow> (bytes \<times> u32) option" where
  "RT_AES_Decrypt CipherBlock CipherBlockSize Key KeyLength PlainBlockSize =
     (if PlainBlockSize < 16 then None
      else if \<not> valid_key_length KeyLength then None
      else if CipherBlockSize \<noteq> 16 then None
      else
       (let K = RT_AES_KeyExpansion Key (unat KeyLength);
            NumberOfRound = unat KeyLength div 4 + 6
        in Some (store_block (aes_decrypt_state K NumberOfRound (load_block CipherBlock)), 16)))"

section \<open>The inverse transformations\<close>

text \<open>A state of four rows of four bytes.\<close>

definition wf_state :: "bytes list \<Rightarrow> bool" where
  "wf_state S \<longleftrightarrow> length S = 4 \<and> (\<forall>r < 4. length (S ! r) = 4)"

lemma nth_rows_cols [simp]: "r < 4 \<Longrightarrow> c < 4 \<Longrightarrow> rows_cols f ! r ! c = f r c"
  by (simp add: rows_cols_def)

lemma wf_rows_cols [simp]: "wf_state (rows_cols f)"
  by (simp add: wf_state_def rows_cols_def)

lemma wf_state_eqI:
  assumes "wf_state S" and "wf_state T" and "\<And>r c. r < 4 \<Longrightarrow> c < 4 \<Longrightarrow> S ! r ! c = T ! r ! c"
  shows "S = T"
  using assms by (auto simp: wf_state_def intro!: nth_equalityI)

lemma less_4: "(r::nat) < 4 \<longleftrightarrow> r = 0 \<or> r = 1 \<or> r = 2 \<or> r = 3"
  by auto

lemma wf_transformations [simp]:
  "wf_state (AddRoundKey K n S)" "wf_state (SubBytes S)" "wf_state (InvSubBytes S)"
  "wf_state (MixColumns S)" "wf_state (InvMixColumns S)" "wf_state (load_block b)"
  by (simp_all add: AddRoundKey_def SubBytes_def InvSubBytes_def MixColumns_def InvMixColumns_def load_block_def)

lemma wf_shifts [simp]: "wf_state S \<Longrightarrow> wf_state (ShiftRows S)" "wf_state S \<Longrightarrow> wf_state (InvShiftRows S)"
  by (auto simp: wf_state_def ShiftRows_def InvShiftRows_def less_4)

lemma InvSub_Sub: "wf_state S \<Longrightarrow> InvSubBytes (SubBytes S) = S"
  by (rule wf_state_eqI) (simp_all add: InvSubBytes_def SubBytes_def)

lemma Add_Add: "wf_state S \<Longrightarrow> AddRoundKey K n (AddRoundKey K n S) = S"
  by (rule wf_state_eqI) (simp_all add: AddRoundKey_def xor.assoc)

lemma InvShift_Shift: "wf_state S \<Longrightarrow> InvShiftRows (ShiftRows S) = S"
proof (rule wf_state_eqI)
  fix r c :: nat
  assume "r < 4" and "c < 4"
  then show "InvShiftRows (ShiftRows S) ! r ! c = S ! r ! c"
    unfolding less_4 by (elim disjE) (simp_all add: InvShiftRows_def ShiftRows_def)
qed simp_all

text \<open>
  The multiplications by 9, b, d and e, which are linear, and the four coefficients of the product
  of the two matrices of column mixing.
\<close>

definition gf_9 :: "u8 \<Rightarrow> u8" where "gf_9 x = xtime (xtime (xtime x)) XOR x"
definition gf_b :: "u8 \<Rightarrow> u8" where "gf_b x = xtime (xtime (xtime x)) XOR xtime x XOR x"
definition gf_d :: "u8 \<Rightarrow> u8" where "gf_d x = xtime (xtime (xtime x)) XOR xtime (xtime x) XOR x"
definition gf_e :: "u8 \<Rightarrow> u8" where "gf_e x = xtime (xtime (xtime x)) XOR xtime (xtime x) XOR xtime x"

lemmas xor_ac = xor.assoc xor.commute xor.left_commute

lemma gf_xor:
  "gf_9 (x XOR y) = gf_9 x XOR gf_9 y" "gf_b (x XOR y) = gf_b x XOR gf_b y"
  "gf_d (x XOR y) = gf_d x XOR gf_d y" "gf_e (x XOR y) = gf_e x XOR gf_e y"
  by (simp_all add: gf_9_def gf_b_def gf_d_def gf_e_def xtime_xor xor_ac)

lemma mix_coefficients:
  "gf_e (xtime x) XOR (gf_b x XOR (gf_d x XOR gf_9 (xtime x XOR x))) = x"
  "gf_e (xtime x XOR x) XOR (gf_b (xtime x) XOR (gf_d x XOR gf_9 x)) = 0"
  "gf_e x XOR (gf_b (xtime x XOR x) XOR (gf_d (xtime x) XOR gf_9 x)) = 0"
  "gf_e x XOR (gf_b x XOR (gf_d (xtime x XOR x) XOR gf_9 (xtime x))) = 0"
  by (simp_all add: gf_9_def gf_b_def gf_d_def gf_e_def xtime_xor xor_ac)

text \<open>Sixteen terms added by columns instead of by rows.\<close>

lemma xor_transpose:
  fixes a1 :: u8
  shows "(a1 XOR (b1 XOR (c1 XOR d1))) XOR ((a2 XOR (b2 XOR (c2 XOR d2))) XOR
     ((a3 XOR (b3 XOR (c3 XOR d3))) XOR (a4 XOR (b4 XOR (c4 XOR d4))))) =
   (a1 XOR (a2 XOR (a3 XOR a4))) XOR ((b1 XOR (b2 XOR (b3 XOR b4))) XOR
     ((c1 XOR (c2 XOR (c3 XOR c4))) XOR (d1 XOR (d2 XOR (d3 XOR d4)))))"
  by (simp only: xor_ac)

lemma aes_mul_gf:
  "aes_mul_2 ! unat x = xtime x" "aes_mul_3 ! unat x = xtime x XOR x" "aes_mul_9 ! unat x = gf_9 x"
  "aes_mul_b ! unat x = gf_b x" "aes_mul_d ! unat x = gf_d x" "aes_mul_e ! unat x = gf_e x"
  by (simp_all add: aes_mul_nth gf_9_def gf_b_def gf_d_def gf_e_def)

lemma nth_mix_column:
  "mix_column a b c d ! 0 = xtime a XOR ((xtime b XOR b) XOR (c XOR d))"
  "mix_column a b c d ! 1 = a XOR (xtime b XOR ((xtime c XOR c) XOR d))"
  "mix_column a b c d ! 2 = a XOR (b XOR (xtime c XOR (xtime d XOR d)))"
  "mix_column a b c d ! 3 = (xtime a XOR a) XOR (b XOR (c XOR xtime d))"
  by (simp_all add: mix_column_def aes_mul_gf xor.assoc)

lemma nth_inv_mix_column:
  "inv_mix_column a b c d ! 0 = gf_e a XOR (gf_b b XOR (gf_d c XOR gf_9 d))"
  "inv_mix_column a b c d ! 1 = gf_9 a XOR (gf_e b XOR (gf_b c XOR gf_d d))"
  "inv_mix_column a b c d ! 2 = gf_d a XOR (gf_9 b XOR (gf_e c XOR gf_b d))"
  "inv_mix_column a b c d ! 3 = gf_b a XOR (gf_d b XOR (gf_9 c XOR gf_e d))"
  by (simp_all add: inv_mix_column_def aes_mul_gf xor.assoc)

lemma inv_mix_0:
  "gf_e (xtime a XOR ((xtime b XOR b) XOR (c XOR d))) XOR
   (gf_b (a XOR (xtime b XOR ((xtime c XOR c) XOR d))) XOR
   (gf_d (a XOR (b XOR (xtime c XOR (xtime d XOR d)))) XOR
    gf_9 ((xtime a XOR a) XOR (b XOR (c XOR xtime d))))) = a"
proof -
  have "gf_e (xtime a XOR ((xtime b XOR b) XOR (c XOR d))) XOR
   (gf_b (a XOR (xtime b XOR ((xtime c XOR c) XOR d))) XOR
   (gf_d (a XOR (b XOR (xtime c XOR (xtime d XOR d)))) XOR
    gf_9 ((xtime a XOR a) XOR (b XOR (c XOR xtime d))))) =
   (gf_e (xtime a) XOR (gf_b a XOR (gf_d a XOR gf_9 (xtime a XOR a)))) XOR
   ((gf_e (xtime b XOR b) XOR (gf_b (xtime b) XOR (gf_d b XOR gf_9 b))) XOR
   ((gf_e c XOR (gf_b (xtime c XOR c) XOR (gf_d (xtime c) XOR gf_9 c))) XOR
    (gf_e d XOR (gf_b d XOR (gf_d (xtime d XOR d) XOR gf_9 (xtime d))))))"
    unfolding gf_xor by (simp only: xor_ac)
  then show ?thesis by (simp only: mix_coefficients) simp
qed

text \<open>The other rows are the first one with the columns rotated.\<close>

lemma inv_mix_rotated:
  "gf_9 (xtime a XOR ((xtime b XOR b) XOR (c XOR d))) XOR
   (gf_e (a XOR (xtime b XOR ((xtime c XOR c) XOR d))) XOR
   (gf_b (a XOR (b XOR (xtime c XOR (xtime d XOR d)))) XOR
    gf_d ((xtime a XOR a) XOR (b XOR (c XOR xtime d))))) = b"
  "gf_d (xtime a XOR ((xtime b XOR b) XOR (c XOR d))) XOR
   (gf_9 (a XOR (xtime b XOR ((xtime c XOR c) XOR d))) XOR
   (gf_e (a XOR (b XOR (xtime c XOR (xtime d XOR d)))) XOR
    gf_b ((xtime a XOR a) XOR (b XOR (c XOR xtime d))))) = c"
  "gf_b (xtime a XOR ((xtime b XOR b) XOR (c XOR d))) XOR
   (gf_d (a XOR (xtime b XOR ((xtime c XOR c) XOR d))) XOR
   (gf_9 (a XOR (b XOR (xtime c XOR (xtime d XOR d)))) XOR
    gf_e ((xtime a XOR a) XOR (b XOR (c XOR xtime d))))) = d"
  using inv_mix_0 [of b c d a] inv_mix_0 [of c d a b] inv_mix_0 [of d a b c]
  by (simp_all only: xor_ac)

lemma inv_mix_mix:
  assumes "r < 4"
  shows "inv_mix_column (mix_column a b c d ! 0) (mix_column a b c d ! 1) (mix_column a b c d ! 2)
     (mix_column a b c d ! 3) ! r = [a, b, c, d] ! r"
  using assms unfolding less_4
  by (elim disjE) (simp_all only: nth_inv_mix_column nth_mix_column inv_mix_0 inv_mix_rotated nth_Cons_0, simp_all)

lemma InvMix_Mix: "wf_state S \<Longrightarrow> InvMixColumns (MixColumns S) = S"
proof (rule wf_state_eqI)
  fix r c :: nat
  assume rc: "r < 4" "c < 4"
  then have "InvMixColumns (MixColumns S) ! r ! c = [S ! 0 ! c, S ! 1 ! c, S ! 2 ! c, S ! 3 ! c] ! r"
    by (simp add: InvMixColumns_def MixColumns_def inv_mix_mix [unfolded One_nat_def])
  also have "\<dots> = S ! r ! c"
    using rc(1) unfolding less_4 by (elim disjE) simp_all
  finally show "InvMixColumns (MixColumns S) ! r ! c = S ! r ! c" .
qed simp_all

lemmas inverse_transformations = InvMix_Mix InvSub_Sub Add_Add InvShift_Shift

section \<open>Decryption is the inverse of encryption\<close>

lemma wf_encrypt_rounds:
  "wf_state S \<Longrightarrow> wf_state (foldl (encrypt_round K) S ns)"
  by (induction ns rule: rev_induct) (simp_all add: encrypt_round_def)

lemma decrypt_rounds:
  assumes "wf_state S" and "1 \<le> n"
  shows "foldl (decrypt_round K) (ShiftRows (SubBytes (foldl (encrypt_round K) S [1..<n]))) (rev [1..<n]) =
    ShiftRows (SubBytes S)"
  using assms(2)
proof (induction n rule: dec_induct)
  case (step n)
  define E where "E = foldl (encrypt_round K) S [1..<n]"
  have "wf_state E" using assms(1) by (simp add: E_def wf_encrypt_rounds)
  then have "decrypt_round K (ShiftRows (SubBytes (encrypt_round K E n))) n = ShiftRows (SubBytes E)"
    by (simp add: decrypt_round_def encrypt_round_def inverse_transformations)
  then show ?case using step by (simp add: E_def)
qed simp

lemma aes_decrypt_encrypt_state:
  assumes "wf_state S" and "1 \<le> n"
  shows "aes_decrypt_state K n (aes_encrypt_state K n S) = S"
  using assms decrypt_rounds [of "AddRoundKey K 0 S" n K]
  by (simp add: aes_decrypt_state_def aes_encrypt_state_def Let_def inverse_transformations wf_encrypt_rounds)

lemma wf_aes_encrypt_state: "wf_state (aes_encrypt_state K n S)"
  by (simp add: aes_encrypt_state_def Let_def)

lemma load_store: "wf_state S \<Longrightarrow> load_block (store_block S) = S"
proof (rule wf_state_eqI)
  fix r c :: nat
  assume "r < 4" and "c < 4"
  then have "r + 4 * c < 16" by simp
  with \<open>r < 4\<close> \<open>c < 4\<close> show "load_block (store_block S) ! r ! c = S ! r ! c"
    by (simp add: load_block_def store_block_def)
qed simp_all

lemma store_load: "length b = 16 \<Longrightarrow> store_block (load_block b) = b"
proof (rule nth_equalityI)
  fix i :: nat
  assume "length b = 16" and "i < length (store_block (load_block b))"
  moreover have "i mod 4 + 4 * (i div 4) = i" by presburger
  ultimately show "store_block (load_block b) ! i = b ! i"
    by (simp add: load_block_def store_block_def del: mod_mult_div_eq)
qed (simp add: store_block_def)

text \<open>The cipher and its inverse on a block, where the guards of the functions hold.\<close>

definition aes_E :: "bytes \<Rightarrow> bytes \<Rightarrow> bytes" where
  "aes_E Key b = store_block (aes_encrypt_state (RT_AES_KeyExpansion Key (length Key)) (length Key div 4 + 6) (load_block b))"

definition aes_D :: "bytes \<Rightarrow> bytes \<Rightarrow> bytes" where
  "aes_D Key b = store_block (aes_decrypt_state (RT_AES_KeyExpansion Key (length Key)) (length Key div 4 + 6) (load_block b))"

lemma length_aes [simp]: "length (aes_E Key b) = 16" "length (aes_D Key b) = 16"
  by (simp_all add: aes_E_def aes_D_def store_block_def)

lemma aes_D_E: "length b = 16 \<Longrightarrow> aes_D Key (aes_E Key b) = b"
  by (simp add: aes_D_def aes_E_def load_store wf_aes_encrypt_state aes_decrypt_encrypt_state store_load)

lemma RT_AES_as_cipher:
  assumes "length Key = unat KeyLength" and "valid_key_length KeyLength" and "16 \<le> n"
  shows "RT_AES_Encrypt b 16 Key KeyLength n = Some (aes_E Key b, 16)"
    and "RT_AES_Decrypt b 16 Key KeyLength n = Some (aes_D Key b, 16)"
  using assms by (auto simp: RT_AES_Encrypt_def RT_AES_Decrypt_def aes_E_def aes_D_def Let_def)

text \<open>
  C34. For every key of 16, 24 or 32 bytes and every block of 16 bytes, the encryption writes a block
  of 16 bytes which the decryption with the same key turns back into the block.
\<close>

theorem RT_AES_roundtrip:
  assumes "valid_key_length KeyLength" and "length Key = unat KeyLength" and "length PlainBlock = 16"
    and "16 \<le> CipherSize" and "16 \<le> PlainSize"
  shows "\<exists>CipherBlock. length CipherBlock = 16 \<and>
    RT_AES_Encrypt PlainBlock 16 Key KeyLength CipherSize = Some (CipherBlock, 16) \<and>
    RT_AES_Decrypt CipherBlock 16 Key KeyLength PlainSize = Some (PlainBlock, 16)"
  using assms by (simp add: RT_AES_as_cipher aes_D_E)

text \<open>A key of 24 bytes.\<close>

lemma RT_AES_roundtrip_witness:
  "\<exists>CipherBlock. length CipherBlock = 16 \<and>
    RT_AES_Encrypt (map of_nat [0..<16]) 16 (map of_nat [1..<25]) 24 16 = Some (CipherBlock, 16) \<and>
    RT_AES_Decrypt CipherBlock 16 (map of_nat [1..<25]) 24 16 = Some (map of_nat [0..<16], 16)"
  by (rule RT_AES_roundtrip) (simp_all add: valid_key_length_def)

end
