(* ===== verification/Crypt_AES_Modes.thy ===== *)
theory Crypt_AES_Modes
  imports Crypt_AES
begin

text \<open>
  The modes of operation built on the AES block cipher (\<open>rt5370.driver/common/crypt_aes.c\<close>): CBC with
  its padding and the key wrap of RFC 3394. Arrays are byte lists, lengths are \<open>UINT\<close>
  words with the wrap-around of the source, positions inside the arrays are naturals. The locale
  \<open>block_cipher\<close> states what the modes need of the cipher.
\<close>

section \<open>What the modes need of a cipher\<close>

definition subarray :: "nat \<Rightarrow> nat \<Rightarrow> 'a list \<Rightarrow> 'a list" where
  "subarray off n xs = take n (drop off xs)"

lemma length_subarray [simp]: "off + n \<le> length xs \<Longrightarrow> length (subarray off n xs) = n"
  by (simp add: subarray_def)

lemma xor_bytes_cancel_right:
  "length xs \<le> length ks \<Longrightarrow> xor_bytes (xor_bytes xs ks) ks = xs"
  by (rule nth_equalityI) simp_all

text \<open>Cipher block chaining over a list of blocks: the reference for the loops below.\<close>

fun cbc_enc :: "(bytes \<Rightarrow> bytes) \<Rightarrow> bytes \<Rightarrow> bytes list \<Rightarrow> bytes list" where
  "cbc_enc E X [] = []"
| "cbc_enc E X (B # Bs) = (let C = E (xor_bytes B X) in C # cbc_enc E C Bs)"

fun cbc_dec :: "(bytes \<Rightarrow> bytes) \<Rightarrow> bytes \<Rightarrow> bytes list \<Rightarrow> bytes list" where
  "cbc_dec D X [] = []"
| "cbc_dec D X (C # Cs) = xor_bytes (D C) X # cbc_dec D C Cs"

locale block_cipher =
  fixes E D :: "bytes \<Rightarrow> bytes"
  assumes E_length: "length (E b) = 16"
    and D_length: "length (D b) = 16"
    and D_E: "length b = 16 \<Longrightarrow> D (E b) = b"
begin

lemma cbc_dec_enc:
  "length X = 16 \<Longrightarrow> list_all (\<lambda>b. length b = 16) Bs \<Longrightarrow> cbc_dec D X (cbc_enc E X Bs) = Bs"
  by (induction Bs arbitrary: X) (simp_all add: Let_def D_E E_length xor_bytes_cancel_right)

lemma cbc_enc_blocks: "list_all (\<lambda>b. length b = 16) (cbc_enc E X Bs)"
  by (induction Bs arbitrary: X) (simp_all add: Let_def E_length)

end

interpretation aes: block_cipher "aes_E Key" "aes_D Key" for Key
  by unfold_locales (simp_all add: aes_D_E)

section \<open>Blocks of sixteen bytes\<close>

definition blocks16 :: "bytes \<Rightarrow> bytes list" where
  "blocks16 m = map (\<lambda>i. subarray (16 * i) 16 m) [0..<length m div 16]"

lemma blocks16_Cons:
  assumes "16 \<le> length m"
  shows "blocks16 m = take 16 m # blocks16 (drop 16 m)"
proof -
  have "length m div 16 = Suc ((length m - 16) div 16)" using assms by (simp add: le_div_geq)
  then show ?thesis
    by (simp add: blocks16_def subarray_def upt_conv_Cons map_Suc_upt [symmetric] add.commute del: upt_Suc)
qed

lemma blocks16_short: "length m < 16 \<Longrightarrow> blocks16 m = []"
  by (simp add: blocks16_def)

lemma blocks16_concat:
  "list_all (\<lambda>b. length b = 16) Bs \<Longrightarrow> blocks16 (concat Bs) = Bs"
  by (induction Bs) (simp_all add: blocks16_short blocks16_Cons)

lemma blocks16_append:
  "length m mod 16 = 0 \<Longrightarrow> blocks16 (m @ x) = blocks16 m @ blocks16 x"
proof (induction m rule: measure_induct_rule [where f = length])
  case (less m)
  show ?case
  proof (cases "m = []")
    case False
    then have "16 \<le> length m" using less.prems by (metis length_0_conv mod_less not_le)
    with less show ?thesis by (simp add: blocks16_Cons le_mod_geq)
  qed (simp add: blocks16_short)
qed

lemma blocks16_lengths: "list_all (\<lambda>b. length b = 16) (blocks16 m)"
proof (induction m rule: measure_induct_rule [where f = length])
  case (less m)
  then show ?case by (cases "16 \<le> length m") (simp_all add: blocks16_Cons blocks16_short)
qed

lemma concat_blocks16: "length m mod 16 = 0 \<Longrightarrow> concat (blocks16 m) = m"
proof (induction m rule: measure_induct_rule [where f = length])
  case (less m)
  show ?case
  proof (cases "m = []")
    case False
    then have "16 \<le> length m" using less.prems by (metis length_0_conv mod_less not_le)
    with less show ?thesis by (simp add: blocks16_Cons le_mod_geq)
  qed (simp add: blocks16_short)
qed

section \<open>CBC\<close>

text \<open>
  The while loop of \<open>AES_CBC_Encrypt\<close>. \<open>C\<close> is the cipher text written so far, \<open>CipherBlockStart\<close> its
  length. None: the block function refused its arguments.
\<close>

function cbc_encrypt_loop ::
  "bytes \<Rightarrow> nat \<Rightarrow> bytes \<Rightarrow> u32 \<Rightarrow> bytes \<Rightarrow> u32 \<Rightarrow> nat \<Rightarrow> bytes \<Rightarrow> (nat \<times> bytes) option" where
  "cbc_encrypt_loop PlainText PlainTextLength Key KeyLength IV CipherTextLength PlainBlockStart C =
     (if 16 \<le> PlainTextLength - PlainBlockStart then
       (let CipherBlockStart = length C;
            Blk = xor_bytes (subarray PlainBlockStart 16 PlainText)
                    (if CipherBlockStart = 0 then IV else subarray (CipherBlockStart - 16) 16 C)
        in Option.bind (RT_AES_Encrypt Blk 16 Key KeyLength (CipherTextLength - of_nat CipherBlockStart))
             (\<lambda>(c, CipherBlockSize).
               cbc_encrypt_loop PlainText PlainTextLength Key KeyLength IV CipherTextLength
                 (PlainBlockStart + 16) (C @ c)))
      else Some (PlainBlockStart, C))"
  by pat_completeness auto
termination
  by (relation "measure (\<lambda>(_, n, _, _, _, _, s, _). n - s)") auto

declare cbc_encrypt_loop.simps [simp del]

text \<open>The bytes written to \<open>CipherText\<close> and the new \<open>*CipherTextLength\<close>, or None after an early return.\<close>

definition AES_CBC_Encrypt ::
  "bytes \<Rightarrow> u32 \<Rightarrow> bytes \<Rightarrow> u32 \<Rightarrow> bytes \<Rightarrow> u32 \<Rightarrow> u32 \<Rightarrow> (bytes \<times> u32) option" where
  "AES_CBC_Encrypt PlainText PlainTextLength Key KeyLength IV IVLength CipherTextLength =
     (let PaddingSize = 16 - PlainTextLength mod 16 in
      if CipherTextLength < PlainTextLength + PaddingSize then None
      else if \<not> valid_key_length KeyLength then None
      else if IVLength \<noteq> 16 then None
      else
        Option.bind (cbc_encrypt_loop PlainText (unat PlainTextLength) Key KeyLength IV CipherTextLength 0 [])
         (\<lambda>(PlainBlockStart, C).
           let CipherBlockStart = length C;
               Blk = subarray PlainBlockStart (unat PlainTextLength - PlainBlockStart) PlainText
                       @ replicate (unat PaddingSize) (ucast PaddingSize);
               Blk = xor_bytes Blk
                       (if CipherBlockStart = 0 then IV else subarray (CipherBlockStart - 16) 16 C)
           in map_option (\<lambda>(c, CipherBlockSize). (C @ c, of_nat CipherBlockStart + CipherBlockSize))
                (RT_AES_Encrypt Blk 16 Key KeyLength (CipherTextLength - of_nat CipherBlockStart))))"

text \<open>
  The while loop of \<open>AES_CBC_Decrypt\<close>. \<open>P\<close> is the plain text written so far. None: the block function
  refused its arguments, and the loop goes on with memory that was not written.
\<close>

function cbc_decrypt_loop ::
  "bytes \<Rightarrow> nat \<Rightarrow> bytes \<Rightarrow> u32 \<Rightarrow> bytes \<Rightarrow> u32 \<Rightarrow> nat \<Rightarrow> bytes \<Rightarrow> bytes option" where
  "cbc_decrypt_loop CipherText CipherTextLength Key KeyLength IV PlainTextLength CipherBlockStart P =
     (if 16 \<le> CipherTextLength - CipherBlockStart then
       (let PlainBlockStart = length P in
        Option.bind (RT_AES_Decrypt (subarray CipherBlockStart 16 CipherText) 16 Key KeyLength
                       (PlainTextLength - of_nat PlainBlockStart))
          (\<lambda>(p, PlainBlockSize).
             cbc_decrypt_loop CipherText CipherTextLength Key KeyLength IV PlainTextLength
               (CipherBlockStart + 16)
               (P @ xor_bytes p (if PlainBlockStart = 0 then IV else subarray (CipherBlockStart - 16) 16 CipherText))))
      else Some P)"
  by pat_completeness auto
termination
  by (relation "measure (\<lambda>(_, n, _, _, _, _, s, _). n - s)") auto

declare cbc_decrypt_loop.simps [simp del]

text \<open>
  The length test is the source's \<open>(CipherTextLength % AES_BLOCK_SIZES) != 0\<close>, where the macro expands
  to \<open>4*4\<close> without parentheses: the remainder by 4, times 4. None: an early return, or an access
  outside the arrays (no block at all reads \<open>PlainText[-1]\<close>).
\<close>

definition AES_CBC_Decrypt ::
  "bytes \<Rightarrow> u32 \<Rightarrow> bytes \<Rightarrow> u32 \<Rightarrow> bytes \<Rightarrow> u32 \<Rightarrow> u32 \<Rightarrow> (bytes \<times> u32) option" where
  "AES_CBC_Decrypt CipherText CipherTextLength Key KeyLength IV IVLength PlainTextLength =
     (if CipherTextLength mod 4 * 4 \<noteq> 0 then None
      else if \<not> valid_key_length KeyLength then None
      else if IVLength \<noteq> 16 then None
      else
        Option.bind (cbc_decrypt_loop CipherText (unat CipherTextLength) Key KeyLength IV PlainTextLength 0 [])
          (\<lambda>P. if P = [] then None
               else (let PaddingSize = ucast (P ! (length P - 1)) in Some (P, of_nat (length P) - PaddingSize))))"

text \<open>The block chained into the next one.\<close>

definition chain_value :: "bytes \<Rightarrow> bytes \<Rightarrow> bytes" where
  "chain_value IV C = (if length C = 0 then IV else subarray (length C - 16) 16 C)"

lemma chain_value_append [simp]: "length c = 16 \<Longrightarrow> chain_value IV (C @ c) = c"
  by (cases "c = []") (simp_all add: chain_value_def subarray_def)

lemma chain_value_Nil [simp]: "chain_value IV [] = IV"
  by (simp add: chain_value_def)

lemma length_chain_value:
  "length IV = 16 \<Longrightarrow> length C mod 16 = 0 \<Longrightarrow> length (chain_value IV C) = 16"
proof -
  assume "length IV = 16" and "length C mod 16 = 0"
  moreover from this have "C = [] \<or> 16 \<le> length C" by (metis length_0_conv mod_less not_le)
  ultimately show ?thesis by (auto simp: chain_value_def subarray_def)
qed

lemma unat_minus_of_nat:
  fixes a :: u32
  assumes "k \<le> unat a"
  shows "unat (a - of_nat k) = unat a - k"
proof -
  have "unat a < 2 ^ 32" using unsigned_less [of a] by simp
  then have k: "k < 2 ^ 32" using assms by simp
  then have "of_nat k \<le> a" using assms by (simp add: word_le_nat_alt unat_of_nat)
  then show ?thesis using k by (simp add: unat_sub unat_of_nat)
qed

lemma room_left:
  fixes a :: u32
  shows "k + 16 \<le> unat a \<Longrightarrow> 16 \<le> a - of_nat k"
  by (simp add: word_le_nat_alt unat_minus_of_nat)

context block_cipher
begin

lemma cbc_enc_snoc:
  "cbc_enc E X (Bs @ [B]) = cbc_enc E X Bs @ [E (xor_bytes B (chain_value X (concat (cbc_enc E X Bs))))]"
proof (induction Bs arbitrary: X)
  case (Cons A Bs)
  define C where "C = E (xor_bytes A X)"
  have "length C = 16" by (simp add: C_def E_length)
  then have "chain_value C x = chain_value X (C @ x)" if "length x mod 16 = 0" for x
    using that by (cases "x = []") (auto simp: chain_value_def subarray_def dest: dvd_imp_le)
  moreover have "length (concat bs) mod 16 = 0" if "list_all (\<lambda>b. length b = 16) bs" for bs :: "bytes list"
    using that by (induction bs) auto
  ultimately show ?case using Cons.IH cbc_enc_blocks by (simp add: Let_def flip: C_def)
qed (simp add: Let_def)

end

lemma last_block_start: "s mod 16 = 0 \<Longrightarrow> s \<le> n \<Longrightarrow> \<not> 16 \<le> n - s \<Longrightarrow> s = 16 * (n div (16::nat))"
  by (auto simp: mod_eq_0_iff_dvd elim!: dvdE intro!: div_nat_eqI [symmetric])

lemma length_concat16: "list_all (\<lambda>b. length b = 16) Bs \<Longrightarrow> length (concat Bs) = 16 * length Bs"
  by (induction Bs) simp_all

lemma length_cbc_enc [simp]: "length (cbc_enc E X Bs) = length Bs"
  by (induction Bs arbitrary: X) (simp_all add: Let_def)

lemma length_blocks16 [simp]: "length (blocks16 m) = length m div 16"
  by (simp add: blocks16_def)

lemma blocks16_one: "length b = 16 \<Longrightarrow> blocks16 b = [b]"
  by (simp add: blocks16_Cons blocks16_short)

lemma blocks16_last:
  assumes "length p mod 16 + length x = 16"
  shows "blocks16 (p @ x) = blocks16 p @ [drop (16 * (length p div 16)) p @ x]"
proof -
  define k where "k = 16 * (length p div 16)"
  have k: "k \<le> length p" "length p - k = length p mod 16" "k mod 16 = 0"
    by (simp_all add: k_def minus_mult_div_eq_mod)
  have "blocks16 (take k p @ y) = blocks16 (take k p) @ blocks16 y" for y
    using k by (intro blocks16_append) simp
  from this [of "drop k p"] this [of "drop k p @ x", folded append_assoc] show ?thesis
    using k assms by (simp add: blocks16_short blocks16_one flip: k_def)
qed

lemma cbc_encrypt_loop_eq:
  assumes "valid_key_length KeyLength" and "length Key = unat KeyLength" and "length P = n"
    and "16 * (n div 16) + 16 \<le> unat Cap"
  shows "s = length C \<Longrightarrow> s mod 16 = 0 \<Longrightarrow> s \<le> n \<Longrightarrow>
    cbc_encrypt_loop P n Key KeyLength IV Cap s C =
      Some (16 * (n div 16), C @ concat (cbc_enc (aes_E Key) (chain_value IV C) (blocks16 (drop s P))))"
proof (induction "n - s" arbitrary: s C rule: less_induct)
  case less
  show ?case
  proof (cases "16 \<le> n - s")
    case True
    define c where "c = aes_E Key (xor_bytes (subarray s 16 P) (chain_value IV C))"
    have "s + 16 \<le> unat Cap" using True assms(4) less.prems by presburger
    then have "RT_AES_Encrypt (xor_bytes (subarray s 16 P) (chain_value IV C)) 16 Key KeyLength
        (Cap - of_nat (length C)) = Some (c, 16)"
      using assms less.prems(1) by (simp add: RT_AES_as_cipher room_left c_def)
    then have "cbc_encrypt_loop P n Key KeyLength IV Cap s C =
        cbc_encrypt_loop P n Key KeyLength IV Cap (s + 16) (C @ c)"
      using True by (subst cbc_encrypt_loop.simps) (simp add: chain_value_def)
    moreover have "cbc_encrypt_loop P n Key KeyLength IV Cap (s + 16) (C @ c) = Some (16 * (n div 16),
        (C @ c) @ concat (cbc_enc (aes_E Key) (chain_value IV (C @ c)) (blocks16 (drop (s + 16) P))))"
      by (rule less.hyps) (use True less.prems in \<open>auto simp: c_def\<close>)
    moreover have "blocks16 (drop s P) = subarray s 16 P # blocks16 (drop (s + 16) P)"
      using True assms(3) by (subst blocks16_Cons) (simp_all add: subarray_def add.commute)
    ultimately show ?thesis by (simp add: c_def Let_def)
  next
    case False
    then have "cbc_encrypt_loop P n Key KeyLength IV Cap s C = Some (s, C)"
      by (subst cbc_encrypt_loop.simps) simp
    moreover have "blocks16 (drop s P) = []" using False assms(3) by (simp add: blocks16_short)
    moreover have "s = 16 * (n div 16)" using False less.prems by (intro last_block_start) simp_all
    ultimately show ?thesis by (simp only: cbc_enc.simps concat.simps append_Nil2)
  qed
qed

lemma cbc_decrypt_loop_eq:
  assumes "valid_key_length KeyLength" and "length Key = unat KeyLength" and "length CT = n"
    and "n mod 16 = 0" and "n \<le> unat Cap" and "length IV = 16"
  shows "s = length P \<Longrightarrow> s mod 16 = 0 \<Longrightarrow> s \<le> n \<Longrightarrow>
    cbc_decrypt_loop CT n Key KeyLength IV Cap s P =
      Some (P @ concat (cbc_dec (aes_D Key) (chain_value IV (take s CT)) (blocks16 (drop s CT))))"
proof (induction "n - s" arbitrary: s P rule: less_induct)
  case less
  have X: "(if length P = 0 then IV else subarray (s - 16) 16 CT) = chain_value IV (take s CT)"
    using less.prems assms(3) by (auto simp: chain_value_def subarray_def min_def take_drop dest: dvd_imp_le)
  show ?case
  proof (cases "16 \<le> n - s")
    case True
    define p where "p = xor_bytes (aes_D Key (subarray s 16 CT)) (chain_value IV (take s CT))"
    have lp: "length p = 16"
      using length_chain_value [OF assms(6), of "take s CT"] less.prems assms(3) by (simp add: p_def)
    have "s + 16 \<le> unat Cap" using True assms(5) less.prems by presburger
    then have "RT_AES_Decrypt (subarray s 16 CT) 16 Key KeyLength (Cap - of_nat (length P)) =
        Some (aes_D Key (subarray s 16 CT), 16)"
      using assms less.prems(1) by (simp add: RT_AES_as_cipher room_left)
    then have "cbc_decrypt_loop CT n Key KeyLength IV Cap s P =
        cbc_decrypt_loop CT n Key KeyLength IV Cap (s + 16) (P @ p)"
      using True X by (subst cbc_decrypt_loop.simps) (simp add: p_def)
    moreover have "cbc_decrypt_loop CT n Key KeyLength IV Cap (s + 16) (P @ p) = Some ((P @ p) @
        concat (cbc_dec (aes_D Key) (chain_value IV (take (s + 16) CT)) (blocks16 (drop (s + 16) CT))))"
      by (rule less.hyps) (use True less.prems lp in auto)
    moreover have "blocks16 (drop s CT) = subarray s 16 CT # blocks16 (drop (s + 16) CT)"
      using True assms(3) by (subst blocks16_Cons) (simp_all add: subarray_def add.commute)
    moreover have "chain_value IV (take (s + 16) CT) = subarray s 16 CT"
      using True assms(3) by (simp add: take_add subarray_def)
    ultimately show ?thesis by (simp add: p_def)
  next
    case False
    then have "s = n" using less.prems assms(4) by presburger
    with False show ?thesis
      by (subst cbc_decrypt_loop.simps) (simp add: blocks16_short assms(3))
  qed
qed

text \<open>The padding: one to sixteen bytes, each of them their number.\<close>

definition cbc_padded :: "bytes \<Rightarrow> bytes" where
  "cbc_padded p = (let k = 16 - length p mod 16 in p @ replicate k (of_nat k))"

lemma cbc_padded_facts:
  "length (cbc_padded p) mod 16 = 0" "length (cbc_padded p) = 16 * (length p div 16) + 16"
  "unat (last (cbc_padded p)) = 16 - length p mod 16" "cbc_padded p \<noteq> []"
proof -
  have "length p mod 16 < 16" by simp
  then show "length (cbc_padded p) = 16 * (length p div 16) + 16"
    by (simp add: cbc_padded_def Let_def minus_mod_eq_mult_div [symmetric])
  then show "length (cbc_padded p) mod 16 = 0" "cbc_padded p \<noteq> []" by auto
  show "unat (last (cbc_padded p)) = 16 - length p mod 16"
    using unat_of_nat [where 'a = 8, of "16 - length p mod 16"] by (simp add: cbc_padded_def Let_def del: of_nat_diff)
qed

lemma AES_CBC_Encrypt_eq:
  assumes "valid_key_length KeyLength" and "length Key = unat KeyLength"
    and "length IV = 16" and "length PlainText = unat PlainTextLength"
    and "unat PlainTextLength + 16 < 2 ^ 32" and "unat PlainTextLength + 16 \<le> unat Cap"
  shows "AES_CBC_Encrypt PlainText PlainTextLength Key KeyLength IV 16 Cap =
    (let c = concat (cbc_enc (aes_E Key) IV (blocks16 (cbc_padded PlainText))) in Some (c, of_nat (length c)))"
proof -
  define n where "n = length PlainText"
  define Cs where "Cs = cbc_enc (aes_E Key) IV (blocks16 PlainText)"
  define pad :: u32 where "pad = 16 - PlainTextLength mod 16"
  have n: "unat PlainTextLength = n" using assms(4) by (simp add: n_def)
  have m: "unat (PlainTextLength mod 16) = n mod 16" by (simp add: unat_mod n)
  have "PlainTextLength mod 16 \<le> 16" by (simp add: word_le_nat_alt m)
  then have pad: "unat pad = 16 - n mod 16" by (simp add: pad_def unat_sub m)
  have "unat (PlainTextLength + pad) = n + (16 - n mod 16)"
    using assms(5) by (subst unat_add_lem [THEN iffD1]) (simp_all add: pad n)
  then have guard: "\<not> Cap < PlainTextLength + pad"
    using assms(6) by (simp add: word_less_nat_alt n)
  have room: "16 * (n div 16) + 16 \<le> unat Cap" using assms(6) unfolding n by presburger
  have loop: "cbc_encrypt_loop PlainText n Key KeyLength IV Cap 0 [] = Some (16 * (n div 16), concat Cs)"
    using cbc_encrypt_loop_eq [OF assms(1,2) n_def [symmetric] room, of 0 "[]" IV] by (simp add: Cs_def)
  have lCs: "length (concat Cs) = 16 * (n div 16)"
    by (simp add: Cs_def length_concat16 aes.cbc_enc_blocks n_def)
  define Blk where "Blk = subarray (16 * (n div 16)) (n - 16 * (n div 16)) PlainText @ replicate (unat pad) (ucast pad)"
  have "(of_nat (16 - n mod 16) :: u8) = ucast pad"
    using pad by (metis of_nat_unat)
  then have last: "blocks16 (cbc_padded PlainText) = blocks16 PlainText @ [Blk]"
    unfolding cbc_padded_def Let_def Blk_def
    by (subst blocks16_last) (simp_all add: pad subarray_def flip: n_def del: of_nat_diff)
  have "16 \<le> Cap - of_nat (length (concat Cs))" using room by (simp add: lCs room_left del: of_nat_mult)
  then have fin: "RT_AES_Encrypt (xor_bytes Blk (chain_value IV (concat Cs))) 16 Key KeyLength
      (Cap - of_nat (length (concat Cs))) = Some (aes_E Key (xor_bytes Blk (chain_value IV (concat Cs))), 16)"
    using assms by (intro RT_AES_as_cipher)
  have "AES_CBC_Encrypt PlainText PlainTextLength Key KeyLength IV 16 Cap =
      Some (concat Cs @ aes_E Key (xor_bytes Blk (chain_value IV (concat Cs))), of_nat (length (concat Cs)) + 16)"
    unfolding AES_CBC_Encrypt_def Let_def pad_def [symmetric] n
    using guard assms(1) loop fin by (simp add: chain_value_def flip: Blk_def)
  then show ?thesis
    unfolding last aes.cbc_enc_snoc Cs_def [symmetric] by (simp add: Let_def)
qed

text \<open>
  CBC decryption undoes CBC encryption: for a key of 16, 24 or 32 bytes, an initialisation vector
  of 16 bytes and a plain text of any length (up to the width of the length arguments), with
  buffers that have room for a block of padding, both functions succeed, and the plain text
  written back is the original one, with its length, followed by the padding.
\<close>

theorem AES_CBC_roundtrip:
  assumes "valid_key_length KeyLength" and "length Key = unat KeyLength"
    and "length IV = 16" and "length PlainText = unat PlainTextLength"
    and "unat PlainTextLength + 16 < 2 ^ 32"
    and "unat PlainTextLength + 16 \<le> unat CipherCap" and "unat PlainTextLength + 16 \<le> unat PlainCap"
  shows "\<exists>c cl p. AES_CBC_Encrypt PlainText PlainTextLength Key KeyLength IV 16 CipherCap = Some (c, cl) \<and>
      length c = unat cl \<and> cl mod 16 = 0 \<and>
      AES_CBC_Decrypt c cl Key KeyLength IV 16 PlainCap = Some (p, PlainTextLength) \<and>
      take (unat PlainTextLength) p = PlainText"
proof -
  define Bs where "Bs = blocks16 (cbc_padded PlainText)"
  define Cs where "Cs = cbc_enc (aes_E Key) IV Bs"
  define c where "c = concat Cs"
  define n where "n = length PlainText"
  have Bs: "concat Bs = cbc_padded PlainText" by (simp add: Bs_def concat_blocks16 cbc_padded_facts)
  have lc: "length c = 16 * (n div 16) + 16"
    by (simp add: c_def Cs_def Bs_def length_concat16 aes.cbc_enc_blocks cbc_padded_facts n_def)
  have "length c \<le> n + 16" unfolding lc by simp
  then have cl: "unat (of_nat (length c) :: u32) = length c" and cap: "length c \<le> unat PlainCap"
    using assms(4,5,7) by (simp_all add: unat_of_nat n_def)
  have enc: "AES_CBC_Encrypt PlainText PlainTextLength Key KeyLength IV 16 CipherCap = Some (c, of_nat (length c))"
    using AES_CBC_Encrypt_eq [OF assms(1-6)] by (simp add: Let_def c_def Cs_def Bs_def)
  have "unat ((of_nat (length c) :: u32) mod 16) = 0" "unat ((of_nat (length c) :: u32) mod 4) = 0"
    unfolding unat_mod cl unfolding lc by simp_all
  then have mod16: "(of_nat (length c) :: u32) mod 16 = 0" "(of_nat (length c) :: u32) mod 4 * 4 = 0"
    by (simp_all only: unsigned_eq_0_iff mult_zero_left)
  have "cbc_decrypt_loop c (length c) Key KeyLength IV PlainCap 0 [] = Some (cbc_padded PlainText)"
    using cbc_decrypt_loop_eq [OF assms(1,2) refl _ cap assms(3), of 0 "[]"] lc
    by (simp add: c_def Cs_def Bs_def blocks16_concat aes.cbc_enc_blocks aes.cbc_dec_enc [OF assms(3)]
        blocks16_lengths Bs [unfolded Bs_def])
  moreover have "of_nat (length (cbc_padded PlainText)) - ucast (last (cbc_padded PlainText)) = PlainTextLength"
  proof -
    have "length (cbc_padded PlainText) = n + unat (last (cbc_padded PlainText))"
      unfolding cbc_padded_facts(3) by (simp add: cbc_padded_def Let_def n_def)
    moreover have "ucast (last (cbc_padded PlainText)) = (of_nat (unat (last (cbc_padded PlainText))) :: u32)"
      by (simp only: of_nat_unat)
    moreover have "of_nat n = PlainTextLength" using assms(4) by (simp add: n_def)
    ultimately show ?thesis by (simp only: of_nat_add add_diff_cancel_right')
  qed
  ultimately have "AES_CBC_Decrypt c (of_nat (length c)) Key KeyLength IV 16 PlainCap = Some (cbc_padded PlainText, PlainTextLength)"
    using assms(1) mod16(2) cl by (simp add: AES_CBC_Decrypt_def cbc_padded_facts last_conv_nth)
  moreover have "take (unat PlainTextLength) (cbc_padded PlainText) = PlainText"
    using assms(4) by (simp add: cbc_padded_def Let_def)
  ultimately show ?thesis using enc cl mod16(1) by metis
qed

lemma AES_CBC_roundtrip_witness:
  "\<exists>c cl p. AES_CBC_Encrypt [1, 2, 3] 3 (replicate 16 7) 16 (replicate 16 9) 16 32 = Some (c, cl) \<and>
      length c = unat cl \<and> cl mod 16 = 0 \<and>
      AES_CBC_Decrypt c cl (replicate 16 7) 16 (replicate 16 9) 16 32 = Some (p, 3) \<and>
      take (unat (3::u32)) p = [1, 2, 3]"
  by (rule AES_CBC_roundtrip) (simp_all add: valid_key_length_def)

section \<open>Key wrap\<close>

text \<open>
  The output block of a call of the cipher. Where the cipher refuses its arguments it writes
  nothing; the block is zero then, as after the \<open>NdisZeroMemory\<close> that precedes such a call in
  \<open>AES_CCM_MAC\<close>. The other callers have checked the key length before.
\<close>

definition encrypted_block :: "bytes \<Rightarrow> u32 \<Rightarrow> bytes \<Rightarrow> bytes" where
  "encrypted_block Key KeyLength b =
     (case RT_AES_Encrypt b 16 Key KeyLength 16 of Some (c, _) \<Rightarrow> c | None \<Rightarrow> replicate 16 0)"

definition decrypted_block :: "bytes \<Rightarrow> u32 \<Rightarrow> bytes \<Rightarrow> bytes" where
  "decrypted_block Key KeyLength b =
     (case RT_AES_Decrypt b 16 Key KeyLength 16 of Some (p, _) \<Rightarrow> p | None \<Rightarrow> replicate 16 0)"

lemma block_as_cipher:
  assumes "valid_key_length KeyLength" and "length Key = unat KeyLength"
  shows "encrypted_block Key KeyLength b = aes_E Key b" and "decrypted_block Key KeyLength b = aes_D Key b"
  using assms by (simp_all add: encrypted_block_def decrypted_block_def RT_AES_as_cipher)

definition Default_IV :: bytes where
  "Default_IV = [0xa6, 0xa6, 0xa6, 0xa6, 0xa6, 0xa6, 0xa6, 0xa6]"

text \<open>A write of eight bytes at a position of \<open>pResult\<close>.\<close>

definition put8 :: "bytes \<Rightarrow> nat \<Rightarrow> bytes \<Rightarrow> bytes" where
  "put8 R k b = take k R @ b @ drop (k + 8) R"

text \<open>One pass of the inner loops, on \<open>IV\<close> and \<open>pResult\<close>, with the two loop counters.\<close>

definition wrap_step :: "(bytes \<Rightarrow> bytes) \<Rightarrow> nat \<Rightarrow> bytes \<times> bytes \<Rightarrow> nat \<times> nat \<Rightarrow> bytes \<times> bytes" where
  "wrap_step E Number_Of_Block s ji =
     (case (s, ji) of ((IV, R), (Index_j, Index_i)) \<Rightarrow>
        (let Block_B = E (IV @ subarray (Index_i * 8) 8 R)
         in ((take 8 Block_B)[7 := Block_B ! 7 XOR of_nat (Number_Of_Block * Index_j + Index_i + 1)],
             put8 R (Index_i * 8) (drop 8 Block_B))))"

definition unwrap_step :: "(bytes \<Rightarrow> bytes) \<Rightarrow> nat \<Rightarrow> bytes \<times> bytes \<Rightarrow> nat \<times> nat \<Rightarrow> bytes \<times> bytes" where
  "unwrap_step D Number_Of_Block s ji =
     (case (s, ji) of ((IV, R), (Index_j, Index_i)) \<Rightarrow>
        (let IV' = IV[7 := IV ! 7 XOR of_nat (Number_Of_Block * Index_j + Index_i + 1)];
             Block_B = D (IV' @ subarray (Index_i * 8) 8 R)
         in (take 8 Block_B, put8 R (Index_i * 8) (drop 8 Block_B))))"

text \<open>The counters of the two nested loops, in the order of wrapping; unwrapping runs backwards.\<close>

definition wrap_indices :: "nat \<Rightarrow> (nat \<times> nat) list" where
  "wrap_indices Number_Of_Block = List.product [0..<6] [0..<Number_Of_Block]"

text \<open>
  The function value, and the bytes written with their number; \<open>alloc\<close> is the outcome of
  \<open>os_alloc_mem\<close>.
\<close>

definition AES_Key_Wrap :: "bool \<Rightarrow> bytes \<Rightarrow> u32 \<Rightarrow> bytes \<Rightarrow> u32 \<Rightarrow> int \<times> (bytes \<times> u32) option" where
  "AES_Key_Wrap alloc PlainText PlainTextLength Key KeyLength =
     (if \<not> valid_key_length KeyLength then (-1, None)
      else if \<not> alloc then (-2, None)
      else
       (let n = unat PlainTextLength;
            Number_Of_Block = n div 8;
            (IV, R) = foldl (wrap_step (encrypted_block Key KeyLength) Number_Of_Block)
                        (Default_IV, take n PlainText) (wrap_indices Number_Of_Block)
        in (0, Some (IV @ R, PlainTextLength + 8))))"

definition AES_Key_Unwrap :: "bool \<Rightarrow> bytes \<Rightarrow> u32 \<Rightarrow> bytes \<Rightarrow> u32 \<Rightarrow> int \<times> (bytes \<times> u32) option" where
  "AES_Key_Unwrap alloc CipherText CipherTextLength Key KeyLength =
     (let PlainLength = CipherTextLength - 8 in
      if \<not> valid_key_length KeyLength then (-1, None)
      else if \<not> alloc then (-2, None)
      else
       (let n = unat PlainLength;
            Number_Of_Block = n div 8;
            (IV, R) = foldl (unwrap_step (decrypted_block Key KeyLength) Number_Of_Block)
                        (take 8 CipherText, subarray 8 n CipherText) (rev (wrap_indices Number_Of_Block))
        in (0, Some (R, PlainLength))))"

text \<open>Undoing a sequence of steps backwards.\<close>

lemma foldl_undo:
  assumes "\<And>s x. I s \<Longrightarrow> x \<in> set xs \<Longrightarrow> I (f s x) \<and> g (f s x) x = s"
  shows "I s \<Longrightarrow> I (foldl f s xs) \<and> foldl g (foldl f s xs) (rev xs) = s"
  using assms by (induction xs rule: rev_induct) auto

definition wrap_state_ok :: "nat \<Rightarrow> bytes \<times> bytes \<Rightarrow> bool" where
  "wrap_state_ok n s \<longleftrightarrow> length (fst s) = 8 \<and> length (snd s) = n"

lemma length_put8 [simp]: "k + 8 \<le> length R \<Longrightarrow> length b = 8 \<Longrightarrow> length (put8 R k b) = length R"
  by (simp add: put8_def)

lemma put8_put8: "k + 8 \<le> length R \<Longrightarrow> length a = 8 \<Longrightarrow> put8 (put8 R k a) k b = put8 R k b"
  by (simp add: put8_def)

lemma put8_subarray: "k + 8 \<le> length R \<Longrightarrow> put8 R k (subarray k 8 R) = R"
  by (simp add: put8_def subarray_def) (metis append_take_drop_id drop_drop add.commute)

lemma subarray_put8: "k + 8 \<le> length R \<Longrightarrow> length a = 8 \<Longrightarrow> subarray k 8 (put8 R k a) = a"
  by (simp add: put8_def subarray_def)

context block_cipher
begin

lemma unwrap_wrap_step:
  assumes "wrap_state_ok n s" and "ji \<in> set (wrap_indices (n div 8))"
  shows "wrap_state_ok n (wrap_step E N s ji) \<and> unwrap_step D N (wrap_step E N s ji) ji = s"
proof -
  obtain IV R j i where s: "s = (IV, R)" "ji = (j, i)" by (cases s, cases ji)
  have i: "i * 8 + 8 \<le> length R" and l: "length IV = 8" "length R = n"
    using assms s by (auto simp: wrap_state_ok_def wrap_indices_def)
  define B where "B = E (IV @ subarray (i * 8) 8 R)"
  have B: "length B = 16" "D B = IV @ subarray (i * 8) 8 R"
    using i l by (simp_all add: B_def E_length D_E)
  have "(take 8 B)[7 := B ! 7] @ drop 8 B = B" using B(1) by (simp add: list_update_same_conv [THEN iffD2])
  then show ?thesis
    using B i l by (simp add: s wrap_step_def unwrap_step_def Let_def wrap_state_ok_def put8_put8 put8_subarray
        subarray_put8 flip: B_def)
qed

lemma unwrap_wrap:
  assumes "length IV = 8" and "length R = n"
  shows "wrap_state_ok n (foldl (wrap_step E (n div 8)) (IV, R) (wrap_indices (n div 8)))"
    and "foldl (unwrap_step D (n div 8)) (foldl (wrap_step E (n div 8)) (IV, R) (wrap_indices (n div 8)))
           (rev (wrap_indices (n div 8))) = (IV, R)"
  using foldl_undo [where I = "wrap_state_ok n" and f = "wrap_step E (n div 8)" and g = "unwrap_step D (n div 8)",
      OF unwrap_wrap_step, of "wrap_indices (n div 8)" "(IV, R)"] assms
  by (auto simp: wrap_state_ok_def)

end

text \<open>
  Unwrapping a wrapped key gives the key back: for every key encryption key of 16, 24 or 32 bytes
  and every plain text whose wrapped length fits the length argument, both functions return 0, and
  the plain text comes back with its length.
\<close>

theorem AES_Key_Wrap_roundtrip:
  assumes "valid_key_length KeyLength" and "length Key = unat KeyLength"
    and "length PlainText = unat PlainTextLength" and "unat PlainTextLength + 8 < 2 ^ 32"
  shows "\<exists>c. AES_Key_Wrap True PlainText PlainTextLength Key KeyLength = (0, Some (c, PlainTextLength + 8)) \<and>
    length c = length PlainText + 8 \<and>
    AES_Key_Unwrap True c (PlainTextLength + 8) Key KeyLength = (0, Some (PlainText, PlainTextLength))"
proof -
  define n where "n = length PlainText"
  have n: "unat PlainTextLength = n" using assms(3) by (simp add: n_def)
  obtain IV R where w: "foldl (wrap_step (aes_E Key) (n div 8)) (Default_IV, PlainText) (wrap_indices (n div 8)) = (IV, R)"
    by fastforce
  have l: "length IV = 8" "length R = n"
    and u: "foldl (unwrap_step (aes_D Key) (n div 8)) (IV, R) (rev (wrap_indices (n div 8))) = (Default_IV, PlainText)"
    using aes.unwrap_wrap [of Default_IV PlainText n Key] w
    by (simp_all add: Default_IV_def n_def wrap_state_ok_def)
  have "encrypted_block Key KeyLength = aes_E Key" "decrypted_block Key KeyLength = aes_D Key"
    using block_as_cipher [OF assms(1,2)] by auto
  then have "AES_Key_Wrap True PlainText PlainTextLength Key KeyLength = (0, Some (IV @ R, PlainTextLength + 8))"
    and "AES_Key_Unwrap True (IV @ R) (PlainTextLength + 8) Key KeyLength = (0, Some (PlainText, PlainTextLength))"
    using assms(1) w u l by (simp_all add: AES_Key_Wrap_def AES_Key_Unwrap_def n Let_def subarray_def n_def)
  then show ?thesis using l n_def by auto
qed

lemma AES_Key_Wrap_roundtrip_witness:
  "\<exists>c. AES_Key_Wrap True (replicate 24 5) 24 (replicate 16 1) 16 = (0, Some (c, 24 + 8)) \<and>
    length c = length (replicate 24 (5::u8)) + 8 \<and>
    AES_Key_Unwrap True c (24 + 8) (replicate 16 1) 16 = (0, Some (replicate 24 5, 24))"
  by (rule AES_Key_Wrap_roundtrip) (simp_all add: valid_key_length_def)

end
