(* ===== verification/Crypt_AES_CCM.thy ===== *)
theory Crypt_AES_CCM
  imports Crypt_AES_Modes
begin

text \<open>
  The authenticated mode CCM of the driver and the message authentication code CMAC
  (\<open>rt5370.driver/common/crypt_aes.c\<close>), over the block cipher of \<open>Crypt_AES\<close>. The arrays are taken to
  hold the bytes that the length arguments announce.
\<close>

section \<open>The authentication code of CCM\<close>

text \<open>The first block: flags, nonce and payload length.\<close>

definition ccm_B0 :: "bytes \<Rightarrow> u32 \<Rightarrow> u32 \<Rightarrow> u32 \<Rightarrow> u32 \<Rightarrow> bytes" where
  "ccm_B0 Nonce NonceLength AADLength PayloadLength MACLength =
     (let B = (replicate 16 0)[0 := if AADLength > 0 then 0x40 else 0];
          B = B[0 := B ! 0 OR ucast (push_bit 3 (drop_bit 1 (MACLength - 2)))];
          B = B[0 := B ! 0 OR ucast ((15 - NonceLength) - 1)];
          B = foldl (\<lambda>B Temp_Index. B[Temp_Index + 1 := Nonce ! Temp_Index]) B [0..<unat NonceLength];
          B = (if NonceLength < 12 then B[12 := ucast (drop_bit 24 PayloadLength AND 0xff)] else B);
          B = (if NonceLength < 13 then B[13 := ucast (drop_bit 16 PayloadLength AND 0xff)] else B);
          B = B[14 := ucast (drop_bit 8 PayloadLength AND 0xff)]
      in B[15 := ucast (PayloadLength AND 0xff)])"

text \<open>The length of the associated data in front of it: the block and the next free position.\<close>

definition ccm_aad_head :: "u32 \<Rightarrow> bytes \<times> nat" where
  "ccm_aad_head AADLength =
     (if 0 < AADLength \<and> AADLength < 0xFF00 then
        ((replicate 16 0)[0 := ucast (drop_bit 8 AADLength AND 0xff), 1 := ucast (AADLength AND 0xff)], 2)
      else
        ((replicate 16 0)[2 := ucast (drop_bit 24 AADLength AND 0xff), 3 := ucast (drop_bit 16 AADLength AND 0xff),
           4 := ucast (drop_bit 8 AADLength AND 0xff), 5 := ucast (AADLength AND 0xff)], 6))"

text \<open>
  The loops over the associated data and over the payload: fill the block from \<open>Block_Index\<close>, add the
  code so far, encrypt, and go on with an empty block. \<open>Block_Index\<close> is 2 or 6 in the first pass over
  the associated data and 0 otherwise; that it is below 16 makes every pass consume a byte.
\<close>

function ccm_absorb :: "(bytes \<Rightarrow> bytes) \<Rightarrow> bytes \<Rightarrow> nat \<Rightarrow> bytes \<Rightarrow> nat \<Rightarrow> bytes \<Rightarrow> nat \<Rightarrow> bytes" where
  "ccm_absorb E Data DataLength Blk Block_Index Block_MAC Index =
     (if Index < DataLength \<and> Block_Index < 16 then
       (let Copy_Length = DataLength - Index;
            Copy_Length = (if Copy_Length > 16 then 16 else Copy_Length);
            Copy_Length = (if Copy_Length + Block_Index > 16 then 16 - Block_Index else Copy_Length);
            Blk = take Block_Index Blk @ subarray Index Copy_Length Data @ drop (Block_Index + Copy_Length) Blk;
            Blk = xor_bytes Blk Block_MAC
        in ccm_absorb E Data DataLength (replicate 16 0) 0 (E Blk) (Index + Copy_Length))
      else Block_MAC)"
  by pat_completeness auto
termination
  by (relation "measure (\<lambda>(_, _, n, _, _, _, i). n - i)") (auto simp: Let_def)

declare ccm_absorb.simps [simp del]

definition AES_CCM_MAC :: "bytes \<Rightarrow> u32 \<Rightarrow> bytes \<Rightarrow> u32 \<Rightarrow> bytes \<Rightarrow> u32 \<Rightarrow> bytes \<Rightarrow> u32 \<Rightarrow> u32 \<Rightarrow> bytes" where
  "AES_CCM_MAC Payload PayloadLength Key KeyLength Nonce NonceLength AAD AADLength MACLength =
     (let E = encrypted_block Key KeyLength;
          Block_MAC = E (ccm_B0 Nonce NonceLength AADLength PayloadLength MACLength);
          (Blk, Block_Index) = ccm_aad_head AADLength;
          Block_MAC = ccm_absorb E AAD (unat AADLength) Blk Block_Index Block_MAC 0;
          Block_MAC = ccm_absorb E Payload (unat PayloadLength) (replicate 16 0) 0 Block_MAC 0
      in take (unat MACLength) Block_MAC)"

section \<open>Encryption and decryption in CCM\<close>

definition ccm_CTR0 :: "bytes \<Rightarrow> u32 \<Rightarrow> bytes" where
  "ccm_CTR0 Nonce NonceLength =
     foldl (\<lambda>B Temp_Index. B[Temp_Index + 1 := Nonce ! Temp_Index])
       ((replicate 16 0)[0 := ucast ((15 - NonceLength) - 1)]) [0..<unat NonceLength]"

text \<open>The loop over the text, the same in both directions; only the last byte of the counter counts.\<close>

function ccm_ctr_loop :: "(bytes \<Rightarrow> bytes) \<Rightarrow> bytes \<Rightarrow> nat \<Rightarrow> bytes \<Rightarrow> nat \<Rightarrow> bytes \<Rightarrow> bytes" where
  "ccm_ctr_loop E Txt n Block_CTR Cipher_Index Out =
     (if Cipher_Index < n then
       (let Block_CTR = Block_CTR[15 := Block_CTR ! 15 + 1];
            Block_CTR_Cipher = E Block_CTR;
            Copy_Length = n - Cipher_Index;
            Copy_Length = (if Copy_Length > 16 then 16 else Copy_Length)
        in ccm_ctr_loop E Txt n Block_CTR (Cipher_Index + Copy_Length)
             (Out @ xor_bytes (subarray Cipher_Index Copy_Length Txt) Block_CTR_Cipher))
      else Out)"
  by pat_completeness auto
termination
  by (relation "measure (\<lambda>(_, _, n, _, i, _). n - i)") (auto simp: Let_def)

declare ccm_ctr_loop.simps [simp del]

definition valid_MACLength :: "u32 \<Rightarrow> bool" where
  "valid_MACLength MACLength \<longleftrightarrow> MACLength \<in> set [4, 6, 8, 10, 12, 14, 16]"

definition AES_CCM_Encrypt ::
  "bytes \<Rightarrow> u32 \<Rightarrow> bytes \<Rightarrow> u32 \<Rightarrow> bytes \<Rightarrow> u32 \<Rightarrow> bytes \<Rightarrow> u32 \<Rightarrow> u32 \<Rightarrow> u32 \<Rightarrow> int \<times> (bytes \<times> u32) option" where
  "AES_CCM_Encrypt PlainText PlainTextLength Key KeyLength Nonce NonceLength AAD AADLength MACLength CipherTextLength =
     (if KeyLength \<noteq> 16 then (-1, None)
      else if NonceLength < 7 \<or> NonceLength > 13 then (-2, None)
      else if \<not> valid_MACLength MACLength then (-3, None)
      else if CipherTextLength < PlainTextLength + MACLength then (-4, None)
      else
       (let E = encrypted_block Key KeyLength;
            Block_CTR = ccm_CTR0 Nonce NonceLength;
            Block_MAC = AES_CCM_MAC PlainText PlainTextLength Key KeyLength Nonce NonceLength AAD AADLength MACLength;
            Block_MAC = xor_bytes Block_MAC (E Block_CTR);
            C = ccm_ctr_loop E PlainText (unat PlainTextLength) Block_CTR 0 []
        in (0, Some (C @ Block_MAC, PlainTextLength + MACLength))))"

definition AES_CCM_Decrypt ::
  "bytes \<Rightarrow> u32 \<Rightarrow> bytes \<Rightarrow> u32 \<Rightarrow> bytes \<Rightarrow> u32 \<Rightarrow> bytes \<Rightarrow> u32 \<Rightarrow> u32 \<Rightarrow> u32 \<Rightarrow> int \<times> (bytes \<times> u32) option" where
  "AES_CCM_Decrypt CipherText CipherTextLength Key KeyLength Nonce NonceLength AAD AADLength MACLength PlainTextLength =
     (if KeyLength \<noteq> 16 then (-1, None)
      else if NonceLength < 7 \<or> NonceLength > 13 then (-2, None)
      else if \<not> valid_MACLength MACLength then (-3, None)
      else if PlainTextLength < CipherTextLength - MACLength then (-4, None)
      else
       (let E = encrypted_block Key KeyLength;
            Block_CTR = ccm_CTR0 Nonce NonceLength;
            n = unat (CipherTextLength - MACLength);
            Block_MAC_From_Cipher = xor_bytes (subarray n (unat MACLength) CipherText) (E Block_CTR);
            PlainText = ccm_ctr_loop E CipherText n Block_CTR 0 [];
            Block_MAC = AES_CCM_MAC PlainText (CipherTextLength - MACLength) Key KeyLength Nonce NonceLength
                          AAD AADLength MACLength
        in if Block_MAC_From_Cipher \<noteq> Block_MAC
           then (-5, Some (PlainText, CipherTextLength - MACLength))
           else (0, Some (PlainText, CipherTextLength - MACLength))))"

section \<open>The key stream\<close>

function ccm_stream :: "(bytes \<Rightarrow> bytes) \<Rightarrow> bytes \<Rightarrow> nat \<Rightarrow> bytes" where
  "ccm_stream E Block_CTR n =
     (if n = 0 then [] else
       (let Block_CTR = Block_CTR[15 := Block_CTR ! 15 + 1]
        in take n (E Block_CTR) @ ccm_stream E Block_CTR (n - 16)))"
  by pat_completeness auto
termination
  by (relation "measure (\<lambda>(_, _, n). n)") auto

declare ccm_stream.simps [simp del]

lemma xor_bytes_append:
  "length a = length b \<Longrightarrow> xor_bytes (a @ c) (b @ d) = xor_bytes a b @ xor_bytes c d"
  by (simp add: xor_bytes_def)

lemma xor_bytes_take: "xor_bytes a (take (length a) b) = xor_bytes a b"
  by (rule nth_equalityI) simp_all

context block_cipher
begin

lemma length_ccm_stream: "length (ccm_stream E CTR n) = n"
proof (induction n arbitrary: CTR rule: less_induct)
  case (less n)
  then show ?case by (subst ccm_stream.simps) (simp add: Let_def E_length min_def)
qed

lemma ccm_ctr_loop_eq:
  assumes "n \<le> length T"
  shows "i \<le> n \<Longrightarrow> ccm_ctr_loop E T n CTR i Out = Out @ xor_bytes (subarray i (n - i) T) (ccm_stream E CTR (n - i))"
proof (induction "n - i" arbitrary: i CTR Out rule: less_induct)
  case less
  show ?case
  proof (cases "i < n")
    case True
    define CTR' where "CTR' = CTR[15 := CTR ! 15 + 1]"
    define k where "k = (if n - i > 16 then 16 else n - i)"
    have k: "0 < k" "i + k \<le> n" "k \<le> 16" "n - (i + k) = n - i - 16" using True by (auto simp: k_def)
    have "ccm_ctr_loop E T n CTR i Out = ccm_ctr_loop E T n CTR' (i + k) (Out @ xor_bytes (subarray i k T) (E CTR'))"
      using True by (subst ccm_ctr_loop.simps) (simp add: Let_def CTR'_def k_def)
    also have "\<dots> = (Out @ xor_bytes (subarray i k T) (E CTR')) @
        xor_bytes (subarray (i + k) (n - (i + k)) T) (ccm_stream E CTR' (n - (i + k)))"
      by (rule less.hyps) (use True k in auto)
    also have "\<dots> = Out @ xor_bytes (subarray i k T @ subarray (i + k) (n - (i + k)) T)
        (take k (E CTR') @ ccm_stream E CTR' (n - (i + k)))"
      using k assms xor_bytes_take [of "subarray i k T" "E CTR'"] by (simp add: xor_bytes_append E_length)
    also have "subarray i k T @ subarray (i + k) (n - (i + k)) T = subarray i (n - i) T"
    proof -
      have "n - i = k + (n - (i + k))" using k by simp
      then show ?thesis by (metis subarray_def take_add drop_drop add.commute)
    qed
    also have "take k (E CTR') @ ccm_stream E CTR' (n - (i + k)) = ccm_stream E CTR (n - i)"
      unfolding k(4) using True
      by (subst (2) ccm_stream.simps) (simp add: Let_def CTR'_def [symmetric] k_def E_length)
    finally show ?thesis .
  next
    case False
    then show ?thesis using less.prems by (subst ccm_ctr_loop.simps) (simp add: subarray_def)
  qed
qed

end

section \<open>Decryption accepts what encryption produces, and nothing else\<close>

lemma valid_16 [simp]: "valid_key_length 16"
  by (simp add: valid_key_length_def)

lemma unat_valid_MACLength: "valid_MACLength m \<Longrightarrow> unat m \<le> 16"
  by (auto simp: valid_MACLength_def)

lemma encrypted_block_16: "length Key = 16 \<Longrightarrow> encrypted_block Key 16 = aes_E Key"
  by (rule ext) (simp add: block_as_cipher)

lemma xor_bytes_swap:
  assumes "length a \<le> length k" and "length b \<le> length k" and "length a = length b"
  shows "xor_bytes a k = b \<longleftrightarrow> a = xor_bytes b k"
  by (metis assms(1,2) xor_bytes_cancel_right)

lemma length_ccm_absorb: "length MAC = 16 \<Longrightarrow> length (ccm_absorb (aes_E Key) Data n Blk bi MAC i) = 16"
proof (induction "n - i" arbitrary: Blk bi MAC i rule: less_induct)
  case less
  show ?case
  proof (cases "i < n \<and> bi < 16")
    case True
    then show ?thesis by (subst ccm_absorb.simps) (auto simp: Let_def intro!: less.hyps)
  qed (use less.prems in \<open>subst ccm_absorb.simps, auto\<close>)
qed

lemma length_AES_CCM_MAC:
  "length Key = 16 \<Longrightarrow> unat m \<le> 16 \<Longrightarrow> length (AES_CCM_MAC P n Key 16 Nonce NL AAD AL m) = unat m"
  by (cases "ccm_aad_head AL") (simp add: AES_CCM_MAC_def encrypted_block_16 length_ccm_absorb Let_def)

text \<open>
  CCM is exact: with the same key, nonce, associated data and code length, decryption accepts a
  cipher text with the plain text \<open>p\<close> as its result if and only if encryption of \<open>p\<close> produces that
  cipher text. So every encrypted text is decrypted to the original, and a text that was changed
  anywhere is accepted only if it is itself the encryption of what it decrypts to.
\<close>

theorem AES_CCM_exact:
  assumes "length Key = 16" and "7 \<le> NonceLength" and "NonceLength \<le> 13" and "valid_MACLength MACLength"
    and "length p = unat n" and "unat n + unat MACLength < 2 ^ 32" and "length c = unat n + unat MACLength"
    and "n + MACLength \<le> CipherCap" and "n \<le> PlainCap"
  shows "AES_CCM_Decrypt c (n + MACLength) Key 16 Nonce NonceLength AAD AADLength MACLength PlainCap
        = (0, Some (p, n)) \<longleftrightarrow>
    AES_CCM_Encrypt p n Key 16 Nonce NonceLength AAD AADLength MACLength CipherCap
        = (0, Some (c, n + MACLength))"
proof -
  define m where "m = unat MACLength"
  define S where "S = ccm_stream (aes_E Key) (ccm_CTR0 Nonce NonceLength) (unat n)"
  define K0 where "K0 = aes_E Key (ccm_CTR0 Nonce NonceLength)"
  define mac where "mac = (\<lambda>p. AES_CCM_MAC p n Key 16 Nonce NonceLength AAD AADLength MACLength)"
  have m: "m \<le> 16" using assms(4) by (simp add: m_def unat_valid_MACLength)
  have l: "length S = unat n" "length K0 = 16" "length (mac q) = m" for q
    using m assms(1) by (simp_all add: S_def K0_def mac_def m_def aes.length_ccm_stream length_AES_CCM_MAC)
  have E: "AES_CCM_Encrypt p n Key 16 Nonce NonceLength AAD AADLength MACLength CipherCap =
      (0, Some (xor_bytes p S @ xor_bytes (mac p) K0, n + MACLength))"
    using assms by (simp add: AES_CCM_Encrypt_def encrypted_block_16 aes.ccm_ctr_loop_eq Let_def S_def K0_def
        mac_def subarray_def not_less)
  have D: "AES_CCM_Decrypt c (n + MACLength) Key 16 Nonce NonceLength AAD AADLength MACLength PlainCap =
      (if xor_bytes (drop (unat n) c) K0 \<noteq> mac (xor_bytes (take (unat n) c) S) then -5 else 0,
       Some (xor_bytes (take (unat n) c) S, n))"
    using assms by (simp add: AES_CCM_Decrypt_def encrypted_block_16 aes.ccm_ctr_loop_eq Let_def S_def K0_def
        mac_def subarray_def not_less)
  have "xor_bytes (take (unat n) c) S = p \<longleftrightarrow> take (unat n) c = xor_bytes p S"
    using assms(5,7) l by (intro xor_bytes_swap) simp_all
  moreover have "xor_bytes (drop (unat n) c) K0 = mac p \<longleftrightarrow> drop (unat n) c = xor_bytes (mac p) K0"
    using assms(5,7) l m by (intro xor_bytes_swap) (simp_all add: m_def)
  moreover have "xor_bytes p S @ xor_bytes (mac p) K0 = c \<longleftrightarrow>
      take (unat n) c = xor_bytes p S \<and> drop (unat n) c = xor_bytes (mac p) K0"
    using l assms(5) by (auto simp: append_eq_conv_conj)
  moreover have "AES_CCM_Decrypt c (n + MACLength) Key 16 Nonce NonceLength AAD AADLength MACLength PlainCap
        = (0, Some (p, n)) \<longleftrightarrow>
      xor_bytes (take (unat n) c) S = p \<and> xor_bytes (drop (unat n) c) K0 = mac p"
    unfolding D by auto
  ultimately show ?thesis unfolding E by simp
qed

lemma AES_CCM_exact_witness:
  "AES_CCM_Decrypt (replicate 11 0) (3 + 8) (replicate 16 7) 16 (replicate 13 1) 13 [] 0 8 3
        = (0, Some ([1, 2, 3], 3)) \<longleftrightarrow>
    AES_CCM_Encrypt [1, 2, 3] 3 (replicate 16 7) 16 (replicate 13 1) 13 [] 0 8 16
        = (0, Some (replicate 11 0, 3 + 8))"
  by (rule AES_CCM_exact) (simp_all add: valid_MACLength_def)

section \<open>The code is the CBC-MAC of the formatted input\<close>

definition pad16 :: "bytes \<Rightarrow> bytes" where
  "pad16 x = x @ replicate ((16 - length x mod 16) mod 16) 0"

definition cbc_mac :: "(bytes \<Rightarrow> bytes) \<Rightarrow> bytes \<Rightarrow> bytes list \<Rightarrow> bytes" where
  "cbc_mac E X Bs = foldl (\<lambda>X B. E (xor_bytes B X)) X Bs"

lemma pad16_block: "length b = 16 \<Longrightarrow> blocks16 (pad16 (b @ x)) = b # blocks16 (pad16 x)"
  by (simp add: pad16_def blocks16_Cons)

lemma pad16_last: "0 < length b \<Longrightarrow> length b \<le> 16 \<Longrightarrow> blocks16 (pad16 b) = [b @ replicate (16 - length b) 0]"
  by (cases "length b = 16") (simp_all add: pad16_def blocks16_one)

context block_cipher
begin

lemma ccm_absorb_cbc_mac:
  assumes "n \<le> length Data"
  shows "i < n \<Longrightarrow> bi < 16 \<Longrightarrow> length Blk = 16 \<Longrightarrow> drop bi Blk = replicate (16 - bi) 0 \<Longrightarrow>
    ccm_absorb E Data n Blk bi MAC i =
      cbc_mac E MAC (blocks16 (pad16 (take bi Blk @ subarray i (n - i) Data)))"
proof (induction "n - i" arbitrary: i bi Blk MAC rule: less_induct)
  case less
  define k where "k = min (n - i) (16 - bi)"
  define B where "B = take bi Blk @ subarray i k Data @ drop (bi + k) Blk"
  have k: "0 < k" "i + k \<le> n" "bi + k \<le> 16" using less.prems by (auto simp: k_def)
  have step: "ccm_absorb E Data n Blk bi MAC i =
      ccm_absorb E Data n (replicate 16 0) 0 (E (xor_bytes B MAC)) (i + k)"
    using less.prems unfolding B_def k_def
    by (subst ccm_absorb.simps) (auto simp: Let_def min_def)
  have "drop (bi + k) Blk = drop k (drop bi Blk)" by (simp add: add.commute)
  then have zeros: "drop (bi + k) Blk = replicate (16 - (bi + k)) 0" using less.prems by simp
  show ?case
  proof (cases "i + k < n")
    case True
    then have k': "k = 16 - bi" by (auto simp: k_def min_def split: if_splits)
    have "ccm_absorb E Data n (replicate 16 0) 0 (E (xor_bytes B MAC)) (i + k) =
        cbc_mac E (E (xor_bytes B MAC)) (blocks16 (pad16 (subarray (i + k) (n - (i + k)) Data)))"
      using less.hyps [of "i + k" 0 "replicate 16 0"] True k by simp
    moreover have "take bi Blk @ subarray i (n - i) Data = B @ subarray (i + k) (n - (i + k)) Data"
    proof -
      have "n - i = k + (n - (i + k))" using k by simp
      then have "subarray i (n - i) Data = subarray i k Data @ subarray (i + k) (n - (i + k)) Data"
        by (metis subarray_def take_add drop_drop add.commute)
      then show ?thesis using k' less.prems(2) zeros by (simp add: B_def)
    qed
    moreover have "length B = 16" using k assms less.prems by (simp add: B_def)
    ultimately show ?thesis using step by (simp add: pad16_block cbc_mac_def)
  next
    case False
    then have k': "k = n - i" "i + k = n" using k by auto
    have "ccm_absorb E Data n (replicate 16 0) 0 (E (xor_bytes B MAC)) (i + k) = E (xor_bytes B MAC)"
      using False by (subst ccm_absorb.simps) simp
    moreover have "blocks16 (pad16 (take bi Blk @ subarray i (n - i) Data)) = [B]"
      using k k' assms less.prems zeros by (subst pad16_last) (simp_all add: B_def)
    ultimately show ?thesis using step by (simp add: cbc_mac_def)
  qed
qed

end

text \<open>
  The blocks of NIST 800-38C: the first block, the associated data behind its length in two bytes,
  and the payload, each padded with zeros to whole blocks.
\<close>

definition ccm_formatted :: "bytes \<Rightarrow> bytes \<Rightarrow> bytes \<Rightarrow> nat \<Rightarrow> bytes list" where
  "ccm_formatted Nonce AAD Payload MACLength =
     ccm_B0 Nonce (of_nat (length Nonce)) (of_nat (length AAD)) (of_nat (length Payload)) (of_nat MACLength) #
     (if AAD = [] then []
      else blocks16 (pad16 ([of_nat (length AAD div 256), of_nat (length AAD)] @ AAD))) @
     blocks16 (pad16 Payload)"

lemma length_foldl_update [simp]: "length (foldl (\<lambda>B i. B[g i := h i]) B is) = length B"
  by (induction "is" arbitrary: B) simp_all

lemma length_ccm_B0: "length (ccm_B0 Nonce NL AL PL ML) = 16"
  by (simp add: ccm_B0_def Let_def)

lemma low_byte: "(ucast (x AND 0xff) :: u8) = ucast (x :: u32)"
proof -
  have m: "(0xff :: u32) = mask 8" by (simp add: mask_eq_exp_minus_1)
  show ?thesis unfolding m by (intro bit_word_eqI) (auto simp: bit_ucast_iff bit_and_iff bit_mask_iff)
qed

lemma ccm_aad_head_short:
  assumes "0 < n" and "n < 0xFF00"
  shows "ccm_aad_head (of_nat n) = (of_nat (n div 256) # of_nat n # replicate 14 0, 2)"
proof -
  have u: "unat (of_nat n :: u32) = n" using assms(2) by (simp add: unat_of_nat)
  have "0 < (of_nat n :: u32)" "(of_nat n :: u32) < 0xFF00" using assms by (simp_all add: word_less_nat_alt u)
  moreover have "(ucast (of_nat n :: u32) :: u8) = of_nat n"
    using u by (metis of_nat_unat)
  moreover have "unat (drop_bit 8 (of_nat n :: u32)) = n div 256"
    by (simp add: drop_bit_eq_div unat_div u)
  then have "(ucast (drop_bit 8 (of_nat n :: u32)) :: u8) = of_nat (n div 256)"
    by (metis of_nat_unat)
  moreover have "replicate 16 (0::u8) = 0 # 0 # replicate 14 0" by (simp add: eval_nat_numeral)
  ultimately show ?thesis
    unfolding ccm_aad_head_def low_byte by (simp only: list_update.simps nat.case One_nat_def if_True simp_thms)
qed

text \<open>
  For a key of 16 bytes and associated data of less than 0xFF00 bytes, the authentication code is
  the one NIST 800-38C defines: the first bytes of the CBC-MAC of the formatted blocks.
\<close>

theorem AES_CCM_MAC_correct:
  assumes "length Key = 16" and "length Nonce < 2 ^ 32" and "length AAD < 0xFF00" and "length Payload < 2 ^ 32"
    and "MACLength \<le> 16"
  shows "AES_CCM_MAC Payload (of_nat (length Payload)) Key 16 Nonce (of_nat (length Nonce))
      AAD (of_nat (length AAD)) (of_nat MACLength) =
    take MACLength (cbc_mac (aes_E Key) (replicate 16 0) (ccm_formatted Nonce AAD Payload MACLength))"
proof -
  define B0 where "B0 = ccm_B0 Nonce (of_nat (length Nonce)) (of_nat (length AAD)) (of_nat (length Payload)) (of_nat MACLength)"
  have B0: "xor_bytes B0 (replicate 16 0) = B0"
    by (rule nth_equalityI) (simp_all add: B0_def length_ccm_B0)
  have payload: "ccm_absorb (aes_E Key) Payload (length Payload) (replicate 16 0) 0 X 0 =
      cbc_mac (aes_E Key) X (blocks16 (pad16 Payload))" for X
  proof (cases "Payload = []")
    case True
    then show ?thesis by (subst ccm_absorb.simps) (simp add: pad16_def blocks16_short cbc_mac_def)
  qed (simp add: aes.ccm_absorb_cbc_mac subarray_def)
  obtain Blk bi where head: "ccm_aad_head (of_nat (length AAD)) = (Blk, bi)" by fastforce
  have aad: "ccm_absorb (aes_E Key) AAD (length AAD) Blk bi X 0 = cbc_mac (aes_E Key) X
      (if AAD = [] then [] else blocks16 (pad16 ([of_nat (length AAD div 256), of_nat (length AAD)] @ AAD)))" for X
  proof (cases "AAD = []")
    case True
    then show ?thesis by (subst ccm_absorb.simps) (simp add: cbc_mac_def)
  next
    case False
    then have "Blk = of_nat (length AAD div 256) # of_nat (length AAD) # replicate 14 0" "bi = 2"
      using head ccm_aad_head_short [of "length AAD"] assms(3) by simp_all
    then show ?thesis using False by (simp add: aes.ccm_absorb_cbc_mac subarray_def)
  qed
  have "unat (of_nat (length AAD) :: u32) = length AAD" "unat (of_nat (length Payload) :: u32) = length Payload"
    "unat (of_nat MACLength :: u32) = MACLength"
    using assms by (simp_all add: unat_of_nat)
  then show ?thesis using assms(1) head
    by (simp add: AES_CCM_MAC_def Let_def encrypted_block_16 aad payload ccm_formatted_def B0 flip: B0_def)
       (simp add: cbc_mac_def B0)
qed

lemma AES_CCM_MAC_correct_witness:
  "AES_CCM_MAC [1, 2, 3] (of_nat (length [1::u8, 2, 3])) (replicate 16 7) 16 (replicate 13 1)
      (of_nat (length (replicate 13 (1::u8)))) [9] (of_nat (length [9::u8])) (of_nat 8) =
    take 8 (cbc_mac (aes_E (replicate 16 7)) (replicate 16 0) (ccm_formatted (replicate 13 1) [9] [1, 2, 3] 8))"
  by (rule AES_CCM_MAC_correct) simp_all

section \<open>CMAC\<close>

definition Const_Zero :: bytes where
  "Const_Zero = replicate 16 0"

definition Const_Rb :: bytes where
  "Const_Rb = replicate 15 0 @ [0x87]"

text \<open>The loop that shifts the 16 bytes to the left by one bit.\<close>

definition cmac_shift :: "bytes \<Rightarrow> bytes" where
  "cmac_shift b =
     map (\<lambda>Index. push_bit 1 (b ! Index) OR (if b ! (Index + 1) AND 0x80 \<noteq> 0 then 1 else 0)) [0..<15]
     @ [push_bit 1 (b ! 15)]"

definition AES_CMAC_GenerateSubKey :: "bytes \<Rightarrow> u32 \<Rightarrow> bytes \<Rightarrow> bytes \<Rightarrow> bytes \<times> bytes" where
  "AES_CMAC_GenerateSubKey Key KeyLength SubKey1 SubKey2 =
     (if KeyLength \<noteq> 16 then (SubKey1, SubKey2)
      else
       (let L = encrypted_block Key KeyLength Const_Zero;
            MSB_L = L ! 0 AND 0x80;
            SubKey1 = cmac_shift L;
            SubKey1 = (if MSB_L > 0 then xor_bytes SubKey1 Const_Rb else SubKey1);
            MSB_K1 = SubKey1 ! 0 AND 0x80;
            SubKey2 = cmac_shift SubKey1;
            SubKey2 = (if MSB_K1 > 0 then xor_bytes SubKey2 Const_Rb else SubKey2)
        in (SubKey1, SubKey2)))"

function cmac_loop :: "(bytes \<Rightarrow> bytes) \<Rightarrow> bytes \<Rightarrow> nat \<Rightarrow> nat \<Rightarrow> bytes \<Rightarrow> nat \<times> bytes" where
  "cmac_loop E PlainText n PlainBlockStart X =
     (if n - PlainBlockStart > 16
      then cmac_loop E PlainText n (PlainBlockStart + 16) (E (xor_bytes (subarray PlainBlockStart 16 PlainText) X))
      else (PlainBlockStart, X))"
  by pat_completeness auto
termination
  by (relation "measure (\<lambda>(_, _, n, s, _). n - s)") auto

declare cmac_loop.simps [simp del]

definition AES_CMAC :: "bytes \<Rightarrow> u32 \<Rightarrow> bytes \<Rightarrow> u32 \<Rightarrow> u32 \<Rightarrow> (bytes \<times> u32) option" where
  "AES_CMAC PlainText PlainTextLength Key KeyLength MACTextLength =
     (if MACTextLength < 16 then None
      else if KeyLength \<noteq> 16 then None
      else
       (let E = encrypted_block Key KeyLength;
            (SubKey1, SubKey2) = AES_CMAC_GenerateSubKey Key KeyLength (replicate 16 0) (replicate 16 0);
            n = unat PlainTextLength;
            (PlainBlockStart, X) = cmac_loop E PlainText n 0 Const_Zero;
            Y = (if n - PlainBlockStart = 16
                 then xor_bytes (xor_bytes (subarray PlainBlockStart 16 PlainText) X) SubKey1
                 else
                  (let r = n - PlainBlockStart;
                       Y = (subarray PlainBlockStart r PlainText @ replicate (16 - r) 0)[r := 0x80]
                   in xor_bytes (xor_bytes Y X) SubKey2))
        in RT_AES_Encrypt Y 16 Key KeyLength MACTextLength))"

text \<open>The reference: a block as a word of 128 bits, and its doubling in the field of RFC 4493.\<close>

definition be128 :: "bytes \<Rightarrow> 128 word" where
  "be128 b = foldl (\<lambda>w x. push_bit 8 w OR ucast x) 0 b"

definition cmac_double :: "128 word \<Rightarrow> 128 word" where
  "cmac_double L = (if bit L 127 then push_bit 1 L XOR 0x87 else push_bit 1 L)"

text \<open>The last block, complete or padded with a one bit and zeros, with its subkey.\<close>

definition cmac_last :: "bytes \<Rightarrow> bytes \<Rightarrow> bytes \<Rightarrow> bytes" where
  "cmac_last K1 K2 r =
     (if length r = 16 then xor_bytes r K1 else xor_bytes (r @ 0x80 # replicate (15 - length r) 0) K2)"

definition cmac :: "(bytes \<Rightarrow> bytes) \<Rightarrow> bytes \<Rightarrow> bytes \<Rightarrow> bytes \<Rightarrow> bytes" where
  "cmac E K1 K2 m =
     (let k = 16 * ((length m - 1) div 16)
      in cbc_mac E (replicate 16 0) (blocks16 (take k m) @ [cmac_last K1 K2 (drop k m)]))"

lemma bit_be128_foldl:
  fixes b :: bytes
  shows "n < 128 \<Longrightarrow> bit (foldl (\<lambda>w x. push_bit 8 w OR ucast x) (0 :: 128 word) b) n \<longleftrightarrow>
    n div 8 < length b \<and> bit (b ! (length b - 1 - n div 8)) (n mod 8)"
proof (induction b arbitrary: n rule: rev_induct)
  case (snoc x b)
  show ?case
  proof (cases "n < 8")
    case True
    then show ?thesis
      using snoc.prems by (simp add: bit_or_iff bit_push_bit_iff bit_ucast_iff)
  next
    case False
    then have n: "n div 8 = Suc ((n - 8) div 8)" "n mod 8 = (n - 8) mod 8"
      by (simp_all add: le_div_geq le_mod_geq)
    have "bit (foldl (\<lambda>w x. push_bit 8 w OR ucast x) (0 :: 128 word) (b @ [x])) n \<longleftrightarrow>
        bit (foldl (\<lambda>w x. push_bit 8 w OR ucast x) (0 :: 128 word) b) (n - 8)"
      using False snoc.prems bit_imp_le_length [of x n] by (auto simp: bit_or_iff bit_push_bit_iff bit_ucast_iff)
    then show ?thesis using snoc.IH [of "n - 8"] snoc.prems unfolding n
      by (auto simp: nth_append)
  qed
qed simp

lemma bit_be128: "n < 128 \<Longrightarrow> length b = 16 \<Longrightarrow> bit (be128 b) n \<longleftrightarrow> bit (b ! (15 - n div 8)) (n mod 8)"
  by (simp add: be128_def bit_be128_foldl div_less_iff_less_mult)

lemma length_cmac_shift [simp]: "length (cmac_shift b) = 16"
  by (simp add: cmac_shift_def)

lemma top_bit: "(x :: u8) AND 0x80 \<noteq> 0 \<longleftrightarrow> bit x 7"
proof -
  have "(0x80 :: u8) = push_bit 7 1" by simp
  then show ?thesis by (metis and_exp_eq_0_iff_not_bit push_bit_of_1)
qed

lemma nth_cmac_shift:
  "i < 16 \<Longrightarrow> cmac_shift b ! i = push_bit 1 (b ! i) OR (if i < 15 \<and> bit (b ! (i + 1)) 7 then 1 else 0)"
  by (cases "i = 15") (auto simp: cmac_shift_def nth_append top_bit)

lemma pred_div_mod_8:
  fixes n :: nat
  shows "0 < n \<Longrightarrow> n mod 8 = 0 \<Longrightarrow> (n - 1) div 8 = n div 8 - 1 \<and> (n - 1) mod 8 = 7 \<and> 0 < n div 8"
    and "n mod 8 \<noteq> 0 \<Longrightarrow> (n - 1) div 8 = n div 8 \<and> (n - 1) mod 8 = n mod 8 - 1 \<and> 0 < n"
proof -
  assume "0 < n" and "n mod 8 = 0"
  moreover from this obtain p where "n = 8 * p" by (auto simp: mod_eq_0_iff_dvd elim: dvdE)
  ultimately obtain q where "n = 8 * Suc q" by (cases p) auto
  then have "n = 8 + 8 * q" "n - 1 = 7 + 8 * q" by simp_all
  then show "(n - 1) div 8 = n div 8 - 1 \<and> (n - 1) mod 8 = 7 \<and> 0 < n div 8" by simp
next
  assume m: "n mod 8 \<noteq> 0"
  define q where "q = n div 8"
  have n: "8 * q + n mod 8 = n" by (simp add: q_def)
  have "n mod 8 < 8" by simp
  then have "8 * q \<le> n - 1" "n - 1 < 8 * q + 8" using m n by linarith+
  then have "(n - 1) div 8 = q" by (intro div_nat_eqI) simp_all
  moreover from this have "8 * q + (n - 1) mod 8 = n - 1" by (metis mult_div_mod_eq)
  then have "(n - 1) mod 8 = n mod 8 - 1" using m n by linarith
  ultimately show "(n - 1) div 8 = n div 8 \<and> (n - 1) mod 8 = n mod 8 - 1 \<and> 0 < n"
    using m n by (auto simp: q_def [symmetric])
qed

lemma be128_shift:
  assumes "length b = 16"
  shows "be128 (cmac_shift b) = push_bit 1 (be128 b)"
proof (rule bit_word_eqI)
  fix n :: nat
  assume "n < LENGTH(128)"
  then have n: "n < 128" by simp
  then have d: "n div 8 < 16" by (simp add: div_less_iff_less_mult)
  have "bit (be128 (cmac_shift b)) n \<longleftrightarrow> bit (cmac_shift b ! (15 - n div 8)) (n mod 8)"
    using n by (simp add: bit_be128)
  also have "\<dots> \<longleftrightarrow> 0 < n \<and> bit (be128 b) (n - 1)"
  proof (cases "n mod 8 = 0")
    case True
    show ?thesis
    proof (cases "n = 0")
      case False
      with True have "(n - 1) div 8 = n div 8 - 1" "(n - 1) mod 8 = 7" and pos: "0 < n div 8"
        using pred_div_mod_8(1) [of n] by auto
      moreover from pos have idx: "15 - n div 8 + 1 = 15 - (n div 8 - 1)" using d by linarith
      ultimately have "bit (be128 b) (n - 1) \<longleftrightarrow> bit (b ! (15 - n div 8 + 1)) 7"
        using bit_be128 [OF less_imp_diff_less [OF n] assms, of 1] by simp
      moreover have "15 - n div 8 < 15" using pos by simp
      ultimately show ?thesis
        using True False nth_cmac_shift [of "15 - n div 8" b]
        by (simp add: bit_or_iff bit_push_bit_iff del: push_bit_of_1 push_bit_Suc One_nat_def)
    qed (simp add: nth_cmac_shift bit_or_iff bit_push_bit_iff del: One_nat_def)
  next
    case False
    then have "(n - 1) div 8 = n div 8" "(n - 1) mod 8 = n mod 8 - 1" "0 < n"
      using pred_div_mod_8(2) [of n] by auto
    then have "bit (be128 b) (n - 1) \<longleftrightarrow> bit (b ! (15 - n div 8)) (n mod 8 - 1)"
      using bit_be128 [OF less_imp_diff_less [OF n] assms, of 1] by simp
    moreover have "bit (cmac_shift b ! (15 - n div 8)) (n mod 8) \<longleftrightarrow> bit (b ! (15 - n div 8)) (n mod 8 - 1)"
      using False nth_cmac_shift [of "15 - n div 8" b] mod_less_divisor [of 8 n]
      by (simp add: bit_or_iff bit_push_bit_iff bit_1_iff del: One_nat_def)
    ultimately show ?thesis using \<open>0 < n\<close> by simp
  qed
  finally show "bit (be128 (cmac_shift b)) n \<longleftrightarrow> bit (push_bit 1 (be128 b)) n"
    using n by (auto simp: bit_push_bit_iff simp del: One_nat_def)
qed

lemma be128_xor:
  "length a = 16 \<Longrightarrow> length b = 16 \<Longrightarrow> be128 (xor_bytes a b) = be128 a XOR be128 b"
  by (rule bit_word_eqI) (simp add: bit_be128 bit_xor_iff)

lemma be128_Rb: "length b = 16 \<Longrightarrow> be128 (xor_bytes b Const_Rb) = be128 b XOR 0x87"
proof -
  have "replicate 15 (0::u8) = [0, 0, 0, 0, 0, 0, 0, 0, 0, 0, 0, 0, 0, 0, 0]" by (simp add: eval_nat_numeral)
  then have "be128 Const_Rb = 0x87" by (simp add: be128_def Const_Rb_def)
  then show "length b = 16 \<Longrightarrow> ?thesis" by (simp add: be128_xor Const_Rb_def)
qed

lemma xor_bytes_right_commute: "xor_bytes (xor_bytes a b) c = xor_bytes (xor_bytes a c) b"
  by (rule nth_equalityI) (simp_all add: xor_ac)

definition cmac_next :: "bytes \<Rightarrow> bytes" where
  "cmac_next b = (if b ! 0 AND 0x80 > 0 then xor_bytes (cmac_shift b) Const_Rb else cmac_shift b)"

lemma cmac_next_double:
  assumes "length b = 16"
  shows "length (cmac_next b) = 16" and "be128 (cmac_next b) = cmac_double (be128 b)"
proof -
  have "bit (be128 b) 127 \<longleftrightarrow> b ! 0 AND 0x80 > 0"
    using assms by (simp add: bit_be128 top_bit [symmetric] word_gt_0)
  then show "be128 (cmac_next b) = cmac_double (be128 b)"
    using assms by (simp add: cmac_next_def cmac_double_def be128_shift be128_Rb)
  show "length (cmac_next b) = 16" by (simp add: cmac_next_def Const_Rb_def)
qed

lemma GenerateSubKey_next:
  "length Key = 16 \<Longrightarrow> AES_CMAC_GenerateSubKey Key 16 a b =
     (cmac_next (aes_E Key Const_Zero), cmac_next (cmac_next (aes_E Key Const_Zero)))"
  by (simp add: AES_CMAC_GenerateSubKey_def encrypted_block_16 Let_def cmac_next_def)

lemma cmac_loop_eq:
  assumes "length m = n"
  shows "s mod 16 = 0 \<Longrightarrow> s \<le> 16 * ((n - 1) div 16) \<Longrightarrow>
    cmac_loop E m n s X = (16 * ((n - 1) div 16), cbc_mac E X (blocks16 (subarray s (16 * ((n - 1) div 16) - s) m)))"
proof (induction "n - s" arbitrary: s X rule: less_induct)
  case less
  define k where "k = 16 * ((n - 1) div 16)"
  show ?case
  proof (cases "n - s > 16")
    case True
    obtain a where a: "s = 16 * a" using less.prems(1) by (auto simp: mod_eq_0_iff_dvd elim: dvdE)
    have "(a + 1) * 16 \<le> n - 1" using True a by simp
    then have "a + 1 \<le> (n - 1) div 16" by (simp add: less_eq_div_iff_mult_less_eq)
    then have k: "s + 16 \<le> k" "k \<le> n" unfolding k_def a using div_times_less_eq_dividend [of "n - 1" 16] by linarith+
    have "cmac_loop E m n s X = cmac_loop E m n (s + 16) (E (xor_bytes (subarray s 16 m) X))"
      using True by (subst cmac_loop.simps) simp
    also have "\<dots> = (k, cbc_mac E (E (xor_bytes (subarray s 16 m) X)) (blocks16 (subarray (s + 16) (k - (s + 16)) m)))"
      unfolding k_def by (rule less.hyps) (use True less.prems k in \<open>auto simp: k_def\<close>)
    also have "\<dots> = (k, cbc_mac E X (blocks16 (subarray s (k - s) m)))"
    proof -
      have "blocks16 (subarray s (k - s) m) = subarray s 16 m # blocks16 (subarray (s + 16) (k - (s + 16)) m)"
        using k assms by (subst blocks16_Cons) (auto simp: subarray_def drop_take add.commute min_def)
      then show ?thesis by (simp add: cbc_mac_def)
    qed
    finally show ?thesis by (simp add: k_def)
  next
    case False
    have "s = k"
    proof -
      obtain a where a: "s = 16 * a" using less.prems(1) by (auto simp: mod_eq_0_iff_dvd elim: dvdE)
      obtain g where g: "k = 16 * g" "16 * g \<le> n - 1"
        using times_div_less_eq_dividend [of 16 "n - 1"] by (auto simp: k_def)
      have "16 * a \<le> 16 * g" using less.prems(2) a g(1) by (simp add: k_def)
      moreover have "16 * g < 16 * a + 16" using False g(2) a by linarith
      ultimately have "a = g" by presburger
      then show ?thesis using a g(1) by simp
    qed
    then show ?thesis using False
      by (subst cmac_loop.simps) (simp add: k_def subarray_def blocks16_short cbc_mac_def)
  qed
qed

text \<open>
  The driver's CMAC is the one of RFC 4493: the two subkeys are the encryption of the zero block
  doubled once and twice in the field of 128 bits, and the code is the CBC-MAC of the message, whose
  last block, complete or padded, is combined with the first or the second of them.
\<close>

theorem AES_CMAC_correct:
  assumes "length Key = 16" and "length m < 2 ^ 32" and "16 \<le> MACTextLength"
  shows "\<exists>K1 K2. AES_CMAC_GenerateSubKey Key 16 (replicate 16 0) (replicate 16 0) = (K1, K2) \<and>
    be128 K1 = cmac_double (be128 (aes_E Key (replicate 16 0))) \<and> be128 K2 = cmac_double (be128 K1) \<and>
    AES_CMAC m (of_nat (length m)) Key 16 MACTextLength = Some (cmac (aes_E Key) K1 K2 m, 16)"
proof -
  define n where "n = length m"
  define k where "k = 16 * ((n - 1) div 16)"
  define K1 where "K1 = cmac_next (aes_E Key Const_Zero)"
  define K2 where "K2 = cmac_next K1"
  define X where "X = cbc_mac (aes_E Key) Const_Zero (blocks16 (take k m))"
  have u: "unat (of_nat (length m) :: u32) = n" using assms(2) by (simp add: unat_of_nat n_def)
  have "length (aes_E Key Const_Zero) = 16" by simp
  then have K: "length K1 = 16" "be128 K1 = cmac_double (be128 (aes_E Key Const_Zero))"
    "be128 K2 = cmac_double (be128 K1)"
    by (simp_all add: K1_def K2_def cmac_next_double)
  have loop: "cmac_loop (aes_E Key) m n 0 Const_Zero = (k, X)"
    by (subst cmac_loop_eq) (simp_all add: n_def k_def X_def subarray_def)
  have kn: "k \<le> n" "n - k \<le> 16" unfolding k_def using mult_div_mod_eq [of 16 "n - 1"] mod_less_divisor [of 16 "n - 1"]
    by linarith+
  have "AES_CMAC m (of_nat (length m)) Key 16 MACTextLength =
      Some (aes_E Key (xor_bytes (cmac_last K1 K2 (drop k m)) X), 16)"
  proof (cases "n - k = 16")
    case True
    then show ?thesis using assms(1,3) loop u kn
      by (simp add: AES_CMAC_def encrypted_block_16 GenerateSubKey_next cmac_last_def subarray_def RT_AES_as_cipher
          xor_bytes_right_commute [of _ X] flip: K1_def n_def)
  next
    case False
    have "(drop k m @ replicate (16 - (n - k)) 0)[n - k := 0x80] = drop k m @ 0x80 # replicate (15 - (n - k)) 0"
      if "16 - (n - k) = Suc (15 - (n - k))"
      unfolding that by (simp add: list_update_append n_def)
    moreover have "16 - (n - k) = Suc (15 - (n - k))" using kn False by simp
    ultimately have "(drop k m @ replicate (16 - (n - k)) 0)[n - k := 0x80] = drop k m @ 0x80 # replicate (15 - (n - k)) 0"
      by simp
    with False show ?thesis using assms(1,3) loop u kn
      by (simp add: AES_CMAC_def encrypted_block_16 GenerateSubKey_next cmac_last_def subarray_def RT_AES_as_cipher
          xor_bytes_right_commute [of _ X] Let_def flip: K1_def K2_def n_def)
  qed
  moreover have "cmac (aes_E Key) K1 K2 m = aes_E Key (xor_bytes (cmac_last K1 K2 (drop k m)) X)"
    unfolding cmac_def Let_def n_def [symmetric] k_def [symmetric] by (simp add: cbc_mac_def X_def Const_Zero_def)
  moreover have "AES_CMAC_GenerateSubKey Key 16 (replicate 16 0) (replicate 16 0) = (K1, K2)"
    unfolding K1_def K2_def by (rule GenerateSubKey_next [OF assms(1)])
  ultimately show ?thesis using K unfolding Const_Zero_def by metis
qed

lemma AES_CMAC_correct_witness:
  "\<exists>K1 K2. AES_CMAC_GenerateSubKey (replicate 16 7) 16 (replicate 16 0) (replicate 16 0) = (K1, K2) \<and>
    be128 K1 = cmac_double (be128 (aes_E (replicate 16 7) (replicate 16 0))) \<and> be128 K2 = cmac_double (be128 K1) \<and>
    AES_CMAC [1, 2, 3] (of_nat (length [1::u8, 2, 3])) (replicate 16 7) 16 16 =
      Some (cmac (aes_E (replicate 16 7)) K1 K2 [1, 2, 3], 16)"
  by (rule AES_CMAC_correct) simp_all

end
