(* ===== verification/Crypt_ARC4.thy ===== *)
theory Crypt_ARC4
  imports Rgb_Prelude
begin

text \<open>
  The ARC4 stream cipher of the WiFi driver (\<open>rt5370.driver/common/crypt_arc4.c\<close>), used by WEP, by
  TKIP and for wrapped keys. Indices are \<open>UINT\<close> masked with 0xff, bytes are \<open>UINT8\<close>.
\<close>

section \<open>Model\<close>

record ARC4_CTX_STRUC =
  BlockIndex1 :: u32
  BlockIndex2 :: u32
  KeyBlock :: bytes

text \<open>The exchange of the source: \<open>A[i] = A[j]; A[j] = temp\<close>, where \<open>temp\<close> was \<open>A[i]\<close>.\<close>

definition arc4_swap :: "bytes \<Rightarrow> nat \<Rightarrow> nat \<Rightarrow> bytes" where
  "arc4_swap A i j = (let temp = A ! i; A1 = A[i := A ! j] in A1[j := temp])"

definition arc4_schedule_step :: "bytes \<Rightarrow> nat \<Rightarrow> bytes \<times> u32 \<Rightarrow> nat \<Rightarrow> bytes \<times> u32" where
  "arc4_schedule_step pKey KeyLength st BlockIndex =
     (case st of (A, SWAPIndex) \<Rightarrow>
       let TempValue = A ! BlockIndex;
           KeyIndex = BlockIndex mod KeyLength;
           SWAPIndex' = (SWAPIndex + ucast TempValue + ucast (pKey ! KeyIndex)) AND 0xff
       in (arc4_swap A BlockIndex (unat SWAPIndex'), SWAPIndex'))"

text \<open>None: the remainder by a zero key length, or a key shorter than its length.\<close>

definition ARC4_INIT :: "bytes \<Rightarrow> u32 \<Rightarrow> ARC4_CTX_STRUC option" where
  "ARC4_INIT pKey KeyLength =
     (if KeyLength = 0 \<or> length pKey < min 256 (unat KeyLength) then None
      else Some \<lparr>BlockIndex1 = 0, BlockIndex2 = 0,
        KeyBlock = fst (foldl (arc4_schedule_step pKey (unat KeyLength)) (map of_nat [0..<256], 0) [0..<256])\<rparr>)"

text \<open>The common part of \<open>ARC4_Compute\<close> and \<open>ARC4_Discard_KeyLength\<close>.\<close>

definition arc4_advance :: "ARC4_CTX_STRUC \<Rightarrow> ARC4_CTX_STRUC" where
  "arc4_advance c =
     (let i = (BlockIndex1 c + 1) AND 0xff;
          TempValue = KeyBlock c ! unat i;
          j = (BlockIndex2 c + ucast TempValue) AND 0xff
      in c\<lparr>BlockIndex1 := i, BlockIndex2 := j, KeyBlock := arc4_swap (KeyBlock c) (unat i) (unat j)\<rparr>)"

text \<open>
  The byte of the key stream after a step: \<open>TempValue\<close> is the byte now at \<open>BlockIndex2\<close>, and the
  sum of two \<open>UINT8\<close> is masked and stored in a \<open>UINT8\<close>.
\<close>

definition arc4_byte :: "ARC4_CTX_STRUC \<Rightarrow> u8" where
  "arc4_byte c =
     (let TempValue = KeyBlock c ! unat (BlockIndex2 c) + KeyBlock c ! unat (BlockIndex1 c)
      in KeyBlock c ! unat TempValue)"

fun ARC4_Compute :: "ARC4_CTX_STRUC \<Rightarrow> bytes \<Rightarrow> ARC4_CTX_STRUC \<times> bytes" where
  "ARC4_Compute c [] = (c, [])"
| "ARC4_Compute c (x # xs) =
     (let c1 = arc4_advance c; (c2, ys) = ARC4_Compute c1 xs in (c2, (x XOR arc4_byte c1) # ys))"

definition ARC4_Discard_KeyLength :: "ARC4_CTX_STRUC \<Rightarrow> u32 \<Rightarrow> ARC4_CTX_STRUC" where
  "ARC4_Discard_KeyLength c Length = (arc4_advance ^^ unat Length) c"

section \<open>The key block is a permutation of the bytes\<close>

definition arc4_inv :: "ARC4_CTX_STRUC \<Rightarrow> bool" where
  "arc4_inv c \<longleftrightarrow> mset (KeyBlock c) = mset (map of_nat [0..<256]) \<and> BlockIndex1 c \<le> 255 \<and> BlockIndex2 c \<le> 255"

lemma and_255 [simp]: "unat (x AND 0xff :: u32) < 256" "x AND 0xff \<le> (255 :: u32)"
proof -
  have "x AND 0xff = take_bit 8 x" by (simp add: take_bit_eq_mask mask_eq_exp_minus_1)
  then have "unat (x AND 0xff) < 256"
    using take_bit_nat_less_exp [of 8 "unat x"] by (simp add: unsigned_take_bit_eq)
  then show "unat (x AND 0xff :: u32) < 256" "x AND 0xff \<le> (255 :: u32)"
    by (simp_all add: word_le_nat_alt)
qed

lemma mset_arc4_swap: "i < length A \<Longrightarrow> j < length A \<Longrightarrow> mset (arc4_swap A i j) = mset A"
  by (simp add: arc4_swap_def Let_def mset_swap)

lemma length_arc4_swap [simp]: "length (arc4_swap A i j) = length A"
  by (simp add: arc4_swap_def Let_def)

lemma arc4_inv_length: "arc4_inv c \<Longrightarrow> length (KeyBlock c) = 256"
  by (metis arc4_inv_def length_map length_upt mset_eq_length diff_zero)

lemma arc4_schedule_perm:
  assumes "length A = 256" and "set is \<subseteq> {..<256}"
  shows "mset (fst (foldl (arc4_schedule_step k n) (A, s) is)) = mset A"
  using assms
proof (induction "is" arbitrary: A s)
  case (Cons i "is")
  let ?st = "arc4_schedule_step k n (A, s) i"
  have "mset (fst ?st) = mset A" "length (fst ?st) = 256"
    using Cons.prems by (simp_all add: arc4_schedule_step_def Let_def mset_arc4_swap)
  then show ?case using Cons.IH [of "fst ?st" "snd ?st"] Cons.prems by simp
qed simp

lemma ARC4_INIT_inv: "ARC4_INIT k n = Some c \<Longrightarrow> arc4_inv c"
proof -
  assume "ARC4_INIT k n = Some c"
  moreover have "mset (fst (foldl (arc4_schedule_step k (unat n)) (map of_nat [0..<256], 0) [0..<256]))
      = mset (map of_nat [0..<256])"
    by (rule arc4_schedule_perm) auto
  ultimately show "arc4_inv c"
    by (auto simp: ARC4_INIT_def arc4_inv_def simp del: mset_map mset_upt split: if_splits)
qed

lemma arc4_advance_inv [wf_intros]: "arc4_inv c \<Longrightarrow> arc4_inv (arc4_advance c)"
  using arc4_inv_length [of c] by (simp add: arc4_inv_def arc4_advance_def Let_def mset_arc4_swap)

lemma ARC4_Compute_state: "fst (ARC4_Compute c xs) = (arc4_advance ^^ length xs) c"
  by (induction c xs rule: ARC4_Compute.induct) (simp_all add: Let_def split_beta funpow_swap1)

lemma ARC4_Compute_length [simp]: "length (snd (ARC4_Compute c xs)) = length xs"
  by (induction c xs rule: ARC4_Compute.induct) (simp_all add: Let_def split_beta)

lemma ARC4_Compute_nth:
  "i < length xs \<Longrightarrow> snd (ARC4_Compute c xs) ! i = xs ! i XOR arc4_byte ((arc4_advance ^^ Suc i) c)"
proof (induction c xs arbitrary: i rule: ARC4_Compute.induct)
  case (2 c x xs)
  then show ?case by (cases i) (auto simp: Let_def split_beta funpow_swap1)
qed simp

lemma ARC4_Compute_twice: "ARC4_Compute c (snd (ARC4_Compute c xs)) = (fst (ARC4_Compute c xs), xs)"
  by (induction c xs rule: ARC4_Compute.induct) (simp_all add: Let_def split_beta)

lemma arc4_iter_inv: "arc4_inv c \<Longrightarrow> arc4_inv ((arc4_advance ^^ n) c)"
  by (induction n) (auto intro: arc4_advance_inv)

section \<open>Properties\<close>

text \<open>
  Decrypting is encrypting: for every context, computing the output of \<open>ARC4_Compute\<close> again
  from the same context gives the input back and leaves the same context, and the cipher text of a
  message in two parts is that of the whole.
\<close>

theorem ARC4_roundtrip:
  "ARC4_Compute c (snd (ARC4_Compute c xs)) = (fst (ARC4_Compute c xs), xs) \<and>
   ARC4_Compute c (xs @ ys) =
     (let (c1, o1) = ARC4_Compute c xs; (c2, o2) = ARC4_Compute c1 ys in (c2, o1 @ o2))"
proof
  show "ARC4_Compute c (snd (ARC4_Compute c xs)) = (fst (ARC4_Compute c xs), xs)"
    by (rule ARC4_Compute_twice)
  show "ARC4_Compute c (xs @ ys) =
     (let (c1, o1) = ARC4_Compute c xs; (c2, o2) = ARC4_Compute c1 ys in (c2, o1 @ o2))"
    by (induction c xs rule: ARC4_Compute.induct) (simp_all add: Let_def split_beta)
qed

text \<open>
  From a key of non-zero length, the key block is at all times a permutation of the 256 bytes
  and both indices stay below 256, so no access of the cipher leaves the key block; and discarding
  \<open>n\<close> bytes leaves exactly the context that computing any \<open>n\<close> bytes leaves.
\<close>

theorem ARC4_key_block:
  assumes "ARC4_INIT k n = Some c0" and "c = fst (ARC4_Compute c0 xs)"
  shows "mset (KeyBlock c) = mset (map of_nat [0..<256]) \<and> length (KeyBlock c) = 256 \<and>
    unat (BlockIndex1 c) < 256 \<and> unat (BlockIndex2 c) < 256 \<and>
    (length ys < 2 ^ 32 \<longrightarrow> ARC4_Discard_KeyLength c (of_nat (length ys)) = fst (ARC4_Compute c ys))"
proof -
  have inv: "arc4_inv c"
    using arc4_iter_inv [OF ARC4_INIT_inv [OF assms(1)]] assms(2) by (simp add: ARC4_Compute_state)
  then show ?thesis
    using arc4_inv_length [OF inv]
    by (auto simp: arc4_inv_def word_le_nat_alt ARC4_Discard_KeyLength_def ARC4_Compute_state unat_of_nat
        simp del: mset_map mset_upt)
qed

theorem ARC4_key_block_witness:
  "\<exists>c. ARC4_INIT [1, 2, 3] 3 = Some c \<and>
     ARC4_Discard_KeyLength c 2 = fst (ARC4_Compute c [0, 0]) \<and> length (KeyBlock c) = 256"
proof -
  obtain c where c: "ARC4_INIT [1, 2, 3] 3 = Some c" by (simp add: ARC4_INIT_def)
  from ARC4_key_block [OF c, of c "[]" "[0, 0]"] show ?thesis using c by auto
qed

end
