(* ===== verification/Crypt_WEP.thy ===== *)
theory Crypt_WEP
  imports Crypt_ARC4 Hash_Stream
begin

text \<open>
  Wired equivalent privacy in the WiFi driver (\<open>rt5370.driver/common/cmm_wep.c\<close>): the table driven
  check sum, the seed of the cipher, and the encryption and decryption of a frame in its buffer. The
  two flags of an operation say whether its two allocations succeed. None stands for
  undefined behaviour: an access outside a buffer, or a cipher context that was not set up.
\<close>

section \<open>The check sum\<close>

definition FCSTAB_32 :: "u32 list" where
  "FCSTAB_32 = concat
    [[0x00000000, 0x77073096, 0xee0e612c, 0x990951ba],
     [0x076dc419, 0x706af48f, 0xe963a535, 0x9e6495a3],
     [0x0edb8832, 0x79dcb8a4, 0xe0d5e91e, 0x97d2d988],
     [0x09b64c2b, 0x7eb17cbd, 0xe7b82d07, 0x90bf1d91],
     [0x1db71064, 0x6ab020f2, 0xf3b97148, 0x84be41de],
     [0x1adad47d, 0x6ddde4eb, 0xf4d4b551, 0x83d385c7],
     [0x136c9856, 0x646ba8c0, 0xfd62f97a, 0x8a65c9ec],
     [0x14015c4f, 0x63066cd9, 0xfa0f3d63, 0x8d080df5],
     [0x3b6e20c8, 0x4c69105e, 0xd56041e4, 0xa2677172],
     [0x3c03e4d1, 0x4b04d447, 0xd20d85fd, 0xa50ab56b],
     [0x35b5a8fa, 0x42b2986c, 0xdbbbc9d6, 0xacbcf940],
     [0x32d86ce3, 0x45df5c75, 0xdcd60dcf, 0xabd13d59],
     [0x26d930ac, 0x51de003a, 0xc8d75180, 0xbfd06116],
     [0x21b4f4b5, 0x56b3c423, 0xcfba9599, 0xb8bda50f],
     [0x2802b89e, 0x5f058808, 0xc60cd9b2, 0xb10be924],
     [0x2f6f7c87, 0x58684c11, 0xc1611dab, 0xb6662d3d],
     [0x76dc4190, 0x01db7106, 0x98d220bc, 0xefd5102a],
     [0x71b18589, 0x06b6b51f, 0x9fbfe4a5, 0xe8b8d433],
     [0x7807c9a2, 0x0f00f934, 0x9609a88e, 0xe10e9818],
     [0x7f6a0dbb, 0x086d3d2d, 0x91646c97, 0xe6635c01],
     [0x6b6b51f4, 0x1c6c6162, 0x856530d8, 0xf262004e],
     [0x6c0695ed, 0x1b01a57b, 0x8208f4c1, 0xf50fc457],
     [0x65b0d9c6, 0x12b7e950, 0x8bbeb8ea, 0xfcb9887c],
     [0x62dd1ddf, 0x15da2d49, 0x8cd37cf3, 0xfbd44c65],
     [0x4db26158, 0x3ab551ce, 0xa3bc0074, 0xd4bb30e2],
     [0x4adfa541, 0x3dd895d7, 0xa4d1c46d, 0xd3d6f4fb],
     [0x4369e96a, 0x346ed9fc, 0xad678846, 0xda60b8d0],
     [0x44042d73, 0x33031de5, 0xaa0a4c5f, 0xdd0d7cc9],
     [0x5005713c, 0x270241aa, 0xbe0b1010, 0xc90c2086],
     [0x5768b525, 0x206f85b3, 0xb966d409, 0xce61e49f],
     [0x5edef90e, 0x29d9c998, 0xb0d09822, 0xc7d7a8b4],
     [0x59b33d17, 0x2eb40d81, 0xb7bd5c3b, 0xc0ba6cad],
     [0xedb88320, 0x9abfb3b6, 0x03b6e20c, 0x74b1d29a],
     [0xead54739, 0x9dd277af, 0x04db2615, 0x73dc1683],
     [0xe3630b12, 0x94643b84, 0x0d6d6a3e, 0x7a6a5aa8],
     [0xe40ecf0b, 0x9309ff9d, 0x0a00ae27, 0x7d079eb1],
     [0xf00f9344, 0x8708a3d2, 0x1e01f268, 0x6906c2fe],
     [0xf762575d, 0x806567cb, 0x196c3671, 0x6e6b06e7],
     [0xfed41b76, 0x89d32be0, 0x10da7a5a, 0x67dd4acc],
     [0xf9b9df6f, 0x8ebeeff9, 0x17b7be43, 0x60b08ed5],
     [0xd6d6a3e8, 0xa1d1937e, 0x38d8c2c4, 0x4fdff252],
     [0xd1bb67f1, 0xa6bc5767, 0x3fb506dd, 0x48b2364b],
     [0xd80d2bda, 0xaf0a1b4c, 0x36034af6, 0x41047a60],
     [0xdf60efc3, 0xa867df55, 0x316e8eef, 0x4669be79],
     [0xcb61b38c, 0xbc66831a, 0x256fd2a0, 0x5268e236],
     [0xcc0c7795, 0xbb0b4703, 0x220216b9, 0x5505262f],
     [0xc5ba3bbe, 0xb2bd0b28, 0x2bb45a92, 0x5cb36a04],
     [0xc2d7ffa7, 0xb5d0cf31, 0x2cd99e8b, 0x5bdeae1d],
     [0x9b64c2b0, 0xec63f226, 0x756aa39c, 0x026d930a],
     [0x9c0906a9, 0xeb0e363f, 0x72076785, 0x05005713],
     [0x95bf4a82, 0xe2b87a14, 0x7bb12bae, 0x0cb61b38],
     [0x92d28e9b, 0xe5d5be0d, 0x7cdcefb7, 0x0bdbdf21],
     [0x86d3d2d4, 0xf1d4e242, 0x68ddb3f8, 0x1fda836e],
     [0x81be16cd, 0xf6b9265b, 0x6fb077e1, 0x18b74777],
     [0x88085ae6, 0xff0f6a70, 0x66063bca, 0x11010b5c],
     [0x8f659eff, 0xf862ae69, 0x616bffd3, 0x166ccf45],
     [0xa00ae278, 0xd70dd2ee, 0x4e048354, 0x3903b3c2],
     [0xa7672661, 0xd06016f7, 0x4969474d, 0x3e6e77db],
     [0xaed16a4a, 0xd9d65adc, 0x40df0b66, 0x37d83bf0],
     [0xa9bcae53, 0xdebb9ec5, 0x47b2cf7f, 0x30b5ffe9],
     [0xbdbdf21c, 0xcabac28a, 0x53b39330, 0x24b4a3a6],
     [0xbad03605, 0xcdd70693, 0x54de5729, 0x23d967bf],
     [0xb3667a2e, 0xc4614ab8, 0x5d681b02, 0x2a6f2b94],
     [0xb40bbe37, 0xc30c8ea1, 0x5a05df1b, 0x2d02ef8d]]"

definition PPPINITFCS32 :: u32 where "PPPINITFCS32 = 0xffffffff"

definition RTMP_CALC_FCS32 :: "u32 \<Rightarrow> bytes \<Rightarrow> u32" where
  "RTMP_CALC_FCS32 Fcs Cp =
     foldl (\<lambda>Fcs c. drop_bit 8 Fcs XOR FCSTAB_32 ! unat ((Fcs XOR ucast c) AND 0xff)) Fcs Cp"

section \<open>Frames\<close>

record CIPHER_KEY =
  Key :: bytes
  KeyLen :: u8
  TxMic :: bytes
  RxMic :: bytes
  TxTsc :: bytes
  CipherAlg :: u8

definition LEN_WEP_IV_HDR :: nat where "LEN_WEP_IV_HDR = 4"
definition LEN_WEP_TSC :: nat where "LEN_WEP_TSC = 3"
definition LEN_ICV :: nat where "LEN_ICV = 4"

definition RTMPInitWepEngine :: "bool \<Rightarrow> bytes \<Rightarrow> bytes \<Rightarrow> u8 \<Rightarrow> ARC4_CTX_STRUC option" where
  "RTMPInitWepEngine alloc pIv pKey keylen =
     (if \<not> alloc then None
      else
        Option.bind (move_memory (replicate 16 0) 0 pIv 0 3) (\<lambda>seed1.
        Option.bind (move_memory seed1 3 pKey 0 (unat keylen)) (\<lambda>seed.
          ARC4_INIT seed (ucast (3 + keylen)))))"

definition RTMPConstructWEPIVHdr :: "u8 \<Rightarrow> bytes \<Rightarrow> bytes option" where
  "RTMPConstructWEPIVHdr key_idx pn =
     map_option (\<lambda>h. h[3 := push_bit 6 key_idx]) (move_memory (replicate LEN_WEP_IV_HDR 0) 0 pn 0 LEN_WEP_TSC)"

definition RTMPSoftEncryptWEP ::
  "bool \<times> bool \<Rightarrow> bytes \<Rightarrow> CIPHER_KEY \<Rightarrow> bytes \<Rightarrow> nat \<Rightarrow> (bool \<times> bytes) option" where
  "RTMPSoftEncryptWEP mem pIvHdr pKey pData DataByteCnt =
     (if \<not> fst mem then Some (False, pData)
      else if KeyLen pKey = 0 then Some (False, pData)
      else
        Option.bind (RTMPInitWepEngine (snd mem) pIvHdr (Key pKey) (KeyLen pKey)) (\<lambda>ctx.
          if length pData < DataByteCnt then None
          else
           (let FCSCRC32 = RTMP_CALC_FCS32 PPPINITFCS32 (take DataByteCnt pData) XOR 0xffffffff
            in Option.bind (move_memory pData DataByteCnt (bytes_le32 FCSCRC32) 0 LEN_ICV) (\<lambda>d1.
                 let n = DataByteCnt + LEN_ICV
                 in Some (True, snd (ARC4_Compute ctx (take n d1)) @ drop n d1)))))"

text \<open>
  The deciphered data overwrite the buffer four bytes before the cipher text they come from, which
  the cipher reads before it writes. Lengths are \<open>UINT16\<close>.
\<close>

definition RTMPSoftDecryptWEP ::
  "bool \<times> bool \<Rightarrow> CIPHER_KEY \<Rightarrow> bytes \<Rightarrow> u16 \<Rightarrow> (bool \<times> bytes \<times> u16) option" where
  "RTMPSoftDecryptWEP mem pKey pData DataByteCnt =
     (if \<not> fst mem then Some (False, pData, DataByteCnt)
      else if KeyLen pKey = 0 then Some (False, pData, DataByteCnt)
      else
        Option.bind (RTMPInitWepEngine (snd mem) pData (Key pKey) (KeyLen pKey)) (\<lambda>ctx.
          let ciphertext_len = DataByteCnt - of_nat LEN_WEP_IV_HDR
          in if DataByteCnt \<le> of_nat LEN_WEP_IV_HDR then Some (False, pData, DataByteCnt)
             else if length pData < unat DataByteCnt then None
             else
              (let cl = unat ciphertext_len;
                   d1 = snd (ARC4_Compute ctx (take cl (drop LEN_WEP_IV_HDR pData))) @ drop cl pData;
                   plaintext_len = ciphertext_len - of_nat LEN_ICV;
                   pl = unat plaintext_len
               in if length d1 < pl + LEN_ICV then None
                  else
                   (let trailfcs = le32 (take LEN_ICV (drop pl d1));
                        crc32 = RTMP_CALC_FCS32 PPPINITFCS32 (take pl d1) XOR 0xffffffff
                    in if crc32 \<noteq> trailfcs then Some (False, d1, DataByteCnt)
                       else Some (True, d1, plaintext_len)))))"

section \<open>The table computes the bitwise check sum\<close>

text \<open>Specification: the check sum of IEEE 802.3, one bit at a time, low bit first.\<close>

definition crc_bit :: "u32 \<Rightarrow> u32" where
  "crc_bit c = (if bit c 0 then drop_bit 1 c XOR 0xEDB88320 else drop_bit 1 c)"

definition crc_byte :: "u32 \<Rightarrow> u8 \<Rightarrow> u32" where
  "crc_byte c b = (crc_bit ^^ 8) (c XOR ucast b)"

lemma crc_bit_xor: "crc_bit (a XOR b) = crc_bit a XOR crc_bit b"
  by (rule bit_word_eqI) (auto simp: crc_bit_def bit_simps)

lemma crc_bits_xor: "(crc_bit ^^ n) (a XOR b) = (crc_bit ^^ n) a XOR (crc_bit ^^ n) b"
  by (induction n) (simp_all add: crc_bit_xor)

lemma crc_bits_zero: "(\<forall>i < n. \<not> bit a i) \<Longrightarrow> (crc_bit ^^ n) a = drop_bit n a"
proof (induction n)
  case (Suc n)
  then have "(crc_bit ^^ n) a = drop_bit n a" "\<not> bit (drop_bit n a) 0" by (simp_all add: bit_drop_bit_eq)
  then show ?case by (simp add: crc_bit_def [of "drop_bit n a"] drop_bit_drop_bit)
qed simp

text \<open>
  The table is checked by doubling: its values are linear in the index, so the second half of the
  first \<open>2 * n\<close> entries is the first half, each entry changed by the entry of \<open>n\<close>.
\<close>

definition crc_table :: "nat \<Rightarrow> u32 list" where
  "crc_table n = map (\<lambda>i. (crc_bit ^^ 8) (of_nat i)) [0..<n]"

lemma of_nat_add_exp:
  assumes "i < 2 ^ k"
  shows "(of_nat (2 ^ k + i) :: u32) = of_nat i XOR of_nat (2 ^ k)"
proof -
  have "\<not> bit i k" using assms by (simp add: bit_iff_odd)
  then have "(of_nat (2 ^ k) :: u32) AND of_nat i = 0"
    by (intro bit_word_eqI) (auto simp: bit_simps)
  then show ?thesis by (simp add: disjunctive_add_eq_xor xor.commute)
qed

lemma crc_table_double:
  "crc_table (2 * 2 ^ k) = crc_table (2 ^ k) @ map (\<lambda>x. x XOR (crc_bit ^^ 8) (2 ^ k)) (crc_table (2 ^ k))"
proof -
  have "[0..<2 * 2 ^ k] = [0..<2 ^ k] @ map (\<lambda>i. 2 ^ k + i) [0..<(2 ^ k :: nat)]"
    using upt_add_eq_append [of 0 "2 ^ k" "2 ^ k"] by (simp add: map_add_upt mult_2 add.commute)
  then show ?thesis
    by (simp add: crc_table_def of_nat_add_exp crc_bits_xor del: of_nat_add)
qed


lemma crc_exps:
  "(crc_bit ^^ 8) 1 = 0x77073096" "(crc_bit ^^ 8) 2 = 0xee0e612c" "(crc_bit ^^ 8) 4 = 0x076dc419"
  "(crc_bit ^^ 8) 8 = 0x0edb8832" "(crc_bit ^^ 8) 16 = 0x1db71064" "(crc_bit ^^ 8) 32 = 0x3b6e20c8"
  "(crc_bit ^^ 8) 64 = 0x76dc4190" "(crc_bit ^^ 8) 128 = 0xedb88320"
  by code_simp+

lemma FCSTAB_32_bits: "FCSTAB_32 = crc_table 256"
proof -
  have 0: "crc_table (Suc 0) = [0]" by (simp add: crc_table_def crc_bits_zero)
  have 1: "crc_table 2 = take 2 FCSTAB_32"
    using crc_table_double [of 0] by (simp add: 0 crc_exps FCSTAB_32_def)
  have 2: "crc_table 4 = take 4 FCSTAB_32"
    using crc_table_double [of 1] by (simp add: 1 crc_exps FCSTAB_32_def)
  have 3: "crc_table 8 = take 8 FCSTAB_32"
    using crc_table_double [of 2] by (simp add: 2 crc_exps FCSTAB_32_def)
  have 4: "crc_table 16 = take 16 FCSTAB_32"
    using crc_table_double [of 3] by (simp add: 3 crc_exps FCSTAB_32_def)
  have 5: "crc_table 32 = take 32 FCSTAB_32"
    using crc_table_double [of 4] by (simp add: 4 crc_exps FCSTAB_32_def)
  have 6: "crc_table 64 = take 64 FCSTAB_32"
    using crc_table_double [of 5] by (simp add: 5 crc_exps FCSTAB_32_def)
  have 7: "crc_table 128 = take 128 FCSTAB_32"
    using crc_table_double [of 6] by (simp add: 6 crc_exps FCSTAB_32_def)
  show ?thesis
    using crc_table_double [of 7] by (simp add: 7 crc_exps FCSTAB_32_def)
qed

lemma crc_byte_table:
  "crc_byte c b = drop_bit 8 c XOR FCSTAB_32 ! unat ((c XOR ucast b) AND 0xff)"
proof -
  define x where "x = c XOR ucast b"
  have m: "(0xff :: u32) = mask 8" by (simp add: mask_eq_exp_minus_1)
  have split: "x = (x AND NOT 0xff) XOR (x AND 0xff)"
    unfolding m by (rule bit_word_eqI) (auto simp: bit_simps)
  have "(crc_bit ^^ 8) (x AND NOT 0xff) = drop_bit 8 (x AND NOT 0xff)"
    unfolding m by (rule crc_bits_zero) (auto simp: bit_simps)
  also have "\<dots> = drop_bit 8 c"
    unfolding m x_def by (rule bit_word_eqI) (auto simp: bit_simps dest: bit_imp_le_length)
  finally have hi: "(crc_bit ^^ 8) (x AND NOT 0xff) = drop_bit 8 c" .
  have "unat (x AND 0xff) < 256" by simp
  then have lo: "(crc_bit ^^ 8) (x AND 0xff) = FCSTAB_32 ! unat (x AND 0xff)"
    by (simp add: FCSTAB_32_bits crc_table_def)
  show ?thesis
    using hi lo crc_bits_xor [of 8 "x AND NOT 0xff" "x AND 0xff"] split
    unfolding crc_byte_def x_def [symmetric] by simp
qed

text \<open>
  The table driven check sum is the check sum of IEEE 802.3: for every start value and message,
  \<open>RTMP_CALC_FCS32\<close> gives what dividing the message bit by bit by the generator polynomial gives.
\<close>

theorem FCS32_correct: "RTMP_CALC_FCS32 Fcs Cp = foldl crc_byte Fcs Cp"
  unfolding RTMP_CALC_FCS32_def crc_byte_table by simp

section \<open>A frame is accepted exactly when it is an encryption\<close>

lemma bit_le32:
  assumes "q < 4" "r < 8"
  shows "bit (le32 b) (8 * q + r) = bit (b ! q) r"
proof -
  have high: "\<not> bit (x :: u8) (8 + m)" for x m using bit_imp_le_length [of x "8 + m"] by auto
  have "q = 0 \<or> q = 1 \<or> q = 2 \<or> q = 3" using assms(1) by auto
  then show ?thesis
    using assms(2) high [of _ r] high [of _ "8 + r"] high [of _ "16 + r"]
    by (elim disjE) (simp_all add: le32_def bit_simps)
qed

lemma bit_bytes_le32:
  assumes "q < 4" "r < 8"
  shows "bit (bytes_le32 w ! q) r = bit w (8 * q + r)"
proof -
  have "q = 0 \<or> q = 1 \<or> q = 2 \<or> q = 3" using assms(1) by auto
  then show ?thesis using assms(2) by (elim disjE) (simp_all add: bytes_le32_def bit_simps)
qed

lemma le32_bytes_le32: "le32 (bytes_le32 w) = w"
proof (rule bit_word_eqI)
  fix n assume "n < LENGTH(32)"
  then have "n div 8 < 4" "n mod 8 < 8" "n = 8 * (n div 8) + n mod 8" by auto
  then show "bit (le32 (bytes_le32 w)) n = bit w n" by (metis bit_le32 bit_bytes_le32)
qed

lemma bytes_le32_le32:
  assumes "length b = 4"
  shows "bytes_le32 (le32 b) = b"
proof (rule nth_equalityI)
  fix q assume "q < length (bytes_le32 (le32 b))"
  then show "bytes_le32 (le32 b) ! q = b ! q"
    by (intro bit_word_eqI) (simp add: bit_bytes_le32 bit_le32)
qed (simp add: assms)

definition wep_key_ok :: "CIPHER_KEY \<Rightarrow> bool" where
  "wep_key_ok k \<longleftrightarrow> KeyLen k \<noteq> 0 \<and> unat (KeyLen k) \<le> 13 \<and> unat (KeyLen k) \<le> length (Key k)"

lemma wep_engine:
  assumes "wep_key_ok k" "3 \<le> length iv"
  shows "\<exists>ctx. \<forall>tail. RTMPInitWepEngine True (iv @ tail) (Key k) (KeyLen k) = Some ctx"
proof -
  let ?n = "unat (KeyLen k)"
  have n: "?n \<le> 13" "?n \<le> length (Key k)" using assms(1) by (simp_all add: wep_key_ok_def)
  let ?s1 = "take 3 iv @ replicate 13 0"
  let ?s = "take 3 ?s1 @ take ?n (Key k) @ drop (3 + ?n) ?s1"
  have m1: "move_memory (replicate 16 0) 0 (iv @ tail) 0 3 = Some ?s1" for tail
    using assms(2) by (simp add: move_memory_def)
  have m2: "move_memory ?s1 3 (Key k) 0 ?n = Some ?s"
    using n assms(2) by (simp add: move_memory_def)
  have len: "length ?s = 16" using n assms(2) by simp
  have "unat (3 + KeyLen k) = 3 + ?n"
    using n by (simp add: unat_word_ariths)
  then have kl: "unat (ucast (3 + KeyLen k) :: u32) = 3 + ?n"
    using n by (simp add: unsigned_ucast_eq take_bit_nat_eq_self)
  have "(ucast (3 + KeyLen k) :: u32) \<noteq> 0"
  proof
    assume "(ucast (3 + KeyLen k) :: u32) = 0"
    with kl show False by simp
  qed
  then obtain ctx where "ARC4_INIT ?s (ucast (3 + KeyLen k)) = Some ctx"
    using kl n len unfolding ARC4_INIT_def by auto
  then show ?thesis using m1 m2 by (auto simp: RTMPInitWepEngine_def)
qed

definition wep_icv :: "bytes \<Rightarrow> bytes" where
  "wep_icv d = bytes_le32 (RTMP_CALC_FCS32 PPPINITFCS32 d XOR 0xffffffff)"

lemma wep_encrypt_eq:
  assumes "wep_key_ok k" "RTMPInitWepEngine True hdr (Key k) (KeyLen k) = Some ctx"
  shows "RTMPSoftEncryptWEP (True, True) hdr k (d @ replicate 4 x) (length d)
     = Some (True, snd (ARC4_Compute ctx (d @ wep_icv d)))"
  using assms by (simp add: RTMPSoftEncryptWEP_def wep_key_ok_def move_memory_def LEN_ICV_def wep_icv_def Let_def)

lemma wep_decrypt_eq:
  assumes "wep_key_ok k" "RTMPInitWepEngine True (hdr @ body) (Key k) (KeyLen k) = Some ctx"
    and "length hdr = 4" "length body = n + 4" "n + 8 < 65536"
  defines "p \<equiv> snd (ARC4_Compute ctx body)"
  shows "RTMPSoftDecryptWEP (True, True) k (hdr @ body) (of_nat (n + 8)) =
     (if wep_icv (take n p) = drop n p then Some (True, p @ drop (n + 4) (hdr @ body), of_nat n)
      else Some (False, p @ drop (n + 4) (hdr @ body), of_nat (n + 8)))"
proof -
  have cnt: "unat (of_nat (n + 8) :: u16) = n + 8" using assms(5) by (simp add: unat_of_nat take_bit_nat_eq_self del: of_nat_add)
  have cl: "(of_nat (n + 8) :: u16) - of_nat LEN_WEP_IV_HDR = of_nat (n + 4)"
    by (simp add: LEN_WEP_IV_HDR_def)
  have ucl: "unat (of_nat (n + 4) :: u16) = n + 4" using assms(5) by (simp add: unat_of_nat take_bit_nat_eq_self del: of_nat_add)
  have pl: "(of_nat (n + 4) :: u16) - of_nat LEN_ICV = of_nat n" by (simp add: LEN_ICV_def)
  have upl: "unat (of_nat n :: u16) = n" using assms(5) by (simp add: unat_of_nat take_bit_nat_eq_self del: of_nat_add)
  have gt: "\<not> (of_nat (n + 8) :: u16) \<le> of_nat LEN_WEP_IV_HDR"
    using cnt by (simp add: word_le_nat_alt LEN_WEP_IV_HDR_def)
  have len: "length p = n + 4" using assms(4) by (simp add: p_def)
  have body: "take (n + 4) (drop LEN_WEP_IV_HDR (hdr @ body)) = body"
    using assms(3,4) by (simp add: LEN_WEP_IV_HDR_def)
  have t: "take 4 (drop n (p @ r)) = drop n p" "take n (p @ r) = take n p" for r
    using len by simp_all
  have icv: "RTMP_CALC_FCS32 PPPINITFCS32 (take n p) XOR 0xffffffff = le32 (drop n p) \<longleftrightarrow> wep_icv (take n p) = drop n p"
    using len le32_bytes_le32 bytes_le32_le32 [of "drop n p"] unfolding wep_icv_def by (metis add_diff_cancel_left' length_drop)
  show ?thesis
    using assms(1,2) cnt gt len
    unfolding RTMPSoftDecryptWEP_def Let_def cl ucl pl upl body p_def [symmetric]
    by (simp add: wep_key_ok_def assms(3,4) body p_def [symmetric] t icv LEN_ICV_def del: of_nat_add)
qed

text \<open>
  With a key of 1 to 13 bytes, a received frame is accepted as the data \<open>d\<close> exactly when its body is
  what \<open>RTMPSoftEncryptWEP\<close> makes of \<open>d\<close> under the same key and header: the encryption of every message
  is accepted and gives the message back, and every other body of that length is rejected or
  gives other data.
\<close>

theorem WEP_exact:
  assumes "wep_key_ok k" and "length hdr = 4" and "length d + 8 < 65536" and "length body = length d + 4"
  shows "(\<exists>p. RTMPSoftDecryptWEP (True, True) k (hdr @ body) (of_nat (length d + 8)) = Some (True, p, of_nat (length d)) \<and>
            take (length d) p = d) \<longleftrightarrow>
         RTMPSoftEncryptWEP (True, True) hdr k (d @ [0, 0, 0, 0]) (length d) = Some (True, body)"
proof -
  obtain ctx where ctx: "RTMPInitWepEngine True (hdr @ tail) (Key k) (KeyLen k) = Some ctx" for tail
    using wep_engine [OF assms(1), of hdr] assms(2) by auto
  define S where "S xs = snd (ARC4_Compute ctx xs)" for xs
  have S: "S (S xs) = xs" "length (S xs) = length xs" for xs
    by (simp_all add: S_def ARC4_Compute_twice)
  have enc: "RTMPSoftEncryptWEP (True, True) hdr k (d @ [0, 0, 0, 0]) (length d) = Some (True, S (d @ wep_icv d))"
    using wep_encrypt_eq [OF assms(1), of hdr ctx d 0] ctx [of "[]"] by (simp add: S_def eval_nat_numeral)
  have dec: "RTMPSoftDecryptWEP (True, True) k (hdr @ body) (of_nat (length d + 8)) =
     (if wep_icv (take (length d) (S body)) = drop (length d) (S body)
      then Some (True, S body @ drop (length d + 4) (hdr @ body), of_nat (length d))
      else Some (False, S body @ drop (length d + 4) (hdr @ body), of_nat (length d + 8)))"
    using wep_decrypt_eq [OF assms(1) ctx assms(2,4,3)] by (simp add: S_def)
  have "wep_icv (take (length d) (S body)) = drop (length d) (S body) \<and> take (length d) (S body) = d \<longleftrightarrow>
      S body = d @ wep_icv d"
    by (metis append_eq_conv_conj append_take_drop_id)
  also have "\<dots> \<longleftrightarrow> S (d @ wep_icv d) = body" using S by metis
  finally show ?thesis
    using S(2) [of body] assms(4) unfolding enc dec by (auto split: if_splits)
qed

definition ex_wep_key :: CIPHER_KEY where
  "ex_wep_key = \<lparr>Key = [1, 2, 3, 4, 5], KeyLen = 5, TxMic = replicate 8 0, RxMic = replicate 8 0, TxTsc = replicate 16 0, CipherAlg = 1\<rparr>"

theorem WEP_exact_witness:
  "\<exists>body p. RTMPSoftEncryptWEP (True, True) [1, 2, 3, 0] ex_wep_key ([7, 8] @ [0, 0, 0, 0]) 2 = Some (True, body) \<and>
     RTMPSoftDecryptWEP (True, True) ex_wep_key ([1, 2, 3, 0] @ body) 10 = Some (True, p, 2) \<and> take 2 p = [7, 8]"
proof -
  have k: "wep_key_ok ex_wep_key" by (simp add: wep_key_ok_def ex_wep_key_def)
  obtain ctx where ctx: "RTMPInitWepEngine True ([1, 2, 3, 0] @ []) (Key ex_wep_key) (KeyLen ex_wep_key) = Some ctx"
    using wep_engine [OF k, of "[1, 2, 3, 0]"] by auto
  define body where "body = snd (ARC4_Compute ctx ([7, 8] @ wep_icv [7, 8]))"
  have "RTMPSoftEncryptWEP (True, True) [1, 2, 3, 0] ex_wep_key ([7, 8] @ [0, 0, 0, 0]) 2 = Some (True, body)"
    using wep_encrypt_eq [OF k, of "[1, 2, 3, 0]" ctx "[7, 8]" 0] ctx by (simp add: body_def eval_nat_numeral)
  moreover have "length body = 6"
    by (simp only: body_def ARC4_Compute_length) (simp add: wep_icv_def)
  ultimately show ?thesis using WEP_exact [OF k, of "[1, 2, 3, 0]" "[7, 8]" body] by (auto simp: numeral_2_eq_2)
qed

end
