(* ===== verification/Crypt_TKIP.thy ===== *)
theory Crypt_TKIP
  imports Crypt_WEP Crypt_AES_Tables
begin

text \<open>
  TKIP in the WiFi driver (\<open>rt5370.driver/common/cmm_tkip.c\<close>): the message integrity code
  (Michael), computed byte by byte, the mixing of the key of a frame, and the decryption of a
  frame. \<open>ULONG\<close> is modelled with the 32 bits that the code uses of it; a wider one only adds bits
  above them that no result depends on.
\<close>

section \<open>The message integrity code\<close>

record TKIP_KEY_INFO =
  nBytesInM :: nat
  K0 :: u32
  K1 :: u32
  tk_L :: u32
  tk_R :: u32
  tk_M :: u32
  tk_MIC :: bytes

definition ROL32 :: "u32 \<Rightarrow> nat \<Rightarrow> u32" where
  "ROL32 A n = push_bit n A OR (drop_bit (32 - n) A AND (push_bit n 1 - 1))"

definition ROR32 :: "u32 \<Rightarrow> nat \<Rightarrow> u32" where
  "ROR32 A n = ROL32 A (32 - n)"

definition RTMPTkipGetUInt32 :: "bytes \<Rightarrow> u32" where
  "RTMPTkipGetUInt32 p = foldl (\<lambda>res i. res OR push_bit (8 * i) (ucast (p ! i))) 0 [0..<4]"

definition RTMPTkipPutUInt32 :: "u32 \<Rightarrow> bytes" where
  "RTMPTkipPutUInt32 val = map (\<lambda>i. ucast ((drop_bit 8 ^^ i) val AND 0xff)) [0..<4]"

definition RTMPTkipSetMICKey :: "bytes \<Rightarrow> TKIP_KEY_INFO \<Rightarrow> TKIP_KEY_INFO" where
  "RTMPTkipSetMICKey pMICKey s =
     (let k0 = RTMPTkipGetUInt32 pMICKey; k1 = RTMPTkipGetUInt32 (drop 4 pMICKey)
      in s\<lparr>K0 := k0, K1 := k1, tk_L := k0, tk_R := k1, nBytesInM := 0, tk_M := 0\<rparr>)"

definition michael_step :: "u32 \<Rightarrow> u32 \<Rightarrow> u32 \<times> u32" where
  "michael_step l r =
     (let r1 = r XOR ROL32 l 17; l1 = l + r1;
          r2 = r1 XOR (drop_bit 8 (l1 AND 0xff00ff00) OR push_bit 8 (l1 AND 0x00ff00ff)); l2 = l1 + r2;
          r3 = r2 XOR ROL32 l2 3; l3 = l2 + r3;
          r4 = r3 XOR ROR32 l3 2; l4 = l3 + r4
      in (l4, r4))"

definition RTMPTkipAppendByte :: "u8 \<Rightarrow> TKIP_KEY_INFO \<Rightarrow> TKIP_KEY_INFO" where
  "RTMPTkipAppendByte uChar s =
     (let s1 = s\<lparr>tk_M := tk_M s OR push_bit (8 * nBytesInM s) (ucast uChar), nBytesInM := Suc (nBytesInM s)\<rparr>
      in if nBytesInM s1 \<ge> 4
         then (let (l, r) = michael_step (tk_L s1 XOR tk_M s1) (tk_R s1)
               in s1\<lparr>tk_L := l, tk_R := r, tk_M := 0, nBytesInM := 0\<rparr>)
         else s1)"

definition RTMPTkipAppend :: "bytes \<Rightarrow> TKIP_KEY_INFO \<Rightarrow> TKIP_KEY_INFO" where
  "RTMPTkipAppend pSrc s = fold RTMPTkipAppendByte pSrc s"

lemma AppendByte_count: "nBytesInM (RTMPTkipAppendByte c s) = (if nBytesInM s < 3 then Suc (nBytesInM s) else 0)"
  by (simp add: RTMPTkipAppendByte_def Let_def split_beta)

function pad_loop :: "TKIP_KEY_INFO \<Rightarrow> TKIP_KEY_INFO" where
  "pad_loop s = (if nBytesInM s \<noteq> 0 then pad_loop (RTMPTkipAppendByte 0 s) else s)"
  by pat_completeness auto
termination
  by (relation "measure (\<lambda>s. if nBytesInM s = 0 then 0 else Suc (4 - nBytesInM s))") (auto simp: AppendByte_count)

declare pad_loop.simps [simp del]

definition RTMPTkipGetMIC :: "TKIP_KEY_INFO \<Rightarrow> TKIP_KEY_INFO" where
  "RTMPTkipGetMIC s =
     (let s1 = RTMPTkipAppend [0x5a, 0, 0, 0, 0] s; s2 = pad_loop s1
      in s2\<lparr>tk_MIC := RTMPTkipPutUInt32 (tk_L s2) @ RTMPTkipPutUInt32 (tk_R s2)\<rparr>)"

definition MAC_ADDR_LEN :: nat where "MAC_ADDR_LEN = 6"

text \<open>The priority is a \<open>ULONG\<close> that is read as four bytes, low byte first.\<close>

definition RTMPInitMICEngine :: "bytes \<Rightarrow> bytes \<Rightarrow> u8 \<Rightarrow> bytes \<Rightarrow> TKIP_KEY_INFO \<Rightarrow> TKIP_KEY_INFO" where
  "RTMPInitMICEngine pDA pSA UserPriority pMICKey s =
     RTMPTkipAppend (bytes_le32 (ucast UserPriority))
      (RTMPTkipAppend (take MAC_ADDR_LEN pSA)
        (RTMPTkipAppend (take MAC_ADDR_LEN pDA) (RTMPTkipSetMICKey pMICKey s)))"

definition RTMPTkipCompareMICValue ::
  "bytes \<Rightarrow> bytes \<Rightarrow> bytes \<Rightarrow> bytes \<Rightarrow> u8 \<Rightarrow> nat \<Rightarrow> TKIP_KEY_INFO \<Rightarrow> bool \<times> TKIP_KEY_INFO" where
  "RTMPTkipCompareMICValue pSrc pDA pSA pMICKey UserPriority Len s =
     (let s1 = RTMPTkipAppend (take Len pSrc) (RTMPInitMICEngine pDA pSA UserPriority pMICKey s);
          OldMic = take 8 (drop Len pSrc);
          s2 = RTMPTkipGetMIC s1
      in (tk_MIC s2 = OldMic, s2))"

text \<open>The code of a packet to send: its addresses, the encapsulation if there is one, and the payload.\<close>

definition RTMPCalculateMICValue ::
  "bytes \<Rightarrow> u8 \<Rightarrow> bytes option \<Rightarrow> bytes \<Rightarrow> TKIP_KEY_INFO \<Rightarrow> TKIP_KEY_INFO" where
  "RTMPCalculateMICValue pSrc UserPriority pEncap txMic s =
     (let vlan_offset = (if pSrc ! 12 = 0x81 \<and> pSrc ! 13 = 0x00 then 4 else 0);
          s1 = RTMPInitMICEngine pSrc (drop 6 pSrc) UserPriority txMic s;
          s2 = (case pEncap of None \<Rightarrow> s1
                | Some e \<Rightarrow> RTMPTkipAppend (take 2 (drop (12 + vlan_offset) pSrc)) (RTMPTkipAppend (take 6 e) s1));
          s3 = RTMPTkipAppend (drop (14 + vlan_offset) pSrc) s2
      in RTMPTkipGetMIC s3)"

section \<open>The code is Michael of the padded message\<close>

text \<open>Specification: the message is padded to words, and each word goes through the block function.\<close>

fun words32 :: "bytes \<Rightarrow> u32 list" where
  "words32 (a # b # c # d # xs) = le32 [a, b, c, d] # words32 xs"
| "words32 _ = []"

definition michael_pad :: "bytes \<Rightarrow> bytes" where
  "michael_pad m = m @ [0x5a] @ replicate (4 + (3 - length m mod 4)) 0"

definition michael :: "u32 \<times> u32 \<Rightarrow> bytes \<Rightarrow> u32 \<times> u32" where
  "michael k m = foldl (\<lambda>(l, r) w. michael_step (l XOR w) r) k (words32 (michael_pad m))"

lemma RTMPTkipGetUInt32_eq: "RTMPTkipGetUInt32 p = le32 p"
  by (simp add: RTMPTkipGetUInt32_def le32_def upt_rec or.assoc numeral_2_eq_2 numeral_3_eq_3)

lemma RTMPTkipPutUInt32_eq: "RTMPTkipPutUInt32 w = bytes_le32 w"
proof -
  have m: "(0xff :: u32) = mask 8" by (simp add: mask_eq_exp_minus_1)
  have "ucast (x AND 0xff) = (ucast x :: u8)" for x :: u32
    unfolding m by (rule bit_word_eqI) (auto simp: bit_simps)
  then show ?thesis
    by (simp add: RTMPTkipPutUInt32_def bytes_le32_def upt_rec drop_bit_drop_bit numeral_2_eq_2 numeral_3_eq_3)
qed

lemma append_word:
  fixes a b c d :: u8
  assumes "nBytesInM s = 0" "tk_M s = 0"
  defines "s' \<equiv> RTMPTkipAppend [a, b, c, d] s"
  shows "nBytesInM s' = 0 \<and> tk_M s' = 0 \<and> (tk_L s', tk_R s') = michael_step (tk_L s XOR le32 [a, b, c, d]) (tk_R s)"
  using assms(1,2) unfolding s'_def
  by (simp add: RTMPTkipAppend_def RTMPTkipAppendByte_def Let_def split_beta le32_def or.assoc)

lemma append_words:
  "nBytesInM s = 0 \<Longrightarrow> tk_M s = 0 \<Longrightarrow> length xs mod 4 = 0 \<Longrightarrow>
   (tk_L (RTMPTkipAppend xs s), tk_R (RTMPTkipAppend xs s)) =
     foldl (\<lambda>(l, r) w. michael_step (l XOR w) r) (tk_L s, tk_R s) (words32 xs)"
proof (induction xs arbitrary: s rule: words32.induct)
  case (1 a b c d xs)
  let ?s = "RTMPTkipAppend [a, b, c, d] s"
  have "RTMPTkipAppend (a # b # c # d # xs) s = RTMPTkipAppend xs ?s" by (simp add: RTMPTkipAppend_def)
  with 1 append_word [of s a b c d] show ?case by (simp add: split_beta)
qed (auto simp: RTMPTkipAppend_def)

lemma append_append: "RTMPTkipAppend ys (RTMPTkipAppend xs s) = RTMPTkipAppend (xs @ ys) s"
  by (simp add: RTMPTkipAppend_def)

lemma append_count: "nBytesInM s < 4 \<Longrightarrow> nBytesInM (RTMPTkipAppend xs s) = (nBytesInM s + length xs) mod 4"
proof (induction xs arbitrary: s)
  case (Cons x xs)
  from Cons.prems have "nBytesInM (RTMPTkipAppendByte x s) = (nBytesInM s + 1) mod 4"
    by (cases "nBytesInM s < 3") (auto simp: AppendByte_count dest: less_antisym)
  with Cons.IH [of "RTMPTkipAppendByte x s"] show ?case by (simp add: RTMPTkipAppend_def mod_simps)
qed (simp add: RTMPTkipAppend_def)

lemma pad_loop_eq:
  "nBytesInM s < 4 \<Longrightarrow> pad_loop s = RTMPTkipAppend (replicate ((4 - nBytesInM s) mod 4) 0) s"
proof (induction s rule: pad_loop.induct)
  case (1 s)
  show ?case
  proof (cases "nBytesInM s = 0")
    case True
    then show ?thesis by (subst pad_loop.simps) (simp add: RTMPTkipAppend_def)
  next
    case False
    then have "nBytesInM s = 1 \<or> nBytesInM s = 2 \<or> nBytesInM s = 3" using 1 by auto
    then have k: "(4 - nBytesInM s) mod 4 = Suc ((4 - nBytesInM (RTMPTkipAppendByte 0 s)) mod 4)"
      by (elim disjE) (simp_all add: AppendByte_count)
    have "RTMPTkipAppend (replicate ((4 - nBytesInM s) mod 4) 0) s =
        RTMPTkipAppend (replicate ((4 - nBytesInM (RTMPTkipAppendByte 0 s)) mod 4) 0) (RTMPTkipAppendByte 0 s)"
      unfolding k RTMPTkipAppend_def by simp
    moreover have "nBytesInM (RTMPTkipAppendByte 0 s) < 4" by (simp add: AppendByte_count)
    ultimately show ?thesis using False "1.IH" by (subst pad_loop.simps) simp
  qed
qed


lemma GetMIC_michael:
  assumes "nBytesInM s = 0" "tk_M s = 0"
  shows "tk_MIC (RTMPTkipGetMIC (RTMPTkipAppend m s)) =
     (let (l, r) = michael (tk_L s, tk_R s) m in bytes_le32 l @ bytes_le32 r)"
proof -
  let ?s1 = "RTMPTkipAppend (m @ [0x5a, 0, 0, 0, 0]) s"
  have "nBytesInM ?s1 = (length m + 5) mod 4" using append_count [of s] assms(1) by (simp add: add.commute)
  moreover have "(4 - (length m + 5) mod 4) mod 4 = 3 - length m mod 4"
  proof -
    have "length m mod 4 = 0 \<or> length m mod 4 = 1 \<or> length m mod 4 = 2 \<or> length m mod 4 = 3" by auto
    then show ?thesis by (elim disjE) (simp_all add: mod_add_left_eq [of "length m" 4 5, symmetric])
  qed
  ultimately have pad: "pad_loop ?s1 = RTMPTkipAppend (replicate (3 - length m mod 4) 0) ?s1"
    using pad_loop_eq [of ?s1] by simp
  have "replicate 4 (0 :: u8) = [0, 0, 0, 0]" by (simp add: numeral_eq_Suc)
  then have "replicate (4 + (3 - length m mod 4)) (0 :: u8) = [0, 0, 0, 0] @ replicate (3 - length m mod 4) 0"
    by (simp only: replicate_add)
  then have fin: "pad_loop (RTMPTkipAppend [0x5a, 0, 0, 0, 0] (RTMPTkipAppend m s)) = RTMPTkipAppend (michael_pad m) s"
    unfolding append_append pad by (simp add: michael_pad_def)
  have "length (michael_pad m) mod 4 = 0"
  proof -
    have "length m + 7 - length m mod 4 = 7 + 4 * (length m div 4)"
      using minus_mod_eq_mult_div [of "length m" 4] mod_less_eq_dividend [of "length m" 4] by linarith
    then have "length (michael_pad m) = 4 * (length m div 4) + 8"
      using mod_less_divisor [of 4 "length m"] by (simp add: michael_pad_def)
    then show ?thesis by simp
  qed
  from append_words [OF assms this] show ?thesis
    by (simp add: RTMPTkipGetMIC_def Let_def fin michael_def RTMPTkipPutUInt32_eq split_beta)
      (metis fst_conv snd_conv)
qed

lemma InitMICEngine_eq:
  "RTMPInitMICEngine da sa prio key s =
     RTMPTkipAppend (take 6 da @ take 6 sa @ bytes_le32 (ucast prio)) (RTMPTkipSetMICKey key s)"
  by (simp add: RTMPInitMICEngine_def append_append MAC_ADDR_LEN_def)

lemma no_bit_u8: "8 \<le> n \<Longrightarrow> \<not> bit (x :: u8) n"
  using bit_imp_le_length [of x n] by auto

definition michael_mic :: "bytes \<Rightarrow> bytes \<Rightarrow> bytes" where
  "michael_mic key m =
     (let (l, r) = michael (le32 key, le32 (drop 4 key)) m in bytes_le32 l @ bytes_le32 r)"

lemma SetMICKey_start:
  "nBytesInM (RTMPTkipSetMICKey key s) = 0" "tk_M (RTMPTkipSetMICKey key s) = 0"
  "tk_L (RTMPTkipSetMICKey key s) = le32 key" "tk_R (RTMPTkipSetMICKey key s) = le32 (drop 4 key)"
  by (simp_all add: RTMPTkipSetMICKey_def Let_def RTMPTkipGetUInt32_eq)

lemma engine_mic:
  "tk_MIC (RTMPTkipGetMIC (RTMPTkipAppend m (RTMPInitMICEngine da sa prio key s))) =
     michael_mic key (take 6 da @ take 6 sa @ bytes_le32 (ucast prio) @ m)"
  by (simp add: InitMICEngine_eq append_append GetMIC_michael SetMICKey_start michael_mic_def)

text \<open>
  The integrity code that the driver accumulates byte by byte over the pieces of a packet is Michael
  of the whole padded message: for a packet to send it is computed over the two addresses, the
  priority and three zero bytes, the encapsulation with the protocol type (behind a VLAN
  tag, if there is one) and the payload, whatever state the engine was in before.
\<close>

theorem TKIP_MIC_correct:
  assumes "14 + v \<le> length pSrc" and "v = (if pSrc ! 12 = 0x81 \<and> pSrc ! 13 = 0x00 then 4 else 0)"
  shows "tk_MIC (RTMPCalculateMICValue pSrc prio pEncap key s) =
     michael_mic key (take 12 pSrc @ [prio, 0, 0, 0] @
       (case pEncap of None \<Rightarrow> [] | Some e \<Rightarrow> take 6 e @ [pSrc ! (12 + v), pSrc ! (13 + v)]) @ drop (14 + v) pSrc)"
proof -
  define enc where "enc = (case pEncap of None \<Rightarrow> [] | Some e \<Rightarrow> take 6 e @ [pSrc ! (12 + v), pSrc ! (13 + v)])"
  have "take 6 pSrc @ take 6 (drop 6 pSrc) = take 12 pSrc" using take_add [of 6 6 pSrc] by simp
  then have addr: "take 6 pSrc @ take 6 (drop 6 pSrc) @ x = take 12 pSrc @ x" for x by (metis append_assoc)
  have prio: "bytes_le32 (ucast prio) = [prio, 0, 0, 0]"
    unfolding bytes_le32_def by (auto intro!: bit_word_eqI simp: bit_simps no_bit_u8)
  have two: "take 2 (drop (12 + v) pSrc) = [pSrc ! (12 + v), pSrc ! (13 + v)]"
    using assms(1) by (simp add: take_Suc_conv_app_nth numeral_2_eq_2)
  have "RTMPCalculateMICValue pSrc prio pEncap key s =
      RTMPTkipGetMIC (RTMPTkipAppend (enc @ drop (14 + v) pSrc) (RTMPInitMICEngine pSrc (drop 6 pSrc) prio key s))"
    unfolding RTMPCalculateMICValue_def assms(2) [symmetric] Let_def
    by (cases pEncap) (simp_all add: enc_def append_append two)
  then show ?thesis by (simp add: engine_mic addr prio enc_def)
qed


theorem TKIP_MIC_correct_witness:
  "tk_MIC (RTMPCalculateMICValue (replicate 12 1 @ [0x08, 0x00] @ [7, 8, 9]) 0 (Some [0xaa, 0xaa, 3, 0, 0, 0]) (replicate 8 0)
      \<lparr>nBytesInM = 2, K0 = 0, K1 = 0, tk_L = 5, tk_R = 6, tk_M = 7, tk_MIC = []\<rparr>) =
     michael_mic (replicate 8 0) (replicate 12 1 @ [0, 0, 0, 0] @ [0xaa, 0xaa, 3, 0, 0, 0, 0x08, 0x00] @ [7, 8, 9])"
  using TKIP_MIC_correct [of 0 "replicate 12 1 @ [0x08, 0x00] @ [7, 8, 9]" 0 "Some [0xaa, 0xaa, 3, 0, 0, 0]"]
  by (simp add: nth_append)

end
