(* ===== verification/Crypt_TKIP_Mix.thy ===== *)
theory Crypt_TKIP_Mix
  imports Crypt_TKIP
begin

text \<open>
  The key mixing of TKIP and the protection of frames with it (\<open>rt5370.driver/common/cmm_tkip.c\<close>). The code
  computes with \<open>UINT\<close> values and reduces them in places; the specification below computes with 16-bit
  words, and derives the substitution box from that of AES.
\<close>

section \<open>Tables\<close>

definition Tkip_Sbox_Lower :: "u32 list" where
  "Tkip_Sbox_Lower = concat
    [[0xa5, 0x84, 0x99, 0x8d, 0x0d, 0xbd, 0xb1, 0x54],
     [0x50, 0x03, 0xa9, 0x7d, 0x19, 0x62, 0xe6, 0x9a],
     [0x45, 0x9d, 0x40, 0x87, 0x15, 0xeb, 0xc9, 0x0b],
     [0xec, 0x67, 0xfd, 0xea, 0xbf, 0xf7, 0x96, 0x5b],
     [0xc2, 0x1c, 0xae, 0x6a, 0x5a, 0x41, 0x02, 0x4f],
     [0x5c, 0xf4, 0x34, 0x08, 0x93, 0x73, 0x53, 0x3f],
     [0x0c, 0x52, 0x65, 0x5e, 0x28, 0xa1, 0x0f, 0xb5],
     [0x09, 0x36, 0x9b, 0x3d, 0x26, 0x69, 0xcd, 0x9f],
     [0x1b, 0x9e, 0x74, 0x2e, 0x2d, 0xb2, 0xee, 0xfb],
     [0xf6, 0x4d, 0x61, 0xce, 0x7b, 0x3e, 0x71, 0x97],
     [0xf5, 0x68, 0x00, 0x2c, 0x60, 0x1f, 0xc8, 0xed],
     [0xbe, 0x46, 0xd9, 0x4b, 0xde, 0xd4, 0xe8, 0x4a],
     [0x6b, 0x2a, 0xe5, 0x16, 0xc5, 0xd7, 0x55, 0x94],
     [0xcf, 0x10, 0x06, 0x81, 0xf0, 0x44, 0xba, 0xe3],
     [0xf3, 0xfe, 0xc0, 0x8a, 0xad, 0xbc, 0x48, 0x04],
     [0xdf, 0xc1, 0x75, 0x63, 0x30, 0x1a, 0x0e, 0x6d],
     [0x4c, 0x14, 0x35, 0x2f, 0xe1, 0xa2, 0xcc, 0x39],
     [0x57, 0xf2, 0x82, 0x47, 0xac, 0xe7, 0x2b, 0x95],
     [0xa0, 0x98, 0xd1, 0x7f, 0x66, 0x7e, 0xab, 0x83],
     [0xca, 0x29, 0xd3, 0x3c, 0x79, 0xe2, 0x1d, 0x76],
     [0x3b, 0x56, 0x4e, 0x1e, 0xdb, 0x0a, 0x6c, 0xe4],
     [0x5d, 0x6e, 0xef, 0xa6, 0xa8, 0xa4, 0x37, 0x8b],
     [0x32, 0x43, 0x59, 0xb7, 0x8c, 0x64, 0xd2, 0xe0],
     [0xb4, 0xfa, 0x07, 0x25, 0xaf, 0x8e, 0xe9, 0x18],
     [0xd5, 0x88, 0x6f, 0x72, 0x24, 0xf1, 0xc7, 0x51],
     [0x23, 0x7c, 0x9c, 0x21, 0xdd, 0xdc, 0x86, 0x85],
     [0x90, 0x42, 0xc4, 0xaa, 0xd8, 0x05, 0x01, 0x12],
     [0xa3, 0x5f, 0xf9, 0xd0, 0x91, 0x58, 0x27, 0xb9],
     [0x38, 0x13, 0xb3, 0x33, 0xbb, 0x70, 0x89, 0xa7],
     [0xb6, 0x22, 0x92, 0x20, 0x49, 0xff, 0x78, 0x7a],
     [0x8f, 0xf8, 0x80, 0x17, 0xda, 0x31, 0xc6, 0xb8],
     [0xc3, 0xb0, 0x77, 0x11, 0xcb, 0xfc, 0xd6, 0x3a]]"

definition Tkip_Sbox_Upper :: "u32 list" where
  "Tkip_Sbox_Upper = concat
    [[0xc6, 0xf8, 0xee, 0xf6, 0xff, 0xd6, 0xde, 0x91],
     [0x60, 0x02, 0xce, 0x56, 0xe7, 0xb5, 0x4d, 0xec],
     [0x8f, 0x1f, 0x89, 0xfa, 0xef, 0xb2, 0x8e, 0xfb],
     [0x41, 0xb3, 0x5f, 0x45, 0x23, 0x53, 0xe4, 0x9b],
     [0x75, 0xe1, 0x3d, 0x4c, 0x6c, 0x7e, 0xf5, 0x83],
     [0x68, 0x51, 0xd1, 0xf9, 0xe2, 0xab, 0x62, 0x2a],
     [0x08, 0x95, 0x46, 0x9d, 0x30, 0x37, 0x0a, 0x2f],
     [0x0e, 0x24, 0x1b, 0xdf, 0xcd, 0x4e, 0x7f, 0xea],
     [0x12, 0x1d, 0x58, 0x34, 0x36, 0xdc, 0xb4, 0x5b],
     [0xa4, 0x76, 0xb7, 0x7d, 0x52, 0xdd, 0x5e, 0x13],
     [0xa6, 0xb9, 0x00, 0xc1, 0x40, 0xe3, 0x79, 0xb6],
     [0xd4, 0x8d, 0x67, 0x72, 0x94, 0x98, 0xb0, 0x85],
     [0xbb, 0xc5, 0x4f, 0xed, 0x86, 0x9a, 0x66, 0x11],
     [0x8a, 0xe9, 0x04, 0xfe, 0xa0, 0x78, 0x25, 0x4b],
     [0xa2, 0x5d, 0x80, 0x05, 0x3f, 0x21, 0x70, 0xf1],
     [0x63, 0x77, 0xaf, 0x42, 0x20, 0xe5, 0xfd, 0xbf],
     [0x81, 0x18, 0x26, 0xc3, 0xbe, 0x35, 0x88, 0x2e],
     [0x93, 0x55, 0xfc, 0x7a, 0xc8, 0xba, 0x32, 0xe6],
     [0xc0, 0x19, 0x9e, 0xa3, 0x44, 0x54, 0x3b, 0x0b],
     [0x8c, 0xc7, 0x6b, 0x28, 0xa7, 0xbc, 0x16, 0xad],
     [0xdb, 0x64, 0x74, 0x14, 0x92, 0x0c, 0x48, 0xb8],
     [0x9f, 0xbd, 0x43, 0xc4, 0x39, 0x31, 0xd3, 0xf2],
     [0xd5, 0x8b, 0x6e, 0xda, 0x01, 0xb1, 0x9c, 0x49],
     [0xd8, 0xac, 0xf3, 0xcf, 0xca, 0xf4, 0x47, 0x10],
     [0x6f, 0xf0, 0x4a, 0x5c, 0x38, 0x57, 0x73, 0x97],
     [0xcb, 0xa1, 0xe8, 0x3e, 0x96, 0x61, 0x0d, 0x0f],
     [0xe0, 0x7c, 0x71, 0xcc, 0x90, 0x06, 0xf7, 0x1c],
     [0xc2, 0x6a, 0xae, 0x69, 0x17, 0x99, 0x3a, 0x27],
     [0xd9, 0xeb, 0x2b, 0x22, 0xd2, 0xa9, 0x07, 0x33],
     [0x2d, 0x3c, 0x15, 0xc9, 0x87, 0xaa, 0x50, 0xa5],
     [0x03, 0x59, 0x09, 0x1a, 0x65, 0xd7, 0x84, 0xd0],
     [0x82, 0x29, 0x5a, 0x1e, 0x7b, 0xa8, 0x6d, 0x2c]]"

section \<open>Model\<close>

definition tkip_sbox :: "u32 \<Rightarrow> u32" where
  "tkip_sbox index =
     (let index_low = unat (index mod 256);
          index_high = unat (drop_bit 8 index mod 256);
          left = Tkip_Sbox_Lower ! index_low + Tkip_Sbox_Upper ! index_low * 256;
          right = Tkip_Sbox_Upper ! index_high + Tkip_Sbox_Lower ! index_high * 256
      in left XOR right)"

definition rotr1 :: "u32 \<Rightarrow> u32" where
  "rotr1 a =
     (let b = (if a AND 0x01 = 0x01 then drop_bit 1 a OR 0x8000 else drop_bit 1 a AND 0x7fff)
      in b mod 65536)"

text \<open>\<open>(256*key[i+1]) + key[i]\<close>\<close>

definition key_word :: "bytes \<Rightarrow> nat \<Rightarrow> u32" where
  "key_word key i = 256 * ucast (key ! Suc i) + ucast (key ! i)"

text \<open>
  One round of phase 1 on \<open>p1k\<close>: the five assignments in order, each from the element before it in the
  cycle, with the key bytes at \<open>0, 4, 8, 12, 0\<close> (plus \<open>j\<close>); then the round number is added.
\<close>

definition phase1_assign :: "bytes \<Rightarrow> nat \<Rightarrow> u32 list \<Rightarrow> nat \<Rightarrow> u32 list" where
  "phase1_assign key j p m =
     p[m := (p ! m + tkip_sbox ((p ! ((m + 4) mod 5) XOR key_word key ([0, 4, 8, 12, 0] ! m + j)) mod 65536)) mod 65536]"

definition phase1_round :: "bytes \<Rightarrow> u32 list \<Rightarrow> nat \<Rightarrow> u32 list" where
  "phase1_round key p i =
     (let p' = foldl (phase1_assign key (2 * (i mod 2))) p [0, 1, 2, 3, 4]
      in p'[4 := (p' ! 4 + of_nat i) mod 65536])"

text \<open>
  Phase 2 on the six values \<open>ppk0 .. ppk5\<close>: the six assignments with the substitution box and the six with
  the rotation, each from the value before it in the cycle.
\<close>

definition phase2_sbox :: "bytes \<Rightarrow> u32 list \<Rightarrow> nat \<Rightarrow> u32 list" where
  "phase2_sbox key p m =
     p[m := p ! m + tkip_sbox ((p ! ((m + 5) mod 6) XOR key_word key (2 * m)) mod 65536)]"

definition phase2_rot :: "bytes \<Rightarrow> u32 list \<Rightarrow> nat \<Rightarrow> u32 list" where
  "phase2_rot key p m =
     p[m := p ! m + rotr1 (if m < 2 then p ! ((m + 5) mod 6) XOR key_word key (12 + 2 * m) else p ! ((m + 5) mod 6))]"

definition RTMPTkipMixKey :: "bytes \<Rightarrow> bytes \<Rightarrow> u32 \<Rightarrow> u32 \<Rightarrow> bytes" where
  "RTMPTkipMixKey key ta pnl pnh =
     (let tsc0 = drop_bit 16 pnh mod 65536;
          tsc1 = pnh mod 65536;
          tsc2 = pnl mod 65536;
          p1k0 = [tsc1, tsc0, ucast (ta ! 0) + ucast (ta ! 1) * 256, ucast (ta ! 2) + ucast (ta ! 3) * 256,
                  ucast (ta ! 4) + ucast (ta ! 5) * 256];
          p1k = foldl (phase1_round key) p1k0 [0..<8];
          ppk0 = p1k @ [(p1k ! 4 + tsc2) mod 65536];
          ppk1 = foldl (phase2_sbox key) ppk0 [0..<6];
          ppk = foldl (phase2_rot key) ppk1 [0..<6]
      in [ucast (drop_bit 8 tsc2 mod 256),
          ucast (((drop_bit 8 tsc2 mod 256) OR 0x20) AND 0x7f),
          ucast (tsc2 mod 256),
          ucast (drop_bit 1 (ppk ! 5 XOR key_word key 0) mod 256)]
         @ concat (map (\<lambda>m. [ucast (ppk ! m mod 256), ucast (drop_bit 8 (ppk ! m) mod 256)]) [0..<6]))"

section \<open>Specification with 16-bit words\<close>

definition Mk16 :: "u8 \<Rightarrow> u8 \<Rightarrow> u16" where
  "Mk16 hi lo = push_bit 8 (ucast hi) OR ucast lo"

definition Lo8 :: "u16 \<Rightarrow> u8" where "Lo8 w = ucast w"
definition Hi8 :: "u16 \<Rightarrow> u8" where "Hi8 w = ucast (drop_bit 8 w)"

definition RotR1 :: "u16 \<Rightarrow> u16" where
  "RotR1 w = drop_bit 1 w OR push_bit 15 w"

text \<open>The box of a byte: twice its AES substitute above three times it, in the field of AES.\<close>

definition tkip_T :: "u8 \<Rightarrow> u16" where
  "tkip_T x = (let s = aes_sbox_enc ! unat x in Mk16 (xtime s) (xtime s XOR s))"

definition tkip_S :: "u16 \<Rightarrow> u16" where
  "tkip_S w = tkip_T (Lo8 w) XOR (let t = tkip_T (Hi8 w) in Mk16 (Lo8 t) (Hi8 t))"

definition TK :: "bytes \<Rightarrow> nat \<Rightarrow> u16" where
  "TK key i = Mk16 (key ! Suc i) (key ! i)"

definition spec_phase1 :: "bytes \<Rightarrow> u16 list \<Rightarrow> nat \<Rightarrow> u16 list" where
  "spec_phase1 key p i =
     (let p' = foldl (\<lambda>p m. p[m := p ! m + tkip_S (p ! ((m + 4) mod 5) XOR TK key ([0, 4, 8, 12, 0] ! m + 2 * (i mod 2)))])
                 p [0, 1, 2, 3, 4]
      in p'[4 := p' ! 4 + of_nat i])"

definition spec_phase2_sbox :: "bytes \<Rightarrow> u16 list \<Rightarrow> nat \<Rightarrow> u16 list" where
  "spec_phase2_sbox key p m = p[m := p ! m + tkip_S (p ! ((m + 5) mod 6) XOR TK key (2 * m))]"

definition spec_phase2_rot :: "bytes \<Rightarrow> u16 list \<Rightarrow> nat \<Rightarrow> u16 list" where
  "spec_phase2_rot key p m =
     p[m := p ! m + RotR1 (if m < 2 then p ! ((m + 5) mod 6) XOR TK key (12 + 2 * m) else p ! ((m + 5) mod 6))]"

definition tkip_seed :: "bytes \<Rightarrow> bytes \<Rightarrow> u16 \<Rightarrow> u32 \<Rightarrow> bytes" where
  "tkip_seed key ta iv16 iv32 =
     (let ttak = foldl (spec_phase1 key)
            [ucast iv32, ucast (drop_bit 16 iv32), Mk16 (ta ! 1) (ta ! 0), Mk16 (ta ! 3) (ta ! 2), Mk16 (ta ! 5) (ta ! 4)] [0..<8];
          ppk1 = foldl (spec_phase2_sbox key) (ttak @ [ttak ! 4 + iv16]) [0..<6];
          ppk = foldl (spec_phase2_rot key) ppk1 [0..<6]
      in [Hi8 iv16, (Hi8 iv16 OR 0x20) AND 0x7f, Lo8 iv16, Lo8 (drop_bit 1 (ppk ! 5 XOR TK key 0))]
         @ concat (map (\<lambda>m. [Lo8 (ppk ! m), Hi8 (ppk ! m)]) [0..<6]))"

section \<open>The code implements the specification\<close>

text \<open>The low 16 bits of a \<open>UINT\<close>.\<close>

definition lo16 :: "u32 \<Rightarrow> u16" where "lo16 x = ucast x"

lemma mod_65536: "(x :: u32) mod 65536 = take_bit 16 x"
  by (simp add: take_bit_eq_mod)

lemma mod_256: "(x :: u32) mod 256 = take_bit 8 x"
  by (simp add: take_bit_eq_mod)

lemma lo16_simps:
  "lo16 (a + b) = lo16 a + lo16 b" "lo16 (a XOR b) = lo16 a XOR lo16 b" "lo16 (a mod 65536) = lo16 a"
  "lo16 (of_nat n) = of_nat n"
proof -
  show "lo16 (a + b) = lo16 a + lo16 b" unfolding lo16_def
    by (simp add: word_unat_eq_iff unsigned_ucast_eq unat_word_ariths take_bit_eq_mod mod_mod_cancel mod_add_eq)
  show "lo16 (a XOR b) = lo16 a XOR lo16 b" unfolding lo16_def by (rule bit_word_eqI) (auto simp: bit_simps)
  show "lo16 (a mod 65536) = lo16 a" unfolding lo16_def mod_65536 by (rule bit_word_eqI) (auto simp: bit_simps)
  show "lo16 (of_nat n) = of_nat n" unfolding lo16_def
    by (simp add: word_unat_eq_iff unsigned_ucast_eq unat_of_nat take_bit_eq_mod mod_mod_cancel)
qed

lemma byte_pair:
  fixes lo hi :: u8
  shows "ucast lo + ucast hi * 256 = (push_bit 8 (ucast hi) OR ucast lo :: u32)"
proof -
  have "(push_bit 8 (ucast hi) :: u32) AND ucast lo = 0"
  proof (rule bit_word_eqI)
    fix n show "bit (push_bit 8 (ucast hi) AND ucast lo :: u32) n = bit (0 :: u32) n"
      using no_bit_u8 [of n lo] by (cases "8 \<le> n") (auto simp: bit_simps)
  qed
  then have "push_bit 8 (ucast hi) + ucast lo = (push_bit 8 (ucast hi) OR ucast lo :: u32)"
    by (rule disjunctive_add_eq_or)
  then show ?thesis by (simp add: push_bit_eq_mult add.commute mult.commute)
qed

lemma lo16_key_word: "lo16 (key_word key i) = TK key i"
proof -
  have "key_word key i = push_bit 8 (ucast (key ! Suc i)) OR ucast (key ! i)"
    unfolding key_word_def using byte_pair [of "key ! i" "key ! Suc i"] by (simp add: add.commute mult.commute)
  then show ?thesis
    unfolding lo16_def TK_def Mk16_def by (intro bit_word_eqI) (auto simp: bit_simps)
qed

lemma Tkip_Sbox_eq:
  "Tkip_Sbox_Upper = map (\<lambda>s. ucast (xtime s)) aes_sbox_enc"
  "Tkip_Sbox_Lower = map (\<lambda>s. ucast (xtime s XOR s)) aes_sbox_enc"
  by (simp_all add: Tkip_Sbox_Upper_def Tkip_Sbox_Lower_def aes_sbox_enc_def xtime_small xtime_big)

lemma sbox_pair:
  "Tkip_Sbox_Lower ! unat x + Tkip_Sbox_Upper ! unat x * 256 = ucast (tkip_T x)"
  "Tkip_Sbox_Upper ! unat x + Tkip_Sbox_Lower ! unat x * 256 = ucast (Mk16 (Lo8 (tkip_T x)) (Hi8 (tkip_T x)))"
proof -
  have x: "unat x < length aes_sbox_enc" using unsigned_less [of x] by (simp add: aes_sbox_length)
  let ?s = "aes_sbox_enc ! unat x"
  have "(push_bit 8 (ucast hi) OR ucast lo :: u32) = ucast (Mk16 hi lo)" for hi lo
    unfolding Mk16_def
  proof (rule bit_word_eqI)
    fix n show "bit (push_bit 8 (ucast hi) OR ucast lo :: u32) n = bit (ucast (push_bit 8 (ucast hi) OR ucast lo :: u16) :: u32) n"
      using no_bit_u8 [of "n - 8" hi] no_bit_u8 [of n lo]
      by (cases "8 \<le> n"; cases "16 \<le> n") (auto simp: bit_simps)
  qed
  then have pair: "ucast lo + ucast hi * 256 = (ucast (Mk16 hi lo) :: u32)" for hi lo
    using byte_pair by simp
  have "Lo8 (Mk16 hi lo) = lo" "Hi8 (Mk16 hi lo) = hi" for hi lo
    unfolding Lo8_def Hi8_def Mk16_def by (rule bit_word_eqI; auto simp: bit_simps no_bit_u8)+
  then show "Tkip_Sbox_Lower ! unat x + Tkip_Sbox_Upper ! unat x * 256 = ucast (tkip_T x)"
    "Tkip_Sbox_Upper ! unat x + Tkip_Sbox_Lower ! unat x * 256 = ucast (Mk16 (Lo8 (tkip_T x)) (Hi8 (tkip_T x)))"
    using x pair by (simp_all add: Tkip_Sbox_eq tkip_T_def Let_def)
qed

lemma lo16_sbox: "lo16 (tkip_sbox (x mod 65536)) = tkip_S (lo16 x)"
proof -
  have lo: "unat (x mod 65536 mod 256) = unat (Lo8 (lo16 x))"
    unfolding mod_65536 mod_256 Lo8_def lo16_def
    by (simp add: unsigned_ucast_eq unsigned_take_bit_eq)
  have hi: "unat (drop_bit 8 (x mod 65536) mod 256) = unat (Hi8 (lo16 x))"
  proof -
    have "drop_bit 8 (x mod 65536) mod 256 = ucast (Hi8 (lo16 x))"
      unfolding mod_65536 mod_256 Hi8_def lo16_def by (rule bit_word_eqI) (auto simp: bit_simps)
    then show ?thesis
      using unsigned_less [of "Hi8 (lo16 x)", where 'a = nat] by (simp add: unsigned_ucast_eq take_bit_nat_eq_self)
  qed
  have "lo16 (ucast a XOR ucast b) = a XOR b" for a b :: u16
    unfolding lo16_def by (rule bit_word_eqI) (auto simp: bit_simps)
  then show ?thesis
    unfolding tkip_sbox_def Let_def lo hi sbox_pair by (simp add: tkip_S_def Let_def)
qed

lemma lo16_rotr1: "lo16 (rotr1 a) = RotR1 (lo16 a)"
proof -
  have odd: "a AND 1 = 1 \<longleftrightarrow> bit a 0" by (simp add: bit_0 and_one_eq odd_iff_mod_2_eq_one)
  have m: "(0x7fff :: u32) = mask 15" by (simp add: mask_eq_exp_minus_1)
  define c where "c = (0x8000 :: u32)"
  have "c = push_bit 15 1" by (simp add: c_def)
  then have top: "bit c n \<longleftrightarrow> n = 15" for n by (simp only: bit_push_bit_iff bit_1_iff) auto
  show ?thesis
    unfolding rotr1_def RotR1_def lo16_def Let_def odd m mod_65536 c_def [symmetric]
    by (rule bit_word_eqI) (auto simp: bit_simps top)
qed

lemma map_lo16_update: "map lo16 (p[m := v]) = (map lo16 p)[m := lo16 v]"
  by (simp add: map_update)

lemma phase1_assign_lo16:
  "length p = 5 \<Longrightarrow> m < 5 \<Longrightarrow> map lo16 (phase1_assign key j p m) =
     (map lo16 p)[m := map lo16 p ! m + tkip_S (map lo16 p ! ((m + 4) mod 5) XOR TK key ([0, 4, 8, 12, 0] ! m + j))]"
  by (simp add: phase1_assign_def map_lo16_update lo16_simps lo16_sbox lo16_key_word)

lemma foldl_lo16:
  assumes "\<And>p i. length p = n \<Longrightarrow> i \<in> set is \<Longrightarrow> map lo16 (f p i) = g (map lo16 p) i \<and> length (f p i) = n"
    and "length p = n"
  shows "map lo16 (foldl f p is) = foldl g (map lo16 p) is \<and> length (foldl f p is) = n"
  using assms by (induction "is" arbitrary: p) auto

lemma phase1_round_lo16:
  assumes "length p = 5"
  shows "map lo16 (phase1_round key p i) = spec_phase1 key (map lo16 p) i \<and> length (phase1_round key p i) = 5"
proof -
  define j where "j = 2 * (i mod 2)"
  let ?p = "foldl (phase1_assign key j) p [0, 1, 2, 3, 4]"
  have "map lo16 ?p = foldl (\<lambda>p m. p[m := p ! m + tkip_S (p ! ((m + 4) mod 5) XOR TK key ([0, 4, 8, 12, 0] ! m + j))])
      (map lo16 p) [0, 1, 2, 3, 4] \<and> length ?p = 5"
  proof (rule foldl_lo16 [OF _ assms], intro conjI)
    fix q :: "u32 list" and m assume q: "length q = 5" "m \<in> set [0, 1, 2, 3, 4 :: nat]"
    then have "m < 5" by auto
    then show "map lo16 (phase1_assign key j q m) =
        (map lo16 q)[m := map lo16 q ! m + tkip_S (map lo16 q ! ((m + 4) mod 5) XOR TK key ([0, 4, 8, 12, 0] ! m + j))]"
      by (rule phase1_assign_lo16 [OF q(1)])
    show "length (phase1_assign key j q m) = 5" by (simp add: phase1_assign_def q)
  qed
  then have p: "foldl (\<lambda>p m. p[m := p ! m + tkip_S (p ! ((m + 4) mod 5) XOR TK key ([0, 4, 8, 12, 0] ! m + j))])
      (map lo16 p) [0, 1, 2, 3, 4] = map lo16 ?p" "length ?p = 5" by simp_all
  show ?thesis
    unfolding phase1_round_def spec_phase1_def Let_def j_def [symmetric] p(1) using p(2)
    by (simp only: map_lo16_update lo16_simps length_list_update) (simp del: foldl_Cons foldl_Nil)
qed

lemma phase2_sbox_lo16:
  assumes "length p = 6" "m < 6"
  shows "map lo16 (phase2_sbox key p m) = spec_phase2_sbox key (map lo16 p) m \<and> length (phase2_sbox key p m) = 6"
  using assms by (simp add: phase2_sbox_def spec_phase2_sbox_def map_lo16_update lo16_simps lo16_sbox lo16_key_word)

lemma phase2_rot_lo16:
  assumes "length p = 6" "m < 6"
  shows "map lo16 (phase2_rot key p m) = spec_phase2_rot key (map lo16 p) m \<and> length (phase2_rot key p m) = 6"
  using assms by (simp add: phase2_rot_def spec_phase2_rot_def map_lo16_update lo16_simps lo16_rotr1 lo16_key_word)

lemma low_bytes:
  "ucast (x mod 256) = Lo8 (lo16 x)" "ucast (drop_bit 8 x mod 256) = Hi8 (lo16 x)"
  "ucast (drop_bit 1 x mod 256) = Lo8 (drop_bit 1 (lo16 x))"
  unfolding mod_256 Lo8_def Hi8_def lo16_def by (rule bit_word_eqI; auto simp: bit_simps)+

lemma lo16_pair: "lo16 (ucast lo + ucast hi * 256) = Mk16 hi (lo :: u8)"
  unfolding byte_pair lo16_def Mk16_def by (rule bit_word_eqI) (auto simp: bit_simps)

lemma mix_key_seed:
  assumes "pnl < 65536"
  shows "RTMPTkipMixKey key ta pnl pnh = tkip_seed key ta (ucast pnl) pnh"
proof -
  define p0 where "p0 = [pnh mod 65536, drop_bit 16 pnh mod 65536, ucast (ta ! 0) + ucast (ta ! 1) * 256,
      ucast (ta ! 2) + ucast (ta ! 3) * 256, ucast (ta ! 4) + ucast (ta ! 5) * 256 :: u32]"
  have p0: "map lo16 p0 = [ucast pnh, ucast (drop_bit 16 pnh), Mk16 (ta ! 1) (ta ! 0), Mk16 (ta ! 3) (ta ! 2), Mk16 (ta ! 5) (ta ! 4)]"
    "length p0 = 5"
    by (simp_all only: p0_def list.map lo16_simps(3) lo16_pair) (simp_all add: lo16_def)
  define p1k where "p1k = foldl (phase1_round key) p0 [0..<8]"
  have p1k: "map lo16 p1k = foldl (spec_phase1 key) (map lo16 p0) [0..<8]" "length p1k = 5"
    using foldl_lo16 [of 5 "[0..<8]" "phase1_round key" "spec_phase1 key" p0] phase1_round_lo16 p0(2)
    by (auto simp: p1k_def)
  define q0 where "q0 = p1k @ [(p1k ! 4 + pnl mod 65536) mod 65536]"
  have q0: "map lo16 q0 = map lo16 p1k @ [map lo16 p1k ! 4 + ucast pnl]" "length q0 = 6"
    using p1k(2) by (simp_all add: q0_def lo16_simps) (simp add: lo16_def)
  define q1 where "q1 = foldl (phase2_sbox key) q0 [0..<6]"
  have q1: "map lo16 q1 = foldl (spec_phase2_sbox key) (map lo16 q0) [0..<6]" "length q1 = 6"
    using foldl_lo16 [of 6 "[0..<6]" "phase2_sbox key" "spec_phase2_sbox key" q0] phase2_sbox_lo16 q0(2)
    by (auto simp: q1_def)
  define q where "q = foldl (phase2_rot key) q1 [0..<6]"
  have q: "map lo16 q = foldl (spec_phase2_rot key) (map lo16 q1) [0..<6]" "length q = 6"
    using foldl_lo16 [of 6 "[0..<6]" "phase2_rot key" "spec_phase2_rot key" q1] phase2_rot_lo16 q1(2)
    by (auto simp: q_def)
  have qn: "map lo16 q ! m = lo16 (q ! m)" if "m < 6" for m using that q(2) by simp
  have "unat pnl < 65536" using assms by (simp add: word_less_nat_alt)
  then have iv: "pnl mod 65536 = pnl" "(ucast pnl :: u16) = lo16 pnl"
    by (simp_all add: lo16_def mod_65536 word_unat_eq_iff unsigned_take_bit_eq take_bit_nat_eq_self)
  have parts: "concat (map (\<lambda>m. [ucast (q ! m mod 256), ucast (drop_bit 8 (q ! m) mod 256)]) [0..<6]) =
      concat (map (\<lambda>m. [Lo8 (map lo16 q ! m), Hi8 (map lo16 q ! m)]) [0..<6])"
    unfolding low_bytes(2) unfolding low_bytes(1) by (intro arg_cong [of _ _ concat] map_cong) (simp_all add: qn)
  have seed: "tkip_seed key ta (ucast pnl) pnh =
      [Hi8 (lo16 pnl), (Hi8 (lo16 pnl) OR 0x20) AND 0x7f, Lo8 (lo16 pnl), Lo8 (drop_bit 1 (map lo16 q ! 5 XOR TK key 0))]
         @ concat (map (\<lambda>m. [Lo8 (map lo16 q ! m), Hi8 (map lo16 q ! m)]) [0..<6])"
    unfolding tkip_seed_def Let_def p0(1) [symmetric] p1k(1) [symmetric] q0(1) [symmetric] q1(1) [symmetric] q(1) [symmetric]
    unfolding iv(2) ..
  have mix: "RTMPTkipMixKey key ta pnl pnh =
      [ucast (drop_bit 8 pnl mod 256), ucast (((drop_bit 8 pnl mod 256) OR 0x20) AND 0x7f), ucast (pnl mod 256),
       ucast (drop_bit 1 (q ! 5 XOR key_word key 0) mod 256)]
         @ concat (map (\<lambda>m. [ucast (q ! m mod 256), ucast (drop_bit 8 (q ! m) mod 256)]) [0..<6])"
    using iv(1) q0_def
    unfolding RTMPTkipMixKey_def Let_def p0_def [symmetric] p1k_def [symmetric] q1_def q_def by simp
  have flags: "ucast ((x OR 0x20) AND 0x7f) = (ucast x OR 0x20) AND (0x7f :: u8)" for x :: u32
    by (rule bit_word_eqI) (auto simp: bit_simps)
  show ?thesis
    unfolding mix seed unfolding parts flags unfolding low_bytes(2,3) unfolding low_bytes(1)
    using qn [of 5] by (simp add: lo16_simps lo16_key_word)
qed

text \<open>
  The seed of a frame that \<open>RTMPTkipMixKey\<close> computes with unreduced 32-bit sums and byte tables is the
  seed of the standard, computed with 16-bit words and a substitution box derived from that of AES,
  for every key, transmitter address and sequence counter.
\<close>

theorem TKIP_mix_correct:
  assumes "pnl < 65536"
  shows "RTMPTkipMixKey key ta pnl pnh = tkip_seed key ta (ucast pnl) pnh"
  using assms by (rule mix_key_seed)

theorem TKIP_mix_correct_witness:
  "(1 :: u32) < 65536 \<and> RTMPTkipMixKey (replicate 16 7) (replicate 6 3) 1 0 = tkip_seed (replicate 16 7) (replicate 6 3) (ucast (1 :: u32)) 0"
  using TKIP_mix_correct [of 1 "replicate 16 7" "replicate 6 3" 0] by simp

end
