(* ===== verification/Crypt_TKIP_Frame.thy ===== *)
theory Crypt_TKIP_Frame
  imports Crypt_TKIP_Mix
begin

text \<open>
  The protection of frames and of group keys with TKIP (\<open>RTMPSoftDecryptTKIP\<close>, \<open>TKIP_GTK_KEY_WRAP\<close> and
  \<open>TKIP_GTK_KEY_UNWRAP\<close> of \<open>rt5370.driver/common/cmm_tkip.c\<close>). A read outside a buffer is \<open>None\<close>; the header
  holds the addresses at 4, 10, 16 and 24, as \<open>HEADER_802_11\<close> does.
\<close>

section \<open>Definitions\<close>

definition LEN_TKIP_IV_HDR :: nat where "LEN_TKIP_IV_HDR = 8"
definition LEN_TKIP_MIC :: nat where "LEN_TKIP_MIC = 8"
definition LEN_KEY_DESC_IV :: nat where "LEN_KEY_DESC_IV = 16"
definition LEN_PTK_KEK :: nat where "LEN_PTK_KEK = 16"

definition from_ds :: "bytes \<Rightarrow> u8" where "from_ds pHdr = drop_bit 1 (pHdr ! 1 AND 0x2)"
definition to_ds :: "bytes \<Rightarrow> u8" where "to_ds pHdr = pHdr ! 1 AND 0x1"

definition Addr1 :: "bytes \<Rightarrow> bytes" where "Addr1 pHdr = take MAC_ADDR_LEN (drop 4 pHdr)"
definition Addr2 :: "bytes \<Rightarrow> bytes" where "Addr2 pHdr = take MAC_ADDR_LEN (drop 10 pHdr)"
definition Addr3 :: "bytes \<Rightarrow> bytes" where "Addr3 pHdr = take MAC_ADDR_LEN (drop 16 pHdr)"
definition Octet6 :: "bytes \<Rightarrow> bytes" where "Octet6 pHdr = take MAC_ADDR_LEN (drop 24 pHdr)"

text \<open>Destination, source and transmitter, in this order.\<close>

definition tkip_addresses :: "bytes \<Rightarrow> (bytes \<times> bytes \<times> bytes) option" where
  "tkip_addresses pHdr =
     (if length pHdr < 24 then None
      else if to_ds pHdr = 0 \<and> from_ds pHdr = 1 then Some (Addr1 pHdr, Addr3 pHdr, Addr2 pHdr)
      else if to_ds pHdr = 0 \<and> from_ds pHdr = 0 then Some (Addr1 pHdr, Addr2 pHdr, Addr2 pHdr)
      else if to_ds pHdr = 1 \<and> from_ds pHdr = 0 then Some (Addr3 pHdr, Addr2 pHdr, Addr2 pHdr)
      else if to_ds pHdr = 1 \<and> from_ds pHdr = 1 \<and> 30 \<le> length pHdr then Some (Addr3 pHdr, Octet6 pHdr, Addr2 pHdr)
      else None)"

record tkip_result =
  accepted :: bool
  mic_error_reported :: bool
  data_buffer :: bytes
  data_count :: u16
  mic_engine :: TKIP_KEY_INFO

definition RTMPSoftDecryptTKIP ::
  "bytes \<Rightarrow> u8 \<Rightarrow> CIPHER_KEY \<Rightarrow> bytes \<Rightarrow> u16 \<Rightarrow> TKIP_KEY_INFO \<Rightarrow> tkip_result option" where
  "RTMPSoftDecryptTKIP pHdr UserPriority pKey pData DataByteCnt engine =
     (let fail = (\<lambda>mic d s. Some \<lparr>accepted = False, mic_error_reported = mic, data_buffer = d, data_count = DataByteCnt, mic_engine = s\<rparr>)
      in if KeyLen pKey = 0 then fail False pData engine
         else Option.bind (tkip_addresses pHdr) (\<lambda>(DA, SA, TA).
           if length pData < 8 \<or> length (Key pKey) < 16 then None
           else
            (let pnl = push_bit 8 (ucast (pData ! 0)) OR ucast (pData ! 2) :: u32;
                 pnh = le32 (drop 4 pData);
                 RC4Key = RTMPTkipMixKey (Key pKey) TA pnl pnh;
                 ciphertext_len = ucast DataByteCnt - of_nat LEN_TKIP_IV_HDR :: u32
             in if DataByteCnt \<le> of_nat LEN_TKIP_IV_HDR then fail False pData engine
                else if length pData < unat DataByteCnt then None
                else Option.bind (ARC4_INIT RC4Key 16) (\<lambda>ctx.
                  let cl = unat ciphertext_len;
                      d1 = snd (ARC4_Compute ctx (take cl (drop LEN_TKIP_IV_HDR pData))) @ drop cl pData;
                      plaintext_len = ciphertext_len - of_nat LEN_ICV;
                      pl = unat plaintext_len
                  in if length d1 < pl + LEN_ICV then None
                     else if RTMP_CALC_FCS32 PPPINITFCS32 (take pl d1) XOR 0xffffffff \<noteq> le32 (take LEN_ICV (drop pl d1))
                     then fail False d1 engine
                     else
                      (let plaintext_len2 = plaintext_len - of_nat LEN_TKIP_MIC;
                           pl2 = unat plaintext_len2
                       in if length d1 < pl2 + LEN_TKIP_MIC \<or> length (RxMic pKey) < 8 then None
                          else
                           (let TrailMIC = take LEN_TKIP_MIC (drop pl2 d1);
                                s1 = RTMPTkipGetMIC (RTMPTkipAppend (take pl2 d1)
                                       (RTMPInitMICEngine DA SA UserPriority (RxMic pKey) engine))
                            in if tk_MIC s1 \<noteq> TrailMIC then fail True d1 s1
                               else Some \<lparr>accepted = True, mic_error_reported = False, data_buffer = d1,
                                          data_count = ucast plaintext_len2, mic_engine = s1\<rparr>))))))"

definition TKIP_GTK_KEY_WRAP :: "bool \<Rightarrow> bytes \<Rightarrow> bytes \<Rightarrow> bytes \<Rightarrow> bytes \<Rightarrow> bytes option" where
  "TKIP_GTK_KEY_WRAP alloc key iv input_text output_text =
     (if \<not> alloc then Some output_text
      else
        Option.bind (move_memory (replicate (LEN_KEY_DESC_IV + LEN_PTK_KEK) 0) 0 iv 0 LEN_KEY_DESC_IV) (\<lambda>e1.
        Option.bind (move_memory e1 LEN_KEY_DESC_IV key 0 LEN_PTK_KEK) (\<lambda>ekey.
        Option.bind (ARC4_INIT ekey (of_nat (LEN_KEY_DESC_IV + LEN_PTK_KEK))) (\<lambda>ctx.
          move_memory output_text 0 (snd (ARC4_Compute (ARC4_Discard_KeyLength ctx 256) input_text)) 0 (length input_text)))))"

definition TKIP_GTK_KEY_UNWRAP :: "bool \<Rightarrow> bytes \<Rightarrow> bytes \<Rightarrow> bytes \<Rightarrow> bytes \<Rightarrow> bytes option" where
  "TKIP_GTK_KEY_UNWRAP alloc key iv input_text output_text = TKIP_GTK_KEY_WRAP alloc key iv input_text output_text"

section \<open>Group keys\<close>

lemma key_wrap_eq:
  assumes "length key = 16" "length iv = 16"
  shows "\<exists>ctx. \<forall>xs out. length xs \<le> length out \<longrightarrow>
      TKIP_GTK_KEY_WRAP True key iv xs out = Some (snd (ARC4_Compute ctx xs) @ drop (length xs) out)"
proof -
  have "\<exists>ctx. ARC4_INIT (iv @ key) 32 = Some ctx" using assms by (simp add: ARC4_INIT_def)
  then obtain ctx where "ARC4_INIT (iv @ key) 32 = Some ctx" ..
  then show ?thesis
    using assms by (intro exI [of _ "ARC4_Discard_KeyLength ctx 256"])
      (simp add: TKIP_GTK_KEY_WRAP_def move_memory_def LEN_KEY_DESC_IV_def LEN_PTK_KEK_def)
qed

text \<open>
  A group key wrapped for an EAPOL frame with the key encryption key and the initial vector of the frame
  is recovered by unwrapping with the same two: into buffers that hold it, both operations succeed and
  the bytes behind the key stay as they were.
\<close>

theorem TKIP_GTK_roundtrip:
  assumes "length key = 16" and "length iv = 16" and "length gtk \<le> length out" and "length gtk \<le> length out2"
  shows "\<exists>w. TKIP_GTK_KEY_WRAP True key iv gtk out = Some (w @ drop (length gtk) out) \<and> length w = length gtk \<and>
     TKIP_GTK_KEY_UNWRAP True key iv w out2 = Some (gtk @ drop (length gtk) out2)"
proof -
  obtain ctx where ctx: "length xs \<le> length o' \<Longrightarrow>
      TKIP_GTK_KEY_WRAP True key iv xs o' = Some (snd (ARC4_Compute ctx xs) @ drop (length xs) o')" for xs o'
    using key_wrap_eq [OF assms(1,2)] by blast
  show ?thesis
    using assms(3,4) by (intro exI [of _ "snd (ARC4_Compute ctx gtk)"])
      (simp add: ctx TKIP_GTK_KEY_UNWRAP_def ARC4_Compute_twice)
qed

theorem TKIP_GTK_roundtrip_witness:
  "\<exists>w. TKIP_GTK_KEY_WRAP True (replicate 16 1) (replicate 16 2) [5, 6, 7] [0, 0, 0, 9] = Some (w @ [9]) \<and> length w = 3 \<and>
     TKIP_GTK_KEY_UNWRAP True (replicate 16 1) (replicate 16 2) w [0, 0, 0] = Some [5, 6, 7]"
  using TKIP_GTK_roundtrip [of "replicate 16 1" "replicate 16 2" "[5, 6, 7]" "[0, 0, 0, 9]" "[0, 0, 0]"] by (simp add: numeral_3_eq_3)

section \<open>Frames\<close>

text \<open>
  Specification: the standard takes the addresses by the two distribution system bits, the transmitter
  always from the second address, and encapsulates the data with their integrity code
  and the check sum of both.
\<close>

definition std_DA :: "bytes \<Rightarrow> bytes" where
  "std_DA pHdr = (if bit (pHdr ! 1) 0 then Addr3 pHdr else Addr1 pHdr)"

definition std_SA :: "bytes \<Rightarrow> bytes" where
  "std_SA pHdr = (if bit (pHdr ! 1) 1 then if bit (pHdr ! 1) 0 then Octet6 pHdr else Addr3 pHdr else Addr2 pHdr)"

definition std_seed :: "CIPHER_KEY \<Rightarrow> bytes \<Rightarrow> bytes \<Rightarrow> bytes" where
  "std_seed k pHdr iv = tkip_seed (Key k) (Addr2 pHdr) (Mk16 (iv ! 0) (iv ! 2)) (le32 (drop 4 iv))"

definition std_mic :: "CIPHER_KEY \<Rightarrow> bytes \<Rightarrow> u8 \<Rightarrow> bytes \<Rightarrow> bytes" where
  "std_mic k pHdr prio d = michael_mic (RxMic k) (std_DA pHdr @ std_SA pHdr @ [prio, 0, 0, 0] @ d)"

definition tkip_encapsulate :: "CIPHER_KEY \<Rightarrow> bytes \<Rightarrow> u8 \<Rightarrow> bytes \<Rightarrow> bytes \<Rightarrow> bytes option" where
  "tkip_encapsulate k pHdr prio iv d =
     map_option (\<lambda>ctx. let m = d @ std_mic k pHdr prio d in snd (ARC4_Compute ctx (m @ wep_icv m)))
       (ARC4_INIT (std_seed k pHdr iv) 16)"

definition tkip_frame_ok :: "CIPHER_KEY \<Rightarrow> bytes \<Rightarrow> bool" where
  "tkip_frame_ok k pHdr \<longleftrightarrow> KeyLen k \<noteq> 0 \<and> length (Key k) = 16 \<and> length (RxMic k) = 8 \<and>
     24 \<le> length pHdr \<and> (bit (pHdr ! 1) 0 \<and> bit (pHdr ! 1) 1 \<longrightarrow> 30 \<le> length pHdr)"

lemma to_ds_bit: "to_ds h = (if bit (h ! 1) 0 then 1 else 0)"
proof (rule bit_word_eqI)
  fix n show "bit (to_ds h) n = bit (if bit (h ! 1) 0 then 1 else 0 :: u8) n"
    by (cases "n = 0") (auto simp: to_ds_def bit_simps)
qed

lemma from_ds_bit: "from_ds h = (if bit (h ! 1) 1 then 1 else 0)"
proof (rule bit_word_eqI)
  fix n
  have "(2 :: u8) = push_bit 1 1" by simp
  then show "bit (from_ds h) n = bit (if bit (h ! 1) 1 then 1 else 0 :: u8) n"
    by (cases "n = 0") (simp_all only: from_ds_def, auto simp: bit_simps)
qed

lemma addresses_std:
  assumes "tkip_frame_ok k pHdr"
  shows "tkip_addresses pHdr = Some (std_DA pHdr, std_SA pHdr, Addr2 pHdr)"
  using assms unfolding tkip_addresses_def to_ds_bit from_ds_bit std_DA_def std_SA_def tkip_frame_ok_def
  by (simp del: One_nat_def)

lemma address_lengths:
  assumes "tkip_frame_ok k pHdr"
  shows "length (std_DA pHdr) = 6" "length (std_SA pHdr) = 6"
  using assms by (auto simp: std_DA_def std_SA_def Addr1_def Addr2_def Addr3_def Octet6_def MAC_ADDR_LEN_def tkip_frame_ok_def)

lemma pnl_seed:
  fixes a b :: u8
  defines "pnl \<equiv> (push_bit 8 (ucast a) OR ucast b :: u32)"
  shows "pnl < 65536" "ucast pnl = Mk16 a b"
proof -
  have "take_bit 16 pnl = pnl" unfolding pnl_def
  proof (rule bit_word_eqI)
    fix n show "bit (take_bit 16 (push_bit 8 (ucast a) OR ucast b :: u32)) n = bit (push_bit 8 (ucast a) OR ucast b :: u32) n"
      by (cases "n < 16") (auto simp: bit_simps no_bit_u8 [of "n - 8" a] no_bit_u8 [of n b])
  qed
  then have "unat pnl < 2 ^ 16" by (metis take_bit_nat_less_exp unsigned_take_bit_eq)
  then show "pnl < 65536" by (simp add: word_less_nat_alt)
  show "ucast pnl = Mk16 a b"
    unfolding pnl_def Mk16_def by (rule bit_word_eqI) (auto simp: bit_simps)
qed

lemma michael_mic_length [simp]: "length (michael_mic k m) = 8"
  by (simp add: michael_mic_def split_beta)

lemma engine_std_mic:
  assumes "tkip_frame_ok k pHdr"
  shows "tk_MIC (RTMPTkipGetMIC (RTMPTkipAppend d (RTMPInitMICEngine (std_DA pHdr) (std_SA pHdr) prio (RxMic k) s)))
    = std_mic k pHdr prio d"
proof -
  have "bytes_le32 (ucast prio) = [prio, 0, 0, 0]"
    unfolding bytes_le32_def by (auto intro!: bit_word_eqI simp: bit_simps no_bit_u8)
  then show ?thesis using address_lengths [OF assms] by (simp add: engine_mic std_mic_def)
qed

lemma tkip_decrypt_eq:
  fixes prio :: u8 and s :: TKIP_KEY_INFO
  assumes ok: "tkip_frame_ok k hdr" and len: "length iv = 8" "length body = n + 12" "n + 20 < 65536"
    and ctx: "ARC4_INIT (std_seed k hdr iv) 16 = Some ctx"
  defines "p \<equiv> snd (ARC4_Compute ctx body)"
  defines "s1 \<equiv> RTMPTkipGetMIC (RTMPTkipAppend (take n p) (RTMPInitMICEngine (std_DA hdr) (std_SA hdr) prio (RxMic k) s))"
  shows "RTMPSoftDecryptTKIP hdr prio k (iv @ body) (of_nat (n + 20)) s = Some
     (if wep_icv (take (n + 8) p) \<noteq> drop (n + 8) p
      then \<lparr>accepted = False, mic_error_reported = False, data_buffer = p @ drop (n + 12) (iv @ body), data_count = of_nat (n + 20), mic_engine = s\<rparr>
      else if std_mic k hdr prio (take n p) \<noteq> take 8 (drop n p)
      then \<lparr>accepted = False, mic_error_reported = True, data_buffer = p @ drop (n + 12) (iv @ body), data_count = of_nat (n + 20), mic_engine = s1\<rparr>
      else \<lparr>accepted = True, mic_error_reported = False, data_buffer = p @ drop (n + 12) (iv @ body), data_count = of_nat n, mic_engine = s1\<rparr>)"
proof -
  have cnt: "unat (of_nat (n + 20) :: u16) = n + 20" using len(3) by (simp add: unat_of_nat take_bit_nat_eq_self del: of_nat_add)
  have u32: "unat (of_nat m :: u32) = m" if "m < 65536" for m
    using that by (simp add: unat_of_nat take_bit_nat_eq_self del: of_nat_add)
  have "(ucast (of_nat (n + 20) :: u16) :: u32) = of_nat (n + 20)"
    using cnt by (metis of_nat_unat)
  then have cl: "ucast (of_nat (n + 20) :: u16) - of_nat LEN_TKIP_IV_HDR = (of_nat (n + 12) :: u32)"
    by (simp add: LEN_TKIP_IV_HDR_def)
  have pl: "(of_nat (n + 12) :: u32) - of_nat LEN_ICV = of_nat (n + 8)" by (simp add: LEN_ICV_def)
  have pl2: "(of_nat (n + 8) :: u32) - of_nat LEN_TKIP_MIC = of_nat n" by (simp add: LEN_TKIP_MIC_def)
  have uu: "unat (of_nat (n + 12) :: u32) = n + 12" "unat (of_nat (n + 8) :: u32) = n + 8" "unat (of_nat n :: u32) = n"
    using len(3) by (simp_all add: u32 del: of_nat_add)
  have c16: "(ucast (of_nat n :: u32) :: u16) = of_nat n"
    using uu(3) by (metis of_nat_unat)
  have gt: "\<not> (of_nat (n + 20) :: u16) \<le> of_nat LEN_TKIP_IV_HDR"
    using cnt by (simp add: word_le_nat_alt LEN_TKIP_IV_HDR_def)
  have lp: "length p = n + 12" using len by (simp add: p_def)
  have body: "take (n + 12) (drop LEN_TKIP_IV_HDR (iv @ body)) = body" using len by (simp add: LEN_TKIP_IV_HDR_def)
  have pre: "take 4 (drop (n + 8) (p @ r)) = drop (n + 8) p" "take (n + 8) (p @ r) = take (n + 8) p"
    "take 8 (drop n (p @ r)) = take 8 (drop n p)" "take n (p @ r) = take n p" for r
    using lp by simp_all
  have "RTMPTkipMixKey (Key k) (Addr2 hdr) (push_bit 8 (ucast (iv ! 0)) OR ucast (iv ! 2)) (le32 (drop 4 iv)) = std_seed k hdr iv"
    unfolding mix_key_seed [OF pnl_seed(1)] pnl_seed(2) std_seed_def ..
  moreover have "le32 (drop 4 iv @ body) = le32 (drop 4 iv)" using len by (simp add: le32_def nth_append)
  ultimately have seed: "RTMPTkipMixKey (Key k) (Addr2 hdr) (push_bit 8 (ucast ((iv @ body) ! 0)) OR ucast ((iv @ body) ! 2)) (le32 (drop 4 (iv @ body))) = std_seed k hdr iv"
    using len by (simp add: nth_append)
  have icv: "RTMP_CALC_FCS32 PPPINITFCS32 (take (n + 8) p) XOR 0xffffffff = le32 (drop (n + 8) p) \<longleftrightarrow> wep_icv (take (n + 8) p) = drop (n + 8) p"
  proof -
    have "length (drop (n + 8) p) = 4" using lp by simp
    then show ?thesis unfolding wep_icv_def by (metis le32_bytes_le32 bytes_le32_le32)
  qed
  have ok': "KeyLen k \<noteq> 0" "length (Key k) = 16" "length (RxMic k) = 8" using ok by (simp_all add: tkip_frame_ok_def)
  have mic: "tk_MIC s1 = std_mic k hdr prio (take n p)" unfolding s1_def by (rule engine_std_mic [OF ok])
  show ?thesis
    unfolding RTMPSoftDecryptTKIP_def Let_def addresses_std [OF ok] bind.bind_lunit prod.case seed ctx cl pl pl2 uu body p_def [symmetric]
    using ok' gt cnt lp len
    by (simp add: pre icv LEN_ICV_def LEN_TKIP_MIC_def s1_def [symmetric] mic c16 del: of_nat_add)
qed

lemma std_seed_init: "\<exists>ctx. ARC4_INIT (std_seed k hdr iv) 16 = Some ctx"
proof -
  have "length (std_seed k hdr iv) = 16" by (simp add: std_seed_def tkip_seed_def Let_def upt_rec)
  then show ?thesis by (simp add: ARC4_INIT_def)
qed

text \<open>
  C39. A received TKIP frame is accepted as the data \<open>d\<close> exactly when its body is the encapsulation of \<open>d\<close> that
  the standard prescribes for its addresses, priority, counter and keys: every encapsulated message
  is accepted and given back, and no other body of that length is accepted as \<open>d\<close>. An integrity
  error is reported exactly when the check sum is right and the integrity code is not.
\<close>

theorem TKIP_exact:
  fixes prio :: u8 and s :: TKIP_KEY_INFO
  assumes "tkip_frame_ok k hdr" and "length iv = 8" and "length body = length d + 12" and "length d + 20 < 65536"
  defines "res \<equiv> RTMPSoftDecryptTKIP hdr prio k (iv @ body) (of_nat (length d + 20)) s"
  shows "((\<exists>r. res = Some r \<and> accepted r \<and> data_count r = of_nat (length d) \<and> take (length d) (data_buffer r) = d) \<longleftrightarrow>
            tkip_encapsulate k hdr prio iv d = Some body) \<and>
         (\<exists>r. res = Some r \<and> (mic_error_reported r \<longleftrightarrow> \<not> accepted r \<and>
            (let m = take (length d + 8) (data_buffer r) in wep_icv m = take 4 (drop (length d + 8) (data_buffer r)))))"
proof -
  obtain ctx where ctx: "ARC4_INIT (std_seed k hdr iv) 16 = Some ctx" using std_seed_init by blast
  define S where "S xs = snd (ARC4_Compute ctx xs)" for xs
  have S: "S (S xs) = xs" "length (S xs) = length xs" for xs by (simp_all add: S_def ARC4_Compute_twice)
  note dec = tkip_decrypt_eq [OF assms(1,2,3,4) ctx, of prio s, folded S_def res_def]
  have enc: "tkip_encapsulate k hdr prio iv d = Some body \<longleftrightarrow>
      S body = (d @ std_mic k hdr prio d) @ wep_icv (d @ std_mic k hdr prio d)"
    unfolding tkip_encapsulate_def ctx option.map S_def [symmetric] Let_def by (metis S(1) option.inject)
  let ?n = "length d"
  have m: "length (std_mic k hdr prio x) = 8" for x by (simp add: std_mic_def)
  have split: "S body = (d @ std_mic k hdr prio d) @ wep_icv (d @ std_mic k hdr prio d) \<longleftrightarrow>
      take ?n (S body) = d \<and> std_mic k hdr prio (take ?n (S body)) = take 8 (drop ?n (S body)) \<and>
      wep_icv (take (?n + 8) (S body)) = drop (?n + 8) (S body)" (is "?L \<longleftrightarrow> ?R")
  proof
    assume ?L then show ?R by (simp add: m)
  next
    assume ?R
    moreover have "take (?n + 8) (S body) = take ?n (S body) @ take 8 (drop ?n (S body))" by (rule take_add)
    ultimately show ?L by (metis append_take_drop_id)
  qed
  have "length (S body) = ?n + 12" using S(2) assms(3) by simp
  then show ?thesis unfolding enc split dec Let_def by auto
qed

definition ex_tkip_key :: CIPHER_KEY where
  "ex_tkip_key = \<lparr>Key = replicate 16 1, KeyLen = 16, TxMic = replicate 8 2, RxMic = replicate 8 3, TxTsc = replicate 16 0, CipherAlg = 3\<rparr>"

definition ex_engine :: TKIP_KEY_INFO where
  "ex_engine = \<lparr>nBytesInM = 0, K0 = 0, K1 = 0, tk_L = 0, tk_R = 0, tk_M = 0, tk_MIC = []\<rparr>"

theorem TKIP_exact_witness:
  "\<exists>body r. tkip_encapsulate ex_tkip_key (replicate 24 0) 0 (replicate 8 0) [7, 8] = Some body \<and>
     RTMPSoftDecryptTKIP (replicate 24 0) 0 ex_tkip_key (replicate 8 0 @ body) 22 ex_engine = Some r \<and>
     accepted r \<and> take 2 (data_buffer r) = [7, 8]"
proof -
  have ok: "tkip_frame_ok ex_tkip_key (replicate 24 0)" by (simp add: tkip_frame_ok_def ex_tkip_key_def)
  obtain ctx where ctx: "ARC4_INIT (std_seed ex_tkip_key (replicate 24 0) (replicate 8 0)) 16 = Some ctx" using std_seed_init by blast
  define m where "m = [7, 8] @ std_mic ex_tkip_key (replicate 24 0) 0 [7, 8]"
  have "tkip_encapsulate ex_tkip_key (replicate 24 0) 0 (replicate 8 0) [7, 8] = Some (snd (ARC4_Compute ctx (m @ wep_icv m)))"
    unfolding tkip_encapsulate_def ctx option.map m_def Let_def ..
  moreover have "length (snd (ARC4_Compute ctx (m @ wep_icv m))) = 14"
    unfolding ARC4_Compute_length by (simp add: m_def wep_icv_def std_mic_def)
  ultimately show ?thesis
    using TKIP_exact [OF ok, of "replicate 8 0" "snd (ARC4_Compute ctx (m @ wep_icv m))" "[7, 8]" 0 ex_engine] by (auto simp: numeral_2_eq_2)
qed

end
