(* ===== verification/Crypt_AES_Soft.thy ===== *)
theory Crypt_AES_Soft
  imports Crypt_AES
begin

text \<open>
  The second AES of the WiFi driver (\<open>rt5370.driver/common/cmm_aes.c\<close>): the encryption of a block of 16
  bytes under a key of 16 bytes, on flat arrays and with the round keys computed on the way. It is
  shown to compute the same function as the cipher of \<open>crypt_aes.c\<close>.
\<close>

section \<open>The cipher\<close>

definition SboxTable :: bytes where
  "SboxTable =
    [0x63, 0x7c, 0x77, 0x7b, 0xf2, 0x6b, 0x6f, 0xc5, 0x30, 0x01, 0x67, 0x2b, 0xfe, 0xd7, 0xab, 0x76,
     0xca, 0x82, 0xc9, 0x7d, 0xfa, 0x59, 0x47, 0xf0, 0xad, 0xd4, 0xa2, 0xaf, 0x9c, 0xa4, 0x72, 0xc0,
     0xb7, 0xfd, 0x93, 0x26, 0x36, 0x3f, 0xf7, 0xcc, 0x34, 0xa5, 0xe5, 0xf1, 0x71, 0xd8, 0x31, 0x15,
     0x04, 0xc7, 0x23, 0xc3, 0x18, 0x96, 0x05, 0x9a, 0x07, 0x12, 0x80, 0xe2, 0xeb, 0x27, 0xb2, 0x75,
     0x09, 0x83, 0x2c, 0x1a, 0x1b, 0x6e, 0x5a, 0xa0, 0x52, 0x3b, 0xd6, 0xb3, 0x29, 0xe3, 0x2f, 0x84,
     0x53, 0xd1, 0x00, 0xed, 0x20, 0xfc, 0xb1, 0x5b, 0x6a, 0xcb, 0xbe, 0x39, 0x4a, 0x4c, 0x58, 0xcf,
     0xd0, 0xef, 0xaa, 0xfb, 0x43, 0x4d, 0x33, 0x85, 0x45, 0xf9, 0x02, 0x7f, 0x50, 0x3c, 0x9f, 0xa8,
     0x51, 0xa3, 0x40, 0x8f, 0x92, 0x9d, 0x38, 0xf5, 0xbc, 0xb6, 0xda, 0x21, 0x10, 0xff, 0xf3, 0xd2,
     0xcd, 0x0c, 0x13, 0xec, 0x5f, 0x97, 0x44, 0x17, 0xc4, 0xa7, 0x7e, 0x3d, 0x64, 0x5d, 0x19, 0x73,
     0x60, 0x81, 0x4f, 0xdc, 0x22, 0x2a, 0x90, 0x88, 0x46, 0xee, 0xb8, 0x14, 0xde, 0x5e, 0x0b, 0xdb,
     0xe0, 0x32, 0x3a, 0x0a, 0x49, 0x06, 0x24, 0x5c, 0xc2, 0xd3, 0xac, 0x62, 0x91, 0x95, 0xe4, 0x79,
     0xe7, 0xc8, 0x37, 0x6d, 0x8d, 0xd5, 0x4e, 0xa9, 0x6c, 0x56, 0xf4, 0xea, 0x65, 0x7a, 0xae, 0x08,
     0xba, 0x78, 0x25, 0x2e, 0x1c, 0xa6, 0xb4, 0xc6, 0xe8, 0xdd, 0x74, 0x1f, 0x4b, 0xbd, 0x8b, 0x8a,
     0x70, 0x3e, 0xb5, 0x66, 0x48, 0x03, 0xf6, 0x0e, 0x61, 0x35, 0x57, 0xb9, 0x86, 0xc1, 0x1d, 0x9e,
     0xe1, 0xf8, 0x98, 0x11, 0x69, 0xd9, 0x8e, 0x94, 0x9b, 0x1e, 0x87, 0xe9, 0xce, 0x55, 0x28, 0xdf,
     0x8c, 0xa1, 0x89, 0x0d, 0xbf, 0xe6, 0x42, 0x68, 0x41, 0x99, 0x2d, 0x0f, 0xb0, 0x54, 0xbb, 0x16]"

definition RTMPCkipSbox :: "u8 \<Rightarrow> u8" where
  "RTMPCkipSbox a = SboxTable ! unat a"

definition xor_32 :: "bytes \<Rightarrow> bytes \<Rightarrow> bytes" where
  "xor_32 a b = map (\<lambda>i. a ! i XOR b ! i) [0..<4]"

definition xor_128 :: "bytes \<Rightarrow> bytes \<Rightarrow> bytes" where
  "xor_128 a b = map (\<lambda>i. a ! i XOR b ! i) [0..<16]"

definition bitwise_xor :: "bytes \<Rightarrow> bytes \<Rightarrow> bytes" where
  "bitwise_xor ina inb = map (\<lambda>i. ina ! i XOR inb ! i) [0..<16]"

definition rcon_table :: bytes where
  "rcon_table = [0x01, 0x02, 0x04, 0x08, 0x10, 0x20, 0x40, 0x80, 0x1b, 0x36, 0x36, 0x36]"

definition next_key :: "bytes \<Rightarrow> nat \<Rightarrow> bytes" where
  "next_key key round =
     (let sbox_key = [RTMPCkipSbox (key ! 13), RTMPCkipSbox (key ! 14), RTMPCkipSbox (key ! 15), RTMPCkipSbox (key ! 12)];
          rcon = rcon_table ! round;
          k0 = xor_32 (take 4 key) sbox_key;
          k0 = k0[0 := k0 ! 0 XOR rcon];
          k1 = xor_32 (take 4 (drop 4 key)) k0;
          k2 = xor_32 (take 4 (drop 8 key)) k1;
          k3 = xor_32 (take 4 (drop 12 key)) k2
      in k0 @ k1 @ k2 @ k3)"

definition byte_sub :: "bytes \<Rightarrow> bytes" where
  "byte_sub b = map (\<lambda>i. RTMPCkipSbox (b ! i)) [0..<16]"

definition shift_row :: "bytes \<Rightarrow> bytes" where
  "shift_row b = [b ! 0, b ! 5, b ! 10, b ! 15, b ! 4, b ! 9, b ! 14, b ! 3,
     b ! 8, b ! 13, b ! 2, b ! 7, b ! 12, b ! 1, b ! 6, b ! 11]"

text \<open>
  The shift of the four bytes runs from the last to the first and would carry the top bit of the byte
  before, which was cleared.
\<close>

definition add1bf7_of :: "bytes \<Rightarrow> bytes" where
  "add1bf7_of b =
     (let add1b = map (\<lambda>i. if b ! i AND 0x80 = 0x80 then 0x1b else 0x00) [0..<4];
          andf7 = map (\<lambda>i. b ! i AND 0x7f) [0..<4];
          shifted = map (\<lambda>i. if i = 0 then push_bit 1 (andf7 ! 0) AND 0xfe
                             else if andf7 ! (i - 1) AND 0x80 = 0x80 then push_bit 1 (andf7 ! i) OR 0x01
                             else push_bit 1 (andf7 ! i)) [0..<4]
      in xor_32 add1b shifted)"

definition cmm_mix_column :: "bytes \<Rightarrow> bytes" where
  "cmm_mix_column b =
     (let swap_halfs = [b ! 2, b ! 3, b ! 0, b ! 1];
          rotl = [b ! 3, b ! 0, b ! 1, b ! 2];
          add1bf7 = add1bf7_of b;
          rotr = xor_32 b add1bf7;
          rotr = [rotr ! 1, rotr ! 2, rotr ! 3, rotr ! 0];
          temp = xor_32 add1bf7 rotr;
          tempb = xor_32 swap_halfs rotl
      in xor_32 temp tempb)"

definition mix_columns :: "bytes \<Rightarrow> bytes" where
  "mix_columns b = cmm_mix_column (take 4 b) @ cmm_mix_column (take 4 (drop 4 b)) @
     cmm_mix_column (take 4 (drop 8 b)) @ cmm_mix_column (take 4 (drop 12 b))"

text \<open>A round on the pair of the state and the round key.\<close>

definition aes_round :: "bytes \<Rightarrow> bytes \<times> bytes \<Rightarrow> nat \<Rightarrow> bytes \<times> bytes" where
  "aes_round data p round =
     (let (ciphertext, round_key) = p in
      if round = 0 then (xor_128 round_key data, next_key round_key round)
      else if round = 10 then (xor_128 (shift_row (byte_sub ciphertext)) round_key, round_key)
      else (xor_128 (mix_columns (shift_row (byte_sub ciphertext))) round_key, next_key round_key round))"

definition aes128k128d :: "bytes \<Rightarrow> bytes \<Rightarrow> bytes" where
  "aes128k128d key data = fst (foldl (aes_round data) (replicate 16 0, map (\<lambda>i. key ! i) [0..<16]) [0..<11])"

section \<open>The transformations are the same\<close>

lemma SboxTable_eq: "SboxTable = aes_sbox_enc"
  unfolding SboxTable_def aes_sbox_enc_def ..

lemma less_16: "i < 16 \<Longrightarrow> \<exists>r c. r < 4 \<and> c < 4 \<and> i = r + 4 * c" for i :: nat
  by (rule exI [of _ "i mod 4"], rule exI [of _ "i div 4"]) auto

lemma load_block_eqI: "length a = 16 \<Longrightarrow> length b = 16 \<Longrightarrow> load_block a = load_block b \<Longrightarrow> a = b"
  by (metis store_load)

lemma load_byte_sub: "load_block (byte_sub b) = SubBytes (load_block b)"
  by (rule wf_state_eqI) (simp_all add: load_block_def SubBytes_def byte_sub_def RTMPCkipSbox_def SboxTable_eq)

lemma load_shift_row: "load_block (shift_row b) = ShiftRows (load_block b)"
  by (simp add: load_block_def rows_cols_def shift_row_def ShiftRows_def upt_rec numeral_eq_Suc)

lemma top_bit_test: "(x AND 0x80 = 0x80) = bit x 7" for x :: u8
proof
  have top: "bit (0x80 :: u8) n \<longleftrightarrow> n = 7" if "n < 8" for n
    using that bit_push_bit_iff [of 7 "1 :: u8" n] by (auto simp: push_bit_eq_mult bit_1_iff)
  show "bit x 7" if "x AND 0x80 = 0x80"
    using arg_cong [OF that, of "\<lambda>w. bit w 7"] by (simp only: bit_and_iff) (simp add: top)
  show "x AND 0x80 = 0x80" if "bit x 7"
  proof (rule bit_word_eqI)
    fix n :: nat
    assume "n < LENGTH(8)"
    then show "bit (x AND 0x80) n = bit (0x80 :: u8) n"
      using top [of n] that by (cases "n = 7") (simp_all only: bit_and_iff len_num1 len_bit0, simp_all)
  qed
qed

lemma xtime_shift:
  fixes x :: u8
  shows "push_bit 1 (x AND 0x7f) = push_bit 1 x"
    and "push_bit 1 (x AND 0x7f) AND 0xfe = push_bit 1 x"
    and "\<not> bit (x AND 0x7f) 7"
proof -
  have m: "(0x7f :: u8) = mask 7" "(0xfe :: u8) = NOT 1" by (simp_all add: mask_eq_exp_minus_1)
  have "bit (push_bit 1 (x AND mask 7)) n = bit (push_bit 1 x) n"
    and "bit (push_bit 1 (x AND mask 7) AND NOT 1) n = bit (push_bit 1 x) n" if "n < LENGTH(8)" for n
    using that by (auto simp only: bit_push_bit_iff bit_and_iff bit_mask_iff bit_not_iff bit_1_iff possible_bit_word) auto
  then show "push_bit 1 (x AND 0x7f) = push_bit 1 x" and "push_bit 1 (x AND 0x7f) AND 0xfe = push_bit 1 x"
    unfolding m by (blast intro: bit_word_eqI)+
  show "\<not> bit (x AND 0x7f) 7" unfolding m by (simp add: bit_and_iff bit_mask_iff)
qed

lemma xtime_add1b: "(if bit x 7 then 0x1b else 0) XOR push_bit 1 x = xtime x"
  by (simp add: xtime_def xor.commute)

lemma upt_4: "[0..<4] = [0, 1, 2, 3 :: nat]"
  by (simp add: upt_rec)

lemma add1bf7_xtime: "add1bf7_of b = map (\<lambda>i. xtime (b ! i)) [0..<4]"
proof -
  have "\<not> ((b ! i AND 0x7f) AND 0x80 = 0x80)" for i by (simp only: top_bit_test xtime_shift not_False_eq_True)
  then have "map (\<lambda>i. if i = 0 then push_bit 1 (map (\<lambda>i. b ! i AND 0x7f) [0..<4] ! 0) AND 0xfe
      else if map (\<lambda>i. b ! i AND 0x7f) [0..<4] ! (i - 1) AND 0x80 = 0x80
      then push_bit 1 (map (\<lambda>i. b ! i AND 0x7f) [0..<4] ! i) OR 0x01
      else push_bit 1 (map (\<lambda>i. b ! i AND 0x7f) [0..<4] ! i)) [0..<4] = map (\<lambda>i. push_bit 1 (b ! i)) [0..<4]"
    by (intro map_cong refl) (auto simp: xtime_shift xtime_shift(2) [unfolded xtime_shift(1)] simp del: push_bit_and push_bit_Suc One_nat_def)
  then show ?thesis
    unfolding add1bf7_of_def Let_def by (simp only:) (simp add: xor_32_def top_bit_test xtime_def xor_ac)
qed

lemma cmm_mix_column_eq: "cmm_mix_column b = Crypt_AES.mix_column (b ! 0) (b ! 1) (b ! 2) (b ! 3)"
  by (simp add: cmm_mix_column_def Crypt_AES.mix_column_def aes_mul_gf xor_32_def Let_def upt_4 add1bf7_xtime xor_ac
      del: One_nat_def)

lemma load_mix_columns: "length b = 16 \<Longrightarrow> load_block (mix_columns b) = MixColumns (load_block b)"
proof (rule wf_state_eqI)
  fix r c :: nat
  assume b: "length b = 16" and r: "r < 4" and c: "c < 4"
  have "mix_columns b ! (r + 4 * c) =
    Crypt_AES.mix_column (b ! (4 * c)) (b ! (1 + 4 * c)) (b ! (2 + 4 * c)) (b ! (3 + 4 * c)) ! r"
    using r c b unfolding less_4
    by (elim disjE) (simp_all add: mix_columns_def cmm_mix_column_eq Crypt_AES.mix_column_def)
  with r c show "load_block (mix_columns b) ! r ! c = MixColumns (load_block b) ! r ! c"
    by (simp add: load_block_def MixColumns_def)
qed (simp_all add: load_block_def)

lemma lengths_soft [simp]:
  "length (byte_sub b) = 16" "length (shift_row b) = 16" "length (mix_columns b) = 16" "length (xor_128 a b) = 16"
  by (simp_all add: byte_sub_def shift_row_def mix_columns_def xor_128_def cmm_mix_column_eq Crypt_AES.mix_column_def)

section \<open>The key schedule is the same\<close>

lemma key_steps_stable:
  assumes "length K = 4" and "\<forall>r<4. length (K ! r) = 60"
  shows "length (foldl (key_word_step 4) K [4..<m]) = 4 \<and>
    (\<forall>r<4. length (foldl (key_word_step 4) K [4..<m] ! r) = 60)"
proof (induction m)
  case (Suc m)
  then show ?case using assms by (cases "4 \<le> m") (simp_all add: key_word_step_def Let_def)
qed (use assms in simp)

lemma key_step_other: "r < 4 \<Longrightarrow> j \<noteq> m \<Longrightarrow> key_word_step n K m ! r ! j = K ! r ! j"
  by (simp add: key_word_step_def Let_def)

lemma key_steps_prefix:
  assumes "r < 4" and "j < m" and "m \<le> k"
  shows "foldl (key_word_step 4) K [4..<k] ! r ! j = foldl (key_word_step 4) K [4..<m] ! r ! j"
  using assms(3)
proof (induction k rule: dec_induct)
  case (step k)
  then show ?case using assms by (cases "4 \<le> k") (simp_all add: key_step_other)
qed simp

abbreviation "expanded_16 key \<equiv> RT_AES_KeyExpansion key 16"

lemma expanded_start:
  assumes "r < 4" and "j < 4"
  shows "expanded_16 key ! r ! j = key ! (4 * j + r)"
  using assms key_steps_prefix [of r j 4 44] by (simp add: RT_AES_KeyExpansion_def Let_def)

lemma expanded_rec:
  assumes r: "r < 4" and m: "4 \<le> m" "m < 44"
  shows "expanded_16 key ! r ! m =
    expanded_16 key ! r ! (m - 4) XOR TempWord_step m 4 (map (\<lambda>r. expanded_16 key ! r ! (m - 1)) [0..<4]) ! r"
proof -
  define K0 :: "bytes list" where "K0 = map (\<lambda>r. map (\<lambda>i. if i < 4 then key ! (4 * i + r) else 0) [0..<60]) [0..<4]"
  define KE where "KE = (\<lambda>m. foldl (key_word_step 4) K0 [4..<m])"
  have K: "expanded_16 key = KE 44" by (simp add: RT_AES_KeyExpansion_def Let_def KE_def K0_def)
  have pre: "KE 44 ! r ! j = KE k ! r ! j" if "r < 4" "j < k" "k \<le> 44" for r j k
    unfolding KE_def using that by (rule key_steps_prefix)
  have len: "length (KE m ! r) = 60"
    unfolding KE_def using key_steps_stable [of K0 m] r by (simp add: K0_def)
  have "KE 44 ! r ! m = KE (Suc m) ! r ! m" using r m by (intro pre) simp_all
  also have "\<dots> = key_word_step 4 (KE m) m ! r ! m" using m by (simp add: KE_def)
  also have "\<dots> = KE m ! r ! (m - 4) XOR TempWord_step m 4 (map (\<lambda>r. KE m ! r ! (m - 1)) [0..<4]) ! r"
    using r m len by (simp add: key_word_step_def Let_def)
  also have "map (\<lambda>r. KE m ! r ! (m - 1)) [0..<4] = map (\<lambda>r. KE 44 ! r ! (m - 1)) [0..<4]"
    using m by (intro map_cong refl) (simp add: pre [of _ _ m])
  also have "KE m ! r ! (m - 4) = KE 44 ! r ! (m - 4)" using r m by (simp add: pre [of _ _ m])
  finally show ?thesis unfolding K .
qed

text \<open>The key of a round, as the flat array that the second cipher keeps.\<close>

definition round_key_of :: "bytes list \<Rightarrow> nat \<Rightarrow> bytes" where
  "round_key_of K n = map (\<lambda>i. K ! (i mod 4) ! (4 * n + i div 4)) [0..<16]"

lemma round_key_0: "length key = 16 \<Longrightarrow> round_key_of (expanded_16 key) 0 = key"
  by (rule nth_equalityI) (simp_all add: round_key_of_def expanded_start)

lemma rcon_bytes:
  assumes "n < 10"
  shows "ucast (drop_bit 24 (aes_rcon ! Suc n) AND 0xff) = rcon_table ! n"
    and "ucast (drop_bit 16 (aes_rcon ! Suc n) AND 0xff) = (0 :: u8)"
    and "ucast (drop_bit 8 (aes_rcon ! Suc n) AND 0xff) = (0 :: u8)"
    and "ucast (aes_rcon ! Suc n AND 0xff) = (0 :: u8)"
proof -
  have "n \<in> set [0..<10]" using assms by simp
  then have "n \<in> {0,1,2,3,4,5,6,7,8,9}" by (simp add: upt_rec numeral_eq_Suc)
  then show "ucast (drop_bit 24 (aes_rcon ! Suc n) AND 0xff) = rcon_table ! n"
    and "ucast (drop_bit 16 (aes_rcon ! Suc n) AND 0xff) = (0 :: u8)"
    and "ucast (drop_bit 8 (aes_rcon ! Suc n) AND 0xff) = (0 :: u8)"
    and "ucast (aes_rcon ! Suc n AND 0xff) = (0 :: u8)"
    by (auto simp: aes_rcon_def rcon_table_def)
qed

lemma nth_round_key: "r < 4 \<Longrightarrow> c < 4 \<Longrightarrow> round_key_of K n ! (4 * c + r) = K ! r ! (4 * n + c)"
  by (simp add: round_key_of_def)

lemma xor_32_nth: "xor_32 a b = [a ! 0 XOR b ! 0, a ! 1 XOR b ! 1, a ! 2 XOR b ! 2, a ! 3 XOR b ! 3]"
  by (simp add: xor_32_def upt_4)

lemma expanded_first:
  assumes "n < 10"
  shows "expanded_16 key ! 0 ! (4 * n + 4) = expanded_16 key ! 0 ! (4 * n) XOR
      (RTMPCkipSbox (expanded_16 key ! 1 ! (4 * n + 3)) XOR rcon_table ! n)"
    and "expanded_16 key ! 1 ! (4 * n + 4) = expanded_16 key ! 1 ! (4 * n) XOR RTMPCkipSbox (expanded_16 key ! 2 ! (4 * n + 3))"
    and "expanded_16 key ! 2 ! (4 * n + 4) = expanded_16 key ! 2 ! (4 * n) XOR RTMPCkipSbox (expanded_16 key ! 3 ! (4 * n + 3))"
    and "expanded_16 key ! 3 ! (4 * n + 4) = expanded_16 key ! 3 ! (4 * n) XOR RTMPCkipSbox (expanded_16 key ! 0 ! (4 * n + 3))"
  using assms expanded_rec [of 0 "4 * n + 4" key] expanded_rec [of 1 "4 * n + 4" key]
    expanded_rec [of 2 "4 * n + 4" key] expanded_rec [of 3 "4 * n + 4" key]
  by (simp_all add: TempWord_step_def RTMPCkipSbox_def SboxTable_eq rcon_bytes upt_4 Let_def add.commute [of 3])

lemma expanded_next:
  assumes "r < 4" and "n < 10"
  shows "expanded_16 key ! r ! (4 * n + 5) = expanded_16 key ! r ! (4 * n + 1) XOR expanded_16 key ! r ! (4 * n + 4)"
    and "expanded_16 key ! r ! (4 * n + 6) = expanded_16 key ! r ! (4 * n + 2) XOR expanded_16 key ! r ! (4 * n + 5)"
    and "expanded_16 key ! r ! (4 * n + 7) = expanded_16 key ! r ! (4 * n + 3) XOR expanded_16 key ! r ! (4 * n + 6)"
proof -
  have "expanded_16 key ! r ! m = expanded_16 key ! r ! (m - 4) XOR expanded_16 key ! r ! (m - 1)"
    if "4 \<le> m" "m < 44" "m mod 4 \<noteq> 0" for m
    using that expanded_rec [of r m key] assms(1) by (simp add: TempWord_step_def)
  from this [of "4 * n + 5"] this [of "4 * n + 6"] this [of "4 * n + 7"] assms(2)
  show "expanded_16 key ! r ! (4 * n + 5) = expanded_16 key ! r ! (4 * n + 1) XOR expanded_16 key ! r ! (4 * n + 4)"
    and "expanded_16 key ! r ! (4 * n + 6) = expanded_16 key ! r ! (4 * n + 2) XOR expanded_16 key ! r ! (4 * n + 5)"
    and "expanded_16 key ! r ! (4 * n + 7) = expanded_16 key ! r ! (4 * n + 3) XOR expanded_16 key ! r ! (4 * n + 6)"
    by (simp_all add: mod_mult_self4 add.commute)
qed

lemma round_key_cols:
  "round_key_of K m = concat (map (\<lambda>c. map (\<lambda>r. K ! r ! c) [0, 1, 2, 3]) [4 * m, 4 * m + 1, 4 * m + 2, 4 * m + 3])"
proof -
  have "[0..<16] = [0, 1, 2, 3, 4, 5, 6, 7, 8, 9, 10, 11, 12, 13, 14, 15 :: nat]" by (simp add: upt_rec)
  then show ?thesis unfolding round_key_of_def by (simp del: One_nat_def)
qed

lemma next_round_key:
  assumes "n < 10"
  shows "next_key (round_key_of (expanded_16 key) n) n = round_key_of (expanded_16 key) (Suc n)"
proof -
  define K where "K = expanded_16 key"
  define k where "k = 4 * n"
  have cols: "round_key_of K n = concat (map (\<lambda>c. map (\<lambda>r. K ! r ! c) [0, 1, 2, 3]) [k, k + 1, k + 2, k + 3])"
    "round_key_of K (Suc n) = concat (map (\<lambda>c. map (\<lambda>r. K ! r ! c) [0, 1, 2, 3]) [k + 4, k + 5, k + 6, k + 7])"
    by (simp_all add: round_key_cols k_def add.commute)
  note eqs = expanded_first [OF assms, of key, folded K_def k_def] expanded_next [OF _ assms, of _ key, folded K_def k_def]
  show ?thesis
    unfolding K_def [symmetric] cols next_key_def Let_def xor_32_nth
    by (simp add: eqs xor_ac del: One_nat_def)
qed

section \<open>The two ciphers agree\<close>

lemma load_xor_128:
  "load_block (xor_128 b (round_key_of K n)) = AddRoundKey K n (load_block b)"
  by (rule wf_state_eqI)
    (simp_all add: load_block_def AddRoundKey_def xor_128_def round_key_of_def mult.commute [of n])

lemma xor_128_commute: "xor_128 a b = xor_128 b a"
  by (simp add: xor_128_def xor.commute)

lemma soft_rounds:
  assumes "length key = 16" and "n < 10"
  shows "\<exists>c. foldl (aes_round data) (replicate 16 0, key) [0..<Suc n] = (c, round_key_of (expanded_16 key) (Suc n)) \<and>
    load_block c = foldl (encrypt_round (expanded_16 key)) (AddRoundKey (expanded_16 key) 0 (load_block data)) [1..<Suc n]"
  using assms(2)
proof (induction n)
  case 0
  have "xor_128 key data = xor_128 data (round_key_of (expanded_16 key) 0)"
    using assms(1) by (simp add: round_key_0 xor_128_commute)
  moreover have "next_key key 0 = round_key_of (expanded_16 key) 1"
    using next_round_key [of 0 key] assms(1) by (simp add: round_key_0)
  ultimately show ?case by (simp add: aes_round_def load_xor_128)
next
  case (Suc n)
  then obtain c where c: "foldl (aes_round data) (replicate 16 0, key) [0..<Suc n] = (c, round_key_of (expanded_16 key) (Suc n))"
    "load_block c = foldl (encrypt_round (expanded_16 key)) (AddRoundKey (expanded_16 key) 0 (load_block data)) [1..<Suc n]"
    by auto
  from Suc.prems have "aes_round data (c, round_key_of (expanded_16 key) (Suc n)) (Suc n) =
    (xor_128 (mix_columns (shift_row (byte_sub c))) (round_key_of (expanded_16 key) (Suc n)), round_key_of (expanded_16 key) (Suc (Suc n)))"
    by (simp add: aes_round_def next_round_key)
  moreover have "load_block (xor_128 (mix_columns (shift_row (byte_sub c))) (round_key_of (expanded_16 key) (Suc n))) =
    encrypt_round (expanded_16 key) (load_block c) (Suc n)"
    by (simp add: load_xor_128 load_mix_columns load_shift_row load_byte_sub encrypt_round_def)
  moreover have "[0..<Suc (Suc n)] = [0..<Suc n] @ [Suc n]" "[1..<Suc (Suc n)] = [1..<Suc n] @ [Suc n]" by simp_all
  ultimately show ?case using c by (simp del: upt_Suc)
qed

lemma aes128k128d_eq:
  assumes "length key = 16"
  shows "aes128k128d key data = aes_E key data"
proof -
  let ?K = "expanded_16 key"
  obtain c where c: "foldl (aes_round data) (replicate 16 0, key) [0..<10] = (c, round_key_of ?K 10)"
    "load_block c = foldl (encrypt_round ?K) (AddRoundKey ?K 0 (load_block data)) [1..<10]"
    using soft_rounds [OF assms, of 9 data] by auto
  have "aes128k128d key data = xor_128 (shift_row (byte_sub c)) (round_key_of ?K 10)"
  proof -
    have "map ((!) key) [0..<16] = key" using assms map_nth [of key] by simp
    moreover have "[0..<11] = [0..<10] @ [10 :: nat]" by (simp add: upt_rec)
    ultimately show ?thesis using c(1) by (simp add: aes128k128d_def aes_round_def)
  qed
  then have "load_block (aes128k128d key data) = aes_encrypt_state ?K 10 (load_block data)"
    by (simp only: load_xor_128 load_shift_row load_byte_sub c(2)) (simp add: aes_encrypt_state_def)
  moreover have "length (aes128k128d key data) = 16" by (simp add: \<open>aes128k128d key data = _\<close>)
  ultimately show ?thesis
    using assms store_load [of "aes128k128d key data"] by (simp add: aes_E_def)
qed

text \<open>
  The two AES implementations of the driver are the same function: for a key and a block of 16
  bytes, the routine that computes its round keys on the way and mixes columns by shifts writes
  the block that the table driven cipher, with its expanded key, writes.
\<close>

theorem aes128k128d_is_AES:
  assumes "length key = 16" and "length data = 16"
  shows "RT_AES_Encrypt data 16 key 16 16 = Some (aes128k128d key data, 16)"
  using assms RT_AES_as_cipher(1) [of key 16 16 data] by (simp add: valid_key_length_def aes128k128d_eq)

lemma aes128k128d_is_AES_witness:
  "RT_AES_Encrypt (map of_nat [0..<16]) 16 (map of_nat [3..<19]) 16 16 =
    Some (aes128k128d (map of_nat [3..<19]) (map of_nat [0..<16]), 16)"
  by (rule aes128k128d_is_AES) simp_all

end
