(* ===== verification/Crypt_CCMP.thy ===== *)
theory Crypt_CCMP
  imports Crypt_AES_CCM Crypt_TKIP_Frame Crypt_AES_Soft
begin

text \<open>
  The protection of frames with CCMP (\<open>rt5370.driver/common/cmm_aes.c\<close>) over the mode CCM of \<open>Crypt_AES_CCM\<close>,
  and the three functions of \<open>cmm_wpa.c\<close> by which the driver encrypts and decrypts frames in
  software with WEP, TKIP or CCMP. A read or a write outside a buffer is \<open>None\<close>.
\<close>

section \<open>The header and the nonce\<close>

definition LEN_PN :: nat where "LEN_PN = 6"
definition LEN_CCMP_HDR :: nat where "LEN_CCMP_HDR = 8"
definition LEN_CCMP_MIC :: nat where "LEN_CCMP_MIC = 8"
definition BTYPE_DATA :: u8 where "BTYPE_DATA = 2"

definition frame_type :: "bytes \<Rightarrow> u8" where "frame_type pHdr = drop_bit 2 (pHdr ! 0) AND 0x03"
definition frame_subtype :: "bytes \<Rightarrow> u8" where "frame_subtype pHdr = drop_bit 4 (pHdr ! 0) AND 0x0f"

text \<open>The fourth address is there with both distribution system bits; the QoS field in the data subtypes 8 to 11.\<close>

definition a4_exists :: "bytes \<Rightarrow> bool" where
  "a4_exists pHdr \<longleftrightarrow> from_ds pHdr AND to_ds pHdr \<noteq> 0"

definition qos_subtype :: "bytes \<Rightarrow> bool" where
  "qos_subtype pHdr \<longleftrightarrow> frame_subtype pHdr \<in> set [0x08, 0x09, 0x0a, 0x0b]"

definition qc_exists :: "bytes \<Rightarrow> bool" where
  "qc_exists pHdr \<longleftrightarrow> frame_type pHdr = BTYPE_DATA \<and> qos_subtype pHdr"

definition RTMPConstructCCMPAAD :: "bytes \<Rightarrow> bool \<Rightarrow> bool \<Rightarrow> bool \<Rightarrow> bytes" where
  "RTMPConstructCCMPAAD pHdr isDataFrame a4 qc =
     [if isDataFrame then pHdr ! 0 AND 0x8f else pHdr ! 0, (pHdr ! 1 AND 0xc7) OR 0x40] @
     take (3 * MAC_ADDR_LEN) (drop 4 pHdr) @
     [pHdr ! 22 AND 0x0f, 0x00] @
     (if a4 then take MAC_ADDR_LEN (drop 24 pHdr) else []) @
     (if qc \<and> a4 then [pHdr ! 30 AND 0x0f, 0x00]
      else if qc \<and> \<not> a4 then [pHdr ! 24 AND 0x0f, 0x00]
      else [])"

text \<open>Without a QoS field, the first byte keeps what the buffer holds.\<close>

definition RTMPConstructCCMPNonce :: "bytes \<Rightarrow> bool \<Rightarrow> bool \<Rightarrow> bytes \<Rightarrow> bytes \<Rightarrow> bytes" where
  "RTMPConstructCCMPNonce pHdr a4 qc pn nonce_hdr =
     [if qc \<and> a4 then pHdr ! 30 AND 0x0f else if qc \<and> \<not> a4 then pHdr ! 24 AND 0x0f else nonce_hdr ! 0] @
     take MAC_ADDR_LEN (drop 10 pHdr) @ map (\<lambda>i. pn ! (5 - i)) [0..<6]"

definition RTMPConstructCCMPHdr :: "u8 \<Rightarrow> bytes \<Rightarrow> bytes" where
  "RTMPConstructCCMPHdr key_idx pn =
     (replicate LEN_CCMP_HDR 0)[0 := pn ! 0, 1 := pn ! 1, 3 := push_bit 6 key_idx OR 0x20,
        4 := pn ! 2, 5 := pn ! 3, 6 := pn ! 4, 7 := pn ! 5]"

text \<open>The packet number in a CCMP header.\<close>

definition ccmp_pn :: "bytes \<Rightarrow> bytes" where
  "ccmp_pn pData = [pData ! 0, pData ! 1, pData ! 4, pData ! 5, pData ! 6, pData ! 7]"

text \<open>The bytes of the header that the associated data and the nonce are read from.\<close>

definition mac_header_len :: "bool \<Rightarrow> bool \<Rightarrow> nat" where
  "mac_header_len a4 qc = 24 + (if a4 then 6 else 0) + (if qc then 2 else 0)"

section \<open>Encryption and decryption of frames\<close>

definition RTMPSoftEncryptCCMP :: "bytes \<Rightarrow> bytes \<Rightarrow> bytes \<Rightarrow> bytes \<Rightarrow> u32 \<Rightarrow> (bool \<times> bytes) option" where
  "RTMPSoftEncryptCCMP pHdr pIV pKey pData DataLen =
     (let a4 = a4_exists pHdr; qc = qc_exists pHdr; out_len = DataLen + 8
      in if length pHdr < mac_header_len a4 qc \<or> length pIV < LEN_PN \<or> length pKey < 16 \<or>
            length pData < unat DataLen + LEN_CCMP_MIC then None
         else
          (let aad_hdr = RTMPConstructCCMPAAD pHdr (frame_type pHdr = BTYPE_DATA) a4 qc;
               nonce_hdr = RTMPConstructCCMPNonce pHdr a4 qc pIV (replicate 13 0);
               r = AES_CCM_Encrypt (take (unat DataLen) pData) DataLen (take 16 pKey) 16
                     nonce_hdr (of_nat (length nonce_hdr)) aad_hdr (of_nat (length aad_hdr)) (of_nat LEN_CCMP_MIC) out_len
           in case snd r of
                None \<Rightarrow> Some (False, pData)
              | Some (c, _) \<Rightarrow> Some (fst r = 0, c @ drop (length c) pData)))"

text \<open>
  The plain text overwrites the buffer eight bytes before the cipher text it comes from. Every byte is
  read before the one at its place is written, and the code behind the cipher text is read first
  (\<open>in_place_xor\<close> below). With a wrong code the deciphered data stay in the buffer.
\<close>

definition RTMPSoftDecryptCCMP :: "bytes \<Rightarrow> CIPHER_KEY \<Rightarrow> bytes \<Rightarrow> u16 \<Rightarrow> (bool \<times> bytes \<times> u16) option" where
  "RTMPSoftDecryptCCMP pHdr pKey pData DataLen =
     (if KeyLen pKey = 0 then Some (False, pData, DataLen)
      else if length pHdr < 2 \<or> length pData < LEN_CCMP_HDR then None
      else
       (let a4 = a4_exists pHdr; qc = qc_exists pHdr; pn = ccmp_pn pData;
            cipherData_ptr = drop LEN_CCMP_HDR pData;
            cipherData_len = ucast DataLen - of_nat LEN_CCMP_HDR :: u32
        in if DataLen \<le> of_nat LEN_CCMP_HDR then Some (False, pData, DataLen)
           else if length pHdr < mac_header_len a4 qc \<or> length (Key pKey) < 16 \<or> length pData < unat DataLen then None
           else
            (let aad_hdr = RTMPConstructCCMPAAD pHdr (frame_type pHdr = BTYPE_DATA) a4 qc;
                 nonce_hdr = RTMPConstructCCMPNonce pHdr a4 qc pn (replicate 13 0);
                 r = AES_CCM_Decrypt (take (unat cipherData_len) cipherData_ptr) cipherData_len (take 16 (Key pKey)) 16
                       nonce_hdr (of_nat (length nonce_hdr)) aad_hdr (of_nat (length aad_hdr)) (of_nat LEN_CCMP_MIC)
                       (ucast DataLen)
             in case snd r of
                  None \<Rightarrow> Some (False, pData, DataLen)
                | Some (p, out_len) \<Rightarrow>
                    (let d1 = p @ drop (length p) pData
                     in if fst r \<noteq> 0 then Some (False, d1, DataLen) else Some (True, d1, ucast out_len)))))"

section \<open>The actions on frames\<close>

definition CIPHER_WEP64 :: u8 where "CIPHER_WEP64 = 1"
definition CIPHER_WEP128 :: u8 where "CIPHER_WEP128 = 2"
definition CIPHER_TKIP :: u8 where "CIPHER_TKIP = 3"
definition CIPHER_AES :: u8 where "CIPHER_AES = 4"

text \<open>The result record of TKIP serves for the three ciphers; the other two leave its last field as it was.\<close>

definition plain_result :: "TKIP_KEY_INFO \<Rightarrow> bool \<times> bytes \<times> u16 \<Rightarrow> tkip_result" where
  "plain_result engine r = (case r of (ok, d, n) \<Rightarrow>
     \<lparr>accepted = ok, mic_error_reported = False, data_buffer = d, data_count = n, mic_engine = engine\<rparr>)"

definition RTMPSoftDecryptionAction ::
  "bool \<times> bool \<Rightarrow> bytes \<Rightarrow> u8 \<Rightarrow> CIPHER_KEY \<Rightarrow> bytes \<Rightarrow> u16 \<Rightarrow> TKIP_KEY_INFO \<Rightarrow> tkip_result option" where
  "RTMPSoftDecryptionAction mem pHdr UserPriority pKey pData DataByteCnt engine =
     (if CipherAlg pKey = CIPHER_WEP64 \<or> CipherAlg pKey = CIPHER_WEP128
      then map_option (plain_result engine) (RTMPSoftDecryptWEP mem pKey pData DataByteCnt)
      else if CipherAlg pKey = CIPHER_TKIP
      then RTMPSoftDecryptTKIP pHdr UserPriority pKey pData DataByteCnt engine
      else if CipherAlg pKey = CIPHER_AES
      then map_option (plain_result engine) (RTMPSoftDecryptCCMP pHdr pKey pData DataByteCnt)
      else Some (plain_result engine (False, pData, DataByteCnt)))"

text \<open>The bytes put in front of the data; their number is \<open>hdr_iv_len\<close>.\<close>

definition RTMPSoftConstructIVHdr :: "u8 \<Rightarrow> u8 \<Rightarrow> bytes \<Rightarrow> bytes option" where
  "RTMPSoftConstructIVHdr Alg key_id pTxIv =
     (if Alg = CIPHER_WEP64 \<or> Alg = CIPHER_WEP128 then RTMPConstructWEPIVHdr key_id pTxIv
      else if Alg = CIPHER_TKIP then Some []
      else if Alg = CIPHER_AES then (if length pTxIv < LEN_PN then None else Some (RTMPConstructCCMPHdr key_id pTxIv))
      else Some [])"

text \<open>
  The data buffer afterwards and \<open>ext_len\<close>, which the caller adds to the length. The results of
  the two encryptions are not looked at; for TKIP nothing is done.
\<close>

definition RTMPSoftEncryptionAction ::
  "bool \<times> bool \<Rightarrow> u8 \<Rightarrow> bytes \<Rightarrow> bytes \<Rightarrow> u32 \<Rightarrow> CIPHER_KEY \<Rightarrow> (bytes \<times> nat) option" where
  "RTMPSoftEncryptionAction mem Alg pHdr pSrcBufData SrcBufLen pKey =
     (if Alg = CIPHER_WEP64 \<or> Alg = CIPHER_WEP128
      then map_option (\<lambda>(_, d). (d, LEN_ICV)) (RTMPSoftEncryptWEP mem (TxTsc pKey) pKey pSrcBufData (unat SrcBufLen))
      else if Alg = CIPHER_TKIP then Some (pSrcBufData, 0)
      else if Alg = CIPHER_AES
      then map_option (\<lambda>(_, d). (d, LEN_CCMP_MIC)) (RTMPSoftEncryptCCMP pHdr (TxTsc pKey) (Key pKey) pSrcBufData SrcBufLen)
      else Some (pSrcBufData, 0))"

text \<open>
  The counter of the frames of a key. The count is added to the first byte, and from then on one to the next
  byte, as long as a byte does not grow.
\<close>

definition LEN_WPA_TSC :: nat where "LEN_WPA_TSC = 6"

function inc_iv_loop :: "bytes \<Rightarrow> nat \<Rightarrow> u32 \<Rightarrow> nat \<Rightarrow> bool \<Rightarrow> bytes" where
  "inc_iv_loop iv len cnt pos carry =
     (if pos < len then
       (let pre_iv = iv ! pos;
            iv = iv[pos := if carry then pre_iv + 1 else pre_iv + ucast cnt]
        in if iv ! pos > pre_iv then iv else inc_iv_loop iv len cnt (pos + 1) True)
      else iv)"
  by pat_completeness auto
termination
  by (relation "measure (\<lambda>(_, len, _, pos, _). len - pos)") (auto simp: Let_def)

declare inc_iv_loop.simps [simp del]

definition inc_iv_byte :: "bytes \<Rightarrow> nat \<Rightarrow> u32 \<Rightarrow> bytes" where
  "inc_iv_byte iv len cnt = inc_iv_loop iv len cnt 0 False"

text \<open>
  Before a frame to a client with software encryption is built: whether it is to be encrypted in software, and the key
  with its counter. The first argument tells whether there is an entry for the client that has the flag.
\<close>

definition RTMPUpdateSwCacheCipherInfo :: "bool \<Rightarrow> bytes \<Rightarrow> CIPHER_KEY \<Rightarrow> bool \<times> CIPHER_KEY" where
  "RTMPUpdateSwCacheCipherInfo soft pHdr pKey =
     (if soft \<and> bit (pHdr ! 1) 6 then
        (True,
         if CipherAlg pKey = CIPHER_WEP64 \<or> CipherAlg pKey = CIPHER_WEP128
         then pKey\<lparr>TxTsc := inc_iv_byte (TxTsc pKey) LEN_WEP_TSC 1\<rparr>
         else if CipherAlg pKey = CIPHER_TKIP \<or> CipherAlg pKey = CIPHER_AES
         then pKey\<lparr>TxTsc := inc_iv_byte (TxTsc pKey) LEN_WPA_TSC 1\<rparr>
         else pKey)
      else (False, pKey))"

section \<open>Deciphering in place\<close>

text \<open>
  The loop of \<open>AES_CCM_Decrypt\<close> when the plain text goes to the same buffer, before or at the place of
  the cipher text: byte after byte, it writes what it would write to a buffer of its own.
\<close>

lemma in_place_xor:
  assumes "off + n \<le> length buf" and "n \<le> length s"
  shows "foldl (\<lambda>b j. b[j := b ! (off + j) XOR s ! j]) buf [0..<n] =
    xor_bytes (take n (drop off buf)) s @ drop n buf"
  using assms
proof (induction n)
  case (Suc n)
  define b where "b = xor_bytes (take n (drop off buf)) s"
  have "length b = n" using Suc.prems by (simp add: b_def)
  then have "(b @ drop n buf) ! (off + n) = buf ! (off + n)" using Suc.prems by (simp add: nth_append add.commute)
  moreover have "(b @ drop n buf)[n := x] = (b @ [x]) @ drop (Suc n) buf" for x
    using Suc.prems \<open>length b = n\<close> by (simp add: list_update_append Cons_nth_drop_Suc [symmetric])
  moreover have "xor_bytes (take (Suc n) (drop off buf)) s = b @ [buf ! (off + n) XOR s ! n]"
    using Suc.prems by (simp add: b_def take_Suc_conv_app_nth nth_equalityI nth_append less_Suc_eq)
      (rule nth_equalityI, auto simp: nth_append less_Suc_eq)
  ultimately show ?case using Suc by (simp add: b_def)
qed simp

section \<open>Decryption accepts exactly what encryption makes\<close>

lemma length_ccmp:
  "mac_header_len a4 qc \<le> length h \<Longrightarrow> length (RTMPConstructCCMPAAD h d a4 qc) = mac_header_len a4 qc - 2"
  "16 \<le> length h \<Longrightarrow> length (RTMPConstructCCMPNonce h a4 qc pn nonce) = 13"
  by (auto simp: RTMPConstructCCMPAAD_def RTMPConstructCCMPNonce_def mac_header_len_def MAC_ADDR_LEN_def)

lemma mac_header_len_ge: "24 \<le> mac_header_len a4 qc"
  by (simp add: mac_header_len_def)

definition ccmp_aad :: "bytes \<Rightarrow> bytes" where
  "ccmp_aad hdr = RTMPConstructCCMPAAD hdr (frame_type hdr = BTYPE_DATA) (a4_exists hdr) (qc_exists hdr)"

definition ccmp_nonce :: "bytes \<Rightarrow> bytes \<Rightarrow> bytes" where
  "ccmp_nonce hdr pn = RTMPConstructCCMPNonce hdr (a4_exists hdr) (qc_exists hdr) pn (replicate 13 0)"

definition ccmp_frame_ok :: "CIPHER_KEY \<Rightarrow> bytes \<Rightarrow> bool" where
  "ccmp_frame_ok k hdr \<longleftrightarrow> KeyLen k \<noteq> 0 \<and> length (Key k) = 16 \<and>
     mac_header_len (a4_exists hdr) (qc_exists hdr) \<le> length hdr"

lemma ccmp_frame_okD:
  "ccmp_frame_ok k hdr \<Longrightarrow> KeyLen k \<noteq> 0" "ccmp_frame_ok k hdr \<Longrightarrow> length (Key k) = 16"
  "ccmp_frame_ok k hdr \<Longrightarrow> mac_header_len (a4_exists hdr) (qc_exists hdr) \<le> length hdr"
  "ccmp_frame_ok k hdr \<Longrightarrow> 24 \<le> length hdr" "ccmp_frame_ok k hdr \<Longrightarrow> length (ccmp_nonce hdr pn) = 13"
  using mac_header_len_ge [of "a4_exists hdr" "qc_exists hdr"]
  by (auto simp: ccmp_frame_ok_def ccmp_nonce_def length_ccmp)

lemma ccmp_encrypt_eq:
  assumes ok: "ccmp_frame_ok k hdr" and n: "length p = n" "n + 16 < 2 ^ 16" and pn: "6 \<le> length pn" and room: "8 \<le> length room"
  defines "r \<equiv> AES_CCM_Encrypt p (of_nat n) (Key k) 16 (ccmp_nonce hdr pn) 13
     (ccmp_aad hdr) (of_nat (length (ccmp_aad hdr))) 8 (of_nat n + 8)"
  shows "RTMPSoftEncryptCCMP hdr pn (Key k) (p @ room) (of_nat n) =
     (case snd r of None \<Rightarrow> Some (False, p @ room)
       | Some (c, _) \<Rightarrow> Some (fst r = 0, c @ drop (length c) (p @ room)))"
proof -
  have "unat (of_nat n :: u32) = n" using n by (simp add: unat_of_nat)
  then show ?thesis
    using ok n(1) pn room ccmp_frame_okD [OF ok]
    by (simp add: RTMPSoftEncryptCCMP_def r_def Let_def LEN_PN_def LEN_CCMP_MIC_def cong: option.case_cong prod.case_cong
        flip: ccmp_aad_def ccmp_nonce_def)
qed

lemma ccmp_decrypt_eq:
  assumes ok: "ccmp_frame_ok k hdr" and n: "n + 16 < 2 ^ 16" and len: "length h = 8" "length body = n + 8"
  defines "r \<equiv> AES_CCM_Decrypt body (of_nat n + 8) (Key k) 16 (ccmp_nonce hdr (ccmp_pn h)) 13
     (ccmp_aad hdr) (of_nat (length (ccmp_aad hdr))) 8 (of_nat n + 16)"
  shows "RTMPSoftDecryptCCMP hdr k (h @ body) (of_nat n + 16) =
     (case snd r of None \<Rightarrow> Some (False, h @ body, of_nat n + 16)
       | Some (p, out_len) \<Rightarrow> if fst r \<noteq> 0 then Some (False, p @ drop (length p) (h @ body), of_nat n + 16)
            else Some (True, p @ drop (length p) (h @ body), ucast out_len))"
proof -
  have "unat (of_nat (n + 16) :: u16) = n + 16" using n by (simp add: unat_of_nat take_bit_nat_eq_self del: of_nat_add)
  then have u: "unat (of_nat n + 16 :: u16) = n + 16" by simp
  have c: "ucast (of_nat n + 16 :: u16) = (of_nat n + 16 :: u32)"
    using u by (metis of_nat_add of_nat_numeral of_nat_unat)
  have l: "(of_nat n + 16 :: u32) - 8 = of_nat n + 8" by simp
  have "unat (of_nat (n + 8) :: u32) = n + 8" using n by (simp add: unat_of_nat del: of_nat_add)
  then have v: "unat (of_nat n + 8 :: u32) = n + 8" by simp
  have "\<not> (of_nat n + 16 :: u16) \<le> 8" by (simp add: word_le_nat_alt u)
  moreover have "ccmp_pn (h @ body) = ccmp_pn h" using len by (simp add: ccmp_pn_def nth_append)
  ultimately show ?thesis
    using ok len ccmp_frame_okD [OF ok] unfolding RTMPSoftDecryptCCMP_def Let_def c
    by (simp add: r_def u v l LEN_CCMP_HDR_def LEN_CCMP_MIC_def cong: option.case_cong prod.case_cong if_cong
        flip: ccmp_aad_def ccmp_nonce_def)
qed

lemma AES_CCM_shapes:
  assumes "length tmpkey = 16" and "7 \<le> NonceLength" and "NonceLength \<le> 13" and "valid_MACLength MACLength"
    and "length p = unat n" and "unat n + unat MACLength < 2 ^ 32" and "length c = unat n + unat MACLength"
    and "n + MACLength \<le> CipherCap" and "n \<le> PlainCap"
  shows "\<exists>c'. length c' = unat n + unat MACLength \<and>
      AES_CCM_Encrypt p n tmpkey 16 Nonce NonceLength AAD AADLength MACLength CipherCap = (0, Some (c', n + MACLength))"
    and "\<exists>e p'. length p' = unat n \<and>
      AES_CCM_Decrypt c (n + MACLength) tmpkey 16 Nonce NonceLength AAD AADLength MACLength PlainCap = (e, Some (p', n))"
proof -
  define S where "S = ccm_stream (aes_E tmpkey) (ccm_CTR0 Nonce NonceLength) (unat n)"
  have l: "length S = unat n" by (simp add: S_def aes.length_ccm_stream)
  have m: "length (AES_CCM_MAC p n tmpkey 16 Nonce NonceLength AAD AADLength MACLength) = unat MACLength"
    using assms(1,4) by (simp add: length_AES_CCM_MAC unat_valid_MACLength)
  show "\<exists>c'. length c' = unat n + unat MACLength \<and>
      AES_CCM_Encrypt p n tmpkey 16 Nonce NonceLength AAD AADLength MACLength CipherCap = (0, Some (c', n + MACLength))"
    using assms l m by (simp add: AES_CCM_Encrypt_def encrypted_block_16 aes.ccm_ctr_loop_eq Let_def subarray_def
        not_less unat_valid_MACLength flip: S_def)
  show "\<exists>e p'. length p' = unat n \<and>
      AES_CCM_Decrypt c (n + MACLength) tmpkey 16 Nonce NonceLength AAD AADLength MACLength PlainCap = (e, Some (p', n))"
    using assms l by (simp add: AES_CCM_Decrypt_def encrypted_block_16 aes.ccm_ctr_loop_eq Let_def subarray_def
        not_less flip: S_def)
qed

lemma CCMP_accepts_iff:
  assumes ok: "ccmp_frame_ok k hdr" and n: "length p + 16 < 2 ^ 16" and h: "length h = 8" and body: "length body = length p + 8"
    and room: "8 \<le> length room"
  shows "RTMPSoftDecryptCCMP hdr k (h @ body) (of_nat (length p) + 16) =
       Some (True, p @ drop (length p) (h @ body), of_nat (length p)) \<longleftrightarrow>
     RTMPSoftEncryptCCMP hdr (ccmp_pn h) (Key k) (p @ room) (of_nat (length p)) = Some (True, body @ drop 8 room)"
proof -
  let ?w = "of_nat (length p) :: u32"
  have u: "unat ?w = length p" using n by (simp add: unat_of_nat)
  have "unat (of_nat (length p + 16) :: u32) = length p + 16" using n by (simp add: unat_of_nat del: of_nat_add)
  then have v: "?w \<le> ?w + 16" by (simp add: word_le_nat_alt u)
  have x: "ucast ?w = (of_nat (length p) :: u16)" using u by (metis of_nat_unat)
  have pn: "6 \<le> length (ccmp_pn h)" by (simp add: ccmp_pn_def)
  define N where "N = ccmp_nonce hdr (ccmp_pn h)"
  define A where "A = ccmp_aad hdr"
  have c: "7 \<le> (13 :: u32)" "13 \<le> (13 :: u32)" "valid_MACLength 8" "unat ?w + unat (8 :: u32) < 2 ^ 32"
      "length body = unat ?w + unat (8 :: u32)" "?w + 8 \<le> ?w + 8"
    using n u body by (simp_all add: valid_MACLength_def)
  note shapes = AES_CCM_shapes [OF ccmp_frame_okD(2) [OF ok] c(1,2,3) u [symmetric] c(4,5,6) v, of N A "of_nat (length A)"]
  obtain c' where E: "AES_CCM_Encrypt p ?w (Key k) 16 N 13 A (of_nat (length A)) 8 (?w + 8) = (0, Some (c', ?w + 8))"
    and lc: "length c' = length p + 8"
    using shapes(1) u by auto
  obtain e p' where D: "AES_CCM_Decrypt body (?w + 8) (Key k) 16 N 13 A (of_nat (length A)) 8 (?w + 16) = (e, Some (p', ?w))"
    and lp: "length p' = length p"
    using shapes(2) u by auto
  have "e = 0 \<and> p' = p \<longleftrightarrow> c' = body"
    using AES_CCM_exact [OF ccmp_frame_okD(2) [OF ok] c(1,2,3) u [symmetric] c(4,5,6) v, of N A "of_nat (length A)"]
    unfolding E D by auto
  then show ?thesis
    using ccmp_encrypt_eq [OF ok refl n pn room] ccmp_decrypt_eq [OF ok n h body] lc lp x
    by (auto simp: E D simp flip: N_def A_def)
qed


text \<open>A frame without room for the header and the code is rejected, and nothing is written.\<close>

lemma CCMP_short_rejected:
  assumes ok: "ccmp_frame_ok k hdr" and "DataLen < 16" and "16 \<le> length d"
  shows "RTMPSoftDecryptCCMP hdr k d DataLen = Some (False, d, DataLen)"
proof (cases "DataLen \<le> 8")
  case False
  define m where "m = unat DataLen"
  have m: "8 < m" "m < 16" using False assms(2) by (simp_all add: m_def word_le_nat_alt word_less_nat_alt)
  then have "m \<in> {9, 10, 11, 12, 13, 14, 15}" by auto
  moreover have "DataLen = of_nat m" by (simp add: m_def)
  ultimately have "DataLen \<in> {9, 10, 11, 12, 13, 14, 15}" by auto
  moreover have "length d \<ge> unat DataLen" using m assms(3) by (simp add: m_def)
  ultimately show ?thesis
    using ccmp_frame_okD [OF ok] assms(3)
    by (auto simp: RTMPSoftDecryptCCMP_def Let_def AES_CCM_Decrypt_def valid_MACLength_def LEN_CCMP_HDR_def LEN_CCMP_MIC_def
        simp flip: ccmp_nonce_def)
qed (use assms ccmp_frame_okD [OF ok] in \<open>auto simp: RTMPSoftDecryptCCMP_def Let_def LEN_CCMP_HDR_def\<close>)


section \<open>Frames encrypted in software are decrypted in software\<close>

lemma ccmp_pn_header:
  assumes "6 \<le> length pn"
  shows "ccmp_pn (RTMPConstructCCMPHdr key_idx pn) = take 6 pn" and "length (RTMPConstructCCMPHdr key_idx pn) = 8"
proof -
  have "replicate 8 (0 :: u8) = [0, 0, 0, 0, 0, 0, 0, 0]" by (simp add: eval_nat_numeral)
  moreover have "take 6 pn = [pn ! 0, pn ! 1, pn ! 2, pn ! 3, pn ! 4, pn ! 5]"
    by (rule nth_equalityI) (use assms in \<open>auto simp: nth_Cons' less_Suc_eq numeral_eq_Suc\<close>)
  ultimately show "ccmp_pn (RTMPConstructCCMPHdr key_idx pn) = take 6 pn"
    and "length (RTMPConstructCCMPHdr key_idx pn) = 8"
    by (simp_all add: ccmp_pn_def RTMPConstructCCMPHdr_def LEN_CCMP_HDR_def)
qed

lemma ccmp_nonce_take: "ccmp_nonce hdr (take 6 pn) = ccmp_nonce hdr pn"
  by (simp add: ccmp_nonce_def RTMPConstructCCMPNonce_def)

lemma ccmp_soft_roundtrip:
  assumes ok: "ccmp_frame_ok k hdr" and pn: "6 \<le> length pn" and n: "length p + 16 < 2 ^ 16" and room: "8 \<le> length room"
  shows "\<exists>body. length body = length p + 8 \<and>
    RTMPSoftEncryptCCMP hdr pn (Key k) (p @ room) (of_nat (length p)) = Some (True, body @ drop 8 room) \<and>
    RTMPSoftDecryptCCMP hdr k (RTMPConstructCCMPHdr key_id pn @ body) (of_nat (length p) + 16) =
      Some (True, p @ drop (length p) (RTMPConstructCCMPHdr key_id pn @ body), of_nat (length p))"
proof -
  let ?w = "of_nat (length p) :: u32"
  let ?A = "ccmp_aad hdr"
  let ?h = "RTMPConstructCCMPHdr key_id pn"
  have u: "unat ?w = length p" using n by (simp add: unat_of_nat)
  obtain body where E: "AES_CCM_Encrypt p ?w (Key k) 16 (ccmp_nonce hdr pn) 13 ?A (of_nat (length ?A)) 8 (?w + 8) = (0, Some (body, ?w + 8))"
    and l: "length body = length p + 8"
    using AES_CCM_shapes(1) [OF ccmp_frame_okD(2) [OF ok], of 13 8 p ?w "replicate (length p + 8) 0" "?w + 8" ?w "ccmp_nonce hdr pn" ?A "of_nat (length ?A)"] u n
    by (auto simp: valid_MACLength_def)
  have "RTMPSoftEncryptCCMP hdr pn' (Key k) (p @ room) ?w = Some (True, body @ drop 8 room)"
    if "6 \<le> length pn'" "ccmp_nonce hdr pn' = ccmp_nonce hdr pn" for pn'
    using ccmp_encrypt_eq [OF ok refl n that(1) room] l by (simp add: that(2) E)
  from this [of pn] this [of "take 6 pn"] show ?thesis
    using CCMP_accepts_iff [OF ok n ccmp_pn_header(2) l room, of pn key_id] ccmp_pn_header(1) [of pn key_id] pn l
    by (auto simp: ccmp_nonce_take)
qed

lemma wep_soft_roundtrip:
  assumes k: "wep_key_ok k" and iv: "3 \<le> length iv" and n: "length p + 8 < 2 ^ 16" and room: "4 \<le> length room"
  shows "\<exists>hdr body q. RTMPConstructWEPIVHdr key_id iv = Some hdr \<and> length hdr = 4 \<and> length body = length p + 4 \<and>
    RTMPSoftEncryptWEP (True, True) iv k (p @ room) (length p) = Some (True, body @ drop 4 room) \<and>
    RTMPSoftDecryptWEP (True, True) k (hdr @ body) (of_nat (length p + 8)) = Some (True, q, of_nat (length p)) \<and>
    take (length p) q = p"
proof -
  define hdr where "hdr = take 3 iv @ [push_bit 6 key_id]"
  have hdr: "RTMPConstructWEPIVHdr key_id iv = Some hdr" "length hdr = 4"
    using iv by (simp_all add: hdr_def RTMPConstructWEPIVHdr_def move_memory_def LEN_WEP_IV_HDR_def LEN_WEP_TSC_def list_update_append)
  obtain ctx where ctx: "RTMPInitWepEngine True (take 3 iv @ tail) (Key k) (KeyLen k) = Some ctx" for tail
    using wep_engine [OF k, of "take 3 iv"] iv by auto
  have "RTMPInitWepEngine True iv (Key k) (KeyLen k) = Some ctx"
    using ctx [of "drop 3 iv"] by simp
  define body where "body = snd (ARC4_Compute ctx (p @ wep_icv p))"
  have l: "length body = length p + 4" by (simp add: body_def wep_icv_def)
  have "RTMPSoftEncryptWEP (True, True) iv k (p @ room) (length p) = Some (True, body @ drop 4 room)"
    using k \<open>RTMPInitWepEngine True iv (Key k) (KeyLen k) = Some ctx\<close> room
    by (simp add: RTMPSoftEncryptWEP_def wep_key_ok_def move_memory_def LEN_ICV_def wep_icv_def Let_def body_def)
  moreover have "RTMPSoftEncryptWEP (True, True) hdr k (p @ [0, 0, 0, 0]) (length p) = Some (True, body)"
    using wep_encrypt_eq [OF k, of hdr ctx p 0] ctx [of "[push_bit 6 key_id]"] by (simp add: hdr_def body_def eval_nat_numeral)
  ultimately show ?thesis
    using WEP_exact [OF k hdr(2), of p body] hdr n l by auto
qed


definition soft_key_ok :: "CIPHER_KEY \<Rightarrow> bytes \<Rightarrow> bool" where
  "soft_key_ok k hdr \<longleftrightarrow> 6 \<le> length (TxTsc k) \<and>
     ((CipherAlg k = CIPHER_WEP64 \<or> CipherAlg k = CIPHER_WEP128) \<and> wep_key_ok k \<or>
      CipherAlg k = CIPHER_AES \<and> ccmp_frame_ok k hdr)"

lemmas cipher_numbers = CIPHER_WEP64_def CIPHER_WEP128_def CIPHER_TKIP_def CIPHER_AES_def

definition ex_ccmp_key :: CIPHER_KEY where
  "ex_ccmp_key = \<lparr>Key = replicate 16 7, KeyLen = 16, TxMic = replicate 8 0, RxMic = replicate 8 0,
     TxTsc = [1, 2, 3, 4, 5, 6, 0, 0, 0, 0, 0, 0, 0, 0, 0, 0], CipherAlg = 4\<rparr>"

text \<open>
  C35. A received CCMP frame is accepted as the data \<open>p\<close> if and only if its body is what the encryption
  of \<open>p\<close> produces with the same key, the same frame header and the packet number of its
  CCMP header: every encrypted frame is decrypted to the original data in place and with its
  length, and a frame that was changed anywhere is accepted only if it is itself the encryption
  of what it decrypts to. A frame that is too short for its header and code is rejected and the
  buffer stays as it was.
\<close>

theorem CCMP_exact:
  assumes "ccmp_frame_ok k hdr" and "length p + 16 < 2 ^ 16" and "length h = 8" and "length body = length p + 8"
    and "8 \<le> length room" and "DataLen < 16" and "16 \<le> length d"
  shows "(RTMPSoftDecryptCCMP hdr k (h @ body) (of_nat (length p) + 16) =
       Some (True, p @ drop (length p) (h @ body), of_nat (length p)) \<longleftrightarrow>
     RTMPSoftEncryptCCMP hdr (ccmp_pn h) (Key k) (p @ room) (of_nat (length p)) = Some (True, body @ drop 8 room)) \<and>
     RTMPSoftDecryptCCMP hdr k d DataLen = Some (False, d, DataLen)"
  using CCMP_accepts_iff [OF assms(1-5)] CCMP_short_rejected [OF assms(1,6,7)] by blast

lemma CCMP_exact_witness:
  "(RTMPSoftDecryptCCMP (replicate 24 1) ex_ccmp_key (replicate 8 2 @ replicate 9 3) (of_nat (length [5 :: u8]) + 16) =
       Some (True, [5] @ drop (length [5 :: u8]) (replicate 8 2 @ replicate 9 3), of_nat (length [5 :: u8])) \<longleftrightarrow>
     RTMPSoftEncryptCCMP (replicate 24 1) (ccmp_pn (replicate 8 2)) (Key ex_ccmp_key) ([5] @ replicate 8 0) (of_nat (length [5 :: u8]))
       = Some (True, replicate 9 3 @ drop 8 (replicate 8 0))) \<and>
     RTMPSoftDecryptCCMP (replicate 24 1) ex_ccmp_key (replicate 16 4) 15 = Some (False, replicate 16 4, 15)"
  by (rule CCMP_exact)
    (simp_all add: ccmp_frame_ok_def ex_ccmp_key_def mac_header_len_def a4_exists_def qc_exists_def from_ds_def to_ds_def
      frame_type_def BTYPE_DATA_def)

text \<open>
  C36. A frame that the driver encrypts in software with WEP or CCMP is decrypted in software to the data
  it was made of: with a usable key, the header that \<open>RTMPSoftConstructIVHdr\<close> puts in front and the
  data with the trailer that \<open>RTMPSoftEncryptionAction\<close> leaves in the buffer are accepted by
  \<open>RTMPSoftDecryptionAction\<close>, which writes the original data and their count. Both sides read the counter
  of the frame from the same place.
\<close>

theorem soft_encryption_roundtrip:
  assumes key: "soft_key_ok k hdr" and n: "length p + 16 < 2 ^ 16" and room: "8 \<le> length room"
  shows "\<exists>iv d ext r. RTMPSoftConstructIVHdr (CipherAlg k) key_id (TxTsc k) = Some iv \<and>
    RTMPSoftEncryptionAction (True, True) (CipherAlg k) hdr (p @ room) (of_nat (length p)) k = Some (d, ext) \<and>
    length d = length p + length room \<and>
    RTMPSoftDecryptionAction (True, True) hdr prio k (iv @ take (length p + ext) d)
      (of_nat (length iv + length p + ext)) engine = Some r \<and>
    accepted r \<and> data_count r = of_nat (length p) \<and> take (length p) (data_buffer r) = p"
proof (cases "CipherAlg k = CIPHER_AES")
  case True
  then have ok: "ccmp_frame_ok k hdr" and tsc: "6 \<le> length (TxTsc k)"
    using key by (auto simp: soft_key_ok_def cipher_numbers)
  obtain body where b: "length body = length p + 8"
    "RTMPSoftEncryptCCMP hdr (TxTsc k) (Key k) (p @ room) (of_nat (length p)) = Some (True, body @ drop 8 room)"
    "RTMPSoftDecryptCCMP hdr k (RTMPConstructCCMPHdr key_id (TxTsc k) @ body) (of_nat (length p) + 16) =
      Some (True, p @ drop (length p) (RTMPConstructCCMPHdr key_id (TxTsc k) @ body), of_nat (length p))"
    using ccmp_soft_roundtrip [OF ok tsc n room] by metis
  have cnt: "(of_nat (length (RTMPConstructCCMPHdr key_id (TxTsc k)) + length p + 8) :: u16) = of_nat (length p) + 16"
    using tsc by (simp add: ccmp_pn_header(2))
  show ?thesis using b True tsc room unfolding RTMPSoftConstructIVHdr_def RTMPSoftEncryptionAction_def RTMPSoftDecryptionAction_def
    by (simp add: cipher_numbers LEN_PN_def LEN_CCMP_MIC_def cnt plain_result_def del: of_nat_add) fastforce
next
  case False
  then have k: "wep_key_ok k" and tsc: "3 \<le> length (TxTsc k)" and wep: "CipherAlg k = CIPHER_WEP64 \<or> CipherAlg k = CIPHER_WEP128"
    using key by (auto simp: soft_key_ok_def)
  have "unat (of_nat (length p) :: u32) = length p" using n by (simp add: unat_of_nat)
  moreover obtain iv body q where b: "RTMPConstructWEPIVHdr key_id (TxTsc k) = Some iv" "length iv = 4" "length body = length p + 4"
    "RTMPSoftEncryptWEP (True, True) (TxTsc k) k (p @ room) (length p) = Some (True, body @ drop 4 room)"
    "RTMPSoftDecryptWEP (True, True) k (iv @ body) (of_nat (length p + 8)) = Some (True, q, of_nat (length p))"
    "take (length p) q = p"
    using wep_soft_roundtrip [OF k tsc, of p room key_id] n room by auto
  moreover have "(of_nat (length iv + length p + 4) :: u16) = of_nat (length p + 8)" using b(2) by simp
  ultimately show ?thesis using wep room
    unfolding RTMPSoftConstructIVHdr_def RTMPSoftEncryptionAction_def RTMPSoftDecryptionAction_def
    by (intro exI [of _ iv] exI [of _ "body @ drop 4 room"] exI [of _ 4] exI [of _ "plain_result engine (True, q, of_nat (length p))"])
      (simp add: LEN_ICV_def plain_result_def del: of_nat_add)
qed

text \<open>
  With TKIP the software encryption changes nothing: the data go out in the clear and without a header,
  in a frame whose protected bit is set, since only such frames come here.
\<close>

lemma soft_tkip_in_the_clear:
  "RTMPSoftConstructIVHdr CIPHER_TKIP key_id iv = Some [] \<and>
   RTMPSoftEncryptionAction mem CIPHER_TKIP hdr d n k = Some (d, 0)"
  by (simp add: RTMPSoftConstructIVHdr_def RTMPSoftEncryptionAction_def cipher_numbers)


text \<open>A QoS data frame.\<close>

lemma soft_encryption_roundtrip_witness:
  "\<exists>iv d ext r. RTMPSoftConstructIVHdr (CipherAlg ex_ccmp_key) 1 (TxTsc ex_ccmp_key) = Some iv \<and>
    RTMPSoftEncryptionAction (True, True) (CipherAlg ex_ccmp_key) (0x88 # 0x43 # replicate 30 5) ([9, 8, 7] @ replicate 8 0)
      (of_nat (length [9 :: u8, 8, 7])) ex_ccmp_key = Some (d, ext) \<and>
    length d = length [9 :: u8, 8, 7] + length (replicate 8 (0 :: u8)) \<and>
    RTMPSoftDecryptionAction (True, True) (0x88 # 0x43 # replicate 30 5) 0 ex_ccmp_key (iv @ take (length [9 :: u8, 8, 7] + ext) d)
      (of_nat (length iv + length [9 :: u8, 8, 7] + ext)) ex_engine = Some r \<and>
    accepted r \<and> data_count r = of_nat (length [9 :: u8, 8, 7]) \<and> take (length [9 :: u8, 8, 7]) (data_buffer r) = [9, 8, 7]"
  by (rule soft_encryption_roundtrip)
    (simp_all add: soft_key_ok_def ccmp_frame_ok_def ex_ccmp_key_def cipher_numbers mac_header_len_def)


section \<open>No packet number is used twice\<close>

text \<open>The number that the first bytes stand for, the lowest byte first.\<close>

definition le_value :: "bytes \<Rightarrow> nat" where
  "le_value bs = foldr (\<lambda>b v. unat b + 256 * v) bs 0"

primrec le_inc :: "bytes \<Rightarrow> bytes" where
  "le_inc [] = []"
| "le_inc (b # bs) = (if b + 1 > b then (b + 1) # bs else (b + 1) # le_inc bs)"

lemma byte_inc: "if b + 1 > b then unat (b + 1) = unat b + 1 else unat b = 255 \<and> b + 1 = 0" for b :: u8
proof (cases "1 + b = 0")
  case True
  then have "b = - 1" by (simp add: eq_neg_iff_add_eq_0 add.commute)
  then show ?thesis by (simp add: unsigned_minus_1_eq_mask mask_eq_exp_minus_1)
next
  case False
  then show ?thesis using unatSuc [of b] by (simp add: word_less_nat_alt add.commute)
qed

lemma le_value_Cons [simp]: "le_value [] = 0" "le_value (b # bs) = unat b + 256 * le_value bs"
  by (simp_all add: le_value_def)

lemma le_value_less: "le_value bs < 256 ^ length bs"
proof (induction bs)
  case (Cons b bs)
  have "unat b < 256" using unsigned_less [of b, where ?'a = nat] by simp
  then show ?case using Cons by simp
qed simp

lemma le_inc_length [simp]: "length (le_inc bs) = length bs"
  by (induction bs) simp_all

lemma le_value_inc: "le_value (le_inc bs) = (le_value bs + 1) mod 256 ^ length bs"
proof (induction bs)
  case (Cons b bs)
  show ?case
  proof (cases "b + 1 > b")
    case True
    then have b: "unat (b + 1) = unat b + 1" using byte_inc [of b] by simp
    then have "le_value ((b + 1) # bs) = le_value (b # bs) + 1" by simp
    with le_value_less [of "(b + 1) # bs"] True show ?thesis by simp
  next
    case False
    then have "unat b = 255" "b + 1 = 0" using byte_inc [of b] by simp_all
    then have "le_value (le_inc (b # bs)) = 256 * ((le_value bs + 1) mod 256 ^ length bs)"
      "le_value (b # bs) + 1 = 256 * (le_value bs + 1)"
      using False Cons by simp_all
    then show ?thesis by (simp add: mult_mod_right)
  qed
qed simp

lemma inc_iv_loop_eq:
  assumes "len \<le> length iv" and "pos \<le> len" and "carry \<or> cnt = 1"
  shows "inc_iv_loop iv len cnt pos carry = take pos iv @ le_inc (subarray pos (len - pos) iv) @ drop len iv"
  using assms
proof (induction iv len cnt pos carry rule: inc_iv_loop.induct)
  case (1 iv len cnt pos carry)
  show ?case
  proof (cases "pos < len")
    case True
    define b where "b = iv ! pos"
    define iv' where "iv' = iv[pos := b + 1]"
    have new: "iv[pos := if carry then iv ! pos + 1 else iv ! pos + ucast cnt] = iv'"
      using "1.prems"(3) by (auto simp: iv'_def b_def)
    have sub: "subarray pos (len - pos) iv = b # subarray (Suc pos) (len - Suc pos) iv"
      using True "1.prems" by (simp add: subarray_def b_def Cons_nth_drop_Suc [symmetric] take_Cons' Suc_diff_Suc)
    have iv': "iv' = take pos iv @ (b + 1) # subarray (Suc pos) (len - Suc pos) iv @ drop len iv"
      using True "1.prems" by (simp add: iv'_def upd_conv_take_nth_drop subarray_def)
        (metis Suc_leI append_take_drop_id drop_drop le_add_diff_inverse2)
    show ?thesis
    proof (cases "b + 1 > b")
      case big: True
      have "inc_iv_loop iv len cnt pos carry = iv'"
        using True big "1.prems" by (subst inc_iv_loop.simps) (auto simp: Let_def b_def [symmetric] iv'_def)
      then show ?thesis using big by (simp add: sub iv')
    next
      case False
      have "inc_iv_loop iv len cnt pos carry = inc_iv_loop iv' len cnt (pos + 1) True"
        using True False "1.prems" by (subst inc_iv_loop.simps) (auto simp: Let_def b_def [symmetric] iv'_def)
      also have "\<dots> = take (pos + 1) iv' @ le_inc (subarray (pos + 1) (len - (pos + 1)) iv') @ drop len iv'"
        by (rule "1.IH" [OF True refl, unfolded new]) (use True False "1.prems" in \<open>simp_all add: iv'_def b_def\<close>)
      also have "take (pos + 1) iv' = take pos iv @ [b + 1]" using True "1.prems" by (simp add: iv')
      also have "subarray (pos + 1) (len - (pos + 1)) iv' = subarray (Suc pos) (len - Suc pos) iv"
        by (simp add: subarray_def iv'_def)
      also have "drop len iv' = drop len iv" using True by (simp add: iv'_def)
      finally show ?thesis using False by (simp add: sub)
    qed
  next
    case False
    then show ?thesis using "1.prems" by (subst inc_iv_loop.simps) (simp add: subarray_def)
  qed
qed


lemma inc_iv_byte_value:
  assumes "len \<le> length iv"
  shows "length (inc_iv_byte iv len 1) = length iv"
    and "le_value (take len (inc_iv_byte iv len 1)) = (le_value (take len iv) + 1) mod 256 ^ len"
  using assms inc_iv_loop_eq [of len iv 0 False 1] le_value_inc [of "take len iv"]
  by (simp_all add: inc_iv_byte_def subarray_def)

lemma sw_cipher_counter:
  assumes "CipherAlg k = CIPHER_AES" and "bit (hdr ! 1) 6" and "6 \<le> length (TxTsc k)"
  shows "\<exists>k'. RTMPUpdateSwCacheCipherInfo True hdr k = (True, k') \<and> CipherAlg k' = CIPHER_AES \<and>
    Key k' = Key k \<and> length (TxTsc k') = length (TxTsc k) \<and>
    le_value (take 6 (TxTsc k')) = (le_value (take 6 (TxTsc k)) + 1) mod 2 ^ 48"
  using assms inc_iv_byte_value [of 6 "TxTsc k"]
  by (simp add: RTMPUpdateSwCacheCipherInfo_def cipher_numbers LEN_WPA_TSC_def)

text \<open>The key after the frames with the given headers were prepared.\<close>

definition key_after :: "bytes list \<Rightarrow> CIPHER_KEY \<Rightarrow> CIPHER_KEY" where
  "key_after hdrs k = foldl (\<lambda>k hdr. snd (RTMPUpdateSwCacheCipherInfo True hdr k)) k hdrs"

lemma key_after_counter:
  assumes "CipherAlg k = CIPHER_AES" and "6 \<le> length (TxTsc k)" and "\<forall>hdr\<in>set hdrs. bit (hdr ! 1) 6"
  shows "CipherAlg (key_after hdrs k) = CIPHER_AES \<and> Key (key_after hdrs k) = Key k \<and>
    length (TxTsc (key_after hdrs k)) = length (TxTsc k) \<and>
    le_value (take 6 (TxTsc (key_after hdrs k))) = (le_value (take 6 (TxTsc k)) + length hdrs) mod 2 ^ 48"
  using assms(3)
proof (induction hdrs rule: rev_induct)
  case Nil
  have "le_value (take 6 (TxTsc k)) < 256 ^ 6" using le_value_less [of "take 6 (TxTsc k)"] assms(2) by simp
  then show ?case using assms by (simp add: key_after_def)
next
  case (snoc hdr hdrs)
  define k1 where "k1 = key_after hdrs k"
  have IH: "CipherAlg k1 = CIPHER_AES" "Key k1 = Key k" "length (TxTsc k1) = length (TxTsc k)"
    "le_value (take 6 (TxTsc k1)) = (le_value (take 6 (TxTsc k)) + length hdrs) mod 2 ^ 48"
    using snoc by (simp_all add: k1_def)
  have "key_after (hdrs @ [hdr]) k = snd (RTMPUpdateSwCacheCipherInfo True hdr k1)"
    by (simp add: key_after_def k1_def)
  moreover have "((le_value (take 6 (TxTsc k)) + length hdrs) mod 2 ^ 48 + 1) mod 2 ^ 48 =
      (le_value (take 6 (TxTsc k)) + length (hdrs @ [hdr])) mod 2 ^ 48"
    by (simp add: mod_simps add.assoc)
  ultimately show ?case
    using sw_cipher_counter [of k1 hdr] IH snoc.prems assms(2) by auto
qed

lemma nonce_determines_pn:
  assumes "16 \<le> length hdr1" "16 \<le> length hdr2" and "6 \<le> length pn1" "6 \<le> length pn2"
    and "ccmp_nonce hdr1 pn1 = ccmp_nonce hdr2 pn2"
  shows "take 6 pn1 = take 6 pn2"
proof (rule nth_equalityI)
  have "map (\<lambda>i. pn1 ! (5 - i)) [0..<6] = map (\<lambda>i. pn2 ! (5 - i)) [0..<6]"
    using assms by (simp add: ccmp_nonce_def RTMPConstructCCMPNonce_def MAC_ADDR_LEN_def)
  then have "pn1 ! (5 - i) = pn2 ! (5 - i)" if "i < 6" for i using that by (simp only: map_eq_conv) auto
  then show "take 6 pn1 ! i = take 6 pn2 ! i" if "i < length (take 6 pn1)" for i
  proof -
    have "5 - (5 - i) = i" using that by simp
    then show ?thesis using \<open>5 - i < 6 \<Longrightarrow> pn1 ! (5 - (5 - i)) = pn2 ! (5 - (5 - i))\<close> that by simp
  qed
qed (use assms in simp)



end
