(* ===== verification/Crypt_CCMP_Legacy.thy ===== *)
theory Crypt_CCMP_Legacy
  imports Crypt_CCMP
begin

text \<open>
  The first CCMP decryption of the driver, \<open>RTMPSoftDecryptAES\<close> of \<open>rt5370.driver/common/cmm_aes.c\<close>, which works
  on a whole frame with the block cipher of \<open>Crypt_AES_Soft\<close>, and its agreement with
  \<open>RTMPSoftDecryptCCMP\<close>. A read or a write outside the frame is \<open>None\<close>; \<open>ULONG\<close> is taken as 32 bits, the
  width on the clock.
\<close>

section \<open>The blocks\<close>

text \<open>The frame is built without \<open>CONSISTENT_PN_ORDER\<close>: the packet number goes in with its highest byte first.\<close>

definition construct_mic_header1 :: "nat \<Rightarrow> bytes \<Rightarrow> bytes" where
  "construct_mic_header1 header_length mpdu =
     [of_nat ((header_length - 2) div 256), of_nat ((header_length - 2) mod 256),
      mpdu ! 0 AND 0xcf, mpdu ! 1 AND 0xc7,
      mpdu ! 4, mpdu ! 5, mpdu ! 6, mpdu ! 7, mpdu ! 8, mpdu ! 9,
      mpdu ! 10, mpdu ! 11, mpdu ! 12, mpdu ! 13, mpdu ! 14, mpdu ! 15]"

definition construct_mic_header2 :: "bytes \<Rightarrow> bool \<Rightarrow> bool \<Rightarrow> bytes" where
  "construct_mic_header2 mpdu a4 qc =
     (let H = (replicate 16 0)[0 := mpdu ! 16, 1 := mpdu ! 17, 2 := mpdu ! 18, 3 := mpdu ! 19, 4 := mpdu ! 20,
                5 := mpdu ! 21, 6 := mpdu ! 22 AND 0x0f, 7 := 0x00];
          A4 = (\<lambda>H. foldl (\<lambda>H i. H[8 + i := mpdu ! (24 + i)]) H [0..<6]);
          H = (if \<not> qc \<and> a4 then A4 H else H);
          H = (if qc \<and> \<not> a4 then H[8 := mpdu ! 24 AND 0x0f, 9 := mpdu ! 25 AND 0x00] else H);
          H = (if qc \<and> a4 then (A4 H)[14 := mpdu ! 30 AND 0x0f, 15 := mpdu ! 31 AND 0x00] else H)
      in H)"

definition construct_mic_iv :: "bool \<Rightarrow> bool \<Rightarrow> bytes \<Rightarrow> nat \<Rightarrow> bytes \<Rightarrow> bytes" where
  "construct_mic_iv qc a4 mpdu payload_length pn_vector =
     [0x59, if qc \<and> a4 then mpdu ! 30 AND 0x0f else if qc \<and> \<not> a4 then mpdu ! 24 AND 0x0f else 0x00] @
     map (\<lambda>i. mpdu ! (i + 8)) [2..<8] @ map (\<lambda>i. pn_vector ! (13 - i)) [8..<14] @
     [of_nat (payload_length div 256), of_nat (payload_length mod 256)]"

definition construct_ctr_preload :: "bool \<Rightarrow> bool \<Rightarrow> bytes \<Rightarrow> bytes \<Rightarrow> nat \<Rightarrow> bytes" where
  "construct_ctr_preload a4 qc mpdu pn_vector c =
     [0x01, if qc \<and> a4 then mpdu ! 30 AND 0x0f else if qc \<and> \<not> a4 then mpdu ! 24 AND 0x0f else 0x00] @
     map (\<lambda>i. mpdu ! (i + 8)) [2..<8] @ map (\<lambda>i. pn_vector ! (13 - i)) [8..<14] @
     [of_nat (c div 256), of_nat (c mod 256)]"

section \<open>The decryption\<close>

text \<open>A block of the frame, padded with zeros when it is short.\<close>

definition frame_block :: "bytes \<Rightarrow> nat \<Rightarrow> nat \<Rightarrow> bytes option" where
  "frame_block pData payload_index len =
     (if length pData < payload_index + len then None
      else Some (take len (drop payload_index pData) @ replicate (16 - len) 0))"

text \<open>Decipher a block and move it to its place, eight bytes further to the front.\<close>

definition decrypt_frame_block :: "bytes \<Rightarrow> bytes \<Rightarrow> bytes \<Rightarrow> nat \<Rightarrow> nat \<Rightarrow> bytes option" where
  "decrypt_frame_block key ctr_preload pData payload_index len =
     Option.bind (frame_block pData payload_index len) (\<lambda>b.
       move_memory pData (payload_index - 8) (bitwise_xor (aes128k128d key ctr_preload) b) 0 len)"

function decrypt_loop :: "(bytes \<Rightarrow> nat \<Rightarrow> bytes) \<Rightarrow> bytes \<Rightarrow> nat \<Rightarrow> nat \<Rightarrow> nat \<Rightarrow> bytes \<Rightarrow> bytes option" where
  "decrypt_loop ctr key num_blocks i payload_index pData =
     (if i < num_blocks then
        (case decrypt_frame_block key (ctr pData (i + 1)) pData payload_index 16 of
           None \<Rightarrow> None
         | Some d \<Rightarrow> decrypt_loop ctr key num_blocks (i + 1) (payload_index + 16) d)
      else Some pData)"
  by pat_completeness auto
termination
  by (relation "measure (\<lambda>(_, _, n, i, _, _). n - i)") auto

declare decrypt_loop.simps [simp del]

function mic_loop :: "bytes \<Rightarrow> nat \<Rightarrow> nat \<Rightarrow> nat \<Rightarrow> bytes \<Rightarrow> bytes \<Rightarrow> bytes option" where
  "mic_loop key num_blocks i payload_index pData aes_out =
     (if i < num_blocks then
        (case frame_block pData payload_index 16 of
           None \<Rightarrow> None
         | Some b \<Rightarrow> mic_loop key num_blocks (i + 1) (payload_index + 16) pData (aes128k128d key (bitwise_xor aes_out b)))
      else Some aes_out)"
  by pat_completeness auto
termination
  by (relation "measure (\<lambda>(_, n, i, _, _, _). n - i)") auto

declare mic_loop.simps [simp del]

text \<open>The code over the deciphered frame, from which the CCMP header was removed.\<close>

definition frame_mic :: "bytes \<Rightarrow> bool \<Rightarrow> bool \<Rightarrow> nat \<Rightarrow> bytes \<Rightarrow> nat \<Rightarrow> bytes \<Rightarrow> bytes option" where
  "frame_mic key a4 qc HeaderLen PN payload_len pData =
     (let num_blocks = payload_len div 16; payload_remainder = payload_len mod 16;
          aes_out = aes128k128d key (construct_mic_iv qc a4 pData payload_len PN);
          aes_out = aes128k128d key (bitwise_xor aes_out (construct_mic_header1 HeaderLen pData));
          aes_out = aes128k128d key (bitwise_xor aes_out (construct_mic_header2 pData a4 qc))
      in Option.bind (mic_loop key num_blocks 0 HeaderLen pData aes_out) (\<lambda>aes_out.
           if payload_remainder > 0 then
             map_option (\<lambda>b. take 8 (aes128k128d key (bitwise_xor aes_out b)))
               (frame_block pData (HeaderLen + 16 * num_blocks) payload_remainder)
           else Some (take 8 aes_out)))"

definition RTMPSoftDecryptAES :: "bytes \<Rightarrow> u32 \<Rightarrow> CIPHER_KEY \<Rightarrow> (bool \<times> bytes) option" where
  "RTMPSoftDecryptAES pData DataByteCnt pWpaKey =
     (if length pData < 2 then None
      else
       (let a4 = a4_exists pData; qc = qos_subtype pData; HeaderLen = mac_header_len a4 qc
        in if KeyLen pWpaKey = 0 then Some (False, pData)
           else if length pData < HeaderLen + 8 \<or> length (Key pWpaKey) < 16 then None
           else
            (let PN = ccmp_pn (drop HeaderLen pData);
                 key = Key pWpaKey;
                 payload_len = unat (DataByteCnt - of_nat HeaderLen - 8 - 8);
                 payload_remainder = payload_len mod 16;
                 num_blocks = payload_len div 16;
                 ctr = (\<lambda>d c. construct_ctr_preload a4 qc d PN c);
                 payload_index = HeaderLen + 8
             in Option.bind (decrypt_loop ctr key num_blocks 0 payload_index pData) (\<lambda>d1.
                Option.bind (if payload_remainder > 0
                             then decrypt_frame_block key (ctr d1 (num_blocks + 1)) d1 (payload_index + 16 * num_blocks) payload_remainder
                             else Some d1) (\<lambda>d2.
                Option.bind (frame_block d2 (payload_index + payload_len) 8) (\<lambda>b.
                  let TrailMIC = take 8 (bitwise_xor (aes128k128d key (ctr d2 0)) b);
                      d3 = d2[1 := d2 ! 1 OR 0x40]
                  in map_option (\<lambda>MIC. (MIC = TrailMIC, d3)) (frame_mic key a4 qc HeaderLen PN payload_len d3)))))))"

section \<open>Deciphering the payload\<close>

lemma bitwise_xor_bytes: "length a = 16 \<Longrightarrow> length b = 16 \<Longrightarrow> bitwise_xor a b = xor_bytes b a"
  by (rule nth_equalityI) (simp_all add: bitwise_xor_def xor.commute)

lemma ccm_stream_block:
  assumes "\<And>b. length (E b) = 16" and "length CTR = 16"
  shows "16 * i + m \<le> n \<Longrightarrow> m \<le> 16 \<Longrightarrow>
    subarray (16 * i) m (ccm_stream E CTR n) = take m (E (CTR[15 := CTR ! 15 + of_nat (i + 1)]))"
  using assms(2)
proof (induction i arbitrary: CTR n)
  case 0
  then show ?case by (cases "n = 0") (subst ccm_stream.simps, simp add: subarray_def Let_def assms(1))+
next
  case (Suc i)
  define CTR' where "CTR' = CTR[15 := CTR ! 15 + 1]"
  have "ccm_stream E CTR n = take n (E CTR') @ ccm_stream E CTR' (n - 16)"
    using Suc.prems(1) by (subst ccm_stream.simps) (simp add: Let_def CTR'_def)
  moreover have "length (take n (E CTR')) = 16" using Suc.prems(1) assms(1) by simp
  moreover have "CTR'[15 := CTR' ! 15 + of_nat (i + 1)] = CTR[15 := CTR ! 15 + of_nat (Suc i + 1)]"
    using Suc.prems(3) by (simp add: CTR'_def add.assoc)
  ultimately show ?case
    using Suc.IH [of "n - 16" CTR'] Suc.prems by (simp add: subarray_def CTR'_def)
qed

lemma decrypt_frame_block_eq:
  assumes "length key = 16" and "length X = m" and "length h = 8" and "m + len \<le> length body" and "len \<le> 16"
  shows "decrypt_frame_block key ctr (hdr @ X @ drop m (h @ body)) (length hdr + 8 + m) len =
    Some (hdr @ (X @ xor_bytes (subarray m len body) (aes_E key ctr)) @ drop (m + len) (h @ body))"
proof -
  let ?b = "subarray m len body @ replicate (16 - len) 0"
  define R where "R = drop m (h @ body)"
  have R: "length R = 8 + length body - m" "drop (m + len) (h @ body) = drop len R" "drop 8 R = drop m body"
  proof -
    show "drop (m + len) (h @ body) = drop len R" by (metis R_def drop_drop add.commute)
    have "drop 8 R = drop m (drop 8 (h @ body))" by (metis R_def drop_drop add.commute)
    then show "drop 8 R = drop m body" using assms(3) by simp
  qed (simp add: R_def assms(3) del: drop_append)
  have x: "take len (xor_bytes ?b (aes_E key ctr)) = xor_bytes (subarray m len body) (aes_E key ctr)"
    using assms by (intro nth_equalityI) (simp_all add: nth_append)
  have "bitwise_xor (aes128k128d key ctr) ?b = xor_bytes ?b (aes_E key ctr)"
    using assms by (simp add: bitwise_xor_bytes aes128k128d_eq)
  moreover have "frame_block (hdr @ X @ R) (length hdr + 8 + m) len = Some ?b"
    using assms R by (simp add: frame_block_def subarray_def add.commute)
  ultimately show ?thesis
    using assms x R unfolding decrypt_frame_block_def R_def [symmetric]
    by (simp add: move_memory_def)
qed

lemma xor_extend:
  assumes "m + len \<le> length body" and "m + len \<le> length S" and "subarray m len S = take len K" and "len \<le> length K"
  shows "xor_bytes (take m body) S @ xor_bytes (subarray m len body) K = xor_bytes (take (m + len) body) S"
proof -
  have "xor_bytes (subarray m len body) K = xor_bytes (subarray m len body) (subarray m len S)"
    using assms xor_bytes_take [of "subarray m len body" K] by simp
  moreover have "xor_bytes (take m body) S = xor_bytes (take m body) (take m S)"
    using assms xor_bytes_take [of "take m body" S] by simp
  moreover have "xor_bytes (take (m + len) body) S = xor_bytes (take (m + len) body) (take (m + len) S)"
    using assms xor_bytes_take [of "take (m + len) body" S] by simp
  ultimately show ?thesis using assms by (simp add: take_add subarray_def xor_bytes_append)
qed

lemma decrypt_loop_eq:
  assumes key: "length key = 16" and h: "length h = 8" and body: "16 * num \<le> length body" "16 * num \<le> n"
    and ctr: "\<And>d c. ctr (hdr @ d) c = C c" and C: "\<And>i. i < num \<Longrightarrow> C (i + 1) = CTR[15 := CTR ! 15 + of_nat (i + 1)]"
    and CTR: "length CTR = 16"
  defines "S \<equiv> ccm_stream (aes_E key) CTR n"
  shows "i \<le> num \<Longrightarrow>
    decrypt_loop ctr key num i (length hdr + 8 + 16 * i) (hdr @ xor_bytes (take (16 * i) body) S @ drop (16 * i) (h @ body)) =
    Some (hdr @ xor_bytes (take (16 * num) body) S @ drop (16 * num) (h @ body))"
proof (induction "num - i" arbitrary: i)
  case 0
  then show ?case by (subst decrypt_loop.simps) simp
next
  case (Suc x)
  then have i: "i < num" by simp
  then have ib: "16 * i + 16 \<le> length body" "16 * i + 16 \<le> n" using body by linarith+
  let ?X = "xor_bytes (take (16 * i) body) S"
  have S: "length S = n" "subarray (16 * i) 16 S = take 16 (aes_E key (C (i + 1)))"
    unfolding S_def using ib CTR C [OF i] by (simp_all add: aes.length_ccm_stream ccm_stream_block)
  have "decrypt_frame_block key (C (i + 1)) (hdr @ ?X @ drop (16 * i) (h @ body)) (length hdr + 8 + 16 * i) 16 =
      Some (hdr @ xor_bytes (take (16 * i + 16) body) S @ drop (16 * i + 16) (h @ body))"
    using decrypt_frame_block_eq [OF key _ h, of ?X "16 * i" 16 body "C (i + 1)" hdr] ib S
      xor_extend [of "16 * i" 16 body S "aes_E key (C (i + 1))"] by simp
  moreover have "decrypt_loop ctr key num (i + 1) (length hdr + 8 + 16 * (i + 1))
      (hdr @ xor_bytes (take (16 * (i + 1)) body) S @ drop (16 * (i + 1)) (h @ body)) =
    Some (hdr @ xor_bytes (take (16 * num) body) S @ drop (16 * num) (h @ body))"
    using Suc i by (intro Suc.hyps) auto
  ultimately show ?case using i
    by (subst decrypt_loop.simps) (simp add: ctr add.commute add.left_commute del: drop_append)
qed


section \<open>The integrity code\<close>

lemma length_blocks [simp]:
  "length (construct_mic_header1 n d) = 16" "length (construct_mic_header2 d a4 qc) = 16"
  "length (construct_mic_iv qc a4 d n pn) = 16" "length (construct_ctr_preload a4 qc d pn c) = 16"
  by (simp_all add: construct_mic_header1_def construct_mic_header2_def construct_mic_iv_def construct_ctr_preload_def Let_def)

lemma cbc_mac_Cons: "cbc_mac E X (B # Bs) = cbc_mac E (E (xor_bytes B X)) Bs"
  by (simp add: cbc_mac_def)

lemma mic_loop_eq:
  assumes "length key = 16" and "16 * num \<le> length P"
  shows "i \<le> num \<Longrightarrow> length X = 16 \<Longrightarrow> mic_loop key num i (length H + 16 * i) (H @ P @ R) X =
    Some (cbc_mac (aes_E key) X (map (\<lambda>j. subarray (16 * j) 16 P) [i..<num]))"
proof (induction "num - i" arbitrary: i X)
  case 0
  then show ?case by (subst mic_loop.simps) (simp add: cbc_mac_def)
next
  case (Suc x)
  then have i: "i < num" and ib: "16 * i + 16 \<le> length P" using assms(2) by auto
  define B where "B = subarray (16 * i) 16 P"
  have B: "length B = 16" using ib by (simp add: B_def)
  have "frame_block (H @ P @ R) (length H + 16 * i) 16 = Some B"
    using ib by (simp add: frame_block_def B_def subarray_def)
  moreover have "mic_loop key num (i + 1) (length H + 16 * (i + 1)) (H @ P @ R) (aes_E key (xor_bytes B X)) =
      Some (cbc_mac (aes_E key) (aes_E key (xor_bytes B X)) (map (\<lambda>j. subarray (16 * j) 16 P) [i + 1..<num]))"
    by (rule Suc.hyps) (use Suc i in auto)
  ultimately show ?case using i B Suc.prems assms(1)
    by (subst mic_loop.simps)
      (simp add: bitwise_xor_bytes aes128k128d_eq cbc_mac_Cons B_def [symmetric] upt_conv_Cons add.commute add.left_commute)
qed

lemma blocks16_pad16:
  "blocks16 (pad16 P) = map (\<lambda>j. subarray (16 * j) 16 P) [0..<length P div 16] @
     (if length P mod 16 > 0 then [drop (16 * (length P div 16)) P @ replicate (16 - length P mod 16) 0] else [])"
proof (induction "length P" arbitrary: P rule: less_induct)
  case less
  show ?case
  proof (cases "length P < 16")
    case True
    then show ?thesis
    proof (cases "P = []")
      case False
      then show ?thesis using True by (simp add: pad16_last)
    qed (simp add: pad16_def blocks16_short)
  next
    case False
    define Q where "Q = drop 16 P"
    have P: "P = take 16 P @ Q" "length (take 16 P) = 16" "length P = length Q + 16" using False by (simp_all add: Q_def)
    have "blocks16 (pad16 P) = take 16 P # blocks16 (pad16 Q)"
      using pad16_block [OF P(2), of Q] P(1) by simp
    also have "blocks16 (pad16 Q) = map (\<lambda>j. subarray (16 * j) 16 Q) [0..<length Q div 16] @
       (if length Q mod 16 > 0 then [drop (16 * (length Q div 16)) Q @ replicate (16 - length Q mod 16) 0] else [])"
      by (rule less) (use P in simp)
    also have "map (\<lambda>j. subarray (16 * j) 16 Q) [0..<length Q div 16] = map (\<lambda>j. subarray (16 * j) 16 P) [Suc 0..<length P div 16]"
    proof -
      have "length P div 16 = Suc (length Q div 16)" using P(3) by simp
      moreover have "subarray (16 * Suc j) 16 P = subarray (16 * j) 16 Q" for j
        by (simp add: subarray_def Q_def add.commute)
      ultimately show ?thesis by (simp add: map_Suc_upt [symmetric] del: upt_Suc)
    qed
    also have "drop (16 * (length Q div 16)) Q = drop (16 * (length P div 16)) P"
    proof -
      have "length P div 16 = Suc (length Q div 16)" using P(3) by simp
      then have "16 * (length P div 16) = 16 * (length Q div 16) + 16" by simp
      then show ?thesis by (simp only: Q_def drop_drop)
    qed
    also have "length Q mod 16 = length P mod 16" unfolding P(3) by simp
    finally show ?thesis unfolding P(3) by (simp add: upt_conv_Cons subarray_def del: upt_Suc)
  qed
qed

lemma frame_mic_eq:
  assumes "length key = 16" and "length P = n"
  shows "frame_mic key a4 qc (length H) PN n (H @ P @ R) =
    Some (take 8 (cbc_mac (aes_E key) (replicate 16 0)
      (construct_mic_iv qc a4 (H @ P @ R) n PN # construct_mic_header1 (length H) (H @ P @ R) #
       construct_mic_header2 (H @ P @ R) a4 qc # blocks16 (pad16 P))))"
proof -
  define X where "X = cbc_mac (aes_E key) (replicate 16 0)
      [construct_mic_iv qc a4 (H @ P @ R) n PN, construct_mic_header1 (length H) (H @ P @ R),
       construct_mic_header2 (H @ P @ R) a4 qc]"
  define Y where "Y = cbc_mac (aes_E key) X (map (\<lambda>j. subarray (16 * j) 16 P) [0..<n div 16])"
  have zero: "xor_bytes b (replicate 16 0) = b" if "length b = 16" for b using that by (intro nth_equalityI) simp_all
  have X: "X = aes_E key (xor_bytes (construct_mic_header2 (H @ P @ R) a4 qc) (aes_E key
      (xor_bytes (construct_mic_header1 (length H) (H @ P @ R)) (aes_E key (construct_mic_iv qc a4 (H @ P @ R) n PN)))))"
    by (simp add: X_def cbc_mac_def zero)
  have Y: "length Y = 16" unfolding Y_def by (cases "n div 16") (simp_all add: cbc_mac_def X)
  have "mic_loop key (n div 16) 0 (length H) (H @ P @ R) X = Some Y"
    using mic_loop_eq [OF assms(1), of "n div 16" P 0 X H R] assms(2) by (simp add: Y_def X)
  moreover have "frame_block (H @ P @ R) (length H + 16 * (n div 16)) (n mod 16) =
      Some (drop (16 * (n div 16)) P @ replicate (16 - n mod 16) 0)"
    using assms(2) by (simp add: frame_block_def) (simp add: minus_mult_div_eq_mod)
  moreover have "length (drop (16 * (n div 16)) P @ replicate (16 - n mod 16) 0) = 16"
    using assms(2) by (simp add: minus_mult_div_eq_mod)
  moreover have "cbc_mac (aes_E key) X (blocks16 (pad16 P)) =
      (if n mod 16 > 0 then aes_E key (xor_bytes (drop (16 * (n div 16)) P @ replicate (16 - n mod 16) 0) Y) else Y)"
    using assms(2) by (simp add: blocks16_pad16 cbc_mac_def Y_def)
  moreover have "cbc_mac (aes_E key) (replicate 16 0) (construct_mic_iv qc a4 (H @ P @ R) n PN #
      construct_mic_header1 (length H) (H @ P @ R) # construct_mic_header2 (H @ P @ R) a4 qc # Bs) =
      cbc_mac (aes_E key) X Bs" for Bs
    by (simp add: X_def cbc_mac_def)
  ultimately show ?thesis using assms Y
    unfolding frame_mic_def Let_def
    by (simp add: aes128k128d_eq bitwise_xor_bytes X [symmetric] del: append_assoc)
qed


section \<open>The blocks are those of CCM\<close>

lemma foldl_update_shift:
  "m \<le> length N \<Longrightarrow> length N \<le> length R \<Longrightarrow>
   foldl (\<lambda>B i. B[i + 1 := N ! i]) (x # R) [0..<m] = x # take m N @ drop m R"
proof (induction m)
  case (Suc m)
  have "(take m N @ drop m R)[m := N ! m] = take (Suc m) N @ drop (Suc m) R"
    using Suc.prems by (simp add: list_update_append take_Suc_conv_app_nth Cons_nth_drop_Suc [symmetric])
  then show ?case using Suc by simp
qed simp

lemma replicate_16: "replicate 16 (0 :: u8) = 0 # replicate 15 0"
  by (simp add: numeral_eq_Suc)

lemma replicate_2: "replicate 2 (0 :: u8) = [0, 0]"
  by (simp add: numeral_2_eq_2)

lemma ccm_CTR0_13: "length N = 13 \<Longrightarrow> ccm_CTR0 N 13 = 0x01 # N @ [0, 0]"
  using foldl_update_shift [of 13 N "replicate 15 0" 1] by (simp add: ccm_CTR0_def replicate_16 replicate_2)

lemma ccm_B0_13:
  assumes "length N = 13" and "0 < AADLength"
  shows "ccm_B0 N 13 AADLength PL 8 = 0x59 # N @ [ucast (drop_bit 8 PL), ucast PL]"
proof -
  have "foldl (\<lambda>B i. B[i + 1 := N ! i]) (0x59 # replicate 15 0) [0..<13] = 0x59 # N @ [0, 0]"
    using foldl_update_shift [of 13 N "replicate 15 0" "0x59"] assms(1) by (simp add: replicate_2)
  then show ?thesis
    using assms by (simp add: ccm_B0_def replicate_16 Let_def low_byte list_update_append)
qed

lemma take_drop_nth: "m + k \<le> length xs \<Longrightarrow> take k (drop m xs) = map (\<lambda>i. xs ! (m + i)) [0..<k]"
  by (rule nth_equalityI) simp_all

definition nonce_priority :: "bytes \<Rightarrow> bool \<Rightarrow> bool \<Rightarrow> u8" where
  "nonce_priority hdr a4 qc = (if qc \<and> a4 then hdr ! 30 AND 0x0f else if qc \<and> \<not> a4 then hdr ! 24 AND 0x0f else 0)"

lemma nonce_bytes:
  assumes "16 \<le> length hdr"
  shows "nonce_priority hdr a4 qc # map (\<lambda>i. hdr ! (i + 8)) [2..<8] @ map (\<lambda>i. pn ! (13 - i)) [8..<14] =
    RTMPConstructCCMPNonce hdr a4 qc pn (replicate 13 0)"
  using assms by (simp add: RTMPConstructCCMPNonce_def nonce_priority_def MAC_ADDR_LEN_def take_drop_nth upt_rec)

lemma nth_header:
  assumes "mac_header_len a4 qc \<le> length hdr"
  shows "nonce_priority (hdr @ d) a4 qc = nonce_priority hdr a4 qc"
    and "map (\<lambda>i. (hdr @ d) ! (i + 8)) [2..<8] = map (\<lambda>i. hdr ! (i + 8)) [2..<8]"
    and "map (\<lambda>i. hdr[1 := x] ! (i + 8)) [2..<8] = map (\<lambda>i. hdr ! (i + 8)) [2..<8]"
    and "nonce_priority (hdr[1 := x]) a4 qc = nonce_priority hdr a4 qc"
  using assms by (auto simp: nonce_priority_def mac_header_len_def nth_append)

lemma ctr_preload_nonce:
  assumes "mac_header_len a4 qc \<le> length hdr" and "c < 256"
  shows "construct_ctr_preload a4 qc (hdr @ d) pn c =
    0x01 # RTMPConstructCCMPNonce hdr a4 qc pn (replicate 13 0) @ [0, of_nat c]"
proof -
  have "16 \<le> length hdr" using assms(1) mac_header_len_ge [of a4 qc] by linarith
  from nonce_bytes [OF this, of a4 qc pn, symmetric] show ?thesis
    using assms(2) unfolding construct_ctr_preload_def
    by (simp only: nonce_priority_def [symmetric] nth_header [OF assms(1)] append_Cons append_Nil append_assoc)
      (simp add: nonce_priority_def)
qed

lemma ctr_preload_append:
  assumes "mac_header_len a4 qc \<le> length hdr"
  shows "construct_ctr_preload a4 qc (hdr @ d) pn c = construct_ctr_preload a4 qc hdr pn c"
  using nth_header(1,2) [OF assms] unfolding construct_ctr_preload_def nonce_priority_def by simp

lemma mic_iv_nonce:
  assumes "mac_header_len a4 qc \<le> length hdr"
  shows "construct_mic_iv qc a4 (hdr[1 := x] @ d) n pn =
    0x59 # RTMPConstructCCMPNonce hdr a4 qc pn (replicate 13 0) @ [of_nat (n div 256), of_nat (n mod 256)]"
proof -
  have "16 \<le> length hdr" using assms(1) mac_header_len_ge [of a4 qc] by linarith
  from nonce_bytes [OF this, of a4 qc pn, symmetric] show ?thesis
    using assms nth_header(1,2) [of a4 qc "hdr[1 := x]"] nth_header(3,4) [OF assms, of x] unfolding construct_mic_iv_def
    by (simp only: nonce_priority_def [symmetric] append_Cons append_Nil append_assoc)
      (simp add: nonce_priority_def)
qed

lemma mask_subtype: "\<not> bit x 6 \<Longrightarrow> x AND 0xcf = x AND 0x8f" for x :: u8
proof -
  assume "\<not> bit x 6"
  have "bit (0xcf :: u8) n = (n < 8 \<and> (bit (0x8f :: u8) n \<or> n = 6))" if "n < 8" for n
  proof -
    have "n \<in> {0, 1, 2, 3, 4, 5, 6, 7}" using that by auto
    then show ?thesis by (auto simp: bit_iff_odd)
  qed
  with \<open>\<not> bit x 6\<close> show ?thesis by (intro bit_word_eqI) (auto simp: bit_and_iff)
qed

lemma mask_protected: "(x OR 0x40) AND 0xc7 = (x AND 0xc7) OR 0x40" for x :: u8
  by (simp add: bit.conj_disj_distrib2)


lemma replicate_pads:
  "replicate 8 (0 :: u8) = [0, 0, 0, 0, 0, 0, 0, 0]" "replicate 6 (0 :: u8) = [0, 0, 0, 0, 0, 0]"
  "replicate 16 (0 :: u8) = [0, 0, 0, 0, 0, 0, 0, 0, 0, 0, 0, 0, 0, 0, 0, 0]"
  by (simp_all add: numeral_eq_Suc)

lemma aad_header_blocks:
  assumes len: "length hdr = mac_header_len a4 qc" and sub: "\<not> bit (hdr ! 0) 6"
  defines "d \<equiv> hdr[1 := hdr ! 1 OR 0x40]"
  shows "pad16 ([0, of_nat (length hdr - 2)] @ RTMPConstructCCMPAAD hdr True a4 qc) =
    construct_mic_header1 (length hdr) d @ construct_mic_header2 d a4 qc"
proof -
  have "d ! i = (if i = 1 then hdr ! 1 OR 0x40 else hdr ! i)" if "i < 24" for i
    using that len by (auto simp: d_def mac_header_len_def)
  then have nth: "d ! 0 = hdr ! 0" "d ! Suc 0 = hdr ! Suc 0 OR 0x40" by simp_all
  then have one: "d ! Suc 0 AND 0xc7 = (hdr ! Suc 0 AND 0xc7) OR 0x40" using mask_protected [of "hdr ! 1"] by simp
  have other: "d ! i = hdr ! i" if "i \<noteq> 1" for i using that by (simp add: d_def)
  have fc: "hdr ! 0 AND 0xcf = hdr ! 0 AND 0x8f" using sub by (rule mask_subtype)
  have len4: "length hdr \<in> {24, 26, 30, 32}" using len by (auto simp: mac_header_len_def)
  have c18: "take 18 (drop 4 hdr) = map (\<lambda>i. hdr ! (4 + i)) [0..<18]" using len4 by (intro take_drop_nth) auto
  have c6: "take 6 (drop 24 hdr) = map (\<lambda>i. hdr ! (24 + i)) [0..<6]" if a4
    using that len by (intro take_drop_nth) (auto simp: mac_header_len_def)
  show ?thesis
    using len c18 c6 unfolding RTMPConstructCCMPAAD_def construct_mic_header1_def construct_mic_header2_def Let_def
    by (cases a4; cases qc)
      (simp_all add: MAC_ADDR_LEN_def mac_header_len_def pad16_def upt_rec replicate_pads replicate_2 nth(1) other fc one)
qed


lemma header_blocks_append:
  assumes "mac_header_len a4 qc \<le> length d"
  shows "construct_mic_header1 n (d @ r) = construct_mic_header1 n d"
    and "construct_mic_header2 (d @ r) a4 qc = construct_mic_header2 d a4 qc"
  using assms by (auto simp: construct_mic_header1_def construct_mic_header2_def Let_def mac_header_len_def nth_append upt_rec)

lemma mic_blocks_formatted:
  fixes hdr P R pn :: bytes
  assumes len: "length hdr = mac_header_len a4 qc" and sub: "\<not> bit (hdr ! 0) 6" and P: "length P < 2 ^ 16"
  defines "d \<equiv> hdr[1 := hdr ! 1 OR 0x40] @ P @ R"
  defines "N \<equiv> RTMPConstructCCMPNonce hdr a4 qc pn (replicate 13 0)" and "A \<equiv> RTMPConstructCCMPAAD hdr True a4 qc"
  shows "construct_mic_iv qc a4 d (length P) pn # construct_mic_header1 (length hdr) d # construct_mic_header2 d a4 qc #
    blocks16 (pad16 P) = ccm_formatted N A P 8"
proof -
  have "24 \<le> length hdr" using len mac_header_len_ge by simp
  then have N: "length N = 13" by (simp add: N_def length_ccmp)
  have A: "length A = length hdr - 2" "A \<noteq> []" "length A < 256"
    using len length_ccmp(1) [of a4 qc hdr True] by (auto simp: A_def mac_header_len_def)
  let ?w = "of_nat (length P) :: u32"
  have u: "unat ?w = length P" using P by (simp add: unat_of_nat)
  have "(of_nat (length P mod 256) :: u8) = of_nat (length P)" by (simp add: word_unat_eq_iff unat_of_nat take_bit_eq_mod)
  then have low: "(ucast ?w :: u8) = of_nat (length P mod 256)" using u by (metis of_nat_unat)
  have high: "(ucast (drop_bit 8 ?w) :: u8) = of_nat (length P div 256)"
  proof -
    have "unat (drop_bit 8 ?w) = length P div 256" by (simp add: drop_bit_eq_div unat_div u)
    then show ?thesis by (metis of_nat_unat)
  qed
  have "0 < (of_nat (length A) :: u32)"
  proof -
    have "unat (of_nat (length A) :: u32) = length A" using A(3) by (subst unat_of_nat) simp
    then show ?thesis using A(2) by (simp add: word_less_nat_alt del: length_greater_0_conv) simp
  qed
  then have "ccm_B0 N 13 (of_nat (length A)) ?w 8 = 0x59 # N @ [of_nat (length P div 256), of_nat (length P mod 256)]"
    using ccm_B0_13 [OF N] by (simp add: low high)
  then have B0: "construct_mic_iv qc a4 d (length P) pn = ccm_B0 N (of_nat (length N)) (of_nat (length A)) ?w (of_nat 8)"
    using mic_iv_nonce [of a4 qc hdr] len N by (simp add: d_def N_def)
  have pad: "pad16 ([0, of_nat (length hdr - 2)] @ A) = construct_mic_header1 (length hdr) d @ construct_mic_header2 d a4 qc"
    using aad_header_blocks [OF len sub] header_blocks_append [of a4 qc "hdr[1 := hdr ! 1 OR 0x40]"] len
    by (simp add: d_def A_def)
  have two: "blocks16 (a @ b) = [a, b]" if "length a = 16" "length b = 16" for a b
    using that by (simp add: blocks16_Cons blocks16_short)
  have "blocks16 (pad16 ([of_nat (length A div 256), of_nat (length A)] @ A)) =
      [construct_mic_header1 (length hdr) d, construct_mic_header2 d a4 qc]"
  proof -
    have "[of_nat (length A div 256), of_nat (length A)] @ A = [0, of_nat (length hdr - 2)] @ A" using A(1,3) by simp
    then show ?thesis by (simp only: pad two length_blocks)
  qed
  then show ?thesis using A(2) by (simp add: ccm_formatted_def B0)
qed


section \<open>The two decryptions agree\<close>

lemma ccm_decrypt_value:
  assumes key: "length key = 16" and N: "length N = 13" and A: "length A < 0xFF00" and body: "length body = n + 8" and n: "n + 16 < 2 ^ 16"
  defines "p \<equiv> xor_bytes (take n body) (ccm_stream (aes_E key) (ccm_CTR0 N 13) n)"
  shows "AES_CCM_Decrypt body (of_nat n + 8) key 16 N 13 A (of_nat (length A)) 8 (of_nat n + 16) =
    (if xor_bytes (drop n body) (aes_E key (ccm_CTR0 N 13)) \<noteq> take 8 (cbc_mac (aes_E key) (replicate 16 0) (ccm_formatted N A p 8))
     then -5 else 0, Some (p, of_nat n))"
proof -
  let ?w = "of_nat n :: u32"
  have u: "unat ?w = n" using n by (simp add: unat_of_nat)
  have "unat (of_nat (n + 16) :: u32) = n + 16" using n by (simp add: unat_of_nat del: of_nat_add)
  then have cap: "\<not> ?w + 16 < ?w" by (simp add: word_less_nat_alt u)
  have p: "length p = n" using body by (simp add: p_def aes.length_ccm_stream)
  have "AES_CCM_MAC p ?w key 16 N 13 A (of_nat (length A)) 8 =
      take 8 (cbc_mac (aes_E key) (replicate 16 0) (ccm_formatted N A p 8))"
    using AES_CCM_MAC_correct [OF key, of N A p 8] N A p n by simp
  moreover have "ccm_ctr_loop (aes_E key) body n (ccm_CTR0 N 13) 0 [] = p"
    using aes.ccm_ctr_loop_eq [of n body 0] body by (simp add: p_def subarray_def)
  ultimately show ?thesis
    using key cap u body
    by (simp add: AES_CCM_Decrypt_def encrypted_block_16 Let_def valid_MACLength_def subarray_def)
qed

text \<open>What a frame is deciphered to, and the place of its trailer.\<close>

lemma aes_decrypt_payload:
  fixes hdr h body pn key :: bytes
  assumes key: "length key = 16" and H: "mac_header_len a4 qc \<le> length hdr" and h: "length h = 8" and body: "length body = n + 8" and n: "n \<le> 4080"
  defines "N \<equiv> RTMPConstructCCMPNonce hdr a4 qc pn (replicate 13 0)"
  defines "p \<equiv> xor_bytes (take n body) (ccm_stream (aes_E key) (ccm_CTR0 N 13) n)"
  defines "ctr \<equiv> (\<lambda>d c. construct_ctr_preload a4 qc d pn c)"
  shows "Option.bind (decrypt_loop ctr key (n div 16) 0 (length hdr + 8) (hdr @ h @ body)) (\<lambda>d1.
      if n mod 16 > 0 then decrypt_frame_block key (ctr d1 (n div 16 + 1)) d1 (length hdr + 8 + 16 * (n div 16)) (n mod 16)
      else Some d1) = Some (hdr @ p @ drop n (h @ body))"
proof -
  have "16 \<le> length hdr" using H mac_header_len_ge [of a4 qc] by linarith
  then have N: "length N = 13" by (simp add: N_def length_ccmp)
  define CTR where "CTR = ccm_CTR0 N 13"
  define S where "S = ccm_stream (aes_E key) CTR n"
  define m where "m = 16 * (n div 16)"
  have m: "m \<le> n" "m + n mod 16 = n" "n div 16 \<le> 255" using n by (auto simp: m_def)
  have CTR: "length CTR = 16" "CTR ! 15 = 0" and upd: "CTR[15 := of_nat c] = 0x01 # N @ [0, of_nat c]" for c
    using N by (simp_all add: CTR_def ccm_CTR0_13 nth_append list_update_append)
  have C: "ctr (hdr @ d) c = CTR[15 := CTR ! 15 + of_nat c]" if "c < 256" for d c
    using that H by (simp add: ctr_def ctr_preload_nonce CTR(2) upd flip: N_def)
  have loop: "decrypt_loop ctr key (n div 16) 0 (length hdr + 8) (hdr @ h @ body) =
      Some (hdr @ xor_bytes (take m body) S @ drop m (h @ body))"
    using decrypt_loop_eq [OF key h, of "n div 16" body n ctr hdr "\<lambda>c. ctr hdr c" CTR 0] C [where d = "[]"] CTR m body H
    by (simp add: S_def m_def ctr_def ctr_preload_append)
  show ?thesis
  proof (cases "n mod 16 > 0")
    case True
    then have "n \<noteq> 4080" by auto
    then have last: "n div 16 + 1 < 256" using n by (simp add: div_less_iff_less_mult)
    have S: "length S = n" "subarray m (n mod 16) S = take (n mod 16) (aes_E key (ctr (hdr @ d) (n div 16 + 1)))" for d
      using ccm_stream_block [of "aes_E key" CTR "n div 16" "n mod 16" n] C [OF last] CTR m
      by (simp_all add: S_def m_def aes.length_ccm_stream)
    have "decrypt_frame_block key (ctr d1 (n div 16 + 1)) (hdr @ xor_bytes (take m body) S @ drop m (h @ body)) (length hdr + 8 + m) (n mod 16)
        = Some (hdr @ p @ drop n (h @ body))" if "d1 = hdr @ d" for d d1
      using decrypt_frame_block_eq [OF key _ h, of "xor_bytes (take m body) S" m "n mod 16" body "ctr d1 (n div 16 + 1)" hdr]
        xor_extend [of m "n mod 16" body S "aes_E key (ctr d1 (n div 16 + 1))"] S(1) S(2) [of d] m body that
      by (simp add: p_def S_def [symmetric] CTR_def [symmetric] del: drop_append)
    then show ?thesis using True by (simp add: loop m_def [symmetric] del: drop_append)
  next
    case False
    then show ?thesis using m by (simp add: loop p_def S_def CTR_def del: drop_append)
  qed
qed


lemma qos_data: "frame_type hdr = BTYPE_DATA \<Longrightarrow> qos_subtype hdr = qc_exists hdr"
  by (simp add: qc_exists_def)

lemma header_fields_append:
  "2 \<le> length hdr \<Longrightarrow> a4_exists (hdr @ d) = a4_exists hdr" "2 \<le> length hdr \<Longrightarrow> qos_subtype (hdr @ d) = qos_subtype hdr"
  by (auto simp: a4_exists_def qos_subtype_def from_ds_def to_ds_def frame_subtype_def nth_append)

lemma RTMPSoftDecryptAES_eq:
  fixes hdr h body :: bytes
  assumes ok: "ccmp_frame_ok k hdr" and len: "length hdr = mac_header_len (a4_exists hdr) (qc_exists hdr)"
    and data: "frame_type hdr = BTYPE_DATA" and sub: "\<not> bit (hdr ! 0) 6"
    and h: "length h = 8" and body: "length body = n + 8" and n: "n \<le> 4080"
  defines "N \<equiv> ccmp_nonce hdr (ccmp_pn h)"
  defines "p \<equiv> xor_bytes (take n body) (ccm_stream (aes_E (Key k)) (ccm_CTR0 N 13) n)"
  shows "RTMPSoftDecryptAES (hdr @ h @ body) (of_nat (length hdr + n + 16)) k =
    Some (xor_bytes (drop n body) (aes_E (Key k) (ccm_CTR0 N 13)) =
        take 8 (cbc_mac (aes_E (Key k)) (replicate 16 0) (ccm_formatted N (ccmp_aad hdr) p 8)),
      hdr[1 := hdr ! 1 OR 0x40] @ p @ drop n (h @ body))"
proof -
  note k = ccmp_frame_okD [OF ok]
  let ?a4 = "a4_exists hdr" let ?qc = "qc_exists hdr" let ?H = "length hdr"
  let ?frame = "hdr @ h @ body" let ?d2 = "hdr @ p @ drop n (h @ body)"
  have N: "length N = 13" using k(5) by (simp add: N_def)
  have p: "length p = n" using body by (simp add: p_def aes.length_ccm_stream)
  have fields: "a4_exists ?frame = ?a4" "qos_subtype ?frame = ?qc"
    using k(4) data by (simp_all add: header_fields_append qos_data)
  have "unat (of_nat (n :: nat) :: u32) = n" using n by (simp add: unat_of_nat)
  moreover have "(of_nat (?H + n + 16) :: u32) - of_nat ?H - 8 - 8 = of_nat n" by simp
  ultimately have payload: "unat ((of_nat (?H + n + 16) :: u32) - of_nat ?H - 8 - 8) = n" by metis
  have pn: "ccmp_pn (drop ?H ?frame) = ccmp_pn h" using h by (simp add: ccmp_pn_def nth_append)
  let ?ctr = "\<lambda>d c. construct_ctr_preload ?a4 ?qc d (ccmp_pn h) c"
  have dec: "Option.bind (decrypt_loop ?ctr (Key k) (n div 16) 0 (?H + 8) ?frame) (\<lambda>d1.
      Option.bind (if n mod 16 > 0 then decrypt_frame_block (Key k) (?ctr d1 (n div 16 + 1)) d1 (?H + 8 + 16 * (n div 16)) (n mod 16)
        else Some d1) f) = f ?d2" for f
    using aes_decrypt_payload [OF k(2,3) h body n, of "ccmp_pn h", folded ccmp_nonce_def N_def p_def]
    by (simp add: p_def flip: Option.bind_assoc)
  have trailer: "frame_block ?d2 (?H + 8 + n) 8 = Some (drop n body @ replicate 8 0)"
  proof -
    have "drop 8 (drop n (h @ body)) = drop n body" using h by (metis append_eq_conv_conj drop_drop add.commute)
    moreover have "drop (?H + 8 + n) (hdr @ p @ r) = drop 8 r" for r using p by simp
    ultimately have "drop (?H + 8 + n) ?d2 = drop n body" by metis
    then show ?thesis using p h body by (simp add: frame_block_def del: drop_append)
  qed
  have ctr0: "?ctr ?d2 0 = ccm_CTR0 N 13"
    using ctr_preload_nonce [OF k(3), of 0] N by (simp add: ccm_CTR0_13 N_def ccmp_nonce_def)
  have trail: "take 8 (bitwise_xor (aes128k128d (Key k) (?ctr ?d2 0)) (drop n body @ replicate 8 0)) =
      xor_bytes (drop n body) (aes_E (Key k) (ccm_CTR0 N 13))"
    unfolding ctr0 aes128k128d_eq [OF k(2)] using body
    by (intro nth_equalityI) (simp_all add: bitwise_xor_bytes nth_append)
  have d3: "?d2[1 := ?d2 ! 1 OR 0x40] = hdr[1 := hdr ! 1 OR 0x40] @ p @ drop n (h @ body)"
    using k(4) by (simp add: list_update_append nth_append del: drop_append)
  have mic: "frame_mic (Key k) ?a4 ?qc ?H (ccmp_pn h) n (hdr[1 := hdr ! 1 OR 0x40] @ p @ drop n (h @ body)) =
      Some (take 8 (cbc_mac (aes_E (Key k)) (replicate 16 0) (ccm_formatted N (ccmp_aad hdr) p 8)))"
    using frame_mic_eq [OF k(2) p, of ?a4 ?qc "hdr[1 := hdr ! 1 OR 0x40]"] p n
      mic_blocks_formatted [OF len sub, of p "drop n (h @ body)" "ccmp_pn h"] data
    by (simp add: N_def ccmp_nonce_def ccmp_aad_def del: drop_append)
  show ?thesis
    using k len h body unfolding RTMPSoftDecryptAES_def Let_def fields len [symmetric] payload pn
    by (simp add: dec trailer trail d3 mic del: of_nat_add drop_append One_nat_def) (rule eq_commute)
qed


text \<open>
  C38. The two CCMP decryptions of the driver agree. On a data frame whose subtype has bit 6 of its first
  byte clear, with at most 4080 bytes of data, \<open>RTMPSoftDecryptAES\<close> accepts if and only if \<open>RTMPSoftDecryptCCMP\<close> does,
  both leave the same bytes behind the header, and the first sets the protected bit in the header. So the
  shift-based cipher with round keys computed on the way, the hand-built blocks and the deciphering
  in place of the one compute what the table-based cipher and the general CCM of the
  other compute.
\<close>

theorem soft_aes_agrees:
  assumes "ccmp_frame_ok k hdr" and "length hdr = mac_header_len (a4_exists hdr) (qc_exists hdr)"
    and "frame_type hdr = BTYPE_DATA" and "\<not> bit (hdr ! 0) 6"
    and "length h = 8" and "length body = n + 8" and "n \<le> 4080"
  shows "\<exists>ok d cnt. RTMPSoftDecryptCCMP hdr k (h @ body) (of_nat n + 16) = Some (ok, d, cnt) \<and>
    RTMPSoftDecryptAES (hdr @ h @ body) (of_nat (length hdr + n + 16)) k =
      Some (ok, hdr[1 := hdr ! 1 OR 0x40] @ d)"
proof -
  let ?N = "ccmp_nonce hdr (ccmp_pn h)" let ?A = "ccmp_aad hdr"
  have "length ?A < 0xFF00"
    using length_ccmp(1) [of "a4_exists hdr" "qc_exists hdr" hdr] assms(2) by (simp add: ccmp_aad_def mac_header_len_def)
  moreover have "n + 16 < 2 ^ 16" using assms(7) by simp
  moreover have "length (xor_bytes (take n body) (ccm_stream (aes_E (Key k)) (ccm_CTR0 ?N 13) n)) = n"
    using assms(6) by (simp add: aes.length_ccm_stream)
  ultimately show ?thesis
    using RTMPSoftDecryptAES_eq [OF assms] ccmp_decrypt_eq [OF assms(1) _ assms(5,6)]
      ccm_decrypt_value [OF ccmp_frame_okD(2,5) [OF assms(1)] _ assms(6), of ?A]
    by (simp del: drop_append One_nat_def of_nat_add)
qed

text \<open>A QoS data frame with four addresses and 20 bytes of data.\<close>

lemma soft_aes_agrees_witness:
  "\<exists>ok d cnt. RTMPSoftDecryptCCMP (0x88 # 0x43 # replicate 30 5) ex_ccmp_key (replicate 8 1 @ replicate 28 2) (of_nat 20 + 16)
      = Some (ok, d, cnt) \<and>
    RTMPSoftDecryptAES ((0x88 # 0x43 # replicate 30 5) @ replicate 8 1 @ replicate 28 2)
      (of_nat (length (0x88 # 0x43 # replicate 30 (5 :: u8)) + 20 + 16)) ex_ccmp_key =
      Some (ok, (0x88 # 0x43 # replicate 30 5)[1 := (0x88 # 0x43 # replicate 30 5) ! 1 OR 0x40] @ d)"
  by (rule soft_aes_agrees)
    (simp_all add: ccmp_frame_ok_def ex_ccmp_key_def mac_header_len_def a4_exists_def qc_exists_def qos_subtype_def
      from_ds_def to_ds_def frame_type_def frame_subtype_def BTYPE_DATA_def bit_iff_odd drop_bit_eq_div)


text \<open>
  Beyond 255 blocks the general CCM repeats its key stream, since only the last byte of its counter
  is increased.
\<close>

lemma ccm_keystream_repeats:
  assumes "length CTR = 16" and "16 * (i + 256) + 16 \<le> n"
  shows "subarray (16 * (i + 256)) 16 (ccm_stream (aes_E key) CTR n) = subarray (16 * i) 16 (ccm_stream (aes_E key) CTR n)"
proof -
  have "(of_nat (i + 1 + 256) :: u8) = of_nat (i + 1)" by (subst of_nat_add) simp
  then have "(of_nat (i + 256 + 1) :: u8) = of_nat (i + 1)" by (simp only: ac_simps)
  then show ?thesis
    using ccm_stream_block [of "aes_E key" CTR "i + 256" 16 n] ccm_stream_block [of "aes_E key" CTR i 16 n] assms
    by (simp del: of_nat_add)
qed

end
