(* ===== verification/Dab_Commands.thy ===== *)
theory Dab_Commands
  imports Cpp_Std
begin

text \<open>
  The replies of the DAB tuner (\<open>rgbclock/RgbLib/src/lib/cmd\<close>): each class parses the bytes of one
  reply. A constructor that reads behind the end of the reply is \<open>None\<close>. \<open>DABStatus\<close> leaves two members
  without an initial value; what is found in them is the parameter \<open>junk\<close>.
\<close>

section \<open>Numbers in a reply\<close>

definition u16_at :: "bytes \<Rightarrow> nat \<Rightarrow> u16" where
  "u16_at data i = push_bit 8 (ucast (data ! (i + 1))) + ucast (data ! i)"

definition u32_at :: "bytes \<Rightarrow> nat \<Rightarrow> u32" where
  "u32_at data i = push_bit 24 (ucast (data ! (i + 3))) + push_bit 16 (ucast (data ! (i + 2))) +
     push_bit 8 (ucast (data ! (i + 1))) + ucast (data ! i)"

definition chars :: "bytes \<Rightarrow> string" where
  "chars = map (\<lambda>b. char_of (unat b))"

section \<open>Status\<close>

record DABStatus =
  CTS :: bool
  ERR_CMD :: bool
  DACQ_INT :: bool
  DSRV_INT :: bool
  STC_INT :: bool
  DFIC_INT :: bool
  DEVNT_INT :: bool
  DACF_INT :: bool
  PUP_STATE :: u8
  RFFE_ERR :: bool
  CMDOFERR :: bool
  REPOFERR :: bool
  ERRNR :: bool
  ERROR :: u8
  mStatus0Complete :: bool
  mStatus3Complete :: bool
  mResp4Complete :: bool

definition DABStatus_init :: "bool \<Rightarrow> DABStatus" where
  "DABStatus_init junk =
     \<lparr>CTS = False, ERR_CMD = False, DACQ_INT = False, DSRV_INT = False, STC_INT = False, DFIC_INT = False,
      DEVNT_INT = False, DACF_INT = False, PUP_STATE = 0, RFFE_ERR = False, CMDOFERR = False, REPOFERR = False,
      ERRNR = junk, ERROR = 0, mStatus0Complete = False, mStatus3Complete = junk, mResp4Complete = False\<rparr>"

definition parse_DABStatus :: "bool \<Rightarrow> bytes \<Rightarrow> DABStatus" where
  "parse_DABStatus junk data =
     (let s0 = DABStatus_init junk;
          s1 = (if length data > 0
                then s0\<lparr>CTS := (data ! 0 AND 0x80 \<noteq> 0), ERR_CMD := (data ! 0 AND 0x40 \<noteq> 0),
                        DACQ_INT := (data ! 0 AND 0x20 \<noteq> 0), DSRV_INT := (data ! 0 AND 0x10 \<noteq> 0),
                        STC_INT := (data ! 0 AND 0x01 \<noteq> 0), mStatus0Complete := True\<rparr>
                else s0);
          s2 = (if length data > 1
                then s1\<lparr>DFIC_INT := (data ! 1 AND 0x40 \<noteq> 0), DEVNT_INT := (data ! 1 AND 0x20 \<noteq> 0),
                        DACF_INT := (data ! 1 AND 0x01 \<noteq> 0)\<rparr>
                else s1);
          s3 = (if length data > 3
                then s2\<lparr>PUP_STATE := drop_bit 6 (data ! 3), RFFE_ERR := (drop_bit 5 (data ! 3 AND 0x20) \<noteq> 0),
                        REPOFERR := (drop_bit 3 (data ! 3 AND 0x08) \<noteq> 0), CMDOFERR := (drop_bit 2 (data ! 3 AND 0x04) \<noteq> 0),
                        ERRNR := (data ! 3 AND 0x01 \<noteq> 0), mStatus3Complete := True\<rparr>
                else s2)
      in if length data > 4 \<and> ERR_CMD s3 then s3\<lparr>ERROR := data ! 4, mResp4Complete := True\<rparr> else s3)"

definition error :: "DABStatus \<Rightarrow> bool" where
  "error s \<longleftrightarrow> ERR_CMD s \<or> CMDOFERR s \<or> REPOFERR s \<or> ERRNR s"

definition interrupt :: "DABStatus \<Rightarrow> bool" where
  "interrupt s \<longleftrightarrow> DACQ_INT s \<or> DSRV_INT s \<or> DFIC_INT s \<or> DEVNT_INT s \<or> DACF_INT s"

definition error_text :: "u8 \<Rightarrow> string" where
  "error_text e = (case map_of
      [(0x01, ''unspecified''), (0x02, ''reply overflow''), (0x03, ''not available''), (0x04, ''not supported''),
       (0x05, ''bad frequency''), (0x10, ''command not found''), (0x11, ''bad arg1''), (0x12, ''bad arg2''),
       (0x13, ''bad arg3''), (0x14, ''bad arg4''), (0x15, ''bad arg5''), (0x16, ''bad arg6''), (0x17, ''bad arg7''),
       (0x18, ''command busy''), (0x19, ''at band limit''), (0x20, ''bad NVM''), (0x30, ''bad patch''),
       (0x31, ''bad bootmode''), (0x40, ''bad property''), (0x50, ''not acquired''), (0xff, ''APP not supported'')] e
     of Some t \<Rightarrow> t | None \<Rightarrow> ''Unkown error: '' @ to_string_int (int (unat e)))"

definition pup_text :: "u8 \<Rightarrow> string" where
  "pup_text p =
     (if p = 0 then ''Waiting for POWER_UP'' else if p = 1 then ''Reserved''
      else if p = 2 then ''Bootloader running'' else if p = 3 then ''Application running'' else '''')"

definition boolalpha :: "bool \<Rightarrow> string" where "boolalpha b = (if b then ''true'' else ''false'')"

definition DABStatus_toString :: "DABStatus \<Rightarrow> string" where
  "DABStatus_toString s =
     ''Status: '' @ ''CTS: '' @ boolalpha (CTS s) @ '', ERR_CMD: '' @ boolalpha (ERR_CMD s)
     @ '', DACQ_INT: '' @ boolalpha (DACQ_INT s) @ '', STC_INT: '' @ boolalpha (STC_INT s)
     @ '', DSRV_INT: '' @ boolalpha (DSRV_INT s) @ '', DFIC_INT: '' @ boolalpha (DFIC_INT s)
     @ '', DEVNT_INT: '' @ boolalpha (DEVNT_INT s) @ '', DACF_INT: '' @ boolalpha (DACF_INT s)
     @ (if mStatus3Complete s
        then '', CMDOFERR: '' @ boolalpha (CMDOFERR s) @ '', REPOFERR: '' @ boolalpha (REPOFERR s)
             @ '', NON RECOVERABLE ERROR: '' @ boolalpha (ERRNR s) @ '', PUP_STATE: '' @ pup_text (PUP_STATE s)
             @ '', RF Error: '' @ boolalpha (RFFE_ERR s)
        else '''')
     @ (if mResp4Complete s \<and> ERR_CMD s then '', Error: '' @ error_text (ERROR s) else '''')"

section \<open>The other replies\<close>

definition parse_DABSysState :: "bytes \<Rightarrow> u8" where
  "parse_DABSysState data = (if length data \<ge> 5 then data ! 4 else 0)"

record DABDigiradStatus =
  VALID :: bool
  RSSI :: u8
  SNR :: u8
  FIC_QUALITY :: u8
  CNR :: u8
  FIB_ERROR_COUNT :: u16
  TUNE_FREQ :: u32
  TUNE_INDEX :: u8
  FFT_OFFSET :: u8
  READANTCAP :: u16
  CU_LEVEL :: u16
  FAST_DECT :: u8
  SAMPLE_RATE_OFFSET :: u16
  FREQ_OFFSET :: u32
  FIC_BIT_CNT :: u32
  FIC_ERR_CNT :: u32

definition parse_DABDigiradStatus :: "bytes \<Rightarrow> DABDigiradStatus" where
  "parse_DABDigiradStatus data =
     (let n = length data
      in \<lparr>VALID = (n > 5 \<and> data ! 5 AND 0x01 \<noteq> 0),
          RSSI = (if n > 6 then data ! 6 else 0),
          SNR = (if n > 7 then data ! 7 else 0),
          FIC_QUALITY = (if n > 8 then data ! 8 else 0),
          CNR = (if n > 9 then data ! 9 else 0),
          FIB_ERROR_COUNT = (if n > 0x0b then u16_at data 0x0a else 0),
          TUNE_FREQ = (if n > 0x0f then u32_at data 0x0c else 0),
          TUNE_INDEX = (if n > 0x10 then data ! 0x10 else 0),
          FFT_OFFSET = (if n > 0x11 then data ! 0x11 else 0),
          READANTCAP = (if n > 0x13 then u16_at data 0x12 else 0),
          CU_LEVEL = (if n > 0x15 then u16_at data 0x14 else 0),
          FAST_DECT = (if n > 0x16 then data ! 0x16 else 0),
          SAMPLE_RATE_OFFSET = (if n > 0x1b then u16_at data 0x1a else 0),
          FREQ_OFFSET = (if n > 0x1f then u32_at data 0x1c else 0),
          FIC_BIT_CNT = (if n > 0x23 then u32_at data 0x20 else 0),
          FIC_ERR_CNT = (if n > 0x27 then u32_at data 0x24 else 0)\<rparr>)"

text \<open>
  The loop over the frequencies goes on while \<open>index + 3 <= size\<close>, and then reads \<open>index + 3\<close>: with three
  bytes left it reads behind the end.
\<close>

fun freq_loop :: "bytes \<Rightarrow> int list option" where
  "freq_loop (a # b # c # d # rest) =
     map_option ((#) (sint (u32_at [a, b, c, d] 0))) (freq_loop rest)"
| "freq_loop [a, b, c] = None"
| "freq_loop _ = Some []"

record DABFrequencyList =
  NUM_FREQS :: u8
  mFrequencies :: "int list"

definition parse_DABFrequencyList :: "bytes \<Rightarrow> DABFrequencyList option" where
  "parse_DABFrequencyList data =
     map_option (\<lambda>fs. \<lparr>NUM_FREQS = (if length data \<ge> 5 then data ! 4 else 0), mFrequencies = fs\<rparr>) (freq_loop (drop 8 data))"

record DABPartInfo =
  CHIPREV :: u8
  ROMID :: u8
  PART :: u16

definition parse_DABPartInfo :: "bytes \<Rightarrow> DABPartInfo" where
  "parse_DABPartInfo data =
     (if length data \<ge> 10 then \<lparr>CHIPREV = data ! 4, ROMID = data ! 5, PART = u16_at data 8\<rparr>
      else \<lparr>CHIPREV = 0, ROMID = 0, PART = 0\<rparr>)"

definition parse_DABComponentInfo :: "bytes \<Rightarrow> string" where
  "parse_DABComponentInfo data = (if length data > 17 then chars (take 9 (drop 8 data)) else '''')"

record DABRssiInfo =
  RSSI_HIGH :: u8
  RSSI_LOW :: u8

definition parse_DABRssiInfo :: "bytes \<Rightarrow> DABRssiInfo" where
  "parse_DABRssiInfo data =
     (if length data > 5 then \<lparr>RSSI_HIGH = data ! 5, RSSI_LOW = data ! 4\<rparr> else \<lparr>RSSI_HIGH = 0, RSSI_LOW = 0\<rparr>)"

record DABReadProperty =
  ID :: u16
  VALUE :: u16

definition parse_DABReadProperty :: "bytes \<Rightarrow> u16 \<Rightarrow> DABReadProperty option" where
  "parse_DABReadProperty data i =
     (if length data > 4
      then if length data > 5 then Some \<lparr>ID = i, VALUE = u16_at data 4\<rparr> else None
      else Some \<lparr>ID = i, VALUE = 0\<rparr>)"

record DigitalServiceData =
  DSRVOVFLINT :: bool
  DSRVPCKTINT :: bool
  BUFF_COUNT :: u8
  SRV_STATE :: u8
  DATA_TYPE :: u8
  SERVICE_ID :: u32
  COMPONENT_ID :: u32
  BYTE_COUNT :: u16
  SEG_NUM :: u16
  NUM_SEGS :: u16
  mPayload :: bytes

definition parse_DigitalServiceData :: "bytes \<Rightarrow> DigitalServiceData" where
  "parse_DigitalServiceData data =
     (let n = length data
      in \<lparr>DSRVOVFLINT = (n > 0x04 \<and> data ! 0x04 AND 0x02 \<noteq> 0),
          DSRVPCKTINT = (n > 0x04 \<and> data ! 0x04 AND 0x01 \<noteq> 0),
          BUFF_COUNT = (if n > 0x05 then data ! 0x05 else 0),
          SRV_STATE = (if n > 0x06 then data ! 0x06 else 0),
          DATA_TYPE = (if n > 0x07 then data ! 0x07 else 0),
          SERVICE_ID = (if n > 0x0b then u32_at data 0x08 else 0),
          COMPONENT_ID = (if n > 0x0f then u32_at data 0x0c else 0),
          BYTE_COUNT = (if n > 0x13 then u16_at data 0x12 else 0),
          SEG_NUM = (if n > 0x15 then u16_at data 0x14 else 0),
          NUM_SEGS = (if n > 0x18 then u16_at data 0x17 else 0),
          mPayload = (if n > 0x18 then drop 0x18 data else [])\<rparr>)"

section \<open>The list of services\<close>

record DABService =
  ServiceId :: u32
  Components :: "u16 list"
  Label :: string

definition ltrim :: "string \<Rightarrow> string" where "ltrim s = dropWhile is_space s"
definition rtrim :: "string \<Rightarrow> string" where "rtrim s = rev (dropWhile is_space (rev s))"
definition trim :: "string \<Rightarrow> string" where "trim s = rtrim (ltrim s)"

text \<open>
  The loop, on the bytes from \<open>pos\<close> on. It reads 24 bytes for a service and two of the four bytes of each
  component.
\<close>

function service_loop :: "bytes \<Rightarrow> DABService list option" where
  "service_loop d =
     (if d = [] then Some []
      else
       (let componentCount = unat (d ! 5 AND 0x0F)
        in if length d < 24 \<or> 0 < componentCount \<and> length d < 22 + 4 * componentCount then None
           else
            (let service = \<lparr>ServiceId = u32_at d 0,
                            Components = map (\<lambda>i. u16_at d (24 + 4 * i)) [0..<componentCount],
                            Label = trim (chars (take 16 (drop 8 d)))\<rparr>
             in map_option ((#) service) (service_loop (drop (24 + 4 * componentCount) d)))))"
  by pat_completeness auto
termination
  by (relation "measure length") auto

declare service_loop.simps [simp del]

record DABServiceList =
  SIZE :: u16
  mFullParsed :: bool
  VERSION :: u16
  SERVICECOUNT :: u8
  mServices :: "DABService list"

definition parse_DABServiceList :: "bytes \<Rightarrow> DABServiceList option" where
  "parse_DABServiceList data =
     (let size = (if length data > 5 then u16_at data 4 else 0)
      in if length data > unat size
         then if length data < 9 then None
              else map_option (\<lambda>svs. \<lparr>SIZE = size, mFullParsed = True, VERSION = u16_at data 6, SERVICECOUNT = data ! 8,
                                      mServices = svs\<rparr>) (service_loop (drop 12 data))
         else Some \<lparr>SIZE = size, mFullParsed = False, VERSION = 0, SERVICECOUNT = 0, mServices = []\<rparr>)"

section \<open>Numbers are read as they are sent\<close>

definition le16_bytes :: "u16 \<Rightarrow> bytes" where
  "le16_bytes w = [ucast w, ucast (drop_bit 8 w)]"

definition le32_bytes :: "u32 \<Rightarrow> bytes" where
  "le32_bytes w = [ucast w, ucast (drop_bit 8 w), ucast (drop_bit 16 w), ucast (drop_bit 24 w)]"

lemma high_bit_u8: "8 \<le> n \<Longrightarrow> \<not> bit (x :: u8) n"
  using bit_imp_le_length [of x n] by auto

lemma u16_sum_or: "push_bit 8 (ucast (h :: u8)) + ucast (l :: u8) = (push_bit 8 (ucast h) OR ucast l :: u16)"
  by (rule disjunctive_add) (auto simp: bit_simps high_bit_u8)

lemma u32_sum_or:
  fixes a b c d :: u8
  shows "push_bit 24 (ucast d) + push_bit 16 (ucast c) + push_bit 8 (ucast b) + ucast a =
    (push_bit 24 (ucast d) OR push_bit 16 (ucast c) OR push_bit 8 (ucast b) OR ucast a :: u32)"
proof -
  have 1: "push_bit 24 (ucast d) + push_bit 16 (ucast c) = (push_bit 24 (ucast d) OR push_bit 16 (ucast c) :: u32)"
    by (rule disjunctive_add) (auto simp: bit_simps high_bit_u8)
  have 2: "(push_bit 24 (ucast d) OR push_bit 16 (ucast c)) + push_bit 8 (ucast b) =
      (push_bit 24 (ucast d) OR push_bit 16 (ucast c) OR push_bit 8 (ucast b) :: u32)"
    by (subst disjunctive_add) (auto simp: bit_simps high_bit_u8 or.assoc)
  have 3: "(push_bit 24 (ucast d) OR push_bit 16 (ucast c) OR push_bit 8 (ucast b)) + ucast a =
      (push_bit 24 (ucast d) OR push_bit 16 (ucast c) OR push_bit 8 (ucast b) OR ucast a :: u32)"
    by (subst disjunctive_add) (auto simp: bit_simps high_bit_u8 or.assoc)
  show ?thesis unfolding 1 2 3 ..
qed

lemma u16_at_le16 [simp]: "u16_at (le16_bytes w @ r) 0 = w"
  unfolding u16_at_def le16_bytes_def
  by (simp add: u16_sum_or) (rule bit_word_eqI, auto simp: bit_simps high_bit_u8)

lemma u32_at_le32 [simp]: "u32_at (le32_bytes w @ r) 0 = w"
proof (rule bit_word_eqI)
  fix n assume "n < LENGTH(32)"
  then have "n < 8 \<or> 8 \<le> n \<and> n < 16 \<or> 16 \<le> n \<and> n < 24 \<or> 24 \<le> n \<and> n < 32" by auto
  then show "bit (u32_at (le32_bytes w @ r) 0) n = bit w n"
    unfolding u32_at_def le32_bytes_def
    by (elim disjE) (auto simp: u32_sum_or bit_simps numeral_2_eq_2 numeral_3_eq_3 high_bit_u8)
qed

lemma le_bytes_length [simp]: "length (le16_bytes w) = 2" "length (le32_bytes v) = 4"
  by (simp_all add: le16_bytes_def le32_bytes_def)

lemma at_append [simp]:
  "u16_at (xs @ ys) (length xs + i) = u16_at ys i" "u32_at (xs @ ys) (length xs + i) = u32_at ys i"
  by (simp_all add: u16_at_def u32_at_def nth_append add.assoc)

section \<open>A list of services is read as it is sent\<close>

text \<open>
  Layout of the reply, from the loop of the parser and its comment: 24 bytes for a service and four
  for a component. The bytes that the parser does not look at are arbitrary.
\<close>

definition label_bytes :: "string \<Rightarrow> bytes" where
  "label_bytes l = map (\<lambda>c. of_nat (of_char c)) l @ replicate (16 - length l) 0x20"

definition service_bytes :: "u8 \<times> u8 \<times> u8 \<times> u8 \<Rightarrow> DABService \<Rightarrow> bytes" where
  "service_bytes = (\<lambda>(x, f, y, z) s.
     le32_bytes (ServiceId s) @ [x, (f AND 0xF0) OR of_nat (length (Components s)), y, z] @ label_bytes (Label s)
     @ concat (map (\<lambda>c. le16_bytes c @ [y, z]) (Components s)))"

definition service_ok :: "DABService \<Rightarrow> bool" where
  "service_ok s \<longleftrightarrow> length (Components s) \<le> 15 \<and> length (Label s) \<le> 16 \<and>
     (Label s \<noteq> [] \<longrightarrow> \<not> is_space (hd (Label s)) \<and> \<not> is_space (last (Label s)))"

definition service_reply :: "bytes \<Rightarrow> u16 \<Rightarrow> u8 \<Rightarrow> bytes \<Rightarrow> ((u8 \<times> u8 \<times> u8 \<times> u8) \<times> DABService) list \<Rightarrow> bytes" where
  "service_reply status version n pad svs =
     (let body = le16_bytes version @ [n] @ pad @ concat (map (\<lambda>(f, s). service_bytes f s) svs)
      in status @ le16_bytes (of_nat (length body)) @ body)"

lemma chars_label: "length l \<le> 16 \<Longrightarrow> chars (label_bytes l) = l @ replicate (16 - length l) CHR '' ''"
proof -
  have "char_of (unat (of_nat (of_char c) :: u8)) = c" for c :: char
  proof -
    have "(of_char c :: nat) < 256" by (metis of_char_mod_256 mod_less_divisor zero_less_numeral)
    then show ?thesis by (simp add: unat_of_nat take_bit_nat_eq_self)
  qed
  moreover have "char_of (32 :: nat) = CHR '' ''" by code_simp
  ultimately show ?thesis by (simp add: chars_def label_bytes_def comp_def)
qed

lemma trim_label:
  assumes "l \<noteq> [] \<longrightarrow> \<not> is_space (hd l) \<and> \<not> is_space (last l)"
  shows "trim (l @ replicate k CHR '' '') = l"
proof (cases l)
  case Nil
  then show ?thesis by (simp add: trim_def ltrim_def rtrim_def is_space_def dropWhile_eq_Nil_conv)
next
  case (Cons a r)
  then have 1: "ltrim (l @ replicate k CHR '' '') = l @ replicate k CHR '' ''" using assms by (simp add: ltrim_def)
  have "dropWhile is_space (replicate k CHR '' '' @ rev l) = dropWhile is_space (rev l)"
    by (rule dropWhile_append2) (simp add: is_space_def)
  moreover have "rev l = last l # rev (butlast l)"
    using Cons rev_append [of "butlast l" "[last l]"] by simp
  then have "dropWhile is_space (rev l) = rev l" using Cons assms by simp
  ultimately show ?thesis unfolding trim_def 1 rtrim_def by simp
qed

lemma count_nibble:
  assumes "n \<le> 15"
  shows "unat (((f AND 0xF0) OR of_nat n) AND 0x0F :: u8) = n"
proof -
  have m: "(0x0F :: u8) = mask 4" by (simp add: mask_eq_exp_minus_1)
  have h: "(0xF0 :: u8) = NOT (mask 4)" by (simp add: mask_eq_exp_minus_1)
  have "((f AND 0xF0) OR of_nat n) AND 0x0F = (take_bit 4 (of_nat n) :: u8)"
    unfolding m h by (rule bit_word_eqI) (auto simp: bit_simps)
  also have "\<dots> = of_nat n" using assms by (simp add: take_bit_of_nat take_bit_nat_eq_self)
  finally show ?thesis using assms by (simp add: unat_of_nat take_bit_nat_eq_self)
qed

lemma component_nth:
  assumes "i < length cs"
  shows "u16_at (concat (map (\<lambda>c. le16_bytes c @ [y, z]) cs) @ r) (4 * i) = cs ! i"
  using assms
proof (induction cs arbitrary: i)
  case (Cons c cs)
  let ?d = "concat (map (\<lambda>c. le16_bytes c @ [y, z]) cs) @ r"
  show ?case
  proof (cases i)
    case 0
    then show ?thesis using u16_at_le16 [of c "[y, z] @ ?d"] by simp
  next
    case (Suc j)
    have "u16_at ((le16_bytes c @ [y, z]) @ ?d) (length (le16_bytes c @ [y, z]) + 4 * j) = u16_at ?d (4 * j)"
      by (rule at_append)
    moreover have "4 * i = length (le16_bytes c @ [y, z]) + 4 * j" using Suc by simp
    ultimately show ?thesis using Suc Cons by simp
  qed
qed simp

lemma service_loop_bytes:
  assumes "service_ok s"
  shows "service_loop (service_bytes f s @ rest) = map_option ((#) s) (service_loop rest)"
proof -
  obtain x g y z where f: "f = (x, g, y, z)" by (cases f)
  let ?cs = "concat (map (\<lambda>c. le16_bytes c @ [y, z]) (Components s))"
  let ?head = "le32_bytes (ServiceId s) @ [x, (g AND 0xF0) OR of_nat (length (Components s)), y, z] @ label_bytes (Label s)"
  have ok: "length (Components s) \<le> 15" "length (Label s) \<le> 16" using assms by (simp_all add: service_ok_def)
  define d where "d = service_bytes f s @ rest"
  have d: "d = ?head @ ?cs @ rest" by (simp add: d_def service_bytes_def f)
  have len: "length ?head = 24" "length ?cs = 4 * length (Components s)"
    using ok by (simp_all add: le32_bytes_def le16_bytes_def label_bytes_def length_concat comp_def sum_list_triv)
  have cnt: "unat (d ! 5 AND 0x0F) = length (Components s)"
    using count_nibble [OF ok(1)] unfolding d by (simp add: le32_bytes_def nth_append)
  have id: "u32_at d 0 = ServiceId s" unfolding d by simp
  have lab: "trim (chars (take 16 (drop 8 d))) = Label s"
  proof -
    have "length (label_bytes (Label s)) = 16" using ok by (simp add: label_bytes_def)
    then have "take 16 (drop 8 d) = label_bytes (Label s)" unfolding d by (simp add: le32_bytes_def)
    then show ?thesis using assms ok trim_label by (simp add: chars_label service_ok_def)
  qed
  have comps: "map (\<lambda>i. u16_at d (24 + 4 * i)) [0..<length (Components s)] = Components s"
  proof (rule nth_equalityI)
    fix i assume "i < length (map (\<lambda>i. u16_at d (24 + 4 * i)) [0..<length (Components s)])"
    then show "map (\<lambda>i. u16_at d (24 + 4 * i)) [0..<length (Components s)] ! i = Components s ! i"
      using at_append(1) [of ?head "?cs @ rest" "4 * i"] component_nth [of i "Components s" y z rest]
      unfolding d len(1) by simp
  qed simp
  have rest: "drop (24 + 4 * length (Components s)) d = rest"
  proof -
    have "d = (?head @ ?cs) @ rest" unfolding d by simp
    moreover have "length (?head @ ?cs) = 24 + 4 * length (Components s)" using len by simp
    ultimately show ?thesis by (metis append_eq_conv_conj)
  qed
  have "d \<noteq> []" "\<not> (length d < 24 \<or> 0 < length (Components s) \<and> length d < 22 + 4 * length (Components s))"
    using len unfolding d by auto
  moreover have "\<lparr>ServiceId = ServiceId s, Components = Components s, Label = Label s\<rparr> = s" by simp
  ultimately show ?thesis
    unfolding d_def [symmetric] by (subst service_loop.simps) (simp only: cnt id lab comps rest Let_def if_False)
qed

lemma service_loop_services:
  "(\<forall>(f, s) \<in> set svs. service_ok s) \<Longrightarrow>
     service_loop (concat (map (\<lambda>(f, s). service_bytes f s) svs)) = Some (map snd svs)"
proof (induction svs)
  case Nil
  show ?case by (simp add: service_loop.simps)
next
  case (Cons a svs)
  then show ?case by (cases a) (simp add: service_loop_bytes)
qed

text \<open>
  C31. The list of services of an ensemble is read as the tuner sends it: for every list of services
  with at most fifteen components each and labels of at most sixteen characters, padded with
  spaces, parsing the reply gives back the identifiers, components and labels, without
  a read outside the reply.
\<close>

theorem service_list_roundtrip:
  assumes "\<forall>(f, s) \<in> set svs. service_ok s" and "length status = 4" and "length pad = 3"
    and "length (service_reply status version n pad svs) < 65542"
  shows "\<exists>l. parse_DABServiceList (service_reply status version n pad svs) = Some l \<and> mFullParsed l \<and>
     VERSION l = version \<and> SERVICECOUNT l = n \<and> mServices l = map snd svs"
proof -
  define body where "body = le16_bytes version @ [n] @ pad @ concat (map (\<lambda>(f, s). service_bytes f s) svs)"
  define r where "r = service_reply status version n pad svs"
  have r: "r = status @ le16_bytes (of_nat (length body)) @ body"
    by (simp add: r_def service_reply_def body_def Let_def)
  have b: "length body < 65536" using assms(2,4) unfolding r_def [symmetric] by (simp add: r le16_bytes_def)
  have size: "u16_at r 4 = of_nat (length body)"
    using at_append(1) [of status "le16_bytes (of_nat (length body)) @ body" 0] assms(2) by (simp add: r)
  have ver: "u16_at r 6 = version"
  proof -
    have "u16_at r (6 + 0) = u16_at body 0"
      using at_append(1) [of "status @ le16_bytes (of_nat (length body))" body 0] assms(2) by (simp add: r)
    then show ?thesis by (simp add: body_def)
  qed
  have u: "unat (of_nat (length body) :: u16) = length body" using b by (simp add: unat_of_nat take_bit_nat_eq_self)
  have "length r = length body + 6" "6 \<le> length body" using assms(2,3) by (simp_all add: r body_def le16_bytes_def)
  moreover have "drop 12 r = concat (map (\<lambda>(f, s). service_bytes f s) svs)" "r ! 8 = n"
    using assms(2,3) by (simp_all add: r body_def le16_bytes_def nth_append)
  ultimately show ?thesis
    using service_loop_services [OF assms(1)] unfolding r_def [symmetric]
    by (simp add: parse_DABServiceList_def size ver u)
qed

theorem service_list_roundtrip_witness:
  "\<exists>l. parse_DABServiceList (service_reply [0x80, 0, 0, 0xC0] 2 1 [0, 0, 0]
       [((0, 0, 0, 0), \<lparr>ServiceId = 25112, Components = [3, 7], Label = ''Radio 1''\<rparr>)]) = Some l \<and> mFullParsed l \<and>
     VERSION l = 2 \<and> SERVICECOUNT l = 1 \<and> mServices l = [\<lparr>ServiceId = 25112, Components = [3, 7], Label = ''Radio 1''\<rparr>]"
  using service_list_roundtrip [of "[((0, 0, 0, 0), \<lparr>ServiceId = 25112, Components = [3, 7], Label = ''Radio 1''\<rparr>)]"
      "[0x80, 0, 0, 0xC0]" "[0, 0, 0]" 2 1]
  by (simp add: service_ok_def is_space_def service_reply_def service_bytes_def label_bytes_def le16_bytes_def le32_bytes_def)

end
