(* ===== verification/Dab_Tuner.thy ===== *)
theory Dab_Tuner
  imports Dab_Commands
begin

text \<open>
  The DAB tuner chip behind the SPI bus (\<open>rgbclock/RgbLib/src/lib/SPI.cpp\<close>, \<open>Si4684.cpp\<close>): the command
  protocol with its polling, loading of firmware, the flash memory, and the commands that the receiver uses.
  The chip and the kernel are a parameter: a function from the bytes written, the number of bytes to
  read and the state of the chip to what is read, or nothing when the call fails. Calls of the main board
  and transfers are collected in \<open>tuner_log\<close>; the sleeps are left out. \<open>junk n\<close> is what the object of
  a status built after \<open>n\<close> entries of the log finds in its uninitialised members.
\<close>

section \<open>The bus\<close>

datatype tuner_event = SpiTransfer bytes nat | TunerReset | RadioInputSelected

type_synonym 'c spi_device = "bytes \<Rightarrow> nat \<Rightarrow> 'c \<Rightarrow> (nat \<Rightarrow> u8) option \<times> 'c"

record 'c Si4684 =
  chip :: 'c
  has_mainboard :: bool
  tuner_log :: "tuner_event list"

definition readWriteData :: "'c spi_device \<Rightarrow> bytes \<Rightarrow> bytes \<Rightarrow> 'c Si4684 \<Rightarrow> bool \<times> bytes \<times> 'c Si4684" where
  "readWriteData dev writeData readData s =
     (let (res, c) = dev writeData (length readData) (chip s);
          s1 = s\<lparr>chip := c, tuner_log := tuner_log s @ [SpiTransfer writeData (length readData)]\<rparr>
      in case res of None \<Rightarrow> (False, readData, s1) | Some f \<Rightarrow> (True, map f [0..<length readData], s1))"

definition writeData :: "'c spi_device \<Rightarrow> bytes \<Rightarrow> 'c Si4684 \<Rightarrow> bool \<times> 'c Si4684" where
  "writeData dev data s = (let (ok, _, s1) = readWriteData dev data [] s in (ok, s1))"

text \<open>
  Opening the device: at most five attempts, then six settings, each of which may fail. The first
  result is the handle, or nothing.
\<close>

fun open_loop :: "(nat \<Rightarrow> bool) \<Rightarrow> nat \<Rightarrow> nat \<Rightarrow> bool" where
  "open_loop opens k 0 = False"
| "open_loop opens k (Suc n) = (if opens k then True else open_loop opens (Suc k) n)"

definition openDevice :: "(nat \<Rightarrow> bool) \<Rightarrow> (nat \<Rightarrow> bool) \<Rightarrow> bool \<times> bool" where
  "openDevice opens ioctl = (open_loop opens 0 5, list_all ioctl [0..<6])"

section \<open>Commands\<close>

definition FIRMWARE_BLOCK_SIZE :: nat where "FIRMWARE_BLOCK_SIZE = 2 * 1024"
definition MAX_RETRIES :: nat where "MAX_RETRIES = 500"
definition WAIT_CTS :: u8 where "WAIT_CTS = 0x80"
definition WAIT_CTS_STC :: u8 where "WAIT_CTS_STC = 0x81"
definition BOOT_IMAGE_ADDRESS :: u32 where "BOOT_IMAGE_ADDRESS = 0x00002000"
definition DAB_IMDAGE_ADDRESS :: u32 where "DAB_IMDAGE_ADDRESS = 0x00086000"

definition SI468X_RD_REPLY :: u8 where "SI468X_RD_REPLY = 0x00"
definition SI468X_POWER_UP :: u8 where "SI468X_POWER_UP = 0x01"
definition SI468X_HOST_LOAD :: u8 where "SI468X_HOST_LOAD = 0x04"
definition SI468X_FLASH_LOAD :: u8 where "SI468X_FLASH_LOAD = 0x05"
definition SI468X_LOAD_INIT :: u8 where "SI468X_LOAD_INIT = 0x06"
definition SI468X_BOOT :: u8 where "SI468X_BOOT = 0x07"
definition SI468X_GET_PART_INFO :: u8 where "SI468X_GET_PART_INFO = 0x08"
definition SI468X_GET_SYS_STATE :: u8 where "SI468X_GET_SYS_STATE = 0x09"
definition SI468X_GET_FUNC_INFO :: u8 where "SI468X_GET_FUNC_INFO = 0x12"
definition SI468X_SET_PROPERTY :: u8 where "SI468X_SET_PROPERTY = 0x13"
definition SI468X_DAB_TUNE_FREQ :: u8 where "SI468X_DAB_TUNE_FREQ = 0xB0"
definition SI468X_DAB_DIGRAD_STATUS :: u8 where "SI468X_DAB_DIGRAD_STATUS = 0xB2"
definition SI468X_DAB_GET_FREQ_LIST :: u8 where "SI468X_DAB_GET_FREQ_LIST = 0xB9"
definition SI468X_DAB_GET_COMPONENT_INFO :: u8 where "SI468X_DAB_GET_COMPONENT_INFO = 0xBB"
definition SI468X_GET_DIGITAL_SERVICE_LIST :: u8 where "SI468X_GET_DIGITAL_SERVICE_LIST = 0x80"
definition SI468X_START_DIGITAL_SERVICE :: u8 where "SI468X_START_DIGITAL_SERVICE = 0x81"
definition SI468X_STOP_DIGITAL_SERVICE :: u8 where "SI468X_STOP_DIGITAL_SERVICE = 0x82"
definition SI468X_GET_DIGITAL_SERVICE_DATA :: u8 where "SI468X_GET_DIGITAL_SERVICE_DATA = 0x84"
definition SI468X_DAB_GET_ENSEMBLE_INFO :: u8 where "SI468X_DAB_GET_ENSEMBLE_INFO = 0xb4"
definition SI468X_DAB_GET_SERVICE_INFO :: u8 where "SI468X_DAB_GET_SERVICE_INFO = 0xc0"
definition SI468X_GET_PROPERTY :: u8 where "SI468X_GET_PROPERTY = 0x14"
definition PROP_FLASH_SPI_SPI_MODE :: u16 where "PROP_FLASH_SPI_SPI_MODE = 0x0002"
definition PROP_FLASH_READ_CMD :: u16 where "PROP_FLASH_READ_CMD = 0x0101"
definition PROP_FLASH_WRITE_CMD :: u16 where "PROP_FLASH_WRITE_CMD = 0x0201"
definition PROP_FLASH_ERASE_CHIP_CMD :: u16 where "PROP_FLASH_ERASE_CHIP_CMD = 0x0204"
definition SI468X_TEST_GET_RSSI :: u8 where "SI468X_TEST_GET_RSSI = 0xE5"
definition SI468X_DIGITAL_SERVICE_INT_SOURCE :: u16 where "SI468X_DIGITAL_SERVICE_INT_SOURCE = 0x8100"
definition FLASH_WRITE_BLOCK :: u8 where "FLASH_WRITE_BLOCK = 0xF0"

text \<open>
  The polling loop. The left result is the early return with an error status, after the details were
  read once more for the log; the right one is the last status and the number of polls. The
  status has five bytes, so no uninitialised member is involved.
\<close>

function status_loop :: "'c spi_device \<Rightarrow> u8 \<Rightarrow> nat \<Rightarrow> bytes \<Rightarrow> 'c Si4684 \<Rightarrow> (bytes + bytes \<times> nat) \<times> 'c Si4684" where
  "status_loop dev waitMask retries rawStatus s =
     (if rawStatus ! 0 AND waitMask \<noteq> waitMask \<and> retries < MAX_RETRIES
      then
       (let (_, raw, s1) = readWriteData dev [SI468X_RD_REPLY] rawStatus s
        in if error (parse_DABStatus False raw)
           then (let (_, _, s2) = readWriteData dev [SI468X_RD_REPLY] (replicate 6 0) s1 in (Inl raw, s2))
           else status_loop dev waitMask (Suc retries) raw s1)
      else (Inr (rawStatus, retries), s))"
  by pat_completeness auto
termination
  by (relation "measure (\<lambda>(dev, waitMask, retries, rawStatus, s). MAX_RETRIES - retries)") auto

declare status_loop.simps [simp del]

definition sendCommand :: "'c spi_device \<Rightarrow> u8 \<Rightarrow> bytes \<Rightarrow> nat \<Rightarrow> u8 \<Rightarrow> 'c Si4684 \<Rightarrow> bytes \<times> 'c Si4684" where
  "sendCommand dev command param resultLength waitMask s =
     (let (_, s1) = writeData dev (command # param) s;
          (out, s2) = status_loop dev waitMask 0 (replicate 5 0) s1
      in case out of
           Inl rawStatus \<Rightarrow> (rawStatus, s2)
         | Inr (rawStatus, retries) \<Rightarrow>
             if retries < MAX_RETRIES
             then if resultLength > 5
                  then (let (_, cmdResult, s3) = readWriteData dev [SI468X_RD_REPLY] (replicate resultLength 0) s2
                        in (cmdResult, s3))
                  else (rawStatus, s2)
             else ([], s2))"

definition status_of :: "(nat \<Rightarrow> bool) \<Rightarrow> bytes \<times> 'c Si4684 \<Rightarrow> DABStatus \<times> 'c Si4684" where
  "status_of junk r = (parse_DABStatus (junk (length (tuner_log (snd r)))) (fst r), snd r)"

definition command_ok :: "(nat \<Rightarrow> bool) \<Rightarrow> bytes \<times> 'c Si4684 \<Rightarrow> bool \<times> 'c Si4684" where
  "command_ok junk r = (let (status, s) = status_of junk r in (\<not> error status, s))"

definition le_params :: "u32 \<Rightarrow> bytes" where
  "le_params x = [ucast (x AND 0xFF), ucast (drop_bit 8 x AND 0xFF), ucast (drop_bit 16 x AND 0xFF), ucast (drop_bit 24 x AND 0xFF)]"

definition be_params :: "u32 \<Rightarrow> bytes" where
  "be_params x = [ucast (drop_bit 24 x AND 0xFF), ucast (drop_bit 16 x AND 0xFF), ucast (drop_bit 8 x AND 0xFF), ucast (x AND 0xFF)]"

definition getStatus :: "'c spi_device \<Rightarrow> (nat \<Rightarrow> bool) \<Rightarrow> 'c Si4684 \<Rightarrow> DABStatus \<times> 'c Si4684" where
  "getStatus dev junk s = status_of junk (sendCommand dev SI468X_RD_REPLY [0x00] 4 WAIT_CTS s)"

definition getFrequencyList :: "'c spi_device \<Rightarrow> 'c Si4684 \<Rightarrow> DABFrequencyList option \<times> 'c Si4684" where
  "getFrequencyList dev s =
     (let (r1, s1) = sendCommand dev SI468X_DAB_GET_FREQ_LIST [0x00] 5 WAIT_CTS s
      in case parse_DABFrequencyList r1 of None \<Rightarrow> (None, s1)
         | Some freqList \<Rightarrow>
            (let (r2, s2) = sendCommand dev SI468X_RD_REPLY [0x00] (8 + unat (NUM_FREQS freqList) * 4) WAIT_CTS s1
             in (parse_DABFrequencyList r2, s2)))"

definition tuneFrequencyIndex :: "'c spi_device \<Rightarrow> (nat \<Rightarrow> bool) \<Rightarrow> u8 \<Rightarrow> 'c Si4684 \<Rightarrow> DABDigiradStatus \<times> 'c Si4684" where
  "tuneFrequencyIndex dev junk index s =
     (let (ok, s1) = command_ok junk (sendCommand dev SI468X_DAB_TUNE_FREQ [0x00, index, 0x00, 0x00, 0x00] 4 WAIT_CTS_STC s)
      in if \<not> ok then (parse_DABDigiradStatus [], s1)
         else (let (r, s2) = sendCommand dev SI468X_DAB_DIGRAD_STATUS [push_bit 3 1 OR 1] 40 WAIT_CTS s1
               in (parse_DABDigiradStatus r, s2)))"

definition getServices :: "'c spi_device \<Rightarrow> 'c Si4684 \<Rightarrow> DABServiceList option \<times> 'c Si4684" where
  "getServices dev s =
     (let (r1, s1) = sendCommand dev SI468X_GET_DIGITAL_SERVICE_LIST [0x00] 6 WAIT_CTS s
      in case parse_DABServiceList r1 of None \<Rightarrow> (None, s1)
         | Some serviceSize \<Rightarrow>
            (let (r2, s2) = sendCommand dev SI468X_RD_REPLY [0x00] (unat (SIZE serviceSize) + 6) WAIT_CTS s1
             in (parse_DABServiceList r2, s2)))"

definition startService :: "'c spi_device \<Rightarrow> (nat \<Rightarrow> bool) \<Rightarrow> u32 \<Rightarrow> u32 \<Rightarrow> 'c Si4684 \<Rightarrow> bool \<times> 'c Si4684" where
  "startService dev junk serviceId componentId s =
     command_ok junk (sendCommand dev SI468X_START_DIGITAL_SERVICE
       ([0x00, 0x00, 0x00] @ le_params serviceId @ le_params componentId) 4 WAIT_CTS s)"

definition stopService :: "'c spi_device \<Rightarrow> (nat \<Rightarrow> bool) \<Rightarrow> u32 \<Rightarrow> u32 \<Rightarrow> 'c Si4684 \<Rightarrow> bool \<times> 'c Si4684" where
  "stopService dev junk serviceId componentId s =
     command_ok junk (sendCommand dev SI468X_STOP_DIGITAL_SERVICE
       ([0x00, 0x00, 0x00] @ le_params serviceId @ le_params componentId) 4 WAIT_CTS s)"

definition getComponentInfo :: "'c spi_device \<Rightarrow> u32 \<Rightarrow> u32 \<Rightarrow> 'c Si4684 \<Rightarrow> string \<times> 'c Si4684" where
  "getComponentInfo dev serviceId componentId s =
     (let (r, s1) = sendCommand dev SI468X_DAB_GET_COMPONENT_INFO
            ([0x00, 0x00, 0x00] @ le_params serviceId @ le_params componentId) 37 WAIT_CTS s
      in (parse_DABComponentInfo r, s1))"

definition getServiceData :: "'c spi_device \<Rightarrow> 'c Si4684 \<Rightarrow> DigitalServiceData \<times> 'c Si4684" where
  "getServiceData dev s =
     (let (r1, s1) = sendCommand dev SI468X_GET_DIGITAL_SERVICE_DATA [0x01] 20 WAIT_CTS s;
          (r2, s2) = sendCommand dev SI468X_RD_REPLY [] (unat (BYTE_COUNT (parse_DigitalServiceData r1)) + 24) WAIT_CTS s1
      in (parse_DigitalServiceData r2, s2))"

definition getFunctionInfo :: "'c spi_device \<Rightarrow> 'c Si4684 \<Rightarrow> 'c Si4684" where
  "getFunctionInfo dev s = snd (sendCommand dev SI468X_GET_FUNC_INFO [] 12 WAIT_CTS s)"

definition getEnsembleInfo :: "'c spi_device \<Rightarrow> 'c Si4684 \<Rightarrow> bytes \<times> 'c Si4684" where
  "getEnsembleInfo dev s = sendCommand dev SI468X_DAB_GET_ENSEMBLE_INFO [0x00] 32 WAIT_CTS s"

definition getServiceInfo :: "'c spi_device \<Rightarrow> 'c Si4684 \<Rightarrow> bytes \<times> 'c Si4684" where
  "getServiceInfo dev s = sendCommand dev SI468X_DAB_GET_SERVICE_INFO [0x00] 32 WAIT_CTS s"

definition getRssi :: "'c spi_device \<Rightarrow> 'c Si4684 \<Rightarrow> DABRssiInfo \<times> 'c Si4684" where
  "getRssi dev s =
     (let (r, s1) = sendCommand dev SI468X_TEST_GET_RSSI [0x00] 6 WAIT_CTS s in (parse_DABRssiInfo r, s1))"

definition readSysState :: "'c spi_device \<Rightarrow> 'c Si4684 \<Rightarrow> u8 \<times> 'c Si4684" where
  "readSysState dev s =
     (let (r, s1) = sendCommand dev SI468X_GET_SYS_STATE [0x00] 6 WAIT_CTS s in (parse_DABSysState r, s1))"

definition setProperty :: "'c spi_device \<Rightarrow> (nat \<Rightarrow> bool) \<Rightarrow> u16 \<Rightarrow> u16 \<Rightarrow> 'c Si4684 \<Rightarrow> bool \<times> 'c Si4684" where
  "setProperty dev junk property value s =
     command_ok junk (sendCommand dev SI468X_SET_PROPERTY
       [0x00, ucast (property AND 0xFF), ucast (drop_bit 8 property AND 0xFF), ucast (value AND 0xFF),
        ucast (drop_bit 8 value AND 0xFF)] 0 WAIT_CTS s)"

definition flashSetProperty :: "'c spi_device \<Rightarrow> (nat \<Rightarrow> bool) \<Rightarrow> u16 \<Rightarrow> u16 \<Rightarrow> 'c Si4684 \<Rightarrow> bool \<times> 'c Si4684" where
  "flashSetProperty dev junk property value s =
     command_ok junk (sendCommand dev SI468X_FLASH_LOAD
       [0x10, 0x00, 0x00, ucast (property AND 0xFF), ucast (drop_bit 8 property AND 0xFF), ucast (value AND 0xFF),
        ucast (drop_bit 8 value AND 0xFF)] 0 WAIT_CTS s)"

definition flashGetProperty :: "'c spi_device \<Rightarrow> u16 \<Rightarrow> 'c Si4684 \<Rightarrow> DABReadProperty option \<times> 'c Si4684" where
  "flashGetProperty dev property s =
     (let (r, s1) = sendCommand dev SI468X_FLASH_LOAD
            [0x11, ucast (property AND 0xFF), ucast (drop_bit 8 property AND 0xFF)] 32 WAIT_CTS s
      in (parse_DABReadProperty r property, s1))"

text \<open>The four properties are read for the log.\<close>

definition readFlashProperties :: "'c spi_device \<Rightarrow> 'c Si4684 \<Rightarrow> DABReadProperty option list \<times> 'c Si4684" where
  "readFlashProperties dev s =
     fold (\<lambda>p (out, s). let (r, s1) = flashGetProperty dev p s in (out @ [r], s1))
       [PROP_FLASH_SPI_SPI_MODE, PROP_FLASH_READ_CMD, PROP_FLASH_WRITE_CMD, PROP_FLASH_ERASE_CHIP_CMD] ([], s)"

definition commandToString :: "u8 \<Rightarrow> string" where
  "commandToString command = (case map_of
      [(SI468X_RD_REPLY, ''RD_REPLY''), (SI468X_POWER_UP, ''POWER_UP''), (SI468X_HOST_LOAD, ''HOST_LOAD''),
       (SI468X_FLASH_LOAD, ''FLASH_LOAD''), (SI468X_LOAD_INIT, ''LOAD_INIT''), (SI468X_BOOT, ''BOOT''),
       (SI468X_GET_PART_INFO, ''GET_PART_INFO''), (SI468X_GET_SYS_STATE, ''GET_SYS_STATE''),
       (SI468X_SET_PROPERTY, ''SET_PROPERTY''), (SI468X_GET_PROPERTY, ''GET_PROPERTY''),
       (SI468X_DAB_TUNE_FREQ, ''DAB_TUNE_FREQ''), (SI468X_DAB_DIGRAD_STATUS, ''DAB_DIGRAD_STATUS''),
       (SI468X_DAB_GET_FREQ_LIST, ''GET_FREQ_LIST''), (SI468X_GET_FUNC_INFO, ''DAB_GET_FUNC_INFO'')] command
     of Some t \<Rightarrow> t | None \<Rightarrow> ''Unknown ('' @ to_string_int (int (unat command)) @ '')'')"

section \<open>Check sums of firmware\<close>

text \<open>
  The template \<open>crc32\<close>, with which \<open>writeFlashImage\<close> computes the check sums it prints: the table is
  generated from the polynomial, and the sum takes the high bit first.
\<close>

definition IEEE8023_CRC32_POLYNOMIAL :: u32 where "IEEE8023_CRC32_POLYNOMIAL = 0x04C11DB7"

primrec crc32_table_elem :: "u32 \<Rightarrow> u8 \<Rightarrow> nat \<Rightarrow> u32" where
  "crc32_table_elem poly index 0 = push_bit 24 (ucast index)"
| "crc32_table_elem poly index (Suc N) =
     (let v = crc32_table_elem poly index N in push_bit 1 v XOR (if v AND 0x80000000 \<noteq> 0 then poly else 0))"

definition crc32_table :: "u32 \<Rightarrow> u32 list" where
  "crc32_table poly = map (\<lambda>i. crc32_table_elem poly (of_nat i) 8) [0..<256]"

definition crc32 :: "u32 \<Rightarrow> u32 \<Rightarrow> bytes \<Rightarrow> u32" where
  "crc32 poly crc xs =
     foldl (\<lambda>crc x. push_bit 8 crc XOR crc32_table poly ! unat ((drop_bit 24 crc XOR ucast x) AND 0xFF)) crc xs"

section \<open>Firmware\<close>

definition powerUp :: "'c spi_device \<Rightarrow> (nat \<Rightarrow> bool) \<Rightarrow> 'c Si4684 \<Rightarrow> bool \<times> 'c Si4684" where
  "powerUp dev junk s =
     command_ok junk (sendCommand dev SI468X_POWER_UP
       [0x00, push_bit 4 1 OR push_bit 0 7, 0x28, 0x00, 0xF8, 0x24, 0x01, 0x28, 0x00 OR push_bit 4 1,
        0x00, 0x00, 0x00, 0x12, 0x00, 0x00] 0 WAIT_CTS s)"

function host_loop :: "'c spi_device \<Rightarrow> (nat \<Rightarrow> bool) \<Rightarrow> bytes \<Rightarrow> 'c Si4684 \<Rightarrow> bool \<times> 'c Si4684" where
  "host_loop dev junk rest s =
     (if rest = [] then (True, s)
      else
       (let amountToSend = (if length rest \<ge> FIRMWARE_BLOCK_SIZE then FIRMWARE_BLOCK_SIZE else length rest);
            (ok, s1) = command_ok junk (sendCommand dev SI468X_HOST_LOAD ([0x00, 0x00, 0x00] @ take amountToSend rest) 0 WAIT_CTS s)
        in if \<not> ok then (False, s1) else host_loop dev junk (drop amountToSend rest) s1))"
  by pat_completeness auto
termination
  by (relation "measure (\<lambda>(dev, junk, rest, s). length rest)") (auto simp: FIRMWARE_BLOCK_SIZE_def)

declare host_loop.simps [simp del]

definition hostLoad :: "'c spi_device \<Rightarrow> (nat \<Rightarrow> bool) \<Rightarrow> (string \<Rightarrow> bytes option) \<Rightarrow> string \<Rightarrow> 'c Si4684 \<Rightarrow> bool \<times> 'c Si4684" where
  "hostLoad dev junk files fileName s =
     (case files fileName of
        None \<Rightarrow> (False, s)
      | Some firmware \<Rightarrow>
         (let (ok, s1) = command_ok junk (sendCommand dev SI468X_LOAD_INIT [0x00] 0 WAIT_CTS s)
          in if \<not> ok then (False, s1) else host_loop dev junk firmware s1))"

definition flashLoad :: "'c spi_device \<Rightarrow> (nat \<Rightarrow> bool) \<Rightarrow> u32 \<Rightarrow> 'c Si4684 \<Rightarrow> bool \<times> 'c Si4684" where
  "flashLoad dev junk address s =
     (let (ok, s1) = command_ok junk (sendCommand dev SI468X_LOAD_INIT [0x00] 0 WAIT_CTS s)
      in if \<not> ok then (False, s1)
         else command_ok junk (sendCommand dev SI468X_FLASH_LOAD
                ([0x00, 0x00, 0x00] @ le_params address @ [0x00, 0x00, 0x00, 0x00]) 4 WAIT_CTS s1))"

text \<open>The variant with a check sum sends neither the sum nor the size.\<close>

definition flashLoad_crc :: "'c spi_device \<Rightarrow> (nat \<Rightarrow> bool) \<Rightarrow> u32 \<Rightarrow> u32 \<Rightarrow> u32 \<Rightarrow> 'c Si4684 \<Rightarrow> bool \<times> 'c Si4684" where
  "flashLoad_crc dev junk address crc sz s =
     (let (ok, s1) = command_ok junk (sendCommand dev SI468X_LOAD_INIT [0x00] 0 WAIT_CTS s)
      in if \<not> ok then (False, s1)
         else command_ok junk (sendCommand dev SI468X_FLASH_LOAD
                ([0x00, 0x00, 0x00] @ le_params address @ [0x00, 0x00, 0x00, 0x00]) 4 WAIT_CTS s1))"

function flash_loop :: "'c spi_device \<Rightarrow> (nat \<Rightarrow> bool) \<Rightarrow> u32 \<Rightarrow> bytes \<Rightarrow> 'c Si4684 \<Rightarrow> bool \<times> 'c Si4684" where
  "flash_loop dev junk currentAddress rest s =
     (if rest = [] then (True, s)
      else
       (let amountToSend = (if length rest \<ge> FIRMWARE_BLOCK_SIZE then FIRMWARE_BLOCK_SIZE else length rest);
            firmwareBlock = take amountToSend rest;
            blockSize = of_nat (length firmwareBlock) :: u32;
            (ok, s1) = command_ok junk (sendCommand dev SI468X_FLASH_LOAD
              ([FLASH_WRITE_BLOCK, 0x0C, 0xED] @ [0x00, 0x00, 0x00, 0x00] @ be_params currentAddress @ be_params blockSize
               @ firmwareBlock) 0 WAIT_CTS s)
        in if \<not> ok then (False, s1) else flash_loop dev junk (currentAddress + blockSize) (drop amountToSend rest) s1))"
  by pat_completeness auto
termination
  by (relation "measure (\<lambda>(dev, junk, a, rest, s). length rest)") (auto simp: FIRMWARE_BLOCK_SIZE_def)

declare flash_loop.simps [simp del]

definition writeFlashImage ::
  "'c spi_device \<Rightarrow> (nat \<Rightarrow> bool) \<Rightarrow> (string \<Rightarrow> bytes option) \<Rightarrow> string \<Rightarrow> u32 \<Rightarrow> 'c Si4684 \<Rightarrow> bool \<times> 'c Si4684" where
  "writeFlashImage dev junk files fileName address s =
     (case files fileName of None \<Rightarrow> (False, s) | Some firmware \<Rightarrow> flash_loop dev junk address firmware s)"

section \<open>Start-up\<close>

record Si4684Settings =
  MiniPatch :: string
  BootFile :: string
  DABFile :: string
  LoadFromFlash :: bool

definition reset :: "'c Si4684 \<Rightarrow> bool \<times> 'c Si4684" where
  "reset s = (True, if has_mainboard s then s\<lparr>tuner_log := tuner_log s @ [TunerReset]\<rparr> else s)"

text \<open>A step that returns from the function when it fails.\<close>

definition or_fail :: "bool \<times> 's \<Rightarrow> ('s \<Rightarrow> bool \<times> 's) \<Rightarrow> bool \<times> 's" where
  "or_fail r f = (if fst r then f (snd r) else r)"

definition load_images ::
  "'c spi_device \<Rightarrow> (nat \<Rightarrow> bool) \<Rightarrow> (string \<Rightarrow> bytes option) \<Rightarrow> Si4684Settings \<Rightarrow> 'c Si4684 \<Rightarrow> bool \<times> 'c Si4684" where
  "load_images dev junk files settings s =
     (if LoadFromFlash settings
      then or_fail (hostLoad dev junk files (MiniPatch settings) s) (\<lambda>s.
           or_fail (flashLoad dev junk BOOT_IMAGE_ADDRESS s)
             (flashLoad dev junk DAB_IMDAGE_ADDRESS))
      else or_fail (hostLoad dev junk files (BootFile settings) s) (\<lambda>s.
           or_fail (hostLoad dev junk files (DABFile settings) (snd (getStatus dev junk s))) (\<lambda>s.
             (True, snd (getStatus dev junk s)))))"

definition init :: "'c spi_device \<Rightarrow> (nat \<Rightarrow> bool) \<Rightarrow> (string \<Rightarrow> bytes option) \<Rightarrow> Si4684Settings \<Rightarrow> 'c Si4684 \<Rightarrow> bool \<times> 'c Si4684" where
  "init dev junk files settings s =
     (if \<not> LoadFromFlash settings \<and> (BootFile settings = '''' \<or> DABFile settings = '''') then (False, s)
      else
        or_fail (powerUp dev junk s) (\<lambda>s.
        or_fail (load_images dev junk files settings s) (\<lambda>s.
        or_fail (command_ok junk (sendCommand dev SI468X_BOOT [0x00] 0 WAIT_CTS s)) (\<lambda>s.
          let (image, s1) = readSysState dev s;
              s2 = snd (sendCommand dev SI468X_GET_PART_INFO [0x00] 23 WAIT_CTS s1);
              s3 = (if has_mainboard s2 then s2\<lparr>tuner_log := tuner_log s2 @ [RadioInputSelected]\<rparr> else s2);
              s4 = snd (setProperty dev junk SI468X_DIGITAL_SERVICE_INT_SOURCE 0x03 s3)
          in (image = 2, s4)))))"

text \<open>
  When everything succeeds, \<open>writeFlash\<close> ends without a return statement: its result is
  undefined, which is the value \<open>None\<close>.
\<close>

definition writeFlash ::
  "'c spi_device \<Rightarrow> (nat \<Rightarrow> bool) \<Rightarrow> (string \<Rightarrow> bytes option) \<Rightarrow> Si4684Settings \<Rightarrow> 'c Si4684 \<Rightarrow> bool option \<times> 'c Si4684" where
  "writeFlash dev junk files settings s =
     (let (ok, s') =
        (if MiniPatch settings = '''' then (False, s)
         else
           or_fail (powerUp dev junk s) (\<lambda>s.
             let s1 = snd (readSysState dev s)
             in if BootFile settings = '''' \<or> DABFile settings = '''' then (False, s1)
                else
                  or_fail (hostLoad dev junk files (BootFile settings) s1) (\<lambda>s.
                  or_fail (command_ok junk (sendCommand dev SI468X_LOAD_INIT [0x00] 0 WAIT_CTS s)) (\<lambda>s.
                  or_fail (command_ok junk (sendCommand dev SI468X_FLASH_LOAD [0xFF, 0xDE, 0xC0] 0 WAIT_CTS s)) (\<lambda>s.
                  or_fail (writeFlashImage dev junk files (BootFile settings) BOOT_IMAGE_ADDRESS s)
                    (writeFlashImage dev junk files (DABFile settings) DAB_IMDAGE_ADDRESS))))))
      in (if ok then None else Some False, s'))"

section \<open>Polling\<close>

text \<open>
  Specification: the statuses that the chip shows when it is polled \<open>k\<close> times. A status answers a
  command when it has the bits waited for or reports an error.
\<close>

primrec polls :: "'c spi_device \<Rightarrow> bytes \<times> 'c Si4684 \<Rightarrow> nat \<Rightarrow> bytes \<times> 'c Si4684" where
  "polls dev r 0 = r"
| "polls dev r (Suc k) = (let (raw, s) = polls dev r k; (_, raw', s') = readWriteData dev [SI468X_RD_REPLY] raw s in (raw', s'))"

definition ready :: "u8 \<Rightarrow> bytes \<Rightarrow> bool" where
  "ready wm raw \<longleftrightarrow> raw ! 0 AND wm = wm"

definition failed :: "bytes \<Rightarrow> bool" where
  "failed raw \<longleftrightarrow> error (parse_DABStatus False raw)"

definition command_polls :: "'c spi_device \<Rightarrow> bytes \<Rightarrow> 'c Si4684 \<Rightarrow> nat \<Rightarrow> bytes \<times> 'c Si4684" where
  "command_polls dev cmd s = polls dev (replicate 5 0, snd (writeData dev cmd s))"

lemma readWriteData_length [simp]: "length (fst (snd (readWriteData dev w r s))) = length r"
  by (simp add: readWriteData_def split_beta Let_def split: option.split)

lemma polls_length [simp]: "length (fst (polls dev r k)) = length (fst r)"
  by (induction k) (simp_all add: split_beta Let_def)

lemma status_loop_step:
  assumes "\<not> ready wm raw" "n < MAX_RETRIES"
    and "\<not> failed (fst (polls dev (raw, s) 1))"
  shows "status_loop dev wm n raw s = status_loop dev wm (Suc n) (fst (polls dev (raw, s) 1)) (snd (polls dev (raw, s) 1))"
  using assms by (subst status_loop.simps) (simp add: ready_def failed_def split_beta Let_def)

lemma polls_shift: "polls dev (polls dev r 1) k = polls dev r (Suc k)"
  by (induction k) (simp_all add: split_beta Let_def)

lemma status_loop_polls:
  assumes "n + k \<le> MAX_RETRIES"
    and "\<forall>j<k. \<not> ready wm (fst (polls dev (raw, s) j))" and "\<forall>j. 0 < j \<and> j \<le> k \<longrightarrow> \<not> failed (fst (polls dev (raw, s) j))"
  shows "status_loop dev wm n raw s = status_loop dev wm (n + k) (fst (polls dev (raw, s) k)) (snd (polls dev (raw, s) k))"
  using assms
proof (induction k)
  case (Suc k)
  let ?p = "polls dev (raw, s) k"
  have "polls dev (fst ?p, snd ?p) 1 = polls dev (raw, s) (Suc k)" by simp
  moreover have "\<not> ready wm (fst ?p)" "\<not> failed (fst (polls dev (raw, s) (Suc k)))" using Suc.prems by auto
  ultimately have "status_loop dev wm (n + k) (fst ?p) (snd ?p) =
      status_loop dev wm (n + Suc k) (fst (polls dev (raw, s) (Suc k))) (snd (polls dev (raw, s) (Suc k)))"
    using status_loop_step [of wm "fst ?p" "n + k" dev "snd ?p"] Suc.prems(1) by simp
  then show ?case using Suc by simp
qed simp

lemma sendCommand_eq:
  "sendCommand dev command param resultLength waitMask s =
     (case status_loop dev waitMask 0 (replicate 5 0) (snd (writeData dev (command # param) s)) of
        (Inl rawStatus, s2) \<Rightarrow> (rawStatus, s2)
      | (Inr (rawStatus, retries), s2) \<Rightarrow>
          if retries < MAX_RETRIES
          then if resultLength > 5
               then (fst (snd (readWriteData dev [SI468X_RD_REPLY] (replicate resultLength 0) s2)),
                     snd (snd (readWriteData dev [SI468X_RD_REPLY] (replicate resultLength 0) s2)))
               else (rawStatus, s2)
          else ([], s2))"
  unfolding sendCommand_def Let_def split_beta
  by (cases "status_loop dev waitMask 0 (replicate 5 0) (snd (writeData dev (command # param) s))")
    (auto simp: split_beta split: sum.split)

lemma poll_zero: "wm \<noteq> 0 \<Longrightarrow> \<not> ready wm (replicate 5 0)"
  by (simp add: ready_def)

text \<open>
  C29. What a command returns is decided by the first status that answers it. If that status, the \<open>k\<close>-th,
  reports an error, the command returns it; if it has the bits waited for and \<open>k\<close> is less than 500, the
  command returns the status, or reads the result when it has more than five bytes; and when
  499 polls are not answered and the 500th shows no error, the command returns nothing, whatever
  the 500th says.
\<close>

theorem sendCommand_outcomes:
  assumes "wm \<noteq> 0" and "0 < k" and "k \<le> 500"
    and "\<forall>j<k. \<not> ready wm (fst (command_polls dev (cmd # param) s j)) \<and> \<not> failed (fst (command_polls dev (cmd # param) s j))"
  defines "raw \<equiv> fst (command_polls dev (cmd # param) s k)" and "s' \<equiv> snd (command_polls dev (cmd # param) s k)"
  shows "(failed raw \<longrightarrow> fst (sendCommand dev cmd param n wm s) = raw) \<and>
     (\<not> failed raw \<and> ready wm raw \<and> k < 500 \<longrightarrow>
        sendCommand dev cmd param n wm s =
          (if 5 < n then snd (readWriteData dev [SI468X_RD_REPLY] (replicate n 0) s') else (raw, s'))) \<and>
     (\<not> failed raw \<and> k = 500 \<longrightarrow> fst (sendCommand dev cmd param n wm s) = [])"
proof -
  define s1 where "s1 = snd (writeData dev (cmd # param) s)"
  define p where "p = polls dev (replicate 5 0, s1)"
  have cp: "command_polls dev (cmd # param) s = p" by (simp add: command_polls_def p_def s1_def fun_eq_iff)
  note raw = raw_def [unfolded cp] and s' = s'_def [unfolded cp]
  have quiet: "\<forall>j<k. \<not> ready wm (fst (p j)) \<and> \<not> failed (fst (p j))" using assms(4) by (simp add: cp)
  obtain i where i: "k = Suc i" using assms(2) by (cases k) auto
  have max: "MAX_RETRIES = 500" by (simp add: MAX_RETRIES_def)
  have start: "status_loop dev wm 0 (replicate 5 0) s1 = status_loop dev wm i (fst (p i)) (snd (p i))"
    using status_loop_polls [of 0 i wm dev "replicate 5 0" s1] quiet assms(3) i max unfolding p_def by simp
  have next_poll: "polls dev (fst (p i), snd (p i)) 1 = p k" by (simp add: i p_def)
  have loop: "\<not> ready wm (fst (p i))" "i < MAX_RETRIES" using quiet i assms(3) max by auto
  show ?thesis
  proof (cases "failed raw")
    case True
    then have "\<exists>t. status_loop dev wm i (fst (p i)) (snd (p i)) = (Inl raw, t)"
      using loop next_poll unfolding raw
      by (subst status_loop.simps) (auto simp: ready_def failed_def split_beta Let_def)
    then show ?thesis using True start by (auto simp: sendCommand_eq s1_def)
  next
    case False
    then have "status_loop dev wm 0 (replicate 5 0) s1 = status_loop dev wm k raw s'"
      using status_loop_step [of wm "fst (p i)" i dev "snd (p i)"] loop next_poll start i unfolding raw s' by simp
    moreover have "status_loop dev wm k raw s' = (Inr (raw, k), s')" if "ready wm raw \<or> k = 500"
      using that max by (subst status_loop.simps) (auto simp: ready_def)
    ultimately show ?thesis using False max by (auto simp: sendCommand_eq s1_def)
  qed
qed

definition prompt_chip :: "unit spi_device" where
  "prompt_chip = (\<lambda>w n c. (Some (\<lambda>i. if i = 0 then 0x80 else 0), c))"

definition ex_tuner :: "unit Si4684" where
  "ex_tuner = \<lparr>chip = (), has_mainboard = True, tuner_log = []\<rparr>"

theorem sendCommand_outcomes_witness:
  "sendCommand prompt_chip SI468X_BOOT [0] 4 WAIT_CTS ex_tuner =
     ([0x80, 0, 0, 0, 0], ex_tuner\<lparr>tuner_log := [SpiTransfer [7, 0] 0, SpiTransfer [0] 5]\<rparr>)"
proof -
  have five: "replicate 5 x = [x, x, x, x, x]" "[0..<5] = [0, 1, 2, 3, 4]" for x :: u8
    by (simp_all add: numeral_eq_Suc upt_rec)
  show ?thesis
    using sendCommand_outcomes [of WAIT_CTS 1 prompt_chip SI468X_BOOT "[0]" ex_tuner 4]
    by (simp add: WAIT_CTS_def SI468X_BOOT_def SI468X_RD_REPLY_def command_polls_def writeData_def readWriteData_def
        prompt_chip_def ready_def failed_def error_def parse_DABStatus_def DABStatus_init_def ex_tuner_def five Let_def)
qed

lemma silent_command:
  assumes "wm \<noteq> 0"
    and "\<forall>j\<le>500. \<not> ready wm (fst (command_polls dev (cmd # param) s j)) \<and> \<not> failed (fst (command_polls dev (cmd # param) s j))"
  shows "fst (sendCommand dev cmd param n wm s) = []"
proof -
  define s1 where "s1 = snd (writeData dev (cmd # param) s)"
  have "status_loop dev wm 0 (replicate 5 0) s1 =
      status_loop dev wm 500 (fst (polls dev (replicate 5 0, s1) 500)) (snd (polls dev (replicate 5 0, s1) 500))"
    using status_loop_polls [of 0 500 wm dev "replicate 5 0" s1] assms
    by (simp add: MAX_RETRIES_def command_polls_def s1_def)
  also have "\<dots> = (Inr (fst (polls dev (replicate 5 0, s1) 500), 500), snd (polls dev (replicate 5 0, s1) 500))"
    by (subst status_loop.simps) (simp add: MAX_RETRIES_def)
  finally show ?thesis by (simp add: sendCommand_eq s1_def MAX_RETRIES_def)
qed

text \<open>
  The command that a silent chip never answers returns nothing, and the status built from nothing shows
  an error only if the member \<open>ERRNR\<close>, which the constructor does not set, happens to be set.
\<close>

theorem silent_chip_powers_up:
  assumes "\<forall>j\<le>500. \<not> ready WAIT_CTS (fst (polls dev (replicate 5 0, snd (writeData dev cmd s)) j)) \<and>
             \<not> failed (fst (polls dev (replicate 5 0, snd (writeData dev cmd s)) j))"
    and "cmd = SI468X_POWER_UP # [0x00, push_bit 4 1 OR push_bit 0 7, 0x28, 0x00, 0xF8, 0x24, 0x01, 0x28, 0x00 OR push_bit 4 1,
        0x00, 0x00, 0x00, 0x12, 0x00, 0x00]"
  shows "fst (powerUp dev (\<lambda>_. False) s)"
proof -
  have "WAIT_CTS \<noteq> 0" by (simp add: WAIT_CTS_def)
  from silent_command [OF this, of dev SI468X_POWER_UP "tl cmd" s 0] assms
  have "fst (sendCommand dev SI468X_POWER_UP (tl cmd) 0 WAIT_CTS s) = []" by (simp add: command_polls_def)
  then show ?thesis
    using assms(2) by (simp add: powerUp_def command_ok_def status_of_def parse_DABStatus_def DABStatus_init_def error_def Let_def)
qed

section \<open>The log of a command\<close>

definition is_poll :: "tuner_event \<Rightarrow> bool" where
  "is_poll e \<longleftrightarrow> (\<exists>n>0. e = SpiTransfer [SI468X_RD_REPLY] n)"

lemma readWriteData_log [simp]:
  "tuner_log (snd (snd (readWriteData dev w r s))) = tuner_log s @ [SpiTransfer w (length r)]"
  by (simp add: readWriteData_def split_beta Let_def split: option.split)

lemma writeData_log [simp]: "tuner_log (snd (writeData dev w s)) = tuner_log s @ [SpiTransfer w 0]"
  using readWriteData_log [of dev w "[]" s] by (simp add: writeData_def split_beta Let_def)

lemma status_loop_log:
  "raw \<noteq> [] \<Longrightarrow> n \<le> MAX_RETRIES \<Longrightarrow> \<exists>ps. tuner_log (snd (status_loop dev wm n raw s)) = tuner_log s @ ps \<and>
     list_all is_poll ps \<and> length ps \<le> Suc (MAX_RETRIES - n)"
proof (induction dev wm n raw s rule: status_loop.induct)
  case (1 dev wm n raw s)
  define r where "r = readWriteData dev [SI468X_RD_REPLY] raw s"
  let ?raw = "fst (snd r)" and ?s = "snd (snd r)"
  have r: "tuner_log ?s = tuner_log s @ [SpiTransfer [SI468X_RD_REPLY] (length raw)]" "?raw \<noteq> []"
    using "1.prems"(1) readWriteData_length [of dev "[SI468X_RD_REPLY]" raw s] by (auto simp: r_def simp del: readWriteData_length)
  have p: "is_poll (SpiTransfer [SI468X_RD_REPLY] (length raw))" "is_poll (SpiTransfer [SI468X_RD_REPLY] 6)"
    using "1.prems"(1) by (simp_all add: is_poll_def)
  show ?case
  proof (cases "raw ! 0 AND wm \<noteq> wm \<and> n < MAX_RETRIES")
    case False
    then show ?thesis by (subst status_loop.simps) auto
  next
    case True
    show ?thesis
    proof (cases "error (parse_DABStatus False ?raw)")
      case err: True
      let ?ps = "[SpiTransfer [SI468X_RD_REPLY] (length raw), SpiTransfer [SI468X_RD_REPLY] 6]"
      have "tuner_log (snd (status_loop dev wm n raw s)) = tuner_log s @ ?ps"
        using True err r by (subst status_loop.simps) (simp add: r_def split_beta Let_def)
      then show ?thesis using p True by (intro exI [of _ ?ps]) auto
    next
      case ok: False
      obtain ps where "tuner_log (snd (status_loop dev wm (Suc n) ?raw ?s)) = tuner_log ?s @ ps"
          "list_all is_poll ps" "length ps \<le> Suc (MAX_RETRIES - Suc n)"
        using "1.IH" [of r "fst r" "snd r" ?raw ?s] True ok r by (auto simp: r_def)
      moreover have "status_loop dev wm n raw s = status_loop dev wm (Suc n) ?raw ?s"
        using True ok by (subst status_loop.simps) (simp add: r_def split_beta Let_def)
      ultimately show ?thesis
        using p r True by (intro exI [of _ "SpiTransfer [SI468X_RD_REPLY] (length raw) # ps"]) auto
    qed
  qed
qed

lemma sendCommand_log:
  "\<exists>ps. tuner_log (snd (sendCommand dev cmd param n wm s)) = tuner_log s @ SpiTransfer (cmd # param) 0 # ps \<and>
     list_all is_poll ps \<and> length ps \<le> 502"
proof -
  define s1 where "s1 = snd (writeData dev (cmd # param) s)"
  obtain ps where ps: "tuner_log (snd (status_loop dev wm 0 (replicate 5 0) s1)) = tuner_log s1 @ ps"
      "list_all is_poll ps" "length ps \<le> 501"
    using status_loop_log [of "replicate 5 0" 0 dev wm s1] by (auto simp: MAX_RETRIES_def)
  obtain out s2 where out: "status_loop dev wm 0 (replicate 5 0) s1 = (out, s2)" by force
  have poll: "is_poll (SpiTransfer [SI468X_RD_REPLY] n)" if "5 < n" using that by (auto simp: is_poll_def)
  have "\<exists>qs. tuner_log (snd (sendCommand dev cmd param n wm s)) = tuner_log s2 @ qs \<and> list_all is_poll qs \<and> length qs \<le> 1"
    using poll by (auto simp: sendCommand_eq s1_def [symmetric] out split: sum.split)
  moreover have "tuner_log s2 = tuner_log s @ SpiTransfer (cmd # param) 0 # ps" using ps(1) out by (simp add: s1_def)
  ultimately show ?thesis using ps(2,3) by fastforce
qed

lemma command_ok_snd [simp]: "snd (command_ok junk r) = snd r"
  by (simp add: command_ok_def status_of_def Let_def)

section \<open>Loading firmware\<close>

text \<open>What the chip receives as firmware: the payload of every \<open>HOST_LOAD\<close> command.\<close>

fun host_payload :: "tuner_event \<Rightarrow> bytes" where
  "host_payload (SpiTransfer w n) = (if n = 0 \<and> take 4 w = [SI468X_HOST_LOAD, 0, 0, 0] then drop 4 w else [])"
| "host_payload _ = []"

definition loaded :: "tuner_event list \<Rightarrow> bytes" where
  "loaded es = concat (map host_payload es)"

fun transfer_size :: "tuner_event \<Rightarrow> nat" where
  "transfer_size (SpiTransfer w n) = length w"
| "transfer_size _ = 0"

lemma loaded_append [simp]: "loaded (xs @ ys) = loaded xs @ loaded ys" "loaded (x # xs) = host_payload x @ loaded xs" "loaded [] = []"
  by (simp_all add: loaded_def)

lemma loaded_polls [simp]: "list_all is_poll ps \<Longrightarrow> loaded ps = []"
  by (induction ps) (auto simp: is_poll_def)

lemma polls_small: "list_all is_poll ps \<Longrightarrow> e \<in> set ps \<Longrightarrow> transfer_size e = 1"
  by (auto simp: list_all_iff is_poll_def)

lemma host_loop_log:
  "\<exists>es rest'. tuner_log (snd (host_loop dev junk rest s)) = tuner_log s @ es \<and> rest = loaded es @ rest' \<and>
     (fst (host_loop dev junk rest s) \<longrightarrow> rest' = []) \<and> (\<forall>e\<in>set es. transfer_size e \<le> 2052)"
proof (induction dev junk rest s rule: host_loop.induct)
  case (1 dev junk rest s)
  show ?case
  proof (cases "rest = []")
    case True
    then show ?thesis by (intro exI [of _ "[]"]) (simp add: host_loop.simps)
  next
    case False
    define m where "m = (if length rest \<ge> FIRMWARE_BLOCK_SIZE then FIRMWARE_BLOCK_SIZE else length rest)"
    define r where "r = command_ok junk (sendCommand dev SI468X_HOST_LOAD ([0x00, 0x00, 0x00] @ take m rest) 0 WAIT_CTS s)"
    let ?e = "SpiTransfer (SI468X_HOST_LOAD # [0x00, 0x00, 0x00] @ take m rest) 0"
    obtain ps where ps: "tuner_log (snd r) = tuner_log s @ ?e # ps" "list_all is_poll ps"
      using sendCommand_log [of dev SI468X_HOST_LOAD "[0x00, 0x00, 0x00] @ take m rest" 0 WAIT_CTS s] by (auto simp: r_def)
    have small: "\<forall>e\<in>set (?e # ps). transfer_size e \<le> 2052"
      using polls_small [OF ps(2)] by (auto simp: m_def FIRMWARE_BLOCK_SIZE_def)
    have pay: "loaded (?e # ps) = take m rest" using ps(2) by simp
    have step: "host_loop dev junk rest s = (if \<not> fst r then (False, snd r) else host_loop dev junk (drop m rest) (snd r))"
      using False by (subst host_loop.simps) (simp add: m_def [symmetric] r_def split_beta Let_def)
    show ?thesis
    proof (cases "fst r")
      case bad: False
      then show ?thesis
        using step ps(1) pay small by (intro exI [of _ "?e # ps"] exI [of _ "drop m rest"]) auto
    next
      case ok: True
      have r: "(fst r, snd r) = r" by simp
      obtain es rest' where IH: "tuner_log (snd (host_loop dev junk (drop m rest) (snd r))) = tuner_log (snd r) @ es"
          "drop m rest = loaded es @ rest'" "fst (host_loop dev junk (drop m rest) (snd r)) \<longrightarrow> rest' = []"
          "\<forall>e\<in>set es. transfer_size e \<le> 2052"
        using "1.IH" [OF False m_def r_def r] ok by blast
      have "rest = loaded ((?e # ps) @ es) @ rest'"
        using IH(2) pay append_take_drop_id [of m rest] by (simp only: loaded_append(1) append_assoc)
      then show ?thesis
        using step ok ps(1) IH small by (intro exI [of _ "(?e # ps) @ es"] exI [of _ rest']) auto
    qed
  qed
qed

text \<open>
  C30. Firmware reaches the chip whole and in order: whatever the chip answers, the blocks that \<open>hostLoad\<close>
  sends after the start command are together a beginning of the file, all of it when
  \<open>hostLoad\<close> succeeds, and no transfer is longer than the 2052 bytes of a full block.
\<close>

theorem firmware_loaded_whole:
  assumes "files fileName = Some firmware"
  shows "\<exists>es rest. tuner_log (snd (hostLoad dev junk files fileName s)) = tuner_log s @ es \<and> firmware = loaded es @ rest \<and>
     (fst (hostLoad dev junk files fileName s) \<longrightarrow> rest = []) \<and> (\<forall>e\<in>set es. transfer_size e \<le> 2052)"
proof -
  define r where "r = command_ok junk (sendCommand dev SI468X_LOAD_INIT [0x00] 0 WAIT_CTS s)"
  let ?e = "SpiTransfer [SI468X_LOAD_INIT, 0x00] 0"
  obtain ps where ps: "tuner_log (snd r) = tuner_log s @ ?e # ps" "list_all is_poll ps"
    using sendCommand_log [of dev SI468X_LOAD_INIT "[0x00]" 0 WAIT_CTS s] by (auto simp: r_def)
  have pay: "loaded (?e # ps) = []" using ps(2) by (simp add: SI468X_LOAD_INIT_def SI468X_HOST_LOAD_def)
  have small: "\<forall>e\<in>set (?e # ps). transfer_size e \<le> 2052" using polls_small [OF ps(2)] by auto
  have step: "hostLoad dev junk files fileName s = (if \<not> fst r then (False, snd r) else host_loop dev junk firmware (snd r))"
    using assms by (simp add: hostLoad_def r_def split_beta Let_def)
  obtain es rest' where loop: "tuner_log (snd (host_loop dev junk firmware (snd r))) = tuner_log (snd r) @ es"
      "firmware = loaded es @ rest'" "fst (host_loop dev junk firmware (snd r)) \<longrightarrow> rest' = []" "\<forall>e\<in>set es. transfer_size e \<le> 2052"
    using host_loop_log [of dev junk firmware "snd r"] by auto
  show ?thesis
  proof (cases "fst r")
    case False
    then show ?thesis using step ps(1) pay small by (intro exI [of _ "?e # ps"] exI [of _ firmware]) auto
  next
    case True
    have "firmware = loaded ((?e # ps) @ es) @ rest'" using loop(2) pay by (simp only: loaded_append(1) append_Nil)
    then show ?thesis using True step ps(1) loop small by (intro exI [of _ "(?e # ps) @ es"] exI [of _ rest']) auto
  qed
qed

theorem firmware_loaded_whole_witness:
  "\<exists>es rest. tuner_log (snd (hostLoad prompt_chip (\<lambda>_. False) [''boot'' \<mapsto> [1, 2, 3]] ''boot'' ex_tuner)) = tuner_log ex_tuner @ es \<and>
     [1, 2, 3] = loaded es @ rest \<and> (\<forall>e\<in>set es. transfer_size e \<le> 2052)"
  using firmware_loaded_whole [of "[''boot'' \<mapsto> [1, 2, 3]]" "''boot''" "[1, 2, 3]" prompt_chip "\<lambda>_. False" ex_tuner] by auto

section \<open>The flash memory\<close>

text \<open>
  What the flash memory holds after a sequence of transfers: a write command carries the address and
  the number of its bytes, high byte first.
\<close>

definition overlay :: "u32 \<Rightarrow> bytes \<Rightarrow> (u32 \<Rightarrow> u8) \<Rightarrow> u32 \<Rightarrow> u8" where
  "overlay a d m x = (if unat (x - a) < length d then d ! unat (x - a) else m x)"

definition be_at :: "bytes \<Rightarrow> nat \<Rightarrow> u32" where
  "be_at w i = u32_at (rev (take 4 (drop i w))) 0"

fun flash_write :: "tuner_event \<Rightarrow> (u32 \<Rightarrow> u8) \<Rightarrow> u32 \<Rightarrow> u8" where
  "flash_write (SpiTransfer w n) m =
     (if n = 0 \<and> take 8 w = [SI468X_FLASH_LOAD, FLASH_WRITE_BLOCK, 0x0C, 0xED, 0, 0, 0, 0]
      then overlay (be_at w 8) (take (unat (be_at w 12)) (drop 16 w)) m else m)"
| "flash_write _ m = m"

definition flash_after :: "tuner_event list \<Rightarrow> (u32 \<Rightarrow> u8) \<Rightarrow> u32 \<Rightarrow> u8" where
  "flash_after es m = fold flash_write es m"

lemma overlay_empty [simp]: "overlay a [] m = m"
  by (simp add: overlay_def fun_eq_iff)

lemma unat_minus_if:
  fixes x a :: u32
  assumes "k < 2 ^ 32"
  shows "unat (x - (a + of_nat k)) = (if k \<le> unat (x - a) then unat (x - a) - k else unat (x - a) + 2 ^ 32 - k)"
proof -
  have "unat (of_nat k :: u32) = k" using assms by (simp add: unat_of_nat take_bit_nat_eq_self)
  then show ?thesis using unat_sub_if' [of "x - a" "of_nat k"] unfolding diff_diff_add by simp
qed

lemma overlay_split:
  assumes "length d \<le> 2 ^ 32" "k < length d"
  shows "overlay (a + of_nat k) (drop k d) (overlay a (take k d) m) = overlay a d m"
proof
  fix x
  have "k < 2 ^ 32" "unat (x - a) < 2 ^ 32" using assms unsigned_less [of "x - a", where 'a = nat] by simp_all
  then show "overlay (a + of_nat k) (drop k d) (overlay a (take k d) m) x = overlay a d m x"
    unfolding overlay_def unat_minus_if [OF \<open>k < 2 ^ 32\<close>] using assms by auto
qed

lemma be_at_params:
  assumes "length u = i"
  shows "be_at (u @ be_params x @ v) i = x"
proof -
  have m: "(0xFF :: u32) = mask 8" by (simp add: mask_eq_exp_minus_1)
  have "ucast (y AND 0xFF) = (ucast y :: u8)" for y :: u32
    unfolding m by (rule bit_word_eqI) (auto simp: bit_simps)
  then have "rev (be_params x) = le32_bytes x" by (simp add: be_params_def le32_bytes_def)
  moreover have "take 4 (drop i (u @ be_params x @ v)) = be_params x" using assms by (simp add: be_params_def)
  ultimately show ?thesis using u32_at_le32 [of x "[]"] by (simp add: be_at_def)
qed

lemma flash_after_polls [simp]: "list_all is_poll ps \<Longrightarrow> flash_after ps m = m"
  by (induction ps arbitrary: m) (auto simp: flash_after_def is_poll_def)

lemma flash_after_append [simp]: "flash_after (xs @ ys) m = flash_after ys (flash_after xs m)"
  "flash_after (x # ys) m = flash_after ys (flash_write x m)" "flash_after [] m = m"
  by (simp_all add: flash_after_def)

lemma flash_write_block:
  assumes "length block < 2 ^ 32"
  shows "flash_write (SpiTransfer (SI468X_FLASH_LOAD # [FLASH_WRITE_BLOCK, 0x0C, 0xED] @ [0, 0, 0, 0] @ be_params a
      @ be_params (of_nat (length block)) @ block) 0) m = overlay a block m"
proof -
  let ?h = "[SI468X_FLASH_LOAD, FLASH_WRITE_BLOCK, 0x0C, 0xED, 0, 0, 0, 0]"
  let ?n = "of_nat (length block) :: u32"
  define w where "w = ?h @ be_params a @ be_params ?n @ block"
  have "be_at w 8 = a" unfolding w_def by (rule be_at_params) simp
  moreover have "be_at w 12 = ?n"
    using be_at_params [of "?h @ be_params a" 12 ?n block] by (simp add: w_def be_params_def)
  moreover have "unat ?n = length block" using assms by (simp add: unat_of_nat take_bit_nat_eq_self)
  moreover have "drop 16 w = block" by (simp add: w_def be_params_def)
  moreover have "take 8 w = ?h" by (simp add: w_def)
  ultimately have "flash_write (SpiTransfer w 0) m = overlay a block m" by simp
  then show ?thesis by (simp add: w_def)
qed

lemma flash_loop_log:
  "length rest \<le> 2 ^ 32 \<Longrightarrow>
   \<exists>es k. tuner_log (snd (flash_loop dev junk a rest s)) = tuner_log s @ es \<and>
     (\<forall>m. flash_after es m = overlay a (take k rest) m) \<and> (fst (flash_loop dev junk a rest s) \<longrightarrow> length rest \<le> k)"
proof (induction dev junk a rest s rule: flash_loop.induct)
  case (1 dev junk a rest s)
  show ?case
  proof (cases "rest = []")
    case True
    then show ?thesis by (intro exI [of _ "[]"]) (simp add: flash_loop.simps)
  next
    case False
    define c where "c = (if length rest \<ge> FIRMWARE_BLOCK_SIZE then FIRMWARE_BLOCK_SIZE else length rest)"
    define block where "block = take c rest"
    define n where "n = (of_nat (length block) :: u32)"
    define par where "par = [FLASH_WRITE_BLOCK, 0x0C, 0xED] @ [0x00, 0x00, 0x00, 0x00] @ be_params a @ be_params n @ block"
    define r where "r = command_ok junk (sendCommand dev SI468X_FLASH_LOAD par 0 WAIT_CTS s)"
    let ?e = "SpiTransfer (SI468X_FLASH_LOAD # par) 0"
    obtain ps where ps: "tuner_log (snd r) = tuner_log s @ ?e # ps" "list_all is_poll ps"
      using sendCommand_log [of dev SI468X_FLASH_LOAD par 0 WAIT_CTS s] by (auto simp: r_def)
    have c: "0 < c" "c \<le> length rest" "c \<le> 2048" using False by (auto simp: c_def FIRMWARE_BLOCK_SIZE_def)
    have "length block < 2 ^ 32" using c by (simp add: block_def)
    then have "flash_write ?e m = overlay a block m" for m
      unfolding par_def n_def by (rule flash_write_block)
    then have one: "flash_after (?e # ps) m = overlay a (take c rest) m" for m
      using ps(2) by (simp only: flash_after_append(2) flash_after_polls block_def)
    have step: "flash_loop dev junk a rest s = (if \<not> fst r then (False, snd r) else flash_loop dev junk (a + n) (drop c rest) (snd r))"
      using False unfolding r_def par_def n_def block_def c_def
      by (subst flash_loop.simps) (simp only: Let_def split_beta if_False)
    show ?thesis
    proof (cases "fst r")
      case bad: False
      then show ?thesis using step ps(1) one by (intro exI [of _ "?e # ps"] exI [of _ c]) auto
    next
      case ok: True
      have r: "(fst r, snd r) = r" by simp
      have short: "length (drop c rest) \<le> 2 ^ 32" using "1.prems" by simp
      obtain es k where IH: "tuner_log (snd (flash_loop dev junk (a + n) (drop c rest) (snd r))) = tuner_log (snd r) @ es"
          "\<forall>m. flash_after es m = overlay (a + n) (take k (drop c rest)) m"
          "fst (flash_loop dev junk (a + n) (drop c rest) (snd r)) \<longrightarrow> length (drop c rest) \<le> k"
        using "1.IH" [OF False c_def block_def n_def r_def [unfolded par_def] r] ok short by blast
      have "n = of_nat c" using c by (simp add: n_def block_def)
      moreover have "take c (take (c + k) rest) = take c rest" "drop c (take (c + k) rest) = take k (drop c rest)"
        by (simp_all add: drop_take)
      ultimately have "flash_after ((?e # ps) @ es) m = overlay a (take (c + k) rest) m" for m
      proof (cases "c < length (take (c + k) rest)")
        case True
        then show ?thesis
          using overlay_split [of "take (c + k) rest" c a m] IH(2) one \<open>n = of_nat c\<close> "1.prems"
          by (simp only: flash_after_append(1)) (simp add: drop_take)
      next
        case False
        then have "take k (drop c rest) = []" "take (c + k) rest = take c rest" using c by auto
        then show ?thesis using IH(2) one by (simp only: flash_after_append(1)) simp
      qed
      then show ?thesis
        using step ok ps(1) IH c by (intro exI [of _ "(?e # ps) @ es"] exI [of _ "c + k"]) auto
    qed
  qed
qed

text \<open>
  A firmware image is written to consecutive addresses: after \<open>writeFlashImage\<close> succeeds, the flash memory
  holds the whole file from the given address on and is unchanged elsewhere; after a failure it
  holds a beginning of the file there.
\<close>

theorem flash_image_written:
  assumes "files fileName = Some firmware" and "length firmware \<le> 2 ^ 32"
  shows "\<exists>es k. tuner_log (snd (writeFlashImage dev junk files fileName a s)) = tuner_log s @ es \<and>
     (fst (writeFlashImage dev junk files fileName a s) \<longrightarrow> length firmware \<le> k) \<and>
     (\<forall>m x. flash_after es m x = (if unat (x - a) < min k (length firmware) then firmware ! unat (x - a) else m x))"
proof -
  obtain es k where "tuner_log (snd (flash_loop dev junk a firmware s)) = tuner_log s @ es"
      "\<forall>m. flash_after es m = overlay a (take k firmware) m" "fst (flash_loop dev junk a firmware s) \<longrightarrow> length firmware \<le> k"
    using flash_loop_log [OF assms(2), of dev junk a s] by blast
  then show ?thesis
    using assms(1) by (intro exI [of _ es] exI [of _ k]) (simp add: writeFlashImage_def overlay_def)
qed

theorem flash_image_written_witness:
  "\<exists>es k. tuner_log (snd (writeFlashImage prompt_chip (\<lambda>_. False) [''dab'' \<mapsto> [4, 5]] ''dab'' DAB_IMDAGE_ADDRESS ex_tuner)) = tuner_log ex_tuner @ es \<and>
     (\<forall>m x. flash_after es m x = (if unat (x - DAB_IMDAGE_ADDRESS) < min k 2 then [4, 5] ! unat (x - DAB_IMDAGE_ADDRESS) else m x))"
  using flash_image_written [of "[''dab'' \<mapsto> [4, 5]]" "''dab''" "[4, 5]" prompt_chip "\<lambda>_. False" DAB_IMDAGE_ADDRESS ex_tuner]
  by auto

section \<open>The check sum is that of the bitwise division\<close>

definition div_bit :: "u32 \<Rightarrow> u32 \<Rightarrow> u32" where
  "div_bit poly c = (if bit c 31 then push_bit 1 c XOR poly else push_bit 1 c)"

lemma div_bit_xor: "div_bit poly (a XOR b) = div_bit poly a XOR div_bit poly b"
  by (rule bit_word_eqI) (auto simp: div_bit_def bit_simps)

lemma div_bits_xor: "(div_bit poly ^^ n) (a XOR b) = (div_bit poly ^^ n) a XOR (div_bit poly ^^ n) b"
  by (induction n) (simp_all add: div_bit_xor)

lemma div_bits_low: "(\<forall>i. 32 - n \<le> i \<longrightarrow> \<not> bit a i) \<Longrightarrow> n \<le> 32 \<Longrightarrow> (div_bit poly ^^ n) a = push_bit n a"
proof (induction n)
  case (Suc n)
  then have IH: "(div_bit poly ^^ n) a = push_bit n a" by simp
  have "\<not> bit (push_bit n a) 31" using Suc.prems by (auto simp: bit_simps)
  then have "div_bit poly (push_bit n a) = push_bit 1 (push_bit n a)" by (simp only: div_bit_def if_False)
  then show ?case by (simp only: funpow.simps comp_def IH push_bit_push_bit) simp
qed simp

lemma table_elem: "crc32_table_elem poly x n = (div_bit poly ^^ n) (push_bit 24 (ucast x))"
proof (induction n)
  case (Suc n)
  have "v AND 0x80000000 \<noteq> 0 \<longleftrightarrow> bit v 31" for v :: u32
    using bit_iff_and_push_bit_not_eq_0 [of v 31] by simp
  then show ?case by (simp add: Suc Let_def div_bit_def)
qed simp

theorem crc32_divides:
  "crc32 poly crc xs = foldl (\<lambda>c x. (div_bit poly ^^ 8) (c XOR push_bit 24 (ucast x))) crc xs"
proof -
  have "push_bit 8 c XOR crc32_table poly ! unat ((drop_bit 24 c XOR ucast x) AND 0xFF) =
      (div_bit poly ^^ 8) (c XOR push_bit 24 (ucast (x :: u8)))" for c :: u32 and x
  proof -
    have m: "(0xFF :: u32) = mask 8" by (simp add: mask_eq_exp_minus_1)
    define i where "i = (drop_bit 24 c XOR ucast x) AND 0xFF"
    have "i = take_bit 8 (drop_bit 24 c XOR ucast x)" unfolding i_def m by (simp add: take_bit_eq_mask)
    then have "unat i = take_bit 8 (unat (drop_bit 24 c XOR ucast x))" by (simp only: unsigned_take_bit_eq)
    then have i: "unat i < 256" using take_bit_nat_less_exp [of 8 "unat (drop_bit 24 c XOR ucast x)"] by simp
    have split: "c XOR push_bit 24 (ucast x) = (c AND mask 24) XOR push_bit 24 (ucast (ucast i :: u8))"
      unfolding i_def m by (rule bit_word_eqI) (auto simp: bit_simps)
    have "(div_bit poly ^^ 8) (c AND mask 24) = push_bit 8 (c AND mask 24)"
      by (rule div_bits_low) (auto simp: bit_simps)
    also have "\<dots> = push_bit 8 c" by (rule bit_word_eqI) (auto simp: bit_simps)
    finally show ?thesis
      unfolding split div_bits_xor i_def [symmetric] using i by (simp add: crc32_table_def table_elem)
  qed
  then show ?thesis by (simp add: crc32_def)
qed

end
