(* ===== verification/Radio.thy ===== *)
theory Radio
  imports Device_Timers Keyboard
begin

text \<open>
  The radio of a unit (\<open>rgbclock/RgbLib/src/lib/Radio.cpp\<close>): the volume and power state of the
  amplifier, its two timers, and what it tells the amplifier, the DAB receiver and its observers,
  recorded in order in \<open>radio_log\<close>. Undefined behaviour of the source (the conversion of a
  negative attenuation to \<open>uint8_t\<close>, or the undefined cases of the dimmer timer) sets \<open>radio_ub\<close>.
\<close>

section \<open>State\<close>

datatype RadioState = PwrOff | PwrOn | Wakeup

datatype radio_event =
    AmpWrite bytes
  | RadioStateUpdate nat RadioState u8
  | DabPowerOn | DabPowerOff
  | DabRegister nat | DabUnRegister nat

record Radio =
  mMaskRegister :: u8
  mControlRegister :: u8
  mCurrentVolume :: u8
  mStoredVolume :: u8
  mRadioObservers :: "nat list"
  mRadioState :: RadioState
  mUpDownTimer :: UpDownTimer
  mAutoPowerOffTimer :: AutoPowerOffTimer
  radio_log :: "radio_event list"
  radio_ub :: bool

definition AUTO_OFF_MINUTES :: int where "AUTO_OFF_MINUTES = 60"
definition STARTUP_VOLUME :: u8 where "STARTUP_VOLUME = 30"
definition SLOWUP_MINUTES :: int where "SLOWUP_MINUTES = 5"
definition SLOW_VOLUME_START_VOLUME :: u8 where "SLOW_VOLUME_START_VOLUME = 5"

lemmas radio_consts =
  AUTO_OFF_MINUTES_def STARTUP_VOLUME_def SLOWUP_MINUTES_def SLOW_VOLUME_START_VOLUME_def

section \<open>Talking to the amplifier and the observers\<close>

definition radio_emit :: "radio_event list \<Rightarrow> Radio \<Rightarrow> Radio" where
  "radio_emit es r = r\<lparr>radio_log := radio_log r @ es\<rparr>"

definition notifyObservers :: "Radio \<Rightarrow> Radio" where
  "notifyObservers r =
     radio_emit (map (\<lambda>p. RadioStateUpdate p (mRadioState r) (mCurrentVolume r)) (mRadioObservers r)) r"

text \<open>
  The attenuation \<open>ceil(64 - volume / 100 * 64.0)\<close>. The quotient is exact for the multiples of 25,
  where the attenuation is an integer, and elsewhere the rounding error is far below the distance
  to the next integer, so the ceiling is that of the exact value. It is negative from volume 102.
\<close>

definition attenuation :: "u8 \<Rightarrow> u8 option" where
  "attenuation vol =
     (let att = 64 - int (unat vol) * 64 div 100 in if att < 0 then None else Some (of_int att))"

definition writeRegisters :: "Radio \<Rightarrow> Radio" where
  "writeRegisters r =
     (case attenuation (mCurrentVolume r) of
        None \<Rightarrow> r\<lparr>radio_ub := True\<rparr>
      | Some att \<Rightarrow> notifyObservers
          (radio_emit [AmpWrite [att, att, att, att, mMaskRegister r, mControlRegister r]] r))"

definition registerFMReceiver :: "Radio \<Rightarrow> Radio" where
  "registerFMReceiver r = radio_emit (map DabRegister (mRadioObservers r)) r"

definition unRegisterFMReceiver :: "Radio \<Rightarrow> Radio" where
  "unRegisterFMReceiver r = radio_emit (map DabUnRegister (mRadioObservers r)) r"

definition registerRadioObserver :: "nat option \<Rightarrow> Radio \<Rightarrow> Radio" where
  "registerRadioObserver obs r =
     (case obs of None \<Rightarrow> r | Some p \<Rightarrow> r\<lparr>mRadioObservers := ptr_insert p (mRadioObservers r)\<rparr>)"

definition unRegisterRadioObserver :: "nat option \<Rightarrow> Radio \<Rightarrow> Radio" where
  "unRegisterRadioObserver obs r =
     (case obs of None \<Rightarrow> r
      | Some p \<Rightarrow> r\<lparr>mRadioObservers := filter (\<lambda>q. q \<noteq> p) (mRadioObservers r)\<rparr>)"

section \<open>Operations\<close>

definition new_Radio :: Radio where
  "new_Radio =
     (let r = writeRegisters \<lparr>mMaskRegister = 0, mControlRegister = 0x11, mCurrentVolume = STARTUP_VOLUME,
                mStoredVolume = 0, mRadioObservers = [], mRadioState = PwrOff,
                mUpDownTimer = new_UpDownTimer, mAutoPowerOffTimer = new_AutoPowerOffTimer,
                radio_log = [], radio_ub = False\<rparr>
      in writeRegisters (r\<lparr>mControlRegister := 0x11\<rparr>))"

text \<open>The choice of the volume in \<open>pwrOn\<close>.\<close>

definition pwrOn_volume :: "bool \<Rightarrow> int \<Rightarrow> Radio \<Rightarrow> Radio" where
  "pwrOn_volume smooth volume r =
     (if volume > 0 then
        if smooth then
          (case initiateUp volume (SLOWUP_MINUTES * 60) (mUpDownTimer r) of
             None \<Rightarrow> r\<lparr>radio_ub := True\<rparr> | Some t \<Rightarrow> r\<lparr>mUpDownTimer := t\<rparr>)
        else writeRegisters (r\<lparr>mCurrentVolume := of_int volume\<rparr>)
      else writeRegisters (r\<lparr>mCurrentVolume := mStoredVolume r\<rparr>))"

definition Radio_pwrOn :: "bool \<Rightarrow> int \<Rightarrow> Radio \<Rightarrow> Radio" where
  "Radio_pwrOn smooth volume r =
     (let r1 = radio_emit [DabPowerOn] (registerFMReceiver r);
          r2 = writeRegisters (r1\<lparr>mRadioState := PwrOn, mControlRegister := 0x10,
                  mCurrentVolume := SLOW_VOLUME_START_VOLUME\<rparr>);
          r3 = pwrOn_volume smooth volume r2
      in r3\<lparr>mAutoPowerOffTimer := startAutoPowerOff AUTO_OFF_MINUTES (mAutoPowerOffTimer r3)\<rparr>)"

definition Radio_pwrOff :: "Radio \<Rightarrow> Radio" where
  "Radio_pwrOff r =
     (let r1 = writeRegisters (r\<lparr>mAutoPowerOffTimer := cancelAutoPowerOff (mAutoPowerOffTimer r),
                 mUpDownTimer := cancelDimmer (mUpDownTimer r),
                 mStoredVolume := mCurrentVolume r, mRadioState := PwrOff, mControlRegister := 0x11\<rparr>)
      in unRegisterFMReceiver (radio_emit [DabPowerOff] r1))"

text \<open>\<open>up\<close> and \<open>down\<close> ignore their argument and move the volume by one.\<close>

definition Radio_up :: "int \<Rightarrow> Radio \<Rightarrow> Radio" where
  "Radio_up step r =
     (if mCurrentVolume r < 99 then writeRegisters (r\<lparr>mCurrentVolume := mCurrentVolume r + 1\<rparr>) else r)"

definition Radio_down :: "int \<Rightarrow> Radio \<Rightarrow> Radio" where
  "Radio_down step r =
     (if mCurrentVolume r > 1 then writeRegisters (r\<lparr>mCurrentVolume := mCurrentVolume r - 1\<rparr>) else r)"

definition pressed_or_long :: "KeyboardInfo \<Rightarrow> nat \<Rightarrow> bool" where
  "pressed_or_long ki k \<longleftrightarrow> mShortPressed (mKeyInfo ki ! k) \<or> mLongPress (mKeyInfo ki ! k)"

definition Radio_cancelDimmer :: "Radio \<Rightarrow> Radio" where
  "Radio_cancelDimmer r = r\<lparr>mUpDownTimer := cancelDimmer (mUpDownTimer r)\<rparr>"

definition Radio_keyboardPressed :: "KeyboardInfo \<Rightarrow> Radio \<Rightarrow> Radio" where
  "Radio_keyboardPressed ki r =
     (let r1 = (if (mState ki = stNormal \<or> mState ki = stAlarmActive) \<and> mRadioState r = PwrOn then
                  (let ra = (if pressed_or_long ki KEY_UP then Radio_cancelDimmer (Radio_up 1 r) else r)
                   in if pressed_or_long ki KEY_DOWN then Radio_cancelDimmer (Radio_down 1 ra) else ra)
                else r)
      in if mState ki = stNormal \<and> mShortPressed (mKeyInfo ki ! KEY_LEFT) then
           (case mRadioState r1 of PwrOff \<Rightarrow> Radio_pwrOn False 0 r1 | PwrOn \<Rightarrow> Radio_pwrOff r1 | Wakeup \<Rightarrow> r1)
         else r1)"

text \<open>The steps of the radio's two timer threads.\<close>

definition radio_dimmer :: "Radio \<Rightarrow> Radio" where
  "radio_dimmer = dimmerThread_step mUpDownTimer mUpDownTimer_update Radio_up Radio_down"

definition radio_auto_off :: "Radio \<Rightarrow> Radio option" where
  "radio_auto_off =
     autoOffThread_step mAutoPowerOffTimer mAutoPowerOffTimer_update (\<lambda>r. Some (Radio_pwrOff r))"

section \<open>Frame rules\<close>

lemma radio_emit_simps [simp]:
  "mMaskRegister (radio_emit es r) = mMaskRegister r" "mControlRegister (radio_emit es r) = mControlRegister r"
  "mCurrentVolume (radio_emit es r) = mCurrentVolume r" "mStoredVolume (radio_emit es r) = mStoredVolume r"
  "mRadioObservers (radio_emit es r) = mRadioObservers r" "mRadioState (radio_emit es r) = mRadioState r"
  "mUpDownTimer (radio_emit es r) = mUpDownTimer r" "mAutoPowerOffTimer (radio_emit es r) = mAutoPowerOffTimer r"
  "radio_log (radio_emit es r) = radio_log r @ es" "radio_ub (radio_emit es r) = radio_ub r"
  by (simp_all add: radio_emit_def)

lemma writeRegisters_simps [simp]:
  "mMaskRegister (writeRegisters r) = mMaskRegister r" "mControlRegister (writeRegisters r) = mControlRegister r"
  "mCurrentVolume (writeRegisters r) = mCurrentVolume r" "mStoredVolume (writeRegisters r) = mStoredVolume r"
  "mRadioObservers (writeRegisters r) = mRadioObservers r" "mRadioState (writeRegisters r) = mRadioState r"
  "mUpDownTimer (writeRegisters r) = mUpDownTimer r" "mAutoPowerOffTimer (writeRegisters r) = mAutoPowerOffTimer r"
  by (simp_all add: writeRegisters_def notifyObservers_def split: option.splits)

lemma Radio_up_simps [simp]:
  "mUpDownTimer (Radio_up n r) = mUpDownTimer r" "mAutoPowerOffTimer (Radio_up n r) = mAutoPowerOffTimer r"
  "mRadioState (Radio_up n r) = mRadioState r" "mStoredVolume (Radio_up n r) = mStoredVolume r"
  "mCurrentVolume (Radio_up n r) = (if mCurrentVolume r < 99 then mCurrentVolume r + 1 else mCurrentVolume r)"
  by (simp_all add: Radio_up_def)

lemma Radio_down_simps [simp]:
  "mUpDownTimer (Radio_down n r) = mUpDownTimer r" "mAutoPowerOffTimer (Radio_down n r) = mAutoPowerOffTimer r"
  "mRadioState (Radio_down n r) = mRadioState r" "mStoredVolume (Radio_down n r) = mStoredVolume r"
  "mCurrentVolume (Radio_down n r) = (if 1 < mCurrentVolume r then mCurrentVolume r - 1 else mCurrentVolume r)"
  by (simp_all add: Radio_down_def)

interpretation radio_timer:
  up_down_device mUpDownTimer mUpDownTimer_update Radio_up Radio_down mCurrentVolume
    "\<lambda>n vol. if vol < 99 then vol + 1 else vol" "\<lambda>r. mRadioState r = PwrOn"
  by unfold_locales simp_all

definition playing :: "Radio \<Rightarrow> bool" where
  "playing r \<longleftrightarrow> mRadioState r = PwrOn"

lemma radio_dimmer_frame [simp]:
  "mRadioState (radio_dimmer r) = mRadioState r" "mAutoPowerOffTimer (radio_dimmer r) = mAutoPowerOffTimer r"
  by (auto simp: radio_dimmer_def dimmerThread_step_def Let_def split: thread_pc.splits)

interpretation radio_auto:
  auto_off_device mAutoPowerOffTimer mAutoPowerOffTimer_update "\<lambda>r. Some (Radio_pwrOff r)" radio_dimmer playing
  by unfold_locales (simp_all add: playing_def)

section \<open>The invariant\<close>

text \<open>What the amplifier and the DAB receiver were told last.\<close>

fun amp_event :: "bytes option \<Rightarrow> radio_event \<Rightarrow> bytes option" where
  "amp_event a (AmpWrite b) = Some b"
| "amp_event a _ = a"

fun dab_event :: "bool \<Rightarrow> radio_event \<Rightarrow> bool" where
  "dab_event d DabPowerOn = True"
| "dab_event d DabPowerOff = False"
| "dab_event d _ = d"

definition amp_regs :: "Radio \<Rightarrow> bytes option" where
  "amp_regs r = foldl amp_event None (radio_log r)"

definition dab_on :: "Radio \<Rightarrow> bool" where
  "dab_on r = foldl dab_event False (radio_log r)"

definition radio_amp :: "u8 \<Rightarrow> u8 \<Rightarrow> bytes" where
  "radio_amp vol ctrl = (let att = of_int (64 - int (unat vol) * 64 div 100) in [att, att, att, att, 0, ctrl])"

definition radio_inv :: "Radio \<Rightarrow> bool" where
  "radio_inv r \<longleftrightarrow> \<not> radio_ub r \<and> mCurrentVolume r \<le> 100 \<and> mStoredVolume r \<le> 100 \<and>
     mMaskRegister r = 0 \<and> mRadioState r \<noteq> Wakeup \<and>
     mControlRegister r = (if mRadioState r = PwrOn then 0x10 else 0x11) \<and>
     amp_regs r = Some (radio_amp (mCurrentVolume r) (mControlRegister r)) \<and>
     dab_on r = (mRadioState r = PwrOn)"

lemma foldl_notify [simp]:
  "foldl amp_event a (map (\<lambda>p. RadioStateUpdate p st v) ps) = a"
  "foldl dab_event d (map (\<lambda>p. RadioStateUpdate p st v) ps) = d"
  "foldl amp_event a (map DabRegister ps) = a" "foldl dab_event d (map DabRegister ps) = d"
  "foldl amp_event a (map DabUnRegister ps) = a" "foldl dab_event d (map DabUnRegister ps) = d"
  by (induction ps) simp_all

lemma attenuation_Some: "vol \<le> 100 \<Longrightarrow> attenuation vol = Some (of_int (64 - int (unat vol) * 64 div 100))"
  using zdiv_mono1 [of "uint vol * 64" 6400 100] by (auto simp: attenuation_def Let_def word_le_def)

lemma writeRegisters_told:
  assumes "mCurrentVolume r \<le> 100" and "mMaskRegister r = 0"
  shows "amp_regs (writeRegisters r) = Some (radio_amp (mCurrentVolume r) (mControlRegister r))"
    and "dab_on (writeRegisters r) = dab_on r" and "radio_ub (writeRegisters r) = radio_ub r"
  using assms
  by (simp_all add: writeRegisters_def attenuation_Some notifyObservers_def amp_regs_def dab_on_def
      radio_amp_def Let_def)

lemma told_emit [simp]:
  "amp_regs (radio_emit [DabPowerOn] r) = amp_regs r" "dab_on (radio_emit [DabPowerOn] r)"
  "amp_regs (radio_emit [DabPowerOff] r) = amp_regs r" "\<not> dab_on (radio_emit [DabPowerOff] r)"
  "amp_regs (registerFMReceiver r) = amp_regs r" "dab_on (registerFMReceiver r) = dab_on r"
  "amp_regs (unRegisterFMReceiver r) = amp_regs r" "dab_on (unRegisterFMReceiver r) = dab_on r"
  by (simp_all add: amp_regs_def dab_on_def registerFMReceiver_def unRegisterFMReceiver_def)

lemma fm_simps [simp]:
  "mMaskRegister (registerFMReceiver r) = mMaskRegister r" "mStoredVolume (registerFMReceiver r) = mStoredVolume r"
  "mUpDownTimer (registerFMReceiver r) = mUpDownTimer r" "radio_ub (registerFMReceiver r) = radio_ub r"
  "mAutoPowerOffTimer (registerFMReceiver r) = mAutoPowerOffTimer r"
  "mMaskRegister (unRegisterFMReceiver r) = mMaskRegister r" "mStoredVolume (unRegisterFMReceiver r) = mStoredVolume r"
  "mCurrentVolume (unRegisterFMReceiver r) = mCurrentVolume r" "mRadioState (unRegisterFMReceiver r) = mRadioState r"
  "mUpDownTimer (unRegisterFMReceiver r) = mUpDownTimer r" "radio_ub (unRegisterFMReceiver r) = radio_ub r"
  "mAutoPowerOffTimer (unRegisterFMReceiver r) = mAutoPowerOffTimer r"
  "mControlRegister (unRegisterFMReceiver r) = mControlRegister r"
  by (simp_all add: registerFMReceiver_def unRegisterFMReceiver_def)

lemma told_upd [simp]:
  "amp_regs (r\<lparr>mCurrentVolume := v\<rparr>) = amp_regs r" "dab_on (r\<lparr>mCurrentVolume := v\<rparr>) = dab_on r"
  "amp_regs (mUpDownTimer_update f r) = amp_regs r" "dab_on (mUpDownTimer_update f r) = dab_on r"
  "amp_regs (mAutoPowerOffTimer_update g r) = amp_regs r" "dab_on (mAutoPowerOffTimer_update g r) = dab_on r"
  "dab_on (r\<lparr>mControlRegister := c\<rparr>) = dab_on r" "dab_on (r\<lparr>mRadioState := st\<rparr>) = dab_on r"
  "dab_on (r\<lparr>mStoredVolume := v\<rparr>) = dab_on r" "amp_regs (r\<lparr>mStoredVolume := v\<rparr>) = amp_regs r"
  by (simp_all add: amp_regs_def dab_on_def)


lemma radio_inv_frame [simp]:
  "radio_inv (mUpDownTimer_update f r) = radio_inv r" "radio_inv (mAutoPowerOffTimer_update g r) = radio_inv r"
  by (simp_all add: radio_inv_def)

lemma radio_inv_volume:
  assumes "radio_inv r" and "v \<le> 100" shows "radio_inv (writeRegisters (r\<lparr>mCurrentVolume := v\<rparr>))"
  using assms by (simp add: radio_inv_def writeRegisters_told)

lemma new_Radio_inv [wf_intros]: "radio_inv new_Radio"
  by code_simp

lemma small_inc: "v < (99::u8) \<Longrightarrow> v + 1 \<le> 100"
  by (simp add: word_less_def word_le_def uint_word_ariths mod_pos_pos_trivial)

lemma small_dec: "v \<le> (100::u8) \<Longrightarrow> 1 < v \<Longrightarrow> v - 1 \<le> 100"
  by (simp add: word_less_def word_le_def uint_word_ariths mod_pos_pos_trivial)

lemma Radio_up_inv [wf_intros]: "radio_inv r \<Longrightarrow> radio_inv (Radio_up n r)"
  by (simp add: Radio_up_def radio_inv_volume small_inc)

lemma Radio_down_inv [wf_intros]: "radio_inv r \<Longrightarrow> radio_inv (Radio_down n r)"
  using small_dec [of "mCurrentVolume r"] radio_inv_volume [of r "mCurrentVolume r - 1"]
  by (auto simp: Radio_down_def radio_inv_def)

lemma Radio_pwrOff_inv [wf_intros]: "radio_inv r \<Longrightarrow> radio_inv (Radio_pwrOff r)"
  by (simp add: radio_inv_def Radio_pwrOff_def Let_def writeRegisters_told)

lemma initiateUp_radio:
  assumes "0 < volume" and "volume \<le> 100"
  shows "\<exists>t'. initiateUp volume 300 t = Some t' \<and> th_pc t' = AtTest \<and> mThreadRunning t' \<and> \<not> mDown t' \<and>
     th_totalSteps t' = volume \<and> th_step t' = 1 \<and> mThreadIntervalms t' = 300000 div volume"
  using assms
  by (simp add: initiateUp_def calculate_def startDimmerThread_def stopDimmerThread_def Let_def INT_MAX_def
      INT_MIN_def trunc_div_def)

lemma Radio_pwrOn_inv [wf_intros]:
  assumes "radio_inv r" and "volume \<le> 100" shows "radio_inv (Radio_pwrOn smooth volume r)"
proof -
  let ?r1 = "radio_emit [DabPowerOn] (registerFMReceiver r)"
  let ?r2 = "writeRegisters (?r1\<lparr>mRadioState := PwrOn, mControlRegister := 0x10,
                  mCurrentVolume := SLOW_VOLUME_START_VOLUME\<rparr>)"
  have r2: "radio_inv ?r2" "mStoredVolume ?r2 \<le> 100"
    using assms(1) by (simp_all add: radio_inv_def writeRegisters_told radio_consts)
  have v: "(of_int volume :: u8) \<le> 100" if "0 < volume"
    using that assms(2) by (simp add: word_le_def uint_word_of_int_eq take_bit_int_eq_self)
  have "radio_inv (pwrOn_volume smooth volume ?r2)"
    using r2 v radio_inv_volume initiateUp_radio [of volume "mUpDownTimer ?r2"] assms(2)
    by (auto simp: pwrOn_volume_def radio_consts)
  then show ?thesis by (simp add: Radio_pwrOn_def Let_def)
qed

lemma Radio_keyboardPressed_inv [wf_intros]: "radio_inv r \<Longrightarrow> radio_inv (Radio_keyboardPressed ki r)"
  by (simp add: Radio_keyboardPressed_def Let_def Radio_cancelDimmer_def Radio_up_inv Radio_down_inv
      Radio_pwrOn_inv Radio_pwrOff_inv split: RadioState.splits)

lemma radio_dimmer_inv [wf_intros]: "radio_inv r \<Longrightarrow> radio_inv (radio_dimmer r)"
  by (simp add: radio_dimmer_def dimmerThread_step_def Let_def Radio_up_inv Radio_down_inv split: thread_pc.splits)

lemma radio_auto_off_inv [wf_intros]: "radio_inv r \<Longrightarrow> radio_auto_off r = Some r' \<Longrightarrow> radio_inv r'"
  by (cases "ao_pc (mAutoPowerOffTimer r)")
    (auto simp: radio_auto_off_def step_simps Let_def Radio_pwrOff_inv split: if_splits)

lemma radio_observers_inv:
  "radio_inv r \<Longrightarrow> radio_inv (registerRadioObserver p r)"
  "radio_inv r \<Longrightarrow> radio_inv (unRegisterRadioObserver p r)"
  by (simp_all add: radio_inv_def registerRadioObserver_def unRegisterRadioObserver_def amp_regs_def dab_on_def
      split: option.splits)

inductive radio_step :: "Radio \<Rightarrow> Radio \<Rightarrow> bool" where
  on: "volume \<le> 100 \<Longrightarrow> radio_step r (Radio_pwrOn smooth volume r)"
| off: "radio_step r (Radio_pwrOff r)"
| key: "radio_step r (Radio_keyboardPressed ki r)"
| dim: "radio_step r (radio_dimmer r)"
| auto: "radio_auto_off r = Some r' \<Longrightarrow> radio_step r r'"
| register: "radio_step r (registerRadioObserver p r)"
| unregister: "radio_step r (unRegisterRadioObserver p r)"

inductive radio_reachable :: "Radio \<Rightarrow> bool" where
  start: "radio_reachable new_Radio"
| step: "radio_reachable r \<Longrightarrow> radio_step r r' \<Longrightarrow> radio_reachable r'"

lemma radio_step_inv: "radio_step r r' \<Longrightarrow> radio_inv r \<Longrightarrow> radio_inv r'"
  by (induction rule: radio_step.induct)
    (simp_all add: Radio_pwrOn_inv Radio_pwrOff_inv Radio_keyboardPressed_inv radio_dimmer_inv
      radio_auto_off_inv radio_observers_inv)

lemma radio_reachable_inv: "radio_reachable r \<Longrightarrow> radio_inv r"
proof (induction rule: radio_reachable.induct)
  case start
  show ?case by (rule new_Radio_inv)
next
  case (step r r')
  then show ?case using radio_step_inv by blast
qed



section \<open>Volumes\<close>

lemma ramp_volume:
  "((\<lambda>v::u8. if v < 99 then v + 1 else v) ^^ n) 5 = of_nat (min (5 + n) 99)"
proof (induction n)
  case (Suc n)
  have "(of_nat (min (5 + n) 99) :: u8) < 99 \<longleftrightarrow> min (5 + n) 99 < 99"
    by (simp add: word_less_nat_alt unat_of_nat)
  then show ?case using Suc by (auto simp: min_def)
qed simp

text \<open>
  A smooth alarm starts the radio at volume 5, and its dimmer thread raises the volume by one at
  each of as many steps as the volume asked for, one every 300 seconds divided by it, so the radio
  ends five above the volume asked for, at most at 99, and the thread ends.
\<close>

theorem radio_smooth_alarm_volume:
  assumes "0 < volume" and "volume \<le> 100"
  shows "let r' = Radio_pwrOn True (int volume) r; r'' = (radio_dimmer ^^ (2 * volume + 1)) r' in
    mCurrentVolume r' = 5 \<and> mThreadIntervalms (mUpDownTimer r') = 300000 div int volume \<and>
    mRadioState r'' = PwrOn \<and> mCurrentVolume r'' = of_nat (min (5 + volume) 99) \<and>
    th_pc (mUpDownTimer r'') = Ended"
proof -
  define r' where "r' = Radio_pwrOn True (int volume) r"
  obtain t where t: "initiateUp (int volume) 300 (mUpDownTimer r) = Some t" "th_pc t = AtTest"
      "mThreadRunning t" "\<not> mDown t" "th_totalSteps t = int volume" "th_step t = 1"
      "mThreadIntervalms t = 300000 div int volume"
    using initiateUp_radio [of "int volume" "mUpDownTimer r"] assms by auto
  have r': "mUpDownTimer r' = t" "mCurrentVolume r' = 5" "mRadioState r' = PwrOn"
    using assms(1) t(1) by (simp_all add: r'_def Radio_pwrOn_def pwrOn_volume_def Let_def radio_consts)
  have "up_count t = volume" using t(5,6) by (simp add: up_count_def)
  then have "mCurrentVolume ((radio_dimmer ^^ (2 * volume + 1)) r')
      = ((\<lambda>v. if v < 99 then v + 1 else v) ^^ volume) 5 \<and>
    mRadioState ((radio_dimmer ^^ (2 * volume + 1)) r') = PwrOn \<and>
    th_pc (mUpDownTimer ((radio_dimmer ^^ (2 * volume + 1)) r')) = Ended"
    using radio_timer.up_run [of r' volume] t r' by (simp add: radio_dimmer_def)
  then show ?thesis using r' t(7) by (simp add: ramp_volume Let_def r'_def [symmetric])
qed

text \<open>
  The volume survives switching off and on by key: after power off, a power on without a volume
  restores the volume the radio had, on the amplifier too, whatever the timers did in between.
\<close>

theorem radio_volume_restored:
  assumes "radio_reachable r"
  shows "let r' = Radio_pwrOn smooth 0 ((radio_dimmer ^^ k) (Radio_pwrOff r)) in
    mCurrentVolume r' = mCurrentVolume r \<and> mRadioState r' = PwrOn \<and>
    amp_regs r' = Some (radio_amp (mCurrentVolume r) 0x10)"
proof -
  let ?r0 = "Radio_pwrOff r" and ?r1 = "(radio_dimmer ^^ k) (Radio_pwrOff r)"
  have keep: "mStoredVolume ?r1 = mCurrentVolume r" "radio_inv ?r1"
  proof -
    have "mStoredVolume (radio_dimmer q) = mStoredVolume q" for q
      by (simp add: radio_dimmer_def dimmerThread_step_def Let_def split: thread_pc.splits)
    then show "mStoredVolume ?r1 = mCurrentVolume r"
      by (induction k) (simp_all add: Radio_pwrOff_def Let_def)
    show "radio_inv ?r1"
      using Radio_pwrOff_inv [OF radio_reachable_inv [OF assms]] by (induction k) (auto intro: radio_dimmer_inv)
  qed
  have on: "mCurrentVolume (Radio_pwrOn smooth 0 q) = mStoredVolume q" "mRadioState (Radio_pwrOn smooth 0 q) = PwrOn"
    "mControlRegister (Radio_pwrOn smooth 0 q) = 0x10" for q
    by (simp_all add: Radio_pwrOn_def pwrOn_volume_def Let_def)
  have "radio_inv (Radio_pwrOn smooth 0 ?r1)" using keep(2) by (rule Radio_pwrOn_inv) simp
  then show ?thesis using on [of ?r1] keep(1) by (simp add: Let_def radio_inv_def)
qed

text \<open>
  A radio that was switched on is switched off after an hour: however its dimmer thread
  interleaves, the power-off thread makes 7199 steps with the radio on, and its next step switches
  the radio and the DAB receiver off and remembers the volume.
\<close>

theorem radio_auto_off_after_an_hour:
  assumes "count_list bs True = 7199"
  shows "\<exists>r2 r3. timer_schedule radio_auto_off radio_dimmer bs (Radio_pwrOn smooth volume r) = Some r2 \<and>
    mRadioState r2 = PwrOn \<and>
    timer_schedule radio_auto_off radio_dimmer (bs @ [True]) (Radio_pwrOn smooth volume r) = Some r3 \<and>
    mRadioState r3 = PwrOff \<and> mStoredVolume r3 = mCurrentVolume r2 \<and> \<not> dab_on r3"
proof -
  let ?r1 = "Radio_pwrOn smooth volume r"
  have r1: "ao_pc (mAutoPowerOffTimer ?r1) = AtTest" "mAutoOffThreadRunning (mAutoPowerOffTimer ?r1)"
    "ao_countDownSeconds (mAutoPowerOffTimer ?r1) = int 3600" "playing ?r1"
    by (auto simp: Radio_pwrOn_def Let_def playing_def startAutoPowerOff_def startAutoOffThread_def
        radio_consts pwrOn_volume_def split: option.splits)
  obtain r2 f g where r2: "timer_schedule radio_auto_off radio_dimmer bs ?r1 = Some r2" "playing r2"
      "timer_schedule radio_auto_off radio_dimmer (bs @ [True]) ?r1
        = Some (Radio_pwrOff (mAutoPowerOffTimer_update f (mAutoPowerOffTimer_update g r2)))"
    using radio_auto.fires [OF r1, of bs] assms by (auto simp: radio_auto_off_def)
  then show ?thesis by (auto simp: playing_def Radio_pwrOff_def Let_def)
qed

section \<open>Concrete radios\<close>

definition ex_radio :: Radio where
  "ex_radio = Radio_pwrOn False 70 (registerRadioObserver (Some 7) new_Radio)"

lemma ex_radio_reachable: "radio_reachable ex_radio"
  unfolding ex_radio_def
  by (rule radio_reachable.step, rule radio_reachable.step, rule radio_reachable.start,
      rule radio_step.register, rule radio_step.on) simp


theorem radio_smooth_alarm_volume_witness:
  "mCurrentVolume ((radio_dimmer ^^ 61) (Radio_pwrOn True 30 new_Radio)) = 35"
  using radio_smooth_alarm_volume [of 30 new_Radio] by (simp add: Let_def)

theorem radio_volume_restored_witness:
  "mCurrentVolume (Radio_pwrOn False 0 ((radio_dimmer ^^ 3) (Radio_pwrOff ex_radio))) = 70"
proof -
  have "mCurrentVolume ex_radio = 70" by code_simp
  then show ?thesis using radio_volume_restored [OF ex_radio_reachable, of False 3] by (simp add: Let_def)
qed

theorem radio_auto_off_after_an_hour_witness:
  "\<exists>r2 r3. timer_schedule radio_auto_off radio_dimmer (replicate 7199 True) (Radio_pwrOn True 40 ex_radio) = Some r2 \<and>
     mRadioState r2 = PwrOn \<and>
     timer_schedule radio_auto_off radio_dimmer (replicate 7199 True @ [True]) (Radio_pwrOn True 40 ex_radio) = Some r3 \<and>
     mRadioState r3 = PwrOff"
proof -
  have "count_list (replicate n True) True = n" for n by (induction n) simp_all
  then show ?thesis
    using radio_auto_off_after_an_hour [of "replicate 7199 True" True 40 ex_radio] by force
qed

end
