(* ===== verification/Alarm_Clock.thy ===== *)
theory Alarm_Clock
  imports Light Radio Alarm_Manager
begin

text \<open>
  A unit of the clock (\<open>rgbclock/RgbLib/src/AlarmClock.cpp\<close>): the state machine of an alarm that
  rings, snoozes and ends, over the unit's keyboard, radio and, where one is registered, light.
  The calls of the alarm manager (\<open>alarmNotify\<close>, \<open>alarmSnooze\<close>, \<open>alarmOff\<close>) and the steps of the
  maintenance thread are each one step here. \<open>display_log\<close> records the states signalled to the
  display. The light's undefined behaviour (see \<open>Light\<close>) sets \<open>clock_ub\<close>.
\<close>

section \<open>State\<close>

datatype ClockState = clkNormal | clkAlarm | clkSnooze

definition SNOOZE_TIME :: int where "SNOOZE_TIME = 9 * 60"
definition ALARM_TIME :: int where "ALARM_TIME = 30 * 60"

record AlarmClock =
  mKeyboard :: Keyboard
  mRadio :: Radio
  mLight :: "Light option"
  mClockState :: ClockState
  mAlarmMaintenanceThreadRunning :: bool
  mt_pc :: thread_pc
  mAlarmCounter :: int
  mAlarmVolume :: int
  mAlarmOff :: bool
  display_log :: "ClockState list"
  clock_ub :: bool

text \<open>The addresses under which the parts of a unit register with one another.\<close>

definition this_addr :: nat where "this_addr = 1"
definition radio_addr :: nat where "radio_addr = 2"
definition mainboard_addr :: nat where "mainboard_addr = 3"
definition display_addr :: nat where "display_addr = 4"
definition light_addr :: nat where "light_addr = 5"

definition new_AlarmClock :: AlarmClock where
  "new_AlarmClock =
     (let k1 = registerKeyboardObserver (Some this_addr) new_Keyboard;
          k2 = registerKeyboardObserver (Some radio_addr) k1;
          k3 = registerKeyboardObserver (Some mainboard_addr) k2
      in \<lparr>mKeyboard = k3, mRadio = registerRadioObserver (Some display_addr) new_Radio, mLight = None,
          mClockState = clkNormal, mAlarmMaintenanceThreadRunning = False, mt_pc = Ended,
          mAlarmCounter = 0, mAlarmVolume = 0, mAlarmOff = False, display_log = [clkNormal],
          clock_ub = False\<rparr>)"

section \<open>Operations\<close>

definition registerLight :: "Light option \<Rightarrow> AlarmClock \<Rightarrow> AlarmClock" where
  "registerLight light c =
     (case light of None \<Rightarrow> c
      | Some l \<Rightarrow> c\<lparr>mLight := Some l, mKeyboard := registerKeyboardObserver (Some light_addr) (mKeyboard c)\<rparr>)"

definition unRegisterLight :: "Light option \<Rightarrow> AlarmClock \<Rightarrow> AlarmClock" where
  "unRegisterLight light c =
     (case light of None \<Rightarrow> c
      | Some l \<Rightarrow> c\<lparr>mKeyboard := unRegisterKeyboardObserver (Some light_addr) (mKeyboard c), mLight := None\<rparr>)"

definition hasRegisteredLight :: "AlarmClock \<Rightarrow> bool" where
  "hasRegisteredLight c \<longleftrightarrow> mLight c \<noteq> None"

definition AlarmClock_isAttached :: "AlarmClock \<Rightarrow> bool" where
  "AlarmClock_isAttached c = isAttached (mKeyboard c)"

text \<open>A call of the light, if one is registered.\<close>

definition with_light :: "(Light \<Rightarrow> Light option) \<Rightarrow> AlarmClock \<Rightarrow> AlarmClock" where
  "with_light f c =
     (case mLight c of None \<Rightarrow> c
      | Some l \<Rightarrow> (case f l of None \<Rightarrow> c\<lparr>clock_ub := True\<rparr> | Some l' \<Rightarrow> c\<lparr>mLight := Some l'\<rparr>))"

definition signalClockState :: "AlarmClock \<Rightarrow> AlarmClock" where
  "signalClockState c = c\<lparr>display_log := display_log c @ [mClockState c]\<rparr>"

definition startAlarm :: "bool \<Rightarrow> AlarmClock \<Rightarrow> AlarmClock" where
  "startAlarm smooth c =
     (let c1 = signalClockState (c\<lparr>mClockState := clkAlarm\<rparr>);
          c2 = c1\<lparr>mAlarmCounter := 0, mKeyboard := keyboardState stAlarmActive (mKeyboard c1),
                  mRadio := Radio_pwrOn smooth (mAlarmVolume c1) (mRadio c1)\<rparr>
      in with_light (Light_pwrOn smooth) c2)"

definition stopAlarmMaintenanceThread :: "AlarmClock \<Rightarrow> AlarmClock" where
  "stopAlarmMaintenanceThread c = c\<lparr>mAlarmMaintenanceThreadRunning := False, mt_pc := Ended\<rparr>"

definition startAlarmMaintenanceThread :: "AlarmClock \<Rightarrow> AlarmClock" where
  "startAlarmMaintenanceThread c =
     (stopAlarmMaintenanceThread c)\<lparr>mAlarmMaintenanceThreadRunning := True, mt_pc := AtTest\<rparr>"

definition alarmNotify :: "int \<Rightarrow> bool \<Rightarrow> AlarmClock \<Rightarrow> AlarmClock" where
  "alarmNotify volume smooth c =
     startAlarmMaintenanceThread (startAlarm smooth (c\<lparr>mAlarmVolume := volume, mAlarmOff := False\<rparr>))"

definition alarmSnooze :: "AlarmClock \<Rightarrow> AlarmClock" where
  "alarmSnooze c =
     (if mClockState c = clkAlarm then
        (let c1 = signalClockState (c\<lparr>mClockState := clkSnooze\<rparr>);
             c2 = with_light Light_pwrOff (c1\<lparr>mRadio := Radio_pwrOff (mRadio c1)\<rparr>)
         in c2\<lparr>mAlarmCounter := 0\<rparr>)
      else c)"

definition alarmOff :: "AlarmClock \<Rightarrow> AlarmClock" where
  "alarmOff c = c\<lparr>mAlarmOff := True\<rparr>"

text \<open>The keys of a unit ask the alarm manager, which all units share, to snooze or to stop.\<close>

definition AlarmClock_keyboardPressed :: "KeyboardInfo \<Rightarrow> AlarmClock \<Rightarrow> AlarmManager \<Rightarrow> AlarmManager" where
  "AlarmClock_keyboardPressed ki c m =
     (if mClockState c = clkAlarm \<or> mClockState c = clkSnooze then
        (let m1 = (if mShortPressed (mKeyInfo ki ! KEY_LEFT) \<or> mLongPress (mKeyInfo ki ! KEY_LEFT)
                   then sendAlarmOff m else m)
         in if (mShortPressed (mKeyInfo ki ! KEY_CENTRAL_L) \<or> mShortPressed (mKeyInfo ki ! KEY_CENTRAL_R))
               \<and> mClockState c = clkAlarm
            then sendAlarmSnooze m1 else m1)
      else m)"

section \<open>The maintenance thread\<close>

text \<open>The end of an alarm, the body of the case \<open>clkAlarm\<close>.\<close>

definition end_alarm :: "AlarmClock \<Rightarrow> AlarmClock" where
  "end_alarm c =
     (let c1 = signalClockState (c\<lparr>mAlarmOff := False, mClockState := clkNormal\<rparr>);
          c2 = c1\<lparr>mKeyboard := keyboardState stNormal (mKeyboard c1), mRadio := Radio_pwrOff (mRadio c1)\<rparr>
      in (with_light Light_pwrOff c2)\<lparr>mAlarmMaintenanceThreadRunning := False\<rparr>)"

definition maintenance_body :: "AlarmClock \<Rightarrow> AlarmClock" where
  "maintenance_body c =
     (let c1 = c\<lparr>mAlarmCounter := mAlarmCounter c + 1\<rparr>;
          c2 = (if mAlarmOff c1 \<and> mClockState c1 = clkSnooze then c1\<lparr>mClockState := clkAlarm\<rparr> else c1)
      in case mClockState c2 of
           clkNormal \<Rightarrow> c2
         | clkAlarm \<Rightarrow> if mAlarmCounter c2 \<ge> ALARM_TIME \<or> mAlarmOff c2 then end_alarm c2 else c2
         | clkSnooze \<Rightarrow> if mAlarmCounter c2 \<ge> SNOOZE_TIME then startAlarm False c2 else c2)"

definition maintenance_step :: "AlarmClock \<Rightarrow> AlarmClock" where
  "maintenance_step c =
     (case mt_pc c of
        Ended \<Rightarrow> c
      | AtTest \<Rightarrow> c\<lparr>mt_pc := if mAlarmMaintenanceThreadRunning c then Asleep else Ended\<rparr>
      | Asleep \<Rightarrow> maintenance_body (c\<lparr>mt_pc := AtTest\<rparr>))"

section \<open>Frame rules\<close>

lemma with_light_simps [simp]:
  "mKeyboard (with_light f c) = mKeyboard c" "mRadio (with_light f c) = mRadio c"
  "mClockState (with_light f c) = mClockState c" "mt_pc (with_light f c) = mt_pc c"
  "mAlarmMaintenanceThreadRunning (with_light f c) = mAlarmMaintenanceThreadRunning c"
  "mAlarmCounter (with_light f c) = mAlarmCounter c" "mAlarmVolume (with_light f c) = mAlarmVolume c"
  "mAlarmOff (with_light f c) = mAlarmOff c" "display_log (with_light f c) = display_log c"
  by (simp_all add: with_light_def split: option.splits)

lemma signalClockState_simps [simp]:
  "mKeyboard (signalClockState c) = mKeyboard c" "mRadio (signalClockState c) = mRadio c"
  "mClockState (signalClockState c) = mClockState c" "mt_pc (signalClockState c) = mt_pc c"
  "mAlarmMaintenanceThreadRunning (signalClockState c) = mAlarmMaintenanceThreadRunning c"
  "mAlarmCounter (signalClockState c) = mAlarmCounter c" "mAlarmVolume (signalClockState c) = mAlarmVolume c"
  "mAlarmOff (signalClockState c) = mAlarmOff c" "mLight (signalClockState c) = mLight c"
  "display_log (signalClockState c) = display_log c @ [mClockState c]"
  by (simp_all add: signalClockState_def)

lemma keyboardState_state [simp]: "mKeyboardState (keyboardState st k) = st"
  by (simp add: keyboardState_def)

lemma Radio_power_state [simp]:
  "mRadioState (Radio_pwrOn smooth v r) = PwrOn" "mRadioState (Radio_pwrOff r) = PwrOff"
  by (simp_all add: Radio_pwrOn_def Radio_pwrOff_def pwrOn_volume_def Let_def split: option.splits)

lemma startAlarm_simps [simp]:
  "mClockState (startAlarm s c) = clkAlarm" "mAlarmCounter (startAlarm s c) = 0"
  "mKeyboardState (mKeyboard (startAlarm s c)) = stAlarmActive"
  "mRadio (startAlarm s c) = Radio_pwrOn s (mAlarmVolume c) (mRadio c)"
  "mt_pc (startAlarm s c) = mt_pc c" "mAlarmVolume (startAlarm s c) = mAlarmVolume c"
  "mAlarmMaintenanceThreadRunning (startAlarm s c) = mAlarmMaintenanceThreadRunning c"
  "mAlarmOff (startAlarm s c) = mAlarmOff c"
  "display_log (startAlarm s c) = display_log c @ [clkAlarm]"
  by (simp_all add: startAlarm_def Let_def)

lemma end_alarm_simps [simp]:
  "mClockState (end_alarm c) = clkNormal" "mKeyboardState (mKeyboard (end_alarm c)) = stNormal"
  "mRadio (end_alarm c) = Radio_pwrOff (mRadio c)" "mt_pc (end_alarm c) = mt_pc c"
  "\<not> mAlarmMaintenanceThreadRunning (end_alarm c)" "\<not> mAlarmOff (end_alarm c)"
  "display_log (end_alarm c) = display_log c @ [clkNormal]"
  by (simp_all add: end_alarm_def Let_def)

section \<open>The alarm state machine\<close>

text \<open>
  The specification of an alarm's life: its state, whether the maintenance thread is to run and
  where it is, the seconds counted, and whether the alarm is to stop.
\<close>

record alarm_ctl =
  ct_state :: ClockState
  ct_run :: bool
  ct_pc :: thread_pc
  ct_count :: int
  ct_off :: bool

definition control :: "AlarmClock \<Rightarrow> alarm_ctl" where
  "control c = \<lparr>ct_state = mClockState c, ct_run = mAlarmMaintenanceThreadRunning c, ct_pc = mt_pc c,
     ct_count = mAlarmCounter c, ct_off = mAlarmOff c\<rparr>"

definition ctl_notify :: alarm_ctl where
  "ctl_notify = \<lparr>ct_state = clkAlarm, ct_run = True, ct_pc = AtTest, ct_count = 0, ct_off = False\<rparr>"

definition ctl_snooze :: "alarm_ctl \<Rightarrow> alarm_ctl" where
  "ctl_snooze x = (if ct_state x = clkAlarm then x\<lparr>ct_state := clkSnooze, ct_count := 0\<rparr> else x)"

definition ctl_off :: "alarm_ctl \<Rightarrow> alarm_ctl" where
  "ctl_off x = x\<lparr>ct_off := True\<rparr>"

definition ctl_second :: "alarm_ctl \<Rightarrow> alarm_ctl" where
  "ctl_second x =
     (let y = x\<lparr>ct_pc := AtTest, ct_count := ct_count x + 1\<rparr> in
      if ct_state x = clkNormal then y
      else if ct_off x \<or> ct_state x = clkAlarm \<and> 1800 \<le> ct_count y
      then y\<lparr>ct_state := clkNormal, ct_run := False, ct_off := False\<rparr>
      else if ct_state x = clkSnooze \<and> 540 \<le> ct_count y
      then y\<lparr>ct_state := clkAlarm, ct_count := 0\<rparr>
      else y)"

definition ctl_step :: "alarm_ctl \<Rightarrow> alarm_ctl" where
  "ctl_step x =
     (case ct_pc x of Ended \<Rightarrow> x
      | AtTest \<Rightarrow> x\<lparr>ct_pc := if ct_run x then Asleep else Ended\<rparr>
      | Asleep \<Rightarrow> ctl_second x)"

lemma ctl_eqI:
  "ct_state x = ct_state y \<Longrightarrow> ct_run x = ct_run y \<Longrightarrow> ct_pc x = ct_pc y \<Longrightarrow> ct_count x = ct_count y \<Longrightarrow>
   ct_off x = ct_off y \<Longrightarrow> x = (y :: alarm_ctl)"
  by simp

lemma control_alarmNotify: "control (alarmNotify v s c) = ctl_notify"
  by (simp add: control_def alarmNotify_def startAlarmMaintenanceThread_def stopAlarmMaintenanceThread_def
      ctl_notify_def)

lemma control_alarmSnooze: "control (alarmSnooze c) = ctl_snooze (control c)"
  by (simp add: control_def alarmSnooze_def ctl_snooze_def Let_def)

lemma control_alarmOff: "control (alarmOff c) = ctl_off (control c)"
  by (simp add: control_def alarmOff_def ctl_off_def)

lemma maintenance_body_counter:
  "mAlarmCounter (end_alarm c) = mAlarmCounter c"
  by (simp add: end_alarm_def Let_def)

lemma control_maintenance_step: "control (maintenance_step c) = ctl_step (control c)"
proof (cases "mt_pc c")
  case Asleep
  show ?thesis
    by (cases "mClockState c")
      (auto simp: Asleep maintenance_step_def maintenance_body_def ctl_step_def ctl_second_def control_def Let_def
        ALARM_TIME_def SNOOZE_TIME_def maintenance_body_counter)
qed (simp_all add: maintenance_step_def ctl_step_def control_def)

text \<open>
  A run of the maintenance thread, where before each of its steps the rest of the unit (keys,
  radio, light, their timers) does anything that leaves the alarm's control state alone.
\<close>

fun clock_run :: "(nat \<Rightarrow> AlarmClock \<Rightarrow> AlarmClock) \<Rightarrow> nat \<Rightarrow> AlarmClock \<Rightarrow> AlarmClock" where
  "clock_run env 0 c = c"
| "clock_run env (Suc n) c = maintenance_step (env n (clock_run env n c))"

definition rest_of_unit :: "(nat \<Rightarrow> AlarmClock \<Rightarrow> AlarmClock) \<Rightarrow> bool" where
  "rest_of_unit env \<longleftrightarrow> (\<forall>n c. control (env n c) = control c)"

lemma control_clock_run:
  "rest_of_unit env \<Longrightarrow> control (clock_run env n c) = (ctl_step ^^ n) (control c)"
  by (induction n) (simp_all add: rest_of_unit_def control_maintenance_step)

text \<open>Two steps of the thread are one second.\<close>

lemma ctl_second_run:
  assumes "ct_pc x = AtTest" and "ct_run x"
  shows "ctl_step (ctl_step x) = ctl_second x"
  using assms by (simp add: ctl_step_def ctl_second_def Let_def)

definition ticking :: "ClockState \<Rightarrow> int \<Rightarrow> alarm_ctl" where
  "ticking st n = \<lparr>ct_state = st, ct_run = True, ct_pc = AtTest, ct_count = n, ct_off = False\<rparr>"

lemma ctl_second_ticking:
  "ctl_second (ticking clkAlarm n) =
     (if 1800 \<le> n + 1 then (ticking clkNormal (n + 1))\<lparr>ct_run := False\<rparr> else ticking clkAlarm (n + 1))"
  "ctl_second (ticking clkSnooze n) =
     (if 540 \<le> n + 1 then ticking clkAlarm 0 else ticking clkSnooze (n + 1))"
  by (simp_all add: ctl_second_def ticking_def Let_def)

lemma ctl_two: "(ctl_step ^^ (2 * Suc k)) x = ctl_step (ctl_step ((ctl_step ^^ (2 * k)) x))"
  by simp

fun alarm_period :: "ClockState \<Rightarrow> nat" where
  "alarm_period clkAlarm = 1800"
| "alarm_period clkSnooze = 540"
| "alarm_period clkNormal = 0"

lemma ctl_ticking_run:
  "k < alarm_period st \<Longrightarrow> (ctl_step ^^ (2 * k)) (ticking st 0) = ticking st (int k)"
proof (induction k)
  case (Suc k)
  have "(ctl_step ^^ (2 * Suc k)) (ticking st 0) = ctl_second (ticking st (int k))"
    using Suc by (subst ctl_two) (auto simp: ctl_second_run ticking_def)
  then show ?case using Suc.prems by (cases st) (auto simp: ctl_second_ticking add.commute)
qed simp

lemma ctl_state_runs:
  assumes "n < 2 * alarm_period st" shows "ct_state ((ctl_step ^^ n) (ticking st 0)) = st"
proof -
  have e: "(ctl_step ^^ (2 * (n div 2))) (ticking st 0) = ticking st (int (n div 2))"
    using assms by (intro ctl_ticking_run) linarith
  show ?thesis
  proof (cases "even n")
    case True
    then show ?thesis using e by (simp add: ticking_def)
  next
    case False
    then have "n = Suc (2 * (n div 2))" by presburger
    then have "(ctl_step ^^ n) (ticking st 0) = ctl_step (ticking st (int (n div 2)))"
      using e by (metis funpow.simps(2) comp_apply)
    then show ?thesis by (simp add: ctl_step_def ticking_def)
  qed
qed

lemma ctl_period_end:
  assumes "alarm_period st = Suc p"
  shows "(ctl_step ^^ (2 * Suc p)) (ticking st 0) = ctl_second (ticking st (int p))"
proof -
  have "(ctl_step ^^ (2 * p)) (ticking st 0) = ticking st (int p)"
    using assms by (intro ctl_ticking_run) simp
  then show ?thesis by (subst ctl_two) (simp add: ctl_second_run ticking_def)
qed

lemma ctl_alarm_ends: "(ctl_step ^^ 3600) (ticking clkAlarm 0) = (ticking clkNormal 1800)\<lparr>ct_run := False\<rparr>"
  using ctl_period_end [of clkAlarm 1799] by (simp add: ctl_second_ticking)

lemma ctl_snooze_ends: "(ctl_step ^^ 1080) (ticking clkSnooze 0) = ticking clkAlarm 0"
  using ctl_period_end [of clkSnooze 539] by (simp add: ctl_second_ticking)

section \<open>The end of an alarm\<close>

text \<open>What the step does that brings the clock into another state.\<close>

lemma maintenance_to_normal:
  assumes "mClockState c \<noteq> clkNormal" and "mClockState (maintenance_step c) = clkNormal"
  shows "mRadioState (mRadio (maintenance_step c)) = PwrOff \<and>
     mKeyboardState (mKeyboard (maintenance_step c)) = stNormal"
  using assms
  by (cases "mt_pc c"; cases "mClockState c")
    (auto simp: maintenance_step_def maintenance_body_def Let_def split: if_splits)

lemma maintenance_to_alarm:
  assumes "mClockState c = clkSnooze" and "mClockState (maintenance_step c) = clkAlarm"
  shows "mRadio (maintenance_step c) = Radio_pwrOn False (mAlarmVolume c) (mRadio c) \<and>
     mKeyboardState (mKeyboard (maintenance_step c)) = stAlarmActive"
  using assms
  by (cases "mt_pc c") (auto simp: maintenance_step_def maintenance_body_def Let_def split: if_splits)

lemma control_simps [simp]:
  "ct_state (control c) = mClockState c" "ct_run (control c) = mAlarmMaintenanceThreadRunning c"
  "ct_pc (control c) = mt_pc c" "ct_off (control c) = mAlarmOff c" "ct_count (control c) = mAlarmCounter c"
  by (simp_all add: control_def)

lemma rest_of_unit_control: "rest_of_unit env \<Longrightarrow> control (env n c) = control c"
  by (simp add: rest_of_unit_def)

lemma rest_of_unit_state: "rest_of_unit env \<Longrightarrow> mClockState (env n c) = mClockState c"
  using rest_of_unit_control [of env n c] by (metis control_simps(1))



text \<open>
  C5. A snoozed alarm rings again after nine minutes: from \<open>alarmSnooze\<close> in the alarm state the
  radio is off and the clock stays in the snooze state for 540 seconds (1080 steps of the thread, one
  less when it was asleep), and at the end of the last one it is back in the alarm state with the
  keyboard in its alarm mode and the radio switched on at once at the volume of the alarm.
\<close>

theorem snooze_rings_again:
  assumes "rest_of_unit env" and "mClockState c = clkAlarm" and "mAlarmMaintenanceThreadRunning c"
    and "mt_pc c \<noteq> Ended" and "\<not> mAlarmOff c"
  shows "let run = (\<lambda>n. clock_run env n (alarmSnooze c)); m = (if mt_pc c = AtTest then 1079 else 1078) in
    mRadioState (mRadio (run 0)) = PwrOff \<and> (\<forall>n \<le> m. mClockState (run n) = clkSnooze) \<and>
    mClockState (run (Suc m)) = clkAlarm \<and> mAlarmCounter (run (Suc m)) = 0 \<and>
    mKeyboardState (mKeyboard (run (Suc m))) = stAlarmActive \<and>
    mRadio (run (Suc m)) = Radio_pwrOn False (mAlarmVolume (env m (run m))) (mRadio (env m (run m)))"
proof -
  define run where "run = (\<lambda>n. clock_run env n (alarmSnooze c))"
  define m where "m = (if mt_pc c = AtTest then 1079 else 1078 :: nat)"
  have start: "control (alarmSnooze c) = (ctl_step ^^ (1079 - m)) (ticking clkSnooze 0)"
    unfolding control_alarmSnooze using assms
    by (cases "mt_pc c") (simp_all add: m_def ctl_snooze_def ticking_def control_def ctl_step_def)
  have ctl: "control (run n) = (ctl_step ^^ (n + (1079 - m))) (ticking clkSnooze 0)" for n
    using control_clock_run [OF assms(1)] start by (simp add: run_def funpow_add)
  have sleeps: "mClockState (run n) = clkSnooze" if "n \<le> m" for n
    using ctl_state_runs [of "n + (1079 - m)" clkSnooze] that
    by (simp add: control_simps(1) [symmetric] ctl m_def del: control_simps)
  have "Suc m + (1079 - m) = 1080" by (simp add: m_def)
  then have again: "mClockState (run (Suc m)) = clkAlarm" "mAlarmCounter (run (Suc m)) = 0"
    using ctl_snooze_ends ctl [of "Suc m"]
    by (simp_all only: control_simps(1,5) [symmetric] ticking_def alarm_ctl.simps)
  have off: "mRadioState (mRadio (run 0)) = PwrOff"
    using assms(2) by (simp add: run_def alarmSnooze_def Let_def)
  show ?thesis
    unfolding Let_def run_def [symmetric] m_def [symmetric]
    using sleeps again off maintenance_to_alarm [of "env m (run m)"]
      rest_of_unit_state [OF assms(1)] by (simp add: run_def)
qed

text \<open>
  Once \<open>alarmOff\<close> was called, an alarm that rings or snoozes ends within a second: at the next
  sleep of the maintenance thread the clock is in the normal state, the radio is off, the keyboard
  is back to normal and the request is taken back.
\<close>

theorem alarm_off_within_a_second:
  assumes "rest_of_unit env" and "mClockState c \<noteq> clkNormal" and "mAlarmMaintenanceThreadRunning c"
    and "mt_pc c \<noteq> Ended"
  shows "\<exists>n \<le> 2. let c' = clock_run env n (alarmOff c) in
    mClockState c' = clkNormal \<and> mRadioState (mRadio c') = PwrOff \<and>
    mKeyboardState (mKeyboard c') = stNormal \<and> \<not> mAlarmOff c' \<and> \<not> mAlarmMaintenanceThreadRunning c'"
proof -
  define n :: nat where "n = (if mt_pc c = AtTest then 1 else 0)"
  let ?x = "control (clock_run env n (alarmOff c))"
  let ?d = "env n (clock_run env n (alarmOff c))"
  have x: "?x = (control (alarmOff c))\<lparr>ct_pc := Asleep\<rparr>"
    using assms(3,4) unfolding control_clock_run [OF assms(1)]
    by (cases "mt_pc c") (auto simp: n_def control_alarmOff ctl_off_def ctl_step_def intro!: ctl_eqI)
  then have d: "control ?d = (control (alarmOff c))\<lparr>ct_pc := Asleep\<rparr>"
    using rest_of_unit_control [OF assms(1)] by simp
  have "control (maintenance_step ?d) =
      (ctl_second ((control (alarmOff c))\<lparr>ct_pc := Asleep\<rparr>))"
    by (simp add: control_maintenance_step d ctl_step_def)
  then have s: "mClockState (maintenance_step ?d) = clkNormal" "\<not> mAlarmOff (maintenance_step ?d)"
      "\<not> mAlarmMaintenanceThreadRunning (maintenance_step ?d)"
    using assms(2)
    by (simp_all add: control_simps(1,2,4) [symmetric] control_alarmOff ctl_off_def ctl_second_def Let_def
        del: control_simps)
  have "mClockState ?d \<noteq> clkNormal"
    using d assms(2) by (simp add: control_simps(1) [symmetric] control_alarmOff ctl_off_def del: control_simps)
  then show ?thesis
    using s maintenance_to_normal [of ?d]
    by (intro exI [of _ "Suc n"]) (simp add: n_def Let_def)
qed

section \<open>Reachable states of a unit\<close>

text \<open>
  The calls of the alarm manager, with volumes of at most 100, the steps of the maintenance thread,
  the keyboard's read thread, key events and timer steps of the radio and the light, and the
  (un)registration of a light, in any order. The display's alarm editor, which can put the
  keyboard into its edit mode, is not part of this system.
\<close>

inductive clock_step :: "AlarmClock \<Rightarrow> AlarmClock \<Rightarrow> bool" where
  notify: "volume \<le> 100 \<Longrightarrow> clock_step c (alarmNotify volume smooth c)"
| snooze: "clock_step c (alarmSnooze c)"
| off: "clock_step c (alarmOff c)"
| maintain: "clock_step c (maintenance_step c)"
| read: "clock_step c (c\<lparr>mKeyboard := readThread_pass ok v (mKeyboard c)\<rparr>)"
| radio_key: "clock_step c (c\<lparr>mRadio := Radio_keyboardPressed ki (mRadio c)\<rparr>)"
| radio_dim: "clock_step c (c\<lparr>mRadio := radio_dimmer (mRadio c)\<rparr>)"
| radio_auto: "radio_auto_off (mRadio c) = Some r \<Longrightarrow> clock_step c (c\<lparr>mRadio := r\<rparr>)"
| light_acts: "mLight c = Some l \<Longrightarrow> light_step l l' \<Longrightarrow> clock_step c (c\<lparr>mLight := Some l'\<rparr>)"
| light_comes: "light_reachable l \<Longrightarrow> clock_step c (registerLight (Some l) c)"
| light_goes: "clock_step c (unRegisterLight (mLight c) c)"

inductive clock_reachable :: "AlarmClock \<Rightarrow> bool" where
  start: "clock_reachable new_AlarmClock"
| step: "clock_reachable c \<Longrightarrow> clock_step c c' \<Longrightarrow> clock_reachable c'"

definition parts_inv :: "AlarmClock \<Rightarrow> bool" where
  "parts_inv c \<longleftrightarrow> radio_inv (mRadio c) \<and> (\<forall>l. mLight c = Some l \<longrightarrow> light_inv l) \<and> mAlarmVolume c \<le> 100"

definition modes_inv :: "AlarmClock \<Rightarrow> bool" where
  "modes_inv c \<longleftrightarrow>
     mKeyboardState (mKeyboard c) = (if mClockState c = clkNormal then stNormal else stAlarmActive) \<and>
     last (display_log c) = mClockState c \<and>
     mAlarmMaintenanceThreadRunning c = (mClockState c \<noteq> clkNormal) \<and>
     (mClockState c \<noteq> clkNormal \<longrightarrow> mt_pc c \<noteq> Ended)"

lemma with_light_parts:
  assumes "parts_inv c" and "\<And>l l'. light_inv l \<Longrightarrow> f l = Some l' \<Longrightarrow> light_inv l'"
  shows "parts_inv (with_light f c)"
proof (cases "mLight c")
  case (Some l)
  then show ?thesis
    using assms by (cases "f l") (auto simp: parts_inv_def with_light_def)
qed (use assms in \<open>simp add: with_light_def\<close>)

lemma startAlarm_parts: "parts_inv c \<Longrightarrow> parts_inv (startAlarm s c)"
  unfolding startAlarm_def Let_def
  by (rule with_light_parts) (auto simp: parts_inv_def Radio_pwrOn_inv intro: Light_pwrOn_inv)

lemma end_alarm_parts:
  assumes "parts_inv c" shows "parts_inv (end_alarm c)"
proof -
  let ?c1 = "signalClockState (c\<lparr>mAlarmOff := False, mClockState := clkNormal\<rparr>)"
  have "parts_inv (with_light Light_pwrOff
      (?c1\<lparr>mKeyboard := keyboardState stNormal (mKeyboard ?c1), mRadio := Radio_pwrOff (mRadio ?c1)\<rparr>))"
    by (rule with_light_parts) (use assms in \<open>auto simp: parts_inv_def Radio_pwrOff_inv intro: Light_pwrOff_inv\<close>)
  then show ?thesis by (simp add: end_alarm_def Let_def parts_inv_def)
qed

lemma alarmSnooze_parts:
  assumes "parts_inv c" shows "parts_inv (alarmSnooze c)"
proof -
  let ?c1 = "signalClockState (c\<lparr>mClockState := clkSnooze\<rparr>)"
  have "parts_inv (with_light Light_pwrOff (?c1\<lparr>mRadio := Radio_pwrOff (mRadio ?c1)\<rparr>))"
    by (rule with_light_parts) (use assms in \<open>auto simp: parts_inv_def Radio_pwrOff_inv intro: Light_pwrOff_inv\<close>)
  then show ?thesis using assms by (simp add: alarmSnooze_def Let_def parts_inv_def)
qed

lemma parts_inv_simps [simp]:
  "parts_inv (c\<lparr>mt_pc := p\<rparr>) = parts_inv c" "parts_inv (c\<lparr>mAlarmCounter := n\<rparr>) = parts_inv c"
  "parts_inv (c\<lparr>mClockState := st\<rparr>) = parts_inv c" "parts_inv (c\<lparr>mAlarmOff := b\<rparr>) = parts_inv c"
  "parts_inv (c\<lparr>mAlarmMaintenanceThreadRunning := b\<rparr>) = parts_inv c" "parts_inv (c\<lparr>mKeyboard := k\<rparr>) = parts_inv c"
  by (simp_all add: parts_inv_def)

lemma maintenance_step_parts: "parts_inv c \<Longrightarrow> parts_inv (maintenance_step c)"
  by (simp add: maintenance_step_def maintenance_body_def Let_def startAlarm_parts end_alarm_parts
      split: thread_pc.splits ClockState.splits)

lemma alarmNotify_parts: "parts_inv c \<Longrightarrow> volume \<le> 100 \<Longrightarrow> parts_inv (alarmNotify volume smooth c)"
  by (simp add: alarmNotify_def startAlarmMaintenanceThread_def stopAlarmMaintenanceThread_def)
    (rule startAlarm_parts, simp add: parts_inv_def)

lemma clock_step_parts: "clock_step c c' \<Longrightarrow> parts_inv c \<Longrightarrow> parts_inv c'"
proof (induction rule: clock_step.induct)
  case (light_acts c l l')
  then show ?case using light_step_inv by (auto simp: parts_inv_def)
next
  case (light_comes l c)
  then show ?case using light_reachable_inv by (auto simp: parts_inv_def registerLight_def)
next
  case (radio_auto c r)
  then show ?case using radio_auto_off_inv by (auto simp: parts_inv_def)
qed (auto simp: alarmNotify_parts alarmSnooze_parts maintenance_step_parts alarmOff_def,
    auto simp: parts_inv_def Radio_keyboardPressed_inv radio_dimmer_inv unRegisterLight_def split: option.splits)

lemma readThread_pass_state [simp]: "mKeyboardState (readThread_pass ok v k) = mKeyboardState k"
  by (simp add: readThread_pass_def Let_def split_beta)

lemma observer_ops_state [simp]:
  "mKeyboardState (registerKeyboardObserver p k) = mKeyboardState k"
  "mKeyboardState (unRegisterKeyboardObserver p k) = mKeyboardState k"
  by (simp_all add: registerKeyboardObserver_def unRegisterKeyboardObserver_def split: option.splits)

lemma maintenance_step_modes:
  assumes "modes_inv c" shows "modes_inv (maintenance_step c)"
proof (cases "mt_pc c")
  case Asleep
  then show ?thesis
    using assms
    by (cases "mClockState c")
      (auto simp: maintenance_step_def maintenance_body_def Let_def modes_inv_def split: if_splits)
qed (use assms in \<open>auto simp: maintenance_step_def modes_inv_def\<close>)

lemma clock_step_modes: "clock_step c c' \<Longrightarrow> modes_inv c \<Longrightarrow> modes_inv c'"
proof (induction rule: clock_step.induct)
  case (notify volume c smooth)
  then show ?case
    by (simp add: modes_inv_def alarmNotify_def startAlarmMaintenanceThread_def stopAlarmMaintenanceThread_def)
next
  case (snooze c)
  then show ?case by (auto simp: modes_inv_def alarmSnooze_def Let_def)
next
  case (maintain c)
  then show ?case by (rule maintenance_step_modes)
qed (auto simp: modes_inv_def alarmOff_def registerLight_def unRegisterLight_def split: option.splits)

lemma clock_reachable_inv: "clock_reachable c \<Longrightarrow> parts_inv c \<and> modes_inv c"
proof (induction rule: clock_reachable.induct)
  case start
  show ?case
    using new_Radio_inv radio_observers_inv(1)
    by (simp add: parts_inv_def modes_inv_def new_AlarmClock_def Let_def new_Keyboard_def)
next
  case (step c c')
  then show ?case using clock_step_parts clock_step_modes by blast
qed


section \<open>A concrete unit\<close>

definition ex_clock :: AlarmClock where
  "ex_clock = alarmNotify 40 True (registerLight (Some (new_Light 0)) new_AlarmClock)"

lemma ex_clock_reachable: "clock_reachable ex_clock"
  unfolding ex_clock_def
  by (rule clock_reachable.step, rule clock_reachable.step, rule clock_reachable.start,
      rule clock_step.light_comes, rule light_reachable.start, rule clock_step.notify) simp

lemma ex_clock_control: "control ex_clock = ctl_notify"
  by (simp add: ex_clock_def control_alarmNotify)

lemma ex_clock_fields: "mClockState ex_clock = clkAlarm" "mAlarmMaintenanceThreadRunning ex_clock"
  "mt_pc ex_clock = AtTest" "\<not> mAlarmOff ex_clock"
  using ex_clock_control by (simp_all add: control_def ctl_notify_def)

definition ex_rest :: "nat \<Rightarrow> AlarmClock \<Rightarrow> AlarmClock" where
  "ex_rest n c = c\<lparr>mRadio := radio_dimmer (mRadio c)\<rparr>"

lemma ex_rest: "rest_of_unit ex_rest"
  by (simp add: rest_of_unit_def ex_rest_def control_def)


theorem snooze_rings_again_witness:
  "mClockState (clock_run ex_rest 1079 (alarmSnooze ex_clock)) = clkSnooze \<and>
   mClockState (clock_run ex_rest 1080 (alarmSnooze ex_clock)) = clkAlarm"
proof -
  have "mt_pc ex_clock \<noteq> Ended" using ex_clock_fields by simp
  from snooze_rings_again [OF ex_rest ex_clock_fields(1,2) this ex_clock_fields(4)] show ?thesis
    using ex_clock_fields(3) by (simp add: Let_def)
qed

theorem alarm_off_within_a_second_witness:
  "\<exists>n \<le> 2. mClockState (clock_run ex_rest n (alarmOff (alarmSnooze ex_clock))) = clkNormal"
proof -
  have "control (alarmSnooze ex_clock) = ctl_snooze ctl_notify"
    by (simp add: control_alarmSnooze ex_clock_control)
  then have "mClockState (alarmSnooze ex_clock) = clkSnooze" "mAlarmMaintenanceThreadRunning (alarmSnooze ex_clock)"
    "mt_pc (alarmSnooze ex_clock) = AtTest"
    by (simp_all add: control_def ctl_snooze_def ctl_notify_def)
  then show ?thesis
    using alarm_off_within_a_second [OF ex_rest, of "alarmSnooze ex_clock"] by (auto simp: Let_def)
qed


end
