(* ===== verification/Clock_Display.thy ===== *)
theory Clock_Display
  imports Alarm_Clock
begin

text \<open>
  The display of a unit (\<open>rgbclock/RgbLib/src/lib/ClockDisplay.cpp\<close>): what it shows of the time, the
  radio and the next alarm, and the alarm editor that the keys of the unit drive. The objects
  the class refers to, the keyboard and the alarm manager, are fields of the record; the calls of
  the LCD are logged, and so are the writes of the alarm file that the manager makes. A handler of
  a key and a pass of the refresh thread are each one step. \<open>cd_ub\<close> records an access outside the
  alarm list, an exception of \<open>substr\<close>, or another undefined operation of C++.
\<close>

section \<open>State\<close>

datatype DisplayState = dsNormal | dsEditAlarms

datatype EditState = edUndefined | edListAlarms | edConfirmDelete | edEditAlarm

datatype EditPos = posEnable | posUnit | posHourT | posHourE | posMinT | posMinE | posOneTime
  | posDaySu | posDayMo | posDayTu | posDayWe | posDayTh | posDayFr | posDaySa | posVol

datatype FontType = Terminal8 | Verdana20

datatype lcd_call =
    InitGraphic
  | ClearGraphicDisplay
  | WriteGraphicText int int string FontType
  | Rectangle int int int int bool bool
  | DrawSignal int
  | DrawNTPState bool

record ClockDisplay =
  cd_mKeyboard :: Keyboard
  cd_mAlarmManager :: AlarmManager
  mUserActivityTimer :: u16
  mDisplayState :: DisplayState
  mEditState :: EditState
  mEditPos :: EditPos
  mRefreshThreadRunning :: bool
  mForceRefresh :: bool
  mRadioOn :: bool
  mRDSStationName :: string
  mRDSText :: string
  mRDSTextPos :: int
  mReceiveLevel :: int
  cd_mVolume :: int
  mUnitName :: string
  mAlarmEditIndex :: nat
  mConfirmDelete :: bool
  cd_mClockState :: ClockState
  mUpdateEditDisplay :: bool
  mEditAlarmsTimer :: int
  prevMin :: int
  prevSec :: int
  lcd_log :: "lcd_call list"
  cd_events :: "alarm_event list"
  cd_ub :: bool

definition LINESPACING :: int where "LINESPACING = 8"
definition POS_ENABLE :: int where "POS_ENABLE = 8"
definition POS_UNITNAME :: int where "POS_UNITNAME = 16"
definition POS_HOUR_T :: int where "POS_HOUR_T = 50"
definition POS_HOUR_E :: int where "POS_HOUR_E = 56"
definition POS_MIN_T :: int where "POS_MIN_T = 64"
definition POS_MIN_E :: int where "POS_MIN_E = 70"
definition POS_TYPE :: int where "POS_TYPE = 82"
definition POS_DAYS :: int where "POS_DAYS = 90"
definition POS_VOLUME :: int where "POS_VOLUME = 148"
definition EDIT_TIMEOUT_MILLISECONDS :: int where "EDIT_TIMEOUT_MILLISECONDS = 1 * 60 * 1000"
definition THREAD_INTERVAL_MS :: int where "THREAD_INTERVAL_MS = 250"
definition USERACTIVITY_TIMER :: u16 where "USERACTIVITY_TIMER = 10"

definition lcd :: "lcd_call list \<Rightarrow> ClockDisplay \<Rightarrow> ClockDisplay" where
  "lcd cs s = s\<lparr>lcd_log := lcd_log s @ cs\<rparr>"

definition new_ClockDisplay :: "Keyboard \<Rightarrow> AlarmManager \<Rightarrow> string \<Rightarrow> ClockDisplay" where
  "new_ClockDisplay k m name =
     \<lparr>cd_mKeyboard = registerKeyboardObserver (Some display_addr) k, cd_mAlarmManager = m,
      mUserActivityTimer = 0, mDisplayState = dsNormal, mEditState = edUndefined, mEditPos = posEnable,
      mRefreshThreadRunning = True, mForceRefresh = False, mRadioOn = False, mRDSStationName = '''',
      mRDSText = '''', mRDSTextPos = 0, mReceiveLevel = 0, cd_mVolume = 0, mUnitName = name,
      mAlarmEditIndex = 0, mConfirmDelete = False, cd_mClockState = clkNormal, mUpdateEditDisplay = False,
      mEditAlarmsTimer = 0, prevMin = -1, prevSec = -1, lcd_log = [InitGraphic, ClearGraphicDisplay],
      cd_events = [], cd_ub = False\<rparr>"

section \<open>What the other components tell the display\<close>

definition ClockDisplay_signalClockState :: "ClockState \<Rightarrow> ClockDisplay \<Rightarrow> ClockDisplay" where
  "ClockDisplay_signalClockState state s = s\<lparr>cd_mClockState := state\<rparr>"

record DABInfo =
  StationName :: string
  Info :: string
  ReceiveLevel :: int

definition radioDABUpdate :: "DABInfo \<Rightarrow> ClockDisplay \<Rightarrow> ClockDisplay" where
  "radioDABUpdate rdsInfo s =
     (let s1 = (if mRDSStationName s \<noteq> StationName rdsInfo
                then (let n = take 7 (StationName rdsInfo)
                      in s\<lparr>mRDSStationName := n @ replicate (7 - length n) CHR '' ''\<rparr>)
                else s);
          s2 = (if mRDSText s1 \<noteq> Info rdsInfo then s1\<lparr>mRDSText := Info rdsInfo, mRDSTextPos := 0\<rparr> else s1)
      in s2\<lparr>mReceiveLevel := ReceiveLevel rdsInfo\<rparr>)"

definition radioStateUpdate :: "RadioState \<Rightarrow> int \<Rightarrow> ClockDisplay \<Rightarrow> ClockDisplay" where
  "radioStateUpdate state volume s = s\<lparr>cd_mVolume := volume, mRadioOn := (state = PwrOn)\<rparr>"

section \<open>Changing a field of an alarm\<close>

text \<open>Subtraction and addition that are undone when they leave the range of the field.\<close>

definition dec_by :: "int \<Rightarrow> int \<Rightarrow> int" where
  "dec_by d v = (let v' = v - d in if v' < 0 then v' + d else v')"

definition inc_by :: "int \<Rightarrow> int \<Rightarrow> int \<Rightarrow> int" where
  "inc_by d hi v = (let v' = v + d in if v' > hi then v' - d else v')"

definition flip_day :: "DayOfWeek \<Rightarrow> Alarm \<Rightarrow> Alarm" where
  "flip_day d a = a\<lparr>mDays := flip_bit (day_int d) (mDays a)\<rparr>"

text \<open>The new alarm, or None where \<open>nextUnitName\<close> takes the front of an empty list.\<close>

fun edit_down :: "AlarmManager \<Rightarrow> EditPos \<Rightarrow> Alarm \<Rightarrow> Alarm option" where
  "edit_down m posEnable a = Some (a\<lparr>mEnabled := \<not> mEnabled a\<rparr>)"
| "edit_down m posUnit a = map_option (\<lambda>u. a\<lparr>mUnit := u\<rparr>) (nextUnitName (mUnit a) m)"
| "edit_down m posHourT a = Some (a\<lparr>mHour := dec_by 10 (mHour a)\<rparr>)"
| "edit_down m posHourE a = Some (a\<lparr>mHour := dec_by 1 (mHour a)\<rparr>)"
| "edit_down m posMinT a = Some (a\<lparr>mMinutes := dec_by 10 (mMinutes a)\<rparr>)"
| "edit_down m posMinE a = Some (a\<lparr>mMinutes := dec_by 1 (mMinutes a)\<rparr>)"
| "edit_down m posOneTime a = Some (a\<lparr>mAlarmType :=
     (case mAlarmType a of Daily \<Rightarrow> OnTimeSmooth | OnTimeSmooth \<Rightarrow> OnTimeLoud | OnTimeLoud \<Rightarrow> Daily)\<rparr>)"
| "edit_down m posDaySu a = Some (flip_day Sunday a)"
| "edit_down m posDayMo a = Some (flip_day Monday a)"
| "edit_down m posDayTu a = Some (flip_day Thuesday a)"
| "edit_down m posDayWe a = Some (flip_day Wednesday a)"
| "edit_down m posDayTh a = Some (flip_day Thursday a)"
| "edit_down m posDayFr a = Some (flip_day Friday a)"
| "edit_down m posDaySa a = Some (flip_day Saturday a)"
| "edit_down m posVol a = Some (a\<lparr>mVolume := dec_by 1 (mVolume a)\<rparr>)"

fun edit_up :: "AlarmManager \<Rightarrow> EditPos \<Rightarrow> Alarm \<Rightarrow> Alarm option" where
  "edit_up m posEnable a = Some (a\<lparr>mEnabled := \<not> mEnabled a\<rparr>)"
| "edit_up m posUnit a = map_option (\<lambda>u. a\<lparr>mUnit := u\<rparr>) (nextUnitName (mUnit a) m)"
| "edit_up m posHourT a = Some (a\<lparr>mHour := inc_by 10 23 (mHour a)\<rparr>)"
| "edit_up m posHourE a = Some (a\<lparr>mHour := inc_by 1 23 (mHour a)\<rparr>)"
| "edit_up m posMinT a = Some (a\<lparr>mMinutes := inc_by 10 59 (mMinutes a)\<rparr>)"
| "edit_up m posMinE a = Some (a\<lparr>mMinutes := inc_by 1 59 (mMinutes a)\<rparr>)"
| "edit_up m posOneTime a = Some (a\<lparr>mAlarmType :=
     (case mAlarmType a of Daily \<Rightarrow> OnTimeLoud | OnTimeLoud \<Rightarrow> OnTimeSmooth | OnTimeSmooth \<Rightarrow> Daily)\<rparr>)"
| "edit_up m posDaySu a = Some (flip_day Sunday a)"
| "edit_up m posDayMo a = Some (flip_day Monday a)"
| "edit_up m posDayTu a = Some (flip_day Thuesday a)"
| "edit_up m posDayWe a = Some (flip_day Wednesday a)"
| "edit_up m posDayTh a = Some (flip_day Thursday a)"
| "edit_up m posDayFr a = Some (flip_day Friday a)"
| "edit_up m posDaySa a = Some (flip_day Saturday a)"
| "edit_up m posVol a = Some (a\<lparr>mVolume := inc_by 1 99 (mVolume a)\<rparr>)"

section \<open>Moving between the fields\<close>

text \<open>The field to the right and to the left; None: the editor returns to the list.\<close>

fun pos_right :: "AlarmType \<Rightarrow> EditPos \<Rightarrow> EditPos option" where
  "pos_right t posEnable = Some posUnit"
| "pos_right t posUnit = Some posHourT"
| "pos_right t posHourT = Some posHourE"
| "pos_right t posHourE = Some posMinT"
| "pos_right t posMinT = Some posMinE"
| "pos_right t posMinE = Some posOneTime"
| "pos_right t posOneTime = Some (if t = Daily then posDaySu else posVol)"
| "pos_right t posDaySu = Some posDayMo"
| "pos_right t posDayMo = Some posDayTu"
| "pos_right t posDayTu = Some posDayWe"
| "pos_right t posDayWe = Some posDayTh"
| "pos_right t posDayTh = Some posDayFr"
| "pos_right t posDayFr = Some posDaySa"
| "pos_right t posDaySa = Some posVol"
| "pos_right t posVol = None"

fun pos_left :: "AlarmType \<Rightarrow> EditPos \<Rightarrow> EditPos option" where
  "pos_left t posEnable = None"
| "pos_left t posUnit = Some posEnable"
| "pos_left t posHourT = Some posUnit"
| "pos_left t posHourE = Some posHourT"
| "pos_left t posMinT = Some posHourE"
| "pos_left t posMinE = Some posMinT"
| "pos_left t posOneTime = Some posMinE"
| "pos_left t posDaySu = Some posOneTime"
| "pos_left t posDayMo = Some posDaySu"
| "pos_left t posDayTu = Some posDayMo"
| "pos_left t posDayWe = Some posDayTu"
| "pos_left t posDayTh = Some posDayWe"
| "pos_left t posDayFr = Some posDayTh"
| "pos_left t posDaySa = Some posDayFr"
| "pos_left t posVol = Some (if t = Daily then posDaySa else posOneTime)"

definition move_pos :: "EditPos option \<Rightarrow> ClockDisplay \<Rightarrow> ClockDisplay" where
  "move_pos p s =
     (case p of
        Some q \<Rightarrow> s\<lparr>mEditPos := q, mUpdateEditDisplay := True\<rparr>
      | None \<Rightarrow> s\<lparr>mEditPos := posEnable, mEditState := edListAlarms, mAlarmEditIndex := 0,
                  mUpdateEditDisplay := True\<rparr>)"

section \<open>The alarm editor\<close>

abbreviation cd_alarms :: "ClockDisplay \<Rightarrow> Alarm list" where
  "cd_alarms s \<equiv> mAlarmList (cd_mAlarmManager s)"

definition set_alarms :: "Alarm list \<Rightarrow> ClockDisplay \<Rightarrow> ClockDisplay" where
  "set_alarms as s = s\<lparr>cd_mAlarmManager := (cd_mAlarmManager s)\<lparr>mAlarmList := as\<rparr>\<rparr>"

abbreviation short :: "KeyboardInfo \<Rightarrow> nat \<Rightarrow> bool" where
  "short ki k \<equiv> mShortPressed (mKeyInfo ki ! k)"

abbreviation first_long :: "KeyboardInfo \<Rightarrow> nat \<Rightarrow> bool" where
  "first_long ki k \<equiv> mLongPress (mKeyInfo ki ! k) \<and> \<not> mRepeat (mKeyInfo ki ! k)"

definition clear_screen :: lcd_call where
  "clear_screen = Rectangle 0 0 163 63 False True"

definition exitEditAlarms :: "ClockDisplay \<Rightarrow> ClockDisplay" where
  "exitEditAlarms s =
     (let (m, ev) = saveAlarms_unit (mUnitName s) (cd_mAlarmManager s)
      in lcd [ClearGraphicDisplay]
           (s\<lparr>cd_mKeyboard := keyboardState stNormal (cd_mKeyboard s), cd_mAlarmManager := m,
              cd_events := cd_events s @ ev, mDisplayState := dsNormal, mEditState := edListAlarms,
              mForceRefresh := True\<rparr>))"

definition left_long :: "KeyboardInfo \<Rightarrow> ClockDisplay \<Rightarrow> ClockDisplay" where
  "left_long ki s =
     (if mState ki = stNormal
      then (let (alarms, m) = editAlarms (mUnitName s) (cd_mAlarmManager s);
                s1 = s\<lparr>cd_mAlarmManager := m\<rparr>
            in if alarms
               then s1\<lparr>cd_mKeyboard := keyboardState stAlarmEdit (cd_mKeyboard s), mAlarmEditIndex := 0,
                       mDisplayState := dsEditAlarms, mEditState := edListAlarms, mEditPos := posEnable,
                       mUpdateEditDisplay := True\<rparr>
               else s1)
      else if mState ki = stAlarmEdit then exitEditAlarms s
      else s)"

definition list_keys :: "KeyboardInfo \<Rightarrow> ClockDisplay \<Rightarrow> ClockDisplay" where
  "list_keys ki s =
     (let n = length (cd_alarms s) in
      if (first_long ki KEY_CENTRAL_L \<or> first_long ki KEY_CENTRAL_R) \<and> mAlarmEditIndex s < n
      then (lcd [clear_screen] s)\<lparr>mEditState := edConfirmDelete, mConfirmDelete := False,
              mUpdateEditDisplay := True\<rparr>
      else if short ki KEY_CENTRAL_R
      then (let s1 = (if mAlarmEditIndex s = n then set_alarms (cd_alarms s @ [new_Alarm]) s else s)
            in (lcd [clear_screen] s1)\<lparr>mEditPos := posEnable, mEditState := edEditAlarm,
                  mUpdateEditDisplay := True\<rparr>)
      else if short ki KEY_DOWN
      then s\<lparr>mAlarmEditIndex := (if n < Suc (mAlarmEditIndex s) then n else Suc (mAlarmEditIndex s)),
             mUpdateEditDisplay := True\<rparr>
      else if short ki KEY_UP
      then s\<lparr>mAlarmEditIndex := mAlarmEditIndex s - 1, mUpdateEditDisplay := True\<rparr>
      else s)"

text \<open>Erasing at a position outside the vector is undefined.\<close>

definition confirm_keys :: "KeyboardInfo \<Rightarrow> ClockDisplay \<Rightarrow> ClockDisplay" where
  "confirm_keys ki s =
     (if short ki KEY_DOWN \<or> short ki KEY_UP
      then s\<lparr>mConfirmDelete := \<not> mConfirmDelete s, mUpdateEditDisplay := True\<rparr>
      else if short ki KEY_CENTRAL_L \<or> short ki KEY_CENTRAL_R
      then (let i = mAlarmEditIndex s;
                s1 = (if \<not> mConfirmDelete s then s
                      else if i < length (cd_alarms s)
                      then set_alarms (take i (cd_alarms s) @ drop (Suc i) (cd_alarms s)) s
                      else s\<lparr>cd_ub := True\<rparr>)
            in s1\<lparr>mAlarmEditIndex := 0, mEditState := edListAlarms, mEditPos := posEnable,
                  mUpdateEditDisplay := True\<rparr>)
      else s)"

text \<open>The reference \<open>alarm\<close> keeps denoting element \<open>i\<close> while the index of the editor moves.\<close>

definition change_alarm ::
  "(AlarmManager \<Rightarrow> EditPos \<Rightarrow> Alarm \<Rightarrow> Alarm option) \<Rightarrow> nat \<Rightarrow> ClockDisplay \<Rightarrow> ClockDisplay" where
  "change_alarm f i s =
     (case f (cd_mAlarmManager s) (mEditPos s) (cd_alarms s ! i) of
        None \<Rightarrow> s\<lparr>cd_ub := True, mUpdateEditDisplay := True\<rparr>
      | Some a \<Rightarrow> (set_alarms ((cd_alarms s)[i := a]) s)\<lparr>mUpdateEditDisplay := True\<rparr>)"

definition edit_keys :: "KeyboardInfo \<Rightarrow> ClockDisplay \<Rightarrow> ClockDisplay" where
  "edit_keys ki s =
     (let i = mAlarmEditIndex s in
      if length (cd_alarms s) \<le> i then s
      else
       (let s1 = set_alarms ((cd_alarms s)[i := (cd_alarms s ! i)\<lparr>mSignalled := False\<rparr>]) s;
            s2 = (if short ki KEY_CENTRAL_R
                  then move_pos (pos_right (mAlarmType (cd_alarms s1 ! i)) (mEditPos s1)) s1 else s1);
            s3 = (if short ki KEY_CENTRAL_L
                  then move_pos (pos_left (mAlarmType (cd_alarms s2 ! i)) (mEditPos s2)) s2 else s2);
            s4 = (if short ki KEY_DOWN then change_alarm edit_down i s3 else s3)
        in if short ki KEY_UP then change_alarm edit_up i s4 else s4))"

definition editor_keys :: "KeyboardInfo \<Rightarrow> ClockDisplay \<Rightarrow> ClockDisplay" where
  "editor_keys ki s =
     (case mEditState s of
        edListAlarms \<Rightarrow> list_keys ki s
      | edConfirmDelete \<Rightarrow> confirm_keys ki s
      | edEditAlarm \<Rightarrow> edit_keys ki s
      | edUndefined \<Rightarrow> s)"

definition ClockDisplay_keyboardPressed :: "KeyboardInfo \<Rightarrow> ClockDisplay \<Rightarrow> ClockDisplay" where
  "ClockDisplay_keyboardPressed ki s =
     (let s1 = s\<lparr>mUserActivityTimer := USERACTIVITY_TIMER\<rparr>;
          s2 = (if first_long ki KEY_LEFT then left_long ki s1 else s1)
      in if mDisplayState s2 = dsEditAlarms
         then (let (alarms, m) = editAlarms (mUnitName s2) (cd_mAlarmManager s2);
                   s3 = s2\<lparr>mEditAlarmsTimer := EDIT_TIMEOUT_MILLISECONDS, cd_mAlarmManager := m\<rparr>
               in if alarms then editor_keys ki s3 else s3)
         else s2)"

section \<open>Drawing\<close>

definition trunc_mod :: "int \<Rightarrow> int \<Rightarrow> int" where
  "trunc_mod a b = a - b * trunc_div a b"

definition writeAlarm :: "int \<Rightarrow> Alarm \<Rightarrow> lcd_call list" where
  "writeAlarm line a =
     (let y = line * LINESPACING in
      [WriteGraphicText POS_ENABLE y (if mEnabled a then ''1'' else ''0'') Terminal8,
       WriteGraphicText POS_UNITNAME y (if mUnit a = '''' then ''     '' else mUnit a) Terminal8,
       WriteGraphicText POS_HOUR_T y (to_string_int (trunc_div (mHour a) 10)) Terminal8,
       WriteGraphicText POS_HOUR_E y (to_string_int (trunc_mod (mHour a) 10)) Terminal8,
       WriteGraphicText POS_MIN_T y (to_string_int (trunc_div (mMinutes a) 10)) Terminal8,
       WriteGraphicText POS_MIN_E y (to_string_int (trunc_mod (mMinutes a) 10)) Terminal8,
       WriteGraphicText POS_TYPE y (typeString a) Terminal8,
       WriteGraphicText POS_DAYS y (if mAlarmType a = Daily then daysString a else ''[       ]'') Terminal8,
       WriteGraphicText POS_VOLUME y (to_string_int (mVolume a) @ '' '') Terminal8])"

fun carret_pos :: "EditPos \<Rightarrow> int" where
  "carret_pos posEnable = POS_ENABLE"
| "carret_pos posUnit = POS_UNITNAME"
| "carret_pos posHourT = POS_HOUR_T"
| "carret_pos posHourE = POS_HOUR_E"
| "carret_pos posMinT = POS_MIN_T"
| "carret_pos posMinE = POS_MIN_E"
| "carret_pos posOneTime = POS_TYPE"
| "carret_pos posDaySu = 95"
| "carret_pos posDayMo = 102"
| "carret_pos posDayTu = 108"
| "carret_pos posDayWe = 114"
| "carret_pos posDayTh = 120"
| "carret_pos posDayFr = 126"
| "carret_pos posDaySa = 132"
| "carret_pos posVol = POS_VOLUME"

text \<open>At most three alarms from the current one on, then the line of a new alarm.\<close>

definition draw_list :: "nat \<Rightarrow> Alarm list \<Rightarrow> lcd_call list" where
  "draw_list i as =
     (let shown = take 3 (drop i as) in
      [clear_screen, WriteGraphicText 0 0 ''>'' Terminal8]
      @ concat (map (\<lambda>line. writeAlarm (int line) (shown ! line)) [0..<length shown])
      @ [WriteGraphicText POS_UNITNAME (int (length shown) * LINESPACING) ''Nieuw alarm '' Terminal8])"

definition draw_confirm :: "bool \<Rightarrow> lcd_call list" where
  "draw_confirm yes =
     [WriteGraphicText 20 8 ''Alarm verwijderen ?'' Terminal8,
      WriteGraphicText 20 16 ''  Ja      Nee'' Terminal8,
      WriteGraphicText 0 24 (replicate 39 CHR '' '') Terminal8,
      WriteGraphicText (if yes then 34 else 86) 24 ''^'' Terminal8]"

definition updateEditDisplay :: "ClockDisplay \<Rightarrow> ClockDisplay" where
  "updateEditDisplay s =
     (let (alarms, m) = editAlarms (mUnitName s) (cd_mAlarmManager s);
          s1 = s\<lparr>cd_mAlarmManager := m\<rparr>
      in if \<not> alarms then s1
         else case mEditState s1 of
             edListAlarms \<Rightarrow> lcd (draw_list (mAlarmEditIndex s1) (cd_alarms s1)) s1
           | edConfirmDelete \<Rightarrow> lcd (draw_confirm (mConfirmDelete s1)) s1
           | edEditAlarm \<Rightarrow>
               if mAlarmEditIndex s1 < length (cd_alarms s1)
               then lcd (writeAlarm 0 (cd_alarms s1 ! mAlarmEditIndex s1)
                         @ [Rectangle 0 8 163 63 False True,
                            WriteGraphicText (carret_pos (mEditPos s1)) LINESPACING ''^'' Terminal8]) s1
               else s1\<lparr>cd_ub := True\<rparr>
           | edUndefined \<Rightarrow> s1)"

text \<open>
  The product of the volume and the double \<open>21.0 / 100.0\<close> truncates to the quotient of integers
  for every volume from 0 to 100; the conversion of a negative value to \<open>uint8_t\<close> is undefined.
\<close>

definition drawVolume :: "ClockDisplay \<Rightarrow> ClockDisplay" where
  "drawVolume s =
     (let v = (if cd_mVolume s > 100 then 100 else cd_mVolume s);
          len = trunc_div (21 * v) 100;
          s1 = s\<lparr>cd_mVolume := v\<rparr>
      in if len < 0 then s1\<lparr>cd_ub := True\<rparr>
         else lcd [Rectangle 158 10 159 (31 - len - 1) False False,
                   Rectangle 158 (31 - len) 159 31 True False] s1)"

definition eraseVolume :: "ClockDisplay \<Rightarrow> ClockDisplay" where
  "eraseVolume s = lcd [Rectangle 158 10 159 31 False False] s"

definition drawSignal :: "ClockDisplay \<Rightarrow> ClockDisplay" where
  "drawSignal s = lcd [DrawSignal (mReceiveLevel s)] s"

definition eraseSignal :: "ClockDisplay \<Rightarrow> ClockDisplay" where
  "eraseSignal s = lcd [Rectangle 156 0 159 3 False True] s"

text \<open>\<open>substr\<close> throws when its position is beyond the end of the text.\<close>

definition drawRDS :: "ClockDisplay \<Rightarrow> ClockDisplay" where
  "drawRDS s =
     (let s1 = lcd [WriteGraphicText 0 14 (mRDSStationName s) Terminal8] s in
      if mRDSText s1 \<noteq> ''''
      then if mRDSTextPos s1 < 0 \<or> int (length (mRDSText s1)) < mRDSTextPos s1
           then s1\<lparr>cd_ub := True\<rparr>
           else (let t = drop (nat (mRDSTextPos s1)) (mRDSText s1) in
                 if 26 < length t
                 then lcd [WriteGraphicText 0 24 (take 26 t) Terminal8] (s1\<lparr>mRDSTextPos := mRDSTextPos s1 + 2\<rparr>)
                 else lcd [WriteGraphicText 0 24 (t @ replicate (26 - length t) CHR '' '') Terminal8]
                        (s1\<lparr>mRDSTextPos := 0\<rparr>))
      else lcd [WriteGraphicText 0 24 '''' Terminal8] s1)"

definition eraseRDS :: "ClockDisplay \<Rightarrow> ClockDisplay" where
  "eraseRDS s = lcd [WriteGraphicText 0 14 ''   '' Terminal8, WriteGraphicText 0 24 ''  '' Terminal8] s"

definition updateAlarmInfo :: "ClockDisplay \<Rightarrow> ClockDisplay" where
  "updateAlarmInfo s =
     (case cd_mClockState s of
        clkNormal \<Rightarrow>
          (let a = nextAlarm (mUnitName s) (cd_mAlarmManager s)
           in lcd [WriteGraphicText 0 0 (if a \<noteq> '''' then a @ '' '' else ''      '') Terminal8] s)
      | clkAlarm \<Rightarrow> lcd [WriteGraphicText 0 0 ''Alarm  '' Terminal8] s
      | clkSnooze \<Rightarrow> lcd [WriteGraphicText 0 0 ''Snooze '' Terminal8] s)"

definition toString :: "ClockState \<Rightarrow> string" where
  "toString c = (case c of clkNormal \<Rightarrow> ''clkNormal'' | clkAlarm \<Rightarrow> ''clkAlarm'' | clkSnooze \<Rightarrow> ''clkSnooze'')"

section \<open>The refresh thread\<close>

text \<open>What a pass reads: the local time and whether the clock is synchronised.\<close>

record refresh_input =
  tm_hour :: int
  tm_min :: int
  tm_sec :: int
  isNTPSync :: bool

definition refresh_normal :: "refresh_input \<Rightarrow> ClockDisplay \<Rightarrow> ClockDisplay" where
  "refresh_normal r s =
     (let s1 = (if tm_min r \<noteq> prevMin s \<or> mForceRefresh s
                then lcd [WriteGraphicText 44 0 (setw0 2 (to_string_int (tm_hour r))) Verdana20,
                          WriteGraphicText 90 0 '':'' Verdana20,
                          WriteGraphicText 104 0 (setw0 2 (to_string_int (tm_min r))) Verdana20]
                       (s\<lparr>mForceRefresh := False\<rparr>)
                else s);
          s2 = (if mRadioOn s1
                then drawSignal (drawVolume (if tm_sec r \<noteq> prevSec s1 then drawRDS s1 else s1))
                else eraseSignal (eraseVolume (eraseRDS s1)));
          s3 = s2\<lparr>prevMin := tm_min r, prevSec := tm_sec r\<rparr>
      in updateAlarmInfo (lcd [DrawNTPState (isNTPSync r)] s3))"

definition refresh_edit :: "ClockDisplay \<Rightarrow> ClockDisplay" where
  "refresh_edit s =
     (let s1 = (if mUpdateEditDisplay s then (updateEditDisplay s)\<lparr>mUpdateEditDisplay := False\<rparr> else s);
          s2 = s1\<lparr>mEditAlarmsTimer := mEditAlarmsTimer s1 - THREAD_INTERVAL_MS\<rparr>
      in if mEditAlarmsTimer s2 \<le> 0 then exitEditAlarms s2 else s2)"

definition refreshThread_pass :: "refresh_input \<Rightarrow> ClockDisplay \<Rightarrow> ClockDisplay" where
  "refreshThread_pass r s =
     (if \<not> mRefreshThreadRunning s then s
      else if mDisplayState s = dsNormal then refresh_normal r s
      else refresh_edit s)"

text \<open>The destructor: the observer is removed, the thread stopped, the screen cleared.\<close>

definition delete_ClockDisplay :: "ClockDisplay \<Rightarrow> ClockDisplay" where
  "delete_ClockDisplay s =
     lcd [ClearGraphicDisplay]
       (s\<lparr>cd_mKeyboard := unRegisterKeyboardObserver (Some display_addr) (cd_mKeyboard s),
          mRefreshThreadRunning := False\<rparr>)"

section \<open>The invariant of a display\<close>

definition wf_alarm :: "Alarm \<Rightarrow> bool" where
  "wf_alarm a \<longleftrightarrow> valid_alarm a \<and> 0 \<le> mVolume a \<and> mVolume a \<le> 99"

fun index_ok :: "EditState \<Rightarrow> nat \<Rightarrow> nat \<Rightarrow> bool" where
  "index_ok edUndefined i n = False"
| "index_ok edListAlarms i n = (i \<le> n)"
| "index_ok edConfirmDelete i n = (i < n)"
| "index_ok edEditAlarm i n = (i < n)"

definition manager_ok :: "AlarmManager \<Rightarrow> bool" where
  "manager_ok m \<longleftrightarrow> mUnitList m \<noteq> [] \<and> (\<forall>a \<in> set (mAlarmList m). wf_alarm a)"

definition editor_ok :: "ClockDisplay \<Rightarrow> bool" where
  "editor_ok s \<longleftrightarrow>
     mUnitName s \<noteq> '''' \<and>
     (mDisplayState s = dsEditAlarms \<longleftrightarrow> mCurrentEditor (cd_mAlarmManager s) = mUnitName s) \<and>
     (mDisplayState s = dsEditAlarms \<longrightarrow> index_ok (mEditState s) (mAlarmEditIndex s) (length (cd_alarms s)))"

definition radio_info_ok :: "ClockDisplay \<Rightarrow> bool" where
  "radio_info_ok s \<longleftrightarrow> 0 \<le> mRDSTextPos s \<and> mRDSTextPos s \<le> int (length (mRDSText s)) \<and> 0 \<le> cd_mVolume s"

definition display_inv :: "ClockDisplay \<Rightarrow> bool" where
  "display_inv s \<longleftrightarrow> manager_ok (cd_mAlarmManager s) \<and> editor_ok s \<and> radio_info_ok s \<and> \<not> cd_ub s"

lemmas inv_defs = display_inv_def manager_ok_def editor_ok_def radio_info_ok_def

lemma lcd_simps [simp]:
  "cd_mKeyboard (lcd cs s) = cd_mKeyboard s" "cd_mAlarmManager (lcd cs s) = cd_mAlarmManager s"
  "mDisplayState (lcd cs s) = mDisplayState s" "mEditState (lcd cs s) = mEditState s"
  "mUnitName (lcd cs s) = mUnitName s" "mAlarmEditIndex (lcd cs s) = mAlarmEditIndex s"
  "mRDSTextPos (lcd cs s) = mRDSTextPos s" "mRDSText (lcd cs s) = mRDSText s"
  "cd_mVolume (lcd cs s) = cd_mVolume s" "cd_ub (lcd cs s) = cd_ub s" "cd_events (lcd cs s) = cd_events s"
  "mRadioOn (lcd cs s) = mRadioOn s" "prevSec (lcd cs s) = prevSec s"
  "mEditAlarmsTimer (lcd cs s) = mEditAlarmsTimer s" "mEditPos (lcd cs s) = mEditPos s"
  "mRefreshThreadRunning (lcd cs s) = mRefreshThreadRunning s"
  by (simp_all add: lcd_def)

lemma lcd_inv [simp]: "display_inv (lcd cs s) \<longleftrightarrow> display_inv s"
  by (simp add: inv_defs)

text \<open>Fields the invariant does not read.\<close>

lemma display_inv_fields [simp]:
  "display_inv (s\<lparr>mUserActivityTimer := t\<rparr>) = display_inv s"
  "display_inv (s\<lparr>mEditPos := p\<rparr>) = display_inv s"
  "display_inv (s\<lparr>mUpdateEditDisplay := b\<rparr>) = display_inv s"
  "display_inv (s\<lparr>mConfirmDelete := b\<rparr>) = display_inv s"
  "display_inv (s\<lparr>mEditAlarmsTimer := i\<rparr>) = display_inv s"
  "display_inv (s\<lparr>mForceRefresh := b\<rparr>) = display_inv s"
  "display_inv (s\<lparr>cd_mKeyboard := k\<rparr>) = display_inv s"
  "display_inv (s\<lparr>cd_mClockState := c\<rparr>) = display_inv s"
  "display_inv (s\<lparr>mReceiveLevel := i\<rparr>) = display_inv s"
  "display_inv (s\<lparr>mRDSStationName := n\<rparr>) = display_inv s"
  "display_inv (s\<lparr>mRadioOn := b\<rparr>) = display_inv s"
  "display_inv (s\<lparr>prevMin := i\<rparr>) = display_inv s"
  "display_inv (s\<lparr>prevSec := i\<rparr>) = display_inv s"
  by (simp_all add: inv_defs)

lemma dec_by_range: "0 \<le> v \<Longrightarrow> v \<le> hi \<Longrightarrow> 0 \<le> d \<Longrightarrow> 0 \<le> dec_by d v \<and> dec_by d v \<le> hi"
  by (simp add: dec_by_def Let_def)

lemma inc_by_range: "0 \<le> v \<Longrightarrow> v \<le> hi \<Longrightarrow> 0 \<le> d \<Longrightarrow> 0 \<le> inc_by d hi v \<and> inc_by d hi v \<le> hi"
  by (simp add: inc_by_def Let_def)

lemma nextUnitName_defined:
  assumes "mUnitList m \<noteq> []"
  shows "nextUnitName u m \<noteq> None"
proof -
  define current where "current = dropWhile (\<lambda>v. v \<noteq> u) (mUnitList m)"
  from assms show ?thesis
    unfolding nextUnitName_def Let_def current_def [symmetric]
    by (cases "mUnitList m"; cases "tl current") simp_all
qed

lemma wf_alarm_simps [simp]:
  "wf_alarm (a\<lparr>mSignalled := b\<rparr>) = wf_alarm a" "wf_alarm (a\<lparr>mEnabled := b\<rparr>) = wf_alarm a"
  "wf_alarm (a\<lparr>mUnit := u\<rparr>) = wf_alarm a" "wf_alarm (a\<lparr>mAlarmType := t\<rparr>) = wf_alarm a"
  "wf_alarm (flip_day d a) = wf_alarm a" "wf_alarm new_Alarm"
  by (simp_all add: wf_alarm_def valid_alarm_def flip_day_def new_Alarm_def)

lemma edit_down_ok:
  assumes "mUnitList m \<noteq> []" and "wf_alarm a"
  shows "\<exists>a'. edit_down m p a = Some a' \<and> wf_alarm a'"
  using assms(2) nextUnitName_defined [OF assms(1), of "mUnit a"] 
  by (cases p) (auto simp: wf_alarm_def valid_alarm_def dec_by_def Let_def flip_day_def)

lemma edit_up_ok:
  assumes "mUnitList m \<noteq> []" and "wf_alarm a"
  shows "\<exists>a'. edit_up m p a = Some a' \<and> wf_alarm a'"
  using assms(2) nextUnitName_defined [OF assms(1), of "mUnit a"] 
  by (cases p) (auto simp: wf_alarm_def valid_alarm_def inc_by_def Let_def flip_day_def)

section \<open>Every handler keeps the invariant\<close>

lemma set_alarms_simps [simp]:
  "cd_alarms (set_alarms as s) = as" "mDisplayState (set_alarms as s) = mDisplayState s"
  "mEditState (set_alarms as s) = mEditState s" "mAlarmEditIndex (set_alarms as s) = mAlarmEditIndex s"
  "mEditPos (set_alarms as s) = mEditPos s" "mUnitName (set_alarms as s) = mUnitName s"
  "mUnitList (cd_mAlarmManager (set_alarms as s)) = mUnitList (cd_mAlarmManager s)"
  "mCurrentEditor (cd_mAlarmManager (set_alarms as s)) = mCurrentEditor (cd_mAlarmManager s)"
  "cd_ub (set_alarms as s) = cd_ub s" "radio_info_ok (set_alarms as s) = radio_info_ok s"
  by (simp_all add: set_alarms_def radio_info_ok_def)

text \<open>What the invariant says of the parts the handlers of the editor change.\<close>

lemma display_inv_editing:
  assumes "mDisplayState s = dsEditAlarms"
  shows "display_inv s \<longleftrightarrow>
     mUnitName s \<noteq> '''' \<and> mCurrentEditor (cd_mAlarmManager s) = mUnitName s \<and>
     mUnitList (cd_mAlarmManager s) \<noteq> [] \<and> (\<forall>a \<in> set (cd_alarms s). wf_alarm a) \<and>
     index_ok (mEditState s) (mAlarmEditIndex s) (length (cd_alarms s)) \<and>
     radio_info_ok s \<and> \<not> cd_ub s"
  using assms by (auto simp: display_inv_def manager_ok_def editor_ok_def)

lemma radio_info_ok_fields [simp]:
  "radio_info_ok (s\<lparr>mEditPos := p\<rparr>) = radio_info_ok s"
  "radio_info_ok (s\<lparr>mEditState := e\<rparr>) = radio_info_ok s"
  "radio_info_ok (s\<lparr>mAlarmEditIndex := i\<rparr>) = radio_info_ok s"
  "radio_info_ok (s\<lparr>mUpdateEditDisplay := b\<rparr>) = radio_info_ok s"
  "radio_info_ok (s\<lparr>mConfirmDelete := b\<rparr>) = radio_info_ok s"
  "radio_info_ok (s\<lparr>cd_mAlarmManager := m\<rparr>) = radio_info_ok s"
  "radio_info_ok (lcd cs s) = radio_info_ok s"
  by (simp_all add: radio_info_ok_def)

lemma move_pos_inv:
  assumes "mDisplayState s = dsEditAlarms" and "display_inv s"
  shows "display_inv (move_pos p s) \<and> mDisplayState (move_pos p s) = dsEditAlarms"
  using assms by (auto simp: move_pos_def display_inv_editing split: option.splits)

lemma change_alarm_inv:
  assumes "mDisplayState s = dsEditAlarms" "display_inv s" "i < length (cd_alarms s)"
    and f: "\<And>m p a. mUnitList m \<noteq> [] \<Longrightarrow> wf_alarm a \<Longrightarrow> \<exists>a'. f m p a = Some a' \<and> wf_alarm a'"
  shows "display_inv (change_alarm f i s) \<and> mDisplayState (change_alarm f i s) = dsEditAlarms \<and>
    length (cd_alarms (change_alarm f i s)) = length (cd_alarms s)"
proof -
  have "wf_alarm (cd_alarms s ! i)" "mUnitList (cd_mAlarmManager s) \<noteq> []"
    using assms by (auto simp: display_inv_editing)
  then obtain a where "f (cd_mAlarmManager s) (mEditPos s) (cd_alarms s ! i) = Some a" "wf_alarm a"
    using f by blast
  with assms(1-3) show ?thesis
    by (auto simp: change_alarm_def display_inv_editing dest!: subsetD [OF set_update_subset_insert])
qed

lemma edit_keys_inv:
  assumes "mDisplayState s = dsEditAlarms" and "display_inv s"
  shows "display_inv (edit_keys ki s)"
proof (cases "length (cd_alarms s) \<le> mAlarmEditIndex s")
  case True
  with assms show ?thesis by (simp add: edit_keys_def Let_def)
next
  case False
  define i where "i = mAlarmEditIndex s"
  define P where "P t \<longleftrightarrow> display_inv t \<and> mDisplayState t = dsEditAlarms \<and> i < length (cd_alarms t)" for t
  have i: "i < length (cd_alarms s)" using False by (simp add: i_def)
  have wf: "wf_alarm (cd_alarms s ! i)" using assms i by (auto simp: display_inv_editing)
  have sig: "P (set_alarms ((cd_alarms s)[i := (cd_alarms s ! i)\<lparr>mSignalled := False\<rparr>]) s)"
    using assms i wf
    by (auto simp: P_def display_inv_editing dest!: subsetD [OF set_update_subset_insert])
  have move: "P t \<Longrightarrow> P (move_pos p t)" for t p
    using move_pos_inv [of t p] by (auto simp: P_def move_pos_def split: option.splits)
  have change: "P t \<Longrightarrow> P (change_alarm edit_down i t)" "P t \<Longrightarrow> P (change_alarm edit_up i t)" for t
    using change_alarm_inv [of t i edit_down] change_alarm_inv [of t i edit_up] edit_down_ok edit_up_ok
    by (simp_all add: P_def)
  have "P (edit_keys ki s)"
    using False sig move change unfolding edit_keys_def Let_def i_def [symmetric] by simp
  then show ?thesis by (simp add: P_def)
qed

lemma list_keys_inv:
  assumes "mDisplayState s = dsEditAlarms" "mEditState s = edListAlarms" "display_inv s"
  shows "display_inv (list_keys ki s)"
  using assms unfolding list_keys_def Let_def by (auto simp: display_inv_editing)

lemma confirm_keys_inv:
  assumes "mDisplayState s = dsEditAlarms" "mEditState s = edConfirmDelete" "display_inv s"
  shows "display_inv (confirm_keys ki s)"
  using assms unfolding confirm_keys_def Let_def
  by (auto simp: display_inv_editing dest: in_set_takeD in_set_dropD)

lemma editor_keys_inv:
  assumes "mDisplayState s = dsEditAlarms" "display_inv s"
  shows "display_inv (editor_keys ki s)"
  using assms list_keys_inv confirm_keys_inv edit_keys_inv
  by (simp add: editor_keys_def split: EditState.splits)

lemma exitEditAlarms_inv: "display_inv s \<Longrightarrow> display_inv (exitEditAlarms s)"
  by (auto simp: exitEditAlarms_def saveAlarms_unit_def inv_defs)

lemma left_long_inv: "display_inv s \<Longrightarrow> display_inv (left_long ki s)"
  using exitEditAlarms_inv [of s]
  by (auto simp: left_long_def editAlarms_def inv_defs)

lemma editing_editAlarms:
  assumes "display_inv s" "mDisplayState s = dsEditAlarms"
  shows "editAlarms (mUnitName s) (cd_mAlarmManager s) = (True, cd_mAlarmManager s)"
  using assms by (simp add: editAlarms_def display_inv_editing)

lemma keyboardPressed_inv:
  assumes "display_inv s"
  shows "display_inv (ClockDisplay_keyboardPressed ki s)"
proof -
  define s2 where "s2 = (if first_long ki KEY_LEFT then left_long ki (s\<lparr>mUserActivityTimer := USERACTIVITY_TIMER\<rparr>)
     else s\<lparr>mUserActivityTimer := USERACTIVITY_TIMER\<rparr>)"
  have s2: "display_inv s2" using assms left_long_inv by (simp add: s2_def)
  show ?thesis
    using s2 editing_editAlarms [OF s2]
      editor_keys_inv [of "s2\<lparr>mEditAlarmsTimer := EDIT_TIMEOUT_MILLISECONDS\<rparr>" ki]
    unfolding ClockDisplay_keyboardPressed_def Let_def s2_def [symmetric] by simp
qed

lemma drawRDS_inv: "display_inv s \<Longrightarrow> display_inv (drawRDS s)"
  by (auto simp: drawRDS_def Let_def inv_defs)

lemma drawVolume_inv: "display_inv s \<Longrightarrow> display_inv (drawVolume s)"
  by (auto simp: drawVolume_def Let_def inv_defs trunc_div_def sgn_if)

lemma updateAlarmInfo_inv [simp]: "display_inv (updateAlarmInfo s) = display_inv s"
  by (simp add: updateAlarmInfo_def Let_def split: ClockState.split)

lemma erase_inv [simp]:
  "display_inv (drawSignal s) = display_inv s" "display_inv (eraseSignal s) = display_inv s"
  "display_inv (eraseVolume s) = display_inv s" "display_inv (eraseRDS s) = display_inv s"
  by (simp_all add: drawSignal_def eraseSignal_def eraseVolume_def eraseRDS_def)

lemma refresh_normal_inv:
  assumes "display_inv s"
  shows "display_inv (refresh_normal r s)"
proof -
  define s1 where "s1 = (if tm_min r \<noteq> prevMin s \<or> mForceRefresh s
                then lcd [WriteGraphicText 44 0 (setw0 2 (to_string_int (tm_hour r))) Verdana20,
                          WriteGraphicText 90 0 '':'' Verdana20,
                          WriteGraphicText 104 0 (setw0 2 (to_string_int (tm_min r))) Verdana20]
                       (s\<lparr>mForceRefresh := False\<rparr>)
                else s)"
  have "display_inv s1" using assms by (simp add: s1_def)
  then show ?thesis
    unfolding refresh_normal_def s1_def [symmetric] by (simp add: Let_def drawRDS_inv drawVolume_inv)
qed

lemma updateEditDisplay_simps:
  assumes "display_inv s" "mDisplayState s = dsEditAlarms"
  shows "\<exists>cs. updateEditDisplay s = lcd cs s"
proof -
  have "s = lcd [] s" by (simp add: lcd_def)
  with assms show ?thesis
    by (auto simp: updateEditDisplay_def editing_editAlarms display_inv_editing split: EditState.splits)
qed

lemma refresh_edit_inv:
  assumes "display_inv s" "mDisplayState s = dsEditAlarms"
  shows "display_inv (refresh_edit s)"
  using updateEditDisplay_simps [OF assms] assms exitEditAlarms_inv
  by (auto simp: refresh_edit_def Let_def)

lemma refreshThread_pass_inv: "display_inv s \<Longrightarrow> display_inv (refreshThread_pass r s)"
  using refresh_normal_inv refresh_edit_inv by (cases "mDisplayState s") (auto simp: refreshThread_pass_def)

lemma radioDABUpdate_inv: "display_inv s \<Longrightarrow> display_inv (radioDABUpdate i s)"
  by (auto simp: radioDABUpdate_def Let_def inv_defs)

lemma radioStateUpdate_inv: "0 \<le> v \<Longrightarrow> display_inv s \<Longrightarrow> display_inv (radioStateUpdate st v s)"
  by (auto simp: radioStateUpdate_def inv_defs)

section \<open>The units of the house\<close>

text \<open>
  Every unit has its display, and all displays work on one alarm manager. A step is a handler of
  one display, run on the shared manager, or a pass of the alarm thread.
\<close>

datatype display_op =
    KeyPressed KeyboardInfo
  | RefreshPass refresh_input
  | DABUpdate DABInfo
  | RadioUpdate RadioState int
  | ClockStateUpdate ClockState
  | KeyboardChange Keyboard

fun op_ok :: "display_op \<Rightarrow> bool" where
  "op_ok (RadioUpdate st v) = (0 \<le> v)"
| "op_ok (KeyPressed ki) = (length (mKeyInfo ki) = MONITORED_KEYS)"
| "op_ok op = True"

fun run_op :: "display_op \<Rightarrow> ClockDisplay \<Rightarrow> ClockDisplay" where
  "run_op (KeyPressed ki) s = ClockDisplay_keyboardPressed ki s"
| "run_op (RefreshPass r) s = refreshThread_pass r s"
| "run_op (DABUpdate i) s = radioDABUpdate i s"
| "run_op (RadioUpdate st v) s = radioStateUpdate st v s"
| "run_op (ClockStateUpdate c) s = ClockDisplay_signalClockState c s"
| "run_op (KeyboardChange k) s = s\<lparr>cd_mKeyboard := k\<rparr>"

record house =
  hs_manager :: AlarmManager
  hs_units :: "string \<rightharpoonup> ClockDisplay"

definition attach :: "AlarmManager \<Rightarrow> ClockDisplay \<Rightarrow> ClockDisplay" where
  "attach m d = d\<lparr>cd_mAlarmManager := m\<rparr>"

inductive house_step :: "house \<Rightarrow> house \<Rightarrow> bool" where
  unit_op: "hs_units h u = Some d \<Longrightarrow> op_ok op \<Longrightarrow> d' = run_op op (attach (hs_manager h) d) \<Longrightarrow>
     house_step h \<lparr>hs_manager = cd_mAlarmManager d', hs_units = (hs_units h)(u \<mapsto> d')\<rparr>"
| alarm_thread: "house_step h (h\<lparr>hs_manager := fst (alarmThread_pass clk n (hs_manager h))\<rparr>)"

inductive house_reachable :: "house \<Rightarrow> bool" where
  start: "manager_ok m \<Longrightarrow> mCurrentEditor m = '''' \<Longrightarrow> '''' \<notin> dom kb \<Longrightarrow>
     house_reachable \<lparr>hs_manager = m,
       hs_units = (\<lambda>u. map_option (\<lambda>k. new_ClockDisplay k m u) (kb u))\<rparr>"
| more: "house_reachable h \<Longrightarrow> house_step h h' \<Longrightarrow> house_reachable h'"

definition house_inv :: "house \<Rightarrow> bool" where
  "house_inv h \<longleftrightarrow>
     (\<forall>u d. hs_units h u = Some d \<longrightarrow> mUnitName d = u \<and> display_inv (attach (hs_manager h) d))"

text \<open>What a handler of one display may do to the shared manager.\<close>

definition editor_change :: "ClockDisplay \<Rightarrow> ClockDisplay \<Rightarrow> bool" where
  "editor_change s s' \<longleftrightarrow>
     mUnitName s' = mUnitName s \<and>
     (cd_mAlarmManager s' = cd_mAlarmManager s \<or>
      mCurrentEditor (cd_mAlarmManager s) \<in> {'''', mUnitName s} \<and>
      mCurrentEditor (cd_mAlarmManager s') \<in> {'''', mUnitName s})"

lemma editor_change_refl [simp]: "editor_change s s"
  by (simp add: editor_change_def)

lemma editor_change_trans: "editor_change s t \<Longrightarrow> editor_change t u \<Longrightarrow> editor_change s u"
  by (auto simp: editor_change_def)

lemma editor_keys_editor:
  "mUnitName (editor_keys ki s) = mUnitName s \<and>
   mCurrentEditor (cd_mAlarmManager (editor_keys ki s)) = mCurrentEditor (cd_mAlarmManager s)"
proof -
  have move: "mUnitName (move_pos p t) = mUnitName t \<and> cd_mAlarmManager (move_pos p t) = cd_mAlarmManager t" for p t
    by (simp add: move_pos_def split: option.split)
  have change: "mUnitName (change_alarm f i t) = mUnitName t \<and>
      mCurrentEditor (cd_mAlarmManager (change_alarm f i t)) = mCurrentEditor (cd_mAlarmManager t)" for f i t
    by (simp add: change_alarm_def split: option.split)
  show ?thesis
    by (cases "mEditState s")
      (simp_all add: editor_keys_def list_keys_def confirm_keys_def edit_keys_def Let_def move change)
qed

lemma exitEditAlarms_editor: "editor_change s (exitEditAlarms s)"
  by (auto simp: editor_change_def exitEditAlarms_def saveAlarms_unit_def)

lemma left_long_editor: "editor_change s (left_long ki s)"
  using exitEditAlarms_editor [of s] by (auto simp: editor_change_def left_long_def editAlarms_def)

lemma keyboardPressed_editor: "editor_change s (ClockDisplay_keyboardPressed ki s)"
proof -
  define s2 where "s2 = (if first_long ki KEY_LEFT then left_long ki (s\<lparr>mUserActivityTimer := USERACTIVITY_TIMER\<rparr>)
     else s\<lparr>mUserActivityTimer := USERACTIVITY_TIMER\<rparr>)"
  have "editor_change s s2"
    using left_long_editor [of "s\<lparr>mUserActivityTimer := USERACTIVITY_TIMER\<rparr>" ki]
    by (auto simp: s2_def editor_change_def)
  moreover have "editor_change s2 (ClockDisplay_keyboardPressed ki s)"
    using editor_keys_editor
    unfolding ClockDisplay_keyboardPressed_def Let_def s2_def [symmetric]
    by (auto simp: editor_change_def editAlarms_def)
  ultimately show ?thesis by (rule editor_change_trans)
qed

lemma drawing_manager:
  "mUnitName (drawRDS s) = mUnitName s \<and> cd_mAlarmManager (drawRDS s) = cd_mAlarmManager s"
  "mUnitName (drawVolume s) = mUnitName s \<and> cd_mAlarmManager (drawVolume s) = cd_mAlarmManager s"
  "mUnitName (updateAlarmInfo s) = mUnitName s \<and> cd_mAlarmManager (updateAlarmInfo s) = cd_mAlarmManager s"
  by (simp_all add: drawRDS_def drawVolume_def updateAlarmInfo_def Let_def split: ClockState.split)

lemma refresh_normal_editor: "editor_change s (refresh_normal r s)"
  by (simp add: editor_change_def refresh_normal_def Let_def drawing_manager drawSignal_def eraseSignal_def
      eraseVolume_def eraseRDS_def)

lemma updateEditDisplay_editor: "editor_change s (updateEditDisplay s)"
  by (cases "mEditState s") (auto simp: editor_change_def updateEditDisplay_def editAlarms_def Let_def)

lemma refresh_edit_editor: "editor_change s (refresh_edit s)"
proof -
  define s2 where "s2 = (let s1 = (if mUpdateEditDisplay s then (updateEditDisplay s)\<lparr>mUpdateEditDisplay := False\<rparr> else s)
     in s1\<lparr>mEditAlarmsTimer := mEditAlarmsTimer s1 - THREAD_INTERVAL_MS\<rparr>)"
  have "editor_change s s2"
    using updateEditDisplay_editor [of s] by (auto simp: s2_def editor_change_def Let_def)
  moreover have "refresh_edit s = (if mEditAlarmsTimer s2 \<le> 0 then exitEditAlarms s2 else s2)"
    by (simp add: refresh_edit_def s2_def Let_def)
  ultimately show ?thesis using exitEditAlarms_editor [of s2] editor_change_trans by auto
qed

lemma run_op_editor: "editor_change s (run_op op s)"
proof (cases op)
  case (KeyPressed ki)
  then show ?thesis by (simp add: keyboardPressed_editor)
next
  case (RefreshPass r)
  then show ?thesis by (simp add: refreshThread_pass_def refresh_normal_editor refresh_edit_editor)
qed (simp_all add: editor_change_def radioDABUpdate_def radioStateUpdate_def
       ClockDisplay_signalClockState_def Let_def)

lemma run_op_inv: "op_ok op \<Longrightarrow> display_inv s \<Longrightarrow> display_inv (run_op op s)"
  by (cases op) (simp_all add: keyboardPressed_inv refreshThread_pass_inv radioDABUpdate_inv
      radioStateUpdate_inv ClockDisplay_signalClockState_def)

text \<open>The alarm thread keeps the alarms in range and never touches the edit lock.\<close>

lemma alarm_body_wf: "wf_alarm (fst (alarm_body clk obss a ts)) = wf_alarm a"
  by (simp add: alarm_body_def Let_def split: prod.split)

lemma alarm_loop_wf:
  "\<forall>a \<in> set as. wf_alarm a \<Longrightarrow> \<forall>a \<in> set (fst (alarm_loop clk obss as ts)). wf_alarm a"
  using alarm_body_wf
  by (induction as arbitrary: ts) (auto simp: split_beta Let_def)

lemma alarmThread_pass_ok:
  fixes clk :: system_clock and n :: nat
  assumes "manager_ok m"
  defines "m' \<equiv> fst (alarmThread_pass clk n m)"
  shows "manager_ok m'" and "mCurrentEditor m' = mCurrentEditor m" and "mCurrentEditor m \<noteq> '''' \<Longrightarrow> m' = m"
  using assms(1) alarm_loop_wf unfolding m'_def manager_ok_def alarmThread_pass_def Let_def
  by (auto simp: split_beta)

lemma attach_simps [simp]:
  "cd_mAlarmManager (attach m d) = m" "mUnitName (attach m d) = mUnitName d"
  "mDisplayState (attach m d) = mDisplayState d" "cd_ub (attach m d) = cd_ub d"
  "attach (cd_mAlarmManager d) d = d" "attach m (attach m' d) = attach m d"
  "mEditState (attach m d) = mEditState d" "mAlarmEditIndex (attach m d) = mAlarmEditIndex d"
  by (simp_all add: attach_def)

text \<open>
  A display that does not hold the lock tolerates every change of the manager that does not give
  it the lock.
\<close>

lemma attach_other:
  assumes "display_inv (attach m d)" and "manager_ok m'"
    and "m' = m \<or> mCurrentEditor m \<noteq> mUnitName d \<and> mCurrentEditor m' \<noteq> mUnitName d"
  shows "display_inv (attach m' d)"
  using assms by (auto simp: display_inv_def editor_ok_def radio_info_ok_def attach_def)

lemma house_step_inv:
  assumes "house_step h h'" and "house_inv h" and "manager_ok (hs_manager h)"
  shows "house_inv h' \<and> manager_ok (hs_manager h')"
  using assms
proof (induction rule: house_step.induct)
  case (unit_op h u d op d')
  let ?s = "attach (hs_manager h) d"
  have s: "mUnitName d = u" "display_inv ?s" using unit_op by (auto simp: house_inv_def)
  have d': "display_inv d'" and ch: "editor_change ?s d'"
    using run_op_inv [OF unit_op(2) s(2)] run_op_editor unit_op(3) by simp_all
  then have m': "manager_ok (cd_mAlarmManager d')" by (simp add: display_inv_def)
  have "display_inv (attach (cd_mAlarmManager d') e)" if "hs_units h v = Some e" "v \<noteq> u" for v e
  proof (rule attach_other [OF _ m'])
    show "display_inv (attach (hs_manager h) e)" using that unit_op by (simp add: house_inv_def)
    have "mUnitName e = v" "mUnitName e \<noteq> ''''"
      using that unit_op by (auto simp: house_inv_def inv_defs)
    with that ch s show "cd_mAlarmManager d' = hs_manager h \<or>
        mCurrentEditor (hs_manager h) \<noteq> mUnitName e \<and> mCurrentEditor (cd_mAlarmManager d') \<noteq> mUnitName e"
      by (auto simp: editor_change_def)
  qed
  with unit_op m' d' ch s show ?case by (auto simp: house_inv_def editor_change_def)
next
  case (alarm_thread h clk n)
  note ok = alarmThread_pass_ok [OF alarm_thread(2), of clk n]
  have "display_inv (attach (fst (alarmThread_pass clk n (hs_manager h))) d)"
    if "hs_units h u = Some d" for u d
  proof (rule attach_other [OF _ ok(1)])
    show "display_inv (attach (hs_manager h) d)" using that alarm_thread by (simp add: house_inv_def)
    then show "fst (alarmThread_pass clk n (hs_manager h)) = hs_manager h \<or>
        mCurrentEditor (hs_manager h) \<noteq> mUnitName d \<and>
        mCurrentEditor (fst (alarmThread_pass clk n (hs_manager h))) \<noteq> mUnitName d"
      using ok(2,3) by (auto simp: inv_defs)
  qed
  with alarm_thread ok(1) show ?case by (simp add: house_inv_def)
qed

lemma house_reachable_inv:
  "house_reachable h \<Longrightarrow> house_inv h \<and> manager_ok (hs_manager h)"
proof (induction rule: house_reachable.induct)
  case (start m kb)
  then show ?case by (auto simp: house_inv_def new_ClockDisplay_def inv_defs attach_def)
next
  case (more h h')
  then show ?case using house_step_inv by blast
qed


section \<open>The edit timeout\<close>

lemma editor_keys_timer:
  "mEditAlarmsTimer (editor_keys ki s) = mEditAlarmsTimer s \<and>
   mRefreshThreadRunning (editor_keys ki s) = mRefreshThreadRunning s \<and>
   mDisplayState (editor_keys ki s) = mDisplayState s"
proof -
  have set: "mEditAlarmsTimer (set_alarms as t) = mEditAlarmsTimer t"
    "mRefreshThreadRunning (set_alarms as t) = mRefreshThreadRunning t" for as t
    by (simp_all add: set_alarms_def)
  have move: "mEditAlarmsTimer (move_pos p t) = mEditAlarmsTimer t"
    "mRefreshThreadRunning (move_pos p t) = mRefreshThreadRunning t"
    "mDisplayState (move_pos p t) = mDisplayState t" for p t
    by (simp_all add: move_pos_def split: option.split)
  have change: "mEditAlarmsTimer (change_alarm f i t) = mEditAlarmsTimer t"
    "mRefreshThreadRunning (change_alarm f i t) = mRefreshThreadRunning t"
    "mDisplayState (change_alarm f i t) = mDisplayState t" for f i t
    by (simp_all add: change_alarm_def set split: option.split)
  show ?thesis
    by (cases "mEditState s")
      (simp_all add: editor_keys_def list_keys_def confirm_keys_def edit_keys_def Let_def set move change)
qed

lemma keyboardPressed_editing:
  fixes ki :: KeyboardInfo
  assumes "display_inv s"
  defines "s' \<equiv> ClockDisplay_keyboardPressed ki s"
  assumes "mDisplayState s' = dsEditAlarms"
  shows "mEditAlarmsTimer s' = EDIT_TIMEOUT_MILLISECONDS \<and> mRefreshThreadRunning s' = mRefreshThreadRunning s"
proof -
  define s2 where "s2 = (if first_long ki KEY_LEFT then left_long ki (s\<lparr>mUserActivityTimer := USERACTIVITY_TIMER\<rparr>)
     else s\<lparr>mUserActivityTimer := USERACTIVITY_TIMER\<rparr>)"
  have inv: "display_inv s2" using assms(1) left_long_inv by (simp add: s2_def)
  have run: "mRefreshThreadRunning s2 = mRefreshThreadRunning s"
    by (simp add: s2_def left_long_def exitEditAlarms_def split_beta Let_def)
  have s': "s' = (if mDisplayState s2 = dsEditAlarms
      then editor_keys ki (s2\<lparr>mEditAlarmsTimer := EDIT_TIMEOUT_MILLISECONDS\<rparr>) else s2)"
    using editing_editAlarms [OF inv]
    unfolding s'_def ClockDisplay_keyboardPressed_def Let_def s2_def [symmetric] by simp
  with assms(3) run show ?thesis by (cases "mDisplayState s2 = dsEditAlarms") (simp_all add: editor_keys_timer)
qed

text \<open>A pass that leaves time on the timer changes the timer and the screen only.\<close>

lemma refresh_edit_pass:
  assumes "display_inv s" "mDisplayState s = dsEditAlarms" "mRefreshThreadRunning s"
  shows "\<exists>cs b. refreshThread_pass r s =
    (let s2 = (lcd cs s)\<lparr>mUpdateEditDisplay := b, mEditAlarmsTimer := mEditAlarmsTimer s - 250\<rparr>
     in if mEditAlarmsTimer s \<le> 250 then exitEditAlarms s2 else s2)"
proof -
  obtain cs where cs: "updateEditDisplay s = lcd cs s" using updateEditDisplay_simps [OF assms(1,2)] by blast
  have nil: "lcd [] s = s" by (simp add: lcd_def)
  show ?thesis
  proof (cases "mUpdateEditDisplay s")
    case True
    with assms cs show ?thesis
      by (intro exI [of _ cs] exI [of _ False])
        (simp add: refreshThread_pass_def refresh_edit_def Let_def THREAD_INTERVAL_MS_def)
  next
    case False
    then have same: "s\<lparr>mUpdateEditDisplay := False, mEditAlarmsTimer := t\<rparr> = s\<lparr>mEditAlarmsTimer := t\<rparr>" for t
      by (cases s) simp
    with False assms show ?thesis
      by (intro exI [of _ "[]"] exI [of _ False])
        (simp add: refreshThread_pass_def refresh_edit_def Let_def THREAD_INTERVAL_MS_def nil same)
  qed
qed

definition editing_with :: "int \<Rightarrow> ClockDisplay \<Rightarrow> ClockDisplay \<Rightarrow> bool" where
  "editing_with t s0 s \<longleftrightarrow>
     display_inv s \<and> mDisplayState s = dsEditAlarms \<and> mRefreshThreadRunning s \<and> mEditAlarmsTimer s = t \<and>
     cd_mAlarmManager s = cd_mAlarmManager s0 \<and> cd_events s = cd_events s0"

lemma editing_with_pass:
  assumes "editing_with t s0 s" and "250 < t"
  shows "editing_with (t - 250) s0 (refreshThread_pass r s)"
proof -
  have s: "display_inv s" "mDisplayState s = dsEditAlarms" "mRefreshThreadRunning s" "mEditAlarmsTimer s = t"
    using assms by (simp_all add: editing_with_def)
  have "display_inv (refreshThread_pass r s)" by (rule refreshThread_pass_inv [OF s(1)])
  with refresh_edit_pass [OF s(1-3), of r] assms s(4) show ?thesis
    by (auto simp: editing_with_def Let_def)
qed

lemma editing_with_passes:
  "editing_with t s0 s \<Longrightarrow> 250 * int (length rs) < t \<Longrightarrow>
   editing_with (t - 250 * int (length rs)) s0 (fold refreshThread_pass rs s)"
proof (induction rs arbitrary: s t)
  case (Cons r rs)
  then have "editing_with (t - 250 - 250 * int (length rs)) s0 (fold refreshThread_pass rs (refreshThread_pass r s))"
    using editing_with_pass [OF Cons.prems(1), of r] by (intro Cons.IH) (auto simp: algebra_simps)
  then show ?case by (simp add: algebra_simps)
qed simp

lemma editing_with_last:
  fixes r :: refresh_input
  assumes "editing_with 250 s0 s"
  defines "s' \<equiv> refreshThread_pass r s" and "m \<equiv> cd_mAlarmManager s0"
  shows "mDisplayState s' = dsNormal \<and> mKeyboardState (cd_mKeyboard s') = stNormal \<and>
     cd_mAlarmManager s' = m\<lparr>mCurrentEditor := ''''\<rparr> \<and>
     cd_events s' = cd_events s0 @ [SaveAlarms (mAlarmList m)]"
proof -
  have s: "display_inv s" "mDisplayState s = dsEditAlarms" "mRefreshThreadRunning s" "mEditAlarmsTimer s = 250"
    using assms by (simp_all add: editing_with_def)
  have "mCurrentEditor m = mUnitName s"
    using assms(1) s display_inv_editing [OF s(2)] unfolding m_def editing_with_def by auto
  with refresh_edit_pass [OF s(1-3), of r] s(4) assms show ?thesis
    by (auto simp: editing_with_def Let_def exitEditAlarms_def saveAlarms_unit_def)
qed

text \<open>
  C16. After the last key press in the editor, 240 passes of the refresh thread (one minute) bring the
  display back to the clock, and no fewer do: the edit lock is released, the keyboard is back in
  its normal state, and the alarms as they were left by the last key are written once.
\<close>

theorem edit_times_out:
  assumes "house_reachable h" and "hs_units h u = Some d" and "mRefreshThreadRunning d"
    and "s = ClockDisplay_keyboardPressed ki (attach (hs_manager h) d)"
    and "mDisplayState s = dsEditAlarms" and "length rs = 240"
  shows "(\<forall>k < 240. mDisplayState (fold refreshThread_pass (take k rs) s) = dsEditAlarms) \<and>
    (let s' = fold refreshThread_pass rs s in
       mDisplayState s' = dsNormal \<and> mKeyboardState (cd_mKeyboard s') = stNormal \<and>
       cd_mAlarmManager s' = (cd_mAlarmManager s)\<lparr>mCurrentEditor := ''''\<rparr> \<and>
       cd_events s' = cd_events s @ [SaveAlarms (cd_alarms s)])"
proof -
  have inv0: "display_inv (attach (hs_manager h) d)"
    using house_reachable_inv [OF assms(1)] assms(2) by (auto simp: house_inv_def)
  have "mRefreshThreadRunning (attach (hs_manager h) d) = mRefreshThreadRunning d"
    by (simp add: attach_def)
  then have s: "editing_with 60000 s s"
    using keyboardPressed_inv [OF inv0, of ki] keyboardPressed_editing [OF inv0, of ki] assms(3-5)
    by (simp add: editing_with_def EDIT_TIMEOUT_MILLISECONDS_def)
  have "mDisplayState (fold refreshThread_pass (take k rs) s) = dsEditAlarms" if "k < 240" for k
    using editing_with_passes [OF s, of "take k rs"] that assms(6) by (simp add: editing_with_def)
  moreover obtain rs1 r where rs: "rs = rs1 @ [r]" "length rs1 = 239"
    using assms(6) by (cases rs rule: rev_cases) auto
  then have "editing_with 250 s (fold refreshThread_pass rs1 s)"
    using editing_with_passes [OF s, of rs1] by simp
  from editing_with_last [OF this, of r] have "let s' = fold refreshThread_pass rs s in
       mDisplayState s' = dsNormal \<and> mKeyboardState (cd_mKeyboard s') = stNormal \<and>
       cd_mAlarmManager s' = (cd_mAlarmManager s)\<lparr>mCurrentEditor := ''''\<rparr> \<and>
       cd_events s' = cd_events s @ [SaveAlarms (cd_alarms s)]"
    by (simp add: rs(1) Let_def)
  ultimately show ?thesis by blast
qed

section \<open>An example\<close>

definition no_key :: KeyInfo where
  "no_key = \<lparr>mShortPressed = False, mLongPress = False, mReleased = False, mPressed = False, mRepeat = False\<rparr>"

definition ex_long_left :: KeyboardInfo where
  "ex_long_left = \<lparr>mKeyInfo = no_key\<lparr>mLongPress := True\<rparr> # replicate 8 no_key, mState = stNormal\<rparr>"

definition ex_display_manager :: AlarmManager where
  "ex_display_manager =
     \<lparr>mUnitList = [''K''], mAlarmList = [new_Alarm], mAlarmObservers = [], mCurrentEditor = '''',
      mAlarmThreadRunning = True, mNextAlarmMap = Map.empty, mSendAlarmSnooze = False, mSendAlarmOff = False\<rparr>"

definition ex_display :: ClockDisplay where
  "ex_display = new_ClockDisplay new_Keyboard ex_display_manager ''K''"

definition ex_edit :: ClockDisplay where
  "ex_edit = ClockDisplay_keyboardPressed ex_long_left ex_display"

definition ex_house :: house where
  "ex_house = \<lparr>hs_manager = ex_display_manager, hs_units = [''K'' \<mapsto> ex_display]\<rparr>"

lemma ex_house_reachable: "house_reachable ex_house"
proof -
  have "(\<lambda>u. map_option (\<lambda>k. new_ClockDisplay k ex_display_manager u) ([''K'' \<mapsto> new_Keyboard] u))
     = [''K'' \<mapsto> ex_display]"
    by (auto simp: ex_display_def)
  moreover have "manager_ok ex_display_manager" "mCurrentEditor ex_display_manager = ''''"
    by (simp_all add: manager_ok_def ex_display_manager_def)
  ultimately show ?thesis
    using house_reachable.start [of ex_display_manager "[''K'' \<mapsto> new_Keyboard]"] by (simp add: ex_house_def)
qed

lemma ex_attach: "attach ex_display_manager ex_display = ex_display"
  by (simp add: attach_def ex_display_def new_ClockDisplay_def)

lemma ex_edit_state: "mDisplayState ex_edit = dsEditAlarms" "mCurrentEditor (cd_mAlarmManager ex_edit) = ''K''"
    "cd_alarms ex_edit = [new_Alarm]" "cd_events ex_edit = []" "mEditState ex_edit = edListAlarms"
  by (simp_all add: ex_edit_def ClockDisplay_keyboardPressed_def left_long_def editAlarms_def editor_keys_def
      list_keys_def ex_long_left_def no_key_def ex_display_def new_ClockDisplay_def ex_display_manager_def
      KEY_LEFT_def KEY_CENTRAL_L_def KEY_CENTRAL_R_def KEY_DOWN_def KEY_UP_def Let_def)

lemma ex_house_edit:
  "house_reachable \<lparr>hs_manager = cd_mAlarmManager ex_edit, hs_units = [''K'' \<mapsto> ex_edit]\<rparr>"
  using house_reachable.more [OF ex_house_reachable
      house_step.unit_op [of ex_house "''K''" ex_display "KeyPressed ex_long_left" ex_edit]]
  by (simp add: ex_house_def ex_edit_def ex_attach ex_long_left_def MONITORED_KEYS_def)


theorem edit_times_out_witness:
  "let s' = fold refreshThread_pass (replicate 240 \<lparr>tm_hour = 7, tm_min = 0, tm_sec = 0, isNTPSync = True\<rparr>) ex_edit
   in mDisplayState s' = dsNormal \<and> mCurrentEditor (cd_mAlarmManager s') = '''' \<and> cd_events s' = [SaveAlarms [new_Alarm]]"
proof -
  have run: "mRefreshThreadRunning ex_display" by (simp add: ex_display_def new_ClockDisplay_def)
  have "hs_units ex_house ''K'' = Some ex_display" "hs_manager ex_house = ex_display_manager"
    by (simp_all add: ex_house_def)
  then show ?thesis
    using edit_times_out [of ex_house "''K''" ex_display ex_edit ex_long_left
        "replicate 240 \<lparr>tm_hour = 7, tm_min = 0, tm_sec = 0, isNTPSync = True\<rparr>"]
      ex_house_reachable run ex_edit_state
    by (simp add: ex_attach ex_edit_def [symmetric] Let_def)
qed

end
