(* ===== verification/Dab_Receiver.thy ===== *)
theory Dab_Receiver
  imports Dab_Tuner Clock_Display
begin

text \<open>
  The DAB receiver (\<open>rgbclock/RgbLib/src/lib/DABReceiver.cpp\<close>), which all units share: the counter of
  users that powers it, the thread that tunes, starts the service and reads the texts, and the
  observers. A pass of the thread is one step; \<open>rt_pc\<close> says where the thread is. \<open>dr_ub\<close> records a text taken
  from outside the payload, \<open>dr_terminated\<close> the end of the program when a running thread object is replaced.
\<close>

section \<open>State\<close>

datatype DABPowerState = DABUnknown | DABPowerOn | DABPowerOff

datatype read_pc = RtEnded | RtStart | RtTest | RtAsleep

record 'c DABReceiver =
  mSiChip :: "'c Si4684 option"
  mFrequencyIndex :: u8
  mServiceId :: u32
  mComponentId :: u32
  mPowerCounter :: int
  mPowerState :: DABPowerState
  rt_pc :: read_pc
  mReadThreadRunning :: bool
  dr_mRadioObservers :: "nat list"
  mDABInfo :: DABInfo
  dr_log :: "(nat \<times> DABInfo) list"
  dr_ub :: bool
  dr_terminated :: bool
  dr_input_selected :: bool

text \<open>
  \<open>mDABInfo\<close> has no initial value for the level; \<open>level\<close> is what is found there. If there is a main
  board, it is told to select the input of the radio.
\<close>

definition new_DABReceiver :: "'c Si4684 option \<Rightarrow> bool \<Rightarrow> u8 \<Rightarrow> u32 \<Rightarrow> u32 \<Rightarrow> int \<Rightarrow> 'c DABReceiver" where
  "new_DABReceiver siChip mainboard frequencyIndex serviceId componentId level =
     \<lparr>mSiChip = siChip, mFrequencyIndex = frequencyIndex, mServiceId = serviceId, mComponentId = componentId,
      mPowerCounter = 0, mPowerState = DABUnknown, rt_pc = RtEnded, mReadThreadRunning = False, dr_mRadioObservers = [],
      mDABInfo = \<lparr>StationName = '''', Info = '''', ReceiveLevel = level\<rparr>, dr_log = [], dr_ub = False,
      dr_terminated = False, dr_input_selected = mainboard\<rparr>"

definition dr_registerRadioObserver :: "nat option \<Rightarrow> 'c DABReceiver \<Rightarrow> 'c DABReceiver" where
  "dr_registerRadioObserver obs r =
     (case obs of None \<Rightarrow> r | Some p \<Rightarrow> r\<lparr>dr_mRadioObservers := ptr_insert p (dr_mRadioObservers r)\<rparr>)"

definition dr_unRegisterRadioObserver :: "nat option \<Rightarrow> 'c DABReceiver \<Rightarrow> 'c DABReceiver" where
  "dr_unRegisterRadioObserver obs r =
     (case obs of None \<Rightarrow> r | Some p \<Rightarrow> r\<lparr>dr_mRadioObservers := filter (\<lambda>q. q \<noteq> p) (dr_mRadioObservers r)\<rparr>)"

definition dr_notifyObservers :: "'c DABReceiver \<Rightarrow> 'c DABReceiver" where
  "dr_notifyObservers r = r\<lparr>dr_log := dr_log r @ map (\<lambda>p. (p, mDABInfo r)) (dr_mRadioObservers r)\<rparr>"

definition show_info :: "string \<Rightarrow> string \<Rightarrow> 'c DABReceiver \<Rightarrow> 'c DABReceiver" where
  "show_info name text r = r\<lparr>mDABInfo := (mDABInfo r)\<lparr>StationName := name, Info := text\<rparr>\<rparr>"

section \<open>The thread\<close>

definition rt_tune :: "'c spi_device \<Rightarrow> (nat \<Rightarrow> bool) \<Rightarrow> 'c DABReceiver \<Rightarrow> 'c DABReceiver" where
  "rt_tune dev junk r =
     (let r1 = dr_notifyObservers (show_info ''Tune...'' ''Set Frequency'' r)
      in case mSiChip r1 of
           None \<Rightarrow> r1
         | Some c \<Rightarrow>
            (let (tuneResult, c1) = tuneFrequencyIndex dev junk (mFrequencyIndex r1) c
             in if VALID tuneResult
                then
                 (let r2 = dr_notifyObservers (show_info ''Tune...'' ''Search Service'' (r1\<lparr>mSiChip := Some c1\<rparr>));
                      (ok, c2) = startService dev junk (mServiceId r2) (mComponentId r2) c1
                  in dr_notifyObservers (show_info '''' (if ok then '''' else ''Service not found'') (r2\<lparr>mSiChip := Some c2\<rparr>)))
                else dr_notifyObservers (show_info '''' ''Tune frequency failed !'' (r1\<lparr>mSiChip := Some c1\<rparr>))))"

text \<open>
  \<open>std::string(payload.begin() + 2, payload.begin() + BYTE_COUNT - 1)\<close>: a range that ends before it
  begins or behind the payload is \<open>None\<close>.
\<close>

definition payload_text :: "DigitalServiceData \<Rightarrow> string option" where
  "payload_text d =
     (let n = unat (BYTE_COUNT d)
      in if 3 \<le> n \<and> n - 1 \<le> length (mPayload d) then Some (chars (drop 2 (take (n - 1) (mPayload d)))) else None)"

definition rt_service_data :: "DigitalServiceData \<Rightarrow> 'c DABReceiver \<Rightarrow> 'c DABReceiver" where
  "rt_service_data d r =
     (if length (mPayload d) > 4
      then
       (let r1 = (if mPayload d ! 0 = 0x00
                  then (case payload_text d of None \<Rightarrow> r\<lparr>dr_ub := True\<rparr>
                        | Some text \<Rightarrow> dr_notifyObservers (r\<lparr>mDABInfo := (mDABInfo r)\<lparr>StationName := text\<rparr>\<rparr>))
                  else r)
        in if mPayload d ! 0 = 0x80
           then (case payload_text d of None \<Rightarrow> r1\<lparr>dr_ub := True\<rparr>
                 | Some text \<Rightarrow> dr_notifyObservers (r1\<lparr>mDABInfo := (mDABInfo r1)\<lparr>Info := text\<rparr>\<rparr>))
           else r1)
      else r)"

definition receive_level :: "u8 \<Rightarrow> int" where
  "receive_level rssi = (if unat rssi > 64 then 100 else int (unat rssi) * 100 div 64)"

definition rt_pass :: "'c spi_device \<Rightarrow> (nat \<Rightarrow> bool) \<Rightarrow> 'c DABReceiver \<Rightarrow> 'c DABReceiver" where
  "rt_pass dev junk r =
     (case mSiChip r of
        None \<Rightarrow> r
      | Some c \<Rightarrow>
         (let (status, c1) = getStatus dev junk c;
              (r1, c2) = (if DSRV_INT status
                          then (let (d, c') = getServiceData dev c1 in (rt_service_data d r, c'))
                          else (r, c1));
              (rssi, c3) = getRssi dev c2
          in r1\<lparr>mSiChip := Some c3, mDABInfo := (mDABInfo r1)\<lparr>ReceiveLevel := receive_level (RSSI_HIGH rssi)\<rparr>\<rparr>))"

definition rt_exit :: "'c spi_device \<Rightarrow> (nat \<Rightarrow> bool) \<Rightarrow> 'c DABReceiver \<Rightarrow> 'c DABReceiver" where
  "rt_exit dev junk r =
     (case mSiChip r of
        None \<Rightarrow> r
      | Some c \<Rightarrow> r\<lparr>mSiChip := Some (snd (stopService dev junk (mServiceId r) (mComponentId r) c))\<rparr>)"

definition readThread_step :: "'c spi_device \<Rightarrow> (nat \<Rightarrow> bool) \<Rightarrow> 'c DABReceiver \<Rightarrow> 'c DABReceiver" where
  "readThread_step dev junk r =
     (case rt_pc r of
        RtEnded \<Rightarrow> r
      | RtStart \<Rightarrow> (rt_tune dev junk r)\<lparr>rt_pc := RtTest\<rparr>
      | RtTest \<Rightarrow> if mReadThreadRunning r then r\<lparr>rt_pc := RtAsleep\<rparr> else (rt_exit dev junk r)\<lparr>rt_pc := RtEnded\<rparr>
      | RtAsleep \<Rightarrow> (rt_pass dev junk r)\<lparr>rt_pc := RtTest\<rparr>)"

section \<open>Power\<close>

definition startReadThread :: "'c DABReceiver \<Rightarrow> 'c DABReceiver" where
  "startReadThread r =
     (if rt_pc r = RtEnded then r\<lparr>mReadThreadRunning := True, rt_pc := RtStart\<rparr>
      else r\<lparr>mReadThreadRunning := True, dr_terminated := True\<rparr>)"

text \<open>
  \<open>join\<close> waits for the end of the thread. Once the flag is cleared the thread needs at most two
  steps more, see \<open>stopReadThread_ends\<close> below.
\<close>

definition stopReadThread :: "'c spi_device \<Rightarrow> (nat \<Rightarrow> bool) \<Rightarrow> 'c DABReceiver \<Rightarrow> 'c DABReceiver" where
  "stopReadThread dev junk r = (readThread_step dev junk ^^ 2) (r\<lparr>mReadThreadRunning := False\<rparr>)"

definition internalPowerOn :: "'c DABReceiver \<Rightarrow> 'c DABReceiver" where
  "internalPowerOn r = startReadThread r"

definition internalPowerOff :: "'c spi_device \<Rightarrow> (nat \<Rightarrow> bool) \<Rightarrow> 'c DABReceiver \<Rightarrow> 'c DABReceiver" where
  "internalPowerOff dev junk r = stopReadThread dev junk r"

definition powerOn :: "'c DABReceiver \<Rightarrow> 'c DABReceiver" where
  "powerOn r =
     (let r1 = (if mPowerCounter r = 0 then internalPowerOn r else r) in r1\<lparr>mPowerCounter := mPowerCounter r1 + 1\<rparr>)"

definition powerOff :: "'c spi_device \<Rightarrow> (nat \<Rightarrow> bool) \<Rightarrow> 'c DABReceiver \<Rightarrow> 'c DABReceiver" where
  "powerOff dev junk r =
     (let r1 = (if mPowerCounter r \<le> 1 then internalPowerOff dev junk r else r) in r1\<lparr>mPowerCounter := mPowerCounter r1 - 1\<rparr>)"

section \<open>Scanning\<close>

definition scan_one :: "'c spi_device \<Rightarrow> (nat \<Rightarrow> bool) \<Rightarrow> int list \<Rightarrow> nat \<Rightarrow>
   (int \<times> nat \<times> u8 \<times> DABService list) list option \<times> 'c Si4684 \<Rightarrow> (int \<times> nat \<times> u8 \<times> DABService list) list option \<times> 'c Si4684" where
  "scan_one dev junk freqs index = (\<lambda>(out, c).
     case out of None \<Rightarrow> (None, c)
     | Some found \<Rightarrow>
        (let (t, c1) = tuneFrequencyIndex dev junk (of_nat index) c
         in if VALID t
            then (let (l, c2) = getServices dev c1
                  in (map_option (\<lambda>l. found @ [(freqs ! index, index, RSSI t, mServices l)]) l, c2))
            else (Some found, c1)))"

text \<open>What \<open>serviceScan\<close> prints: frequency, index, level and services of every channel received.\<close>

definition serviceScan :: "'c spi_device \<Rightarrow> (nat \<Rightarrow> bool) \<Rightarrow> 'c Si4684 \<Rightarrow>
   (int \<times> nat \<times> u8 \<times> DABService list) list option \<times> 'c Si4684" where
  "serviceScan dev junk c =
     (let (fl, c1) = getFrequencyList dev c
      in case fl of None \<Rightarrow> (None, c1)
         | Some l \<Rightarrow> fold (scan_one dev junk (mFrequencies l)) [0..<length (mFrequencies l)] (Some [], c1))"

section \<open>The receiver runs while somebody uses it\<close>

lemma thread_parts_simps [simp]:
  "rt_pc (rt_tune dev junk r) = rt_pc r" "mReadThreadRunning (rt_tune dev junk r) = mReadThreadRunning r"
  "mPowerCounter (rt_tune dev junk r) = mPowerCounter r" "dr_terminated (rt_tune dev junk r) = dr_terminated r"
  "rt_pc (rt_pass dev junk r) = rt_pc r" "mReadThreadRunning (rt_pass dev junk r) = mReadThreadRunning r"
  "mPowerCounter (rt_pass dev junk r) = mPowerCounter r" "dr_terminated (rt_pass dev junk r) = dr_terminated r"
  "rt_pc (rt_exit dev junk r) = rt_pc r" "mReadThreadRunning (rt_exit dev junk r) = mReadThreadRunning r"
  "mPowerCounter (rt_exit dev junk r) = mPowerCounter r" "dr_terminated (rt_exit dev junk r) = dr_terminated r"
  by (simp_all add: rt_tune_def rt_pass_def rt_exit_def rt_service_data_def show_info_def dr_notifyObservers_def
      Let_def split_beta split: option.split)

lemma readThread_step_simps [simp]:
  "mReadThreadRunning (readThread_step dev junk r) = mReadThreadRunning r"
  "mPowerCounter (readThread_step dev junk r) = mPowerCounter r"
  "dr_terminated (readThread_step dev junk r) = dr_terminated r"
  by (simp_all add: readThread_step_def split: read_pc.split)

lemma stopReadThread_ends:
  "rt_pc (stopReadThread dev junk r) = RtEnded" "mReadThreadRunning (stopReadThread dev junk r) = False"
  "mPowerCounter (stopReadThread dev junk r) = mPowerCounter r" "dr_terminated (stopReadThread dev junk r) = dr_terminated r"
  by (cases "rt_pc r"; simp add: stopReadThread_def readThread_step_def numeral_2_eq_2)+

definition dab_inv :: "'c DABReceiver \<Rightarrow> bool" where
  "dab_inv r \<longleftrightarrow> (rt_pc r \<noteq> RtEnded \<longleftrightarrow> 0 < mPowerCounter r) \<and> (mReadThreadRunning r \<longleftrightarrow> 0 < mPowerCounter r) \<and> \<not> dr_terminated r"

lemma powerOn_inv [wf_intros]: "dab_inv r \<Longrightarrow> dab_inv (powerOn r)"
  by (auto simp: dab_inv_def powerOn_def internalPowerOn_def startReadThread_def Let_def)

lemma powerOff_inv [wf_intros]: "dab_inv r \<Longrightarrow> dab_inv (powerOff dev junk r)"
  by (auto simp: dab_inv_def powerOff_def internalPowerOff_def stopReadThread_ends Let_def)

lemma readThread_step_inv [wf_intros]: "dab_inv r \<Longrightarrow> dab_inv (readThread_step dev junk r)"
  by (cases "rt_pc r") (auto simp: dab_inv_def readThread_step_def)

lemma observers_inv [wf_intros]:
  "dab_inv r \<Longrightarrow> dab_inv (dr_registerRadioObserver p r)" "dab_inv r \<Longrightarrow> dab_inv (dr_unRegisterRadioObserver p r)"
  by (simp_all add: dab_inv_def dr_registerRadioObserver_def dr_unRegisterRadioObserver_def split: option.split)

inductive dab_step :: "'c spi_device \<Rightarrow> (nat \<Rightarrow> bool) \<Rightarrow> 'c DABReceiver \<Rightarrow> 'c DABReceiver \<Rightarrow> bool" for dev junk where
  on: "dab_step dev junk r (powerOn r)"
| off: "dab_step dev junk r (powerOff dev junk r)"
| thread: "dab_step dev junk r (readThread_step dev junk r)"
| register: "dab_step dev junk r (dr_registerRadioObserver p r)"
| unregister: "dab_step dev junk r (dr_unRegisterRadioObserver p r)"

inductive dab_reachable :: "'c spi_device \<Rightarrow> (nat \<Rightarrow> bool) \<Rightarrow> 'c DABReceiver \<Rightarrow> bool" for dev junk where
  start: "dab_reachable dev junk (new_DABReceiver tuner board index service component level)"
| step: "dab_reachable dev junk r \<Longrightarrow> dab_step dev junk r r' \<Longrightarrow> dab_reachable dev junk r'"

lemma dab_reachable_inv: "dab_reachable dev junk r \<Longrightarrow> dab_inv r"
proof (induction rule: dab_reachable.induct)
  case start
  show ?case by (simp add: dab_inv_def new_DABReceiver_def)
next
  case (step r r')
  from step.hyps(2) step.IH show ?case by (cases rule: dab_step.cases) (simp_all add: wf_intros)
qed

text \<open>
  C32. In every reachable state of the receiver, whatever the tuner answers, the read thread is running
  exactly when the counter of users is positive, and a running thread is never replaced, which would
  end the program.
\<close>

theorem receiver_runs_iff_used:
  assumes "dab_reachable dev junk r"
  shows "(rt_pc r \<noteq> RtEnded \<longleftrightarrow> 0 < mPowerCounter r) \<and> (mReadThreadRunning r \<longleftrightarrow> 0 < mPowerCounter r) \<and> \<not> dr_terminated r"
  using dab_reachable_inv [OF assms] by (simp add: dab_inv_def)

definition ex_receiver :: "unit DABReceiver" where
  "ex_receiver = new_DABReceiver (Some ex_tuner) True 3 25112 7 0"

theorem receiver_runs_iff_used_witness:
  "mPowerCounter (powerOn ex_receiver) = 1 \<and> rt_pc (powerOn ex_receiver) \<noteq> RtEnded \<and> \<not> dr_terminated (powerOn ex_receiver)"
proof -
  have "dab_reachable prompt_chip (\<lambda>_. False) (powerOn ex_receiver)"
    unfolding ex_receiver_def by (rule dab_reachable.step [OF dab_reachable.start dab_step.on])
  moreover have "mPowerCounter (powerOn ex_receiver) = 1"
    by (simp add: powerOn_def internalPowerOn_def startReadThread_def ex_receiver_def new_DABReceiver_def Let_def)
  ultimately show ?thesis using receiver_runs_iff_used by fastforce
qed

section \<open>Texts and level\<close>

text \<open>A packet as the tuner sends it: 24 bytes of header with the number of bytes, and the payload.\<close>

definition data_packet :: "bytes \<Rightarrow> bytes \<Rightarrow> bytes \<Rightarrow> bytes" where
  "data_packet hdr rest payload = hdr @ le16_bytes (of_nat (length payload)) @ rest @ payload"

text \<open>
  A text packet is shown as it was sent: a payload that starts with 0 becomes the name of the station, one
  that starts with 0x80 the information line, each without its first two bytes and the last one; the
  observers are told, the other line stays, and nothing outside the payload is read. Other packets
  change nothing.
\<close>

theorem dab_text_shown:
  fixes kind x e :: u8
  assumes "length hdr = 18" and "length rest = 4" and "2 \<le> length text" and "length text + 3 < 65536"
  defines "d \<equiv> parse_DigitalServiceData (data_packet hdr rest (kind # x # text @ [e]))"
  shows "dr_ub (rt_service_data d r) = dr_ub r \<and>
    mDABInfo (rt_service_data d r) =
      (if kind = 0x00 then (mDABInfo r)\<lparr>StationName := chars text\<rparr>
       else if kind = 0x80 then (mDABInfo r)\<lparr>Info := chars text\<rparr> else mDABInfo r) \<and>
    dr_log (rt_service_data d r) = dr_log r @
      (if kind = 0x00 \<or> kind = 0x80 then map (\<lambda>p. (p, mDABInfo (rt_service_data d r))) (dr_mRadioObservers r) else [])"
proof -
  define payload where "payload = kind # x # text @ [e]"
  have len: "length payload = length text + 3" by (simp add: payload_def)
  have u: "unat (of_nat (length payload) :: u16) = length payload"
    unfolding len using assms(4) by (simp add: unat_of_nat take_bit_nat_eq_self del: of_nat_add)
  let ?p = "data_packet hdr rest payload"
  have n: "length ?p = length payload + 24" using assms(1,2) by (simp add: data_packet_def)
  have "u16_at ?p 18 = of_nat (length payload)"
    using at_append(1) [of hdr "le16_bytes (of_nat (length payload)) @ rest @ payload" 0] assms(1) by (simp add: data_packet_def)
  then have count: "unat (BYTE_COUNT d) = length text + 3"
    using n len u unfolding d_def payload_def [symmetric] by (simp add: parse_DigitalServiceData_def)
  have pay: "mPayload d = payload"
    using n len assms(1,2) unfolding d_def payload_def [symmetric] by (simp add: parse_DigitalServiceData_def data_packet_def)
  have "payload_text d = Some (chars text)"
    unfolding payload_text_def Let_def count pay by (simp add: payload_def)
  moreover have "4 < length (mPayload d)" "mPayload d ! 0 = kind" using assms(3) pay by (simp_all add: payload_def)
  ultimately show ?thesis by (simp add: rt_service_data_def dr_notifyObservers_def)
qed

theorem dab_text_shown_witness:
  "mDABInfo (rt_service_data (parse_DigitalServiceData (data_packet (replicate 18 0) (replicate 4 0) (0x80 # 0 # [72, 105] @ [0]))) ex_receiver)
     = (mDABInfo ex_receiver)\<lparr>Info := chars [72, 105]\<rparr>"
  using dab_text_shown [of "replicate 18 0" "replicate 4 0" "[72, 105]" "0x80" 0 0 ex_receiver] by simp

lemma receive_level_bounds: "0 \<le> receive_level rssi \<and> receive_level rssi \<le> 100"
proof -
  have "0 \<le> int n * 100 div 64 \<and> int n * 100 div 64 \<le> 100" if "n \<le> 64" for n
    using that zdiv_mono1 [of "int n * 100" 6400 64] by simp
  then show ?thesis unfolding receive_level_def by (simp del: of_nat_unat)
qed

section \<open>The receiver as the radios use it\<close>

text \<open>
  The radios of all units call one receiver. What a sequence of their calls, in the order they were
  made, does to it:
\<close>

fun radio_call :: "'c spi_device \<Rightarrow> (nat \<Rightarrow> bool) \<Rightarrow> radio_event \<Rightarrow> 'c DABReceiver \<Rightarrow> 'c DABReceiver" where
  "radio_call dev junk DabPowerOn r = powerOn r"
| "radio_call dev junk DabPowerOff r = powerOff dev junk r"
| "radio_call dev junk (DabRegister p) r = dr_registerRadioObserver (Some p) r"
| "radio_call dev junk (DabUnRegister p) r = dr_unRegisterRadioObserver (Some p) r"
| "radio_call dev junk _ r = r"

definition receiver_after :: "'c spi_device \<Rightarrow> (nat \<Rightarrow> bool) \<Rightarrow> radio_event list \<Rightarrow> 'c DABReceiver \<Rightarrow> 'c DABReceiver" where
  "receiver_after dev junk es r = fold (radio_call dev junk) es r"

definition dab_balance :: "radio_event list \<Rightarrow> int" where
  "dab_balance es = int (length (filter (\<lambda>e. e = DabPowerOn) es)) - int (length (filter (\<lambda>e. e = DabPowerOff) es))"

lemma power_counter:
  "mPowerCounter (powerOn r) = mPowerCounter r + 1" "mPowerCounter (powerOff dev junk r) = mPowerCounter r - 1"
  by (simp_all add: powerOn_def internalPowerOn_def startReadThread_def powerOff_def internalPowerOff_def stopReadThread_ends Let_def)

lemma radio_call_counter:
  "mPowerCounter (radio_call dev junk e r) = mPowerCounter r + dab_balance [e]"
  by (cases e) (simp_all add: power_counter dab_balance_def dr_registerRadioObserver_def dr_unRegisterRadioObserver_def)

lemma dab_balance_append [simp]: "dab_balance (xs @ ys) = dab_balance xs + dab_balance ys" "dab_balance [] = 0"
  by (simp_all add: dab_balance_def)

lemma dab_balance_Cons: "dab_balance (x # ys) = dab_balance [x] + dab_balance ys"
  using dab_balance_append(1) [of "[x]" ys] by simp

lemma radio_call_inv: "dab_inv r \<Longrightarrow> dab_inv (radio_call dev junk e r)"
  by (cases e) (simp_all add: wf_intros)

lemma receiver_after_counter:
  "dab_inv r \<Longrightarrow> mPowerCounter (receiver_after dev junk es r) = mPowerCounter r + dab_balance es \<and> dab_inv (receiver_after dev junk es r)"
  unfolding receiver_after_def
proof (induction es arbitrary: r)
  case (Cons e es)
  then show ?case
    using radio_call_inv [of r dev junk e] dab_balance_Cons [of e es] by (simp add: radio_call_counter)
qed simp

lemma receiver_after_runs:
  assumes "dab_inv r" "mPowerCounter r = 0"
  shows "rt_pc (receiver_after dev junk es r) \<noteq> RtEnded \<longleftrightarrow> 0 < dab_balance es"
  using receiver_after_counter [OF assms(1), of dev junk es] assms(2) by (simp add: dab_inv_def)

lemma new_receiver: "dab_inv (new_DABReceiver c b i sv cp l)" "mPowerCounter (new_DABReceiver c b i sv cp l) = 0"
  by (simp_all add: dab_inv_def new_DABReceiver_def)

end
