(* ===== verification/Shared_Receiver.thy ===== *)
theory Shared_Receiver
  imports Dab_Receiver
begin

text \<open>
  The radio (\<open>lib/Radio.cpp\<close>) as a client of the receiver that all units share (\<open>lib/DABReceiver.cpp\<close>): how the calls
  that a radio makes add up in the counter of users, for each operation of the radio and for a radio
  that is used with its keys and timers only. The properties are in the root theory.
\<close>

section \<open>The radios and the receiver they share\<close>

lemma balance_maps [simp]:
  "dab_balance (map (\<lambda>p. RadioStateUpdate p st v) ps) = 0" "dab_balance (map DabRegister ps) = 0"
  "dab_balance (map DabUnRegister ps) = 0" "dab_balance (AmpWrite b # es) = dab_balance es"
  "dab_balance (DabPowerOn # es) = dab_balance es + 1" "dab_balance (DabPowerOff # es) = dab_balance es - 1"
  by (simp_all add: dab_balance_def filter_map comp_def)

lemma writeRegisters_balance [simp]: "dab_balance (radio_log (writeRegisters r)) = dab_balance (radio_log r)"
  by (simp add: writeRegisters_def Radio.notifyObservers_def split: option.split)

lemma Radio_pwrOn_balance [simp]:
  "dab_balance (radio_log (Radio_pwrOn sm v r)) = dab_balance (radio_log r) + 1"
  by (simp add: Radio_pwrOn_def pwrOn_volume_def registerFMReceiver_def Let_def split: option.split)

lemma Radio_pwrOff_balance [simp]:
  "dab_balance (radio_log (Radio_pwrOff r)) = dab_balance (radio_log r) - 1"
  by (simp add: Radio_pwrOff_def unRegisterFMReceiver_def Let_def)

lemma Radio_moves_balance [simp]:
  "dab_balance (radio_log (Radio_up n r)) = dab_balance (radio_log r)"
  "dab_balance (radio_log (Radio_down n r)) = dab_balance (radio_log r)"
  "dab_balance (radio_log (Radio_cancelDimmer r)) = dab_balance (radio_log r)"
  by (simp_all add: Radio_up_def Radio_down_def Radio_cancelDimmer_def)

text \<open>
  A radio that is used with its keys only, with the timers that these start.
\<close>

definition counted :: "Radio \<Rightarrow> bool" where
  "counted r \<longleftrightarrow> dab_balance (radio_log r) = (if mRadioState r = PwrOn then 1 else 0) \<and> mRadioState r \<noteq> Wakeup \<and>
     (mAutoOffThreadRunning (mAutoPowerOffTimer r) \<longrightarrow> mRadioState r = PwrOn)"

lemma counted_pwrOn: "counted r \<Longrightarrow> mRadioState r = PwrOff \<Longrightarrow> counted (Radio_pwrOn sm v r)"
  by (simp add: counted_def Radio_power_state)

lemma counted_pwrOff: "counted r \<Longrightarrow> mRadioState r = PwrOn \<Longrightarrow> counted (Radio_pwrOff r)"
  by (simp add: counted_def Radio_power_state)
    (simp add: Radio_pwrOff_def unRegisterFMReceiver_def cancelAutoPowerOff_def Let_def)

lemma counted_frame [simp]:
  "counted (Radio_up n r) = counted r" "counted (Radio_down n r) = counted r" "counted (Radio_cancelDimmer r) = counted r"
  "mRadioState (Radio_cancelDimmer r) = mRadioState r"
  "counted (Radio.mUpDownTimer_update f r) = counted r" "counted (registerRadioObserver p r) = counted r"
  "counted (unRegisterRadioObserver p r) = counted r"
  by (simp_all add: counted_def, simp_all add: Radio_cancelDimmer_def registerRadioObserver_def unRegisterRadioObserver_def split: option.split)

lemma counted_key: "counted r \<Longrightarrow> counted (Radio_keyboardPressed ki r)"
proof -
  assume c: "counted r"
  define r1 where "r1 = (if (mState ki = stNormal \<or> mState ki = stAlarmActive) \<and> mRadioState r = PwrOn then
                  (let ra = (if pressed_or_long ki KEY_UP then Radio_cancelDimmer (Radio_up 1 r) else r)
                   in if pressed_or_long ki KEY_DOWN then Radio_cancelDimmer (Radio_down 1 ra) else ra)
                else r)"
  have "counted r1" using c by (simp add: r1_def Let_def)
  moreover have "Radio_keyboardPressed ki r = (if mState ki = stNormal \<and> mShortPressed (mKeyInfo ki ! KEY_LEFT) then
           (case mRadioState r1 of PwrOff \<Rightarrow> Radio_pwrOn False 0 r1 | PwrOn \<Rightarrow> Radio_pwrOff r1 | Wakeup \<Rightarrow> r1) else r1)"
    unfolding Radio_keyboardPressed_def r1_def Let_def ..
  ultimately show ?thesis
    by (auto intro: counted_pwrOn counted_pwrOff split: RadioState.split)
qed

lemma counted_dim: "counted r \<Longrightarrow> counted (radio_dimmer r)"
  by (simp add: radio_dimmer_def dimmerThread_step_def Let_def split: thread_pc.split)

lemma counted_auto: "counted r \<Longrightarrow> radio_auto_off r = Some r' \<Longrightarrow> counted r'"
proof (cases "ao_pc (Radio.mAutoPowerOffTimer r)")
  case Asleep
  assume c: "counted r" and step: "radio_auto_off r = Some r'"
  define r1 where "r1 = Radio.mAutoPowerOffTimer_update (\<lambda>t. t\<lparr>ao_pc := AtTest, ao_countDownSeconds := ao_countDownSeconds t - 1\<rparr>) r"
  have r1: "counted r1" "mRadioState r1 = mRadioState r" using c by (simp_all add: r1_def counted_def)
  define r2 where "r2 = Radio.mAutoPowerOffTimer_update (\<lambda>t. t\<lparr>mAutoOffThreadRunning := False\<rparr>) r1"
  have "r' = (if ao_countDownSeconds (Radio.mAutoPowerOffTimer r1) = 0 \<and> mAutoOffThreadRunning (Radio.mAutoPowerOffTimer r1)
      then Radio_pwrOff r2 else r1)"
    using step Asleep unfolding radio_auto_off_def autoOffThread_step_def r2_def r1_def Let_def by (auto split: if_splits)
  moreover have "counted (Radio_pwrOff r2)" if "mAutoOffThreadRunning (Radio.mAutoPowerOffTimer r1)"
    using that r1 by (intro counted_pwrOff) (simp_all add: r2_def counted_def)
  ultimately show ?thesis using r1 by auto
qed (auto simp: radio_auto_off_def autoOffThread_step_def counted_def)

inductive key_radio :: "Radio \<Rightarrow> bool" where
  start: "key_radio new_Radio"
| key: "key_radio r \<Longrightarrow> key_radio (Radio_keyboardPressed ki r)"
| dim: "key_radio r \<Longrightarrow> key_radio (radio_dimmer r)"
| auto: "key_radio r \<Longrightarrow> radio_auto_off r = Some r' \<Longrightarrow> key_radio r'"
| register: "key_radio r \<Longrightarrow> key_radio (registerRadioObserver p r)"
| unregister: "key_radio r \<Longrightarrow> key_radio (unRegisterRadioObserver p r)"

lemma key_radio_counted: "key_radio r \<Longrightarrow> counted r"
proof (induction rule: key_radio.induct)
  case start
  have "dab_balance (radio_log new_Radio) = 0" by (simp add: new_Radio_def Let_def)
  then show ?case by (simp add: counted_def new_Radio_def new_AutoPowerOffTimer_def Let_def)
qed (simp_all add: counted_key counted_dim counted_auto)

end
