(* ===== verification/Mainboard.thy ===== *)
theory Mainboard
  imports I2C_Bus Keyboard "HOL-Library.AList"
begin

text \<open>
  The main board (\<open>rgbclock/RgbLib/src/lib/IOExpander.cpp\<close>, \<open>MainboardControl.cpp\<close>): the port
  expander on the I2C bus, the relays, the audio input and the mute line, the reset of the tuner, and
  the watchdog, which is fed only while every thread that promised a sign of life gives it in
  time. An operation runs on the bus and ends with the exception the bus throws, if any.
\<close>

section \<open>Sequences of bus operations\<close>

definition seq_io ::
  "('e + 'a) \<times> 's \<Rightarrow> ('s \<Rightarrow> ('e + 'b) \<times> 's) \<Rightarrow> ('e + 'b) \<times> 's" where
  "seq_io r f = (case r of (Inl e, s) \<Rightarrow> (Inl e, s) | (Inr x, s) \<Rightarrow> f s)"

definition bind_io ::
  "('e + 'a) \<times> 's \<Rightarrow> ('a \<Rightarrow> 's \<Rightarrow> ('e + 'b) \<times> 's) \<Rightarrow> ('e + 'b) \<times> 's" where
  "bind_io r f = (case r of (Inl e, s) \<Rightarrow> (Inl e, s) | (Inr x, s) \<Rightarrow> f x s)"

lemma seq_io_simps [simp]: "seq_io (Inl e, s) f = (Inl e, s)" "seq_io (Inr x, s) f = f s"
  by (simp_all add: seq_io_def)

lemma bind_io_simps [simp]: "bind_io (Inl e, s) g = (Inl e, s)" "bind_io (Inr x, s) g = g x s"
  by (simp_all add: bind_io_def)

section \<open>The port expander\<close>

datatype DataDirection = dirIn | dirOut

definition DIRA :: u8 where "DIRA = 0x00"
definition DIRB :: u8 where "DIRB = 0x01"
definition GPIOA :: u8 where "GPIOA = 0x12"
definition GPIOB :: u8 where "GPIOB = 0x13"
definition GPPUA :: u8 where "GPPUA = 0x0C"
definition GPPUB :: u8 where "GPPUB = 0x0D"

type_synonym 'a io = "I2C \<Rightarrow> (i2c_exception + 'a) \<times> I2C"

definition IO_writeA :: "i2c_bus \<Rightarrow> u8 \<Rightarrow> u8 \<Rightarrow> bool io" where
  "IO_writeA bus a byte = writeData bus a [GPIOA, byte] DEFAULT_I2C_RETRY"

definition IO_writeB :: "i2c_bus \<Rightarrow> u8 \<Rightarrow> u8 \<Rightarrow> bool io" where
  "IO_writeB bus a byte = writeData bus a [GPIOB, byte] DEFAULT_I2C_RETRY"

definition IO_directionA :: "i2c_bus \<Rightarrow> u8 \<Rightarrow> DataDirection \<Rightarrow> bool io" where
  "IO_directionA bus a d s =
     (let v = (if d = dirOut then 0x00 else 0xFF)
      in seq_io (writeData bus a [DIRA, v] DEFAULT_I2C_RETRY s) (\<lambda>s1.
         seq_io (writeData bus a [GPPUA, v] DEFAULT_I2C_RETRY s1) (\<lambda>s2. (Inr True, s2))))"

definition IO_directionB :: "i2c_bus \<Rightarrow> u8 \<Rightarrow> DataDirection \<Rightarrow> bool io" where
  "IO_directionB bus a d s =
     (let v = (if d = dirOut then 0x00 else 0xFF)
      in seq_io (writeData bus a [DIRB, v] DEFAULT_I2C_RETRY s) (\<lambda>s1.
         seq_io (writeData bus a [GPPUB, v] DEFAULT_I2C_RETRY s1) (\<lambda>s2. (Inr True, s2))))"

definition IO_readA :: "i2c_bus \<Rightarrow> u8 \<Rightarrow> (bool \<times> u8) io" where
  "IO_readA bus a = readData_byte bus a GPIOA DEFAULT_I2C_RETRY"

definition IO_readB :: "i2c_bus \<Rightarrow> u8 \<Rightarrow> (bool \<times> u8) io" where
  "IO_readB bus a = readData_byte bus a GPIOB DEFAULT_I2C_RETRY"

definition IO_init :: "i2c_bus \<Rightarrow> u8 \<Rightarrow> bool io" where
  "IO_init bus a s =
     bind_io (writeData bus a [0x0A, 0x20] DEFAULT_I2C_RETRY s) (\<lambda>r0 s0.
     bind_io (IO_directionA bus a dirOut s0) (\<lambda>r1 s1.
     bind_io (IO_directionB bus a dirOut s1) (\<lambda>r2 s2. (Inr (r0 \<and> r1 \<and> r2), s2))))"

section \<open>The main board\<close>

datatype InputSelection = RadioIn | Auxin

record FeederInfo =
  mPromiseTimeout :: int
  mCurrentTimeout :: int

definition RL_U17 :: nat where "RL_U17 = 0"
definition RL_U16 :: nat where "RL_U16 = 1"
definition RL_U15 :: nat where "RL_U15 = 2"
definition RL_U14 :: nat where "RL_U14 = 3"
definition MUTE :: nat where "MUTE = 0"
definition RADIO_IN :: nat where "RADIO_IN = 1"
definition AUX_IN :: nat where "AUX_IN = 2"
definition RADIO_RST :: nat where "RADIO_RST = 3"
definition WATCHDOG :: nat where "WATCHDOG = 4"
definition WATCHDOG_SLEEP :: int where "WATCHDOG_SLEEP = 500"

text \<open>
  The feeders are pointers; \<open>keepalives\<close> counts the calls of the watchdog device, and
  \<open>mb_I2C\<close> is the bus the board refers to.
\<close>

record MainboardControl =
  mIO :: u8
  mHwRevision :: u8
  mWatchdogEnabled :: bool
  mRelaisBus :: u8
  mMainBus :: u8
  mWatchdogFeeders :: "(nat \<times> FeederInfo) list"
  mWatchdogHandle :: int
  mWatchdogThreadRunning :: bool
  keepalives :: nat
  mb_I2C :: I2C

type_synonym 'a board = "MainboardControl \<Rightarrow> (i2c_exception + 'a) \<times> MainboardControl"

definition put_bit :: "nat \<Rightarrow> bool \<Rightarrow> u8 \<Rightarrow> u8" where
  "put_bit i b w = (if b then set_bit i w else unset_bit i w)"

definition on_bus :: "'a io \<Rightarrow> unit board" where
  "on_bus f s = (let (r, i) = f (mb_I2C s) in (map_sum id (\<lambda>_. ()) r, s\<lparr>mb_I2C := i\<rparr>))"

definition writeA :: "i2c_bus \<Rightarrow> unit board" where
  "writeA bus s = on_bus (IO_writeA bus (mIO s) (mRelaisBus s)) s"

definition writeB :: "i2c_bus \<Rightarrow> unit board" where
  "writeB bus s = on_bus (IO_writeB bus (mIO s) (mMainBus s)) s"

definition board_init :: "i2c_bus \<Rightarrow> int \<Rightarrow> unit board" where
  "board_init bus opened s =
     seq_io (on_bus (IO_directionA bus (mIO s) dirOut) s) (\<lambda>s.
     seq_io (on_bus (IO_directionB bus (mIO s) dirOut) s) (\<lambda>s.
     seq_io (writeA bus s) (\<lambda>s.
     seq_io (writeB bus (s\<lparr>mMainBus := put_bit RADIO_RST True (put_bit AUX_IN False (put_bit RADIO_IN False
               (put_bit MUTE False (mMainBus s))))\<rparr>)) (\<lambda>s.
       (Inr (), if mWatchdogEnabled s then s\<lparr>mWatchdogHandle := (if opened < 0 then 0 else opened)\<rparr> else s)))))"

text \<open>The constructor: \<open>opened\<close> is what the open of the watchdog device returns.\<close>

definition new_MainboardControl ::
  "i2c_bus \<Rightarrow> I2C \<Rightarrow> u8 \<Rightarrow> u8 \<Rightarrow> bool \<Rightarrow> int \<Rightarrow> (i2c_exception + unit) \<times> MainboardControl" where
  "new_MainboardControl bus i2c hwrevision address enableWatchdog opened =
     (let s = \<lparr>mIO = address, mHwRevision = hwrevision, mWatchdogEnabled = enableWatchdog, mRelaisBus = 0,
               mMainBus = 0, mWatchdogFeeders = [], mWatchdogHandle = 0, mWatchdogThreadRunning = False,
               keepalives = 0, mb_I2C = i2c\<rparr>
      in seq_io (on_bus (IO_init bus address) s) (\<lambda>s.
         seq_io (board_init bus opened s) (\<lambda>s. (Inr (), s\<lparr>mWatchdogThreadRunning := True\<rparr>))))"

definition Mainboard_keyboardPressed :: "i2c_bus \<Rightarrow> KeyboardInfo \<Rightarrow> unit board" where
  "Mainboard_keyboardPressed bus ki s =
     (if mHwRevision s = 1 then (Inr (), s)
      else writeA bus (s\<lparr>mRelaisBus :=
             put_bit RL_U14 (mPressed (mKeyInfo ki ! KEY_REL4))
            (put_bit RL_U15 (mPressed (mKeyInfo ki ! KEY_REL3))
            (put_bit RL_U16 (mPressed (mKeyInfo ki ! KEY_REL2))
            (put_bit RL_U17 (mPressed (mKeyInfo ki ! KEY_REL1)) (mRelaisBus s))))\<rparr>))"

definition mute :: "i2c_bus \<Rightarrow> bool \<Rightarrow> unit board" where
  "mute bus m s =
     (if mHwRevision s = 1 then (Inr (), s)
      else writeB bus (s\<lparr>mMainBus := put_bit MUTE (\<not> m) (mMainBus s)\<rparr>))"

definition resetTuner :: "i2c_bus \<Rightarrow> unit board" where
  "resetTuner bus s =
     seq_io (writeB bus (s\<lparr>mMainBus := put_bit RADIO_RST False (mMainBus s)\<rparr>)) (\<lambda>s.
       writeB bus (s\<lparr>mMainBus := put_bit RADIO_RST True (mMainBus s)\<rparr>))"

definition selectInput :: "i2c_bus \<Rightarrow> InputSelection \<Rightarrow> unit board" where
  "selectInput bus input s =
     (if mHwRevision s = 1 then (Inr (), s)
      else
        seq_io (mute bus True s) (\<lambda>s.
        seq_io (writeB bus (s\<lparr>mMainBus := put_bit AUX_IN True (put_bit RADIO_IN True (mMainBus s))\<rparr>)) (\<lambda>s.
        seq_io (writeB bus (s\<lparr>mMainBus := put_bit AUX_IN (input = RadioIn) (put_bit RADIO_IN (input \<noteq> RadioIn) (mMainBus s))\<rparr>)) (\<lambda>s.
          mute bus False s))))"

section \<open>The watchdog\<close>

definition promiseWatchdog :: "nat option \<Rightarrow> int \<Rightarrow> MainboardControl \<Rightarrow> MainboardControl" where
  "promiseWatchdog feeder timeoutMiliseconds s =
     (case feeder of None \<Rightarrow> s
      | Some f \<Rightarrow> s\<lparr>mWatchdogFeeders := AList.update f
           \<lparr>mPromiseTimeout = timeoutMiliseconds, mCurrentTimeout = timeoutMiliseconds\<rparr> (mWatchdogFeeders s)\<rparr>)"

definition removePromise :: "nat option \<Rightarrow> MainboardControl \<Rightarrow> MainboardControl" where
  "removePromise feeder s =
     (case feeder of None \<Rightarrow> s
      | Some f \<Rightarrow> s\<lparr>mWatchdogFeeders := AList.delete f (mWatchdogFeeders s)\<rparr>)"

definition signalWatchdog :: "nat \<Rightarrow> MainboardControl \<Rightarrow> MainboardControl" where
  "signalWatchdog f s =
     s\<lparr>mWatchdogFeeders := map (\<lambda>(g, i). if g = f then (g, i\<lparr>mCurrentTimeout := mPromiseTimeout i\<rparr>) else (g, i))
         (mWatchdogFeeders s)\<rparr>"

definition feeder_tick :: "MainboardControl \<Rightarrow> MainboardControl" where
  "feeder_tick s =
     (let fs = map (\<lambda>(g, i). (g, i\<lparr>mCurrentTimeout := mCurrentTimeout i - WATCHDOG_SLEEP\<rparr>)) (mWatchdogFeeders s);
          running = (mWatchdogThreadRunning s \<and> list_all (\<lambda>(g, i). \<not> mCurrentTimeout i < 0) fs)
      in s\<lparr>mWatchdogFeeders := fs, mWatchdogThreadRunning := running,
           keepalives := (if running \<and> mWatchdogHandle s > 0 then Suc (keepalives s) else keepalives s)\<rparr>)"

definition watchdogThread_pass :: "i2c_bus \<Rightarrow> unit board" where
  "watchdogThread_pass bus s =
     (if \<not> mWatchdogThreadRunning s then (Inr (), s)
      else
       (let s1 = feeder_tick s
        in seq_io (writeB bus (s1\<lparr>mMainBus := put_bit WATCHDOG False (mMainBus s1)\<rparr>)) (\<lambda>s2.
             writeB bus (s2\<lparr>mMainBus := put_bit WATCHDOG True (mMainBus s2)\<rparr>))))"

text \<open>The destructor: the relays are released and a closing letter disarms the watchdog device.\<close>

definition delete_MainboardControl :: "i2c_bus \<Rightarrow> bool board" where
  "delete_MainboardControl bus s =
     seq_io (if mHwRevision s > 1 then on_bus (IO_writeA bus (mIO s) 0) s else (Inr (), s)) (\<lambda>s.
       (Inr (mWatchdogHandle s > 0), s\<lparr>mWatchdogThreadRunning := False\<rparr>))"

section \<open>Runs\<close>

datatype board_op =
    OpKeys KeyboardInfo
  | OpMute bool
  | OpReset
  | OpSelect InputSelection
  | OpSignal nat
  | OpPass

fun run_board_op :: "i2c_bus \<Rightarrow> board_op \<Rightarrow> unit board" where
  "run_board_op bus (OpKeys ki) s = Mainboard_keyboardPressed bus ki s"
| "run_board_op bus (OpMute m) s = mute bus m s"
| "run_board_op bus OpReset s = resetTuner bus s"
| "run_board_op bus (OpSelect i) s = selectInput bus i s"
| "run_board_op bus (OpSignal f) s = (Inr (), signalWatchdog f s)"
| "run_board_op bus OpPass s = watchdogThread_pass bus s"

text \<open>An exception of the bus ends the program.\<close>

fun board_run :: "i2c_bus \<Rightarrow> board_op list \<Rightarrow> unit board" where
  "board_run bus [] s = (Inr (), s)"
| "board_run bus (op # ops) s = seq_io (run_board_op bus op s) (board_run bus ops)"

section \<open>The watchdog is fed exactly while all promises are kept\<close>

lemma board_run_snoc:
  "board_run bus (ops @ [op]) s = seq_io (board_run bus ops s) (run_board_op bus op)"
proof (induction ops arbitrary: s)
  case Nil
  show ?case by (auto simp: seq_io_def split: prod.splits sum.splits)
next
  case (Cons a ops)
  then show ?case by (auto simp: seq_io_def split: prod.splits sum.splits)
qed

text \<open>The part of the board the watchdog uses; operations on the bus do not touch it.\<close>

definition wd_part :: "MainboardControl \<Rightarrow> (nat \<times> FeederInfo) list \<times> bool \<times> nat \<times> int" where
  "wd_part s = (mWatchdogFeeders s, mWatchdogThreadRunning s, keepalives s, mWatchdogHandle s)"

lemma wd_part_simps [simp]:
  "wd_part (s\<lparr>mMainBus := b\<rparr>) = wd_part s" "wd_part (s\<lparr>mRelaisBus := b\<rparr>) = wd_part s"
  "wd_part (s\<lparr>mb_I2C := i\<rparr>) = wd_part s"
  by (simp_all add: wd_part_def)

lemma write_wd [simp]:
  "wd_part (snd (writeA bus s)) = wd_part s" "wd_part (snd (writeB bus s)) = wd_part s"
  by (simp_all add: writeA_def writeB_def on_bus_def split_beta Let_def)

lemma seq_io_keeps:
  "(\<And>t. g (snd (f t)) = g t) \<Longrightarrow> g (snd (seq_io r f)) = g (snd r)"
  by (auto simp: seq_io_def split: prod.split sum.split)

lemma bus_ops_wd:
  "wd_part (snd (Mainboard_keyboardPressed bus ki s)) = wd_part s"
  "wd_part (snd (mute bus m s)) = wd_part s"
  "wd_part (snd (resetTuner bus s)) = wd_part s"
  "wd_part (snd (selectInput bus i s)) = wd_part s"
  by (simp_all add: Mainboard_keyboardPressed_def mute_def resetTuner_def selectInput_def seq_io_keeps [of wd_part])

lemma pass_wd:
  "wd_part (snd (watchdogThread_pass bus s)) =
     (if mWatchdogThreadRunning s then wd_part (feeder_tick s) else wd_part s)"
  by (simp add: watchdogThread_pass_def Let_def seq_io_keeps [of wd_part])

fun wd_op :: "board_op \<Rightarrow> MainboardControl \<Rightarrow> MainboardControl" where
  "wd_op (OpSignal f) s = signalWatchdog f s"
| "wd_op OpPass s = (if mWatchdogThreadRunning s then feeder_tick s else s)"
| "wd_op op s = s"

lemma run_board_op_wd: "wd_part (snd (run_board_op bus op s)) = wd_part (wd_op op s)"
  by (cases op) (simp_all add: bus_ops_wd pass_wd)

text \<open>The passes since the last sign of life of a feeder.\<close>

definition silent :: "nat \<Rightarrow> board_op list \<Rightarrow> nat" where
  "silent f ops = length (filter (\<lambda>op. op = OpPass) (takeWhile (\<lambda>op. op \<noteq> OpSignal f) (rev ops)))"

lemma silent_snoc [simp]:
  "silent f [] = 0" "silent f (ops @ [OpPass]) = Suc (silent f ops)"
  "silent f (ops @ [OpSignal g]) = (if f = g then 0 else silent f ops)"
  "op \<noteq> OpPass \<Longrightarrow> (\<forall>g. op \<noteq> OpSignal g) \<Longrightarrow> silent f (ops @ [op]) = silent f ops"
  by (auto simp: silent_def)

definition passes :: "board_op list \<Rightarrow> nat" where
  "passes ops = length (filter (\<lambda>op. op = OpPass) ops)"

lemma passes_snoc [simp]:
  "passes [] = 0" "passes (ops @ [op]) = passes ops + (if op = OpPass then 1 else 0)"
  by (simp_all add: passes_def)

definition kept :: "(nat \<times> FeederInfo) list \<Rightarrow> board_op list \<Rightarrow> bool" where
  "kept fs ops \<longleftrightarrow> (\<forall>k \<le> length ops. \<forall>(f, i) \<in> set fs. 500 * int (silent f (take k ops)) \<le> mPromiseTimeout i)"

lemma kept_snoc:
  "kept fs (ops @ [op]) \<longleftrightarrow>
     kept fs ops \<and> (\<forall>(f, i) \<in> set fs. 500 * int (silent f (ops @ [op])) \<le> mPromiseTimeout i)"
proof -
  have "(\<forall>k \<le> Suc (length ops). P k) \<longleftrightarrow> (\<forall>k \<le> length ops. P k) \<and> P (Suc (length ops))" for P
    by (metis le_Suc_eq order_refl)
  then show ?thesis unfolding kept_def by simp
qed

lemma kept_now:
  assumes "kept fs ops" "(f, i) \<in> set fs"
  shows "500 * int (silent f ops) \<le> mPromiseTimeout i" "0 \<le> mPromiseTimeout i"
  using assms unfolding kept_def by (force dest!: spec [of _ "length ops"])+

text \<open>The timers of the feeders after a run in which the thread is still running.\<close>

definition feeders_after :: "board_op list \<Rightarrow> (nat \<times> FeederInfo) list \<Rightarrow> (nat \<times> FeederInfo) list" where
  "feeders_after ops fs =
     map (\<lambda>(f, i). (f, i\<lparr>mCurrentTimeout := mPromiseTimeout i - 500 * int (silent f ops)\<rparr>)) fs"

lemma feeders_after_signal:
  "map (\<lambda>(g, i). if g = f then (g, i\<lparr>mCurrentTimeout := mPromiseTimeout i\<rparr>) else (g, i)) (feeders_after ops fs)
     = feeders_after (ops @ [OpSignal f]) fs"
  by (auto simp: feeders_after_def)

lemma feeders_after_pass:
  "map (\<lambda>(g, i). (g, i\<lparr>mCurrentTimeout := mCurrentTimeout i - WATCHDOG_SLEEP\<rparr>)) (feeders_after ops fs)
     = feeders_after (ops @ [OpPass]) fs"
  by (auto simp: feeders_after_def WATCHDOG_SLEEP_def)

lemma feeders_after_all:
  "list_all (\<lambda>(g, i). \<not> mCurrentTimeout i < 0) (feeders_after ops fs) \<longleftrightarrow>
     (\<forall>(f, i) \<in> set fs. 500 * int (silent f ops) \<le> mPromiseTimeout i)"
  by (auto simp: feeders_after_def list_all_iff)

definition watched :: "MainboardControl \<Rightarrow> board_op list \<Rightarrow> MainboardControl \<Rightarrow> bool" where
  "watched s ops s' \<longleftrightarrow>
     (mWatchdogThreadRunning s' \<longleftrightarrow> kept (mWatchdogFeeders s) ops) \<and>
     mWatchdogHandle s' = mWatchdogHandle s \<and>
     (mWatchdogThreadRunning s' \<longrightarrow>
        mWatchdogFeeders s' = feeders_after ops (mWatchdogFeeders s) \<and>
        (mWatchdogHandle s > 0 \<longrightarrow> keepalives s' = keepalives s + passes ops))"

lemma watched_cong: "wd_part s1 = wd_part s2 \<Longrightarrow> watched s ops s1 = watched s ops s2"
  by (simp add: watched_def wd_part_def)

lemma watched_op:
  assumes "watched s ops s1"
  shows "watched s (ops @ [op]) (wd_op op s1)"
proof (cases "mWatchdogThreadRunning s1")
  case False
  with assms have "\<not> kept (mWatchdogFeeders s) (ops @ [op])" by (simp add: watched_def kept_snoc)
  with False assms show ?thesis
    by (cases op) (simp_all add: watched_def signalWatchdog_def)
next
  case True
  let ?fs = "mWatchdogFeeders s"
  have run: "kept ?fs ops" "mWatchdogFeeders s1 = feeders_after ops ?fs" "mWatchdogHandle s1 = mWatchdogHandle s"
      "mWatchdogHandle s > 0 \<longrightarrow> keepalives s1 = keepalives s + passes ops"
    using assms True by (simp_all add: watched_def)
  have same: "watched s (ops @ [op]) s1" if op: "op \<noteq> OpPass" "\<forall>g. op \<noteq> OpSignal g"
  proof -
    have "kept ?fs (ops @ [op])"
      using run(1) kept_now [OF run(1)] unfolding kept_snoc by (auto simp: op)
    moreover have "feeders_after (ops @ [op]) ?fs = feeders_after ops ?fs"
      by (simp add: feeders_after_def op)
    ultimately show ?thesis using True run op by (simp add: watched_def)
  qed
  show ?thesis
  proof (cases op)
    case (OpSignal f)
    have "kept ?fs (ops @ [OpSignal f])"
      using run(1) kept_now [OF run(1)] unfolding kept_snoc by auto
    with OpSignal True run show ?thesis
      by (simp add: watched_def signalWatchdog_def feeders_after_signal)
  next
    case OpPass
    with True run show ?thesis
      by (auto simp: watched_def feeder_tick_def Let_def feeders_after_pass feeders_after_all kept_snoc)
  qed (use same in auto)
qed


text \<open>
  C23. The watchdog is fed exactly as long as every promise is kept. In a run of the board that the
  bus does not abort, started with the timer of every feeder at its promise, the watchdog thread is
  still running at the end if and only if at no point more passes of half a second have gone by since
  the last sign of life of a feeder than its promise allows; and while it runs, every pass has fed
  the watchdog device. One broken promise therefore stops the feeding for good.
\<close>

theorem watchdog_fed_iff_promises_kept:
  assumes "board_run bus ops s = (Inr (), s')"
    and "mWatchdogThreadRunning s" and "mWatchdogHandle s > 0"
    and "\<forall>(f, i) \<in> set (mWatchdogFeeders s). mCurrentTimeout i = mPromiseTimeout i \<and> 0 \<le> mPromiseTimeout i"
  shows "(mWatchdogThreadRunning s' \<longleftrightarrow>
            (\<forall>k \<le> length ops. \<forall>(f, i) \<in> set (mWatchdogFeeders s).
               500 * int (silent f (take k ops)) \<le> mPromiseTimeout i)) \<and>
         (mWatchdogThreadRunning s' \<longrightarrow> keepalives s' = keepalives s + passes ops)"
proof -
  have start: "feeders_after [] (mWatchdogFeeders s) = mWatchdogFeeders s"
    unfolding feeders_after_def
  proof (rule map_idI)
    fix x assume "x \<in> set (mWatchdogFeeders s)"
    with assms(4) show "(case x of (f, i) \<Rightarrow> (f, i\<lparr>mCurrentTimeout := mPromiseTimeout i - 500 * int (silent f [])\<rparr>)) = x"
      by (cases x; cases "snd x") (auto dest!: bspec)
  qed
  have "board_run bus ops s = (Inr (), s') \<Longrightarrow> watched s ops s'"
  proof (induction ops arbitrary: s' rule: rev_induct)
    case Nil
    with assms(2,4) start show ?case by (auto simp: watched_def kept_def)
  next
    case (snoc op ops)
    then obtain s1 where s1: "board_run bus ops s = (Inr (), s1)" "run_board_op bus op s1 = (Inr (), s')"
      unfolding board_run_snoc by (cases "board_run bus ops s") (auto simp: seq_io_def split: sum.splits)
    have "wd_part s' = wd_part (wd_op op s1)" using run_board_op_wd [of bus op s1] s1(2) by simp
    with watched_op [OF snoc.IH [OF s1(1)], of op] show ?case using watched_cong by blast
  qed
  with assms(1,3) show ?thesis by (simp add: watched_def kept_def)
qed

section \<open>The audio input is switched only while the sound is muted\<close>

text \<open>The bytes port B of the expander shows, in order: the data written to its register.\<close>

definition port_b :: "u8 \<Rightarrow> (u8 \<times> bytes) list \<Rightarrow> u8 list" where
  "port_b a log = map (\<lambda>(b, d). d ! 1) (filter (\<lambda>(b, d). b = a \<and> length d = 2 \<and> d ! 0 = GPIOB) log)"

lemma port_b_append [simp]: "port_b a (xs @ ys) = port_b a xs @ port_b a ys"
  by (simp add: port_b_def)

definition quiet_change :: "u8 \<Rightarrow> u8 \<Rightarrow> bool" where
  "quiet_change v w \<longleftrightarrow>
     (bit v RADIO_IN = bit w RADIO_IN \<and> bit v AUX_IN = bit w AUX_IN) \<or> (\<not> bit v MUTE \<and> \<not> bit w MUTE)"

definition port_inv :: "MainboardControl \<Rightarrow> bool" where
  "port_inv s \<longleftrightarrow>
     (let vs = port_b (mIO s) (bus_log (mb_I2C s)) in
      vs \<noteq> [] \<and> last vs = mMainBus s \<and> successively quiet_change vs)"

definition reliable :: "i2c_bus \<Rightarrow> bool" where
  "reliable bus \<longleftrightarrow> (\<forall>n. \<exists>f. bus n = Transferred f)"

lemma reliable_writeData:
  assumes "reliable bus" "data \<noteq> []" "0 \<le> retryCount"
  shows "\<exists>s'. writeData bus a data retryCount s = (Inr True, s') \<and> bus_log s' = bus_log s @ [(a, data)]"
proof -
  obtain f where "bus (bus_pos s) = Transferred f" using assms(1) unfolding reliable_def by blast
  with assms show ?thesis
    by (auto simp: writeData_def bool_result_def readWriteDataWithRetry_def retry_loop.simps [of bus]
        readWriteDataNoRetry_def Let_def)
qed

lemma put_bit_bit: "bit (put_bit i b w) j \<longleftrightarrow> (if i = j \<and> j < 8 then b else bit w j)"
  by (auto simp: put_bit_def bit_simps dest: bit_imp_le_length)

text \<open>One write to port B on a bus that works.\<close>

definition port_shows :: "MainboardControl \<Rightarrow> u8 \<Rightarrow> MainboardControl \<Rightarrow> bool" where
  "port_shows s v s' \<longleftrightarrow>
     mIO s' = mIO s \<and> mHwRevision s' = mHwRevision s \<and> mMainBus s' = v \<and>
     port_b (mIO s) (bus_log (mb_I2C s')) = port_b (mIO s) (bus_log (mb_I2C s)) @ [v]"

lemma reliable_writeB:
  assumes "reliable bus"
  shows "\<exists>s'. writeB bus (s\<lparr>mMainBus := v\<rparr>) = (Inr (), s') \<and> port_shows s v s'"
proof -
  obtain i where "writeData bus (mIO s) [GPIOB, v] DEFAULT_I2C_RETRY (mb_I2C s) = (Inr True, i)"
      "bus_log i = bus_log (mb_I2C s) @ [(mIO s, [GPIOB, v])]"
    using reliable_writeData [OF assms, of "[GPIOB, v]" DEFAULT_I2C_RETRY "mIO s" "mb_I2C s"]
    by (auto simp: DEFAULT_I2C_RETRY_def)
  then show ?thesis
    by (simp add: writeB_def on_bus_def IO_writeB_def port_shows_def port_b_def)
qed

lemma port_shows_inv:
  assumes "port_inv s" "port_shows s v s'" "quiet_change (mMainBus s) v"
  shows "port_inv s'"
  using assms by (auto simp: port_inv_def port_shows_def Let_def successively_append_iff)

lemma reliable_writeA:
  assumes "reliable bus" "port_inv s"
  shows "\<exists>s'. writeA bus (s\<lparr>mRelaisBus := v\<rparr>) = (Inr (), s') \<and> port_inv s'"
proof -
  obtain i where "writeData bus (mIO s) [GPIOA, v] DEFAULT_I2C_RETRY (mb_I2C s) = (Inr True, i)"
      "bus_log i = bus_log (mb_I2C s) @ [(mIO s, [GPIOA, v])]"
    using reliable_writeData [OF assms(1), of "[GPIOA, v]" DEFAULT_I2C_RETRY "mIO s" "mb_I2C s"]
    by (auto simp: DEFAULT_I2C_RETRY_def)
  with assms(2) show ?thesis
    by (simp add: writeA_def on_bus_def IO_writeA_def port_inv_def port_b_def GPIOA_def GPIOB_def)
qed

lemmas line_defs = MUTE_def RADIO_IN_def AUX_IN_def RADIO_RST_def WATCHDOG_def

lemma quiet_put:
  "i \<noteq> RADIO_IN \<Longrightarrow> i \<noteq> AUX_IN \<Longrightarrow> quiet_change v (put_bit i b v)"
  by (simp add: quiet_change_def put_bit_bit)

text \<open>Two writes of one line of the port, as the reset of the tuner and the watchdog pulse make them.\<close>

lemma reliable_pulse:
  assumes "reliable bus" "port_inv s" "i \<noteq> RADIO_IN" "i \<noteq> AUX_IN"
  shows "\<exists>s'. seq_io (writeB bus (s\<lparr>mMainBus := put_bit i False (mMainBus s)\<rparr>)) (\<lambda>s.
       writeB bus (s\<lparr>mMainBus := put_bit i True (mMainBus s)\<rparr>)) = (Inr (), s') \<and> port_inv s'"
proof -
  obtain s1 where s1: "writeB bus (s\<lparr>mMainBus := put_bit i False (mMainBus s)\<rparr>) = (Inr (), s1)"
      "port_shows s (put_bit i False (mMainBus s)) s1"
    using reliable_writeB [OF assms(1)] by blast
  have inv1: "port_inv s1" by (rule port_shows_inv [OF assms(2) s1(2) quiet_put [OF assms(3,4)]])
  obtain s2 where s2: "writeB bus (s1\<lparr>mMainBus := put_bit i True (mMainBus s1)\<rparr>) = (Inr (), s2)"
      "port_shows s1 (put_bit i True (mMainBus s1)) s2"
    using reliable_writeB [OF assms(1)] by blast
  with s1 port_shows_inv [OF inv1 s2(2) quiet_put [OF assms(3,4)]] show ?thesis by simp
qed

lemma reliable_mute:
  assumes "reliable bus" "port_inv s"
  shows "\<exists>s'. mute bus m s = (Inr (), s') \<and> port_inv s' \<and> mHwRevision s' = mHwRevision s \<and>
    (mHwRevision s \<noteq> 1 \<longrightarrow> port_shows s (put_bit MUTE (\<not> m) (mMainBus s)) s')"
proof (cases "mHwRevision s = 1")
  case True
  with assms show ?thesis by (simp add: mute_def)
next
  case False
  obtain s1 where "writeB bus (s\<lparr>mMainBus := put_bit MUTE (\<not> m) (mMainBus s)\<rparr>) = (Inr (), s1)"
      "port_shows s (put_bit MUTE (\<not> m) (mMainBus s)) s1"
    using reliable_writeB [OF assms(1)] by blast
  with False port_shows_inv [OF assms(2) _ quiet_put [of MUTE]] show ?thesis
    by (auto simp: mute_def line_defs port_shows_def)
qed

lemma reliable_select:
  assumes "reliable bus" "port_inv s" "mHwRevision s \<noteq> 1"
  shows "\<exists>s'. selectInput bus i s = (Inr (), s') \<and> port_inv s'"
proof -
  obtain s1 where s1: "mute bus True s = (Inr (), s1)" "port_inv s1" "port_shows s (put_bit MUTE False (mMainBus s)) s1"
    using reliable_mute [OF assms(1,2), of True] assms(3) by auto
  have m1: "\<not> bit (mMainBus s1) MUTE" using s1(3) by (simp add: port_shows_def put_bit_bit line_defs)
  let ?v2 = "put_bit AUX_IN True (put_bit RADIO_IN True (mMainBus s1))"
  obtain s2 where s2: "writeB bus (s1\<lparr>mMainBus := ?v2\<rparr>) = (Inr (), s2)" "port_shows s1 ?v2 s2"
    using reliable_writeB [OF assms(1)] by blast
  have inv2: "port_inv s2"
    using m1 by (intro port_shows_inv [OF s1(2) s2(2)]) (simp add: quiet_change_def put_bit_bit line_defs)
  let ?v3 = "put_bit AUX_IN (i = RadioIn) (put_bit RADIO_IN (i \<noteq> RadioIn) (mMainBus s2))"
  obtain s3 where s3: "writeB bus (s2\<lparr>mMainBus := ?v3\<rparr>) = (Inr (), s3)" "port_shows s2 ?v3 s3"
    using reliable_writeB [OF assms(1)] by blast
  have inv3: "port_inv s3"
    using m1 s2(2) by (intro port_shows_inv [OF inv2 s3(2)]) (simp add: quiet_change_def put_bit_bit line_defs port_shows_def)
  from reliable_mute [OF assms(1) inv3, of False] obtain s4 where "mute bus False s3 = (Inr (), s4)" "port_inv s4"
    by auto
  with assms(3) s1 s2 s3 show ?thesis by (auto simp: selectInput_def)
qed


lemma reliable_op:
  assumes "reliable bus" "port_inv s"
  shows "\<exists>s'. run_board_op bus op s = (Inr (), s') \<and> port_inv s'"
proof (cases op)
  case (OpKeys ki)
  then show ?thesis using reliable_writeA [OF assms] assms(2) by (auto simp: Mainboard_keyboardPressed_def)
next
  case (OpMute m)
  then show ?thesis using reliable_mute [OF assms] by auto
next
  case OpReset
  then show ?thesis using reliable_pulse [OF assms, of RADIO_RST] by (simp add: resetTuner_def line_defs)
next
  case (OpSelect i)
  then show ?thesis
    using reliable_select [OF assms, of i] assms(2) by (cases "mHwRevision s = 1") (auto simp: selectInput_def)
next
  case (OpSignal f)
  then show ?thesis using assms(2) by (simp add: signalWatchdog_def port_inv_def)
next
  case OpPass
  have "port_inv (feeder_tick s)" using assms(2) by (simp add: feeder_tick_def Let_def port_inv_def)
  with OpPass reliable_pulse [OF assms(1) this, of WATCHDOG] assms(2) show ?thesis
    by (auto simp: watchdogThread_pass_def Let_def line_defs)
qed

lemma reliable_run:
  "reliable bus \<Longrightarrow> port_inv s \<Longrightarrow> \<exists>s'. board_run bus ops s = (Inr (), s') \<and> port_inv s'"
proof (induction ops arbitrary: s)
  case (Cons op ops)
  obtain s1 where "run_board_op bus op s = (Inr (), s1)" "port_inv s1"
    using reliable_op [OF Cons.prems] by blast
  with Cons.IH [OF Cons.prems(1)] show ?case by simp
qed simp

lemma write_mIO [simp]: "mIO (snd (writeA bus s)) = mIO s" "mIO (snd (writeB bus s)) = mIO s"
  by (simp_all add: writeA_def writeB_def on_bus_def split_beta Let_def)

lemma op_mIO: "mIO (snd (run_board_op bus op s)) = mIO s"
  by (cases op) (simp_all add: Mainboard_keyboardPressed_def mute_def resetTuner_def selectInput_def
      watchdogThread_pass_def signalWatchdog_def feeder_tick_def Let_def seq_io_keeps [of mIO])

lemma run_mIO: "mIO (snd (board_run bus ops s)) = mIO s"
  by (induction ops arbitrary: s) (simp_all add: op_mIO seq_io_keeps [of mIO])

text \<open>The set-up of the expander does not touch the output register of port B.\<close>

lemma reliable_setup:
  assumes "reliable bus" "r \<noteq> GPIOB"
  shows "\<exists>i'. writeData bus a [r, v] DEFAULT_I2C_RETRY i = (Inr True, i') \<and> port_b a (bus_log i') = port_b a (bus_log i)"
  using reliable_writeData [OF assms(1), of "[r, v]" DEFAULT_I2C_RETRY a i] assms(2)
  by (auto simp: DEFAULT_I2C_RETRY_def port_b_def)

lemma reliable_direction:
  assumes "reliable bus"
  shows "\<exists>i'. IO_directionA bus a d i = (Inr True, i') \<and> port_b a (bus_log i') = port_b a (bus_log i)"
    and "\<exists>i'. IO_directionB bus a d i = (Inr True, i') \<and> port_b a (bus_log i') = port_b a (bus_log i)"
proof -
  have *: "\<exists>i'. seq_io (writeData bus a [r1, v] DEFAULT_I2C_RETRY i) (\<lambda>s1.
      seq_io (writeData bus a [r2, v] DEFAULT_I2C_RETRY s1) (\<lambda>s2. (Inr True, s2))) = (Inr True, i') \<and>
      port_b a (bus_log i') = port_b a (bus_log i)" if r: "r1 \<noteq> GPIOB" "r2 \<noteq> GPIOB" for r1 r2 v
  proof -
    obtain i1 where i1: "writeData bus a [r1, v] DEFAULT_I2C_RETRY i = (Inr True, i1)"
        "port_b a (bus_log i1) = port_b a (bus_log i)" using reliable_setup [OF assms r(1)] by blast
    obtain i2 where "writeData bus a [r2, v] DEFAULT_I2C_RETRY i1 = (Inr True, i2)"
        "port_b a (bus_log i2) = port_b a (bus_log i1)" using reliable_setup [OF assms r(2)] by blast
    with i1 show ?thesis by simp
  qed
  show "\<exists>i'. IO_directionA bus a d i = (Inr True, i') \<and> port_b a (bus_log i') = port_b a (bus_log i)"
    "\<exists>i'. IO_directionB bus a d i = (Inr True, i') \<and> port_b a (bus_log i') = port_b a (bus_log i)"
    unfolding IO_directionA_def IO_directionB_def Let_def
    by (rule *; simp add: DIRA_def DIRB_def GPPUA_def GPPUB_def GPIOB_def)+
qed

lemma reliable_IO_init:
  assumes "reliable bus"
  shows "\<exists>i'. IO_init bus a i = (Inr True, i') \<and> port_b a (bus_log i') = port_b a (bus_log i)"
proof -
  obtain i0 where i0: "writeData bus a [0x0A, 0x20] DEFAULT_I2C_RETRY i = (Inr True, i0)"
      "port_b a (bus_log i0) = port_b a (bus_log i)"
    using reliable_setup [OF assms, of "0x0A" a "0x20" i] by (auto simp: GPIOB_def)
  obtain i1 where i1: "IO_directionA bus a dirOut i0 = (Inr True, i1)" "port_b a (bus_log i1) = port_b a (bus_log i0)"
    using reliable_direction(1) [OF assms] by blast
  obtain i2 where "IO_directionB bus a dirOut i1 = (Inr True, i2)" "port_b a (bus_log i2) = port_b a (bus_log i1)"
    using reliable_direction(2) [OF assms] by blast
  with i0 i1 show ?thesis by (simp add: IO_init_def)
qed

lemma on_bus_eq: "f (mb_I2C s) = (Inr x, i) \<Longrightarrow> on_bus f s = (Inr (), s\<lparr>mb_I2C := i\<rparr>)"
  by (simp add: on_bus_def)

lemma reliable_new:
  assumes "reliable bus" "port_b address (bus_log i2c) = []"
  shows "\<exists>s. new_MainboardControl bus i2c hwrevision address en opened = (Inr (), s) \<and> port_inv s \<and> mIO s = address"
proof -
  define s0 where "s0 = \<lparr>mIO = address, mHwRevision = hwrevision, mWatchdogEnabled = en, mRelaisBus = 0,
               mMainBus = 0, mWatchdogFeeders = [], mWatchdogHandle = 0, mWatchdogThreadRunning = False,
               keepalives = 0, mb_I2C = i2c\<rparr>"
  have s0: "mIO s0 = address" "mb_I2C s0 = i2c" by (simp_all add: s0_def)
  obtain i1 where i1: "IO_init bus address (mb_I2C s0) = (Inr True, i1)" "port_b address (bus_log i1) = []"
    using reliable_IO_init [OF assms(1), of address i2c] assms(2) s0 by auto
  define s1 where "s1 = s0\<lparr>mb_I2C := i1\<rparr>"
  obtain i2 where i2: "IO_directionA bus address dirOut (mb_I2C s1) = (Inr True, i2)" "port_b address (bus_log i2) = []"
    using reliable_direction(1) [OF assms(1), of address dirOut i1] i1(2) by (auto simp: s1_def)
  define s2 where "s2 = s1\<lparr>mb_I2C := i2\<rparr>"
  obtain i3 where i3: "IO_directionB bus address dirOut (mb_I2C s2) = (Inr True, i3)" "port_b address (bus_log i3) = []"
    using reliable_direction(2) [OF assms(1), of address dirOut i2] i2(2) by (auto simp: s2_def)
  define s3 where "s3 = s2\<lparr>mb_I2C := i3\<rparr>"
  have m3: "mIO s1 = address" "mIO s2 = address" "mIO s3 = address" by (simp_all add: s1_def s2_def s3_def s0)
  obtain i4 where i4: "IO_writeA bus address (mRelaisBus s3) (mb_I2C s3) = (Inr True, i4)" "port_b address (bus_log i4) = []"
    using reliable_setup [OF assms(1), of GPIOA address "mRelaisBus s3" i3] i3(2)
    by (auto simp: IO_writeA_def GPIOA_def GPIOB_def s3_def)
  define s4 where "s4 = s3\<lparr>mb_I2C := i4\<rparr>"
  define v where "v = put_bit RADIO_RST True (put_bit AUX_IN False (put_bit RADIO_IN False (put_bit MUTE False (mMainBus s4))))"
  obtain s5 where s5: "writeB bus (s4\<lparr>mMainBus := v\<rparr>) = (Inr (), s5)" "port_shows s4 v s5"
    using reliable_writeB [OF assms(1)] by blast
  have m4: "mIO s4 = address" "mb_I2C s4 = i4" by (simp_all add: s4_def m3)
  have inv: "port_inv s5" "mIO s5 = address"
    using s5(2) i4(2) m4 by (simp_all add: port_shows_def port_inv_def Let_def)
  have init: "board_init bus opened s1 = (Inr (), if mWatchdogEnabled s5
      then s5\<lparr>mWatchdogHandle := (if opened < 0 then 0 else opened)\<rparr> else s5)"
    unfolding board_init_def writeA_def m3(1) on_bus_eq [of "IO_directionA bus address dirOut", OF i2(1)] seq_io_simps s2_def [symmetric]
      m3(2) on_bus_eq [of "IO_directionB bus address dirOut", OF i3(1)] s3_def [symmetric] m3(3) on_bus_eq [of "IO_writeA bus address (mRelaisBus s3)", OF i4(1)] s4_def [symmetric]
      v_def [symmetric] s5(1) ..
  show ?thesis
    using inv unfolding new_MainboardControl_def Let_def s0_def [symmetric] on_bus_eq [of "IO_init bus address", OF i1(1)] seq_io_simps
      s1_def [symmetric] init by (simp add: port_inv_def Let_def)
qed

text \<open>
  C24. From the construction of the board on, on a bus that works, whatever sequence of key events,
  mute and input selections, tuner resets and watchdog passes follows: no operation fails, the port
  of the expander shows the value the program keeps, and whenever two successive values of the port
  differ in the lines that select the audio input, the sound is muted in both.
\<close>

theorem input_switched_while_muted:
  assumes "reliable bus" and "port_b address (bus_log i2c) = []"
  shows "\<exists>s s'. new_MainboardControl bus i2c hwrevision address en opened = (Inr (), s) \<and>
     board_run bus ops s = (Inr (), s') \<and>
     (let vs = port_b address (bus_log (mb_I2C s')) in
        vs \<noteq> [] \<and> last vs = mMainBus s' \<and>
        (\<forall>k. Suc k < length vs \<and>
           (bit (vs ! k) RADIO_IN \<noteq> bit (vs ! Suc k) RADIO_IN \<or> bit (vs ! k) AUX_IN \<noteq> bit (vs ! Suc k) AUX_IN) \<longrightarrow>
           \<not> bit (vs ! k) MUTE \<and> \<not> bit (vs ! Suc k) MUTE))"
proof -
  obtain s where s: "new_MainboardControl bus i2c hwrevision address en opened = (Inr (), s)" "port_inv s" "mIO s = address"
    using reliable_new [OF assms] by blast
  obtain s' where s': "board_run bus ops s = (Inr (), s')" "port_inv s'"
    using reliable_run [OF assms(1) s(2)] by blast
  have "mIO s' = address" using run_mIO [of bus ops s] s' s(3) by simp
  with s s' show ?thesis
    by (auto simp: port_inv_def Let_def successively_conv_nth quiet_change_def)
qed

section \<open>An example\<close>

definition ok_bus :: i2c_bus where
  "ok_bus n = Transferred (\<lambda>_. 0)"

lemma reliable_ok_bus: "reliable ok_bus"
  by (simp add: reliable_def ok_bus_def)

definition ex_board :: MainboardControl where
  "ex_board = \<lparr>mIO = 0x20, mHwRevision = 2, mWatchdogEnabled = True, mRelaisBus = 0, mMainBus = 8,
     mWatchdogFeeders = [(7, \<lparr>mPromiseTimeout = 1000, mCurrentTimeout = 1000\<rparr>)], mWatchdogHandle = 5,
     mWatchdogThreadRunning = True, keepalives = 0,
     mb_I2C = (the (new_I2C True))\<lparr>bus_log := [(0x20, [GPIOB, 8])]\<rparr>\<rparr>"

theorem watchdog_fed_iff_promises_kept_witness:
  "\<exists>s'. board_run ok_bus [OpPass, OpSignal 7, OpPass, OpPass] ex_board = (Inr (), s') \<and>
     mWatchdogThreadRunning s' \<and> keepalives s' = 3"
proof -
  have "port_inv ex_board" by (simp add: port_inv_def ex_board_def port_b_def Let_def)
  then obtain s' where s': "board_run ok_bus [OpPass, OpSignal 7, OpPass, OpPass] ex_board = (Inr (), s')"
    using reliable_run [OF reliable_ok_bus] by blast
  have "\<forall>k \<le> 4. 500 * int (silent 7 (take k [OpPass, OpSignal 7, OpPass, OpPass])) \<le> 1000"
    by (auto simp: silent_def take_Cons' le_Suc_eq eval_nat_numeral)
  with watchdog_fed_iff_promises_kept [OF s'] have "mWatchdogThreadRunning s' \<and> keepalives s' = 3"
    by (simp add: ex_board_def passes_def)
  with s' show ?thesis by blast
qed

theorem input_switched_while_muted_witness:
  "\<exists>s s'. new_MainboardControl ok_bus (the (new_I2C True)) 2 0x20 True 5 = (Inr (), s) \<and>
     board_run ok_bus [OpMute False, OpSelect Auxin, OpPass, OpSelect RadioIn] s = (Inr (), s')"
  using input_switched_while_muted [OF reliable_ok_bus, of "0x20" "the (new_I2C True)" 2 True 5
      "[OpMute False, OpSelect Auxin, OpPass, OpSelect RadioIn]"]
  by (auto simp: new_I2C_def port_b_def)

end
