(* ===== verification/Lcd_Display.thy ===== *)
theory Lcd_Display
  imports Mainboard Clock_Display
begin

text \<open>
  The graphic display on the port expander (\<open>rgbclock/RgbLib/src/lib/LCDisplay.cpp\<close>,
  \<open>LCDisplay.h\<close>): the frame buffer of 32 rows of ten 16-bit words with a mark on the words that
  changed, the drawing of points, lines, rectangles and text in it, and the transfer of the marked
  words over port A (the byte) and port B (RS, RW and the strobe E) of the expander. The contents of
  the two font tables of \<open>Fonts.h\<close> are a field of the object, so that what is shown holds for every
  font; a read past the end of a table is undefined in C++ and an error here.
\<close>

section \<open>State\<close>

record MyGraphicWord =
  mBits :: u16
  mChanged :: bool

type_synonym graphic_ram = "MyGraphicWord list list"

record FontInfo =
  mWidth :: u8
  mHeight :: u8
  mSpacing :: u8
  mPointer :: bytes

record LCDisplay =
  lcd_IO :: u8
  mPortA :: u8
  mControlBus :: u8
  mGraphicRam :: graphic_ram
  mFontMap :: "FontType \<Rightarrow> FontInfo"
  lcd_I2C :: I2C

datatype lcd_error = BusError i2c_exception | FontOverrun

type_synonym 'a lcd_op = "LCDisplay \<Rightarrow> (lcd_error + 'a) \<times> LCDisplay"

definition RS :: nat where "RS = 0"
definition RW :: nat where "RW = 1"
definition E_line :: nat where "E_line = 2"

section \<open>Drawing in the frame buffer\<close>

definition rawPoint :: "u8 \<Rightarrow> u8 \<Rightarrow> bool \<Rightarrow> graphic_ram \<Rightarrow> graphic_ram" where
  "rawPoint col row b ram =
     (if col > 159 \<or> row > 31 then ram
      else let quot = unat col div 16; myCol = 15 - unat col mod 16;
               w = ram ! unat row ! quot
           in if bit (mBits w) myCol \<noteq> b
              then ram[unat row := (ram ! unat row)[quot :=
                     w\<lparr>mBits := (if b then set_bit myCol (mBits w) else unset_bit myCol (mBits w)),
                       mChanged := True\<rparr>]]
              else ram)"

text \<open>The loop of \<open>rawVertByte\<close>: the row is a reference that moves down with every bit.\<close>

function vert_loop :: "u8 \<Rightarrow> u8 \<Rightarrow> u8 \<Rightarrow> nat \<Rightarrow> u8 \<Rightarrow> u8 \<Rightarrow> graphic_ram \<Rightarrow> u8 \<times> graphic_ram" where
  "vert_loop col maxRemainingRows byte i bitMask row ram =
     (if i < 8 \<and> i < unat maxRemainingRows
      then vert_loop col maxRemainingRows byte (i + 1) (push_bit 1 bitMask) (row + 1)
             (rawPoint col row (byte AND bitMask \<noteq> 0) ram)
      else (row, ram))"
  by pat_completeness auto
termination by (relation "measure (\<lambda>(col, m, byte, i, bm, row, ram). 8 - i)") auto

declare vert_loop.simps [simp del]

definition rawVertByte :: "u8 \<Rightarrow> u8 \<Rightarrow> u8 \<Rightarrow> u8 \<Rightarrow> graphic_ram \<Rightarrow> u8 \<times> graphic_ram" where
  "rawVertByte col row maxRemainingRows byte ram = vert_loop col maxRemainingRows byte 0 0x01 row ram"

definition rawHLine :: "u8 \<Rightarrow> u8 \<Rightarrow> u8 \<Rightarrow> bool \<Rightarrow> graphic_ram \<Rightarrow> graphic_ram" where
  "rawHLine col1 col2 row b = fold (\<lambda>i. rawPoint (of_nat i) row b) [unat col1..<Suc (unat col2)]"

definition rawVLine :: "u8 \<Rightarrow> u8 \<Rightarrow> u8 \<Rightarrow> bool \<Rightarrow> graphic_ram \<Rightarrow> graphic_ram" where
  "rawVLine col row1 row2 b = fold (\<lambda>i. rawPoint col (of_nat i) b) [unat row1..<Suc (unat row2)]"

definition bytesPerCharCol :: "FontInfo \<Rightarrow> nat" where
  "bytesPerCharCol f = unat (mHeight f) div 8 + (if unat (mHeight f) mod 8 > 0 then 1 else 0)"

definition arrayOffset :: "FontInfo \<Rightarrow> u8 \<Rightarrow> int" where
  "arrayOffset f character =
     (int (unat (mWidth f)) * int (bytesPerCharCol f) + 1) * (uint character - 32) + 1"

definition font_byte :: "FontInfo \<Rightarrow> u8 \<Rightarrow> nat \<Rightarrow> nat \<Rightarrow> u8 option" where
  "font_byte f character charCol byteNr =
     (let arrayPos = (word_of_int (arrayOffset f character) :: u16)
                       + of_nat (charCol * bytesPerCharCol f + byteNr)
      in if unat arrayPos < length (mPointer f) then Some (mPointer f ! unat arrayPos) else None)"

primrec char_column ::
  "FontInfo \<Rightarrow> u8 \<Rightarrow> u8 \<Rightarrow> u8 \<Rightarrow> nat \<Rightarrow> nat list \<Rightarrow> u8 \<Rightarrow> graphic_ram \<Rightarrow> graphic_ram option" where
  "char_column f col row character charCol [] myRow ram = Some ram"
| "char_column f col row character charCol (byteNr # bs) myRow ram =
     (case font_byte f character charCol byteNr of
        None \<Rightarrow> None
      | Some byte \<Rightarrow>
          let myCol = col + of_nat charCol;
              maxRemainingRows = mHeight f - (myRow - row);
              (myRow', ram') = rawVertByte myCol myRow maxRemainingRows byte ram
          in char_column f col row character charCol bs myRow' ram')"

primrec char_columns ::
  "FontInfo \<Rightarrow> u8 \<Rightarrow> u8 \<Rightarrow> u8 \<Rightarrow> nat list \<Rightarrow> graphic_ram \<Rightarrow> graphic_ram option" where
  "char_columns f col row character [] ram = Some ram"
| "char_columns f col row character (charCol # cs) ram =
     Option.bind (char_column f col row character charCol [0..<bytesPerCharCol f] row ram)
       (char_columns f col row character cs)"

definition rawGraphicChar ::
  "FontInfo \<Rightarrow> u8 \<Rightarrow> u8 \<Rightarrow> u8 \<Rightarrow> graphic_ram \<Rightarrow> graphic_ram option" where
  "rawGraphicChar f col row character ram = char_columns f col row character [0..<unat (mWidth f)] ram"

text \<open>The loop of \<open>writeGraphicText\<close>: the column wraps at 256.\<close>

primrec draw_text :: "FontInfo \<Rightarrow> u8 \<Rightarrow> u8 \<Rightarrow> string \<Rightarrow> graphic_ram \<Rightarrow> graphic_ram option" where
  "draw_text f myCol row [] ram = Some ram"
| "draw_text f myCol row (myChar # text) ram =
     Option.bind (rawGraphicChar f myCol row (of_char myChar) ram)
       (draw_text f (myCol + mSpacing f) row text)"

section \<open>The bus of the display\<close>

definition lcd_bus :: "'a io \<Rightarrow> 'a lcd_op" where
  "lcd_bus f s = (let (r, i) = f (lcd_I2C s) in (map_sum BusError id r, s\<lparr>lcd_I2C := i\<rparr>))"

definition setRSRWBits :: "i2c_bus \<Rightarrow> bool \<Rightarrow> bool \<Rightarrow> unit lcd_op" where
  "setRSRWBits bus wantedRS wantedRW s =
     (if bit (mControlBus s) RS \<noteq> wantedRS \<or> bit (mControlBus s) RW \<noteq> wantedRW
      then let s = s\<lparr>mControlBus := put_bit RW wantedRW (put_bit RS wantedRS (mControlBus s))\<rparr>
           in seq_io (lcd_bus (IO_writeB bus (lcd_IO s) (mControlBus s)) s) (Pair (Inr ()))
      else (Inr (), s))"

definition strobe :: "i2c_bus \<Rightarrow> unit lcd_op" where
  "strobe bus s =
     (let s = s\<lparr>mControlBus := flip_bit E_line (mControlBus s)\<rparr>
      in seq_io (lcd_bus (IO_writeB bus (lcd_IO s) (mControlBus s)) s) (Pair (Inr ())))"

definition LCD_writeData :: "i2c_bus \<Rightarrow> u8 \<Rightarrow> unit lcd_op" where
  "LCD_writeData bus byte s =
     seq_io (setRSRWBits bus True False s) (\<lambda>s.
     seq_io (lcd_bus (IO_writeA bus (lcd_IO s) byte) s) (strobe bus))"

definition writeControl :: "i2c_bus \<Rightarrow> u8 \<Rightarrow> unit lcd_op" where
  "writeControl bus byte s =
     seq_io (setRSRWBits bus False False s) (\<lambda>s.
     seq_io (lcd_bus (IO_writeA bus (lcd_IO s) byte) s) (strobe bus))"

definition readControl :: "i2c_bus \<Rightarrow> u8 lcd_op" where
  "readControl bus s =
     seq_io (lcd_bus (IO_directionA bus (lcd_IO s) dirIn) s) (\<lambda>s.
     seq_io (setRSRWBits bus False True s) (\<lambda>s.
     seq_io (strobe bus s) (\<lambda>s.
     bind_io (lcd_bus (IO_readA bus (lcd_IO s)) s) (\<lambda>(r, byte) s.
     seq_io (setRSRWBits bus False False s) (\<lambda>s.
     seq_io (lcd_bus (IO_directionA bus (lcd_IO s) dirOut) s) (Pair (Inr byte)))))))"

definition LCD_readData :: "i2c_bus \<Rightarrow> u8 lcd_op" where
  "LCD_readData bus s =
     seq_io (lcd_bus (IO_directionA bus (lcd_IO s) dirIn) s) (\<lambda>s.
     seq_io (setRSRWBits bus True True s) (\<lambda>s.
     seq_io (strobe bus s) (\<lambda>s.
     bind_io (lcd_bus (IO_readA bus (lcd_IO s)) s) (\<lambda>(r, byte) s.
     seq_io (setRSRWBits bus True False s) (\<lambda>s.
     seq_io (lcd_bus (IO_writeB bus (lcd_IO s) (mControlBus s)) s) (\<lambda>s.
     seq_io (lcd_bus (IO_directionA bus (lcd_IO s) dirOut) s) (Pair (Inr byte))))))))"

definition setDDRamAddress :: "i2c_bus \<Rightarrow> u8 \<Rightarrow> unit lcd_op" where
  "setDDRamAddress bus addr = writeControl bus (0x80 OR addr)"

definition setGAddress :: "i2c_bus \<Rightarrow> u8 \<Rightarrow> u8 \<Rightarrow> unit lcd_op" where
  "setGAddress bus vertical horizontal s =
     seq_io (writeControl bus (0x80 OR vertical) s) (writeControl bus (0x80 OR horizontal))"

definition clear_changed :: "nat \<Rightarrow> nat \<Rightarrow> LCDisplay \<Rightarrow> LCDisplay" where
  "clear_changed vert horz s =
     s\<lparr>mGraphicRam := (mGraphicRam s)[vert := (mGraphicRam s ! vert)[horz :=
         (mGraphicRam s ! vert ! horz)\<lparr>mChanged := False\<rparr>]]\<rparr>"

primrec refresh_row :: "i2c_bus \<Rightarrow> nat \<Rightarrow> nat list \<Rightarrow> int \<Rightarrow> unit lcd_op" where
  "refresh_row bus vert [] prevHorz s = (Inr (), s)"
| "refresh_row bus vert (horz # hs) prevHorz s =
     (if mChanged (mGraphicRam s ! vert ! horz)
      then seq_io (if \<not> prevHorz = int horz - 1 then setGAddress bus (of_nat vert) (of_nat horz) s else (Inr (), s)) (\<lambda>s.
           seq_io (LCD_writeData bus (ucast (drop_bit 8 (mBits (mGraphicRam s ! vert ! horz)) AND 0xFF)) s) (\<lambda>s.
           seq_io (LCD_writeData bus (ucast (mBits (mGraphicRam s ! vert ! horz) AND 0xFF)) s) (\<lambda>s.
             refresh_row bus vert hs (int horz) (clear_changed vert horz s))))
      else refresh_row bus vert hs prevHorz s)"

primrec refresh_rows :: "i2c_bus \<Rightarrow> nat list \<Rightarrow> unit lcd_op" where
  "refresh_rows bus [] s = (Inr (), s)"
| "refresh_rows bus (vert # vs) s = seq_io (refresh_row bus vert [0..<10] (- 2) s) (refresh_rows bus vs)"

definition refreshDisplay :: "i2c_bus \<Rightarrow> unit lcd_op" where
  "refreshDisplay bus = refresh_rows bus [0..<32]"

section \<open>The operations of the display\<close>

definition draw :: "i2c_bus \<Rightarrow> (graphic_ram \<Rightarrow> graphic_ram) \<Rightarrow> unit lcd_op" where
  "draw bus f s = refreshDisplay bus (s\<lparr>mGraphicRam := f (mGraphicRam s)\<rparr>)"

definition clearStandardDisplay :: "i2c_bus \<Rightarrow> unit lcd_op" where
  "clearStandardDisplay bus = writeControl bus 0x01"

definition initGraphic :: "i2c_bus \<Rightarrow> unit lcd_op" where
  "initGraphic bus s = seq_io (writeControl bus 0x34 s) (writeControl bus 0x36)"

definition clearGraphicDisplay :: "i2c_bus \<Rightarrow> unit lcd_op" where
  "clearGraphicDisplay bus = draw bus (map (map (\<lambda>w. w\<lparr>mBits := 0, mChanged := True\<rparr>)))"

primrec write_chars :: "i2c_bus \<Rightarrow> string \<Rightarrow> unit lcd_op" where
  "write_chars bus [] s = (Inr (), s)"
| "write_chars bus (c # text) s = seq_io (LCD_writeData bus (of_char c) s) (write_chars bus text)"

definition writeText :: "i2c_bus \<Rightarrow> u8 \<Rightarrow> string \<Rightarrow> unit lcd_op" where
  "writeText bus pos text s =
     seq_io (writeControl bus 0x06 s) (\<lambda>s.
     seq_io (setDDRamAddress bus pos s) (write_chars bus text))"

definition writeGraphicText :: "i2c_bus \<Rightarrow> u8 \<Rightarrow> u8 \<Rightarrow> string \<Rightarrow> FontType \<Rightarrow> bool lcd_op" where
  "writeGraphicText bus col row text font s =
     (case draw_text (mFontMap s font) col row text (mGraphicRam s) of
        None \<Rightarrow> (Inl FontOverrun, s)
      | Some ram \<Rightarrow> seq_io (refreshDisplay bus (s\<lparr>mGraphicRam := ram\<rparr>)) (Pair (Inr True)))"

definition point :: "i2c_bus \<Rightarrow> u8 \<Rightarrow> u8 \<Rightarrow> bool \<Rightarrow> unit lcd_op" where
  "point bus x y b = draw bus (rawPoint x y b)"

definition hLine :: "i2c_bus \<Rightarrow> u8 \<Rightarrow> u8 \<Rightarrow> u8 \<Rightarrow> bool \<Rightarrow> unit lcd_op" where
  "hLine bus col1 col2 row b = draw bus (rawHLine col1 col2 row b)"

definition vLine :: "i2c_bus \<Rightarrow> u8 \<Rightarrow> u8 \<Rightarrow> u8 \<Rightarrow> bool \<Rightarrow> unit lcd_op" where
  "vLine bus col row1 row2 b = draw bus (rawVLine col row1 row2 b)"

definition rawRectangle ::
  "u8 \<Rightarrow> u8 \<Rightarrow> u8 \<Rightarrow> u8 \<Rightarrow> bool \<Rightarrow> bool \<Rightarrow> graphic_ram \<Rightarrow> graphic_ram" where
  "rawRectangle col1 row1 col2 row2 b fill =
     (if fill then fold (\<lambda>row. rawHLine col1 col2 (of_nat row) b) [unat row1..<Suc (unat row2)]
      else rawVLine col2 row1 row2 b \<circ> rawVLine col1 row1 row2 b \<circ>
           rawHLine col1 col2 row2 b \<circ> rawHLine col1 col2 row1 b)"

definition rectangle :: "i2c_bus \<Rightarrow> u8 \<Rightarrow> u8 \<Rightarrow> u8 \<Rightarrow> u8 \<Rightarrow> bool \<Rightarrow> bool \<Rightarrow> unit lcd_op" where
  "rectangle bus col1 row1 col2 row2 b fill = draw bus (rawRectangle col1 row1 col2 row2 b fill)"

definition LCD_drawSignal :: "i2c_bus \<Rightarrow> 8 word \<Rightarrow> unit lcd_op" where
  "LCD_drawSignal bus signal =
     draw bus (rawPoint 159 3 (sint signal \<ge> 0) \<circ> rawHLine (159 - 1) 159 2 (sint signal \<ge> 25) \<circ>
               rawHLine (159 - 2) 159 1 (sint signal \<ge> 50) \<circ> rawHLine (159 - 3) 159 0 (sint signal \<ge> 75))"

definition LCD_drawNTPState :: "i2c_bus \<Rightarrow> bool \<Rightarrow> unit lcd_op" where
  "LCD_drawNTPState bus ntpSync =
     (if ntpSync
      then draw bus (rawPoint 154 0 True \<circ> rawPoint 153 1 True \<circ> rawPoint 152 2 True \<circ>
                     rawPoint 151 3 True \<circ> rawPoint 150 2 True)
      else rectangle bus 150 0 155 3 False True)"

definition LCD_init :: "i2c_bus \<Rightarrow> unit lcd_op" where
  "LCD_init bus s =
     seq_io (writeControl bus 0x30 s) (\<lambda>s.
     seq_io (writeControl bus 0x30 s) (\<lambda>s.
     seq_io (writeControl bus 0x0C s) (\<lambda>s.
     seq_io (writeControl bus 0x02 s) (\<lambda>s.
     seq_io (clearStandardDisplay bus s) (writeControl bus 0x06)))))"

text \<open>
  The constructor. The array of the frame buffer is value-initialised; the two font tables are
  \<open>VerdanaBold32x27\<close> and \<open>Terminal6x8\<close>.
\<close>

definition new_LCDisplay ::
  "i2c_bus \<Rightarrow> bytes \<Rightarrow> bytes \<Rightarrow> I2C \<Rightarrow> u8 \<Rightarrow> (lcd_error + unit) \<times> LCDisplay" where
  "new_LCDisplay bus verdana terminal i2c address =
     (let s = \<lparr>lcd_IO = address, mPortA = 0, mControlBus = 0,
               mGraphicRam = replicate 32 (replicate 10 \<lparr>mBits = 0, mChanged = False\<rparr>),
               mFontMap = (\<lambda>f. case f of
                   Verdana20 \<Rightarrow> \<lparr>mWidth = 32, mHeight = 25, mSpacing = 22, mPointer = verdana\<rparr>
                 | Terminal8 \<Rightarrow> \<lparr>mWidth = 6, mHeight = 8, mSpacing = 6, mPointer = terminal\<rparr>),
               lcd_I2C = i2c\<rparr>
      in seq_io (lcd_bus (IO_init bus address) s) (\<lambda>s.
           LCD_init bus (s\<lparr>lcd_I2C := registerAddress address ''Display'' (lcd_I2C s)\<rparr>)))"

section \<open>The picture in the frame buffer\<close>

type_synonym picture = "u8 \<Rightarrow> u8 \<Rightarrow> bool"

definition wf_ram :: "graphic_ram \<Rightarrow> bool" where
  "wf_ram ram \<longleftrightarrow> length ram = 32 \<and> (\<forall>r\<in>set ram. length r = 10)"

definition pixel :: "graphic_ram \<Rightarrow> picture" where
  "pixel ram x y = bit (mBits (ram ! unat y ! (unat x div 16))) (15 - unat x mod 16)"

definition agrees :: "graphic_ram \<Rightarrow> picture \<Rightarrow> bool" where
  "agrees ram p \<longleftrightarrow> wf_ram ram \<and> (\<forall>x\<le>159. \<forall>y\<le>31. pixel ram x y = p x y)"

definition paint_point :: "u8 \<Rightarrow> u8 \<Rightarrow> bool \<Rightarrow> picture \<Rightarrow> picture" where
  "paint_point col row b p = (\<lambda>x y. if x = col \<and> y = row then b else p x y)"

lemma wf_ram_word: "wf_ram ram \<Longrightarrow> r < 32 \<Longrightarrow> length (ram ! r) = 10"
  by (simp add: wf_ram_def)

lemma wf_ram_update:
  "wf_ram ram \<Longrightarrow> wf_ram (ram[r := (ram ! r)[q := w]])"
  by (cases "r < length ram")
    (auto simp: wf_ram_def list_update_beyond dest: set_update_subset_insert [THEN subsetD])

lemma wf_rawPoint [wf_intros]: "wf_ram ram \<Longrightarrow> wf_ram (rawPoint col row b ram)"
  by (simp add: rawPoint_def Let_def wf_ram_update)

lemma le_159: "(x::u8) \<le> 159 \<longleftrightarrow> unat x < 160" and le_31: "(x::u8) \<le> 31 \<longleftrightarrow> unat x < 32"
  by (auto simp: word_le_nat_alt)

lemma word_update_nth:
  assumes "wf_ram ram" "r < 32" "q < 10" "r' < 32" "q' < 10"
  shows "ram[r := (ram ! r)[q := w]] ! r' ! q' = (if r' = r \<and> q' = q then w else ram ! r' ! q')"
  using assms wf_ram_word [OF assms(1), of r] by (auto simp: wf_ram_def nth_list_update)

lemma pixel_rawPoint:
  assumes "wf_ram ram" "x \<le> 159" "y \<le> 31"
  shows "pixel (rawPoint col row b ram) x y = paint_point col row b (pixel ram) x y"
proof (cases "col > 159 \<or> row > 31")
  case True
  then show ?thesis using assms by (auto simp: rawPoint_def paint_point_def)
next
  case False
  then have lt: "unat col div 16 < 10" "unat row < 32" "unat x div 16 < 10" "unat y < 32"
    using assms(2,3) by (auto simp: not_less le_159 le_31 less_mult_imp_div_less)
  have same: "x = col \<longleftrightarrow> unat x div 16 = unat col div 16 \<and> 15 - unat x mod 16 = 15 - unat col mod 16"
  proof
    assume *: "unat x div 16 = unat col div 16 \<and> 15 - unat x mod 16 = 15 - unat col mod 16"
    have "unat x mod 16 < 16" "unat col mod 16 < 16" by simp_all
    with * have "unat x mod 16 = unat col mod 16" by linarith
    with * have "unat x = unat col" by (metis div_mult_mod_eq)
    then show "x = col" by (simp add: word_unat_eq_iff)
  qed simp
  have row: "y = row \<longleftrightarrow> unat y = unat row" by (simp add: word_unat_eq_iff)
  show ?thesis
    using False same row lt
    by (auto simp: rawPoint_def Let_def pixel_def paint_point_def word_update_nth [OF assms(1)] bit_simps)
qed

lemma agrees_rawPoint: "agrees ram p \<Longrightarrow> agrees (rawPoint col row b ram) (paint_point col row b p)"
  by (auto simp: agrees_def wf_rawPoint pixel_rawPoint paint_point_def)

lemma agrees_cong: "agrees ram p \<Longrightarrow> (\<And>x y. x \<le> 159 \<Longrightarrow> y \<le> 31 \<Longrightarrow> p x y = q x y) \<Longrightarrow> agrees ram q"
  by (simp add: agrees_def)

section \<open>Lines and rectangles\<close>

definition paint_box :: "u8 \<Rightarrow> u8 \<Rightarrow> u8 \<Rightarrow> u8 \<Rightarrow> bool \<Rightarrow> picture \<Rightarrow> picture" where
  "paint_box col1 row1 col2 row2 b p =
     (\<lambda>x y. if col1 \<le> x \<and> x \<le> col2 \<and> row1 \<le> y \<and> y \<le> row2 then b else p x y)"

lemma agrees_fold_points:
  assumes "agrees ram p"
  shows "agrees (fold (\<lambda>i. rawPoint (cx i) (cy i) (v i)) is ram)
           (fold (\<lambda>i. paint_point (cx i) (cy i) (v i)) is p)"
  using assms by (induction "is" arbitrary: ram p) (auto intro: agrees_rawPoint)

lemma fold_paint:
  "fold (\<lambda>i. paint_point (cx i) (cy i) b) is p =
     (\<lambda>x y. if \<exists>i\<in>set is. x = cx i \<and> y = cy i then b else p x y)"
  by (induction "is" arbitrary: p) (auto simp: paint_point_def fun_eq_iff)

lemma u8_between:
  "(\<exists>i\<in>{unat a..<Suc (unat b)}. x = (of_nat i :: u8)) \<longleftrightarrow> a \<le> x \<and> x \<le> b"
proof
  assume "\<exists>i\<in>{unat a..<Suc (unat b)}. x = (of_nat i :: u8)"
  then obtain i where i: "unat a \<le> i" "i \<le> unat b" "x = of_nat i" by auto
  have "unat b < 256" using unsigned_less [of b] by simp
  then have "i < 256" using i(2) by linarith
  then have "unat x = i" using i(3) by (simp add: unat_of_nat take_bit_nat_eq_self)
  then show "a \<le> x \<and> x \<le> b" using i by (simp add: word_le_nat_alt)
next
  assume "a \<le> x \<and> x \<le> b"
  then show "\<exists>i\<in>{unat a..<Suc (unat b)}. x = (of_nat i :: u8)"
    by (intro bexI [of _ "unat x"]) (auto simp: word_le_nat_alt)
qed

lemma agrees_rawHLine:
  assumes "agrees ram p"
  shows "agrees (rawHLine col1 col2 row b ram) (paint_box col1 row col2 row b p)"
proof (rule agrees_cong)
  show "agrees (rawHLine col1 col2 row b ram)
      (fold (\<lambda>i. paint_point (of_nat i) row b) [unat col1..<Suc (unat col2)] p)"
    unfolding rawHLine_def by (rule agrees_fold_points [OF assms])
  show "fold (\<lambda>i. paint_point (of_nat i) row b) [unat col1..<Suc (unat col2)] p x y =
      paint_box col1 row col2 row b p x y" for x y
    by (auto simp: fold_paint bex_simps u8_between paint_box_def simp del: atLeastLessThan_iff upt_Suc)
qed

lemma agrees_rawVLine:
  assumes "agrees ram p"
  shows "agrees (rawVLine col row1 row2 b ram) (paint_box col row1 col row2 b p)"
proof (rule agrees_cong)
  show "agrees (rawVLine col row1 row2 b ram)
      (fold (\<lambda>i. paint_point col (of_nat i) b) [unat row1..<Suc (unat row2)] p)"
    unfolding rawVLine_def by (rule agrees_fold_points [OF assms])
  show "fold (\<lambda>i. paint_point col (of_nat i) b) [unat row1..<Suc (unat row2)] p x y =
      paint_box col row1 col row2 b p x y" for x y
    by (auto simp: fold_paint conj_commute [of "x = col"] bex_simps u8_between paint_box_def
        simp del: atLeastLessThan_iff upt_Suc)
qed

lemma agrees_fold_lines:
  assumes "agrees ram p"
  shows "agrees (fold (\<lambda>row. rawHLine col1 col2 (of_nat row) b) rows ram)
           (\<lambda>x y. if col1 \<le> x \<and> x \<le> col2 \<and> (\<exists>row\<in>set rows. y = of_nat row) then b else p x y)"
  using assms
proof (induction rows arbitrary: ram p)
  case (Cons r rows)
  show ?case
    by (simp, rule agrees_cong [OF Cons.IH [OF agrees_rawHLine [OF Cons.prems, of col1 col2 "of_nat r" b]]])
      (auto simp: paint_box_def)
qed simp

definition paint_rectangle :: "u8 \<Rightarrow> u8 \<Rightarrow> u8 \<Rightarrow> u8 \<Rightarrow> bool \<Rightarrow> bool \<Rightarrow> picture \<Rightarrow> picture" where
  "paint_rectangle col1 row1 col2 row2 b fill p =
     (if fill then paint_box col1 row1 col2 row2 b p
      else (\<lambda>x y. if (col1 \<le> x \<and> x \<le> col2 \<and> (y = row1 \<or> y = row2)) \<or>
                     (row1 \<le> y \<and> y \<le> row2 \<and> (x = col1 \<or> x = col2)) then b else p x y))"

lemma agrees_rawRectangle:
  assumes "agrees ram p"
  shows "agrees (rawRectangle col1 row1 col2 row2 b fill ram) (paint_rectangle col1 row1 col2 row2 b fill p)"
proof (cases fill)
  case True
  have "agrees (rawRectangle col1 row1 col2 row2 b True ram) (\<lambda>x y. if col1 \<le> x \<and> x \<le> col2 \<and>
      (\<exists>row\<in>{unat row1..<Suc (unat row2)}. y = of_nat row) then b else p x y)"
    using agrees_fold_lines [OF assms, of col1 col2 b "[unat row1..<Suc (unat row2)]"]
    by (simp only: rawRectangle_def if_True set_upt)
  then show ?thesis
    using True unfolding u8_between by (simp add: paint_rectangle_def paint_box_def)
next
  case False
  have "agrees (rawRectangle col1 row1 col2 row2 b False ram)
      (paint_box col2 row1 col2 row2 b (paint_box col1 row1 col1 row2 b
        (paint_box col1 row2 col2 row2 b (paint_box col1 row1 col2 row1 b p))))"
    by (simp add: rawRectangle_def agrees_rawVLine agrees_rawHLine assms)
  then show ?thesis
    unfolding paint_rectangle_def using False by (simp, elim agrees_cong) (auto simp: paint_box_def)
qed

section \<open>Text\<close>

lemma vert_loop_fold:
  assumes "i \<le> min 8 (unat m)"
  shows "vert_loop col m byte i (push_bit i 1) row ram =
     (row + of_nat (min 8 (unat m) - i),
      fold (\<lambda>k. rawPoint col (row + of_nat (k - i)) (bit byte k)) [i..<min 8 (unat m)] ram)"
  using assms
proof (induction "min 8 (unat m) - i" arbitrary: i row ram)
  case 0
  then show ?case by (subst vert_loop.simps) auto
next
  case (Suc n)
  let ?n = "min 8 (unat m)"
  have lt: "i < ?n" using Suc.hyps(2) by linarith
  then have lt': "i < 8" "i < unat m" by simp_all
  have bm: "push_bit 1 (push_bit i 1) = (push_bit (i + 1) 1 :: u8)" by (simp add: push_bit_push_bit)
  have bit: "(byte AND push_bit i 1 \<noteq> 0) = bit byte i"
    by (simp add: bit_iff_and_push_bit_not_eq_0)
  have step: "vert_loop col m byte i (push_bit i 1) row ram =
      vert_loop col m byte (i + 1) (push_bit (i + 1) 1) (row + 1) (rawPoint col row (bit byte i) ram)"
    by (subst vert_loop.simps) (simp only: lt' bm bit if_True simp_thms)
  have "(\<lambda>k. rawPoint col (row + 1 + of_nat (k - (i + 1))) (bit byte k)) k
      = (\<lambda>k. rawPoint col (row + of_nat (k - i)) (bit byte k)) k" if "k \<in> set [i + 1..<?n]" for k
  proof -
    from that have "k - i = Suc (k - (i + 1))" by auto
    then show ?thesis by (simp add: add.assoc)
  qed
  then have "fold (\<lambda>k. rawPoint col (row + 1 + of_nat (k - (i + 1))) (bit byte k)) [i + 1..<?n] ram'
      = fold (\<lambda>k. rawPoint col (row + of_nat (k - i)) (bit byte k)) [i + 1..<?n] ram'" for ram'
    by (intro fold_cong) auto
  moreover have "row + 1 + of_nat (?n - (i + 1)) = row + of_nat (?n - i)"
    using lt by (metis Suc_diff_Suc Suc_eq_plus1 add.assoc add.commute of_nat_Suc)
  moreover have "[i..<?n] = i # [i + 1..<?n]" using lt by (simp add: upt_conv_Cons)
  moreover have "n = ?n - (i + 1)" "i + 1 \<le> ?n" using Suc.hyps(2) lt by linarith+
  ultimately show ?case unfolding step using Suc.hyps(1) [of "i + 1"] by (simp del: min_def)
qed

lemma unat_diff_eq: "n < 256 \<Longrightarrow> (y::u8) = row + of_nat n \<longleftrightarrow> unat (y - row) = n"
proof -
  assume n: "n < 256"
  have "y = row + of_nat n \<longleftrightarrow> y - row = of_nat n" by (auto simp: algebra_simps)
  also have "\<dots> \<longleftrightarrow> unat (y - row) = n"
    using n by (simp only: word_unat_eq_iff) (simp add: unat_of_nat take_bit_nat_eq_self)
  finally show ?thesis .
qed

lemma fold_paint_bits:
  assumes "n \<le> 8"
  shows "fold (\<lambda>k. paint_point col (row + of_nat k) (v k)) [0..<n] p =
     (\<lambda>x y. if x = col \<and> unat (y - row) < n then v (unat (y - row)) else p x y)"
  using assms
proof (induction n)
  case (Suc n)
  then have IH: "fold (\<lambda>k. paint_point col (row + of_nat k) (v k)) [0..<n] p =
     (\<lambda>x y. if x = col \<and> unat (y - row) < n then v (unat (y - row)) else p x y)" by simp
  show ?case
  proof (intro ext)
    fix x y
    have e: "y = row + of_nat n \<longleftrightarrow> unat (y - row) = n" using Suc.prems by (intro unat_diff_eq) simp
    show "fold (\<lambda>k. paint_point col (row + of_nat k) (v k)) [0..<Suc n] p x y =
        (if x = col \<and> unat (y - row) < Suc n then v (unat (y - row)) else p x y)"
      unfolding less_Suc_eq upt_Suc_append [OF le0] fold_append fold_simps comp_def IH paint_point_def e
      by auto
  qed
qed simp

lemma agrees_rawVertByte:
  assumes "agrees ram p"
  shows "\<exists>ram'. rawVertByte col row m byte ram = (row + of_nat (min 8 (unat m)), ram') \<and>
     agrees ram' (\<lambda>x y. if x = col \<and> unat (y - row) < min 8 (unat m) then bit byte (unat (y - row)) else p x y)"
proof -
  have "rawVertByte col row m byte ram = (row + of_nat (min 8 (unat m)),
      fold (\<lambda>k. rawPoint col (row + of_nat k) (bit byte k)) [0..<min 8 (unat m)] ram)"
    using vert_loop_fold [of 0 m col byte row ram] by (simp add: rawVertByte_def)
  moreover have "agrees (fold (\<lambda>k. rawPoint col (row + of_nat k) (bit byte k)) [0..<min 8 (unat m)] ram)
      (fold (\<lambda>k. paint_point col (row + of_nat k) (bit byte k)) [0..<min 8 (unat m)] p)"
    by (rule agrees_fold_points [OF assms])
  ultimately show ?thesis by (simp add: fold_paint_bits)
qed

text \<open>The dots of a character in the table of its font, and where the table has them.\<close>

definition glyph_at :: "FontInfo \<Rightarrow> u8 \<Rightarrow> nat \<Rightarrow> nat \<Rightarrow> nat" where
  "glyph_at f c charCol byteNr =
     (unat (mWidth f) * bytesPerCharCol f + 1) * (unat c - 32) + 1 + charCol * bytesPerCharCol f + byteNr"

definition font_ok :: "FontInfo \<Rightarrow> bool" where
  "font_ok f \<longleftrightarrow> length (mPointer f) = 96 * (unat (mWidth f) * bytesPerCharCol f + 1) \<and> length (mPointer f) \<le> 65536"

definition printable :: "u8 \<Rightarrow> bool" where
  "printable c \<longleftrightarrow> 32 \<le> c \<and> c < 128"

definition paint_char :: "FontInfo \<Rightarrow> u8 \<Rightarrow> u8 \<Rightarrow> u8 \<Rightarrow> picture \<Rightarrow> picture" where
  "paint_char f col row c p = (\<lambda>x y.
     if x - col < mWidth f \<and> y - row < mHeight f
     then bit (mPointer f ! glyph_at f c (unat (x - col)) (unat (y - row) div 8)) (unat (y - row) mod 8)
     else p x y)"

lemma font_byte_in_table:
  assumes "font_ok f" "printable c" "charCol < unat (mWidth f)" "byteNr < bytesPerCharCol f"
  shows "font_byte f c charCol byteNr = Some (mPointer f ! glyph_at f c charCol byteNr)"
proof -
  let ?B = "bytesPerCharCol f" and ?W = "unat (mWidth f)"
  have c: "32 \<le> unat c" "unat c < 128" using assms(2) by (auto simp: printable_def word_le_nat_alt word_less_nat_alt)
  have "charCol * ?B + byteNr < Suc charCol * ?B" using assms(4) by simp
  also have "\<dots> \<le> ?W * ?B" using assms(3) by (intro mult_right_mono) auto
  finally have "glyph_at f c charCol byteNr < (?W * ?B + 1) * (unat c - 32 + 1)"
    by (simp add: glyph_at_def algebra_simps)
  also have "\<dots> \<le> (?W * ?B + 1) * 96" using c by (intro mult_left_mono) auto
  finally have lt: "glyph_at f c charCol byteNr < length (mPointer f)"
    using assms(1) by (simp add: font_ok_def mult.commute)
  then have lt2: "glyph_at f c charCol byteNr < 65536" using assms(1) by (simp add: font_ok_def)
  have "arrayOffset f c + int (charCol * ?B + byteNr) = int (glyph_at f c charCol byteNr)"
  proof -
    have "uint c = int (unat c)" by simp
    then have "uint c - 32 = int (unat c - 32)" using c(1) by (simp only: of_nat_diff of_nat_numeral)
    then show ?thesis by (simp only: arrayOffset_def glyph_at_def of_nat_add of_nat_mult of_nat_1 add_ac)
  qed
  then have "(word_of_int (arrayOffset f c) :: u16) + of_nat (charCol * ?B + byteNr)
      = of_nat (glyph_at f c charCol byteNr)"
    by (metis of_int_add of_int_of_nat_eq)
  then show ?thesis
    using lt lt2 unfolding font_byte_def Let_def by (simp add: unat_of_nat take_bit_nat_eq_self)
qed

lemma bytesPerCharCol_bounds:
  "unat (mHeight f) \<le> 8 * bytesPerCharCol f" "j < bytesPerCharCol f \<Longrightarrow> 8 * j < unat (mHeight f)"
proof -
  have "h \<le> 8 * (h div 8 + (if h mod 8 > 0 then 1 else 0))"
    "j < h div 8 + (if h mod 8 > 0 then 1 else 0) \<Longrightarrow> 8 * j < h" for h :: nat by presburger+
  then show "unat (mHeight f) \<le> 8 * bytesPerCharCol f" "j < bytesPerCharCol f \<Longrightarrow> 8 * j < unat (mHeight f)"
    unfolding bytesPerCharCol_def by blast+
qed

lemma u8_small_eq: "n < 256 \<Longrightarrow> unat (of_nat n :: u8) = n"
  by (simp add: unat_of_nat take_bit_nat_eq_self)

lemma unat_u8_less: "unat (w :: u8) < 256"
  using unsigned_less [of w] by simp

text \<open>The rows below \<open>8 * j\<close> of one column of a character.\<close>

definition paint_column :: "FontInfo \<Rightarrow> u8 \<Rightarrow> u8 \<Rightarrow> u8 \<Rightarrow> nat \<Rightarrow> nat \<Rightarrow> picture \<Rightarrow> picture" where
  "paint_column f col row c charCol j p = (\<lambda>x y.
     if x = col + of_nat charCol \<and> 8 * j \<le> unat (y - row) \<and> unat (y - row) < unat (mHeight f)
     then bit (mPointer f ! glyph_at f c charCol (unat (y - row) div 8)) (unat (y - row) mod 8) else p x y)"

lemma unat_diff_add:
  assumes "8 * j < 256" "n \<le> 8"
  shows "unat ((y::u8) - (row + of_nat (8 * j))) < n \<longleftrightarrow> 8 * j \<le> unat (y - row) \<and> unat (y - row) < 8 * j + n"
    and "8 * j \<le> unat (y - row) \<Longrightarrow> unat (y - (row + of_nat (8 * j))) = unat (y - row) - 8 * j"
proof -
  have d: "y - (row + of_nat (8 * j)) = (y - row) - of_nat (8 * j)" by (simp add: algebra_simps)
  define z where "z = y - row"
  have z: "unat z < 256" by (rule unat_u8_less)
  have j: "unat (of_nat (8 * j) :: u8) = 8 * j" using assms(1) by (rule u8_small_eq)
  have ge: "unat (z - of_nat (8 * j)) = unat z - 8 * j" if "8 * j \<le> unat z"
    using that by (simp only: unat_sub word_le_nat_alt j)
  show "8 * j \<le> unat (y - row) \<Longrightarrow> unat (y - (row + of_nat (8 * j))) = unat (y - row) - 8 * j"
    using ge unfolding d z_def .
  have small: "\<not> unat (z - of_nat (8 * j)) < n" if lt: "unat z < 8 * j"
  proof
    let ?w = "z - of_nat (8 * j)"
    assume "unat ?w < n"
    then have *: "unat ?w < 8" using assms(2) by simp
    have "j \<le> 31" using assms(1) by simp
    with * have "unat ?w + 8 * j < 256" by linarith
    then have "unat (?w + of_nat (8 * j)) = unat ?w + 8 * j"
      using unat_word_ariths(1) [of ?w "of_nat (8 * j)"] unfolding j by simp
    then have "unat z = unat ?w + 8 * j" by (simp only: diff_add_cancel)
    then show False using lt by simp
  qed
  show "unat (y - (row + of_nat (8 * j))) < n \<longleftrightarrow> 8 * j \<le> unat (y - row) \<and> unat (y - row) < 8 * j + n"
    unfolding d z_def [symmetric] using ge small by (cases "8 * j \<le> unat z") auto
qed

lemma agrees_char_column:
  assumes "font_ok f" "printable c" "charCol < unat (mWidth f)" "j \<le> bytesPerCharCol f" "agrees ram p"
    "j < bytesPerCharCol f \<Longrightarrow> myRow = row + of_nat (8 * j)"
  shows "\<exists>ram'. char_column f col row c charCol [j..<bytesPerCharCol f] myRow ram = Some ram' \<and>
     agrees ram' (paint_column f col row c charCol j p)"
  using assms(4-)
proof (induction "bytesPerCharCol f - j" arbitrary: j myRow ram p)
  case 0
  then have "unat (mHeight f) \<le> 8 * j" using bytesPerCharCol_bounds(1) [of f] by simp
  then show ?case using 0 by (auto simp: paint_column_def elim: agrees_cong)
next
  case (Suc k)
  let ?B = "bytesPerCharCol f" and ?m = "mHeight f - (myRow - row)"
  have lt: "j < ?B" and k: "k = ?B - Suc j" "Suc j \<le> ?B" using Suc.hyps(2) by linarith+
  have h: "8 * j < unat (mHeight f)" using bytesPerCharCol_bounds(2) [OF lt] .
  then have j8: "8 * j < 256" using unat_u8_less [of "mHeight f"] by linarith
  have my: "myRow = row + of_nat (8 * j)" using Suc.prems(3) lt by simp
  have m: "unat ?m = unat (mHeight f) - 8 * j"
    using h unfolding my by (simp add: unat_sub word_le_nat_alt u8_small_eq [OF j8, simplified])
  define n where "n = min 8 (unat ?m)"
  define byte where "byte = mPointer f ! glyph_at f c charCol j"
  define q where "q = (\<lambda>x y. if x = col + of_nat charCol \<and> unat (y - myRow) < n then bit byte (unat (y - myRow)) else p x y)"
  obtain ram1 where ram1: "rawVertByte (col + of_nat charCol) myRow ?m byte ram = (myRow + of_nat n, ram1)" "agrees ram1 q"
    using agrees_rawVertByte [OF Suc.prems(2), of "col + of_nat charCol" myRow ?m byte] unfolding n_def q_def by blast
  have next_row: "myRow + of_nat n = row + of_nat (8 * Suc j)" if "Suc j < ?B"
  proof -
    have "8 * Suc j < unat (mHeight f)" using bytesPerCharCol_bounds(2) [OF that] .
    then have "n = 8" unfolding n_def m by simp
    then show ?thesis unfolding my by simp
  qed
  obtain ram2 where ram2: "char_column f col row c charCol [Suc j..<?B] (myRow + of_nat n) ram1 = Some ram2"
      "agrees ram2 (paint_column f col row c charCol (Suc j) q)"
    using Suc.hyps(1) [OF k ram1(2) next_row] by blast
  have "paint_column f col row c charCol (Suc j) q x y = paint_column f col row c charCol j p x y" for x y
  proof -
    have n8: "n \<le> 8" by (simp add: n_def)
    have d: "unat (y - row) div 8 = j \<and> unat (y - row) mod 8 = unat (y - row) - 8 * j"
      if "8 * j \<le> unat (y - row)" "unat (y - row) < 8 * j + 8"
    proof -
      have "unat (y - row) div 8 = j" using that by (intro div_nat_eqI) auto
      then show ?thesis using minus_mult_div_eq_mod [of "unat (y - row)" 8] by simp
    qed
    have n: "unat (y - row) < 8 * j + n \<longleftrightarrow> unat (y - row) < 8 * j + 8 \<and> unat (y - row) < unat (mHeight f)"
      using h unfolding n_def m by auto
    define z where "z = unat (y - row)"
    define z' where "z' = unat (y - (row + of_nat (8 * j)))"
    note z = unat_diff_add(1) [OF j8 n8, of y row, folded z_def z'_def]
      unat_diff_add(2) [OF j8 n8, of y row, folded z_def z'_def] d [folded z_def] n [folded z_def]
    show ?thesis
      unfolding paint_column_def q_def my byte_def z_def [symmetric] z'_def [symmetric] using z by auto
  qed
  then have "paint_column f col row c charCol (Suc j) q = paint_column f col row c charCol j p"
    by (intro ext)
  then show ?case
    using ram1 ram2 lt font_byte_in_table [OF assms(1-3) lt]
    by (simp add: upt_conv_Cons byte_def)
qed

lemma agrees_char_columns:
  assumes "font_ok f" "printable c" "set cs \<subseteq> {..<unat (mWidth f)}" "agrees ram p"
  shows "\<exists>ram'. char_columns f col row c cs ram = Some ram' \<and>
     agrees ram' (fold (\<lambda>charCol. paint_column f col row c charCol 0) cs p)"
  using assms(3,4)
proof (induction cs arbitrary: ram p)
  case (Cons charCol cs)
  obtain ram1 where "char_column f col row c charCol [0..<bytesPerCharCol f] row ram = Some ram1"
      "agrees ram1 (paint_column f col row c charCol 0 p)"
    using agrees_char_column [OF assms(1,2) _ _ Cons.prems(2), of charCol 0 row row col] Cons.prems(1) by auto
  then show ?case using Cons.IH Cons.prems(1) by simp
qed simp

lemma fold_paint_columns:
  assumes "n \<le> 256"
  shows "fold (\<lambda>charCol. paint_column f col row c charCol 0) [0..<n] p = (\<lambda>x y.
     if unat (x - col) < n \<and> y - row < mHeight f
     then bit (mPointer f ! glyph_at f c (unat (x - col)) (unat (y - row) div 8)) (unat (y - row) mod 8)
     else p x y)"
  using assms
proof (induction n)
  case (Suc n)
  have e: "x = col + of_nat n \<longleftrightarrow> unat (x - col) = n" for x :: u8
    using Suc.prems by (intro unat_diff_eq) simp
  show ?case
  proof (intro ext)
    fix x y
    show "fold (\<lambda>charCol. paint_column f col row c charCol 0) [0..<Suc n] p x y = (if unat (x - col) < Suc n \<and> y - row < mHeight f
      then bit (mPointer f ! glyph_at f c (unat (x - col)) (unat (y - row) div 8)) (unat (y - row) mod 8) else p x y)"
      using Suc unfolding less_Suc_eq upt_Suc_append [OF le0] fold_append fold_simps comp_def paint_column_def e word_less_nat_alt
      by auto
  qed
qed simp

lemma agrees_rawGraphicChar:
  assumes "font_ok f" "printable c" "agrees ram p"
  shows "\<exists>ram'. rawGraphicChar f col row c ram = Some ram' \<and> agrees ram' (paint_char f col row c p)"
proof -
  have "fold (\<lambda>charCol. paint_column f col row c charCol 0) [0..<unat (mWidth f)] p = paint_char f col row c p"
    using unat_u8_less [of "mWidth f"] by (simp add: fold_paint_columns paint_char_def word_less_nat_alt [of "_ - col"])
  then show ?thesis
    using agrees_char_columns [OF assms(1,2) _ assms(3), of "[0..<unat (mWidth f)]" col row]
    by (simp add: rawGraphicChar_def subset_iff)
qed

primrec paint_text :: "FontInfo \<Rightarrow> u8 \<Rightarrow> u8 \<Rightarrow> string \<Rightarrow> picture \<Rightarrow> picture" where
  "paint_text f col row [] p = p"
| "paint_text f col row (c # text) p =
     paint_text f (col + mSpacing f) row text (paint_char f col row (of_char c) p)"

lemma agrees_draw_text:
  assumes "font_ok f" "\<forall>c\<in>set text. printable (of_char c)" "agrees ram p"
  shows "\<exists>ram'. draw_text f col row text ram = Some ram' \<and> agrees ram' (paint_text f col row text p)"
  using assms(2,3)
proof (induction "text" arbitrary: col ram p)
  case (Cons c cs)
  then obtain ram1 where "rawGraphicChar f col row (of_char c) ram = Some ram1"
      "agrees ram1 (paint_char f col row (of_char c) p)"
    using agrees_rawGraphicChar [OF assms(1), of "of_char c" ram p col row] by auto
  then show ?case using Cons by simp
qed simp

section \<open>The panel at the other end of the expander\<close>

text \<open>
  What the graphic controller does with the bytes: each change of E with RW low hands it the byte of
  port A. An instruction with the high bit set is half of an address, first the row and then the
  column; two data bytes fill the word at the address, and the column moves on. Other
  instructions do not touch the graphic memory and end an address that is half sent.
\<close>

record gpanel =
  g_half :: "u8 option"
  g_row :: nat
  g_col :: nat
  g_high :: "u8 option"
  g_ram :: "nat \<Rightarrow> nat \<Rightarrow> u16"

definition panel_take :: "bool \<Rightarrow> u8 \<Rightarrow> gpanel \<Rightarrow> gpanel" where
  "panel_take rs byte g =
     (if rs
      then (case g_high g of
              None \<Rightarrow> g\<lparr>g_high := Some byte\<rparr>
            | Some high \<Rightarrow>
                g\<lparr>g_high := None, g_col := Suc (g_col g),
                  g_ram := (g_ram g)(g_row g := (g_ram g (g_row g))(g_col g := push_bit 8 (ucast high) OR ucast byte))\<rparr>)
      else if bit byte 7
      then (case g_half g of
              None \<Rightarrow> g\<lparr>g_half := Some byte\<rparr>
            | Some v \<Rightarrow> g\<lparr>g_half := None, g_high := None, g_row := unat (v AND 0x7F), g_col := unat (byte AND 0x7F)\<rparr>)
      else g\<lparr>g_half := None\<rparr>)"

type_synonym ports = "u8 \<times> u8 \<times> gpanel"

definition port_io :: "u8 \<Rightarrow> u8 \<times> bytes \<Rightarrow> ports \<Rightarrow> ports" where
  "port_io a w = (\<lambda>(pa, pb, g).
     if fst w = a \<and> length (snd w) = 2 \<and> snd w ! 0 = GPIOA then (snd w ! 1, pb, g)
     else if fst w = a \<and> length (snd w) = 2 \<and> snd w ! 0 = GPIOB
     then let v = snd w ! 1
          in (pa, v, if bit v E_line \<noteq> bit pb E_line \<and> \<not> bit v RW then panel_take (bit v RS) pa g else g)
     else (pa, pb, g))"

definition ports_after :: "ports \<Rightarrow> u8 \<Rightarrow> I2C \<Rightarrow> ports" where
  "ports_after p0 a i = fold (port_io a) (bus_log i) p0"

text \<open>The panel and the port B that it saw last, after all that the object has sent.\<close>

definition panel_of :: "ports \<Rightarrow> LCDisplay \<Rightarrow> gpanel" where
  "panel_of p0 s = snd (snd (ports_after p0 (lcd_IO s) (lcd_I2C s)))"

definition link :: "ports \<Rightarrow> LCDisplay \<Rightarrow> bool" where
  "link p0 s \<longleftrightarrow> fst (snd (ports_after p0 (lcd_IO s) (lcd_I2C s))) = mControlBus s"

definition same_frame :: "LCDisplay \<Rightarrow> LCDisplay \<Rightarrow> bool" where
  "same_frame s s' \<longleftrightarrow> lcd_IO s' = lcd_IO s \<and> mGraphicRam s' = mGraphicRam s \<and> mFontMap s' = mFontMap s"

lemma same_frame_trans [trans]: "same_frame s t \<Longrightarrow> same_frame t u \<Longrightarrow> same_frame s u"
  by (simp add: same_frame_def)

lemma reliable_lcd_bus:
  assumes "reliable bus"
  shows "\<exists>i. lcd_bus (writeData bus a [r, v] DEFAULT_I2C_RETRY) s = (Inr True, s\<lparr>lcd_I2C := i\<rparr>) \<and>
             ports_after p0 b i = port_io b (a, [r, v]) (ports_after p0 b (lcd_I2C s))"
  using reliable_writeData [OF assms, of "[r, v]" DEFAULT_I2C_RETRY a "lcd_I2C s"]
  by (auto simp: lcd_bus_def DEFAULT_I2C_RETRY_def ports_after_def)

text \<open>A transfer on a bus that works: the panel takes the byte, and the frame buffer does not change.\<close>

definition delivers :: "ports \<Rightarrow> bool \<Rightarrow> u8 \<Rightarrow> LCDisplay \<Rightarrow> LCDisplay \<Rightarrow> bool" where
  "delivers p0 rs byte s s' \<longleftrightarrow>
     same_frame s s' \<and> link p0 s' \<and> panel_of p0 s' = panel_take rs byte (panel_of p0 s)"

lemma reliable_setRSRWBits:
  assumes "reliable bus" "link p0 s"
  shows "\<exists>s'. setRSRWBits bus rs False s = (Inr (), s') \<and> same_frame s s' \<and> link p0 s' \<and>
     panel_of p0 s' = panel_of p0 s \<and> bit (mControlBus s') RS = rs \<and> \<not> bit (mControlBus s') RW"
proof (cases "bit (mControlBus s) RS \<noteq> rs \<or> bit (mControlBus s) RW \<noteq> False")
  case True
  define v where "v = put_bit RW False (put_bit RS rs (mControlBus s))"
  define t where "t = s\<lparr>mControlBus := v\<rparr>"
  obtain i where i: "lcd_bus (IO_writeB bus (lcd_IO t) (mControlBus t)) t = (Inr True, t\<lparr>lcd_I2C := i\<rparr>)"
      "ports_after p0 (lcd_IO s) i = port_io (lcd_IO s) (lcd_IO s, [GPIOB, v]) (ports_after p0 (lcd_IO s) (lcd_I2C s))"
    using reliable_lcd_bus [OF assms(1), of "lcd_IO s" GPIOB v t p0 "lcd_IO s"]
    by (auto simp: IO_writeB_def t_def)
  have v: "bit v E_line = bit (mControlBus s) E_line" "bit v RS = rs" "\<not> bit v RW"
    by (simp_all add: v_def put_bit_bit E_line_def RS_def RW_def)
  have r: "setRSRWBits bus rs False s = (Inr (), t\<lparr>lcd_I2C := i\<rparr>)"
    using True i(1) unfolding setRSRWBits_def Let_def t_def v_def by simp
  show ?thesis
    unfolding r using i(2) v assms(2)
    by (auto simp: t_def same_frame_def link_def panel_of_def port_io_def GPIOA_def GPIOB_def split: prod.splits)
next
  case False
  then show ?thesis using assms(2) by (simp add: setRSRWBits_def same_frame_def)
qed

lemma bit_flip_E: "bit (flip_bit E_line (v::u8)) n \<longleftrightarrow> (if n = E_line then \<not> bit v n else bit v n)"
  by (auto simp: E_line_def bit_flip_bit_iff dest: bit_imp_le_length)

lemma reliable_transfer:
  assumes "reliable bus" "link p0 s"
  shows "\<exists>s'. seq_io (setRSRWBits bus rs False s) (\<lambda>s.
      seq_io (lcd_bus (IO_writeA bus (lcd_IO s) byte) s) (strobe bus)) = (Inr (), s') \<and> delivers p0 rs byte s s'"
proof -
  obtain s1 where s1: "setRSRWBits bus rs False s = (Inr (), s1)" "same_frame s s1" "link p0 s1"
      "panel_of p0 s1 = panel_of p0 s" "bit (mControlBus s1) RS = rs" "\<not> bit (mControlBus s1) RW"
    using reliable_setRSRWBits [OF assms] by blast
  define a where "a = lcd_IO s1"
  obtain i where i: "lcd_bus (IO_writeA bus a byte) s1 = (Inr True, s1\<lparr>lcd_I2C := i\<rparr>)"
      "ports_after p0 a i = port_io a (a, [GPIOA, byte]) (ports_after p0 a (lcd_I2C s1))"
    using reliable_lcd_bus [OF assms(1), of a GPIOA byte s1 p0 a] by (auto simp: IO_writeA_def)
  define v where "v = flip_bit E_line (mControlBus s1)"
  define s2 where "s2 = s1\<lparr>lcd_I2C := i, mControlBus := v\<rparr>"
  obtain i' where i': "lcd_bus (IO_writeB bus a v) s2 = (Inr True, s2\<lparr>lcd_I2C := i'\<rparr>)"
      "ports_after p0 a i' = port_io a (a, [GPIOB, v]) (ports_after p0 a i)"
    using reliable_lcd_bus [OF assms(1), of a GPIOB v s2 p0 a] by (auto simp: IO_writeB_def s2_def)
  have v: "bit v E_line \<noteq> bit (mControlBus s1) E_line" "bit v RS = rs" "\<not> bit v RW"
    using s1(5,6) by (simp_all add: v_def bit_flip_E) (simp_all add: E_line_def RS_def RW_def)
  have r: "strobe bus (s1\<lparr>lcd_I2C := i\<rparr>) = (Inr (), s2\<lparr>lcd_I2C := i'\<rparr>)"
    using i'(1) by (simp add: strobe_def s2_def v_def a_def)
  have "delivers p0 rs byte s (s2\<lparr>lcd_I2C := i'\<rparr>)"
    using s1 i(2) i'(2) v
    by (auto simp: delivers_def s2_def a_def same_frame_def link_def panel_of_def port_io_def GPIOA_def GPIOB_def
        split: prod.splits)
  then show ?thesis using s1(1) i(1) r by (simp add: a_def)
qed

lemma reliable_writeData_lcd:
  "reliable bus \<Longrightarrow> link p0 s \<Longrightarrow> \<exists>s'. LCD_writeData bus byte s = (Inr (), s') \<and> delivers p0 True byte s s'"
  unfolding LCD_writeData_def by (rule reliable_transfer)

lemma reliable_writeControl:
  "reliable bus \<Longrightarrow> link p0 s \<Longrightarrow> \<exists>s'. writeControl bus byte s = (Inr (), s') \<and> delivers p0 False byte s s'"
  unfolding writeControl_def by (rule reliable_transfer)

lemma address_bits: "n < 128 \<Longrightarrow> bit (0x80 OR (of_nat n :: u8)) 7 \<and> unat ((0x80 OR (of_nat n :: u8)) AND 0x7F) = n"
proof -
  assume n: "n < 128"
  have c: "(0x7F :: u8) = mask 7" "(0x80 :: u8) = push_bit 7 1" by (simp_all add: mask_eq_exp_minus_1)
  have "(0x80 OR (of_nat n :: u8)) AND 0x7F = take_bit 7 (of_nat n)"
    unfolding c by (rule bit_word_eqI) (auto simp: bit_simps simp del: push_bit_of_1)
  also have "\<dots> = of_nat n" using n by (simp add: take_bit_of_nat take_bit_nat_eq_self)
  finally show ?thesis using n by (simp add: bit_simps unat_of_nat take_bit_nat_eq_self)
qed

lemma reliable_setGAddress:
  assumes "reliable bus" "link p0 s" "g_half (panel_of p0 s) = None" "vert < 128" "horz < 128"
  shows "\<exists>s'. setGAddress bus (of_nat vert) (of_nat horz) s = (Inr (), s') \<and> same_frame s s' \<and> link p0 s' \<and>
     panel_of p0 s' = (panel_of p0 s)\<lparr>g_high := None, g_row := vert, g_col := horz\<rparr>"
proof -
  obtain s1 where s1: "writeControl bus (0x80 OR of_nat vert) s = (Inr (), s1)" "delivers p0 False (0x80 OR of_nat vert) s s1"
    using reliable_writeControl [OF assms(1,2)] by blast
  then have "link p0 s1" by (simp add: delivers_def)
  then obtain s2 where s2: "writeControl bus (0x80 OR of_nat horz) s1 = (Inr (), s2)"
      "delivers p0 False (0x80 OR of_nat horz) s1 s2"
    using reliable_writeControl [OF assms(1)] by blast
  have "panel_of p0 s2 = (panel_of p0 s)\<lparr>g_high := None, g_row := vert, g_col := horz\<rparr>"
    using s1(2) s2(2) assms(3) address_bits [OF assms(4)] address_bits [OF assms(5)]
    by (simp add: delivers_def panel_take_def)
  then show ?thesis
    using s1 s2 same_frame_trans by (auto simp: setGAddress_def delivers_def)
qed

lemma reliable_word:
  fixes w :: u16
  assumes "reliable bus" "link p0 s" "g_high (panel_of p0 s) = None"
  shows "\<exists>s'. seq_io (LCD_writeData bus (ucast (drop_bit 8 w AND 0xFF)) s)
       (LCD_writeData bus (ucast (w AND 0xFF))) = (Inr (), s') \<and> same_frame s s' \<and> link p0 s' \<and>
     panel_of p0 s' = (let g = panel_of p0 s in
       g\<lparr>g_col := Suc (g_col g), g_ram := (g_ram g)(g_row g := (g_ram g (g_row g))(g_col g := w))\<rparr>)"
proof -
  let ?h = "ucast (drop_bit 8 w AND 0xFF) :: u8" and ?l = "ucast (w AND 0xFF) :: u8"
  obtain s1 where s1: "LCD_writeData bus ?h s = (Inr (), s1)" "delivers p0 True ?h s s1"
    using reliable_writeData_lcd [OF assms(1,2)] by blast
  then have "link p0 s1" by (simp add: delivers_def)
  then obtain s2 where s2: "LCD_writeData bus ?l s1 = (Inr (), s2)" "delivers p0 True ?l s1 s2"
    using reliable_writeData_lcd [OF assms(1)] by blast
  have w: "(push_bit 8 (ucast ?h) OR ucast ?l :: u16) = w"
  proof (rule bit_word_eqI)
    fix n assume n: "n < LENGTH(16)"
    have m: "v AND 0xFF = take_bit 8 v" for v :: u16 by (simp add: take_bit_eq_mask mask_eq_exp_minus_1)
    show "bit (push_bit 8 (ucast ?h) OR ucast ?l :: u16) n = bit w n"
      unfolding m using n by (cases "n < 8") (auto simp: bit_simps)
  qed
  have "panel_of p0 s2 = (let g = panel_of p0 s in
       g\<lparr>g_col := Suc (g_col g), g_ram := (g_ram g)(g_row g := (g_ram g (g_row g))(g_col g := w))\<rparr>)"
    using s1(2) s2(2) assms(3) by (simp add: delivers_def panel_take_def Let_def w)
  then show ?thesis
    using s1 s2 same_frame_trans by (auto simp: delivers_def)
qed

section \<open>Refreshing the panel\<close>

text \<open>The panel holds every word that is not marked as changed.\<close>

definition synced :: "graphic_ram \<Rightarrow> (nat \<Rightarrow> nat \<Rightarrow> u16) \<Rightarrow> bool" where
  "synced ram m \<longleftrightarrow> (\<forall>r<32. \<forall>c<10. mChanged (ram ! r ! c) \<or> m r c = mBits (ram ! r ! c))"

definition ready :: "ports \<Rightarrow> LCDisplay \<Rightarrow> bool" where
  "ready p0 s \<longleftrightarrow> link p0 s \<and> wf_ram (mGraphicRam s) \<and> g_half (panel_of p0 s) = None \<and>
     synced (mGraphicRam s) (g_ram (panel_of p0 s))"

text \<open>The words for which \<open>sel\<close> holds have been sent.\<close>

definition flushed :: "(nat \<Rightarrow> nat \<Rightarrow> bool) \<Rightarrow> LCDisplay \<Rightarrow> LCDisplay \<Rightarrow> bool" where
  "flushed sel s s' \<longleftrightarrow> lcd_IO s' = lcd_IO s \<and> mFontMap s' = mFontMap s \<and>
     (\<forall>r<32. \<forall>c<10. mGraphicRam s' ! r ! c =
        (if sel r c then (mGraphicRam s ! r ! c)\<lparr>mChanged := False\<rparr> else mGraphicRam s ! r ! c))"

lemma flushed_trans:
  assumes "flushed sel1 s t" "flushed sel2 t u" "\<And>r c. sel r c \<longleftrightarrow> sel1 r c \<or> sel2 r c"
  shows "flushed sel s u"
  using assms by (auto simp: flushed_def)

lemma clear_changed_simps:
  assumes "wf_ram (mGraphicRam s)" "vert < 32" "horz < 10"
  shows "flushed (\<lambda>r c. r = vert \<and> c = horz) s (clear_changed vert horz s)"
    and "wf_ram (mGraphicRam (clear_changed vert horz s))"
    and "panel_of p0 (clear_changed vert horz s) = panel_of p0 s"
    and "link p0 (clear_changed vert horz s) = link p0 s"
  using assms
  by (auto simp: clear_changed_def flushed_def word_update_nth wf_ram_update panel_of_def link_def)

lemma send_word:
  assumes "reliable bus" "ready p0 s" "vert < 32" "horz < 10"
    "prev = int horz - 1 \<Longrightarrow> g_row (panel_of p0 s) = vert \<and> g_col (panel_of p0 s) = horz \<and> g_high (panel_of p0 s) = None"
  shows "\<exists>t. refresh_row bus vert (horz # hs) prev s =
       refresh_row bus vert hs (if mChanged (mGraphicRam s ! vert ! horz) then int horz else prev) t \<and>
     ready p0 t \<and> flushed (\<lambda>r c. r = vert \<and> c = horz) s t \<and>
     (mChanged (mGraphicRam s ! vert ! horz) \<longrightarrow> g_row (panel_of p0 t) = vert \<and> g_col (panel_of p0 t) = Suc horz \<and>
        g_high (panel_of p0 t) = None) \<and>
     (\<not> mChanged (mGraphicRam s ! vert ! horz) \<longrightarrow> t = s)"
proof (cases "mChanged (mGraphicRam s ! vert ! horz)")
  case False
  then have "flushed (\<lambda>r c. r = vert \<and> c = horz) s s" by (auto simp: flushed_def)
  then show ?thesis using False assms(2) by auto
next
  case True
  let ?w = "mBits (mGraphicRam s ! vert ! horz)"
  have rd: "link p0 s" "g_half (panel_of p0 s) = None" "wf_ram (mGraphicRam s)" using assms(2) by (auto simp: ready_def)
  obtain s1 where s1: "(if \<not> prev = int horz - 1 then setGAddress bus (of_nat vert) (of_nat horz) s else (Inr (), s)) = (Inr (), s1)"
      "same_frame s s1" "link p0 s1" "panel_of p0 s1 = (panel_of p0 s)\<lparr>g_high := None, g_row := vert, g_col := horz\<rparr>"
  proof (cases "prev = int horz - 1")
    case True
    with assms(5) have "panel_of p0 s = (panel_of p0 s)\<lparr>g_high := None, g_row := vert, g_col := horz\<rparr>" by simp
    then show ?thesis using that [of s] True rd(1) by (simp add: same_frame_def)
  next
    case False
    then show ?thesis
      using reliable_setGAddress [OF assms(1) rd(1,2), of vert horz] assms(3,4) that by auto
  qed
  have w1: "mBits (mGraphicRam s1 ! vert ! horz) = ?w" using s1(2) by (simp add: same_frame_def)
  have hi: "g_high (panel_of p0 s1) = None" by (simp add: s1(4))
  obtain s2 where s2: "seq_io (LCD_writeData bus (ucast (drop_bit 8 ?w AND 0xFF)) s1) (LCD_writeData bus (ucast (?w AND 0xFF))) = (Inr (), s2)"
      "same_frame s1 s2" "link p0 s2"
      "panel_of p0 s2 = (let g = panel_of p0 s1 in
         g\<lparr>g_col := Suc (g_col g), g_ram := (g_ram g)(g_row g := (g_ram g (g_row g))(g_col g := ?w))\<rparr>)"
    using reliable_word [OF assms(1) s1(3) hi, of ?w] by blast
  obtain s1' where s1': "LCD_writeData bus (ucast (drop_bit 8 ?w AND 0xFF)) s1 = (Inr (), s1')"
      "delivers p0 True (ucast (drop_bit 8 ?w AND 0xFF)) s1 s1'"
    using reliable_writeData_lcd [OF assms(1) s1(3)] by blast
  have w2: "mBits (mGraphicRam s1' ! vert ! horz) = ?w"
    using s1'(2) w1 by (simp add: delivers_def same_frame_def)
  have second: "LCD_writeData bus (ucast (?w AND 0xFF)) s1' = (Inr (), s2)" using s2(1) s1'(1) by simp
  define t where "t = clear_changed vert horz s2"
  have run: "refresh_row bus vert (horz # hs) prev s = refresh_row bus vert hs (int horz) t"
    unfolding refresh_row.simps s1(1) seq_io_simps w1 s1'(1) w2 second t_def using True by simp
  have sf: "same_frame s s2" using s1(2) s2(2) by (rule same_frame_trans)
  have wf2: "wf_ram (mGraphicRam s2)" using sf rd(3) by (simp add: same_frame_def)
  note cc = clear_changed_simps [OF wf2 assms(3,4), folded t_def]
  have fl: "flushed (\<lambda>r c. r = vert \<and> c = horz) s t"
    using cc(1) sf by (simp add: flushed_def same_frame_def)
  have g: "panel_of p0 t = (panel_of p0 s)\<lparr>g_high := None, g_row := vert, g_col := Suc horz,
      g_ram := (g_ram (panel_of p0 s))(vert := (g_ram (panel_of p0 s) vert)(horz := ?w))\<rparr>"
    unfolding cc(3) s2(4) s1(4) by (simp add: Let_def)
  have "synced (mGraphicRam t) (g_ram (panel_of p0 t))"
    using assms(2) fl unfolding g by (auto simp: ready_def synced_def flushed_def)
  then have "ready p0 t" using cc(2) cc(4) [of p0] s2(3) rd(2) by (simp add: ready_def g)
  then show ?thesis using run fl True g by auto
qed

lemma refresh_row_flushes:
  assumes "reliable bus" "ready p0 s" "vert < 32" "h \<le> 10"
    "prev = int h - 1 \<Longrightarrow> g_row (panel_of p0 s) = vert \<and> g_col (panel_of p0 s) = h \<and> g_high (panel_of p0 s) = None"
    "prev < int h"
  shows "\<exists>t. refresh_row bus vert [h..<10] prev s = (Inr (), t) \<and> ready p0 t \<and> flushed (\<lambda>r c. r = vert \<and> h \<le> c) s t"
  using assms(2,4-)
proof (induction "10 - h" arbitrary: h prev s)
  case 0
  then show ?case by (auto simp: flushed_def)
next
  case (Suc k)
  have h: "h < 10" "k = 10 - Suc h" using Suc.hyps(2) by linarith+
  obtain t where t: "refresh_row bus vert (h # [Suc h..<10]) prev s =
       refresh_row bus vert [Suc h..<10] (if mChanged (mGraphicRam s ! vert ! h) then int h else prev) t"
     "ready p0 t" "flushed (\<lambda>r c. r = vert \<and> c = h) s t"
     "mChanged (mGraphicRam s ! vert ! h) \<longrightarrow> g_row (panel_of p0 t) = vert \<and> g_col (panel_of p0 t) = Suc h \<and>
        g_high (panel_of p0 t) = None" "\<not> mChanged (mGraphicRam s ! vert ! h) \<longrightarrow> t = s"
    using send_word [OF assms(1) Suc.prems(1) assms(3) h(1), of prev "[Suc h..<10]"] Suc.prems(3) by blast
  define prev' where "prev' = (if mChanged (mGraphicRam s ! vert ! h) then int h else prev)"
  have "\<exists>u. refresh_row bus vert [Suc h..<10] prev' t = (Inr (), u) \<and> ready p0 u \<and> flushed (\<lambda>r c. r = vert \<and> Suc h \<le> c) t u"
    by (rule Suc.hyps(1)) (use h t Suc.prems(4) in \<open>auto simp: prev'_def split: if_splits\<close>)
  then obtain u where u: "refresh_row bus vert [Suc h..<10] prev' t = (Inr (), u)" "ready p0 u"
      "flushed (\<lambda>r c. r = vert \<and> Suc h \<le> c) t u" by blast
  have "flushed (\<lambda>r c. r = vert \<and> h \<le> c) s u" by (rule flushed_trans [OF t(3) u(3)]) auto
  then show ?case using t(1) u h(1) by (auto simp: upt_conv_Cons prev'_def)
qed

lemma refresh_rows_flushes:
  assumes "reliable bus" "ready p0 s" "set vs \<subseteq> {..<32}"
  shows "\<exists>t. refresh_rows bus vs s = (Inr (), t) \<and> ready p0 t \<and> flushed (\<lambda>r c. r \<in> set vs) s t"
  using assms(2,3)
proof (induction vs arbitrary: s)
  case Nil
  then show ?case by (auto simp: flushed_def)
next
  case (Cons v vs)
  obtain t where t: "refresh_row bus v [0..<10] (- 2) s = (Inr (), t)" "ready p0 t" "flushed (\<lambda>r c. r = v \<and> 0 \<le> c) s t"
    using refresh_row_flushes [OF assms(1) Cons.prems(1), of v 0 "- 2"] Cons.prems(2) by auto
  obtain u where u: "refresh_rows bus vs t = (Inr (), u)" "ready p0 u" "flushed (\<lambda>r c. r \<in> set vs) t u"
    using Cons.IH [OF t(2)] Cons.prems(2) by auto
  have "flushed (\<lambda>r c. r \<in> set (v # vs)) s u" by (rule flushed_trans [OF t(3) u(3)]) auto
  then show ?case using t(1) u by simp
qed

text \<open>The picture \<open>p\<close> stands in the frame buffer and on the panel, and no word waits to be sent.\<close>

definition panel_pixel :: "gpanel \<Rightarrow> picture" where
  "panel_pixel g x y = bit (g_ram g (unat y) (unat x div 16)) (15 - unat x mod 16)"

definition displays :: "ports \<Rightarrow> picture \<Rightarrow> LCDisplay \<Rightarrow> bool" where
  "displays p0 p s \<longleftrightarrow> ready p0 s \<and> agrees (mGraphicRam s) p \<and> (\<forall>x\<le>159. \<forall>y\<le>31. panel_pixel (panel_of p0 s) x y = p x y)"

lemma refreshDisplay_displays:
  assumes "reliable bus" "ready p0 s" "agrees (mGraphicRam s) p"
  shows "\<exists>t. refreshDisplay bus s = (Inr (), t) \<and> displays p0 p t \<and> lcd_IO t = lcd_IO s \<and> mFontMap t = mFontMap s"
proof -
  obtain t where t: "refresh_rows bus [0..<32] s = (Inr (), t)" "ready p0 t" "flushed (\<lambda>r c. r \<in> set [0..<32]) s t"
    using refresh_rows_flushes [OF assms(1,2), of "[0..<32]"] by (auto simp: subset_iff)
  have w: "mGraphicRam t ! r ! c = (mGraphicRam s ! r ! c)\<lparr>mChanged := False\<rparr>" if "r < 32" "c < 10" for r c
    using t(3) that by (simp add: flushed_def)
  have g: "g_ram (panel_of p0 t) r c = mBits (mGraphicRam s ! r ! c)" if "r < 32" "c < 10" for r c
    using t(2) that by (auto simp: ready_def synced_def w)
  have px: "pixel (mGraphicRam t) x y = p x y" "panel_pixel (panel_of p0 t) x y = p x y" if "x \<le> 159" "y \<le> 31" for x y
  proof -
    have lt: "unat y < 32" "unat x div 16 < 10" using that by (auto simp: le_159 le_31 less_mult_imp_div_less)
    have "pixel (mGraphicRam s) x y = p x y" using assms(3) that by (simp add: agrees_def)
    then show "pixel (mGraphicRam t) x y = p x y" "panel_pixel (panel_of p0 t) x y = p x y"
      by (simp_all add: pixel_def panel_pixel_def w [OF lt] g [OF lt])
  qed
  have "agrees (mGraphicRam t) p" using px(1) t(2) by (simp add: agrees_def ready_def)
  then show ?thesis using t px(2) by (auto simp: refreshDisplay_def displays_def flushed_def)
qed

section \<open>What every drawing keeps\<close>

text \<open>All drawing is done by \<open>rawPoint\<close>, so what one point keeps, every operation keeps.\<close>

locale point_invariant =
  fixes P :: "graphic_ram \<Rightarrow> bool"
  assumes point: "P ram \<Longrightarrow> P (rawPoint col row b ram)"
begin

lemma points: "P ram \<Longrightarrow> P (fold (\<lambda>i. rawPoint (cx i) (cy i) (v i)) is ram)"
  by (induction "is" arbitrary: ram) (auto intro: point)

lemma hline: "P ram \<Longrightarrow> P (rawHLine col1 col2 row b ram)"
  unfolding rawHLine_def by (rule points)

lemma vline: "P ram \<Longrightarrow> P (rawVLine col row1 row2 b ram)"
  unfolding rawVLine_def by (rule points)

lemma hlines: "P ram \<Longrightarrow> P (fold (\<lambda>row. rawHLine col1 col2 (of_nat row) b) rows ram)"
  by (induction rows arbitrary: ram) (auto intro: hline)

lemma rectangle: "P ram \<Longrightarrow> P (rawRectangle col1 row1 col2 row2 b fill ram)"
  unfolding rawRectangle_def by (simp add: hline vline hlines del: upt_Suc)

lemma vert_byte: "P ram \<Longrightarrow> P (snd (rawVertByte col row m byte ram))"
  using vert_loop_fold [of 0 m col byte row ram] points by (simp add: rawVertByte_def)

lemma char_column: "P ram \<Longrightarrow> char_column f col row c charCol bs myRow ram = Some ram' \<Longrightarrow> P ram'"
proof (induction bs arbitrary: myRow ram)
  case (Cons b bs)
  from Cons.prems(2) obtain byte where "char_column f col row c charCol bs
      (fst (rawVertByte (col + of_nat charCol) myRow (mHeight f - (myRow - row)) byte ram))
      (snd (rawVertByte (col + of_nat charCol) myRow (mHeight f - (myRow - row)) byte ram)) = Some ram'"
    by (auto simp: Let_def split_beta split: option.splits)
  then show ?case using Cons.IH vert_byte [OF Cons.prems(1)] by blast
qed simp

lemma char_columns: "P ram \<Longrightarrow> char_columns f col row c cs ram = Some ram' \<Longrightarrow> P ram'"
  by (induction cs arbitrary: ram) (auto simp: bind_eq_Some_conv intro: char_column)

lemma draw_text: "P ram \<Longrightarrow> draw_text f col row cs ram = Some ram' \<Longrightarrow> P ram'"
  by (induction cs arbitrary: col ram) (auto simp: bind_eq_Some_conv rawGraphicChar_def intro: char_columns)

end

interpretation shape: point_invariant wf_ram
  by unfold_locales (rule wf_rawPoint)

lemma synced_rawPoint:
  assumes "wf_ram ram" "synced ram m"
  shows "synced (rawPoint col row b ram) m"
proof (cases "col > 159 \<or> row > 31")
  case True
  then show ?thesis using assms(2) by (auto simp: rawPoint_def)
next
  case False
  then have "unat col div 16 < 10" "unat row < 32" by (auto simp: not_less le_159 le_31 less_mult_imp_div_less)
  with assms False show ?thesis by (auto simp: rawPoint_def Let_def synced_def word_update_nth)
qed

interpretation in_step: point_invariant "\<lambda>ram. wf_ram ram \<and> synced ram m" for m
  by unfold_locales (simp add: wf_rawPoint synced_rawPoint)

section \<open>Requests to the display\<close>

datatype lcd_request =
    Call lcd_call
  | Point u8 u8 bool
  | HLine u8 u8 u8 bool
  | VLine u8 u8 u8 bool

fun lcd_exec :: "i2c_bus \<Rightarrow> lcd_request \<Rightarrow> unit lcd_op" where
  "lcd_exec bus (Call InitGraphic) = initGraphic bus"
| "lcd_exec bus (Call ClearGraphicDisplay) = clearGraphicDisplay bus"
| "lcd_exec bus (Call (WriteGraphicText col row cs font)) =
     (\<lambda>s. seq_io (writeGraphicText bus (word_of_int col) (word_of_int row) cs font s) (Pair (Inr ())))"
| "lcd_exec bus (Call (Rectangle col1 row1 col2 row2 b fill)) =
     rectangle bus (word_of_int col1) (word_of_int row1) (word_of_int col2) (word_of_int row2) b fill"
| "lcd_exec bus (Call (DrawSignal signal)) = LCD_drawSignal bus (word_of_int signal)"
| "lcd_exec bus (Call (DrawNTPState ntpSync)) = LCD_drawNTPState bus ntpSync"
| "lcd_exec bus (Point x y b) = point bus x y b"
| "lcd_exec bus (HLine col1 col2 row b) = hLine bus col1 col2 row b"
| "lcd_exec bus (VLine col row1 row2 b) = vLine bus col row1 row2 b"

primrec lcd_run :: "i2c_bus \<Rightarrow> lcd_request list \<Rightarrow> unit lcd_op" where
  "lcd_run bus [] s = (Inr (), s)"
| "lcd_run bus (r # rs) s = seq_io (lcd_exec bus r s) (lcd_run bus rs)"

text \<open>What a request means for the picture.\<close>

definition paint_signal :: "u8 \<Rightarrow> picture \<Rightarrow> picture" where
  "paint_signal signal p = (\<lambda>x y.
     if y \<le> 3 \<and> 156 + y \<le> x \<and> x \<le> 159 then sint signal \<ge> 75 - 25 * int (unat y) else p x y)"

definition paint_ntp :: "bool \<Rightarrow> picture \<Rightarrow> picture" where
  "paint_ntp ntpSync p =
     (if ntpSync then (\<lambda>x y. (x, y) \<in> {(150, 2), (151, 3), (152, 2), (153, 1), (154, 0)} \<or> p x y)
      else paint_box 150 0 155 3 False p)"

fun paint :: "(FontType \<Rightarrow> FontInfo) \<Rightarrow> lcd_request \<Rightarrow> picture \<Rightarrow> picture" where
  "paint fm (Call InitGraphic) p = p"
| "paint fm (Call ClearGraphicDisplay) p = (\<lambda>x y. False)"
| "paint fm (Call (WriteGraphicText col row cs font)) p =
     paint_text (fm font) (word_of_int col) (word_of_int row) cs p"
| "paint fm (Call (Rectangle col1 row1 col2 row2 b fill)) p =
     paint_rectangle (word_of_int col1) (word_of_int row1) (word_of_int col2) (word_of_int row2) b fill p"
| "paint fm (Call (DrawSignal signal)) p = paint_signal (word_of_int signal) p"
| "paint fm (Call (DrawNTPState ntpSync)) p = paint_ntp ntpSync p"
| "paint fm (Point x y b) p = paint_point x y b p"
| "paint fm (HLine col1 col2 row b) p = paint_box col1 row col2 row b p"
| "paint fm (VLine col row1 row2 b) p = paint_box col row1 col row2 b p"

fun request_ok :: "lcd_request \<Rightarrow> bool" where
  "request_ok (Call (WriteGraphicText col row cs font)) \<longleftrightarrow> (\<forall>c\<in>set cs. printable (of_char c))"
| "request_ok r \<longleftrightarrow> True"

section \<open>Every request shows its picture on the panel\<close>

lemma draw_displays:
  assumes "reliable bus" "displays p0 p s"
    "\<And>ram m. wf_ram ram \<and> synced ram m \<Longrightarrow> synced (f ram) m" "agrees (f (mGraphicRam s)) q"
  shows "\<exists>t. draw bus f s = (Inr (), t) \<and> displays p0 q t \<and> lcd_IO t = lcd_IO s \<and> mFontMap t = mFontMap s"
proof -
  let ?s = "s\<lparr>mGraphicRam := f (mGraphicRam s)\<rparr>"
  have same: "panel_of p0 ?s = panel_of p0 s" "link p0 ?s = link p0 s" by (simp_all add: panel_of_def link_def)
  have "ready p0 ?s"
    using assms(2-4) unfolding ready_def same by (simp add: displays_def ready_def agrees_def)
  from refreshDisplay_displays [OF assms(1) this, of q] assms(4)
  show ?thesis by (simp add: draw_def)
qed

lemma displays_agrees: "displays p0 p s \<Longrightarrow> agrees (mGraphicRam s) p"
  by (simp add: displays_def)

lemma agrees_signal:
  assumes "agrees ram p"
  shows "agrees ((rawPoint 159 3 (sint signal \<ge> 0) \<circ> rawHLine (159 - 1) 159 2 (sint signal \<ge> 25) \<circ>
               rawHLine (159 - 2) 159 1 (sint signal \<ge> 50) \<circ> rawHLine (159 - 3) 159 0 (sint signal \<ge> 75)) ram)
             (paint_signal signal p)"
proof -
  have y: "y \<le> 3 \<longleftrightarrow> y = 0 \<or> y = 1 \<or> y = 2 \<or> y = 3" for y :: u8
    by (auto simp: word_le_nat_alt word_unat_eq_iff)
  have "paint_point 159 3 (sint signal \<ge> 0) (paint_box (159 - 1) 2 159 2 (sint signal \<ge> 25)
      (paint_box (159 - 2) 1 159 1 (sint signal \<ge> 50) (paint_box (159 - 3) 0 159 0 (sint signal \<ge> 75) p))) = paint_signal signal p"
    by (intro ext) (auto simp: paint_signal_def paint_point_def paint_box_def y)
  then show ?thesis
    using agrees_rawPoint [OF agrees_rawHLine [OF agrees_rawHLine [OF agrees_rawHLine [OF assms,
      of "159 - 3" 159 0 "sint signal \<ge> 75"], of "159 - 2" 159 1 "sint signal \<ge> 50"], of "159 - 1" 159 2 "sint signal \<ge> 25"],
      of 159 3 "sint signal \<ge> 0"] by simp
qed

lemma agrees_ntp:
  assumes "agrees ram p"
  shows "agrees ((rawPoint 154 0 True \<circ> rawPoint 153 1 True \<circ> rawPoint 152 2 True \<circ>
                     rawPoint 151 3 True \<circ> rawPoint 150 2 True) ram) (paint_ntp True p)"
proof -
  have "agrees ((rawPoint 154 0 True \<circ> rawPoint 153 1 True \<circ> rawPoint 152 2 True \<circ>
      rawPoint 151 3 True \<circ> rawPoint 150 2 True) ram)
      (paint_point 154 0 True (paint_point 153 1 True (paint_point 152 2 True (paint_point 151 3 True (paint_point 150 2 True p)))))"
    by (simp add: agrees_rawPoint assms)
  then show ?thesis by (rule agrees_cong) (auto simp: paint_ntp_def paint_point_def)
qed

lemma agrees_clear: "agrees ram p \<Longrightarrow> agrees (map (map (\<lambda>w. w\<lparr>mBits := 0, mChanged := True\<rparr>)) ram) (\<lambda>x y. False)"
  by (auto simp: agrees_def wf_ram_def pixel_def le_159 le_31 less_mult_imp_div_less)

lemma synced_clear: "wf_ram ram \<Longrightarrow> synced (map (map (\<lambda>w. w\<lparr>mBits := 0, mChanged := True\<rparr>)) ram) m"
  by (auto simp: synced_def wf_ram_def)

lemmas keeps_step = conjunct2 [OF in_step.point] conjunct2 [OF in_step.hline] conjunct2 [OF in_step.vline]
  conjunct2 [OF in_step.rectangle]

lemma synced_signal:
  "wf_ram ram \<and> synced ram m \<Longrightarrow>
   synced ((rawPoint 159 3 b0 \<circ> rawHLine (159 - 1) 159 2 b1 \<circ> rawHLine (159 - 2) 159 1 b2 \<circ> rawHLine (159 - 3) 159 0 b3) ram) m"
  unfolding comp_def by (rule conjunct2 [OF in_step.point, OF in_step.hline, OF in_step.hline, OF in_step.hline])

lemma synced_ntp:
  "wf_ram ram \<and> synced ram m \<Longrightarrow>
   synced ((rawPoint 154 0 True \<circ> rawPoint 153 1 True \<circ> rawPoint 152 2 True \<circ> rawPoint 151 3 True \<circ> rawPoint 150 2 True) ram) m"
  unfolding comp_def
  by (rule conjunct2 [OF in_step.point, OF in_step.point, OF in_step.point, OF in_step.point, OF in_step.point])

definition fonts_ok :: "LCDisplay \<Rightarrow> bool" where
  "fonts_ok s \<longleftrightarrow> (\<forall>font. font_ok (mFontMap s font))"

lemma reliable_initGraphic:
  assumes "reliable bus" "link p0 s"
  shows "\<exists>t. initGraphic bus s = (Inr (), t) \<and> same_frame s t \<and> link p0 t \<and> panel_of p0 t = (panel_of p0 s)\<lparr>g_half := None\<rparr>"
proof -
  obtain s1 where s1: "writeControl bus 0x34 s = (Inr (), s1)" "delivers p0 False 0x34 s s1"
    using reliable_writeControl [OF assms] by blast
  then have "link p0 s1" by (simp add: delivers_def)
  then obtain s2 where s2: "writeControl bus 0x36 s1 = (Inr (), s2)" "delivers p0 False 0x36 s1 s2"
    using reliable_writeControl [OF assms(1)] by blast
  show ?thesis
    using s1 s2 same_frame_trans by (auto simp: initGraphic_def delivers_def panel_take_def)
qed

lemma text_displays:
  assumes "reliable bus" "displays p0 p s" "font_ok (mFontMap s font)" "\<forall>c\<in>set cs. printable (of_char c)"
  shows "\<exists>t. writeGraphicText bus col row cs font s = (Inr True, t) \<and> displays p0 (paint_text (mFontMap s font) col row cs p) t \<and>
     lcd_IO t = lcd_IO s \<and> mFontMap t = mFontMap s"
proof -
  obtain ram where ram: "draw_text (mFontMap s font) col row cs (mGraphicRam s) = Some ram"
      "agrees ram (paint_text (mFontMap s font) col row cs p)"
    using agrees_draw_text [OF assms(3,4) displays_agrees [OF assms(2)]] by blast
  let ?s = "s\<lparr>mGraphicRam := ram\<rparr>"
  have same: "panel_of p0 ?s = panel_of p0 s" "link p0 ?s = link p0 s" by (simp_all add: panel_of_def link_def)
  have "ready p0 ?s"
    using in_step.draw_text [OF _ ram(1), of "g_ram (panel_of p0 s)"] assms(2)
    unfolding ready_def same by (simp add: displays_def ready_def)
  from refreshDisplay_displays [OF assms(1) this, of "paint_text (mFontMap s font) col row cs p"] ram
  show ?thesis by (auto simp: writeGraphicText_def)
qed

lemma exec_displays:
  assumes "reliable bus" "displays p0 p s" "fonts_ok s" "request_ok r"
  shows "\<exists>t. lcd_exec bus r s = (Inr (), t) \<and> displays p0 (paint (mFontMap s) r p) t \<and> mFontMap t = mFontMap s"
proof -
  note ag = displays_agrees [OF assms(2)]
  have d: "\<exists>t. draw bus f s = (Inr (), t) \<and> displays p0 q t \<and> mFontMap t = mFontMap s"
    if "\<And>ram m. wf_ram ram \<and> synced ram m \<Longrightarrow> synced (f ram) m" "agrees (f (mGraphicRam s)) q" for f q
    using draw_displays [where f = f, OF assms(1,2) that] by blast
  show ?thesis
  proof (cases r)
    case (Call c)
    show ?thesis
    proof (cases c)
      case InitGraphic
      obtain t where "initGraphic bus s = (Inr (), t)" "same_frame s t" "link p0 t" "panel_of p0 t = (panel_of p0 s)\<lparr>g_half := None\<rparr>"
        using reliable_initGraphic [OF assms(1), of p0 s] assms(2) by (auto simp: displays_def ready_def)
      then show ?thesis using assms(2) Call InitGraphic
        by (auto simp: displays_def ready_def same_frame_def panel_pixel_def)
    next
      case ClearGraphicDisplay
      show ?thesis unfolding Call ClearGraphicDisplay lcd_exec.simps paint.simps clearGraphicDisplay_def
        by (rule d) (simp_all add: synced_clear agrees_clear [OF ag])
    next
      case (WriteGraphicText col row cs font)
      then obtain t where "writeGraphicText bus (word_of_int col) (word_of_int row) cs font s = (Inr True, t)"
          "displays p0 (paint_text (mFontMap s font) (word_of_int col) (word_of_int row) cs p) t" "mFontMap t = mFontMap s"
        using text_displays [OF assms(1,2), of font cs "word_of_int col" "word_of_int row"] assms(3,4) Call
        by (auto simp: fonts_ok_def)
      then show ?thesis unfolding Call WriteGraphicText by simp
    next
      case (Rectangle col1 row1 col2 row2 b fill)
      show ?thesis unfolding Call Rectangle lcd_exec.simps paint.simps rectangle_def
        by (rule d) (simp_all add: keeps_step agrees_rawRectangle [OF ag])
    next
      case (DrawSignal signal)
      show ?thesis unfolding Call DrawSignal lcd_exec.simps paint.simps LCD_drawSignal_def
        by (rule d) (rule synced_signal, assumption, rule agrees_signal [OF ag])
    next
      case (DrawNTPState n)
      show ?thesis
      proof (cases n)
        case True
        then have n: "n = True" by simp
        show ?thesis unfolding Call DrawNTPState lcd_exec.simps paint.simps LCD_drawNTPState_def n if_True
          by (rule d) (rule synced_ntp, assumption, rule agrees_ntp [OF ag])
      next
        case False
        have "paint_ntp False p = paint_rectangle 150 0 155 3 False True p" by (simp add: paint_ntp_def paint_rectangle_def)
        then show ?thesis unfolding Call DrawNTPState lcd_exec.simps paint.simps LCD_drawNTPState_def rectangle_def
          using False d [of "rawRectangle 150 0 155 3 False True"] agrees_rawRectangle [OF ag] by (simp add: keeps_step)
      qed
    qed
  next
    case (Point x y b)
    show ?thesis unfolding Point lcd_exec.simps paint.simps point_def
      by (rule d) (simp_all add: keeps_step agrees_rawPoint [OF ag])
  next
    case (HLine col1 col2 row b)
    show ?thesis unfolding HLine lcd_exec.simps paint.simps hLine_def
      by (rule d) (simp_all add: keeps_step agrees_rawHLine [OF ag])
  next
    case (VLine col row1 row2 b)
    show ?thesis unfolding VLine lcd_exec.simps paint.simps vLine_def
      by (rule d) (simp_all add: keeps_step agrees_rawVLine [OF ag])
  qed
qed

lemma run_displays:
  assumes "reliable bus" "displays p0 p s" "fonts_ok s" "\<forall>r\<in>set rs. request_ok r"
  shows "\<exists>t. lcd_run bus rs s = (Inr (), t) \<and> displays p0 (fold (paint (mFontMap s)) rs p) t \<and> mFontMap t = mFontMap s"
  using assms(2-)
proof (induction rs arbitrary: p s)
  case (Cons r rs)
  obtain t where t: "lcd_exec bus r s = (Inr (), t)" "displays p0 (paint (mFontMap s) r p) t" "mFontMap t = mFontMap s"
    using exec_displays [OF assms(1) Cons.prems(1,2)] Cons.prems(3) by auto
  then have "fonts_ok t" using Cons.prems(2) by (simp add: fonts_ok_def)
  from Cons.IH [OF t(2) this] Cons.prems(3) t(1,3) show ?case by auto
qed simp

text \<open>The constructor: the expander is set up, and the instructions of \<open>init\<close> leave no half address.\<close>

lemma ports_setup:
  assumes "reliable bus" "r \<noteq> GPIOA" "r \<noteq> GPIOB"
  shows "\<exists>i'. writeData bus a [r, v] DEFAULT_I2C_RETRY i = (Inr True, i') \<and> ports_after p0 b i' = ports_after p0 b i"
  using reliable_writeData [OF assms(1), of "[r, v]" DEFAULT_I2C_RETRY a i] assms(2,3)
  by (auto simp: DEFAULT_I2C_RETRY_def ports_after_def port_io_def split: prod.splits)

lemma ports_direction:
  assumes "reliable bus"
  shows "\<exists>i'. IO_directionA bus a d i = (Inr True, i') \<and> ports_after p0 b i' = ports_after p0 b i"
    and "\<exists>i'. IO_directionB bus a d i = (Inr True, i') \<and> ports_after p0 b i' = ports_after p0 b i"
proof -
  have *: "\<exists>i'. seq_io (writeData bus a [r1, v] DEFAULT_I2C_RETRY i) (\<lambda>s1.
      seq_io (writeData bus a [r2, v] DEFAULT_I2C_RETRY s1) (\<lambda>s2. (Inr True, s2))) = (Inr True, i') \<and>
      ports_after p0 b i' = ports_after p0 b i" if r: "r1 \<noteq> GPIOA" "r1 \<noteq> GPIOB" "r2 \<noteq> GPIOA" "r2 \<noteq> GPIOB" for r1 r2 v
  proof -
    obtain i1 where i1: "writeData bus a [r1, v] DEFAULT_I2C_RETRY i = (Inr True, i1)"
        "ports_after p0 b i1 = ports_after p0 b i" using ports_setup [OF assms r(1,2)] by blast
    obtain i2 where "writeData bus a [r2, v] DEFAULT_I2C_RETRY i1 = (Inr True, i2)"
        "ports_after p0 b i2 = ports_after p0 b i1" using ports_setup [OF assms r(3,4)] by blast
    with i1 show ?thesis by simp
  qed
  show "\<exists>i'. IO_directionA bus a d i = (Inr True, i') \<and> ports_after p0 b i' = ports_after p0 b i"
    "\<exists>i'. IO_directionB bus a d i = (Inr True, i') \<and> ports_after p0 b i' = ports_after p0 b i"
    unfolding IO_directionA_def IO_directionB_def Let_def
    by (rule *; simp add: DIRA_def DIRB_def GPPUA_def GPPUB_def GPIOA_def GPIOB_def)+
qed

lemma ports_IO_init:
  assumes "reliable bus"
  shows "\<exists>i'. IO_init bus a i = (Inr True, i') \<and> ports_after p0 b i' = ports_after p0 b i"
proof -
  obtain i0 where i0: "writeData bus a [0x0A, 0x20] DEFAULT_I2C_RETRY i = (Inr True, i0)"
      "ports_after p0 b i0 = ports_after p0 b i"
    using ports_setup [OF assms, of "0x0A" a "0x20" i p0 b] by (auto simp: GPIOA_def GPIOB_def)
  obtain i1 where i1: "IO_directionA bus a dirOut i0 = (Inr True, i1)" "ports_after p0 b i1 = ports_after p0 b i0"
    using ports_direction(1) [OF assms] by blast
  obtain i2 where "IO_directionB bus a dirOut i1 = (Inr True, i2)" "ports_after p0 b i2 = ports_after p0 b i1"
    using ports_direction(2) [OF assms] by blast
  with i0 i1 show ?thesis by (simp add: IO_init_def)
qed

text \<open>A step that sends one instruction below 0x80.\<close>

definition at_ease :: "ports \<Rightarrow> LCDisplay \<Rightarrow> LCDisplay \<Rightarrow> bool" where
  "at_ease p0 s s' \<longleftrightarrow> same_frame s s' \<and> link p0 s' \<and> g_half (panel_of p0 s') = None"

lemma reliable_instruction:
  assumes "reliable bus" "link p0 s" "\<not> bit byte 7"
  shows "\<exists>t. writeControl bus byte s = (Inr (), t) \<and> at_ease p0 s t"
  using reliable_writeControl [OF assms(1,2), of byte] assms(3)
  by (auto simp: delivers_def at_ease_def panel_take_def)

lemma reliable_LCD_init:
  assumes "reliable bus" "link p0 s"
  shows "\<exists>t. LCD_init bus s = (Inr (), t) \<and> at_ease p0 s t"
proof -
  have step: "\<exists>t. seq_io (writeControl bus byte u) f = (Inr (), t) \<and> at_ease p0 s t"
    if u: "same_frame s u" "link p0 u" "\<not> bit byte 7" "\<And>v. at_ease p0 s v \<Longrightarrow> \<exists>t. f v = (Inr (), t) \<and> at_ease p0 s t" for u byte f
  proof -
    obtain v where v: "writeControl bus byte u = (Inr (), v)" "at_ease p0 u v"
      using reliable_instruction [OF assms(1) u(2,3)] by blast
    then have "at_ease p0 s v" using u(1) same_frame_trans by (auto simp: at_ease_def)
    then show ?thesis using u(4) v(1) by simp
  qed
  have last: "\<exists>t. writeControl bus byte u = (Inr (), t) \<and> at_ease p0 s t" if "at_ease p0 s u" "\<not> bit byte 7" for u byte
    using reliable_instruction [OF assms(1), of p0 u byte] that same_frame_trans by (auto simp: at_ease_def)
  have e: "at_ease p0 s u \<Longrightarrow> same_frame s u" "at_ease p0 s u \<Longrightarrow> link p0 u" for u by (simp_all add: at_ease_def)
  show ?thesis
    unfolding LCD_init_def clearStandardDisplay_def
    by (intro step) (use assms(2) e last in \<open>auto simp: same_frame_def\<close>)
qed

lemma new_ready:
  assumes "reliable bus" "ports_after p0 address i2c = (pa, 0, g)"
    "length verdana = 12384" "length terminal = 672"
  shows "\<exists>s. new_LCDisplay bus verdana terminal i2c address = (Inr (), s) \<and> wf_ram (mGraphicRam s) \<and>
     link p0 s \<and> g_half (panel_of p0 s) = None \<and> fonts_ok s"
proof -
  define s where "s = \<lparr>lcd_IO = address, mPortA = 0, mControlBus = 0,
               mGraphicRam = replicate 32 (replicate 10 \<lparr>mBits = 0, mChanged = False\<rparr>),
               mFontMap = (\<lambda>f. case f of
                   Verdana20 \<Rightarrow> \<lparr>mWidth = 32, mHeight = 25, mSpacing = 22, mPointer = verdana\<rparr>
                 | Terminal8 \<Rightarrow> \<lparr>mWidth = 6, mHeight = 8, mSpacing = 6, mPointer = terminal\<rparr>),
               lcd_I2C = i2c\<rparr>"
  obtain i where i: "IO_init bus address i2c = (Inr True, i)" "ports_after p0 address i = (pa, 0, g)"
    using ports_IO_init [OF assms(1), of address i2c p0 address] assms(2) by auto
  define t where "t = s\<lparr>lcd_I2C := registerAddress address ''Display'' i\<rparr>"
  have reg: "bus_log (registerAddress address ''Display'' i) = bus_log i" by (simp add: registerAddress_def)
  then have "ports_after p0 address (registerAddress address ''Display'' i) = (pa, 0, g)"
    using i(2) by (simp add: ports_after_def)
  then have "link p0 t" by (simp add: link_def t_def s_def)
  then obtain u where u: "LCD_init bus t = (Inr (), u)" "at_ease p0 t u"
    using reliable_LCD_init [OF assms(1)] by blast
  have "new_LCDisplay bus verdana terminal i2c address = (Inr (), u)"
    unfolding new_LCDisplay_def Let_def s_def [symmetric] using u(1) i(1)
    by (simp add: lcd_bus_def t_def) (simp add: s_def)
  moreover have "wf_ram (mGraphicRam t)" by (simp add: t_def s_def wf_ram_def)
  moreover have "fonts_ok t"
    using assms(3,4) by (simp add: fonts_ok_def font_ok_def t_def s_def bytesPerCharCol_def split: FontType.split)
  ultimately show ?thesis using u(2) by (auto simp: at_ease_def same_frame_def fonts_ok_def)
qed

lemma first_clear:
  assumes "reliable bus" "link p0 s" "wf_ram (mGraphicRam s)" "g_half (panel_of p0 s) = None"
  shows "\<exists>t. clearGraphicDisplay bus s = (Inr (), t) \<and> displays p0 (\<lambda>x y. False) t \<and> mFontMap t = mFontMap s"
proof -
  define ram where "ram = map (map (\<lambda>w. w\<lparr>mBits := 0, mChanged := True\<rparr>)) (mGraphicRam s)"
  let ?s = "s\<lparr>mGraphicRam := ram\<rparr>"
  have same: "panel_of p0 ?s = panel_of p0 s" "link p0 ?s = link p0 s" by (simp_all add: panel_of_def link_def)
  have ag: "agrees ram (\<lambda>x y. False)"
    unfolding ram_def by (rule agrees_clear [of _ "pixel (mGraphicRam s)"]) (simp add: agrees_def assms(3))
  then have "ready p0 ?s"
    using assms synced_clear [OF assms(3), folded ram_def] by (simp add: ready_def same agrees_def)
  from refreshDisplay_displays [OF assms(1) this, of "\<lambda>x y. False"] ag
  show ?thesis by (auto simp: clearGraphicDisplay_def draw_def ram_def)
qed



definition ex_ports :: ports where
  "ex_ports = (0, 0, \<lparr>g_half = None, g_row = 0, g_col = 0, g_high = None, g_ram = (\<lambda>r c. 0xFFFF)\<rparr>)"

definition ex_requests :: "lcd_request list" where
  "ex_requests = [Call (WriteGraphicText 44 0 ''07:30'' Verdana20), Call (DrawSignal 60),
     Call (Rectangle 158 10 159 31 True False), HLine 20 40 30 True, Point 30 30 False]"


lemma lcd_bus_ram [simp]: "mGraphicRam (snd (lcd_bus f s)) = mGraphicRam s"
  by (simp add: lcd_bus_def split_beta)

lemma transfer_ram [simp]:
  "mGraphicRam (snd (setRSRWBits bus rs rw s)) = mGraphicRam s"
  "mGraphicRam (snd (strobe bus s)) = mGraphicRam s"
  "mGraphicRam (snd (LCD_writeData bus byte s)) = mGraphicRam s"
  "mGraphicRam (snd (writeControl bus byte s)) = mGraphicRam s"
  "mGraphicRam (snd (setGAddress bus v h s)) = mGraphicRam s"
  "mGraphicRam (snd (initGraphic bus s)) = mGraphicRam s"
proof -
  show *: "mGraphicRam (snd (setRSRWBits bus rs rw s)) = mGraphicRam s"
    "mGraphicRam (snd (strobe bus s)) = mGraphicRam s" for rs rw s
    by (simp_all add: setRSRWBits_def strobe_def Let_def seq_io_keeps [of mGraphicRam])
  show **: "mGraphicRam (snd (LCD_writeData bus byte s)) = mGraphicRam s"
    "mGraphicRam (snd (writeControl bus byte s)) = mGraphicRam s" for byte s
    by (simp_all add: LCD_writeData_def writeControl_def seq_io_keeps [of mGraphicRam] *)
  show "mGraphicRam (snd (setGAddress bus v h s)) = mGraphicRam s" "mGraphicRam (snd (initGraphic bus s)) = mGraphicRam s"
    by (simp_all add: setGAddress_def initGraphic_def seq_io_keeps [of mGraphicRam] **)
qed

lemma seq_io_shape:
  "wf_ram (mGraphicRam (snd r)) \<Longrightarrow> (\<And>s. wf_ram (mGraphicRam s) \<Longrightarrow> wf_ram (mGraphicRam (snd (f s)))) \<Longrightarrow>
   wf_ram (mGraphicRam (snd (seq_io r f)))"
  by (cases "fst r") (simp_all add: seq_io_def split_beta)

lemma refresh_shape: "wf_ram (mGraphicRam s) \<Longrightarrow> wf_ram (mGraphicRam (snd (refreshDisplay bus s)))"
proof -
  have row: "wf_ram (mGraphicRam s) \<Longrightarrow> wf_ram (mGraphicRam (snd (refresh_row bus vert hs prev s)))" for vert hs prev s
    by (induction hs arbitrary: prev s) (auto intro!: seq_io_shape simp: clear_changed_def wf_ram_update)
  have "wf_ram (mGraphicRam s) \<Longrightarrow> wf_ram (mGraphicRam (snd (refresh_rows bus vs s)))" for vs
    by (induction vs arbitrary: s) (auto intro!: seq_io_shape row)
  then show "wf_ram (mGraphicRam s) \<Longrightarrow> wf_ram (mGraphicRam (snd (refreshDisplay bus s)))"
    by (simp add: refreshDisplay_def)
qed

lemma exec_shape: "wf_ram (mGraphicRam s) \<Longrightarrow> wf_ram (mGraphicRam (snd (lcd_exec bus r s)))"
proof -
  assume wf: "wf_ram (mGraphicRam s)"
  note sh = refresh_shape shape.point shape.hline shape.vline shape.rectangle
  have clear: "wf_ram ram \<Longrightarrow> wf_ram (map (map f) ram)" for ram f by (auto simp: wf_ram_def)
  have tx: "wf_ram (mGraphicRam (snd (writeGraphicText bus col row cs font s)))" for col row cs font
    using wf shape.draw_text by (auto simp: writeGraphicText_def split: option.splits intro!: seq_io_shape refresh_shape)
  show ?thesis
    using wf tx
    by (cases "(bus, r)" rule: lcd_exec.cases)
      (auto simp: clearGraphicDisplay_def rectangle_def LCD_drawSignal_def LCD_drawNTPState_def point_def hLine_def
        vLine_def draw_def comp_def intro!: sh clear seq_io_shape)
qed

lemma run_shape: "wf_ram (mGraphicRam s) \<Longrightarrow> wf_ram (mGraphicRam (snd (lcd_run bus rs s)))"
  by (induction rs arbitrary: s) (auto intro!: seq_io_shape exec_shape)

lemma LCD_init_ram: "mGraphicRam (snd (LCD_init bus s)) = mGraphicRam s"
  by (simp add: LCD_init_def clearStandardDisplay_def seq_io_keeps [of mGraphicRam])

lemma new_shape: "wf_ram (mGraphicRam (snd (new_LCDisplay bus verdana terminal i2c address)))"
  unfolding new_LCDisplay_def Let_def
  by (rule seq_io_shape) (simp_all add: LCD_init_ram, simp add: wf_ram_def)


end
