(* ===== verification/Lcd_Firmware.thy ===== *)
theory Lcd_Firmware
  imports Mainboard Clock_Display
begin

text \<open>
  The display controller (\<open>rgbclock/LcdDriver/LcdDriver.ino\<close>, \<open>Commands.h\<close>): an Arduino that takes
  commands over I2C in an interrupt, one at a time, and carries them out in its main loop with the
  U8g2 library. The calls of that library are logged; \<open>getStrWidth\<close>, the width of a text in
  a font, is its only answer and is a parameter. The main loop is split where an interrupt can
  see the difference: after the test, after the drawing and between its two last assignments.
\<close>

section \<open>State\<close>

datatype u8g2_font = u8g2_font_6x10_tf | verdana_tf

datatype u8g2_call =
    clearBuffer
  | clearDisplay
  | setFont u8g2_font
  | setFontMode int
  | setDrawColor int
  | drawBox int int int int
  | drawStr int int string
  | drawUTF8 int int string
  | sendBuffer

datatype loop_pc = LoopTop | AtSwitch | AtReceived | AtProcessed

record LcdDriver =
  commandReceived :: bool
  commandProcessed :: bool
  receivedCommand :: u8
  receivedCommandData :: bytes
  receivedCommandLength :: nat
  loop_pc :: loop_pc
  u8g2_log :: "u8g2_call list"

definition LCD_RESET :: u8 where "LCD_RESET = 0x01"
definition LCD_CLEAR_SCREEN :: u8 where "LCD_CLEAR_SCREEN = 0x02"
definition LCD_CLEAR_REGION :: u8 where "LCD_CLEAR_REGION = 0x03"
definition LCD_WRITE_TEXT :: u8 where "LCD_WRITE_TEXT = 0x04"
definition LCD_RECTANGLE :: u8 where "LCD_RECTANGLE = 0x05"
definition LCD_FONT_SMALL :: int where "LCD_FONT_SMALL = 0x01"
definition LCD_FONT_LARGE :: int where "LCD_FONT_LARGE = 0x02"
definition MAX_DATA_SIZE :: nat where "MAX_DATA_SIZE = 25"

lemmas lcd_codes = LCD_RESET_def LCD_CLEAR_SCREEN_def LCD_CLEAR_REGION_def LCD_WRITE_TEXT_def LCD_RECTANGLE_def

text \<open>After \<open>setup\<close>; the globals that it does not assign are zero.\<close>

definition LcdDriver_setup :: LcdDriver where
  "LcdDriver_setup =
     \<lparr>commandReceived = False, commandProcessed = True, receivedCommand = 0,
      receivedCommandData = replicate MAX_DATA_SIZE 0, receivedCommandLength = 0, loop_pc = LoopTop,
      u8g2_log = [clearBuffer, setFont u8g2_font_6x10_tf, drawStr 1 15 ''Waiting for I2C commands...'', sendBuffer]\<rparr>"

section \<open>The interrupts\<close>

fun read_data :: "bytes \<Rightarrow> bytes \<Rightarrow> nat \<Rightarrow> bytes \<times> nat" where
  "read_data [] data index = (data, index)"
| "read_data (b # bs) data index =
     (if index < MAX_DATA_SIZE then read_data bs (data[index := b]) (index + 1)
      else read_data bs data index)"

definition receiveEvent :: "bytes \<Rightarrow> LcdDriver \<Rightarrow> LcdDriver" where
  "receiveEvent bytesReceived s =
     (if length bytesReceived > 0
      then if commandProcessed s
           then let s = s\<lparr>receivedCommand := hd bytesReceived\<rparr>
                in if receivedCommand s > 0
                   then let (data, index) = read_data (tl bytesReceived) (receivedCommandData s) 0
                        in s\<lparr>receivedCommandData := data, receivedCommandLength := index,
                             commandProcessed := False, commandReceived := True\<rparr>
                   else s
           else s
      else s)"

definition requestEvent :: "LcdDriver \<Rightarrow> u8" where
  "requestEvent s = (if commandProcessed s then 1 else 0)"

section \<open>The commands\<close>

definition lcdReset :: "u8g2_call list" where
  "lcdReset = [clearDisplay]"

definition lcdClearScreen :: "u8g2_call list" where
  "lcdClearScreen = [clearDisplay]"

definition lcdClearRegion :: "int \<Rightarrow> int \<Rightarrow> int \<Rightarrow> int \<Rightarrow> u8g2_call list" where
  "lcdClearRegion x1 y1 x2 y2 = [setDrawColor 0, drawBox x1 y1 \<bar>x2 - x1\<bar> \<bar>y2 - y1\<bar>, sendBuffer]"

definition c_str :: "string \<Rightarrow> string" where
  "c_str = takeWhile (\<lambda>c. c \<noteq> CHR 0x00)"

definition lcdWriteText ::
  "(u8g2_font \<Rightarrow> string \<Rightarrow> int) \<Rightarrow> int \<Rightarrow> int \<Rightarrow> int \<Rightarrow> int \<Rightarrow> string \<Rightarrow> u8g2_call list" where
  "lcdWriteText getStrWidth fsize x y clearLength txt1 =
     (let font = (if fsize = LCD_FONT_SMALL then u8g2_font_6x10_tf
                  else if fsize = LCD_FONT_LARGE then verdana_tf else u8g2_font_6x10_tf);
          fontHeight = (if fsize = LCD_FONT_SMALL then 8 else if fsize = LCD_FONT_LARGE then 22 else 8);
          charArray = c_str (take (MAX_DATA_SIZE - 1) txt1);
          clearLength = (if clearLength = 0 then getStrWidth font charArray else clearLength)
      in [setFont font, setDrawColor 0, drawBox (x - 1) (y - 1) (clearLength + 2) (fontHeight + 2),
          setFontMode 0, setDrawColor 1, drawUTF8 x (y + fontHeight) charArray, sendBuffer])"

definition lcdRectangle :: "int \<Rightarrow> int \<Rightarrow> int \<Rightarrow> int \<Rightarrow> bool \<Rightarrow> bool \<Rightarrow> u8g2_call list" where
  "lcdRectangle x1 y1 x2 y2 b fill =
     [setDrawColor (if b then 1 else 0), drawBox x1 y1 \<bar>x2 - x1\<bar> \<bar>y2 - y1\<bar>, sendBuffer]"

text \<open>The switch of \<open>loop\<close>.\<close>

definition process_command ::
  "(u8g2_font \<Rightarrow> string \<Rightarrow> int) \<Rightarrow> u8 \<Rightarrow> bytes \<Rightarrow> nat \<Rightarrow> u8g2_call list" where
  "process_command getStrWidth cmd data len =
     (let d = (\<lambda>i. int (unat (data ! i))) in
      if cmd = LCD_RESET then lcdReset
      else if cmd = LCD_CLEAR_SCREEN then lcdClearScreen
      else if cmd = LCD_CLEAR_REGION
      then (if len \<ge> 4 then lcdClearRegion (d 0) (d 1) (d 2) (d 3) else [])
      else if cmd = LCD_WRITE_TEXT
      then (if len \<ge> 5
            then lcdWriteText getStrWidth (d 0) (d 1) (d 2) (d 3) (map (\<lambda>i. char_of (unat (data ! i))) [4..<len])
            else [])
      else if cmd = LCD_RECTANGLE
      then (if len \<ge> 5 then lcdRectangle (d 0) (d 1) (d 2) (d 3) (d 4 \<noteq> 0) (d 5 \<noteq> 0) else [])
      else [])"

definition loop_step :: "(u8g2_font \<Rightarrow> string \<Rightarrow> int) \<Rightarrow> LcdDriver \<Rightarrow> LcdDriver" where
  "loop_step getStrWidth s =
     (case loop_pc s of
        LoopTop \<Rightarrow> (if commandReceived s then s\<lparr>loop_pc := AtSwitch\<rparr> else s)
      | AtSwitch \<Rightarrow>
          s\<lparr>u8g2_log := u8g2_log s @ process_command getStrWidth (receivedCommand s) (receivedCommandData s) (receivedCommandLength s),
            loop_pc := AtReceived\<rparr>
      | AtReceived \<Rightarrow> s\<lparr>commandReceived := False, loop_pc := AtProcessed\<rparr>
      | AtProcessed \<Rightarrow> s\<lparr>commandProcessed := True, loop_pc := LoopTop\<rparr>)"

section \<open>The handshake\<close>

text \<open>
  While a command waits or is carried out, \<open>commandProcessed\<close> is false and the interrupt changes
  nothing; a command is free again only after it has been drawn.
\<close>

definition fw_inv :: "LcdDriver \<Rightarrow> bool" where
  "fw_inv s \<longleftrightarrow> length (receivedCommandData s) = MAX_DATA_SIZE \<and>
     (case loop_pc s of
        LoopTop \<Rightarrow> commandProcessed s \<longleftrightarrow> \<not> commandReceived s
      | AtSwitch \<Rightarrow> commandReceived s \<and> \<not> commandProcessed s
      | AtReceived \<Rightarrow> commandReceived s \<and> \<not> commandProcessed s
      | AtProcessed \<Rightarrow> \<not> commandReceived s \<and> \<not> commandProcessed s)"

text \<open>What the waiting command will draw.\<close>

definition to_draw :: "(u8g2_font \<Rightarrow> string \<Rightarrow> int) \<Rightarrow> LcdDriver \<Rightarrow> u8g2_call list" where
  "to_draw getStrWidth s =
     (if commandReceived s \<and> loop_pc s \<in> {LoopTop, AtSwitch}
      then process_command getStrWidth (receivedCommand s) (receivedCommandData s) (receivedCommandLength s) else [])"

lemma read_data_eq:
  "index + length bs \<le> MAX_DATA_SIZE \<Longrightarrow> length data = MAX_DATA_SIZE \<Longrightarrow>
   read_data bs data index = (take index data @ bs @ drop (index + length bs) data, index + length bs)"
proof (induction bs arbitrary: data index)
  case (Cons b bs)
  have lt: "index < length data" using Cons.prems by simp
  then have "take (Suc index) (data[index := b]) = take index data @ [b]"
    by (simp add: upd_conv_take_nth_drop)
  then show ?case using Cons lt by simp
qed simp

lemma read_data_length: "length (fst (read_data bs data index)) = length data"
  by (induction bs data index rule: read_data.induct) simp_all

lemma fw_inv_setup: "fw_inv LcdDriver_setup" "to_draw gw LcdDriver_setup = []"
  by (simp_all add: fw_inv_def LcdDriver_setup_def to_draw_def)

lemma loop_step_inv:
  assumes "fw_inv s"
  shows "fw_inv (loop_step gw s)"
    and "u8g2_log (loop_step gw s) @ to_draw gw (loop_step gw s) = u8g2_log s @ to_draw gw s"
    and "commandProcessed s \<Longrightarrow> loop_step gw s = s"
  using assms by (auto simp: fw_inv_def loop_step_def to_draw_def split: loop_pc.splits)

lemma receive_busy: "\<not> commandProcessed s \<Longrightarrow> receiveEvent msg s = s"
  by (simp add: receiveEvent_def)

lemma receive_poll:
  assumes "fw_inv s"
  shows "fw_inv (receiveEvent [0] s)" "commandProcessed (receiveEvent [0] s) = commandProcessed s"
    "u8g2_log (receiveEvent [0] s) = u8g2_log s" "to_draw gw (receiveEvent [0] s) = to_draw gw s"
    "commandReceived (receiveEvent [0] s) = commandReceived s" "loop_pc (receiveEvent [0] s) = loop_pc s"
  using assms by (auto simp: fw_inv_def receiveEvent_def to_draw_def split: loop_pc.splits)

lemma receive_command:
  assumes "fw_inv s" "commandProcessed s" "c > 0" "length bs \<le> MAX_DATA_SIZE"
  shows "fw_inv (receiveEvent (c # bs) s)" "\<not> commandProcessed (receiveEvent (c # bs) s)"
    "u8g2_log (receiveEvent (c # bs) s) = u8g2_log s"
    "to_draw gw (receiveEvent (c # bs) s) =
       process_command gw c (bs @ drop (length bs) (receivedCommandData s)) (length bs)"
proof -
  have top: "loop_pc s = LoopTop" using assms(1,2) by (auto simp: fw_inv_def split: loop_pc.splits)
  have len: "length (receivedCommandData s) = MAX_DATA_SIZE" using assms(1) by (simp add: fw_inv_def)
  have r: "read_data bs (receivedCommandData s) 0 = (bs @ drop (length bs) (receivedCommandData s), length bs)"
    using read_data_eq [of 0 bs "receivedCommandData s"] assms(4) len by simp
  show "fw_inv (receiveEvent (c # bs) s)" "\<not> commandProcessed (receiveEvent (c # bs) s)"
    "u8g2_log (receiveEvent (c # bs) s) = u8g2_log s"
    "to_draw gw (receiveEvent (c # bs) s) =
       process_command gw c (bs @ drop (length bs) (receivedCommandData s)) (length bs)"
    using assms top len r by (simp_all add: receiveEvent_def fw_inv_def to_draw_def)
qed

definition loop_steps :: "(u8g2_font \<Rightarrow> string \<Rightarrow> int) \<Rightarrow> nat \<Rightarrow> LcdDriver \<Rightarrow> LcdDriver" where
  "loop_steps gw n = loop_step gw ^^ n"

lemma loop_steps_inv:
  assumes "fw_inv s"
  shows "fw_inv (loop_steps gw n s)"
    and "u8g2_log (loop_steps gw n s) @ to_draw gw (loop_steps gw n s) = u8g2_log s @ to_draw gw s"
    and "commandProcessed s \<Longrightarrow> loop_steps gw n s = s"
proof -
  have "fw_inv (loop_steps gw n s) \<and>
      u8g2_log (loop_steps gw n s) @ to_draw gw (loop_steps gw n s) = u8g2_log s @ to_draw gw s \<and>
      (commandProcessed s \<longrightarrow> loop_steps gw n s = s)"
    using assms by (induction n) (auto simp: loop_steps_def loop_step_inv)
  then show "fw_inv (loop_steps gw n s)"
    "u8g2_log (loop_steps gw n s) @ to_draw gw (loop_steps gw n s) = u8g2_log s @ to_draw gw s"
    "commandProcessed s \<Longrightarrow> loop_steps gw n s = s" by blast+
qed

text \<open>Four steps of the loop carry out any command.\<close>

lemma loop_steps_finish:
  assumes "fw_inv s" "n \<ge> 4"
  shows "commandProcessed (loop_steps gw n s)"
proof -
  have four: "commandProcessed (loop_steps gw 4 s)"
    using assms(1) by (auto simp: fw_inv_def loop_steps_def loop_step_def numeral_eq_Suc split: loop_pc.splits)
  have "loop_steps gw n s = loop_steps gw (n - 4) (loop_steps gw 4 s)"
    using assms(2) by (metis comp_apply funpow_add le_add_diff_inverse2 loop_steps_def)
  then show ?thesis using four loop_steps_inv [OF assms(1), of gw 4] loop_steps_inv(3) by metis
qed

end
