(* ===== verification/Fast_Lcd.thy ===== *)
theory Fast_Lcd
  imports Lcd_Firmware
begin

text \<open>
  The display driver of the clock (\<open>rgbclock/RgbLib/src/lib/FastLCDisplay.cpp\<close>): each request waits
  until the controller says that it is ready, at most for 101 questions 10 ms apart, and then sends
  one command. The second half joins it with the controller of \<open>Lcd_Firmware\<close>, whose main loop
  runs as a schedule says before and inside each transfer.
\<close>

section \<open>The driver\<close>

record FastLCDisplay =
  fl_mI2c :: I2C
  fl_mAddress :: u8

type_synonym 'a fast_op = "FastLCDisplay \<Rightarrow> (i2c_exception + 'a) \<times> FastLCDisplay"

definition COMMAND_MAX_RETRY :: nat where "COMMAND_MAX_RETRY = 100"

definition fast_bus :: "'a io \<Rightarrow> 'a fast_op" where
  "fast_bus f s = (let (r, i) = f (fl_mI2c s) in (r, s\<lparr>fl_mI2c := i\<rparr>))"

definition isReady :: "i2c_bus \<Rightarrow> bool fast_op" where
  "isReady bus s =
     bind_io (fast_bus (readData_byte bus (fl_mAddress s) 0 DEFAULT_I2C_RETRY) s) (\<lambda>(ok, data) s. (Inr (data \<noteq> 0), s))"

function wait_loop :: "i2c_bus \<Rightarrow> bool \<Rightarrow> nat \<Rightarrow> bool fast_op" where
  "wait_loop bus isReadyValue retry s =
     (if \<not> isReadyValue \<and> retry < COMMAND_MAX_RETRY
      then (case isReady bus s of
              (Inl e, s) \<Rightarrow> (Inl e, s)
            | (Inr r, s) \<Rightarrow> wait_loop bus r (retry + 1) s)
      else (Inr isReadyValue, s))"
  by pat_completeness auto
termination by (relation "measure (\<lambda>(bus, r, retry, s). COMMAND_MAX_RETRY - retry)") auto

declare wait_loop.simps [simp del]

definition waitForReady :: "i2c_bus \<Rightarrow> bool fast_op" where
  "waitForReady bus s = bind_io (isReady bus s) (\<lambda>r. wait_loop bus r 0)"

definition fast_send :: "i2c_bus \<Rightarrow> bytes \<Rightarrow> unit fast_op" where
  "fast_send bus data s =
     seq_io (fast_bus (writeData bus (fl_mAddress s) data DEFAULT_I2C_RETRY) s) (Pair (Inr ()))"

definition Fast_clearGraphicDisplay :: "i2c_bus \<Rightarrow> unit fast_op" where
  "Fast_clearGraphicDisplay bus s =
     bind_io (waitForReady bus s) (\<lambda>ready s. if \<not> ready then (Inr (), s) else fast_send bus [LCD_CLEAR_SCREEN] s)"

definition Fast_writeGraphicText :: "i2c_bus \<Rightarrow> u8 \<Rightarrow> u8 \<Rightarrow> string \<Rightarrow> FontType \<Rightarrow> int \<Rightarrow> bool fast_op" where
  "Fast_writeGraphicText bus col row txt1 font clearLength s =
     bind_io (waitForReady bus s) (\<lambda>ready s.
       if \<not> ready then (Inr False, s)
       else let sendText = (if length txt1 > 20 then take 20 txt1 else txt1);
                data = [LCD_WRITE_TEXT, if font = Verdana20 then 2 else 1, col, row, word_of_int clearLength]
                         @ map of_char sendText
            in seq_io (fast_send bus data s) (Pair (Inr True)))"

definition Fast_rectangle :: "i2c_bus \<Rightarrow> u8 \<Rightarrow> u8 \<Rightarrow> u8 \<Rightarrow> u8 \<Rightarrow> bool \<Rightarrow> bool \<Rightarrow> unit fast_op" where
  "Fast_rectangle bus col1 row1 col2 row2 b fill s =
     bind_io (waitForReady bus s) (\<lambda>ready s.
       if \<not> ready then (Inr (), s)
       else fast_send bus [LCD_RECTANGLE, col1, row1, col2, row2, of_bool b, of_bool fill] s)"

definition Fast_init :: "i2c_bus \<Rightarrow> unit fast_op" where
  "Fast_init bus = fast_send bus [LCD_RESET]"

definition new_FastLCDisplay :: "i2c_bus \<Rightarrow> I2C \<Rightarrow> u8 \<Rightarrow> (i2c_exception + unit) \<times> FastLCDisplay" where
  "new_FastLCDisplay bus i2c address = Fast_init bus \<lparr>fl_mI2c = i2c, fl_mAddress = address\<rparr>"

text \<open>
  The calls through \<open>LCDisplayIf\<close>; \<open>initGraphic\<close>, \<open>drawSignal\<close> and \<open>drawNTPState\<close> have empty bodies, and
  \<open>clearLength\<close> has its default.
\<close>

fun fast_exec :: "i2c_bus \<Rightarrow> lcd_call \<Rightarrow> unit fast_op" where
  "fast_exec bus InitGraphic s = (Inr (), s)"
| "fast_exec bus ClearGraphicDisplay s = Fast_clearGraphicDisplay bus s"
| "fast_exec bus (WriteGraphicText col row txt1 font) s =
     seq_io (Fast_writeGraphicText bus (word_of_int col) (word_of_int row) txt1 font 0 s) (Pair (Inr ()))"
| "fast_exec bus (Rectangle col1 row1 col2 row2 b fill) s =
     Fast_rectangle bus (word_of_int col1) (word_of_int row1) (word_of_int col2) (word_of_int row2) b fill s"
| "fast_exec bus (DrawSignal signal) s = (Inr (), s)"
| "fast_exec bus (DrawNTPState ntpSync) s = (Inr (), s)"

primrec fast_run :: "i2c_bus \<Rightarrow> lcd_call list \<Rightarrow> unit fast_op" where
  "fast_run bus [] s = (Inr (), s)"
| "fast_run bus (c # cs) s = seq_io (fast_exec bus c s) (fast_run bus cs)"

section \<open>What a request puts on the bus\<close>

fun message :: "lcd_call \<Rightarrow> bytes option" where
  "message ClearGraphicDisplay = Some [LCD_CLEAR_SCREEN]"
| "message (WriteGraphicText col row txt1 font) =
     Some ([LCD_WRITE_TEXT, if font = Verdana20 then 2 else 1, word_of_int col, word_of_int row, 0]
             @ map of_char (take 20 txt1))"
| "message (Rectangle col1 row1 col2 row2 b fill) =
     Some [LCD_RECTANGLE, word_of_int col1, word_of_int row1, word_of_int col2, word_of_int row2, of_bool b, of_bool fill]"
| "message c = None"

definition reply :: "i2c_bus \<Rightarrow> nat \<Rightarrow> u8" where
  "reply bus n = (case bus n of Transferred f \<Rightarrow> f 0 | _ \<Rightarrow> 0)"

definition moved :: "(u8 \<times> bytes) list \<Rightarrow> FastLCDisplay \<Rightarrow> FastLCDisplay \<Rightarrow> bool" where
  "moved es s s' \<longleftrightarrow> fl_mAddress s' = fl_mAddress s \<and> bus_log (fl_mI2c s') = bus_log (fl_mI2c s) @ es \<and>
     bus_pos (fl_mI2c s') = bus_pos (fl_mI2c s) + length es"

lemma moved_trans: "moved es s t \<Longrightarrow> moved fs t u \<Longrightarrow> moved (es @ fs) s u"
  by (simp add: moved_def)

lemma reliable_isReady:
  assumes "reliable bus"
  shows "\<exists>s'. isReady bus s = (Inr (reply bus (bus_pos (fl_mI2c s)) \<noteq> 0), s') \<and> moved [(fl_mAddress s, [0])] s s'"
proof -
  obtain f where "bus (bus_pos (fl_mI2c s)) = Transferred f" using assms unfolding reliable_def by blast
  then show ?thesis
    by (simp add: isReady_def fast_bus_def readData_byte_def readWriteDataWithRetry_def retry_loop.simps [of bus]
        readWriteDataNoRetry_def Let_def DEFAULT_I2C_RETRY_def moved_def reply_def count_bytes_def)
qed

lemma reliable_send:
  assumes "reliable bus" "data \<noteq> []"
  shows "\<exists>s'. fast_send bus data s = (Inr (), s') \<and> moved [(fl_mAddress s, data)] s s'"
proof -
  obtain f where "bus (bus_pos (fl_mI2c s)) = Transferred f" using assms unfolding reliable_def by blast
  then show ?thesis
    using assms(2)
    by (simp add: fast_send_def fast_bus_def writeData_def bool_result_def readWriteDataWithRetry_def retry_loop.simps [of bus]
        readWriteDataNoRetry_def Let_def DEFAULT_I2C_RETRY_def moved_def count_bytes_def)
qed

text \<open>The questions of one wait: all but the last are answered with no, the last says the result.\<close>

definition asked :: "i2c_bus \<Rightarrow> nat \<Rightarrow> nat \<Rightarrow> bool \<Rightarrow> bool" where
  "asked bus n k r \<longleftrightarrow> (\<forall>j<k. reply bus (n + j) = 0) \<and> (r \<longleftrightarrow> reply bus (n + k) \<noteq> 0)"

lemma asked_Suc: "reply bus n = 0 \<Longrightarrow> asked bus (Suc n) k r \<Longrightarrow> asked bus n (Suc k) r"
  unfolding asked_def by (auto simp: less_Suc_eq_0_disj)

lemma wait_loop_polls:
  assumes "reliable bus" "retry \<le> COMMAND_MAX_RETRY"
  shows "\<exists>k r s'. bind_io (isReady bus s) (\<lambda>r. wait_loop bus r retry) = (Inr r, s') \<and>
     moved (replicate (Suc k) (fl_mAddress s, [0])) s s' \<and> asked bus (bus_pos (fl_mI2c s)) k r \<and>
     k \<le> COMMAND_MAX_RETRY - retry \<and> (\<not> r \<longrightarrow> k = COMMAND_MAX_RETRY - retry)"
  using assms(2)
proof (induction "COMMAND_MAX_RETRY - retry" arbitrary: retry s)
  case 0
  obtain t where t: "isReady bus s = (Inr (reply bus (bus_pos (fl_mI2c s)) \<noteq> 0), t)" "moved [(fl_mAddress s, [0])] s t"
    using reliable_isReady [OF assms(1)] by blast
  show ?case
    using t 0 by (intro exI [of _ 0] exI [of _ "reply bus (bus_pos (fl_mI2c s)) \<noteq> 0"] exI [of _ t])
      (simp add: wait_loop.simps asked_def)
next
  case (Suc m)
  obtain t where t: "isReady bus s = (Inr (reply bus (bus_pos (fl_mI2c s)) \<noteq> 0), t)" "moved [(fl_mAddress s, [0])] s t"
    using reliable_isReady [OF assms(1)] by blast
  show ?case
  proof (cases "reply bus (bus_pos (fl_mI2c s)) = 0")
    case False
    then show ?thesis
      using t by (intro exI [of _ 0] exI [of _ True] exI [of _ t]) (simp add: wait_loop.simps asked_def)
  next
    case True
    have lt: "retry < COMMAND_MAX_RETRY" "m = COMMAND_MAX_RETRY - Suc retry" "Suc retry \<le> COMMAND_MAX_RETRY"
      using Suc.hyps(2) by linarith+
    have step: "bind_io (isReady bus s) (\<lambda>r. wait_loop bus r retry) = bind_io (isReady bus t) (\<lambda>r. wait_loop bus r (Suc retry))"
      using t(1) True lt(1) by (simp add: wait_loop.simps [of bus False retry] bind_io_def split: prod.split sum.split)
    obtain k r u where u: "bind_io (isReady bus t) (\<lambda>r. wait_loop bus r (Suc retry)) = (Inr r, u)"
        "moved (replicate (Suc k) (fl_mAddress t, [0])) t u" "asked bus (bus_pos (fl_mI2c t)) k r"
        "k \<le> COMMAND_MAX_RETRY - Suc retry" "\<not> r \<longrightarrow> k = COMMAND_MAX_RETRY - Suc retry"
      using Suc.hyps(1) [OF lt(2,3), of t] by blast
    have adr: "fl_mAddress t = fl_mAddress s" "bus_pos (fl_mI2c t) = Suc (bus_pos (fl_mI2c s))"
      using t(2) by (simp_all add: moved_def)
    have "moved (replicate (Suc (Suc k)) (fl_mAddress s, [0])) s u"
      using moved_trans [OF t(2) u(2)] by (simp add: adr)
    moreover have "asked bus (bus_pos (fl_mI2c s)) (Suc k) r"
      using u(3) True by (simp add: adr asked_Suc)
    ultimately show ?thesis
      unfolding step using u lt by (intro exI [of _ "Suc k"] exI [of _ r] exI [of _ u]) auto
  qed
qed

lemma message_length: "message c = Some m \<Longrightarrow> m \<noteq> [] \<and> hd m > 0 \<and> length (tl m) \<le> MAX_DATA_SIZE"
  by (cases c) (auto simp: lcd_codes MAX_DATA_SIZE_def word_neq_0_conv)

lemma fast_exec_sends:
  assumes "message c = Some m"
  shows "fast_exec bus c s = bind_io (waitForReady bus s) (\<lambda>r s. if r then fast_send bus m s else (Inr (), s))"
proof (cases c)
  case (WriteGraphicText col row txt1 font)
  have cut: "(if length txt1 > 20 then take 20 txt1 else txt1) = take 20 txt1" by simp
  have m: "m = [LCD_WRITE_TEXT, if font = Verdana20 then 2 else 1, word_of_int col, word_of_int row, 0] @ map of_char (take 20 txt1)"
    using assms WriteGraphicText by simp
  show ?thesis
    unfolding WriteGraphicText fast_exec.simps Fast_writeGraphicText_def m Let_def cut
    by (simp add: bind_io_def seq_io_def fast_send_def split: prod.split sum.split)
next
  case (Rectangle col1 row1 col2 row2 b fill)
  then show ?thesis
    using assms by (auto simp: Fast_rectangle_def bind_io_def split: prod.split sum.split)
qed (use assms in \<open>auto simp: Fast_clearGraphicDisplay_def bind_io_def split: prod.split sum.split\<close>)

text \<open>A request on a bus that works: the questions, and the command if the last answer was yes.\<close>

lemma fast_exec_bus:
  assumes "reliable bus"
  shows "\<exists>k r s'. fast_exec bus c s = (Inr (), s') \<and> (case message c of
      None \<Rightarrow> s' = s
    | Some m \<Rightarrow> moved (replicate (Suc k) (fl_mAddress s, [0]) @ (if r then [(fl_mAddress s, m)] else [])) s s' \<and>
        asked bus (bus_pos (fl_mI2c s)) k r \<and> k \<le> COMMAND_MAX_RETRY \<and> (\<not> r \<longrightarrow> k = COMMAND_MAX_RETRY))"
proof (cases "message c")
  case None
  then show ?thesis by (cases c) auto
next
  case (Some m)
  obtain k r t where t: "waitForReady bus s = (Inr r, t)" "moved (replicate (Suc k) (fl_mAddress s, [0])) s t"
      "asked bus (bus_pos (fl_mI2c s)) k r" "k \<le> COMMAND_MAX_RETRY" "\<not> r \<longrightarrow> k = COMMAND_MAX_RETRY"
    using wait_loop_polls [OF assms, of 0 s] unfolding waitForReady_def by auto
  show ?thesis
  proof (cases r)
    case True
    obtain u where u: "fast_send bus m t = (Inr (), u)" "moved [(fl_mAddress t, m)] t u"
      using reliable_send [OF assms] message_length [OF Some] by blast
    have "fl_mAddress t = fl_mAddress s" using t(2) by (simp add: moved_def)
    then show ?thesis
      using Some t u True moved_trans [OF t(2) u(2)]
      by (intro exI [of _ k] exI [of _ r] exI [of _ u]) (simp add: fast_exec_sends [OF Some])
  next
    case False
    then show ?thesis
      using Some t by (intro exI [of _ k] exI [of _ r] exI [of _ t]) (simp add: fast_exec_sends [OF Some])
  qed
qed

section \<open>Driver and controller together\<close>

text \<open>
  One transfer as the controller sees it: its loop runs for some steps, the receive interrupt comes if
  the address is its own, and the loop runs again before the answer is read.
\<close>

definition transfer :: "(u8g2_font \<Rightarrow> string \<Rightarrow> int) \<Rightarrow> nat \<times> nat \<Rightarrow> u8 \<Rightarrow> u8 \<times> bytes \<Rightarrow> LcdDriver \<Rightarrow> LcdDriver" where
  "transfer gw ticks a e fw =
     loop_steps gw (snd ticks)
       (if fst e = a then receiveEvent (snd e) (loop_steps gw (fst ticks) fw) else loop_steps gw (fst ticks) fw)"

fun cosim :: "(u8g2_font \<Rightarrow> string \<Rightarrow> int) \<Rightarrow> (nat \<Rightarrow> nat \<times> nat) \<Rightarrow> u8 \<Rightarrow> nat \<Rightarrow> (u8 \<times> bytes) list \<Rightarrow> LcdDriver \<Rightarrow> LcdDriver" where
  "cosim gw sch a n [] fw = fw"
| "cosim gw sch a n (e # es) fw = cosim gw sch a (Suc n) es (transfer gw (sch n) a e fw)"

text \<open>The bus brings the answers of this controller.\<close>

fun answered :: "(u8g2_font \<Rightarrow> string \<Rightarrow> int) \<Rightarrow> i2c_bus \<Rightarrow> (nat \<Rightarrow> nat \<times> nat) \<Rightarrow> u8 \<Rightarrow> nat \<Rightarrow> (u8 \<times> bytes) list \<Rightarrow> LcdDriver \<Rightarrow> bool" where
  "answered gw bus sch a n [] fw \<longleftrightarrow> True"
| "answered gw bus sch a n (e # es) fw \<longleftrightarrow>
     (e = (a, [0]) \<longrightarrow> reply bus n = requestEvent (transfer gw (sch n) a e fw)) \<and>
     answered gw bus sch a (Suc n) es (transfer gw (sch n) a e fw)"

lemma cosim_append: "cosim gw sch a n (es @ fs) fw = cosim gw sch a (n + length es) fs (cosim gw sch a n es fw)"
  by (induction es arbitrary: n fw) auto

lemma answered_append:
  "answered gw bus sch a n (es @ fs) fw \<longleftrightarrow>
     answered gw bus sch a n es fw \<and> answered gw bus sch a (n + length es) fs (cosim gw sch a n es fw)"
  by (induction es arbitrary: n fw) auto

text \<open>What each request asks of the U8g2 library.\<close>

definition text_calls :: "(u8g2_font \<Rightarrow> string \<Rightarrow> int) \<Rightarrow> u8g2_font \<Rightarrow> int \<Rightarrow> int \<Rightarrow> int \<Rightarrow> string \<Rightarrow> u8g2_call list" where
  "text_calls gw f h x y t =
     [setFont f, setDrawColor 0, drawBox (x - 1) (y - 1) (gw f t + 2) (h + 2),
      setFontMode 0, setDrawColor 1, drawUTF8 x (y + h) t, sendBuffer]"

fun drawing :: "(u8g2_font \<Rightarrow> string \<Rightarrow> int) \<Rightarrow> lcd_call \<Rightarrow> u8g2_call list" where
  "drawing gw ClearGraphicDisplay = [clearDisplay]"
| "drawing gw (WriteGraphicText col row txt1 font) =
     (if txt1 = [] then []
      else case font of
             Verdana20 \<Rightarrow> text_calls gw verdana_tf 22 (col mod 256) (row mod 256) (c_str (take 20 txt1))
           | Terminal8 \<Rightarrow> text_calls gw u8g2_font_6x10_tf 8 (col mod 256) (row mod 256) (c_str (take 20 txt1)))"
| "drawing gw (Rectangle col1 row1 col2 row2 b fill) =
     [setDrawColor (of_bool b),
      drawBox (col1 mod 256) (row1 mod 256) \<bar>col2 mod 256 - col1 mod 256\<bar> \<bar>row2 mod 256 - row1 mod 256\<bar>, sendBuffer]"
| "drawing gw c = []"

lemma uint_u8: "uint (word_of_int i :: u8) = i mod 256"
  by (simp add: uint_word_of_int)

lemma text_bytes: "map (\<lambda>i. char_of (unat ((pre @ map of_char t @ stale) ! i :: u8))) [length pre..<length pre + length t] = t"
proof (rule nth_equalityI)
  fix i assume "i < length (map (\<lambda>i. char_of (unat ((pre @ map of_char t @ stale) ! i :: u8))) [length pre..<length pre + length t])"
  then have i: "i < length t" by simp
  have "unat (of_char c :: u8) = of_char c" for c
  proof -
    have "(of_char c :: u8) = of_nat (of_char c)" by (simp add: of_char_def)
    moreover have "(of_char c :: nat) < 256" by simp
    ultimately show ?thesis by (simp add: unat_of_nat take_bit_nat_eq_self)
  qed
  then show "map (\<lambda>i. char_of (unat ((pre @ map of_char t @ stale) ! i :: u8))) [length pre..<length pre + length t] ! i = t ! i"
    using i by (simp add: nth_append)
qed simp

lemma process_message:
  assumes "message c = Some m"
  shows "process_command gw (hd m) (tl m @ stale) (length (tl m)) = drawing gw c"
proof (cases c)
  case ClearGraphicDisplay
  then show ?thesis using assms by (auto simp: process_command_def lcd_codes lcdClearScreen_def)
next
  case (Rectangle col1 row1 col2 row2 b fill)
  then show ?thesis
    using assms by (auto simp: process_command_def lcd_codes lcdRectangle_def uint_u8)
next
  case (WriteGraphicText col row txt1 font)
  define t where "t = take 20 txt1"
  define pre :: bytes where "pre = [if font = Verdana20 then 2 else 1, word_of_int col, word_of_int row, 0]"
  have m: "hd m = LCD_WRITE_TEXT" "tl m = pre @ map of_char t"
    using assms WriteGraphicText by (auto simp: pre_def t_def)
  have lp: "length pre = 4" by (simp add: pre_def)
  have tx: "map (\<lambda>i. char_of (unat ((pre @ map of_char t @ stale) ! i))) [4..<4 + length t] = t"
    using text_bytes [of pre t stale] unfolding lp .
  have d: "(pre @ zs) ! 0 = (if font = Verdana20 then 2 else 1)" "(pre @ zs) ! Suc 0 = word_of_int col"
    "(pre @ zs) ! 2 = word_of_int row" "(pre @ zs) ! 3 = 0" for zs by (simp_all add: pre_def)
  have len: "length t \<le> 20" "t = [] \<longleftrightarrow> txt1 = []" by (auto simp: t_def)
  then have "take (MAX_DATA_SIZE - 1) t = t" by (simp add: MAX_DATA_SIZE_def)
  then show ?thesis
    using len tx unfolding process_command_def m append_assoc Let_def
    by (cases font) (auto simp: WriteGraphicText lcd_codes lcdWriteText_def text_calls_def LCD_FONT_SMALL_def
        LCD_FONT_LARGE_def uint_u8 Let_def t_def [symmetric] lp d Suc_le_eq)
qed (use assms in auto)

lemma transfer_poll:
  assumes "fw_inv fw"
  shows "fw_inv (transfer gw t a (a, [0]) fw)"
    "u8g2_log (transfer gw t a (a, [0]) fw) @ to_draw gw (transfer gw t a (a, [0]) fw) = u8g2_log fw @ to_draw gw fw"
    "fst t \<ge> 4 \<or> snd t \<ge> 4 \<Longrightarrow> commandProcessed (transfer gw t a (a, [0]) fw)"
proof -
  let ?f1 = "loop_steps gw (fst t) fw"
  let ?f2 = "receiveEvent [0] ?f1"
  note i1 = loop_steps_inv [OF assms, of gw "fst t"]
  note p = receive_poll [OF i1(1)]
  note i2 = loop_steps_inv [OF p(1), of gw "snd t"]
  show "fw_inv (transfer gw t a (a, [0]) fw)" using i2(1) by (simp add: transfer_def)
  show "u8g2_log (transfer gw t a (a, [0]) fw) @ to_draw gw (transfer gw t a (a, [0]) fw) = u8g2_log fw @ to_draw gw fw"
    using i2(2) i1(2) p(3) p(4) [of gw] by (simp add: transfer_def)
  show "commandProcessed (transfer gw t a (a, [0]) fw)" if "fst t \<ge> 4 \<or> snd t \<ge> 4"
    using that
  proof
    assume "snd t \<ge> 4"
    then show ?thesis using loop_steps_finish [OF p(1)] by (simp add: transfer_def)
  next
    assume "fst t \<ge> 4"
    then have "commandProcessed ?f2" using loop_steps_finish [OF assms] p(2) by simp
    then show ?thesis using i2(3) by (simp add: transfer_def)
  qed
qed

lemma transfer_command:
  assumes "fw_inv fw" "commandProcessed fw" "message c = Some m"
  shows "fw_inv (transfer gw t a (a, m) fw)"
    "u8g2_log (transfer gw t a (a, m) fw) @ to_draw gw (transfer gw t a (a, m) fw) = u8g2_log fw @ to_draw gw fw @ drawing gw c"
proof -
  obtain b bs where m: "m = b # bs" "b > 0" "length bs \<le> MAX_DATA_SIZE"
    using message_length [OF assms(3)] by (cases m) auto
  have idle: "loop_steps gw (fst t) fw = fw" using loop_steps_inv(3) [OF assms(1,2)] .
  have "to_draw gw fw = []" using assms(1,2) by (auto simp: fw_inv_def to_draw_def split: loop_pc.splits)
  then show "fw_inv (transfer gw t a (a, m) fw)"
    "u8g2_log (transfer gw t a (a, m) fw) @ to_draw gw (transfer gw t a (a, m) fw) = u8g2_log fw @ to_draw gw fw @ drawing gw c"
    using receive_command(1-3) [OF assms(1,2) m(2,3)] receive_command(4) [OF assms(1,2) m(2,3), of gw] loop_steps_inv [of "receiveEvent m fw" gw "snd t"]
      process_message [OF assms(3), of gw "drop (length bs) (receivedCommandData fw)"]
    by (simp_all add: transfer_def idle m(1))
qed

lemma cosim_polls:
  assumes "fw_inv fw" "answered gw bus sch a n (replicate (Suc k) (a, [0])) fw"
  shows "fw_inv (cosim gw sch a n (replicate (Suc k) (a, [0])) fw) \<and>
     u8g2_log (cosim gw sch a n (replicate (Suc k) (a, [0])) fw) @ to_draw gw (cosim gw sch a n (replicate (Suc k) (a, [0])) fw) =
       u8g2_log fw @ to_draw gw fw \<and>
     (reply bus (n + k) \<noteq> 0 \<longrightarrow> commandProcessed (cosim gw sch a n (replicate (Suc k) (a, [0])) fw)) \<and>
     (fst (sch n) \<ge> 4 \<or> snd (sch n) \<ge> 4 \<longrightarrow> reply bus n \<noteq> 0)"
  using assms
proof (induction k arbitrary: n fw)
  case 0
  then show ?case using transfer_poll [OF 0(1), where gw = gw and t = "sch n" and a = a] by (auto simp: requestEvent_def split: if_splits)
next
  case (Suc k)
  let ?fw = "transfer gw (sch n) a (a, [0]) fw"
  have "answered gw bus sch a (Suc n) (replicate (Suc k) (a, [0])) ?fw" "reply bus n = requestEvent ?fw"
    using Suc.prems(2) by simp_all
  then show ?case
    using Suc.IH [of ?fw "Suc n"] transfer_poll [OF Suc.prems(1), where gw = gw and t = "sch n" and a = a]
    by (auto simp: requestEvent_def split: if_splits)
qed

text \<open>One request: it is drawn or not at all, and it is drawn when the controller gets four steps per transfer.\<close>

definition brisk :: "(nat \<Rightarrow> nat \<times> nat) \<Rightarrow> bool" where
  "brisk sch \<longleftrightarrow> (\<forall>n. fst (sch n) \<ge> 4 \<or> snd (sch n) \<ge> 4)"

lemma request_drawn:
  assumes "fw_inv fw" "message c = Some m" "asked bus n k r" "\<not> r \<longrightarrow> k = COMMAND_MAX_RETRY"
    "answered gw bus sch a n (replicate (Suc k) (a, [0]) @ (if r then [(a, m)] else [])) fw"
  defines "fw' \<equiv> cosim gw sch a n (replicate (Suc k) (a, [0]) @ (if r then [(a, m)] else [])) fw"
  shows "fw_inv fw'" "u8g2_log fw' @ to_draw gw fw' = u8g2_log fw @ to_draw gw fw @ (if r then drawing gw c else [])"
    "brisk sch \<Longrightarrow> r"
proof -
  let ?fw1 = "cosim gw sch a n (replicate (Suc k) (a, [0])) fw"
  have an: "answered gw bus sch a n (replicate (Suc k) (a, [0])) fw" using assms(5) unfolding answered_append by blast
  note p = cosim_polls [OF assms(1) an]
  have fw': "fw' = (if r then transfer gw (sch (n + Suc k)) a (a, m) ?fw1 else ?fw1)"
    unfolding fw'_def cosim_append length_replicate by simp
  have "commandProcessed ?fw1" if r using p assms(3) that unfolding asked_def by blast
  then show "fw_inv fw'" "u8g2_log fw' @ to_draw gw fw' = u8g2_log fw @ to_draw gw fw @ (if r then drawing gw c else [])"
    using p transfer_command [OF _ _ assms(2), of ?fw1 gw "sch (n + Suc k)" a] unfolding fw' by (auto simp del: cosim.simps)
  show r if "brisk sch"
  proof (rule ccontr)
    assume "\<not> r"
    then have "k = COMMAND_MAX_RETRY" using assms(4) by blast
    then have "reply bus n = 0"
      using assms(3) unfolding asked_def COMMAND_MAX_RETRY_def by (metis add.right_neutral zero_less_numeral)
    then show False using p that unfolding brisk_def by blast
  qed
qed

text \<open>The state of both sides after the bus log of the driver.\<close>

definition controller :: "(u8g2_font \<Rightarrow> string \<Rightarrow> int) \<Rightarrow> (nat \<Rightarrow> nat \<times> nat) \<Rightarrow> FastLCDisplay \<Rightarrow> LcdDriver" where
  "controller gw sch s = cosim gw sch (fl_mAddress s) 0 (bus_log (fl_mI2c s)) LcdDriver_setup"

definition controller_answers :: "(u8g2_font \<Rightarrow> string \<Rightarrow> int) \<Rightarrow> i2c_bus \<Rightarrow> (nat \<Rightarrow> nat \<times> nat) \<Rightarrow> FastLCDisplay \<Rightarrow> bool" where
  "controller_answers gw bus sch s \<longleftrightarrow>
     answered gw bus sch (fl_mAddress s) 0 (bus_log (fl_mI2c s)) LcdDriver_setup"

definition in_time :: "FastLCDisplay \<Rightarrow> bool" where
  "in_time s \<longleftrightarrow> bus_pos (fl_mI2c s) = length (bus_log (fl_mI2c s))"

lemma controller_moved:
  assumes "moved es s t" "in_time s"
  shows "in_time t"
    and "controller gw sch t = cosim gw sch (fl_mAddress s) (bus_pos (fl_mI2c s)) es (controller gw sch s)"
    and "controller_answers gw bus sch t \<longleftrightarrow> controller_answers gw bus sch s \<and>
      answered gw bus sch (fl_mAddress s) (bus_pos (fl_mI2c s)) es (controller gw sch s)"
  using assms by (simp_all add: moved_def in_time_def controller_def controller_answers_def cosim_append answered_append)

text \<open>All that has been drawn and what waits to be drawn.\<close>

definition drawn :: "(u8g2_font \<Rightarrow> string \<Rightarrow> int) \<Rightarrow> LcdDriver \<Rightarrow> u8g2_call list" where
  "drawn gw fw = u8g2_log fw @ to_draw gw fw"

definition select :: "bool list \<Rightarrow> 'a list \<Rightarrow> 'a list" where
  "select acc xs = map snd (filter fst (zip acc xs))"

lemma select_Cons [simp]: "select (b # acc) (x # xs) = (if b then x # select acc xs else select acc xs)"
  by (simp add: select_def)

lemma select_Nil [simp]: "select [] xs = []" "select acc [] = []"
  by (simp_all add: select_def)

text \<open>From one state of the driver to a later one the controller took over just these calls.\<close>

definition drew :: "i2c_bus \<Rightarrow> FastLCDisplay \<Rightarrow> FastLCDisplay \<Rightarrow> bool \<Rightarrow> lcd_call list \<Rightarrow> bool" where
  "drew bus s t complete cs \<longleftrightarrow>
     (\<forall>gw sch. controller_answers gw bus sch t \<longrightarrow> controller_answers gw bus sch s \<and>
       (fw_inv (controller gw sch s) \<longrightarrow> fw_inv (controller gw sch t) \<and>
          drawn gw (controller gw sch t) = drawn gw (controller gw sch s) @ concat (map (drawing gw) cs) \<and>
          (brisk sch \<longrightarrow> complete)))"

lemma drew_trans: "drew bus s t b1 cs \<Longrightarrow> drew bus t u b2 ds \<Longrightarrow> drew bus s u (b1 \<and> b2) (cs @ ds)"
  by (simp add: drew_def) blast

lemma fast_exec_draws:
  assumes "reliable bus" "in_time s"
  shows "\<exists>r t. fast_exec bus c s = (Inr (), t) \<and> in_time t \<and> drew bus s t r (select [r] [c])"
proof (cases "message c")
  case None
  then have "fast_exec bus c s = (Inr (), s)" "drawing gw c = []" for gw by (cases c; auto)+
  then show ?thesis using assms(2) by (intro exI [of _ True] exI [of _ s]) (auto simp: drew_def)
next
  case (Some m)
  let ?a = "fl_mAddress s" and ?n = "bus_pos (fl_mI2c s)"
  obtain k r t where t: "fast_exec bus c s = (Inr (), t)"
      "moved (replicate (Suc k) (?a, [0]) @ (if r then [(?a, m)] else [])) s t" "asked bus ?n k r"
      "\<not> r \<longrightarrow> k = COMMAND_MAX_RETRY"
    using fast_exec_bus [OF assms(1), of c s] Some by auto
  note mv = controller_moved [OF t(2) assms(2)]
  have "drew bus s t r (select [r] [c])"
    unfolding drew_def
  proof (intro conjI allI impI)
    fix gw sch
    assume an: "controller_answers gw bus sch t"
    then show "controller_answers gw bus sch s" unfolding mv(3) by blast
    assume inv: "fw_inv (controller gw sch s)"
    have "answered gw bus sch ?a ?n (replicate (Suc k) (?a, [0]) @ (if r then [(?a, m)] else [])) (controller gw sch s)"
      using an unfolding mv(3) by blast
    note d = request_drawn [OF inv Some t(3,4) this]
    show "fw_inv (controller gw sch t)" unfolding mv(2) by (rule d(1))
    show "drawn gw (controller gw sch t) = drawn gw (controller gw sch s) @ concat (map (drawing gw) (select [r] [c]))"
      using d(2) unfolding mv(2) drawn_def by simp
    show r if "brisk sch" using d(3) that .
  qed
  then show ?thesis using t(1) mv(1) by blast
qed

lemma fast_run_draws:
  assumes "reliable bus" "in_time s"
  shows "\<exists>acc t. fast_run bus cs s = (Inr (), t) \<and> length acc = length cs \<and> in_time t \<and>
     drew bus s t (acc = replicate (length cs) True) (select acc cs)"
  using assms(2)
proof (induction cs arbitrary: s)
  case Nil
  then show ?case by (intro exI [of _ "[]"] exI [of _ s]) (simp add: drew_def)
next
  case (Cons c cs)
  obtain r t where t: "fast_exec bus c s = (Inr (), t)" "in_time t" "drew bus s t r (select [r] [c])"
    using fast_exec_draws [OF assms(1) Cons.prems, of c] by blast
  obtain acc u where u: "fast_run bus cs t = (Inr (), u)" "length acc = length cs" "in_time u"
      "drew bus t u (acc = replicate (length cs) True) (select acc cs)"
    using Cons.IH [OF t(2)] by blast
  have "drew bus s u (r # acc = replicate (length (c # cs)) True) (select (r # acc) (c # cs))"
    using drew_trans [OF t(3) u(4)] by (auto simp: if_distrib cong: if_cong)
  then show ?case
    using t u by (intro exI [of _ "r # acc"] exI [of _ u]) simp
qed

lemma new_fast:
  assumes "reliable bus" "bus_log i2c = []" "bus_pos i2c = 0"
  shows "\<exists>s. new_FastLCDisplay bus i2c a = (Inr (), s) \<and> in_time s \<and>
     (\<forall>gw sch. fw_inv (controller gw sch s) \<and> drawn gw (controller gw sch s) = u8g2_log LcdDriver_setup @ [clearDisplay])"
proof -
  let ?s = "\<lparr>fl_mI2c = i2c, fl_mAddress = a\<rparr>"
  obtain s where s: "fast_send bus [LCD_RESET] ?s = (Inr (), s)" "moved [(a, [LCD_RESET])] ?s s"
    using reliable_send [OF assms(1), of "[LCD_RESET]" ?s] by auto
  have s0: "in_time ?s" "controller gw sch ?s = LcdDriver_setup" for gw sch
    using assms(2,3) by (simp_all add: in_time_def controller_def)
  have *: "fw_inv (controller gw sch s) \<and> drawn gw (controller gw sch s) = u8g2_log LcdDriver_setup @ [clearDisplay]" for gw sch
  proof -
    let ?fw = "receiveEvent [LCD_RESET] LcdDriver_setup"
    have pos: "0 < LCD_RESET" by (simp add: LCD_RESET_def)
    have rc: "fw_inv ?fw" "u8g2_log ?fw = u8g2_log LcdDriver_setup" "to_draw gw ?fw = [clearDisplay]"
      using receive_command [OF fw_inv_setup(1) _ pos, of "[]"]
      by (simp_all add: LcdDriver_setup_def process_command_def lcdReset_def)
    have "loop_steps gw (fst (sch 0)) LcdDriver_setup = LcdDriver_setup"
      using loop_steps_inv(3) [OF fw_inv_setup(1)] by (simp add: LcdDriver_setup_def)
    then have "controller gw sch s = loop_steps gw (snd (sch 0)) ?fw"
      using controller_moved(2) [OF s(2) s0(1), of gw sch] s0(2) by (simp add: transfer_def assms(3))
    then show ?thesis using loop_steps_inv(1,2) [OF rc(1), of gw "snd (sch 0)"] rc(2,3) by (simp add: drawn_def)
  qed
  show ?thesis
    using s(1) controller_moved(1) [OF s(2) s0(1)] * by (auto simp: new_FastLCDisplay_def Fast_init_def)
qed

text \<open>
  C18. The driver of the display and the firmware of its controller together. The driver starts on a bus
  that works, sends the reset and makes any calls; every call returns. If the answers on the bus are those of the
  controller, whose main loop runs in any interleaving with the transfers, then what the controller has drawn, with the
  command it still holds, is the reset and then exactly the drawing of the calls that were sent, each once and in order:
  no command is lost, overwritten or cut. A call is given up only as a whole, and if the loop gets four
  steps in each transfer every call is drawn.
\<close>

theorem fast_display_draws_calls:
  assumes "reliable bus" "bus_log i2c = []" "bus_pos i2c = 0"
  shows "\<exists>s t acc. new_FastLCDisplay bus i2c a = (Inr (), s) \<and> fast_run bus cs s = (Inr (), t) \<and> length acc = length cs \<and>
     (\<forall>gw sch. controller_answers gw bus sch t \<longrightarrow>
        drawn gw (controller gw sch t) =
          u8g2_log LcdDriver_setup @ [clearDisplay] @ concat (map (drawing gw) (select acc cs)) \<and>
        (brisk sch \<longrightarrow> acc = replicate (length cs) True))"
proof -
  obtain s where s: "new_FastLCDisplay bus i2c a = (Inr (), s)" "in_time s"
      "\<And>gw sch. fw_inv (controller gw sch s) \<and> drawn gw (controller gw sch s) = u8g2_log LcdDriver_setup @ [clearDisplay]"
    using new_fast [OF assms] by blast
  obtain acc t where t: "fast_run bus cs s = (Inr (), t)" "length acc = length cs"
      "drew bus s t (acc = replicate (length cs) True) (select acc cs)"
    using fast_run_draws [OF assms(1) s(2), of cs] by blast
  show ?thesis using s t by (intro exI [of _ s] exI [of _ t] exI [of _ acc]) (simp add: drew_def)
qed

text \<open>A controller that is fast enough always answers yes.\<close>

lemma receive_inv: "fw_inv fw \<Longrightarrow> fw_inv (receiveEvent msg fw)"
  by (auto simp: fw_inv_def receiveEvent_def Let_def split_beta read_data_length split: loop_pc.splits)

lemma transfer_inv: "fw_inv fw \<Longrightarrow> fw_inv (transfer gw t a e fw)"
  by (simp add: transfer_def loop_steps_inv receive_inv)

lemma brisk_answers:
  assumes "brisk sch" "\<And>n. reply bus n = 1" "fw_inv fw"
  shows "answered gw bus sch a n es fw"
  using assms(3)
proof (induction es arbitrary: n fw)
  case (Cons e es)
  have "fst (sch n) \<ge> 4 \<or> snd (sch n) \<ge> 4" using assms(1) by (simp add: brisk_def)
  then have "e = (a, [0]) \<longrightarrow> requestEvent (transfer gw (sch n) a e fw) = 1"
    using transfer_poll(3) [OF Cons.prems] by (auto simp: requestEvent_def)
  then show ?case using Cons transfer_inv by (simp add: assms(2))
qed simp

definition ready_bus :: i2c_bus where
  "ready_bus n = Transferred (\<lambda>i. 1)"

definition ex_calls :: "lcd_call list" where
  "ex_calls = [ClearGraphicDisplay, WriteGraphicText 44 0 ''07'' Verdana20, WriteGraphicText 0 24 '''' Terminal8,
     Rectangle 158 10 159 31 False False]"

theorem fast_display_draws_calls_witness:
  "\<exists>s t. new_FastLCDisplay ready_bus ex_i2c 4 = (Inr (), s) \<and> fast_run ready_bus ex_calls s = (Inr (), t) \<and>
     drawn (\<lambda>f t. 40) (controller (\<lambda>f t. 40) (\<lambda>n. (0, 4)) t) = u8g2_log LcdDriver_setup @ [clearDisplay] @
       [clearDisplay,
        setFont verdana_tf, setDrawColor 0, drawBox 43 (- 1) 42 24, setFontMode 0, setDrawColor 1, drawUTF8 44 22 ''07'', sendBuffer,
        setDrawColor 0, drawBox 158 10 1 21, sendBuffer]"
proof -
  have r: "reliable ready_bus" "\<And>n. reply ready_bus n = 1" by (simp_all add: reliable_def ready_bus_def reply_def)
  have i: "bus_log ex_i2c = []" "bus_pos ex_i2c = 0" by (simp_all add: ex_i2c_def new_I2C_def)
  have b: "brisk (\<lambda>n. (0, 4))" by (simp add: brisk_def)
  have an: "controller_answers (\<lambda>f t. 40) ready_bus (\<lambda>n. (0, 4)) t" for t
    unfolding controller_answers_def by (rule brisk_answers [OF b r(2) fw_inv_setup(1)])
  have sel: "select (replicate (length ex_calls) True) ex_calls = ex_calls" by (simp add: ex_calls_def numeral_eq_Suc)
  have d: "concat (map (drawing (\<lambda>f t. 40)) ex_calls) = [clearDisplay,
        setFont verdana_tf, setDrawColor 0, drawBox 43 (- 1) 42 24, setFontMode 0, setDrawColor 1, drawUTF8 44 22 ''07'', sendBuffer,
        setDrawColor 0, drawBox 158 10 1 21, sendBuffer]"
    by (simp add: ex_calls_def text_calls_def c_str_def)
  obtain s t acc where *: "new_FastLCDisplay ready_bus ex_i2c 4 = (Inr (), s)" "fast_run ready_bus ex_calls s = (Inr (), t)"
      "\<forall>gw sch. controller_answers gw ready_bus sch t \<longrightarrow>
        drawn gw (controller gw sch t) =
          u8g2_log LcdDriver_setup @ [clearDisplay] @ concat (map (drawing gw) (select acc ex_calls)) \<and>
        (brisk sch \<longrightarrow> acc = replicate (length ex_calls) True)"
    using fast_display_draws_calls [OF r(1) i, of 4 ex_calls] by blast
  have a: "acc = replicate (length ex_calls) True" using * (3) an b by blast
  have "drawn (\<lambda>f t. 40) (controller (\<lambda>f t. 40) (\<lambda>n. (0, 4)) t) =
      u8g2_log LcdDriver_setup @ [clearDisplay] @ concat (map (drawing (\<lambda>f t. 40)) (select acc ex_calls))"
    using * (3) an by blast
  then show ?thesis unfolding a sel d using * (1,2) by blast
qed

text \<open>
  The controller ignores a text command without characters, so that the empty texts that the clock
  writes to wipe a line change nothing.
\<close>

lemma empty_text_ignored: "process_command gw LCD_WRITE_TEXT (sz # col # row # clearLength # stale) 4 = []"
  by (simp add: process_command_def lcd_codes)

text \<open>
  The controller draws a filled box that leaves out the last column and row, whatever \<open>fill\<close> says, where
  \<open>LCDisplay\<close> draws the outline or the whole area: the two classes behind \<open>LCDisplayIf\<close> differ.
\<close>

lemma rectangle_ignores_fill: "lcdRectangle x1 y1 x2 y2 b True = lcdRectangle x1 y1 x2 y2 b False"
  by (simp add: lcdRectangle_def)

end
