(* ===== verification/Lcd_Interface.thy ===== *)
theory Lcd_Interface
  imports Lcd_Display Fast_Lcd
begin

text \<open>
  The interface of the displays (\<open>rgbclock/RgbLib/src/lib/LCDisplayIf.h\<close>), as the clock uses it: a call
  returns and changes what is shown as its specification says. The two classes that implement it are
  interpretations: the panel of \<open>LCDisplay\<close> shows a picture, the controller of \<open>FastLCDisplay\<close> gets a list of commands.
\<close>

primrec run_calls :: "(lcd_call \<Rightarrow> 's \<Rightarrow> ('e + unit) \<times> 's) \<Rightarrow> lcd_call list \<Rightarrow> 's \<Rightarrow> ('e + unit) \<times> 's" where
  "run_calls exec [] s = (Inr (), s)"
| "run_calls exec (c # cs) s = seq_io (exec c s) (run_calls exec cs)"

locale LCDisplayIf =
  fixes exec :: "lcd_call \<Rightarrow> 's \<Rightarrow> ('e + unit) \<times> 's"
    and good :: "lcd_call \<Rightarrow> bool"
    and view :: "'s \<Rightarrow> 'v \<Rightarrow> bool"
    and spec :: "lcd_call \<Rightarrow> 'v \<Rightarrow> 'v"
  assumes exec_view: "view s v \<Longrightarrow> good c \<Longrightarrow> \<exists>t. exec c s = (Inr (), t) \<and> view t (spec c v)"
begin

lemma run_view:
  "view s v \<Longrightarrow> \<forall>c\<in>set cs. good c \<Longrightarrow> \<exists>t. run_calls exec cs s = (Inr (), t) \<and> view t (fold spec cs v)"
proof (induction cs arbitrary: s v)
  case (Cons c cs)
  then obtain t where "exec c s = (Inr (), t)" "view t (spec c v)" using exec_view by fastforce
  with Cons show ?case by simp
qed simp

lemma run_append:
  assumes "view s v" "\<forall>c\<in>set (cs @ ds). good c" "run_calls exec cs s = (Inr (), t)" "view t w"
  shows "\<exists>u. run_calls exec (cs @ ds) s = (Inr (), u) \<and> view u (fold spec ds w)"
proof -
  have "run_calls exec (cs @ ds) s = seq_io (run_calls exec cs s) (run_calls exec ds)" for s
    by (induction cs arbitrary: s) (simp_all add: seq_io_def split: prod.split sum.split)
  then show ?thesis using assms(3) run_view [OF assms(4), of ds] assms(2) by auto
qed

end

section \<open>The panel of LCDisplay\<close>

interpretation graphic: LCDisplayIf "\<lambda>c. lcd_exec bus (Call c)" "\<lambda>c. request_ok (Call c)"
  "\<lambda>s p. reliable bus \<and> fonts_ok s \<and> mFontMap s = fm \<and> displays p0 p s" "\<lambda>c. paint fm (Call c)" for bus fm p0
proof unfold_locales
  fix s p c
  assume s: "reliable bus \<and> fonts_ok s \<and> mFontMap s = fm \<and> displays p0 p s" and "request_ok (Call c)"
  then obtain t where "lcd_exec bus (Call c) s = (Inr (), t)" "displays p0 (paint fm (Call c) p) t" "mFontMap t = fm"
    using exec_displays [of bus p0 p s "Call c"] by auto
  then show "\<exists>t. lcd_exec bus (Call c) s = (Inr (), t) \<and> reliable bus \<and> fonts_ok t \<and> mFontMap t = fm \<and> displays p0 (paint fm (Call c) p) t"
    using s by (auto simp: fonts_ok_def)
qed

section \<open>The commands of FastLCDisplay\<close>

definition commands :: "FastLCDisplay \<Rightarrow> bytes list" where
  "commands s = map snd (filter (\<lambda>e. fst e = fl_mAddress s \<and> snd e \<noteq> [0]) (bus_log (fl_mI2c s)))"

definition sent :: "lcd_call \<Rightarrow> bytes list \<Rightarrow> bytes list" where
  "sent c v = v @ (case message c of None \<Rightarrow> [] | Some m \<Rightarrow> [m])"

interpretation fast: LCDisplayIf "fast_exec bus" "\<lambda>c. True"
  "\<lambda>s v. reliable bus \<and> (\<forall>n. reply bus n \<noteq> 0) \<and> commands s = v" sent for bus
proof unfold_locales
  fix s v c
  assume s: "reliable bus \<and> (\<forall>n. reply bus n \<noteq> 0) \<and> commands s = v"
  then obtain k r t where t: "fast_exec bus c s = (Inr (), t)" "case message c of None \<Rightarrow> t = s | Some m \<Rightarrow>
      moved (replicate (Suc k) (fl_mAddress s, [0]) @ (if r then [(fl_mAddress s, m)] else [])) s t \<and>
      asked bus (bus_pos (fl_mI2c s)) k r \<and> k \<le> COMMAND_MAX_RETRY \<and> (\<not> r \<longrightarrow> k = COMMAND_MAX_RETRY)"
    using fast_exec_bus [of bus c s] by blast
  have "commands t = sent c v"
  proof (cases "message c")
    case None
    then show ?thesis using t(2) s by (simp add: sent_def)
  next
    case (Some m)
    then have r: r and mv: "moved (replicate (Suc k) (fl_mAddress s, [0]) @ (if r then [(fl_mAddress s, m)] else [])) s t"
      using t(2) s by (auto simp: asked_def)
    have "m \<noteq> [0]" using message_length [OF Some] by auto
    then show ?thesis using mv r Some s by (auto simp: commands_def moved_def sent_def)
  qed
  then show "\<exists>t. fast_exec bus c s = (Inr (), t) \<and> reliable bus \<and> (\<forall>n. reply bus n \<noteq> 0) \<and> commands t = sent c v"
    using s t(1) by blast
qed

text \<open>The calls that the display thread of the clock makes, on either display.\<close>

lemma clock_on_panel:
  assumes "reliable bus" "fonts_ok s" "displays p0 p s" "\<forall>c\<in>set (lcd_log d). request_ok (Call c)"
  shows "\<exists>t. run_calls (\<lambda>c. lcd_exec bus (Call c)) (lcd_log d) s = (Inr (), t) \<and>
     (\<forall>x\<le>159. \<forall>y\<le>31. panel_pixel (panel_of p0 t) x y = fold (\<lambda>c. paint (mFontMap s) (Call c)) (lcd_log d) p x y)"
  using graphic.run_view [of bus s "mFontMap s" p0 p "lcd_log d"] assms by (auto simp: displays_def)

lemma clock_on_controller:
  assumes "reliable bus" "\<forall>n. reply bus n \<noteq> 0"
  shows "\<exists>t. run_calls (fast_exec bus) (lcd_log d) s = (Inr (), t) \<and> commands t = fold sent (lcd_log d) (commands s)"
  using fast.run_view [of bus s "commands s" "lcd_log d"] assms by auto

end
