(* ===== verification/Fm_Receiver.thy ===== *)
theory Fm_Receiver
  imports Mainboard
begin

text \<open>
  The FM receiver (\<open>rgbclock/RgbLib/src/lib/FMReceiver.cpp\<close>, \<open>RDSInfo.h\<close>, \<open>SI4735.h\<close>): the commands of the
  tuner chip on the I2C bus, the counter of its users, the thread that reads the tuner, and the decoder of
  the station name and the text that stations send as RDS groups. The text of a frequency,
  which the code formats from a floating point number, is a parameter. The observers are told nothing
  (the body of the loop in \<open>notifyObservers\<close> is a comment). The thread rests in its sleep, so
  that to stop it runs its body once more; an exception in it ends the program.
\<close>

section \<open>The data of a station\<close>

datatype TextType = TextUnknown | TypeA | TypeB

definition EMPTY_CHAR :: char where "EMPTY_CHAR = CHR ''~''"

record RDSInfo =
  mProgramId :: u16
  mValidRds :: bool
  ri_mStationName :: string
  ri_mText :: string
  mTextType :: TextType
  ri_mReceiveLevel :: u8

definition fill_char :: "bool \<Rightarrow> char" where
  "fill_char fillSpecial = (if fillSpecial then EMPTY_CHAR else CHR '' '')"

definition clearStationName :: "bool \<Rightarrow> RDSInfo \<Rightarrow> RDSInfo" where
  "clearStationName fillSpecial i = i\<lparr>ri_mStationName := replicate 8 (fill_char fillSpecial)\<rparr>"

definition clearText :: "bool \<Rightarrow> RDSInfo \<Rightarrow> RDSInfo" where
  "clearText fillSpecial i = i\<lparr>ri_mText := replicate 65 (fill_char fillSpecial)\<rparr>"

definition clearAll :: "bool \<Rightarrow> RDSInfo \<Rightarrow> RDSInfo" where
  "clearAll fillSpecial i = clearText fillSpecial (clearStationName fillSpecial i)"

definition new_RDSInfo :: RDSInfo where
  "new_RDSInfo = clearAll False
     \<lparr>mProgramId = 0, mValidRds = False, ri_mStationName = [], ri_mText = [], mTextType = TextUnknown, ri_mReceiveLevel = 0\<rparr>"

definition textComplete :: "RDSInfo \<Rightarrow> bool" where
  "textComplete i \<longleftrightarrow> EMPTY_CHAR \<notin> set (ri_mText i)"

definition stationNameComplete :: "RDSInfo \<Rightarrow> bool" where
  "stationNameComplete i \<longleftrightarrow> EMPTY_CHAR \<notin> set (ri_mStationName i)"

definition ABToTextType :: "bool \<Rightarrow> TextType" where
  "ABToTextType ab = (if ab then TypeA else TypeB)"

definition whiteSpaces :: string where
  "whiteSpaces = [CHR '' '', CHR 0x0C, CHR 0x0A, CHR 0x0D, CHR 0x09, CHR 0x0B]"

definition trimRight :: "string \<Rightarrow> string" where
  "trimRight s = rev (dropWhile (\<lambda>c. c \<in> set whiteSpaces) (rev s))"

definition trimLeft :: "string \<Rightarrow> string" where
  "trimLeft s = dropWhile (\<lambda>c. c \<in> set whiteSpaces) s"

definition fm_trim :: "string \<Rightarrow> string" where
  "fm_trim s = trimLeft (trimRight s)"

section \<open>RDS groups\<close>

definition Block_B_H :: nat where "Block_B_H = 6"
definition Block_B_L :: nat where "Block_B_L = 7"
definition Block_C_H :: nat where "Block_C_H = 8"
definition Block_D_H :: nat where "Block_D_H = 10"
definition Block_D_L :: nat where "Block_D_L = 11"

lemmas block_defs = Block_B_H_def Block_B_L_def Block_C_H_def Block_D_H_def Block_D_L_def

definition chr :: "u8 \<Rightarrow> char" where
  "chr b = char_of (unat b)"

text \<open>A pair holds what is shown, \<open>mRDSInfo\<close>, and what is being received, \<open>mReceivingRDSInfo\<close>.\<close>

type_synonym rds = "RDSInfo \<times> RDSInfo"

definition name_group :: "bytes \<Rightarrow> rds \<Rightarrow> rds" where
  "name_group resp = (\<lambda>(info, rec).
     let segment = unat (resp ! Block_B_L AND 3);
         pos = segment * 2;
         rec = (if pos + 1 < length (ri_mStationName rec)
                then rec\<lparr>ri_mStationName := (ri_mStationName rec)[pos := chr (resp ! Block_D_H), pos + 1 := chr (resp ! Block_D_L)]\<rparr>
                else rec)
     in if stationNameComplete rec \<and> fm_trim (ri_mStationName info) \<noteq> fm_trim (ri_mStationName rec)
        then (info\<lparr>ri_mStationName := fm_trim (ri_mStationName rec), mValidRds := True\<rparr>, rec)
        else (info, rec))"

definition text_byte :: "bytes \<Rightarrow> bool \<Rightarrow> nat \<Rightarrow> nat \<Rightarrow> rds \<Rightarrow> rds" where
  "text_byte resp new_ab textPos recPos = (\<lambda>(info, rec).
     let rec = (if mTextType rec \<noteq> ABToTextType new_ab
                then (clearAll True rec)\<lparr>mTextType := ABToTextType new_ab\<rparr> else rec)
     in if recPos < length resp
        then if chr (resp ! recPos) = CHR 0x0D
             then let rec = rec\<lparr>ri_mText := take textPos (ri_mText rec)\<rparr>
                  in if textComplete rec \<and> ri_mText info \<noteq> ri_mText rec
                     then (info\<lparr>ri_mText := ri_mText rec, mTextType := mTextType rec\<rparr>, clearText True rec)
                     else (info, rec)
             else if textPos < length (ri_mText rec)
                  then (info, rec\<lparr>ri_mText := (ri_mText rec)[textPos := chr (resp ! recPos)]\<rparr>)
                  else (info, rec)
        else (info, rec))"

definition text_group :: "bytes \<Rightarrow> rds \<Rightarrow> rds" where
  "text_group resp r =
     (let new_ab = bit (resp ! Block_B_L) 4;
          segment = unat (resp ! Block_B_L AND 0x0F);
          version = bit (resp ! Block_B_H) 3;
          n = (if \<not> version then 4 else 2);
          startPos = (if \<not> version then Block_C_H else Block_D_H)
      in fold (\<lambda>pos. text_byte resp new_ab (segment * n + pos) (startPos + pos)) [0..<n] r)"

text \<open>One response of the tuner; the flag says whether the loop goes on to ask for the next.\<close>

definition rds_response :: "bytes \<Rightarrow> rds \<Rightarrow> bool \<times> rds" where
  "rds_response resp r =
     (if resp ! 12 \<noteq> 0 then (False, r)
      else if \<not> bit (resp ! Block_B_H) 0 then (False, ((fst r)\<lparr>ri_mText := []\<rparr>, snd r))
      else let type = drop_bit 4 (resp ! Block_B_H);
               r1 = (if type = 0 then name_group resp r else r);
               r2 = (if type = 2 then text_group resp r1 else r1)
           in (resp ! 3 > 0, r2))"

section \<open>The receiver\<close>

datatype FMPowerState = FMUnknown | FMPowerOn | FMPowerOff

datatype board_call = ResetTuner | SelectInput InputSelection

record FMReceiver =
  fm_I2C :: I2C
  fm_mAddress :: u8
  fm_board :: bool
  board_calls :: "board_call list"
  mPowerCounter :: int
  mPowerState :: FMPowerState
  mRDSInfo :: RDSInfo
  mReceivingRDSInfo :: RDSInfo
  mReadThread :: bool
  thread_runs :: bool
  mReadThreadRunning :: bool
  mRadioObservers :: "nat set"

datatype fm_error = FMBusError i2c_exception | Terminated

type_synonym 'a fm_op = "FMReceiver \<Rightarrow> (fm_error + 'a) \<times> FMReceiver"

definition POWER_UP :: u8 where "POWER_UP = 0x01"
definition POWER_DOWN :: u8 where "POWER_DOWN = 0x11"
definition SET_PROPERTY :: u8 where "SET_PROPERTY = 0x12"
definition GET_INT_STATUS :: u8 where "GET_INT_STATUS = 0x14"
definition FM_TUNE_FREQ :: u8 where "FM_TUNE_FREQ = 0x20"
definition FM_SEEK_START :: u8 where "FM_SEEK_START = 0x21"
definition FM_TUNE_STATUS :: u8 where "FM_TUNE_STATUS = 0x22"
definition FM_RSQ_STATUS :: u8 where "FM_RSQ_STATUS = 0x23"
definition FM_RDS_STATUS :: u8 where "FM_RDS_STATUS = 0x24"
definition POWER_UP_ARG1_XOSCEN :: u8 where "POWER_UP_ARG1_XOSCEN = 0x10"
definition POWER_UP_AUDIO_OUT_ANALOG :: u8 where "POWER_UP_AUDIO_OUT_ANALOG = 0x05"
definition RDS_STATUS_ARG1_CLEAR_INT :: u8 where "RDS_STATUS_ARG1_CLEAR_INT = 0x01"
definition PROP_FM_DEEMPHASIS :: u16 where "PROP_FM_DEEMPHASIS = 0x1100"
definition PROP_FM_SEEK_BAND_BOTTOM :: u16 where "PROP_FM_SEEK_BAND_BOTTOM = 0x1400"
definition PROP_FM_SEEK_BAND_TOP :: u16 where "PROP_FM_SEEK_BAND_TOP = 0x1401"
definition PROP_FM_SEEK_FREQ_SPACING :: u16 where "PROP_FM_SEEK_FREQ_SPACING = 0x1402"
definition PROP_FM_RDS_INT_SOURCE :: u16 where "PROP_FM_RDS_INT_SOURCE = 0x1500"
definition PROP_FM_RDS_CONFIG :: u16 where "PROP_FM_RDS_CONFIG = 0x1502"
definition FM_RDS_CONFIG_ARG_ENABLE :: u16 where "FM_RDS_CONFIG_ARG_ENABLE = 1"
definition RDS_SYNC_FOUND_MASK :: u16 where "RDS_SYNC_FOUND_MASK = 4"
definition RDS_SYNC_LOST_MASK :: u16 where "RDS_SYNC_LOST_MASK = 2"
definition RDS_RECEIVED_MASK :: u16 where "RDS_RECEIVED_MASK = 1"
definition FM_DEEMPHASIS_ARG_50 :: u16 where "FM_DEEMPHASIS_ARG_50 = 1"

text \<open>A transfer: the result of the bus is ignored, the buffer of \<open>n\<close> zeros holds what was read.\<close>

definition fm_command :: "i2c_bus \<Rightarrow> bytes \<Rightarrow> nat \<Rightarrow> bytes fm_op" where
  "fm_command bus wdata n s =
     (let (r, i) = readWriteData bus (fm_mAddress s) wdata (replicate n 0) DEFAULT_I2C_RETRY (fm_I2C s)
      in (map_sum FMBusError snd r, s\<lparr>fm_I2C := i\<rparr>))"

text \<open>All three tests are \<open>response && mask\<close>: true for every status that is not zero.\<close>

definition readCTS :: "i2c_bus \<Rightarrow> bool fm_op" where
  "readCTS bus s = bind_io (fm_command bus [GET_INT_STATUS] 1 s) (\<lambda>resp s. (Inr (resp ! 0 \<noteq> 0 \<and> (0x80::u8) \<noteq> 0), s))"

definition readSTC :: "i2c_bus \<Rightarrow> bool fm_op" where
  "readSTC bus s = bind_io (fm_command bus [GET_INT_STATUS] 1 s) (\<lambda>resp s. (Inr (resp ! 0 \<noteq> 0 \<and> (0x01::u8) \<noteq> 0), s))"

definition readRDSInt :: "i2c_bus \<Rightarrow> bool fm_op" where
  "readRDSInt bus s = bind_io (fm_command bus [GET_INT_STATUS] 1 s) (\<lambda>resp s. (Inr (resp ! 0 \<noteq> 0 \<and> (4::u8) \<noteq> 0), s))"

definition FM_MAX_RETRIES :: nat where "FM_MAX_RETRIES = 20"

function status_wait :: "bool fm_op \<Rightarrow> nat \<Rightarrow> bool \<Rightarrow> bool fm_op" where
  "status_wait rd retries ready s =
     (if retries < FM_MAX_RETRIES \<and> \<not> ready
      then (case rd s of
              (Inl e, s) \<Rightarrow> (Inl e, s)
            | (Inr r, s) \<Rightarrow> status_wait rd (retries + 1) r s)
      else (Inr (\<not> retries \<ge> FM_MAX_RETRIES), s))"
  by pat_completeness auto
termination by (relation "measure (\<lambda>(rd, retries, r, s). FM_MAX_RETRIES - retries)") auto

declare status_wait.simps [simp del]

definition waitForCTS :: "i2c_bus \<Rightarrow> bool fm_op" where
  "waitForCTS bus = status_wait (readCTS bus) 0 False"

definition waitForSTC :: "i2c_bus \<Rightarrow> bool fm_op" where
  "waitForSTC bus = status_wait (readSTC bus) 0 False"

definition fm_setProperty :: "i2c_bus \<Rightarrow> u16 \<Rightarrow> u16 \<Rightarrow> bool fm_op" where
  "fm_setProperty bus property value s =
     bind_io (waitForCTS bus s) (\<lambda>cts s.
       if \<not> cts then (Inr False, s)
       else seq_io (fm_command bus [SET_PROPERTY, 0x00, ucast (drop_bit 8 property), ucast property,
                      ucast (drop_bit 8 value), ucast value] 1 s) (Pair (Inr True)))"

definition getProperty :: "i2c_bus \<Rightarrow> u16 \<Rightarrow> bool fm_op" where
  "getProperty bus property s = bind_io (waitForCTS bus s) (\<lambda>cts s. if \<not> cts then (Inr False, s) else (Inr True, s))"

text \<open>The loop of \<open>readRDSInfo\<close> asks until the queue of the tuner is empty; None is a loop without end.\<close>

partial_function (option) rds_loop :: "i2c_bus \<Rightarrow> FMReceiver \<Rightarrow> ((fm_error + unit) \<times> FMReceiver) option" where
  "rds_loop bus s =
     (case fm_command bus [FM_RDS_STATUS, RDS_STATUS_ARG1_CLEAR_INT] 13 s of
        (Inl e, s1) \<Rightarrow> Some (Inl e, s1)
      | (Inr resp, s1) \<Rightarrow>
          (let (more, r) = rds_response resp (mRDSInfo s1, mReceivingRDSInfo s1);
               s2 = s1\<lparr>mRDSInfo := fst r, mReceivingRDSInfo := snd r\<rparr>
           in if more then rds_loop bus s2 else Some (Inr (), s2)))"

definition readRDSInfo :: "i2c_bus \<Rightarrow> FMReceiver \<Rightarrow> ((fm_error + unit) \<times> FMReceiver) option" where
  "readRDSInfo bus s =
     (case readRDSInt bus s of
        (Inl e, s) \<Rightarrow> Some (Inl e, s)
      | (Inr rdsInt, s) \<Rightarrow> if \<not> rdsInt then Some (Inr (), s) else rds_loop bus s)"

definition show_frequency :: "(u16 \<Rightarrow> string) \<Rightarrow> bytes \<Rightarrow> FMReceiver \<Rightarrow> FMReceiver" where
  "show_frequency fmt resp s =
     (if resp ! 0 \<noteq> 0 \<and> \<not> mValidRds (mRDSInfo s)
      then let f = fmt (push_bit 8 (ucast (resp ! 2)) OR ucast (resp ! 3))
           in if ri_mStationName (mRDSInfo s) \<noteq> f then s\<lparr>mRDSInfo := (mRDSInfo s)\<lparr>ri_mStationName := f\<rparr>\<rparr> else s
      else s)"

text \<open>One pass of \<open>readThread\<close> after its sleep; the result says whether the thread returned.\<close>

definition readThread_body :: "i2c_bus \<Rightarrow> (u16 \<Rightarrow> string) \<Rightarrow> FMReceiver \<Rightarrow> ((fm_error + bool) \<times> FMReceiver) option" where
  "readThread_body bus fmt s =
     (case waitForCTS bus s of
        (Inl e, s) \<Rightarrow> Some (Inl e, s)
      | (Inr False, s) \<Rightarrow> Some (Inr True, s)
      | (Inr True, s) \<Rightarrow>
          case fm_command bus [FM_TUNE_STATUS, 0x00] 8 s of
            (Inl e, s) \<Rightarrow> Some (Inl e, s)
          | (Inr tune, s) \<Rightarrow>
              case waitForCTS bus (show_frequency fmt tune s) of
                (Inl e, s) \<Rightarrow> Some (Inl e, s)
              | (Inr False, s) \<Rightarrow> Some (Inr True, s)
              | (Inr True, s) \<Rightarrow>
                  case fm_command bus [FM_RSQ_STATUS, 0x00] 8 s of
                    (Inl e, s) \<Rightarrow> Some (Inl e, s)
                  | (Inr rsq, s) \<Rightarrow>
                      map_option (\<lambda>(r, s). (map_sum id (\<lambda>_. False) r, s))
                        (readRDSInfo bus (if rsq ! 0 \<noteq> 0
                           then s\<lparr>mRDSInfo := (mRDSInfo s)\<lparr>ri_mReceiveLevel := rsq ! 4\<rparr>\<rparr> else s)))"

definition fm_thread_pass :: "i2c_bus \<Rightarrow> (u16 \<Rightarrow> string) \<Rightarrow> FMReceiver \<Rightarrow> ((fm_error + unit) \<times> FMReceiver) option" where
  "fm_thread_pass bus fmt s =
     (if \<not> thread_runs s then Some (Inr (), s)
      else map_option (\<lambda>(r, s). case r of
             Inl e \<Rightarrow> (Inl Terminated, s)
           | Inr returned \<Rightarrow> (Inr (), s\<lparr>thread_runs := \<not> returned \<and> mReadThreadRunning s\<rparr>)) (readThread_body bus fmt s))"

definition fm_startReadThread :: "unit fm_op" where
  "fm_startReadThread s =
     (let s = s\<lparr>mReadThreadRunning := True\<rparr>
      in if mReadThread s then (Inl Terminated, s)
         else (Inr (), s\<lparr>mReadThread := True, thread_runs := True\<rparr>))"

definition fm_stopReadThread :: "i2c_bus \<Rightarrow> (u16 \<Rightarrow> string) \<Rightarrow> FMReceiver \<Rightarrow> ((fm_error + unit) \<times> FMReceiver) option" where
  "fm_stopReadThread bus fmt s =
     (let s = s\<lparr>mReadThreadRunning := False\<rparr>
      in if mReadThread s
         then map_option (\<lambda>(r, s). (r, case r of Inl e \<Rightarrow> s | Inr _ \<Rightarrow> s\<lparr>mReadThread := False\<rparr>)) (fm_thread_pass bus fmt s)
         else Some (Inr (), s))"

section \<open>Power and tuning\<close>

primrec set_properties :: "i2c_bus \<Rightarrow> (u16 \<times> u16) list \<Rightarrow> unit fm_op" where
  "set_properties bus [] s = (Inr (), s)"
| "set_properties bus (p # ps) s = seq_io (fm_setProperty bus (fst p) (snd p) s) (set_properties bus ps)"

definition power_up_properties :: "(u16 \<times> u16) list" where
  "power_up_properties =
     [(0xFF00, 0), (PROP_FM_RDS_CONFIG, FM_RDS_CONFIG_ARG_ENABLE),
      (PROP_FM_RDS_INT_SOURCE, RDS_RECEIVED_MASK OR RDS_SYNC_FOUND_MASK OR RDS_SYNC_LOST_MASK),
      (PROP_FM_SEEK_BAND_BOTTOM, 6400), (PROP_FM_SEEK_BAND_TOP, 10800), (PROP_FM_SEEK_FREQ_SPACING, 10),
      (PROP_FM_DEEMPHASIS, FM_DEEMPHASIS_ARG_50)]"

definition fm_internalPowerOn :: "i2c_bus \<Rightarrow> bool fm_op" where
  "fm_internalPowerOn bus s =
     bind_io (waitForCTS bus s) (\<lambda>cts s.
       if \<not> cts then (Inr False, s)
       else seq_io (fm_command bus [POWER_UP, POWER_UP_ARG1_XOSCEN, POWER_UP_AUDIO_OUT_ANALOG] 1 s) (\<lambda>s.
            seq_io (set_properties bus power_up_properties s) (\<lambda>s.
            seq_io (fm_startReadThread (s\<lparr>mRDSInfo := clearAll False (mRDSInfo s),
                      mReceivingRDSInfo := clearAll True (mReceivingRDSInfo s)\<rparr>)) (Pair (Inr True)))))"

definition fm_power_down :: "i2c_bus \<Rightarrow> bool fm_op" where
  "fm_power_down bus s =
     (case mPowerState s of
        FMPowerOff \<Rightarrow> (Inr True, s)
      | FMPowerOn \<Rightarrow>
          bind_io (waitForCTS bus s) (\<lambda>cts s.
            if \<not> cts then (Inr False, s) else seq_io (fm_command bus [POWER_DOWN] 1 s) (Pair (Inr True)))
      | FMUnknown \<Rightarrow> seq_io (fm_command bus [POWER_DOWN] 1 s) (Pair (Inr True)))"

definition fm_internalPowerOff ::
  "i2c_bus \<Rightarrow> (u16 \<Rightarrow> string) \<Rightarrow> FMReceiver \<Rightarrow> ((fm_error + bool) \<times> FMReceiver) option" where
  "fm_internalPowerOff bus fmt s =
     map_option (\<lambda>r. seq_io r (fm_power_down bus)) (fm_stopReadThread bus fmt s)"

definition fm_powerOn :: "i2c_bus \<Rightarrow> bool fm_op" where
  "fm_powerOn bus s =
     seq_io (if mPowerCounter s = 0 then seq_io (fm_internalPowerOn bus s) (Pair (Inr ())) else (Inr (), s)) (\<lambda>s.
       (Inr True, s\<lparr>mPowerCounter := mPowerCounter s + 1\<rparr>))"

definition fm_powerOff :: "i2c_bus \<Rightarrow> (u16 \<Rightarrow> string) \<Rightarrow> FMReceiver \<Rightarrow> ((fm_error + bool) \<times> FMReceiver) option" where
  "fm_powerOff bus fmt s =
     map_option (\<lambda>r. seq_io r (\<lambda>s. (Inr True, s\<lparr>mPowerCounter := mPowerCounter s - 1\<rparr>)))
       (if mPowerCounter s \<le> 1 then map_option (\<lambda>r. seq_io r (Pair (Inr ()))) (fm_internalPowerOff bus fmt s)
        else Some (Inr (), s))"

definition seekUp :: "i2c_bus \<Rightarrow> bool fm_op" where
  "seekUp bus s =
     bind_io (waitForCTS bus s) (\<lambda>cts s.
       if \<not> cts then (Inr False, s)
       else bind_io (waitForSTC bus s) (\<lambda>stc s.
            if \<not> stc then (Inr False, s)
            else seq_io (fm_command bus [FM_SEEK_START, 0x0C] 1 s) (\<lambda>s.
              (Inr True, s\<lparr>mReceivingRDSInfo := clearAll True (mReceivingRDSInfo s),
                 mRDSInfo := (clearAll False (mRDSInfo s))\<lparr>mValidRds := False, ri_mStationName := ''Seek...''\<rparr>\<rparr>))))"

text \<open>\<open>shown\<close> is the text of the frequency and \<open>f100\<close> a hundred times its value, truncated.\<close>

definition tuneFrequency :: "i2c_bus \<Rightarrow> string \<Rightarrow> u16 \<Rightarrow> bool fm_op" where
  "tuneFrequency bus shown f100 s =
     (let s = s\<lparr>mRDSInfo := (mRDSInfo s)\<lparr>ri_mStationName := shown, ri_mText := [], mValidRds := False\<rparr>\<rparr>
      in bind_io (waitForCTS bus s) (\<lambda>cts s.
           if \<not> cts then (Inr False, s)
           else seq_io (fm_command bus [FM_TUNE_FREQ, 0x00, ucast (drop_bit 8 f100), ucast f100] 1 s) (Pair (Inr True))))"

definition getRDSInfo :: "FMReceiver \<Rightarrow> RDSInfo" where
  "getRDSInfo s = mRDSInfo s"

definition fm_registerRadioObserver :: "nat option \<Rightarrow> FMReceiver \<Rightarrow> FMReceiver" where
  "fm_registerRadioObserver obs s =
     (case obs of None \<Rightarrow> s | Some x \<Rightarrow> s\<lparr>mRadioObservers := insert x (mRadioObservers s)\<rparr>)"

definition fm_unRegisterRadioObserver :: "nat option \<Rightarrow> FMReceiver \<Rightarrow> FMReceiver" where
  "fm_unRegisterRadioObserver obs s =
     (case obs of None \<Rightarrow> s | Some x \<Rightarrow> s\<lparr>mRadioObservers := mRadioObservers s - {x}\<rparr>)"

definition new_FMReceiver ::
  "i2c_bus \<Rightarrow> (u16 \<Rightarrow> string) \<Rightarrow> I2C \<Rightarrow> u8 \<Rightarrow> bool \<Rightarrow> ((fm_error + unit) \<times> FMReceiver) option" where
  "new_FMReceiver bus fmt i2c address hasBoard =
     (let board = (\<lambda>c s. if fm_board s then s\<lparr>board_calls := board_calls s @ [c]\<rparr> else s);
          s = board ResetTuner
                \<lparr>fm_I2C = i2c, fm_mAddress = address, fm_board = hasBoard, board_calls = [], mPowerCounter = 0,
                 mPowerState = FMUnknown, mRDSInfo = new_RDSInfo, mReceivingRDSInfo = new_RDSInfo, mReadThread = False,
                 thread_runs = False, mReadThreadRunning = False, mRadioObservers = {}\<rparr>
      in map_option (\<lambda>r. seq_io r (\<lambda>s. (Inr (), (board (SelectInput RadioIn) s)
             \<lparr>mPowerCounter := 0, fm_I2C := registerAddress address ''FM Receiver'' (fm_I2C s)\<rparr>))) (fm_powerOff bus fmt s))"

section \<open>What a station sends\<close>

lemma chr_eq [simp]: "chr (of_char c) = c"
proof -
  have "(of_char c :: u8) = of_nat (of_char c)" by (simp add: of_char_def)
  moreover have "(of_char c :: nat) < 256" by simp
  ultimately have "unat (of_char c :: u8) = of_char c" by (simp add: unat_of_nat take_bit_nat_eq_self)
  then show ?thesis by (simp add: chr_def)
qed

text \<open>
  The groups of a station as the tuner delivers them: a pair of characters of the name, or four characters
  of the text \<open>w\<close>. The bytes that the decoder does not use come from \<open>f\<close>: status, programme
  identification, the bits of block B beside type, version and address. The lowest bit of the first byte of block B is set.
\<close>

datatype rds_group =
    NameGroup nat
  | TextGroup nat

definition station_response :: "string \<Rightarrow> string \<Rightarrow> bool \<Rightarrow> (nat \<Rightarrow> u8) \<Rightarrow> rds_group \<Rightarrow> bytes" where
  "station_response nm w ab f g =
     [f 0, f 1, f 2, f 3, f 4, f 5] @
     (case g of
        NameGroup k \<Rightarrow>
          [0x01 OR (f 6 AND 0x06), of_nat k OR (f 7 AND 0xFC), f 8, f 9, of_char (nm ! (2 * k)), of_char (nm ! (2 * k + 1)), 0]
      | TextGroup k \<Rightarrow>
          [0x21 OR (f 6 AND 0x06), of_nat k OR (f 7 AND 0xE0) OR (if ab then 0x10 else 0),
           of_char (w ! (4 * k)), of_char (w ! (4 * k + 1)), of_char (w ! (4 * k + 2)), of_char (w ! (4 * k + 3)), 0])"

lemma u8_bit_list:
  assumes "list_all (\<lambda>i. bit w i = Q i) [0, 1, 2, 3, 4, 5, 6, 7]" "\<And>i. Q i \<Longrightarrow> i < 8"
  shows "bit (w::u8) n = Q n"
proof (cases "n < 8")
  case True
  then have "n = 0 \<or> n = 1 \<or> n = 2 \<or> n = 3 \<or> n = 4 \<or> n = 5 \<or> n = 6 \<or> n = 7" by auto
  then show ?thesis using assms(1) by auto
next
  case False
  then show ?thesis using assms(2) bit_imp_le_length [of w n] by auto
qed

lemma u8_bits:
  "bit (0x01::u8) n \<longleftrightarrow> n = 0" "bit (0x21::u8) n \<longleftrightarrow> n = 0 \<or> n = 5" "bit (0x06::u8) n \<longleftrightarrow> n = 1 \<or> n = 2"
  "bit (0xFC::u8) n \<longleftrightarrow> 2 \<le> n \<and> n < 8" "bit (0xE0::u8) n \<longleftrightarrow> 5 \<le> n \<and> n < 8" "bit (0x10::u8) n \<longleftrightarrow> n = 4"
  "bit (0x0F::u8) n \<longleftrightarrow> n < 4" "bit (3::u8) n \<longleftrightarrow> n < 2" "bit (2::u8) n \<longleftrightarrow> n = 1"
  by (rule u8_bit_list; force)+

lemma small_bits: "k < 2 ^ m \<Longrightarrow> bit (of_nat k :: u8) n \<Longrightarrow> n < m"
  by (metis bit_of_nat_iff bit_take_bit_iff take_bit_nat_eq_self)

lemma block_b:
  fixes x :: u8
  shows "bit (0x01 OR (x AND 0x06)) 0" "drop_bit 4 (0x01 OR (x AND 0x06)) = 0"
    "bit (0x21 OR (x AND 0x06)) 0" "drop_bit 4 (0x21 OR (x AND 0x06)) = 2" "\<not> bit (0x21 OR (x AND 0x06)) 3"
  by (auto intro!: bit_word_eqI simp: bit_or_iff bit_and_iff bit_drop_bit_eq u8_bits simp del: bit_numeral_word_iff)

lemma block_b_address:
  fixes x :: u8
  shows "k < 4 \<Longrightarrow> unat ((of_nat k OR (x AND 0xFC)) AND 3) = k"
    and "k < 16 \<Longrightarrow> unat ((of_nat k OR (x AND 0xE0) OR (if ab then 0x10 else 0)) AND 0x0F) = k"
    and "k < 16 \<Longrightarrow> bit (of_nat k OR (x AND 0xE0) OR (if ab then 0x10 else 0)) 4 = ab"
proof -
  assume k: "k < 4"
  have "(of_nat k OR (x AND 0xFC)) AND 3 = of_nat k"
    using small_bits [of k 2] k by (intro bit_word_eqI) (auto simp: bit_or_iff bit_and_iff u8_bits simp del: bit_numeral_word_iff)
  then show "unat ((of_nat k OR (x AND 0xFC)) AND 3) = k" using k by (simp add: unat_of_nat take_bit_nat_eq_self)
next
  assume k: "k < 16"
  have "(of_nat k OR (x AND 0xE0) OR (if ab then 0x10 else 0)) AND 0x0F = of_nat k"
    using small_bits [of k 4] k by (intro bit_word_eqI) (auto simp: bit_or_iff bit_and_iff u8_bits simp del: bit_numeral_word_iff)
  then show "unat ((of_nat k OR (x AND 0xE0) OR (if ab then 0x10 else 0)) AND 0x0F) = k"
    using k by (simp add: unat_of_nat take_bit_nat_eq_self)
  show "bit (of_nat k OR (x AND 0xE0) OR (if ab then 0x10 else 0)) 4 = ab"
    using small_bits [of k 4 4] k by (auto simp: bit_or_iff bit_and_iff u8_bits simp del: bit_numeral_word_iff)
qed

lemma response_name:
  assumes "k < 4"
  shows "rds_response (station_response nm w ab f (NameGroup k)) r =
     (f 3 > 0, name_group (station_response nm w ab f (NameGroup k)) r)"
  using block_b [of "f 6"] by (simp add: rds_response_def station_response_def Block_B_H_def Let_def)

lemma response_text:
  "rds_response (station_response nm w ab f (TextGroup k)) r =
     (f 3 > 0, text_group (station_response nm w ab f (TextGroup k)) r)"
  using block_b [of "f 6"] by (simp add: rds_response_def station_response_def Block_B_H_def Let_def)

section \<open>Decoding the text\<close>

text \<open>The buffer holds parts of the message; a place that was not received yet has the special character.\<close>

definition part_of :: "string \<Rightarrow> string \<Rightarrow> bool" where
  "part_of t b \<longleftrightarrow> length t \<le> length b \<and> (\<forall>i<length t. b ! i = EMPTY_CHAR \<or> b ! i = t ! i)"

lemma part_of_fresh: "length t \<le> 65 \<Longrightarrow> part_of t (replicate 65 EMPTY_CHAR)"
  by (simp add: part_of_def)

lemma part_of_complete:
  assumes "part_of t b" "EMPTY_CHAR \<notin> set (take (length t) b)"
  shows "take (length t) b = t"
proof (rule nth_equalityI)
  show "length (take (length t) b) = length t" using assms(1) by (simp add: part_of_def)
  fix i assume "i < length (take (length t) b)"
  then have i: "i < length t" "i < length b" by auto
  then have "b ! i \<in> set (take (length t) b)" by (auto simp: in_set_conv_nth intro!: exI [of _ i])
  then show "take (length t) b ! i = t ! i" using assms i by (auto simp: part_of_def)
qed

definition message :: "string \<Rightarrow> string \<Rightarrow> nat \<Rightarrow> bool" where
  "message t w m \<longleftrightarrow> EMPTY_CHAR \<notin> set t \<and> CHR 0x0D \<notin> set t \<and> m < 16 \<and> 4 * m \<le> length t \<and> length t < 4 * m + 4 \<and>
     (\<exists>pad. w = t @ CHR 0x0D # pad \<and> CHR 0x0D \<notin> set pad \<and> 4 * m + 4 \<le> length w)"

definition text_inv :: "string \<Rightarrow> bool \<Rightarrow> nat set \<Rightarrow> rds \<Rightarrow> bool" where
  "text_inv t ab S r \<longleftrightarrow> mTextType (snd r) = ABToTextType ab \<and> part_of t (ri_mText (snd r)) \<and>
     (ri_mText (fst r) = t \<or> (\<forall>i\<in>S. i < length t \<longrightarrow> ri_mText (snd r) ! i = t ! i))"

definition names :: "rds \<Rightarrow> string \<times> string" where
  "names r = (ri_mStationName (fst r), ri_mStationName (snd r))"

lemma text_byte_names: "mTextType (snd r) = ABToTextType ab \<Longrightarrow> names (text_byte resp ab p q r) = names r"
  by (cases r) (simp add: text_byte_def names_def Let_def clearText_def)

lemma text_byte_inv:
  assumes "message t w m" "text_inv t ab S r" "q < length resp" "chr (resp ! q) = w ! p" "p < 4 * m + 4"
  shows "text_inv t ab (insert p S) (text_byte resp ab p q r)"
    and "p = length t \<Longrightarrow> {..<length t} \<subseteq> S \<Longrightarrow> ri_mText (fst (text_byte resp ab p q r)) = t"
    and "ri_mText (fst r) = t \<Longrightarrow> ri_mText (fst (text_byte resp ab p q r)) = t"
proof -
  obtain info rec where r: "r = (info, rec)" by (cases r)
  obtain pad where w: "w = t @ CHR 0x0D # pad" "CHR 0x0D \<notin> set pad" "4 * m + 4 \<le> length w"
    using assms(1) by (auto simp: message_def)
  have t: "EMPTY_CHAR \<notin> set t" "CHR 0x0D \<notin> set t" "length t \<le> 65" using assms(1) by (auto simp: message_def)
  have inv: "mTextType rec = ABToTextType ab" "part_of t (ri_mText rec)"
      "ri_mText info = t \<or> (\<forall>i\<in>S. i < length t \<longrightarrow> ri_mText rec ! i = t ! i)"
    using assms(2) by (auto simp: text_inv_def r)
  have main: "text_inv t ab (insert p S) (text_byte resp ab p q r) \<and>
      (p = length t \<longrightarrow> {..<length t} \<subseteq> S \<longrightarrow> ri_mText (fst (text_byte resp ab p q r)) = t) \<and>
      (ri_mText (fst r) = t \<longrightarrow> ri_mText (fst (text_byte resp ab p q r)) = t)"
  proof (cases "p = length t")
    case True
    have cr: "chr (resp ! q) = CHR 0x0D" using assms(4) w(1) True by (simp add: nth_append)
    define b where "b = take (length t) (ri_mText rec)"
    have tb: "text_byte resp ab p q r =
        (if EMPTY_CHAR \<notin> set b \<and> ri_mText info \<noteq> b
         then (info\<lparr>ri_mText := b, mTextType := mTextType rec\<rparr>, clearText True (rec\<lparr>ri_mText := b\<rparr>))
         else (info, rec\<lparr>ri_mText := b\<rparr>))"
      using assms(3) cr inv(1) by (simp add: r text_byte_def Let_def True textComplete_def b_def)
    have b: "length b = length t" "part_of t b" using inv(2) by (auto simp: part_of_def b_def)
    have bi: "i < length t \<Longrightarrow> b ! i = ri_mText rec ! i" for i by (simp add: b_def)
    show ?thesis
    proof (cases "EMPTY_CHAR \<notin> set b")
      case E: True
      have bt: "b = t" using part_of_complete [OF inv(2)] E by (simp add: b_def)
      show ?thesis
        unfolding tb bt using inv(1) t part_of_fresh [OF t(3)]
        by (simp add: text_inv_def r clearText_def fill_char_def part_of_def)
    next
      case E: False
      have "b = t" if "{..<length t} \<subseteq> S" "ri_mText info \<noteq> t"
        using inv(3) that b(1) bi by (intro nth_equalityI) auto
      then have "{..<length t} \<subseteq> S \<longrightarrow> ri_mText info = t" using E t(1) by blast
      then show ?thesis
        unfolding tb using E inv(1,3) b bi True by (simp add: text_inv_def r)
    qed
  next
    case False
    have p: "p < length w" using assms(5) w(3) by simp
    have ne: "chr (resp ! q) \<noteq> CHR 0x0D"
    proof (cases "p < length t")
      case True
      then have "w ! p \<in> set t" using w(1) by (simp add: nth_append)
      then show ?thesis using assms(4) t(2) by metis
    next
      case False
      then have "p - Suc (length t) < length pad" using p w(1) \<open>p \<noteq> length t\<close> by simp
      moreover have "w ! p = pad ! (p - Suc (length t))" using False \<open>p \<noteq> length t\<close> w(1) by (simp add: nth_append nth_Cons')
      ultimately have "w ! p \<in> set pad" by simp
      then show ?thesis using assms(4) w(2) by metis
    qed
    have c: "p < length t \<Longrightarrow> chr (resp ! q) = t ! p" using assms(4) w(1) by (simp add: nth_append)
    show ?thesis
      using assms(3) ne inv False c
      by (auto simp: r text_byte_def Let_def text_inv_def part_of_def nth_list_update)
  qed
  then show "text_inv t ab (insert p S) (text_byte resp ab p q r)"
    "p = length t \<Longrightarrow> {..<length t} \<subseteq> S \<Longrightarrow> ri_mText (fst (text_byte resp ab p q r)) = t"
    "ri_mText (fst r) = t \<Longrightarrow> ri_mText (fst (text_byte resp ab p q r)) = t" by blast+
qed

definition text_shown :: "string \<Rightarrow> rds \<Rightarrow> bool" where
  "text_shown t r \<longleftrightarrow> ri_mText (fst r) = t"

lemma text_group_inv:
  fixes nm :: string and f :: "nat \<Rightarrow> u8"
  assumes "message t w m" "text_inv t ab S r" "k \<le> m"
  defines "resp \<equiv> station_response nm w ab f (TextGroup k)"
  shows "text_inv t ab (S \<union> {4 * k..<4 * k + 4}) (text_group resp r)"
    and "k = m \<Longrightarrow> {..<4 * m} \<subseteq> S \<Longrightarrow> text_shown t (text_group resp r)"
    and "text_shown t r \<Longrightarrow> text_shown t (text_group resp r)"
    and "names (text_group resp r) = names r"
proof -
  have k: "k < 16" using assms(1,3) by (simp add: message_def)
  let ?b = "\<lambda>j. text_byte resp ab (4 * k + j) (8 + j)"
  have eq: "text_group resp r = ?b 3 (?b 2 (?b 1 (?b 0 r)))"
    using block_b(5) [of "f 6"] block_b_address(2,3) [OF k, of "f 7" ab]
    by (simp add: text_group_def resp_def station_response_def block_defs Let_def numeral_eq_Suc mult.commute)
  have resp: "length resp = 13" "chr (resp ! (8 + j)) = w ! (4 * k + j)" if "j < 4" for j
  proof -
    show "length resp = 13" by (simp add: resp_def station_response_def)
    have "j = 0 \<or> j = 1 \<or> j = 2 \<or> j = 3" using that by auto
    then show "chr (resp ! (8 + j)) = w ! (4 * k + j)" by (auto simp: resp_def station_response_def)
  qed
  have st: "text_inv t ab (insert (4 * k + j) S') (?b j r')"
      "4 * k + j = length t \<Longrightarrow> {..<length t} \<subseteq> S' \<Longrightarrow> text_shown t (?b j r')"
      "text_shown t r' \<Longrightarrow> text_shown t (?b j r')" "names (?b j r') = names r'"
    if "text_inv t ab S' r'" "j < 4" for S' r' j
    using text_byte_inv [OF assms(1) that(1), of "8 + j" resp "4 * k + j"] resp [OF that(2)] that assms(3)
      text_byte_names [of r' ab] by (auto simp: text_shown_def text_inv_def)
  note s0 = st [OF assms(2), of 0]
  note s1 = st [OF s0(1), of 1]
  note s2 = st [OF s1(1), of 2]
  note s3 = st [OF s2(1), of 3]
  have set: "S \<union> {4 * k..<4 * k + 4} = insert (4 * k + 3) (insert (4 * k + 2) (insert (4 * k + 1) (insert (4 * k + 0) S)))" by auto
  show "text_inv t ab (S \<union> {4 * k..<4 * k + 4}) (text_group resp r)"
    unfolding eq set using s3(1) by simp
  show "names (text_group resp r) = names r" unfolding eq using s0(4) s1(4) s2(4) s3(4) by simp
  show "text_shown t r \<Longrightarrow> text_shown t (text_group resp r)" unfolding eq using s0(3) s1(3) s2(3) s3(3) by simp
  show "text_shown t (text_group resp r)" if km: "k = m" and S: "{..<4 * m} \<subseteq> S"
  proof -
    have sub: "{..<length t} \<subseteq> T" if T: "\<And>i. 4 * k \<le> i \<Longrightarrow> i < length t \<Longrightarrow> i \<in> T" "S \<subseteq> T" for T
    proof
      fix i assume "i \<in> {..<length t}"
      then show "i \<in> T"
      proof (cases "4 * k \<le> i")
        case False
        then have "i \<in> {..<4 * m}" using km by simp
        then show ?thesis using S T(2) by blast
      qed (use T(1) in simp)
    qed
    consider "length t = 4 * k + 0" | "length t = 4 * k + 1" | "length t = 4 * k + 2" | "length t = 4 * k + 3"
      using assms(1) km unfolding message_def by linarith
    then show ?thesis
    proof cases
      case 1
      then have "text_shown t (?b 0 r)" by (intro s0(2) sub) auto
      then show ?thesis unfolding eq using s1(3) s2(3) s3(3) by simp
    next
      case 2
      then have "text_shown t (?b 1 (?b 0 r))" by (intro s1(2) sub) auto
      then show ?thesis unfolding eq using s2(3) s3(3) by simp
    next
      case 3
      then have "text_shown t (?b 2 (?b 1 (?b 0 r)))" by (intro s2(2) sub) auto
      then show ?thesis unfolding eq using s3(3) by simp
    next
      case 4
      then show ?thesis unfolding eq by (intro s3(2) sub) auto
    qed
  qed
qed

section \<open>Decoding the name\<close>

lemma dropWhile_id: "xs = [] \<or> \<not> P (hd xs) \<Longrightarrow> dropWhile P xs = xs"
  by (cases xs) auto

lemma fm_trim_idem [simp]: "fm_trim (fm_trim s) = fm_trim s"
proof -
  let ?P = "\<lambda>c. c \<in> set whiteSpaces"
  define y where "y = rev (dropWhile ?P (rev s))"
  define x where "x = dropWhile ?P y"
  have x: "fm_trim s = x" by (simp add: fm_trim_def trimLeft_def trimRight_def x_def y_def)
  have "rev x = [] \<or> \<not> ?P (hd (rev x))"
  proof (cases "x = []")
    case False
    then have "y \<noteq> []" by (auto simp: x_def)
    have "last x = last y" using False unfolding x_def by (metis dropWhile_append dropWhile_eq_drop last_drop length_drop length_greater_0_conv zero_less_diff)
    also have "\<dots> = hd (dropWhile ?P (rev s))" using \<open>y \<noteq> []\<close> by (simp add: y_def last_rev)
    finally have "last x = hd (dropWhile ?P (rev s))" .
    moreover have "dropWhile ?P (rev s) \<noteq> []" using \<open>y \<noteq> []\<close> by (simp add: y_def)
    ultimately have "\<not> ?P (last x)" using hd_dropWhile [of ?P "rev s"] by simp
    then show ?thesis by (simp add: hd_rev)
  qed simp
  then have "trimRight x = x" by (simp add: trimRight_def dropWhile_id)
  moreover have "trimLeft x = x"
    unfolding trimLeft_def by (rule dropWhile_id) (use hd_dropWhile [of ?P y] in \<open>auto simp: x_def\<close>)
  ultimately have "fm_trim x = x" by (simp add: fm_trim_def)
  then show ?thesis by (simp add: x)
qed

definition name_inv :: "string \<Rightarrow> nat set \<Rightarrow> rds \<Rightarrow> bool" where
  "name_inv nm K r \<longleftrightarrow> length (ri_mStationName (snd r)) = 8 \<and> part_of nm (ri_mStationName (snd r)) \<and>
     (\<forall>k\<in>K. k < 4 \<longrightarrow> ri_mStationName (snd r) ! (2 * k) = nm ! (2 * k) \<and> ri_mStationName (snd r) ! (2 * k + 1) = nm ! (2 * k + 1))"

definition name_shown :: "string \<Rightarrow> rds \<Rightarrow> bool" where
  "name_shown nm r \<longleftrightarrow> fm_trim (ri_mStationName (fst r)) = fm_trim nm"

definition texts :: "rds \<Rightarrow> string \<times> string \<times> TextType" where
  "texts r = (ri_mText (fst r), ri_mText (snd r), mTextType (snd r))"

lemma even_odd_8: "i < 8 \<Longrightarrow> \<exists>k<4. i = 2 * k \<or> i = 2 * k + (1::nat)"
  by (rule exI [of _ "i div 2"]) auto

lemma name_group_inv:
  fixes nm w :: string and f :: "nat \<Rightarrow> u8" and ab :: bool
  assumes "length nm = 8" "EMPTY_CHAR \<notin> set nm" "name_inv nm K r" "k < 4"
  defines "resp \<equiv> station_response nm w ab f (NameGroup k)"
  shows "name_inv nm (insert k K) (name_group resp r)"
    and "{..<4} \<subseteq> insert k K \<Longrightarrow> name_shown nm (name_group resp r)"
    and "name_shown nm r \<Longrightarrow> name_shown nm (name_group resp r)"
    and "texts (name_group resp r) = texts r"
proof -
  obtain info rec where r: "r = (info, rec)" by (cases r)
  define b where "b = (ri_mStationName rec)[2 * k := nm ! (2 * k), 2 * k + 1 := nm ! (2 * k + 1)]"
  have inv: "length (ri_mStationName rec) = 8" "part_of nm (ri_mStationName rec)"
      "\<And>j. j \<in> K \<Longrightarrow> j < 4 \<Longrightarrow> ri_mStationName rec ! (2 * j) = nm ! (2 * j) \<and> ri_mStationName rec ! (2 * j + 1) = nm ! (2 * j + 1)"
    using assms(3) by (auto simp: name_inv_def r)
  have "unat (resp ! 7 AND 3) = k" "chr (resp ! 10) = nm ! (2 * k)" "chr (resp ! 11) = nm ! (2 * k + 1)"
    using block_b_address(1) [OF assms(4), of "f 7"] by (simp_all add: resp_def station_response_def)
  then have eq: "name_group resp r =
      (let rec = rec\<lparr>ri_mStationName := b\<rparr> in
       if EMPTY_CHAR \<notin> set b \<and> fm_trim (ri_mStationName info) \<noteq> fm_trim b
       then (info\<lparr>ri_mStationName := fm_trim b, mValidRds := True\<rparr>, rec) else (info, rec))"
    using inv(1) assms(4) by (simp add: name_group_def r Let_def block_defs b_def mult.commute stationNameComplete_def)
  have len: "length b = 8" using inv(1) by (simp add: b_def)
  have part: "part_of nm b" using inv(1,2) assms(1,4) by (auto simp: part_of_def b_def nth_list_update)
  have filled: "j \<in> insert k K \<Longrightarrow> j < 4 \<Longrightarrow> b ! (2 * j) = nm ! (2 * j) \<and> b ! (2 * j + 1) = nm ! (2 * j + 1)" for j
    using inv(1) inv(3) [of j] assms(4) by (auto simp: b_def nth_list_update)
  have full: "b = nm" if "EMPTY_CHAR \<notin> set b" using part_of_complete [OF part] len assms(1) that by simp
  show "name_inv nm (insert k K) (name_group resp r)"
    unfolding eq Let_def using len part filled by (auto simp: name_inv_def)
  show "texts (name_group resp r) = texts r" unfolding eq Let_def by (simp add: texts_def r)
  show "name_shown nm r \<Longrightarrow> name_shown nm (name_group resp r)"
    unfolding eq Let_def using full by (auto simp: name_shown_def r)
  show "name_shown nm (name_group resp r)" if all: "{..<4} \<subseteq> insert k K"
  proof -
    have "b = nm"
    proof (rule nth_equalityI)
      fix i assume "i < length b"
      then obtain j where "j < 4" "i = 2 * j \<or> i = 2 * j + 1" using even_odd_8 len by auto
      moreover have "j \<in> insert k K" using all \<open>j < 4\<close> by blast
      ultimately show "b ! i = nm ! i" using filled by auto
    qed (simp add: len assms(1))
    then show ?thesis unfolding eq Let_def using assms(2) by (auto simp: name_shown_def)
  qed
qed

section \<open>A station is shown\<close>

definition rds_run :: "bytes list \<Rightarrow> rds \<Rightarrow> rds" where
  "rds_run resps r = fold (\<lambda>resp r. snd (rds_response resp r)) resps r"

definition received :: "rds_group list \<Rightarrow> nat set" where
  "received gs = (\<Union>k\<in>{k. TextGroup k \<in> set gs}. {4 * k..<4 * k + 4})"

definition text_sent :: "nat \<Rightarrow> rds_group list \<Rightarrow> bool" where
  "text_sent m gs \<longleftrightarrow> (\<exists>xs ys. gs = xs @ TextGroup m # ys \<and> (\<forall>k<m. TextGroup k \<in> set xs))"

definition name_sent :: "rds_group list \<Rightarrow> bool" where
  "name_sent gs \<longleftrightarrow> (\<forall>k<4. NameGroup k \<in> set gs)"

fun group_ok :: "nat \<Rightarrow> rds_group \<Rightarrow> bool" where
  "group_ok m (NameGroup k) \<longleftrightarrow> k < 4"
| "group_ok m (TextGroup k) \<longleftrightarrow> k \<le> m"

definition decoded :: "string \<Rightarrow> string \<Rightarrow> nat \<Rightarrow> bool \<Rightarrow> rds_group list \<Rightarrow> rds \<Rightarrow> bool" where
  "decoded nm t m ab gs r \<longleftrightarrow> text_inv t ab (received gs) r \<and> name_inv nm {k. NameGroup k \<in> set gs} r \<and>
     (text_sent m gs \<longrightarrow> text_shown t r) \<and> (name_sent gs \<longrightarrow> name_shown nm r)"

lemma text_sent_snoc:
  "text_sent m (gs @ [g]) \<longleftrightarrow> text_sent m gs \<or> (g = TextGroup m \<and> (\<forall>k<m. TextGroup k \<in> set gs))"
proof
  assume "text_sent m (gs @ [g])"
  then obtain xs ys where xs: "gs @ [g] = xs @ TextGroup m # ys" "\<forall>k<m. TextGroup k \<in> set xs" by (auto simp: text_sent_def)
  show "text_sent m gs \<or> (g = TextGroup m \<and> (\<forall>k<m. TextGroup k \<in> set gs))"
  proof (cases ys rule: rev_cases)
    case Nil
    then show ?thesis using xs by simp
  next
    case (snoc zs z)
    then have "gs = xs @ TextGroup m # zs" using xs(1) by (metis append.assoc append_Cons butlast_snoc)
    then show ?thesis using xs(2) by (auto simp: text_sent_def)
  qed
next
  assume "text_sent m gs \<or> (g = TextGroup m \<and> (\<forall>k<m. TextGroup k \<in> set gs))"
  then show "text_sent m (gs @ [g])"
  proof
    assume "text_sent m gs"
    then obtain xs ys where "gs = xs @ TextGroup m # ys" "\<forall>k<m. TextGroup k \<in> set xs" by (auto simp: text_sent_def)
    then have "gs @ [g] = xs @ TextGroup m # (ys @ [g]) \<and> (\<forall>k<m. TextGroup k \<in> set xs)" by simp
    then show ?thesis unfolding text_sent_def by blast
  next
    assume "g = TextGroup m \<and> (\<forall>k<m. TextGroup k \<in> set gs)"
    then have "gs @ [g] = gs @ TextGroup m # [] \<and> (\<forall>k<m. TextGroup k \<in> set gs)" by simp
    then show ?thesis unfolding text_sent_def by blast
  qed
qed

lemma received_all:
  assumes "\<forall>k<m. TextGroup k \<in> set gs"
  shows "{..<4 * m} \<subseteq> received gs"
proof
  fix i assume "i \<in> {..<4 * m}"
  then have "i div 4 < m" by (auto simp: less_mult_imp_div_less mult.commute)
  moreover have "i \<in> {4 * (i div 4)..<4 * (i div 4) + 4}" by auto
  ultimately show "i \<in> received gs" unfolding received_def using assms by blast
qed

lemma decoded_step:
  assumes "message t w m" "length nm = 8" "EMPTY_CHAR \<notin> set nm" "decoded nm t m ab gs r" "group_ok m g"
  shows "decoded nm t m ab (gs @ [g]) (snd (rds_response (station_response nm w ab f g) r))"
proof (cases g)
  case (NameGroup k)
  have k: "k < 4" using assms(5) NameGroup by simp
  let ?r = "name_group (station_response nm w ab f (NameGroup k)) r"
  have d: "name_inv nm {k. NameGroup k \<in> set gs} r" using assms(4) by (simp add: decoded_def)
  note n = name_group_inv [OF assms(2,3) d k, of w ab f]
  have ins: "{j. NameGroup j \<in> set (gs @ [g])} = insert k {j. NameGroup j \<in> set gs}" using NameGroup by auto
  have rec: "received (gs @ [g]) = received gs" using NameGroup by (auto simp: received_def)
  have ts: "text_inv t ab S ?r = text_inv t ab S r" "text_shown t ?r = text_shown t r" for S
    using n(4) by (auto simp: texts_def text_inv_def text_shown_def)
  have "name_sent (gs @ [g]) \<Longrightarrow> {..<4} \<subseteq> insert k {j. NameGroup j \<in> set gs}"
    unfolding ins [symmetric] by (auto simp: name_sent_def)
  then show ?thesis
    using n assms(4) NameGroup unfolding decoded_def NameGroup response_name [OF k] snd_conv ts ins [unfolded NameGroup] rec [unfolded NameGroup]
    by (auto simp: text_sent_snoc)
next
  case (TextGroup k)
  have k: "k \<le> m" using assms(5) TextGroup by simp
  let ?r = "text_group (station_response nm w ab f (TextGroup k)) r"
  have d: "text_inv t ab (received gs) r" using assms(4) by (simp add: decoded_def)
  note x = text_group_inv [OF assms(1) d k, of nm f]
  have rec: "received (gs @ [g]) = received gs \<union> {4 * k..<4 * k + 4}" using TextGroup by (auto simp: received_def)
  have ns: "name_inv nm S ?r = name_inv nm S r" "name_shown nm ?r = name_shown nm r" for S
    using x(4) by (auto simp: names_def name_inv_def name_shown_def)
  have nsent: "name_sent (gs @ [g]) = name_sent gs" "{j. NameGroup j \<in> set (gs @ [g])} = {j. NameGroup j \<in> set gs}"
    using TextGroup by (auto simp: name_sent_def)
  show ?thesis
    using x assms(4) received_all TextGroup
    unfolding decoded_def TextGroup response_text snd_conv ns nsent [unfolded TextGroup] rec [unfolded TextGroup]
    by (auto simp: text_sent_snoc)
qed

lemma decoded_run:
  assumes "message t w m" "length nm = 8" "EMPTY_CHAR \<notin> set nm" "text_inv t ab {} r" "name_inv nm {} r"
    "\<forall>(f, g)\<in>set fgs. group_ok m g"
  shows "decoded nm t m ab (map snd fgs) (rds_run (map (\<lambda>(f, g). station_response nm w ab f g) fgs) r)"
  using assms(6)
proof (induction fgs rule: rev_induct)
  case Nil
  have "\<not> text_sent m []" by (simp add: text_sent_def)
  moreover have "\<not> name_sent []" by (auto simp: name_sent_def intro: exI [of _ 0])
  ultimately show ?case using assms(4,5) by (simp add: decoded_def rds_run_def received_def)
next
  case (snoc fg fgs)
  then show ?case
    using decoded_step [OF assms(1-3), of ab "map snd fgs" _ "snd fg" "fst fg"]
    by (auto simp: rds_run_def split_beta)
qed

lemma fm_command_reads:
  assumes "bus (bus_pos (fm_I2C s)) = Transferred g" "wdata \<noteq> []"
  shows "\<exists>i. fm_command bus wdata n s = (Inr (map g [0..<n]), s\<lparr>fm_I2C := i\<rparr>) \<and> bus_pos i = Suc (bus_pos (fm_I2C s))"
  using assms
  by (simp add: fm_command_def readWriteData_def readWriteDataWithRetry_def retry_loop.simps [of bus]
      readWriteDataNoRetry_def Let_def DEFAULT_I2C_RETRY_def count_bytes_def)
    (rule exI, rule conjI, rule refl, simp)

text \<open>The queue of the tuner: the loop ends with the first response that says that no group is left.\<close>

definition queue_of :: "i2c_bus \<Rightarrow> nat \<Rightarrow> bytes list \<Rightarrow> bool" where
  "queue_of bus p resps \<longleftrightarrow> (\<forall>i<length resps. bus (p + i) = Transferred (\<lambda>j. resps ! i ! j) \<and> length (resps ! i) = 13 \<and>
     (\<forall>r. fst (rds_response (resps ! i) r) \<longleftrightarrow> Suc i < length resps))"

lemma queue_of_Cons:
  "queue_of bus p (x # xs) \<Longrightarrow> queue_of bus (Suc p) xs \<and> bus p = Transferred (\<lambda>j. x ! j) \<and> length x = 13 \<and>
     (\<forall>r. fst (rds_response x r) \<longleftrightarrow> xs \<noteq> [])"
  unfolding queue_of_def
  by (auto simp: all_conj_distrib dest: spec [of _ "Suc _"] spec [of _ 0])

lemma rds_loop_queue:
  assumes "queue_of bus (bus_pos (fm_I2C s)) resps" "resps \<noteq> []"
  shows "\<exists>t. rds_loop bus s = Some (Inr (), t) \<and>
     (mRDSInfo t, mReceivingRDSInfo t) = rds_run resps (mRDSInfo s, mReceivingRDSInfo s)"
  using assms
proof (induction resps arbitrary: s)
  case (Cons x xs)
  have q: "queue_of bus (Suc (bus_pos (fm_I2C s))) xs" "bus (bus_pos (fm_I2C s)) = Transferred (\<lambda>j. x ! j)" "length x = 13"
      "\<And>r. fst (rds_response x r) \<longleftrightarrow> xs \<noteq> []"
    using queue_of_Cons [OF Cons.prems(1)] by blast+
  obtain i where i: "fm_command bus [FM_RDS_STATUS, RDS_STATUS_ARG1_CLEAR_INT] 13 s = (Inr (map ((!) x) [0..<13]), s\<lparr>fm_I2C := i\<rparr>)"
      "bus_pos i = Suc (bus_pos (fm_I2C s))"
    using fm_command_reads [of bus s, OF q(2), of "[FM_RDS_STATUS, RDS_STATUS_ARG1_CLEAR_INT]" 13] by auto
  have x: "map ((!) x) [0..<13] = x" using q(3) by (metis map_nth)
  define r where "r = snd (rds_response x (mRDSInfo s, mReceivingRDSInfo s))"
  define s2 where "s2 = s\<lparr>fm_I2C := i, mRDSInfo := fst r, mReceivingRDSInfo := snd r\<rparr>"
  have step: "rds_loop bus s = (if xs \<noteq> [] then rds_loop bus s2 else Some (Inr (), s2))"
    using i(1) q(4) [of "(mRDSInfo s, mReceivingRDSInfo s)"]
    by (simp add: rds_loop.simps [of bus s] x split_beta Let_def r_def s2_def)
  show ?case
  proof (cases "xs = []")
    case True
    then show ?thesis unfolding step by (simp add: s2_def rds_run_def r_def)
  next
    case False
    have "queue_of bus (bus_pos (fm_I2C s2)) xs" using q(1) i(2) by (simp add: s2_def)
    from Cons.IH [OF this False] show ?thesis
      unfolding step using False by (simp add: s2_def rds_run_def r_def)
  qed
qed simp

lemma station_queue:
  assumes "\<forall>i<length fgs. bus (p + i) = Transferred (\<lambda>j. station_response nm w ab (fst (fgs ! i)) (snd (fgs ! i)) ! j)"
    "\<forall>i<length fgs. fst (fgs ! i) 3 > 0 \<longleftrightarrow> Suc i < length fgs" "\<forall>(f, g)\<in>set fgs. group_ok m g"
  shows "queue_of bus p (map (\<lambda>(f, g). station_response nm w ab f g) fgs)"
  unfolding queue_of_def
proof (intro allI impI conjI)
  fix i r assume "i < length (map (\<lambda>(f, g). station_response nm w ab f g) fgs)"
  then have i: "i < length fgs" by simp
  obtain f g where fg: "fgs ! i = (f, g)" by (cases "fgs ! i")
  have g: "group_ok m g" using assms(3) i fg nth_mem [of i fgs] by force
  show "bus (p + i) = Transferred (\<lambda>j. map (\<lambda>(f, g). station_response nm w ab f g) fgs ! i ! j)"
    "length (map (\<lambda>(f, g). station_response nm w ab f g) fgs ! i) = 13"
    using assms(1) i fg by (auto simp: station_response_def split: rds_group.split)
  have "fst (rds_response (station_response nm w ab f g) r) \<longleftrightarrow> f 3 > 0"
    using g by (cases g) (simp_all add: response_name response_text)
  then show "fst (rds_response (map (\<lambda>(f, g). station_response nm w ab f g) fgs ! i) r) \<longleftrightarrow>
      Suc i < length (map (\<lambda>(f, g). station_response nm w ab f g) fgs)"
    using assms(2) i fg by auto
qed


definition ex_groups :: "((nat \<Rightarrow> u8) \<times> rds_group) list" where
  "ex_groups = [(\<lambda>i. 4, NameGroup 2), (\<lambda>i. 3, NameGroup 0), (\<lambda>i. 2, NameGroup 3), (\<lambda>i. 1, NameGroup 1), (\<lambda>i. 0, TextGroup 0)]"

definition ex_text :: string where
  "ex_text = ''Hi'' @ [CHR 0x0D, CHR '' '']"

definition ex_fm_bus :: i2c_bus where
  "ex_fm_bus n = Transferred (\<lambda>j. if n = 0 then 5
     else station_response ''RADIO 1 '' ex_text True (fst (ex_groups ! (n - 1))) (snd (ex_groups ! (n - 1))) ! j)"

definition ex_fm :: FMReceiver where
  "ex_fm = \<lparr>fm_I2C = ex_i2c, fm_mAddress = 0x11, fm_board = False, board_calls = [], mPowerCounter = 1,
     mPowerState = FMUnknown, mRDSInfo = new_RDSInfo, mReceivingRDSInfo = (clearAll True new_RDSInfo)\<lparr>mTextType := TypeA\<rparr>,
     mReadThread = True, thread_runs = True, mReadThreadRunning = True, mRadioObservers = {}\<rparr>"


text \<open>
  A text without a carriage return is never shown, although a station may leave it out when the message has all 64 characters.
\<close>

lemma text_byte_no_return:
  "chr (resp ! q) \<noteq> CHR 0x0D \<Longrightarrow> ri_mText (fst (text_byte resp ab p q r)) = ri_mText (fst r)"
  by (cases r) (simp add: text_byte_def Let_def)

lemma text_needs_return:
  assumes "\<forall>c\<in>set resp. chr c \<noteq> CHR 0x0D" "length resp = 13"
  shows "ri_mText (fst (text_group resp r)) = ri_mText (fst r)"
proof -
  have "ri_mText (fst (fold (\<lambda>pos. text_byte resp ab (k + pos) (q + pos)) ps r)) = ri_mText (fst r)"
    if "\<forall>pos\<in>set ps. q + pos < 13" for k q ab ps
    using that assms by (induction ps arbitrary: r) (auto simp: text_byte_no_return)
  from this [of "[0..<4]" 8] this [of "[0..<2]" 10] show ?thesis
    by (simp add: text_group_def Let_def block_defs)
qed

text \<open>A group whose first byte of block B is even wipes the text that is shown and is ignored otherwise.\<close>

lemma even_type_wipes:
  "resp ! 12 = 0 \<Longrightarrow> even (resp ! Block_B_H) \<Longrightarrow> rds_response resp r = (False, ((fst r)\<lparr>ri_mText := []\<rparr>, snd r))"
  by (simp add: rds_response_def bit_0)

end
