(* ===== verification/System_Config.thy ===== *)
theory System_Config
  imports Alarm_File I2C_Bus "HOL-Library.List_Lexorder" "HOL-Library.Char_ord"
begin

text \<open>
  The settings of the clock: \<open>rgbclock/RgbLib/src/Config.cpp\<close> and the part of \<open>I2C.cpp\<close> that names the
  bus addresses after them. The XML library is the parameter of \<open>Alarm_File\<close>, extended by the
  call that reads an attribute. An exception leaves the fields that were stored before it, which
  the code then catches; the construction of a string from a null pointer is undefined behaviour
  and is not caught.
\<close>

section \<open>Data\<close>

record UnitConfig =
  cfg_mName :: string
  cfg_mLight :: u8
  cfg_mKeyboard :: u8
  cfg_mAmplifier :: u8
  cfg_mLightSensor :: u8
  cfg_mBackLight :: u8
  cfg_mLCD :: u8

definition new_UnitConfig :: UnitConfig where
  "new_UnitConfig = \<lparr>cfg_mName = '''', cfg_mLight = 0, cfg_mKeyboard = 0, cfg_mAmplifier = 0,
     cfg_mLightSensor = 0, cfg_mBackLight = 0, cfg_mLCD = 0\<rparr>"

record SystemConfig =
  mHardwareRevision :: u8
  cfg_mRtc :: u8
  cfg_mRadio :: u8
  mCentralIO :: u8
  mFrequencyId :: int
  mServiceId :: int
  mComponentId :: int

definition new_SystemConfig :: SystemConfig where
  "new_SystemConfig = \<lparr>mHardwareRevision = 0, cfg_mRtc = 0, cfg_mRadio = 0, mCentralIO = 0,
     mFrequencyId = 0, mServiceId = 0, mComponentId = 0\<rparr>"

text \<open>A \<open>std::map\<close> with string keys is its list of entries in the order of the keys.\<close>

fun map_put :: "string \<Rightarrow> 'a \<Rightarrow> (string \<times> 'a) list \<Rightarrow> (string \<times> 'a) list" where
  "map_put k v [] = [(k, v)]"
| "map_put k v ((k', v') # m) =
     (if k = k' then (k, v) # m else if k < k' then (k, v) # (k', v') # m else (k', v') # map_put k v m)"

record Config =
  mErrorFree :: bool
  mConfiguredUnits :: "(string \<times> UnitConfig) list"
  mSystemConfig :: SystemConfig

definition map_keys :: "(string \<times> 'a) list \<Rightarrow> string list" where
  "map_keys m = map fst m"

definition units :: "Config \<Rightarrow> string list" where
  "units c = map_keys (mConfiguredUnits c)"

lemma map_put_set: "set (map_keys (map_put k v m)) = insert k (set (map_keys m))"
  by (induction k v m rule: map_put.induct) (simp_all add: map_keys_def insert_commute)

lemma map_put_sorted: "sorted_wrt (<) (map_keys m) \<Longrightarrow> sorted_wrt (<) (map_keys (map_put k v m))"
proof (induction m)
  case (Cons e m)
  obtain k' v' where e: "e = (k', v')" by (cases e)
  from Cons.prems have "sorted_wrt (<) (map_keys m)" and b: "\<forall>y \<in> set (map_keys m). k' < y"
    by (auto simp: e map_keys_def)
  with Cons.IH have IH: "sorted_wrt (<) (map_keys (map_put k v m))" by simp
  have "\<forall>y \<in> set (map_keys (map_put k v m)). k' < y" if "k' < k"
    using b that by (simp add: map_put_set)
  with IH Cons.prems b show ?case
    by (auto simp: e map_keys_def dest: order.strict_trans)
qed (simp add: map_keys_def)

lemma map_put_get: "sorted_wrt (<) (map_keys m) \<Longrightarrow> map_of (map_put k v m) = (map_of m)(k \<mapsto> v)"
  by (induction m) (auto simp: map_keys_def fun_eq_iff)

section \<open>Reading values\<close>

record ('f, 'd, 'e) tinyxml2_attr = "('f, 'd, 'e) tinyxml2" +
  xml_Attribute :: "'e \<Rightarrow> string \<Rightarrow> string option"

text \<open>
  \<open>getInteger\<close> stores the default before it parses, so that the caller's variable is set even when
  the call throws; \<open>getByte\<close> stores after it.
\<close>

definition getInteger ::
  "('f, 'd, 'e, 'z) tinyxml2_scheme \<Rightarrow> 'e \<Rightarrow> string \<Rightarrow> int \<Rightarrow> int \<times> bool throws" where
  "getInteger x e nm defaultVal =
     (case xml_FirstChildElement x e nm of
        None \<Rightarrow> (defaultVal, Inr False)
      | Some integerElement \<Rightarrow>
         (case xml_GetText x integerElement of
            None \<Rightarrow> (defaultVal, Inl null_pointer)
          | Some integerString \<Rightarrow>
             (case stoi integerString of
                Inl ex \<Rightarrow> (defaultVal, Inl ex)
              | Inr v \<Rightarrow> (v, Inr True))))"

definition getByte ::
  "('f, 'd, 'e, 'z) tinyxml2_scheme \<Rightarrow> 'e \<Rightarrow> string \<Rightarrow> u8 \<Rightarrow> u8 \<times> bool throws" where
  "getByte x e nm old =
     (case getInteger x e nm 0 of
        (intValue, Inl ex) \<Rightarrow> (old, Inl ex)
      | (intValue, Inr result) \<Rightarrow> (word_of_int intValue, Inr result))"

text \<open>A statement of the loading code: the state after it, and whether it threw.\<close>

type_synonym 's stmt = "'s \<Rightarrow> 's \<times> unit throws"

fun block :: "'s stmt list \<Rightarrow> 's stmt" where
  "block [] s = (s, Inr ())"
| "block (f # fs) s = (case f s of (s', Inl ex) \<Rightarrow> (s', Inl ex) | (s', Inr _) \<Rightarrow> block fs s')"

definition store :: "('v \<Rightarrow> 's \<Rightarrow> 's) \<Rightarrow> ('s \<Rightarrow> 'v \<times> bool throws) \<Rightarrow> 's stmt" where
  "store upd rd s = (case rd s of (v, r) \<Rightarrow> (upd v s, map_sum id (\<lambda>_. ()) r))"

section \<open>Loading\<close>

definition system_stmts :: "('f, 'd, 'e, 'z) tinyxml2_scheme \<Rightarrow> 'e \<Rightarrow> SystemConfig stmt list" where
  "system_stmts x settings =
     [store (\<lambda>v c. c\<lparr>mHardwareRevision := v\<rparr>) (\<lambda>c. getByte x settings ''hw_revision'' (mHardwareRevision c)),
      store (\<lambda>v c. c\<lparr>cfg_mRtc := v\<rparr>) (\<lambda>c. getByte x settings ''rtc_addr'' (cfg_mRtc c)),
      store (\<lambda>v c. c\<lparr>cfg_mRadio := v\<rparr>) (\<lambda>c. getByte x settings ''radio_addr'' (cfg_mRadio c)),
      store (\<lambda>v c. c\<lparr>mFrequencyId := v\<rparr>) (\<lambda>c. getInteger x settings ''frequency_id'' 30),
      store (\<lambda>v c. c\<lparr>mServiceId := v\<rparr>) (\<lambda>c. getInteger x settings ''service_id'' 25348),
      store (\<lambda>v c. c\<lparr>mComponentId := v\<rparr>) (\<lambda>c. getInteger x settings ''component_id'' 8),
      store (\<lambda>v c. c\<lparr>mCentralIO := v\<rparr>) (\<lambda>c. getByte x settings ''centralio_addr'' (mCentralIO c))]"

definition unit_stmts :: "('f, 'd, 'e, 'z) tinyxml2_scheme \<Rightarrow> u8 \<Rightarrow> 'e \<Rightarrow> UnitConfig stmt list" where
  "unit_stmts x hw unit =
     [store (\<lambda>v u. u\<lparr>cfg_mLight := v\<rparr>) (\<lambda>u. getByte x unit ''light_addr'' (cfg_mLight u)),
      store (\<lambda>v u. u\<lparr>cfg_mKeyboard := v\<rparr>) (\<lambda>u. getByte x unit ''keyboard_addr'' (cfg_mKeyboard u)),
      store (\<lambda>v u. u\<lparr>cfg_mAmplifier := v\<rparr>) (\<lambda>u. getByte x unit ''amplifier_addr'' (cfg_mAmplifier u)),
      store (\<lambda>v u. u\<lparr>cfg_mLCD := v\<rparr>) (\<lambda>u. getByte x unit ''lcd_addr'' (cfg_mLCD u)),
      store (\<lambda>v u. u\<lparr>cfg_mLightSensor := v\<rparr>) (\<lambda>u. getByte x unit ''lightsensor_addr'' (cfg_mLightSensor u))]
     @ (if 1 < hw
        then [store (\<lambda>v u. u\<lparr>cfg_mBackLight := v\<rparr>) (\<lambda>u. getByte x unit ''backlight_addr'' (cfg_mBackLight u))]
        else [])"

text \<open>The body of the loop over the elements: one without a name is skipped.\<close>

definition read_unit :: "('f, 'd, 'e) tinyxml2_attr \<Rightarrow> 'e \<Rightarrow> Config stmt" where
  "read_unit x unit c =
     (case xml_Attribute x unit ''name'' of
        None \<Rightarrow> (c, Inr ())
      | Some nm \<Rightarrow>
         (case block (unit_stmts x (mHardwareRevision (mSystemConfig c)) unit) (new_UnitConfig\<lparr>cfg_mName := nm\<rparr>) of
            (u, Inl ex) \<Rightarrow> (c, Inl ex)
          | (u, Inr _) \<Rightarrow> (c\<lparr>mConfiguredUnits := map_put (cfg_mName u) u (mConfiguredUnits c)\<rparr>, Inr ())))"

partial_function (option) unit_loop ::
  "('f, 'd, 'e) tinyxml2_attr \<Rightarrow> 'e \<Rightarrow> Config \<Rightarrow> (Config \<times> unit throws) option" where
  "unit_loop x unit c =
     (case read_unit x unit c of
        (c', Inl ex) \<Rightarrow> Some (c', Inl ex)
      | (c', Inr _) \<Rightarrow>
         (case xml_NextSiblingElement x unit of
            None \<Rightarrow> Some (c', Inr ())
          | Some unit' \<Rightarrow> unit_loop x unit' c'))"

text \<open>The end of the \<open>try\<close> block: an exception is logged, otherwise the settings count as free of errors.\<close>

fun config_end :: "Config \<times> unit throws \<Rightarrow> Config throws" where
  "config_end (c, Inl null_pointer) = Inl null_pointer"
| "config_end (c, Inl ex) = Inr c"
| "config_end (c, Inr _) = Inr (c\<lparr>mErrorFree := True\<rparr>)"

definition loadXML :: "('f, 'd, 'e) tinyxml2_attr \<Rightarrow> 'f option \<Rightarrow> Config \<Rightarrow> Config throws option" where
  "loadXML x settingsFile c =
     (case Option.bind settingsFile (xml_LoadFile x) of
        None \<Rightarrow> Some (Inr c)
      | Some xmlDoc \<Rightarrow>
         (case xml_DocFirstChild x xmlDoc ''settings'' of
            None \<Rightarrow> Some (Inr c)
          | Some settings \<Rightarrow>
             (case block (system_stmts x settings) (mSystemConfig c) of
                (sc, Inl ex) \<Rightarrow> Some (config_end (c\<lparr>mSystemConfig := sc\<rparr>, Inl ex))
              | (sc, Inr _) \<Rightarrow>
                 (case xml_FirstChildElement x settings ''clockunit'' of
                    None \<Rightarrow> Some (config_end (c\<lparr>mSystemConfig := sc\<rparr>, Inr ()))
                  | Some unit \<Rightarrow> map_option config_end (unit_loop x unit (c\<lparr>mSystemConfig := sc\<rparr>))))))"

definition new_Config :: "('f, 'd, 'e) tinyxml2_attr \<Rightarrow> 'f option \<Rightarrow> Config throws option" where
  "new_Config x settingsFile = loadXML x settingsFile
     \<lparr>mErrorFree = False, mConfiguredUnits = [], mSystemConfig = new_SystemConfig\<rparr>"

section \<open>Names of the bus addresses\<close>

definition unit_addresses :: "UnitConfig \<Rightarrow> (u8 \<times> string) list" where
  "unit_addresses u =
     [(cfg_mAmplifier u, cfg_mName u @ '':Amplifier''), (cfg_mBackLight u, cfg_mName u @ '':Backlight''),
      (cfg_mKeyboard u, cfg_mName u @ '':Keyboard''), (cfg_mLCD u, cfg_mName u @ '':LCD''),
      (cfg_mLight u, cfg_mName u @ '':Light''), (cfg_mLightSensor u, cfg_mName u @ '':LightSensor'')]"

definition config_addresses :: "Config \<Rightarrow> (u8 \<times> string) list" where
  "config_addresses c =
     concat (map (\<lambda>(k, u). unit_addresses u) (mConfiguredUnits c)) @
     [(mCentralIO (mSystemConfig c), ''CentralIO''), (cfg_mRadio (mSystemConfig c), ''DABTuner''),
      (cfg_mRtc (mSystemConfig c), ''RTC'')]"

definition registerAddresses :: "Config \<Rightarrow> I2C \<Rightarrow> I2C" where
  "registerAddresses c i2c = fold (\<lambda>(a, nm). registerAddress a nm) (config_addresses c) i2c"

section \<open>What a settings document says\<close>

text \<open>
  A document is a tree of elements with attributes and texts. The library shows it as element
  pointers: the attribute and the text of an element are those of the tree, children are found by
  name, first match first, and chained in order.
\<close>

datatype cfg_elem =
  CElem (ce_name: string) (ce_attrs: "(string \<times> string) list") (ce_text: "string option") (ce_kids: "cfg_elem list")

fun shows_cfg :: "('f, 'd, 'e) tinyxml2_attr \<Rightarrow> cfg_elem \<Rightarrow> 'e \<Rightarrow> bool" where
  "shows_cfg x (CElem nm attrs tx kids) e \<longleftrightarrow>
     xml_GetText x e = tx \<and> (\<forall>a. xml_Attribute x e a = map_of attrs a) \<and>
     (\<exists>es. list_all2 (shows_cfg x) kids es \<and> chained (xml_NextSiblingElement x) es \<and>
        (\<forall>tag. xml_FirstChildElement x e tag =
           map_option snd (find (\<lambda>(k, _). ce_name k = tag) (zip kids es))))"

text \<open>The number in the first child with a name, or the default where there is none.\<close>

definition doc_number :: "cfg_elem \<Rightarrow> string \<Rightarrow> int \<Rightarrow> int throws" where
  "doc_number t tag d =
     (case find (\<lambda>k. ce_name k = tag) (ce_kids t) of
        None \<Rightarrow> Inr d
      | Some k \<Rightarrow> (case ce_text k of None \<Rightarrow> Inl null_pointer | Some s \<Rightarrow> stoi s))"

definition doc_value :: "cfg_elem \<Rightarrow> string \<Rightarrow> int \<Rightarrow> int" where
  "doc_value t tag d = (case doc_number t tag d of Inl _ \<Rightarrow> d | Inr v \<Rightarrow> v)"

definition doc_byte :: "cfg_elem \<Rightarrow> string \<Rightarrow> u8" where
  "doc_byte t tag = word_of_int (doc_value t tag 0)"

definition doc_system :: "cfg_elem \<Rightarrow> SystemConfig" where
  "doc_system t = \<lparr>mHardwareRevision = doc_byte t ''hw_revision'', cfg_mRtc = doc_byte t ''rtc_addr'',
     cfg_mRadio = doc_byte t ''radio_addr'', mCentralIO = doc_byte t ''centralio_addr'',
     mFrequencyId = doc_value t ''frequency_id'' 30, mServiceId = doc_value t ''service_id'' 25348,
     mComponentId = doc_value t ''component_id'' 8\<rparr>"

definition doc_unit :: "u8 \<Rightarrow> string \<Rightarrow> cfg_elem \<Rightarrow> UnitConfig" where
  "doc_unit hw nm t = \<lparr>cfg_mName = nm, cfg_mLight = doc_byte t ''light_addr'',
     cfg_mKeyboard = doc_byte t ''keyboard_addr'', cfg_mAmplifier = doc_byte t ''amplifier_addr'',
     cfg_mLightSensor = doc_byte t ''lightsensor_addr'',
     cfg_mBackLight = (if 1 < hw then doc_byte t ''backlight_addr'' else 0), cfg_mLCD = doc_byte t ''lcd_addr''\<rparr>"

text \<open>The units: every named element from the first \<open>clockunit\<close> on, whatever the later ones are called.\<close>

definition unit_elems :: "cfg_elem \<Rightarrow> cfg_elem list" where
  "unit_elems t = dropWhile (\<lambda>k. ce_name k \<noteq> ''clockunit'') (ce_kids t)"

definition elem_name :: "cfg_elem \<Rightarrow> string option" where
  "elem_name t = map_of (ce_attrs t) ''name''"

definition named_units :: "u8 \<Rightarrow> cfg_elem list \<Rightarrow> (string \<times> UnitConfig) list" where
  "named_units hw ts = concat (map (\<lambda>t. case elem_name t of None \<Rightarrow> [] | Some nm \<Rightarrow> [(nm, doc_unit hw nm t)]) ts)"

definition doc_units :: "cfg_elem \<Rightarrow> (string \<times> UnitConfig) list" where
  "doc_units t = named_units (doc_byte t ''hw_revision'') (unit_elems t)"

definition system_tags :: "string list" where
  "system_tags = [''hw_revision'', ''rtc_addr'', ''radio_addr'', ''frequency_id'', ''service_id'',
     ''component_id'', ''centralio_addr'']"

definition unit_tags :: "u8 \<Rightarrow> string list" where
  "unit_tags hw = [''light_addr'', ''keyboard_addr'', ''amplifier_addr'', ''lcd_addr'', ''lightsensor_addr'']
     @ (if 1 < hw then [''backlight_addr''] else [])"

text \<open>The elements the code consults, and the two things that can be wrong with them.\<close>

definition consulted :: "cfg_elem \<Rightarrow> (cfg_elem \<times> string) list" where
  "consulted t = map (Pair t) system_tags @
     concat (map (\<lambda>u. if elem_name u = None then [] else map (Pair u) (unit_tags (doc_byte t ''hw_revision'')))
       (unit_elems t))"

definition has_texts :: "cfg_elem \<Rightarrow> bool" where
  "has_texts t \<longleftrightarrow> list_all (\<lambda>(u, tag). doc_number u tag 0 \<noteq> Inl null_pointer) (consulted t)"

definition is_numeric :: "cfg_elem \<Rightarrow> bool" where
  "is_numeric t \<longleftrightarrow> list_all (\<lambda>(u, tag). \<exists>v. doc_number u tag 0 = Inr v) (consulted t)"

section \<open>Loading shows the document\<close>

lemma find_shown:
  assumes "list_all2 P kids es"
  shows "map_option snd (find (\<lambda>(k, _). Q k) (zip kids es)) = None \<longleftrightarrow> find Q kids = None"
    and "map_option snd (find (\<lambda>(k, _). Q k) (zip kids es)) = Some e \<Longrightarrow> \<exists>k. find Q kids = Some k \<and> P k e"
  using assms by (induction rule: list_all2_induct) (auto split: if_splits)

lemma shown_child:
  assumes "shows_cfg x t e"
  shows "xml_FirstChildElement x e tag = None \<longleftrightarrow> find (\<lambda>k. ce_name k = tag) (ce_kids t) = None"
    and "xml_FirstChildElement x e tag = Some e' \<Longrightarrow>
           \<exists>k. find (\<lambda>k. ce_name k = tag) (ce_kids t) = Some k \<and> shows_cfg x k e'"
proof -
  obtain nm attrs tx kids where t: "t = CElem nm attrs tx kids" by (cases t)
  with assms obtain es where es: "list_all2 (shows_cfg x) kids es"
    and fc: "xml_FirstChildElement x e tag = map_option snd (find (\<lambda>(k, _). ce_name k = tag) (zip kids es))"
    by auto
  show "xml_FirstChildElement x e tag = None \<longleftrightarrow> find (\<lambda>k. ce_name k = tag) (ce_kids t) = None"
    using find_shown(1) [OF es, of "\<lambda>k. ce_name k = tag"] by (simp add: fc t)
  show "xml_FirstChildElement x e tag = Some e' \<Longrightarrow>
      \<exists>k. find (\<lambda>k. ce_name k = tag) (ce_kids t) = Some k \<and> shows_cfg x k e'"
    using find_shown(2) [OF es, of "\<lambda>k. ce_name k = tag" e'] by (simp add: fc t)
qed

lemma shown_text: "shows_cfg x t e \<Longrightarrow> xml_GetText x e = ce_text t"
  by (cases t) simp

lemma shown_name: "shows_cfg x t e \<Longrightarrow> xml_Attribute x e ''name'' = elem_name t"
  by (cases t) (simp add: elem_name_def)

lemma getInteger_shown:
  assumes "shows_cfg x t e"
  shows "\<exists>b. getInteger x e tag d =
     (doc_value t tag d, case doc_number t tag d of Inl ex \<Rightarrow> Inl ex | Inr _ \<Rightarrow> Inr b)"
proof (cases "xml_FirstChildElement x e tag")
  case None
  with shown_child(1) [OF assms, of tag] have "find (\<lambda>k. ce_name k = tag) (ce_kids t) = None" by blast
  with None show ?thesis
    by (intro exI [of _ False]) (simp add: getInteger_def doc_value_def doc_number_def)
next
  case (Some e')
  with shown_child(2) [OF assms] obtain k
    where "find (\<lambda>k. ce_name k = tag) (ce_kids t) = Some k" "shows_cfg x k e'" by blast
  with Some show ?thesis
    by (auto simp: getInteger_def doc_value_def doc_number_def shown_text split: option.split sum.split)
qed

lemma getByte_shown:
  assumes "shows_cfg x t e"
  shows "\<exists>b. getByte x e tag old =
     (case doc_number t tag 0 of Inl ex \<Rightarrow> (old, Inl ex) | Inr _ \<Rightarrow> (doc_byte t tag, Inr b))"
  using getInteger_shown [OF assms, of tag 0]
  by (auto simp: getByte_def doc_byte_def split: sum.split)

text \<open>A statement that reads a field: it throws as the field does, otherwise it stores its value.\<close>

definition reads_field :: "cfg_elem \<Rightarrow> 's stmt \<Rightarrow> string \<times> ('s \<Rightarrow> 's) \<Rightarrow> bool" where
  "reads_field t f p \<longleftrightarrow> (\<forall>s. case doc_number t (fst p) 0 of
     Inl ex \<Rightarrow> \<exists>s'. f s = (s', Inl ex) | Inr _ \<Rightarrow> f s = (snd p s, Inr ()))"

fun fields_outcome :: "cfg_elem \<Rightarrow> string list \<Rightarrow> unit throws" where
  "fields_outcome t [] = Inr ()"
| "fields_outcome t (tag # tags) = (case doc_number t tag 0 of Inl ex \<Rightarrow> Inl ex | Inr _ \<Rightarrow> fields_outcome t tags)"

lemma reads_fieldD:
  assumes "reads_field t f p"
  shows "doc_number t (fst p) 0 = Inl ex \<Longrightarrow> \<exists>s'. f s = (s', Inl ex)"
    and "doc_number t (fst p) 0 = Inr v \<Longrightarrow> f s = (snd p s, Inr ())"
  using assms by (simp_all add: reads_field_def)

lemma block_reads:
  "list_all2 (reads_field t) fs ps \<Longrightarrow> \<exists>s'. block fs s = (s', fields_outcome t (map fst ps)) \<and>
     (fields_outcome t (map fst ps) = Inr () \<longrightarrow> s' = fold snd ps s)"
proof (induction arbitrary: s rule: list_all2_induct)
  case (Cons f fs p ps)
  show ?case
  proof (cases "doc_number t (fst p) 0")
    case (Inl ex)
    with reads_fieldD(1) [OF Cons.hyps(1), of ex s] show ?thesis by auto
  next
    case (Inr v)
    with reads_fieldD(2) [OF Cons.hyps(1), of v s] Cons.IH [of "snd p s"] show ?thesis by simp
  qed
qed simp

lemma store_byte:
  assumes "shows_cfg x t e"
  shows "reads_field t (store upd (\<lambda>s. getByte x e tag (old s))) (tag, upd (doc_byte t tag))"
proof -
  have "case doc_number t tag 0 of
      Inl ex \<Rightarrow> \<exists>s'. store upd (\<lambda>s. getByte x e tag (old s)) s = (s', Inl ex)
    | Inr _ \<Rightarrow> store upd (\<lambda>s. getByte x e tag (old s)) s = (upd (doc_byte t tag) s, Inr ())" for s
    using getByte_shown [OF assms, of tag "old s"] by (auto simp: store_def split: sum.split)
  then show ?thesis unfolding reads_field_def fst_conv snd_conv by blast
qed

lemma doc_number_default: "doc_number t tag d = Inl ex \<longleftrightarrow> doc_number t tag 0 = Inl ex"
  by (auto simp: doc_number_def split: option.splits)

lemma store_integer:
  assumes "shows_cfg x t e"
  shows "reads_field t (store upd (\<lambda>s. getInteger x e tag d)) (tag, upd (doc_value t tag d))"
proof -
  obtain b where g: "getInteger x e tag d =
      (doc_value t tag d, case doc_number t tag d of Inl ex \<Rightarrow> Inl ex | Inr _ \<Rightarrow> Inr b)"
    using getInteger_shown [OF assms] by blast
  have "case doc_number t tag 0 of
      Inl ex \<Rightarrow> \<exists>s'. store upd (\<lambda>s. getInteger x e tag d) s = (s', Inl ex)
    | Inr _ \<Rightarrow> store upd (\<lambda>s. getInteger x e tag d) s = (upd (doc_value t tag d) s, Inr ())" for s
  proof (cases "doc_number t tag 0")
    case (Inl ex)
    then have "doc_number t tag d = Inl ex" by (simp only: doc_number_default [of t tag d])
    with Inl g show ?thesis by (simp add: store_def)
  next
    case (Inr v)
    then have "\<nexists>ex. doc_number t tag d = Inl ex" by (simp only: doc_number_default [of t tag d]) simp
    then obtain w where "doc_number t tag d = Inr w" by (cases "doc_number t tag d") auto
    with Inr g show ?thesis by (simp add: store_def)
  qed
  then show ?thesis unfolding reads_field_def fst_conv snd_conv by blast
qed

definition system_fields :: "cfg_elem \<Rightarrow> (string \<times> (SystemConfig \<Rightarrow> SystemConfig)) list" where
  "system_fields t = zip system_tags
     [\<lambda>c. c\<lparr>mHardwareRevision := doc_byte t ''hw_revision''\<rparr>, \<lambda>c. c\<lparr>cfg_mRtc := doc_byte t ''rtc_addr''\<rparr>,
      \<lambda>c. c\<lparr>cfg_mRadio := doc_byte t ''radio_addr''\<rparr>, \<lambda>c. c\<lparr>mFrequencyId := doc_value t ''frequency_id'' 30\<rparr>,
      \<lambda>c. c\<lparr>mServiceId := doc_value t ''service_id'' 25348\<rparr>, \<lambda>c. c\<lparr>mComponentId := doc_value t ''component_id'' 8\<rparr>,
      \<lambda>c. c\<lparr>mCentralIO := doc_byte t ''centralio_addr''\<rparr>]"

lemma system_reads: "shows_cfg x t e \<Longrightarrow> list_all2 (reads_field t) (system_stmts x e) (system_fields t)"
  unfolding system_stmts_def system_fields_def system_tags_def zip_Cons_Cons list_all2_Cons
  by (intro conjI; (rule store_byte | rule store_integer)?) simp_all

definition unit_fields :: "u8 \<Rightarrow> cfg_elem \<Rightarrow> (string \<times> (UnitConfig \<Rightarrow> UnitConfig)) list" where
  "unit_fields hw t = zip (unit_tags hw)
     [\<lambda>u. u\<lparr>cfg_mLight := doc_byte t ''light_addr''\<rparr>, \<lambda>u. u\<lparr>cfg_mKeyboard := doc_byte t ''keyboard_addr''\<rparr>,
      \<lambda>u. u\<lparr>cfg_mAmplifier := doc_byte t ''amplifier_addr''\<rparr>, \<lambda>u. u\<lparr>cfg_mLCD := doc_byte t ''lcd_addr''\<rparr>,
      \<lambda>u. u\<lparr>cfg_mLightSensor := doc_byte t ''lightsensor_addr''\<rparr>,
      \<lambda>u. u\<lparr>cfg_mBackLight := doc_byte t ''backlight_addr''\<rparr>]"

lemma unit_reads: "shows_cfg x t e \<Longrightarrow> list_all2 (reads_field t) (unit_stmts x hw e) (unit_fields hw t)"
  unfolding unit_stmts_def unit_fields_def unit_tags_def append_Cons append_Nil zip_Cons_Cons list_all2_Cons
  by (intro conjI; (rule store_byte)?) (simp_all, rule impI, rule store_byte)

lemma system_block:
  assumes "shows_cfg x t e"
  shows "\<exists>c'. block (system_stmts x e) c = (c', fields_outcome t system_tags) \<and>
     (fields_outcome t system_tags = Inr () \<longrightarrow> c' = doc_system t)"
proof -
  have "map fst (system_fields t) = system_tags" by (simp add: system_fields_def system_tags_def)
  moreover have "fold snd (system_fields t) c = doc_system t"
    by (simp add: system_fields_def system_tags_def doc_system_def)
  ultimately show ?thesis using block_reads [OF system_reads [OF assms], of c] by simp
qed

lemma unit_block:
  assumes "shows_cfg x t e"
  shows "\<exists>u. block (unit_stmts x hw e) (new_UnitConfig\<lparr>cfg_mName := nm\<rparr>) = (u, fields_outcome t (unit_tags hw)) \<and>
     (fields_outcome t (unit_tags hw) = Inr () \<longrightarrow> u = doc_unit hw nm t)"
proof -
  have "map fst (unit_fields hw t) = unit_tags hw" by (simp add: unit_fields_def unit_tags_def)
  moreover have "fold snd (unit_fields hw t) (new_UnitConfig\<lparr>cfg_mName := nm\<rparr>) = doc_unit hw nm t"
    by (simp add: unit_fields_def unit_tags_def doc_unit_def new_UnitConfig_def)
  ultimately show ?thesis
    using block_reads [OF unit_reads [OF assms], of hw "new_UnitConfig\<lparr>cfg_mName := nm\<rparr>"] by simp
qed

fun units_outcome :: "u8 \<Rightarrow> cfg_elem list \<Rightarrow> unit throws" where
  "units_outcome hw [] = Inr ()"
| "units_outcome hw (t # ts) =
     (if elem_name t = None then units_outcome hw ts
      else case fields_outcome t (unit_tags hw) of Inl ex \<Rightarrow> Inl ex | Inr _ \<Rightarrow> units_outcome hw ts)"

lemma read_unit_shown:
  assumes "shows_cfg x t e"
  shows "\<exists>c'. read_unit x e c = (c', units_outcome (mHardwareRevision (mSystemConfig c)) [t]) \<and>
     mErrorFree c' = mErrorFree c \<and> mSystemConfig c' = mSystemConfig c \<and>
     (units_outcome (mHardwareRevision (mSystemConfig c)) [t] = Inr () \<longrightarrow>
        c' = c\<lparr>mConfiguredUnits := fold (\<lambda>(k, u). map_put k u)
                 (named_units (mHardwareRevision (mSystemConfig c)) [t]) (mConfiguredUnits c)\<rparr>)"
proof (cases "elem_name t")
  case None
  then show ?thesis by (simp add: read_unit_def shown_name [OF assms] named_units_def)
next
  case (Some nm)
  from unit_block [OF assms, of "mHardwareRevision (mSystemConfig c)" nm] Some show ?thesis
    by (auto simp: read_unit_def shown_name [OF assms] named_units_def doc_unit_def split: sum.splits)
qed

lemma named_units_Cons: "named_units hw (t # ts) = named_units hw [t] @ named_units hw ts"
  by (simp add: named_units_def)

lemma units_outcome_Cons:
  "units_outcome hw (t # ts) = (case units_outcome hw [t] of Inl ex \<Rightarrow> Inl ex | Inr _ \<Rightarrow> units_outcome hw ts)"
  by (auto split: sum.split)

lemma unit_loop_shown:
  assumes "list_all2 (shows_cfg x) (t # ts) (e # es)" and "chained (xml_NextSiblingElement x) (e # es)"
    and "mHardwareRevision (mSystemConfig c) = hw"
  shows "\<exists>c'. unit_loop x e c = Some (c', units_outcome hw (t # ts)) \<and>
     mErrorFree c' = mErrorFree c \<and>
     (units_outcome hw (t # ts) = Inr () \<longrightarrow>
        c' = c\<lparr>mConfiguredUnits := fold (\<lambda>(k, u). map_put k u) (named_units hw (t # ts)) (mConfiguredUnits c)\<rparr>)"
  using assms
proof (induction ts arbitrary: t e es c)
  case Nil
  then have "es = []" and sh: "shows_cfg x t e" by simp_all
  with Nil read_unit_shown [OF sh, of c] show ?case
    by (auto simp: unit_loop.simps simp del: units_outcome.simps(2) split: sum.splits)
next
  case (Cons t2 ts)
  then obtain e2 es2 where es: "es = e2 # es2" by (auto simp: list_all2_Cons1)
  from Cons.prems have sh: "shows_cfg x t e" and nx: "xml_NextSiblingElement x e = Some e2"
    by (simp_all add: es)
  obtain c' where c': "read_unit x e c = (c', units_outcome hw [t])" "mErrorFree c' = mErrorFree c"
    "mSystemConfig c' = mSystemConfig c"
    "units_outcome hw [t] = Inr () \<Longrightarrow>
       c' = c\<lparr>mConfiguredUnits := fold (\<lambda>(k, u). map_put k u) (named_units hw [t]) (mConfiguredUnits c)\<rparr>"
    using read_unit_shown [OF sh, of c] Cons.prems(3) by auto
  show ?case
  proof (cases "units_outcome hw [t]")
    case (Inl ex)
    with c' show ?thesis
      by (simp add: unit_loop.simps [of x e] units_outcome_Cons [of hw t "t2 # ts"] del: units_outcome.simps(2))
  next
    case (Inr v)
    with c'(4) have eq: "c' = c\<lparr>mConfiguredUnits :=
        fold (\<lambda>(k, u). map_put k u) (named_units hw [t]) (mConfiguredUnits c)\<rparr>" by simp
    obtain d where d: "unit_loop x e2 c' = Some (d, units_outcome hw (t2 # ts))" "mErrorFree d = mErrorFree c'"
      "units_outcome hw (t2 # ts) = Inr () \<Longrightarrow>
         d = c'\<lparr>mConfiguredUnits := fold (\<lambda>(k, u). map_put k u) (named_units hw (t2 # ts)) (mConfiguredUnits c')\<rparr>"
      using Cons.IH [of t2 e2 es2 c'] Cons.prems c'(3) by (auto simp: es)
    have "unit_loop x e c = Some (d, units_outcome hw (t # t2 # ts))"
      using c'(1) d(1) Inr nx
      by (simp add: unit_loop.simps [of x e] units_outcome_Cons [of hw t "t2 # ts"] del: units_outcome.simps(2))
    moreover have "units_outcome hw (t # t2 # ts) = Inr () \<Longrightarrow> units_outcome hw (t2 # ts) = Inr ()"
      using Inr by (simp add: units_outcome_Cons [of hw t "t2 # ts"] del: units_outcome.simps(2))
    ultimately show ?thesis
      using d(2,3) c'(2) eq by (auto simp: named_units_Cons [of hw t "t2 # ts"])
  qed
qed

lemma fold_map_put:
  "sorted_wrt (<) (map_keys m) \<Longrightarrow>
     sorted_wrt (<) (map_keys (fold (\<lambda>(k, u). map_put k u) kus m)) \<and>
     map_of (fold (\<lambda>(k, u). map_put k u) kus m) = map_of m ++ map_of (rev kus)"
proof (induction kus arbitrary: m)
  case (Cons ku kus)
  obtain k u where "ku = (k, u)" by (cases ku)
  with Cons.IH [of "map_put k u m"] map_put_sorted [OF Cons.prems, of k u] map_put_get [OF Cons.prems, of k u]
  show ?case by (auto simp: fun_eq_iff map_add_def split: option.split)
qed simp

lemma fields_outcome_iff: "fields_outcome t tags = Inr () \<longleftrightarrow> list_all (\<lambda>tag. \<exists>v. doc_number t tag 0 = Inr v) tags"
  by (induction tags) (auto split: sum.splits)

lemma fields_outcome_null:
  "list_all (\<lambda>tag. doc_number t tag 0 \<noteq> Inl null_pointer) tags \<Longrightarrow> fields_outcome t tags \<noteq> Inl null_pointer"
  by (induction tags) (auto split: sum.splits)

lemma units_outcome_iff:
  "units_outcome hw ts = Inr () \<longleftrightarrow>
     list_all (\<lambda>t. elem_name t \<noteq> None \<longrightarrow> fields_outcome t (unit_tags hw) = Inr ()) ts"
  by (induction ts) (auto split: sum.splits)

lemma units_outcome_null:
  "list_all (\<lambda>t. elem_name t \<noteq> None \<longrightarrow> fields_outcome t (unit_tags hw) \<noteq> Inl null_pointer) ts
     \<Longrightarrow> units_outcome hw ts \<noteq> Inl null_pointer"
  by (induction ts) (auto split: sum.splits)

lemma is_numeric_iff:
  "is_numeric t \<longleftrightarrow> fields_outcome t system_tags = Inr () \<and>
     units_outcome (doc_byte t ''hw_revision'') (unit_elems t) = Inr ()"
  by (fastforce simp: is_numeric_def consulted_def fields_outcome_iff units_outcome_iff list_all_iff split: if_splits)

lemma has_textsD:
  assumes "has_texts t"
  shows "fields_outcome t system_tags \<noteq> Inl null_pointer"
    and "units_outcome (doc_byte t ''hw_revision'') (unit_elems t) \<noteq> Inl null_pointer"
proof -
  show "fields_outcome t system_tags \<noteq> Inl null_pointer"
    using assms by (intro fields_outcome_null) (auto simp: has_texts_def consulted_def list_all_iff)
  have "fields_outcome u (unit_tags (doc_byte t ''hw_revision'')) \<noteq> Inl null_pointer"
    if "u \<in> set (unit_elems t)" "elem_name u \<noteq> None" for u
    using assms that by (intro fields_outcome_null) (auto simp: has_texts_def consulted_def list_all_iff)
  then show "units_outcome (doc_byte t ''hw_revision'') (unit_elems t) \<noteq> Inl null_pointer"
    by (intro units_outcome_null) (auto simp: list_all_iff)
qed

lemma config_end_throw: "ex \<noteq> null_pointer \<Longrightarrow> config_end (c, Inl ex) = Inr c"
  by (cases ex) simp_all

text \<open>The pointers to the unit elements: the rest of the chain of children.\<close>

lemma chained_drop: "chained nxt es \<Longrightarrow> chained nxt (drop n es)"
proof (induction es arbitrary: n)
  case (Cons e es)
  then show ?case by (cases n; cases es) auto
qed simp

lemma shown_units:
  assumes "shows_cfg x t e"
  shows "unit_elems t = [] \<Longrightarrow> xml_FirstChildElement x e ''clockunit'' = None"
    and "unit_elems t = u # us \<Longrightarrow> \<exists>e1 es. xml_FirstChildElement x e ''clockunit'' = Some e1 \<and>
           list_all2 (shows_cfg x) (u # us) (e1 # es) \<and> chained (xml_NextSiblingElement x) (e1 # es)"
proof -
  obtain nm attrs tx kids where t: "t = CElem nm attrs tx kids" by (cases t)
  with assms obtain es where es: "list_all2 (shows_cfg x) kids es" "chained (xml_NextSiblingElement x) es"
    and fc: "\<And>tag. xml_FirstChildElement x e tag = map_option snd (find (\<lambda>(k, _). ce_name k = tag) (zip kids es))"
    by auto
  have "map_option snd (find (\<lambda>(k, _). ce_name k = tag) (zip kids es)) =
      (case dropWhile (\<lambda>k. ce_name k \<noteq> tag) kids of [] \<Rightarrow> None
       | _ \<Rightarrow> Some (hd (drop (length (takeWhile (\<lambda>k. ce_name k \<noteq> tag) kids)) es)))" for tag
    using es(1) by (induction rule: list_all2_induct) (auto split: list.split simp del: dropWhile_eq_Nil_conv)
  note fc' = fc [unfolded this]
  show "unit_elems t = [] \<Longrightarrow> xml_FirstChildElement x e ''clockunit'' = None"
    by (simp add: unit_elems_def t fc' del: dropWhile_eq_Nil_conv)
  assume u: "unit_elems t = u # us"
  define n where "n = length (takeWhile (\<lambda>k. ce_name k \<noteq> ''clockunit'') kids)"
  have dk: "drop n kids = u # us"
    using u by (simp add: n_def unit_elems_def t dropWhile_eq_drop)
  have l: "list_all2 (shows_cfg x) (u # us) (drop n es)"
    using list_all2_dropI [OF es(1), of n] by (simp add: dk)
  then obtain e1 es1 where d: "drop n es = e1 # es1" by (auto simp: list_all2_Cons1)
  moreover have "xml_FirstChildElement x e ''clockunit'' = Some e1"
    using u d by (simp add: fc' unit_elems_def t n_def [symmetric])
  ultimately show "\<exists>e1 es. xml_FirstChildElement x e ''clockunit'' = Some e1 \<and>
      list_all2 (shows_cfg x) (u # us) (e1 # es) \<and> chained (xml_NextSiblingElement x) (e1 # es)"
    using l chained_drop [OF es(2), of n] by auto
qed

lemma units_built:
  "map_of (fold (\<lambda>(k, u). map_put k u) us []) = map_of (rev us)"
  "map_keys (fold (\<lambda>(k, u). map_put k u) us []) = sorted_list_of_set (fst ` set us)"
proof -
  let ?m = "fold (\<lambda>(k, u). map_put k u) us []"
  have s: "sorted_wrt (<) (map_keys ?m)" and m: "map_of ?m = map_of (rev us)"
    using fold_map_put [of "[]" us] by (simp_all add: map_keys_def)
  from m show "map_of ?m = map_of (rev us)" .
  from m have "dom (map_of ?m) = dom (map_of (rev us))" by simp
  then have "set (map_keys ?m) = fst ` set us"
    by (simp add: map_keys_def dom_map_of_conv_image_fst)
  with s show "map_keys ?m = sorted_list_of_set (fst ` set us)"
    by (metis finite_set set_sorted_list_of_set strict_sorted_equal strict_sorted_list_of_set)
qed

text \<open>The outcome of the loop over the units, before an exception is caught.\<close>

lemma config_loop:
  assumes "shows_cfg x t e" and "mSystemConfig c = doc_system t"
  shows "\<exists>c'. (case xml_FirstChildElement x e ''clockunit'' of
        None \<Rightarrow> Some (c, Inr ()) | Some unit \<Rightarrow> unit_loop x unit c)
      = Some (c', units_outcome (doc_byte t ''hw_revision'') (unit_elems t)) \<and> mErrorFree c' = mErrorFree c \<and>
      (units_outcome (doc_byte t ''hw_revision'') (unit_elems t) = Inr () \<longrightarrow>
         c' = c\<lparr>mConfiguredUnits := fold (\<lambda>(k, u). map_put k u) (doc_units t) (mConfiguredUnits c)\<rparr>)"
proof (cases "unit_elems t")
  case Nil
  with shown_units(1) [OF assms(1)] show ?thesis by (simp add: doc_units_def named_units_def)
next
  case (Cons u us)
  with shown_units(2) [OF assms(1)] obtain e1 es where e1: "xml_FirstChildElement x e ''clockunit'' = Some e1"
    "list_all2 (shows_cfg x) (u # us) (e1 # es)" "chained (xml_NextSiblingElement x) (e1 # es)" by blast
  have hw: "mHardwareRevision (mSystemConfig c) = doc_byte t ''hw_revision''" by (simp add: assms(2) doc_system_def)
  from unit_loop_shown [OF e1(2,3) hw] e1(1) show ?thesis by (simp only: Cons doc_units_def option.case)
qed

text \<open>
  C22. Loading a settings document that has a text in every element the code consults always ends
  without undefined behaviour, and it reports the settings as free of errors exactly when all
  those texts are numbers that fit an int. Then every system setting is the number in the
  document, cut to a byte where the field is one, or its default; and the units are the named
  elements from the first clock unit on, the last one where a name occurs twice, in the order of
  their names.
\<close>

theorem config_shows_document:
  assumes "xml_LoadFile x f = Some doc" and "xml_DocFirstChild x doc ''settings'' = Some e"
    and "shows_cfg x t e" and "has_texts t"
  shows "\<exists>c. new_Config x (Some f) = Some (Inr c) \<and> mErrorFree c = is_numeric t \<and>
     (is_numeric t \<longrightarrow> mSystemConfig c = doc_system t \<and>
        map_of (mConfiguredUnits c) = map_of (rev (doc_units t)) \<and>
        units c = sorted_list_of_set (fst ` set (doc_units t)))"
proof -
  obtain sc where sc: "block (system_stmts x e) new_SystemConfig = (sc, fields_outcome t system_tags)"
    "fields_outcome t system_tags = Inr () \<Longrightarrow> sc = doc_system t"
    using system_block [OF assms(3)] by blast
  show ?thesis
  proof (cases "fields_outcome t system_tags")
    case (Inl ex)
    then have "ex \<noteq> null_pointer" using has_textsD(1) [OF assms(4)] by auto
    with Inl sc(1) assms(1,2) show ?thesis
      by (simp add: new_Config_def loadXML_def config_end_throw is_numeric_iff)
  next
    case (Inr v)
    let ?c1 = "\<lparr>mErrorFree = False, mConfiguredUnits = [], mSystemConfig = doc_system t\<rparr>"
    let ?out = "units_outcome (doc_byte t ''hw_revision'') (unit_elems t)"
    have "new_Config x (Some f) = map_option config_end (case xml_FirstChildElement x e ''clockunit'' of
        None \<Rightarrow> Some (?c1, Inr ()) | Some unit \<Rightarrow> unit_loop x unit ?c1)"
      using assms(1,2) sc Inr by (simp add: new_Config_def loadXML_def split: option.split)
    with config_loop [OF assms(3), of ?c1] obtain c'
      where c': "new_Config x (Some f) = Some (config_end (c', ?out))" "\<not> mErrorFree c'"
        "?out = Inr () \<Longrightarrow> c' = ?c1\<lparr>mConfiguredUnits := fold (\<lambda>(k, u). map_put k u) (doc_units t) []\<rparr>"
      by force
    show ?thesis
    proof (cases ?out)
      case (Inl ex)
      moreover have "ex \<noteq> null_pointer" using has_textsD(2) [OF assms(4)] Inl by auto
      ultimately show ?thesis using c'(1,2) by (simp add: config_end_throw is_numeric_iff)
    next
      case Inr2: (Inr w)
      then show ?thesis using c' Inr by (simp add: is_numeric_iff units_def units_built)
    qed
  qed
qed

text \<open>A concrete library for the witness, and the settings of a clock with two units.\<close>

definition cfg_xml :: "(cfg_elem, cfg_elem, cfg_elem list) tinyxml2_attr" where
  "cfg_xml = \<lparr>xml_SaveFile = (\<lambda>_. CElem '''' [] None []), xml_LoadFile = Some,
     xml_DocFirstChild = (\<lambda>d tag. if ce_name d = tag then Some [d] else None),
     xml_FirstChildElement = (\<lambda>e tag. case e of [] \<Rightarrow> None | k # _ \<Rightarrow>
        (case dropWhile (\<lambda>c. ce_name c \<noteq> tag) (ce_kids k) of [] \<Rightarrow> None | ks \<Rightarrow> Some ks)),
     xml_NextSiblingElement = (\<lambda>e. if tl e = [] then None else Some (tl e)),
     xml_GetText = (\<lambda>e. case e of [] \<Rightarrow> None | k # _ \<Rightarrow> ce_text k),
     xml_Attribute = (\<lambda>e a. case e of [] \<Rightarrow> None | k # _ \<Rightarrow> map_of (ce_attrs k) a)\<rparr>"

lemma cfg_suffixes_chained: "chained (xml_NextSiblingElement cfg_xml) (suffixes_of ks)"
proof (induction ks)
  case (Cons k ks)
  then show ?case by (cases ks) (auto simp: cfg_xml_def)
qed simp

lemma cfg_suffixes_find:
  "map_option snd (find (\<lambda>(k, _). ce_name k = tag) (zip ks (suffixes_of ks))) =
     (case dropWhile (\<lambda>c. ce_name c \<noteq> tag) ks of [] \<Rightarrow> None | ks' \<Rightarrow> Some ks')"
  by (induction ks) auto

lemma cfg_xml_shows: "shows_cfg cfg_xml t (t # rest)"
proof (induction t arbitrary: rest)
  case (CElem nm attrs tx kids)
  have "list_all2 (shows_cfg cfg_xml) ks (suffixes_of ks)" if "set ks \<subseteq> set kids" for ks
    using that CElem.IH by (induction ks) auto
  then show ?case
    using cfg_suffixes_chained [of kids] cfg_suffixes_find [of _ kids]
    by (auto simp: cfg_xml_def intro!: exI [of _ "suffixes_of kids"])
qed

definition ex_settings :: cfg_elem where
  "ex_settings = CElem ''settings'' [] None
     [CElem ''hw_revision'' [] (Some ''2'') [], CElem ''centralio_addr'' [] (Some ''32'') [],
      CElem ''clockunit'' [(''name'', ''Unit2'')] None [CElem ''light_addr'' [] (Some ''66'') []],
      CElem ''clockunit'' [(''name'', ''Unit1'')] None
        [CElem ''keyboard_addr'' [] (Some ''90'') [], CElem ''backlight_addr'' [] (Some ''64'') []]]"

lemma ex_numbers:
  "stoi ''2'' = Inr 2" "stoi ''32'' = Inr 32" "stoi ''66'' = Inr 66" "stoi ''90'' = Inr 90" "stoi ''64'' = Inr 64"
  by code_simp+

lemma ex_settings_numeric: "is_numeric ex_settings" "has_texts ex_settings"
  by (simp_all add: is_numeric_def has_texts_def consulted_def ex_settings_def system_tags_def unit_elems_def
      elem_name_def unit_tags_def doc_byte_def doc_value_def doc_number_def ex_numbers)

theorem config_shows_document_witness:
  "\<exists>c. new_Config cfg_xml (Some ex_settings) = Some (Inr c) \<and> mErrorFree c \<and> units c = [''Unit1'', ''Unit2''] \<and>
     mFrequencyId (mSystemConfig c) = 30 \<and>
     map_option cfg_mBackLight (map_of (mConfiguredUnits c) ''Unit1'') = Some 64"
proof -
  have u: "doc_units ex_settings = [(''Unit2'', doc_unit 2 ''Unit2'' (ce_kids ex_settings ! 2)),
      (''Unit1'', doc_unit 2 ''Unit1'' (ce_kids ex_settings ! 3))]"
    by (simp add: doc_units_def named_units_def unit_elems_def elem_name_def ex_settings_def doc_byte_def
        doc_value_def doc_number_def ex_numbers)
  have s: "sorted_list_of_set {''Unit2'', ''Unit1''} = [''Unit1'', ''Unit2'']"
    by (rule sorted_list_of_set_unique [THEN iffD1]) (auto simp: less_list_code less_char_def)
  have f: "doc_value ex_settings ''frequency_id'' 30 = 30"
    by (simp add: doc_value_def doc_number_def ex_settings_def)
  have b: "doc_byte (ce_kids ex_settings ! 3) ''backlight_addr'' = 64"
    by (simp add: doc_byte_def doc_value_def doc_number_def ex_settings_def ex_numbers)
  have "\<exists>c. new_Config cfg_xml (Some ex_settings) = Some (Inr c) \<and> mErrorFree c = is_numeric ex_settings \<and>
     (is_numeric ex_settings \<longrightarrow> mSystemConfig c = doc_system ex_settings \<and>
        map_of (mConfiguredUnits c) = map_of (rev (doc_units ex_settings)) \<and>
        units c = sorted_list_of_set (fst ` set (doc_units ex_settings)))"
  proof (rule config_shows_document)
    show "xml_LoadFile cfg_xml ex_settings = Some ex_settings"
      "xml_DocFirstChild cfg_xml ex_settings ''settings'' = Some [ex_settings]"
      by (simp_all add: cfg_xml_def ex_settings_def)
  qed (rule cfg_xml_shows ex_settings_numeric)+
  then show ?thesis
    by (auto simp: ex_settings_numeric u s f b doc_system_def doc_unit_def)
qed

section \<open>The first name of an address stays\<close>

text \<open>
  After the addresses of the settings are registered, an address carries the name it had before,
  else the first name the settings give it: for addresses left out of the settings, which are 0,
  that is the amplifier or the back light of the first unit.
\<close>

lemma fold_registerAddress:
  "mAddressStatistics (fold (\<lambda>(a, nm). registerAddress a nm) as s) a =
     (case mAddressStatistics s a of
        Some st \<Rightarrow> Some st
      | None \<Rightarrow> map_option (\<lambda>nm. new_StatData\<lparr>mName := nm\<rparr>) (map_of as a))"
proof (induction as arbitrary: s)
  case (Cons p as)
  obtain b nm where p: "p = (b, nm)" by (cases p)
  have "mAddressStatistics (registerAddress b nm s) a =
      (if mAddressStatistics s a = None \<and> a = b then Some (new_StatData\<lparr>mName := nm\<rparr>) else mAddressStatistics s a)"
    by (simp add: registerAddress_def)
  with Cons.IH [of "registerAddress b nm s"] show ?case by (auto simp: p split: option.split)
qed (simp split: option.split)

lemma registerAddresses_names:
  "mAddressStatistics (registerAddresses c s) a =
     (case mAddressStatistics s a of
        Some st \<Rightarrow> Some st
      | None \<Rightarrow> map_option (\<lambda>nm. new_StatData\<lparr>mName := nm\<rparr>) (map_of (config_addresses c) a))"
  by (simp add: registerAddresses_def fold_registerAddress)

end
