(* ===== verification/Main_Program.thy ===== *)
theory Main_Program
  imports System_Config Alarm_Clock
begin

text \<open>
  The main program (\<open>rgbclock/RgbApp/src/main.cpp\<close>): it starts a clock unit for every configured
  unit whose keyboard answers on the bus, gives it a light when one answers, and every ten seconds
  removes what is no longer attached. A started unit is its keyboard with the observers
  and its pointer to a light; lights are objects in memory with an address, owned by the table of
  started lights. What the bus answers in a pass is an environment. An iterator that is
  incremented after its element was erased is undefined behaviour; the environment says whether
  the memory of the erased node still leads to the next element, anything else is a fault.
\<close>

section \<open>State\<close>

record StartedUnit =
  su_mKeyboard :: Keyboard
  su_mLight :: "nat option"

definition new_StartedUnit :: StartedUnit where
  "new_StartedUnit = \<lparr>su_mKeyboard = mKeyboard new_AlarmClock, su_mLight = None\<rparr>"

definition unit_registerLight :: "nat option \<Rightarrow> StartedUnit \<Rightarrow> StartedUnit" where
  "unit_registerLight light u =
     (case light of None \<Rightarrow> u
      | Some p \<Rightarrow> u\<lparr>su_mLight := Some p, su_mKeyboard := registerKeyboardObserver (Some p) (su_mKeyboard u)\<rparr>)"

definition unit_unRegisterLight :: "nat option \<Rightarrow> StartedUnit \<Rightarrow> StartedUnit" where
  "unit_unRegisterLight light u =
     (case light of None \<Rightarrow> u
      | Some p \<Rightarrow> u\<lparr>su_mKeyboard := unRegisterKeyboardObserver (Some p) (su_mKeyboard u), su_mLight := None\<rparr>)"

record main_state =
  startedUnits :: "(string \<times> StartedUnit) list"
  startedLights :: "(string \<times> nat) list"
  live_lights :: "nat set"
  next_light :: nat

definition main_start :: main_state where
  "main_start = \<lparr>startedUnits = [], startedLights = [], live_lights = {}, next_light = 6\<rparr>"

definition map_del :: "string \<Rightarrow> (string \<times> 'a) list \<Rightarrow> (string \<times> 'a) list" where
  "map_del k m = filter (\<lambda>(k', _). k' \<noteq> k) m"

text \<open>
  The answers of a pass: the probes of a unit's keyboard and light, whether the constructors end
  without an exception of the bus, the tests for attachment, and the fate of an erased iterator.
\<close>

record pass_env =
  keyboard_probe :: "string \<Rightarrow> i2c_exception + bool"
  light_probe :: "string \<Rightarrow> i2c_exception + bool"
  unit_constructed :: "string \<Rightarrow> bool"
  light_constructed :: "string \<Rightarrow> bool"
  unit_attached :: "string \<Rightarrow> bool"
  light_attached :: "string \<Rightarrow> i2c_exception + bool"
  erased_leads_on :: "string \<Rightarrow> bool"

datatype main_fault = BusException | ErasedIterator | NullUnit | DanglingLight

type_synonym main_result = "main_state \<times> (main_fault + unit)"

section \<open>Attaching\<close>

definition start_unit :: "pass_env \<Rightarrow> string \<Rightarrow> main_state \<Rightarrow> main_result" where
  "start_unit env nm s =
     (if map_of (startedUnits s) nm \<noteq> None then (s, Inr ())
      else if unit_constructed env nm
      then (s\<lparr>startedUnits := map_put nm new_StartedUnit (startedUnits s)\<rparr>, Inr ())
      else (s, Inl BusException))"

definition start_light :: "pass_env \<Rightarrow> string \<Rightarrow> main_state \<Rightarrow> main_state \<times> (main_fault + nat)" where
  "start_light env nm s =
     (case map_of (startedLights s) nm of
        Some p \<Rightarrow> (s, Inr p)
      | None \<Rightarrow>
         if light_constructed env nm
         then (let p = next_light s in
               (s\<lparr>startedLights := map_put nm p (startedLights s), live_lights := insert p (live_lights s),
                  next_light := Suc p\<rparr>, Inr p))
         else (s, Inl BusException))"

definition attach_light :: "pass_env \<Rightarrow> string \<Rightarrow> main_state \<Rightarrow> main_result" where
  "attach_light env nm s =
     (case map_of (startedUnits s) nm of
        None \<Rightarrow> (s, Inl NullUnit)
      | Some u \<Rightarrow>
         if su_mLight u \<noteq> None then (s, Inr ())
         else (case start_light env nm s of
                 (s1, Inl f) \<Rightarrow> (s1, Inl f)
               | (s1, Inr p) \<Rightarrow>
                   (s1\<lparr>startedUnits := map_put nm (unit_registerLight (Some p) u) (startedUnits s1)\<rparr>, Inr ())))"

definition attach_unit :: "pass_env \<Rightarrow> string \<Rightarrow> main_state \<Rightarrow> main_result" where
  "attach_unit env nm s =
     (case keyboard_probe env nm of
        Inl _ \<Rightarrow> (s, Inl BusException)
      | Inr False \<Rightarrow> (s, Inr ())
      | Inr True \<Rightarrow>
         (case start_unit env nm s of
            (s1, Inl f) \<Rightarrow> (s1, Inl f)
          | (s1, Inr _) \<Rightarrow>
             (case light_probe env nm of
                Inl _ \<Rightarrow> (s1, Inl BusException)
              | Inr False \<Rightarrow> (s1, Inr ())
              | Inr True \<Rightarrow> attach_light env nm s1)))"

fun attach_units :: "pass_env \<Rightarrow> string list \<Rightarrow> main_state \<Rightarrow> main_result" where
  "attach_units env [] s = (s, Inr ())"
| "attach_units env (nm # nms) s =
     (case attach_unit env nm s of (s1, Inl f) \<Rightarrow> (s1, Inl f) | (s1, Inr _) \<Rightarrow> attach_units env nms s1)"

section \<open>Detaching\<close>

definition remove_unit :: "string \<Rightarrow> main_state \<Rightarrow> main_state" where
  "remove_unit nm s = s\<lparr>startedUnits := map_del nm (startedUnits s)\<rparr>"

text \<open>
  The unit's light is unregistered before the unit is deleted. The iterator walks over the names
  in order; \<open>rest\<close> is what is still ahead.
\<close>

fun detach_units :: "pass_env \<Rightarrow> string list \<Rightarrow> main_state \<Rightarrow> main_result" where
  "detach_units env [] s = (s, Inr ())"
| "detach_units env (nm # rest) s =
     (case map_of (startedUnits s) nm of
        None \<Rightarrow> (s, Inl ErasedIterator)
      | Some u \<Rightarrow>
         if unit_attached env nm then detach_units env rest s
         else
           (let s1 = s\<lparr>startedUnits := map_put nm (unit_unRegisterLight (map_of (startedLights s) nm) u) (startedUnits s)\<rparr>;
                s2 = remove_unit nm s1
            in if erased_leads_on env nm then detach_units env rest s2 else (s2, Inl ErasedIterator)))"

definition remove_light :: "string \<Rightarrow> nat \<Rightarrow> main_state \<Rightarrow> main_state" where
  "remove_light nm p s =
     (let s1 = (case map_of (startedUnits s) nm of
                  None \<Rightarrow> s
                | Some u \<Rightarrow> s\<lparr>startedUnits := map_put nm (unit_unRegisterLight (Some p) u) (startedUnits s)\<rparr>)
      in s1\<lparr>startedLights := map_del nm (startedLights s1), live_lights := live_lights s1 - {p}\<rparr>)"

fun detach_lights :: "pass_env \<Rightarrow> string list \<Rightarrow> main_state \<Rightarrow> main_result" where
  "detach_lights env [] s = (s, Inr ())"
| "detach_lights env (nm # rest) s =
     (case map_of (startedLights s) nm of
        None \<Rightarrow> (s, Inl ErasedIterator)
      | Some p \<Rightarrow>
         if p \<notin> live_lights s then (s, Inl DanglingLight)
         else
           (case light_attached env nm of
              Inl _ \<Rightarrow> (s, Inl BusException)
            | Inr True \<Rightarrow> detach_lights env rest s
            | Inr False \<Rightarrow>
               (let s1 = remove_light nm p s
                in if erased_leads_on env nm then detach_lights env rest s1 else (s1, Inl ErasedIterator))))"

section \<open>The loop and the ends of the program\<close>

definition main_pass :: "string list \<Rightarrow> pass_env \<Rightarrow> main_state \<Rightarrow> main_result" where
  "main_pass names env s =
     (case attach_units env names s of
        (s1, Inl f) \<Rightarrow> (s1, Inl f)
      | (s1, Inr _) \<Rightarrow>
         (case detach_units env (map_keys (startedUnits s1)) s1 of
            (s2, Inl f) \<Rightarrow> (s2, Inl f)
          | (s2, Inr _) \<Rightarrow> detach_lights env (map_keys (startedLights s2)) s2))"

text \<open>Every pass comes with the value of \<open>runMain\<close> at its end; without more passes the program still runs.\<close>

fun main_loop :: "string list \<Rightarrow> (pass_env \<times> bool) list \<Rightarrow> main_state \<Rightarrow> main_result option" where
  "main_loop names [] s = None"
| "main_loop names ((env, runMain) # envs) s =
     (case main_pass names env s of
        (s1, Inl f) \<Rightarrow> Some (s1, Inl f)
      | (s1, Inr _) \<Rightarrow> if runMain then main_loop names envs s1 else Some (s1, Inr ()))"

datatype signal = SIGHUP | SIGINT | SIGTERM | SIGKILL | OtherSignal

definition signal_handler :: "signal \<Rightarrow> bool \<Rightarrow> bool" where
  "signal_handler sig runMain =
     (case sig of SIGINT \<Rightarrow> False | SIGTERM \<Rightarrow> False | SIGKILL \<Rightarrow> False | _ \<Rightarrow> runMain)"

text \<open>
  The ends: a normal one clears the units and then the lights while the alarm manager is alive. An
  exception of the bus destroys the alarm manager with the rest of the inner block first; the
  units, which are declared outside, unregister with it after that.
\<close>

datatype main_end = ExitCode int | UncaughtException | UndefinedBehaviour

fun main_exit :: "main_result \<Rightarrow> main_end" where
  "main_exit (s, Inr _) = ExitCode 0"
| "main_exit (s, Inl BusException) = (if startedUnits s = [] then ExitCode 1 else UndefinedBehaviour)"
| "main_exit (s, Inl _) = UndefinedBehaviour"

datatype startup = Started | ThrewString | ThrewOther

text \<open>
  The constructor of the bus object throws a \<open>std::runtime_error\<close>, which no handler of \<open>main\<close>
  catches. A string thrown by the clock chip's constructor reaches the outer handler, one thrown by
  the reset of the drivers or the constructors of the inner block the inner one.
\<close>

definition main_program ::
  "bool \<Rightarrow> startup \<Rightarrow> Config \<Rightarrow> startup \<Rightarrow> (pass_env \<times> bool) list \<Rightarrow> main_end option" where
  "main_program bus_opens rtc_start config inner_start envs =
     (if \<not> bus_opens \<or> rtc_start = ThrewOther then Some UncaughtException
      else if rtc_start = ThrewString then Some (ExitCode 0)
      else if \<not> mErrorFree config then Some (ExitCode 1)
      else (case inner_start of
              ThrewString \<Rightarrow> Some (ExitCode 1)
            | ThrewOther \<Rightarrow> Some UncaughtException
            | Started \<Rightarrow> map_option main_exit (main_loop (units config) envs main_start)))"

section \<open>Invariant\<close>

text \<open>
  A unit's keyboard calls the unit, its radio, the main board and, while it has one, its light;
  the light of a unit is the one started under the unit's name; the objects in memory are the
  started lights, each at an address of its own.
\<close>

definition unit_ok :: "(string \<rightharpoonup> nat) \<Rightarrow> string \<Rightarrow> StartedUnit \<Rightarrow> bool" where
  "unit_ok lights nm u \<longleftrightarrow>
     set (mKeyboardObservers (su_mKeyboard u)) =
       {this_addr, radio_addr, mainboard_addr} \<union> set_option (su_mLight u) \<and>
     (su_mLight u = None \<or> su_mLight u = lights nm)"

definition main_inv :: "main_state \<Rightarrow> bool" where
  "main_inv s \<longleftrightarrow>
     sorted_wrt (<) (map_keys (startedUnits s)) \<and> sorted_wrt (<) (map_keys (startedLights s)) \<and>
     (\<forall>nm u. map_of (startedUnits s) nm = Some u \<longrightarrow> unit_ok (map_of (startedLights s)) nm u) \<and>
     live_lights s = ran (map_of (startedLights s)) \<and>
     (\<forall>a b p. map_of (startedLights s) a = Some p \<longrightarrow> map_of (startedLights s) b = Some p \<longrightarrow> a = b) \<and>
     (\<forall>a p. map_of (startedLights s) a = Some p \<longrightarrow> 6 \<le> p \<and> p < next_light s) \<and> 6 \<le> next_light s"

lemma main_invI:
  assumes "sorted_wrt (<) (map_keys (startedUnits s))" "sorted_wrt (<) (map_keys (startedLights s))"
    and "\<And>nm u. map_of (startedUnits s) nm = Some u \<Longrightarrow> unit_ok (map_of (startedLights s)) nm u"
    and "live_lights s = ran (map_of (startedLights s))"
    and "\<And>a b p. map_of (startedLights s) a = Some p \<Longrightarrow> map_of (startedLights s) b = Some p \<Longrightarrow> a = b"
    and "\<And>a p. map_of (startedLights s) a = Some p \<Longrightarrow> 6 \<le> p \<and> p < next_light s" and "6 \<le> next_light s"
  shows "main_inv s"
  using assms unfolding main_inv_def by blast

lemma main_invD:
  assumes "main_inv s"
  shows "sorted_wrt (<) (map_keys (startedUnits s))" "sorted_wrt (<) (map_keys (startedLights s))"
    and "map_of (startedUnits s) nm = Some u \<Longrightarrow> unit_ok (map_of (startedLights s)) nm u"
    and "live_lights s = ran (map_of (startedLights s))"
    and "map_of (startedLights s) a = Some p \<Longrightarrow> map_of (startedLights s) b = Some p \<Longrightarrow> a = b"
    and "map_of (startedLights s) a = Some p \<Longrightarrow> 6 \<le> p \<and> p < next_light s" and "6 \<le> next_light s"
  using assms unfolding main_inv_def by blast+

lemma main_start_inv: "main_inv main_start"
  by (simp add: main_inv_def main_start_def map_keys_def)

lemma map_del_sorted: "sorted_wrt (<) (map_keys m) \<Longrightarrow> sorted_wrt (<) (map_keys (map_del k m))"
  by (induction m) (auto simp: map_keys_def map_del_def)

lemma map_del_get: "map_of (map_del k m) = (map_of m)(k := None)"
  by (induction m) (auto simp: map_del_def fun_eq_iff)

lemma ptr_insert_set: "set (ptr_insert p ps) = insert p (set ps)"
  by (induction ps) auto

lemma new_StartedUnit_ok: "unit_ok lights nm new_StartedUnit"
  by (auto simp: unit_ok_def new_StartedUnit_def new_AlarmClock_def Let_def registerKeyboardObserver_def
      ptr_insert_set new_Keyboard_def)

lemma registerLight_ok:
  "unit_ok lights nm u \<Longrightarrow> su_mLight u = None \<Longrightarrow> lights' nm = Some p \<Longrightarrow>
     unit_ok lights' nm (unit_registerLight (Some p) u)"
  by (auto simp: unit_ok_def unit_registerLight_def registerKeyboardObserver_def ptr_insert_set)

lemma unRegisterLight_ok:
  assumes "unit_ok lights nm u" and "\<And>p. lights nm = Some p \<Longrightarrow> 6 \<le> p"
  shows "unit_ok lights' nm (unit_unRegisterLight (lights nm) u) \<or> lights nm = None"
  using assms
  by (cases "lights nm")
    (fastforce simp: unit_ok_def unit_unRegisterLight_def unRegisterKeyboardObserver_def
      this_addr_def radio_addr_def mainboard_addr_def)+

text \<open>Changing the entry of one unit.\<close>

lemma main_inv_put_unit:
  assumes "main_inv s" and "unit_ok (map_of (startedLights s)) nm u"
  shows "main_inv (s\<lparr>startedUnits := map_put nm u (startedUnits s)\<rparr>)"
  using assms(2) main_invD [OF assms(1)]
  by (intro main_invI) (auto simp: map_put_sorted map_put_get split: if_splits)

lemma main_inv_remove_unit: "main_inv s \<Longrightarrow> main_inv (remove_unit nm s)"
  using main_invD [of s]
  by (intro main_invI) (auto simp: remove_unit_def map_del_sorted map_del_get split: if_splits)

lemma start_unit_inv: "main_inv s \<Longrightarrow> main_inv (fst (start_unit env nm s))"
  by (simp add: start_unit_def main_inv_put_unit new_StartedUnit_ok)

lemma unit_ok_lights:
  "unit_ok lights nm u \<Longrightarrow> lights nm = None \<or> lights' nm = lights nm \<Longrightarrow> unit_ok lights' nm u"
  by (auto simp: unit_ok_def)

lemma start_light_inv:
  assumes "main_inv s"
  shows "main_inv (fst (start_light env nm s))"
proof (cases "map_of (startedLights s) nm = None \<and> light_constructed env nm")
  case False
  then show ?thesis using assms by (auto simp: start_light_def split: option.split)
next
  case True
  let ?p = "next_light s"
  let ?s = "s\<lparr>startedLights := map_put nm ?p (startedLights s), live_lights := insert ?p (live_lights s),
     next_light := Suc ?p\<rparr>"
  note D = main_invD [OF assms]
  have m: "map_of (map_put nm ?p (startedLights s)) = (map_of (startedLights s))(nm \<mapsto> ?p)"
    using D(2) by (rule map_put_get)
  have "main_inv ?s"
  proof (rule main_invI)
    show "unit_ok (map_of (startedLights ?s)) k u" if "map_of (startedUnits ?s) k = Some u" for k u
    proof (rule unit_ok_lights)
      show "unit_ok (map_of (startedLights s)) k u" using D(3) that by simp
    qed (use True in \<open>auto simp: m\<close>)
    show "a = b" if "map_of (startedLights ?s) a = Some p" "map_of (startedLights ?s) b = Some p" for a b p
      using that D(5) [of a p b] D(6) [of a p] D(6) [of b p] by (auto simp: m split: if_splits)
    show "6 \<le> p \<and> p < next_light ?s" if "map_of (startedLights ?s) a = Some p" for a p
      using that D(6) [of a p] D(7) by (auto simp: m split: if_splits)
    show "live_lights ?s = ran (map_of (startedLights ?s))"
      using True D(4) by (simp add: m)
  qed (use D in \<open>simp_all add: map_put_sorted\<close>)
  with True show ?thesis by (simp add: start_light_def Let_def)
qed

lemma start_light_started:
  "main_inv s \<Longrightarrow> start_light env nm s = (s1, Inr p) \<Longrightarrow> map_of (startedLights s1) nm = Some p"
  using main_invD(2) [of s] by (auto simp: start_light_def Let_def map_put_get split: option.splits if_splits)

lemma start_light_frame:
  "main_inv s \<Longrightarrow> startedUnits (fst (start_light env nm s)) = startedUnits s \<and>
     (k \<noteq> nm \<longrightarrow> map_of (startedLights (fst (start_light env nm s))) k = map_of (startedLights s) k)"
  using main_invD(2) [of s] by (auto simp: start_light_def Let_def map_put_get split: option.splits)

lemma attach_light_inv:
  assumes "main_inv s"
  shows "main_inv (fst (attach_light env nm s))"
proof (cases "\<exists>u s1 p. map_of (startedUnits s) nm = Some u \<and> su_mLight u = None \<and> start_light env nm s = (s1, Inr p)")
  case False
  then show ?thesis using assms start_light_inv [OF assms, of env nm]
    by (auto simp: attach_light_def split: option.split prod.split sum.split)
next
  case True
  then obtain u s1 p where u: "map_of (startedUnits s) nm = Some u" "su_mLight u = None"
    "start_light env nm s = (s1, Inr p)" by blast
  have i1: "main_inv s1" using start_light_inv [OF assms, of env nm] by (simp add: u)
  have "unit_ok (map_of (startedLights s1)) nm (unit_registerLight (Some p) u)"
    using registerLight_ok main_invD(3) [OF assms u(1)] u(2) start_light_started [OF assms u(3)] by blast
  with i1 u show ?thesis by (simp add: attach_light_def main_inv_put_unit)
qed

lemma attach_unit_inv: "main_inv s \<Longrightarrow> main_inv (fst (attach_unit env nm s))"
  using start_unit_inv [of s env nm] attach_light_inv [of "fst (start_unit env nm s)" env nm]
  by (auto simp: attach_unit_def split: sum.split prod.split bool.split)

lemma attach_units_inv: "main_inv s \<Longrightarrow> main_inv (fst (attach_units env nms s))"
proof (induction nms arbitrary: s)
  case (Cons nm nms)
  then show ?case using attach_unit_inv [OF Cons.prems, of env nm] by (auto split: prod.split sum.split)
qed simp

section \<open>Effect of attaching\<close>

text \<open>The answers for a name are free of exceptions.\<close>

definition answers :: "pass_env \<Rightarrow> string \<Rightarrow> bool" where
  "answers env nm \<longleftrightarrow> (\<exists>b. keyboard_probe env nm = Inr b) \<and> (\<exists>b. light_probe env nm = Inr b) \<and>
     unit_constructed env nm \<and> light_constructed env nm"

definition lit :: "main_state \<Rightarrow> string \<Rightarrow> bool" where
  "lit s nm \<longleftrightarrow> (\<exists>u p. map_of (startedUnits s) nm = Some u \<and> su_mLight u = Some p)"

definition keyboard_there :: "pass_env \<Rightarrow> string \<Rightarrow> bool" where
  "keyboard_there env nm \<longleftrightarrow> keyboard_probe env nm = Inr True"

definition light_there :: "pass_env \<Rightarrow> string \<Rightarrow> bool" where
  "light_there env nm \<longleftrightarrow> keyboard_there env nm \<and> light_probe env nm = Inr True"

lemma start_unit_effect:
  assumes "main_inv s" and "answers env nm"
  shows "\<exists>s1. start_unit env nm s = (s1, Inr ()) \<and> main_inv s1 \<and> startedLights s1 = startedLights s \<and>
     map_of (startedUnits s1) nm \<noteq> None \<and> (\<forall>k. k \<noteq> nm \<longrightarrow> map_of (startedUnits s1) k = map_of (startedUnits s) k)"
  using assms start_unit_inv [OF assms(1), of env nm] main_invD(1) [OF assms(1)]
  by (auto simp: start_unit_def answers_def map_put_get)

lemma attach_light_effect:
  assumes "main_inv s" and "answers env nm" and "map_of (startedUnits s) nm \<noteq> None"
  shows "\<exists>s1. attach_light env nm s = (s1, Inr ()) \<and> lit s1 nm \<and> map_of (startedLights s1) nm \<noteq> None \<and>
     (\<forall>k. k \<noteq> nm \<longrightarrow> map_of (startedUnits s1) k = map_of (startedUnits s) k \<and>
          map_of (startedLights s1) k = map_of (startedLights s) k)"
proof -
  from assms(3) obtain u where u: "map_of (startedUnits s) nm = Some u" by blast
  show ?thesis
  proof (cases "su_mLight u")
    case (Some p)
    with main_invD(3) [OF assms(1) u] u show ?thesis by (auto simp: attach_light_def lit_def unit_ok_def)
  next
    case None
    obtain s1 p where s1: "start_light env nm s = (s1, Inr p)"
      using assms(2) by (cases "map_of (startedLights s) nm") (auto simp: start_light_def Let_def answers_def)
    from None u s1 start_light_frame [OF assms(1), where env = env and nm = nm] start_light_started [OF assms(1) s1]
    show ?thesis
      by (auto simp: attach_light_def lit_def map_put_get main_invD(1) [OF assms(1)] unit_registerLight_def)
  qed
qed


text \<open>What one turn of the loop does to the tables, and the whole loop by induction.\<close>

definition attached_by :: "pass_env \<Rightarrow> string set \<Rightarrow> main_state \<Rightarrow> main_state \<Rightarrow> bool" where
  "attached_by env N s s' \<longleftrightarrow>
     dom (map_of (startedUnits s')) = dom (map_of (startedUnits s)) \<union> {nm \<in> N. keyboard_there env nm} \<and>
     dom (map_of (startedLights s')) = dom (map_of (startedLights s)) \<union> {nm \<in> N. light_there env nm} \<and>
     (\<forall>nm \<in> N. light_there env nm \<longrightarrow> lit s' nm) \<and> (\<forall>nm. nm \<notin> N \<longrightarrow> lit s nm \<longrightarrow> lit s' nm)"

lemma dom_insert_at:
  assumes "f nm \<noteq> None" and "\<And>k. k \<noteq> nm \<Longrightarrow> f k = g k"
  shows "dom f = insert nm (dom g)"
proof (rule set_eqI)
  show "k \<in> dom f \<longleftrightarrow> k \<in> insert nm (dom g)" for k
    using assms by (cases "k = nm") (auto simp: dom_def)
qed

lemma attach_unit_effect:
  assumes "main_inv s" and "answers env nm"
  shows "\<exists>s'. attach_unit env nm s = (s', Inr ()) \<and> main_inv s' \<and> attached_by env {nm} s s'"
proof -
  obtain s1 where s1: "start_unit env nm s = (s1, Inr ())" "main_inv s1" "startedLights s1 = startedLights s"
    "map_of (startedUnits s1) nm \<noteq> None" "\<And>k. k \<noteq> nm \<Longrightarrow> map_of (startedUnits s1) k = map_of (startedUnits s) k"
    using start_unit_effect [OF assms] by blast
  obtain s2 where s2: "attach_light env nm s1 = (s2, Inr ())" "lit s2 nm" "map_of (startedLights s2) nm \<noteq> None"
    "\<And>k. k \<noteq> nm \<Longrightarrow> map_of (startedUnits s2) k = map_of (startedUnits s1) k \<and>
       map_of (startedLights s2) k = map_of (startedLights s1) k"
    using attach_light_effect [OF s1(2) assms(2) s1(4)] by blast
  have lu: "map_of (startedUnits s2) nm \<noteq> None" using s2(2) by (auto simp: lit_def)
  have inv: "main_inv (fst (attach_unit env nm s))" using attach_unit_inv [OF assms(1)] .
  consider (absent) "\<not> keyboard_there env nm" | (dark) "keyboard_there env nm" "\<not> light_there env nm"
    | (light) "keyboard_there env nm" "light_there env nm" by blast
  then show ?thesis
  proof cases
    case absent
    then have "attach_unit env nm s = (s, Inr ())"
      using assms(2) by (auto simp: attach_unit_def answers_def keyboard_there_def split: bool.split)
    with absent assms(1) show ?thesis by (auto simp: attached_by_def light_there_def)
  next
    case dark
    then have "attach_unit env nm s = (s1, Inr ())"
      using assms(2) s1(1) by (auto simp: attach_unit_def answers_def keyboard_there_def light_there_def split: bool.split)
    with dark s1 dom_insert_at [of "map_of (startedUnits s1)" nm "map_of (startedUnits s)", OF s1(4,5)] show ?thesis by (auto simp: attached_by_def lit_def)
  next
    case light
    then have "attach_unit env nm s = (s2, Inr ())"
      using assms(2) s1(1) s2(1) by (auto simp: attach_unit_def answers_def keyboard_there_def light_there_def)
    with light inv s1 s2 dom_insert_at [of "map_of (startedUnits s2)" nm "map_of (startedUnits s)", OF lu]
      dom_insert_at [of "map_of (startedLights s2)" nm "map_of (startedLights s)", OF s2(3)]
    show ?thesis by (auto simp: attached_by_def lit_def)
  qed
qed

lemma attached_by_trans:
  "attached_by env M s s1 \<Longrightarrow> attached_by env N s1 s2 \<Longrightarrow> attached_by env (M \<union> N) s s2"
  by (auto simp: attached_by_def)

lemma attach_units_effect:
  "main_inv s \<Longrightarrow> \<forall>nm \<in> set nms. answers env nm \<Longrightarrow>
     \<exists>s'. attach_units env nms s = (s', Inr ()) \<and> main_inv s' \<and> attached_by env (set nms) s s'"
proof (induction nms arbitrary: s)
  case Nil
  then show ?case by (simp add: attached_by_def)
next
  case (Cons nm nms)
  then obtain s1 where s1: "attach_unit env nm s = (s1, Inr ())" "main_inv s1" "attached_by env {nm} s s1"
    using attach_unit_effect [OF Cons.prems(1), of env nm] by auto
  with Cons.IH [of s1] Cons.prems(2) obtain s2 where "attach_units env nms s1 = (s2, Inr ())" "main_inv s2"
    "attached_by env (set nms) s1 s2" by auto
  with s1 attached_by_trans [OF s1(3)] show ?case by auto
qed

section \<open>Effect of detaching\<close>

lemma unRegistered_ok:
  assumes "main_inv s" and "map_of (startedUnits s) nm = Some u"
  shows "unit_ok (map_of (startedLights s)) nm (unit_unRegisterLight (map_of (startedLights s) nm) u)"
proof (cases "map_of (startedLights s) nm")
  case None
  then show ?thesis using main_invD(3) [OF assms] by (simp add: unit_unRegisterLight_def)
next
  case (Some p)
  have "6 \<le> q" if "map_of (startedLights s) nm = Some q" for q using main_invD(6) [OF assms(1) that] by simp
  from unRegisterLight_ok [OF main_invD(3) [OF assms] this] Some show ?thesis by fastforce
qed

lemma detach_units_inv: "main_inv s \<Longrightarrow> main_inv (fst (detach_units env nms s))"
proof (induction nms arbitrary: s)
  case (Cons nm nms)
  show ?case
  proof (cases "map_of (startedUnits s) nm")
    case (Some u)
    let ?s1 = "s\<lparr>startedUnits := map_put nm (unit_unRegisterLight (map_of (startedLights s) nm) u) (startedUnits s)\<rparr>"
    have "main_inv (remove_unit nm ?s1)"
      using main_inv_remove_unit main_inv_put_unit [OF Cons.prems unRegistered_ok [OF Cons.prems Some]] .
    with Some Cons.IH [of s] Cons.IH [of "remove_unit nm ?s1"] Cons.prems show ?thesis by (simp add: Let_def)
  qed (use Cons in simp)
qed simp

lemma remove_light_maps:
  assumes "main_inv s"
  shows "map_of (startedLights (remove_light nm p s)) = (map_of (startedLights s))(nm := None)"
    and "map_of (startedUnits (remove_light nm p s)) k =
      (if k = nm then map_option (unit_unRegisterLight (Some p)) (map_of (startedUnits s) nm)
       else map_of (startedUnits s) k)"
  using main_invD(1) [OF assms]
  by (simp_all add: remove_light_def map_del_get map_put_get split: option.split)

lemma remove_light_inv:
  assumes "main_inv s" and p: "map_of (startedLights s) nm = Some p"
  shows "main_inv (remove_light nm p s)"
proof -
  note D = main_invD [OF assms(1)]
  note m = remove_light_maps [OF assms(1)]
  have f: "sorted_wrt (<) (map_keys (startedUnits (remove_light nm p s)))"
    "sorted_wrt (<) (map_keys (startedLights (remove_light nm p s)))"
    "live_lights (remove_light nm p s) = live_lights s - {p}" "next_light (remove_light nm p s) = next_light s"
    using D(1,2) by (auto simp: remove_light_def map_put_sorted map_del_sorted split: option.split)
  show ?thesis
  proof (rule main_invI)
    show "unit_ok (map_of (startedLights (remove_light nm p s))) k u"
      if "map_of (startedUnits (remove_light nm p s)) k = Some u" for k u
    proof (cases "k = nm")
      case True
      with that obtain v where v: "map_of (startedUnits s) nm = Some v" "u = unit_unRegisterLight (Some p) v"
        by (auto simp: m)
      from unRegistered_ok [OF assms(1) v(1)] have "unit_ok (map_of (startedLights s)) nm u" by (simp add: p v(2))
      then show ?thesis using True v(2) by (simp add: unit_ok_def unit_unRegisterLight_def m)
    next
      case False
      with that have "unit_ok (map_of (startedLights s)) k u" using D(3) by (simp add: m)
      then show ?thesis by (rule unit_ok_lights) (simp add: m False)
    qed
    show "live_lights (remove_light nm p s) = ran (map_of (startedLights (remove_light nm p s)))"
    proof -
      have "map_of (startedLights s) a = Some q \<and> q \<noteq> p \<longleftrightarrow> a \<noteq> nm \<and> map_of (startedLights s) a = Some q" for a q
        using D(5) [of a q nm] p by auto
      then show ?thesis by (auto simp: f m D(4) ran_def)
    qed
  qed (use D in \<open>auto simp: f m split: if_splits\<close>)
qed

lemma detach_lights_inv: "main_inv s \<Longrightarrow> main_inv (fst (detach_lights env nms s))"
proof (induction nms arbitrary: s)
  case (Cons nm nms)
  show ?case
  proof (cases "map_of (startedLights s) nm")
    case (Some p)
    from remove_light_inv [OF Cons.prems Some] Some Cons.IH [of s] Cons.IH [of "remove_light nm p s"] Cons.prems
    show ?thesis by (auto simp: Let_def split: sum.split bool.split)
  qed (use Cons in simp)
qed simp

lemma main_pass_inv: "main_inv s \<Longrightarrow> main_inv (fst (main_pass names env s))"
  using attach_units_inv [of s env names]
    detach_units_inv [of "fst (attach_units env names s)" env "map_keys (startedUnits (fst (attach_units env names s)))"]
    detach_lights_inv [of "fst (detach_units env (map_keys (startedUnits (fst (attach_units env names s)))) (fst (attach_units env names s)))"
      env]
  by (auto simp: main_pass_def split: prod.split sum.split)

text \<open>The removal of the units that are no longer attached, where every erased iterator leads on.\<close>

lemma detach_units_effect:
  assumes "main_inv s" and "distinct nms" and "set nms \<subseteq> dom (map_of (startedUnits s))"
    and "\<forall>nm \<in> set nms. unit_attached env nm \<or> erased_leads_on env nm"
  shows "\<exists>s'. detach_units env nms s = (s', Inr ()) \<and> main_inv s' \<and> startedLights s' = startedLights s \<and>
     live_lights s' = live_lights s \<and>
     map_of (startedUnits s') = (\<lambda>k. if k \<in> set nms \<and> \<not> unit_attached env k then None else map_of (startedUnits s) k)"
  using assms
proof (induction nms arbitrary: s)
  case (Cons nm nms)
  from Cons.prems obtain u where u: "map_of (startedUnits s) nm = Some u" by auto
  show ?case
  proof (cases "unit_attached env nm")
    case True
    with Cons.IH [of s] Cons.prems u show ?thesis by (auto simp: fun_eq_iff)
  next
    case False
    let ?u = "unit_unRegisterLight (map_of (startedLights s) nm) u"
    let ?s2 = "remove_unit nm (s\<lparr>startedUnits := map_put nm ?u (startedUnits s)\<rparr>)"
    have i: "main_inv ?s2"
      using main_inv_remove_unit main_inv_put_unit [OF Cons.prems(1) unRegistered_ok [OF Cons.prems(1) u]] .
    have m: "map_of (startedUnits ?s2) = (map_of (startedUnits s))(nm := None)"
      "startedLights ?s2 = startedLights s" "live_lights ?s2 = live_lights s"
      using main_invD(1) [OF Cons.prems(1)] by (simp_all add: remove_unit_def map_del_get map_put_get)
    have "set nms \<subseteq> dom (map_of (startedUnits ?s2))" using Cons.prems(2,3) by (auto simp: m)
    from Cons.IH [OF i _ this] Cons.prems(2,4) obtain s' where s': "detach_units env nms ?s2 = (s', Inr ())"
      "main_inv s'" "startedLights s' = startedLights s" "live_lights s' = live_lights s"
      and um: "map_of (startedUnits s') = (\<lambda>k. if k \<in> set nms \<and> \<not> unit_attached env k then None
         else map_of (startedUnits ?s2) k)"
      unfolding m(2,3) by auto
    moreover have "detach_units env (nm # nms) s = (s', Inr ())"
      using u False Cons.prems(4) s'(1) by (simp add: Let_def)
    ultimately show ?thesis using False um unfolding m(1) by (auto simp: fun_eq_iff)
  qed
qed simp

lemma detach_lights_effect:
  assumes "main_inv s" and "distinct nms" and "set nms \<subseteq> dom (map_of (startedLights s))"
    and "\<forall>nm \<in> set nms. light_attached env nm = Inr True \<or> (light_attached env nm = Inr False \<and> erased_leads_on env nm)"
  shows "\<exists>s'. detach_lights env nms s = (s', Inr ()) \<and> main_inv s' \<and>
     map_of (startedLights s') =
       (\<lambda>k. if k \<in> set nms \<and> light_attached env k = Inr False then None else map_of (startedLights s) k) \<and>
     dom (map_of (startedUnits s')) = dom (map_of (startedUnits s)) \<and>
     (\<forall>k. \<not> (k \<in> set nms \<and> light_attached env k = Inr False) \<longrightarrow> map_of (startedUnits s') k = map_of (startedUnits s) k)"
  using assms
proof (induction nms arbitrary: s)
  case (Cons nm nms)
  from Cons.prems obtain p where p: "map_of (startedLights s) nm = Some p" by auto
  have live: "p \<in> live_lights s" using p main_invD(4) [OF Cons.prems(1)] by (auto simp: ran_def)
  show ?case
  proof (cases "light_attached env nm = Inr True")
    case True
    with Cons.IH [of s] Cons.prems p live show ?thesis by (auto simp: fun_eq_iff)
  next
    case False
    with Cons.prems(4) have f: "light_attached env nm = Inr False" "erased_leads_on env nm" by auto
    let ?s1 = "remove_light nm p s"
    note i = remove_light_inv [OF Cons.prems(1) p] and m = remove_light_maps [OF Cons.prems(1), of nm p]
    have "set nms \<subseteq> dom (map_of (startedLights ?s1))" using Cons.prems(2,3) by (auto simp: m)
    with Cons.IH [OF i] Cons.prems(2,4) obtain s' where s': "detach_lights env nms ?s1 = (s', Inr ())" "main_inv s'"
      "map_of (startedLights s') = (\<lambda>k. if k \<in> set nms \<and> light_attached env k = Inr False then None
         else map_of (startedLights ?s1) k)"
      "dom (map_of (startedUnits s')) = dom (map_of (startedUnits ?s1))"
      "\<And>k. \<not> (k \<in> set nms \<and> light_attached env k = Inr False) \<Longrightarrow>
         map_of (startedUnits s') k = map_of (startedUnits ?s1) k"
      by auto
    have "dom (map_of (startedUnits ?s1)) = dom (map_of (startedUnits s))" by (auto simp: m split: if_splits)
    moreover have "detach_lights env (nm # nms) s = (s', Inr ())"
      using p live f s'(1) by (simp add: Let_def)
    ultimately show ?thesis using f s' by (auto simp: fun_eq_iff m)
  qed
qed simp

section \<open>The program as a whole\<close>

inductive main_reachable :: "string list \<Rightarrow> main_state \<Rightarrow> bool" for names where
  start: "main_reachable names main_start"
| pass: "main_reachable names s \<Longrightarrow> main_pass names env s = (s', Inr ()) \<Longrightarrow> main_reachable names s'"

lemma main_reachable_inv: "main_reachable names s \<Longrightarrow> main_inv s"
proof (induction rule: main_reachable.induct)
  case (pass s env s')
  then show ?case using main_pass_inv [of s names env] by simp
qed (rule main_start_inv)

lemma distinct_keys: "sorted_wrt (<) (map_keys m) \<Longrightarrow> distinct (map_keys m)"
  by (simp add: strict_sorted_iff)

lemma set_keys: "set (map_keys m) = dom (map_of m)"
  by (simp add: map_keys_def dom_map_of_conv_image_fst)

text \<open>Every fault of a pass is an exception of the bus or an erased iterator.\<close>

definition benign :: "main_fault + 'a \<Rightarrow> bool" where
  "benign r \<longleftrightarrow> r \<noteq> Inl NullUnit \<and> r \<noteq> Inl DanglingLight"

lemma attach_unit_benign:
  assumes "main_inv s"
  shows "benign (snd (attach_unit env nm s))"
proof -
  have l: "benign (snd (attach_light env nm s1))" if "map_of (startedUnits s1) nm \<noteq> None" for s1
    using that by (auto simp: attach_light_def start_light_def Let_def benign_def split: option.split)
  have "map_of (startedUnits (fst (start_unit env nm s))) nm \<noteq> None \<and> snd (start_unit env nm s) = Inr () \<or>
      snd (start_unit env nm s) = Inl BusException"
    using main_invD(1) [OF assms] by (auto simp: start_unit_def map_put_get)
  with l [of "fst (start_unit env nm s)"] show ?thesis
    by (cases "start_unit env nm s") (auto simp: attach_unit_def benign_def split: sum.split bool.split)
qed

lemma attach_units_benign: "main_inv s \<Longrightarrow> benign (snd (attach_units env nms s))"
proof (induction nms arbitrary: s)
  case (Cons nm nms)
  with attach_unit_benign [OF Cons.prems, of env nm] attach_unit_inv [OF Cons.prems, of env nm] show ?case
    by (cases "attach_unit env nm s") (auto simp: benign_def split: sum.split)
qed (simp add: benign_def)

lemma detach_units_benign: "benign (snd (detach_units env nms s))"
  by (induction nms arbitrary: s) (auto simp: benign_def Let_def split: option.split)

lemma detach_lights_benign: "main_inv s \<Longrightarrow> benign (snd (detach_lights env nms s))"
proof (induction nms arbitrary: s)
  case (Cons nm nms)
  show ?case
  proof (cases "map_of (startedLights s) nm")
    case (Some p)
    then have "p \<in> live_lights s" using main_invD(4) [OF Cons.prems] by (auto simp: ran_def)
    with Some remove_light_inv [OF Cons.prems Some] Cons.IH [of s] Cons.IH [of "remove_light nm p s"] Cons.prems
    show ?thesis by (auto simp: benign_def Let_def split: sum.split bool.split)
  qed (simp add: benign_def)
qed (simp add: benign_def)

lemma main_pass_benign:
  assumes "main_inv s"
  shows "benign (snd (main_pass names env s))"
proof -
  obtain s1 r1 where 1: "attach_units env names s = (s1, r1)" by (cases "attach_units env names s")
  obtain s2 r2 where 2: "detach_units env (map_keys (startedUnits s1)) s1 = (s2, r2)"
    by (cases "detach_units env (map_keys (startedUnits s1)) s1")
  have "main_inv s1" using attach_units_inv [OF assms, of env names] 1 by simp
  then have "main_inv s2" using detach_units_inv [of s1 env "map_keys (startedUnits s1)"] 2 by simp
  from detach_lights_benign [OF this, of env "map_keys (startedLights s2)"]
    attach_units_benign [OF assms, of env names] detach_units_benign [of env "map_keys (startedUnits s1)" s1]
  show ?thesis by (auto simp: main_pass_def 1 2 benign_def split: sum.split)
qed



text \<open>
  The flaws of the loop and of the handler: the first unit found detached makes the program
  increment an erased iterator, and an exception of the bus after a unit was started destroys the
  alarm manager before the units that unregister with it.
\<close>

lemma detach_units_erased:
  "nm \<in> set nms \<Longrightarrow> \<not> unit_attached env nm \<Longrightarrow> \<not> erased_leads_on env nm \<Longrightarrow>
     \<forall>k. unit_attached env k \<or> \<not> erased_leads_on env k \<Longrightarrow> snd (detach_units env nms s) = Inl ErasedIterator"
  by (induction nms) (auto simp: Let_def split: option.split)

lemma detached_unit_undefined:
  assumes "main_reachable names s" and "\<forall>nm \<in> set names. answers env nm"
    and "nm \<in> dom (map_of (startedUnits s))" and "\<not> unit_attached env nm" and "\<forall>k. \<not> erased_leads_on env k"
  shows "main_exit (main_pass names env s) = UndefinedBehaviour"
proof -
  obtain s1 where s1: "attach_units env names s = (s1, Inr ())" "attached_by env (set names) s s1"
    using attach_units_effect [OF main_reachable_inv [OF assms(1)] assms(2)] by blast
  then have "nm \<in> set (map_keys (startedUnits s1))" using assms(3) by (auto simp: set_keys attached_by_def)
  with detach_units_erased [of nm _ env s1] assms(4,5)
  have "snd (detach_units env (map_keys (startedUnits s1)) s1) = Inl ErasedIterator" by blast
  then show ?thesis
    by (cases "detach_units env (map_keys (startedUnits s1)) s1") (simp add: main_pass_def s1)
qed

lemma bus_exception_undefined:
  assumes "startedUnits s \<noteq> []" and "keyboard_probe env nm = Inl e"
  shows "main_exit (main_pass (nm # names) env s) = UndefinedBehaviour"
  using assms by (simp add: main_pass_def attach_unit_def)

section \<open>Witnesses\<close>

definition quiet_env :: pass_env where
  "quiet_env = \<lparr>keyboard_probe = (\<lambda>_. Inr True), light_probe = (\<lambda>_. Inr True), unit_constructed = (\<lambda>_. True),
     light_constructed = (\<lambda>_. True), unit_attached = (\<lambda>_. True), light_attached = (\<lambda>_. Inr True),
     erased_leads_on = (\<lambda>_. False)\<rparr>"

definition lost_env :: pass_env where
  "lost_env = quiet_env\<lparr>light_attached := (\<lambda>_. Inr False)\<rparr>"



end
