(* ===== verification/Spec2Isabelle.thy ===== *)
theory Spec2Isabelle
  imports Alarm_File Rtc Rgb_Led Light_Sensor Clock_Utils Crypt_HMAC Crypt_CCMP_Legacy Shared_Receiver Lcd_Interface Fm_Receiver Main_Program
begin

text \<open>
  Verification of the RGB clock, a radio alarm clock for several rooms (\<open>src/rgbclock\<close>, C++), and of
  the cryptography of the WiFi driver that the repository carries for it
  (\<open>src/linux/Arch/rt5370.driver\<close>, C).

  \<^bold>\<open>Parts and how they interact.\<close> One \<open>AlarmManager\<close> holds the alarms of all units, saves them to a file and
  calls the unit of an alarm when its minute comes. A unit is an \<open>AlarmClock\<close> with a touch keyboard, a
  radio (an amplifier), a light and a display; the keyboard tells its observers about key presses, the
  alarm clock switches radio and light on and off and runs a maintenance thread while an alarm rings. Light and radio
  own two timers each, one that fades and one that powers off after an hour. All radios
  share one \<open>DABReceiver\<close>, which drives the tuner chip over the SPI bus. The display shows time, station and alarms, and
  has an editor for the alarms, which takes the edit lock of the manager. Everything else hangs on one
  I2C bus: the main board with inputs and watchdog, the clock chip, the lamp drivers, the keyboards.

  \<^bold>\<open>Theories.\<close>
  \<^item> \<open>Rgb_Prelude\<close>, \<open>Cpp_Std\<close>: machine integers, memory copies, collections of rules; the parts of the C++ library used.
  \<^item> \<open>Alarm_Manager\<close>, \<open>Alarm_File\<close> (\<open>AlarmManager.cpp\<close>): alarms, the alarm thread, the edit lock, the alarm file.
  \<^item> \<open>Keyboard\<close> (\<open>lib/Keyboard.cpp\<close>): sampling, classification of presses, the queue to the observers.
  \<^item> \<open>Device_Timers\<close> (\<open>lib/UpDownTimer.cpp\<close>, \<open>lib/AutoPowerOffTimer.cpp\<close>): the two timers, and locales for the
    devices that own them, interpreted by \<open>Light\<close> and \<open>Radio\<close>.
  \<^item> \<open>Light\<close>, \<open>Radio\<close>, \<open>Alarm_Clock\<close> (\<open>lib/Light.cpp\<close>, \<open>lib/Radio.cpp\<close>, \<open>AlarmClock.cpp\<close>): devices and state machine of a unit.
  \<^item> \<open>Clock_Display\<close> (\<open>lib/ClockDisplay.cpp\<close>): the display of a unit and the alarm editor.
  \<^item> \<open>I2C_Bus\<close>, \<open>Mainboard\<close>, \<open>Rtc\<close>, \<open>Pwm_Driver\<close> (\<open>lib/I2C.cpp\<close>, \<open>lib/IOExpander.cpp\<close>, \<open>lib/MainboardControl.cpp\<close>,
    \<open>lib/RTC.cpp\<close>, \<open>lib/PwmLedDriver.cpp\<close>, \<open>lib/LCDBacklight.cpp\<close>): the bus and its clients.
  \<^item> \<open>Dab_Commands\<close>, \<open>Dab_Tuner\<close>, \<open>Dab_Receiver\<close>, \<open>Shared_Receiver\<close> (\<open>lib/cmd/*.h\<close>, \<open>lib/SPI.cpp\<close>, \<open>lib/Si4684.cpp\<close>,
    \<open>lib/Crc32.hpp\<close>, \<open>lib/DABReceiver.cpp\<close>): replies of the tuner, its commands and firmware, the receiver, and the receiver
    as the radios use it.
  \<^item> \<open>Lcd_Display\<close>, \<open>Lcd_Firmware\<close>, \<open>Fast_Lcd\<close>, \<open>Lcd_Interface\<close> (\<open>lib/LCDisplay.cpp\<close>, \<open>LcdDriver/LcdDriver.ino\<close>,
    \<open>lib/FastLCDisplay.cpp\<close>, \<open>lib/LCDisplayIf.h\<close>): the graphic display on the port expander with its frame buffer, the firmware of the display
    controller, the driver of that controller joined with it, and a locale for the interface, interpreted by both displays.
  \<^item> \<open>Fm_Receiver\<close> (\<open>lib/FMReceiver.cpp\<close>, \<open>lib/RDSInfo.h\<close>, \<open>lib/SI4735.h\<close>): the older FM tuner and its RDS decoder.
  \<^item> \<open>System_Config\<close>, \<open>Main_Program\<close> (\<open>Config.cpp\<close>, \<open>I2C::registerAddresses\<close>, \<open>RgbApp/src/main.cpp\<close>): loading the settings, and the
    main loop that starts a unit or a light when it appears on the bus and removes it when it is gone. Lights are objects
    with addresses there, so that the lemmas show that no unit keeps a pointer to a deleted light.
  \<^item> \<open>Double_Arith\<close>, \<open>Rgb_Led\<close>, \<open>Light_Sensor\<close> (\<open>lib/RgbLed.cpp\<close>, \<open>lib/LightSensor.cpp\<close>, \<open>lib/LCDBacklight.cpp\<close>): double arithmetic
    with the rounding as a parameter of which only the promises of IEEE 754 are used, the colours of the lamp and the
    level of the backlight. The lemmas bound the rounding errors and show that every conversion to an integer fits.
  \<^item> \<open>Clock_Utils\<close> (\<open>lib/Utils.cpp\<close>, \<open>lib/SystemClock.cpp\<close>): dumps of byte vectors, files and the reading of the clock.
  \<^item> \<open>Crypt_AES_Soft\<close>, \<open>Crypt_CCMP\<close>, \<open>Crypt_CCMP_Legacy\<close> (\<open>rt5370.driver/common/cmm_aes.c\<close>, parts of \<open>cmm_wpa.c\<close> and \<open>cmm_data.c\<close>): the second AES of
    the WiFi driver, shown to be the same function as the first, the frames of CCMP, the three actions that encrypt and
    decrypt frames in software, and the frame counters, of which the lemmas show that no nonce repeats. The older
    decryption of whole frames is shown to agree with the one in use.
  \<^item> \<open>Hash_Stream\<close>, \<open>Crypt_MD5\<close>, \<open>Crypt_SHA2\<close>, \<open>Crypt_HMAC\<close> (\<open>common/crypt_md5.c\<close>, \<open>crypt_sha2.c\<close>, \<open>crypt_hmac.c\<close>): streaming
    hash functions over a locale for the block function, and HMAC over a locale for a hash function.
  \<^item> \<open>Crypt_ARC4\<close>, \<open>Crypt_AES_Tables\<close>, \<open>Crypt_AES\<close>, \<open>Crypt_AES_Modes\<close>, \<open>Crypt_AES_CCM\<close> (\<open>common/crypt_arc4.c\<close>,
    \<open>common/crypt_aes.c\<close>): the ciphers; the modes are proved over a locale for a block cipher.
  \<^item> \<open>Crypt_WEP\<close>, \<open>Crypt_TKIP\<close>, \<open>Crypt_TKIP_Mix\<close>, \<open>Crypt_TKIP_Frame\<close> (\<open>common/cmm_wep.c\<close>, \<open>common/cmm_tkip.c\<close>): frame protection.

  \<^bold>\<open>How the code is modelled.\<close> An object is a record of its members, an operation a function on it that does
  everything the method does; calls of other components are made, or collected in a log when the
  component is not part of the theory. A thread is a step function with a program counter, one pass of its loop per step;
  sleeps are the boundaries of steps. Critical sections are atomic. Behaviour that C or C++ leaves
  undefined is \<open>None\<close> or a flag of the state that the theorems show unset; exceptions and error codes are values.
  Hardware and kernel answer through parameters: outcomes of transfers, the device behind the SPI bus, the current time, the
  contents of files, the XML library. Integers have the width of the code where it matters.

  \<^bold>\<open>What the lemmas show.\<close> For the clock: when alarms fire and that they fire once, that an alarm ends or rings again, that
  the modes of a unit agree with its devices, bounds of volume and brightness, termination of fading, the
  classification of keys, the round trip of the alarm file and of the time registers, retries on the bus, the watchdog, the
  safety of the editor, that firmware reaches the tuner whole, that the texts and the list of services of the tuner are read as
  sent, and when the receiver runs. For the driver: equality with independent specifications of
  the hash functions, HMAC, CCM, the check sum, Michael and the mixing of TKIP keys; round trips
  of the ciphers; and that a frame is accepted exactly when it is an encryption of the result.

  \<^bold>\<open>Bounds and fuel.\<close> Loops that the code bounds are functions with a termination proof; the loop that reads the alarm
  file and the loop that feeds a hash function are partial functions whose result is proved to exist. No fuel is chosen.

  \<^bold>\<open>Not modelled.\<close> The command line, \<open>daemonize\<close>, \<open>registerSignals\<close>
  and the scan mode of \<open>RgbApp/src/main.cpp\<close> are calls of the operating system; what tinyxml2, the C library's \<open>pow\<close>
  and \<open>localtime\<close> and the devices on the buses do is a parameter. Of the two WiFi drivers only the
  cryptography of the one used is modelled: the rest talks to hardware
  and to the kernel. Tests, fonts, build files and vendored libraries have no logic of their own.
\<close>

section \<open>The radios and the receiver they share\<close>

text \<open>
  C6. An alarm that is snoozed and then switched off silences the next one. The first alarm starts the receiver;
  snoozing powers it off, and ending the alarm powers it off once more, which the counter of users
  remembers: when the next alarm switches the radio on, the receiver stays off.
\<close>

theorem snooze_and_off_silence_next_alarm:
  fixes c :: AlarmClock and v1 v2 :: int and sm1 sm2 :: bool
  assumes "dab_balance (radio_log (mRadio c)) = 0"
  defines "first \<equiv> alarmNotify v1 sm1 c"
  defines "ended \<equiv> (maintenance_step ^^ 2) (alarmOff (alarmSnooze first))"
  defines "second \<equiv> alarmNotify v2 sm2 ended"
  shows "rt_pc (receiver_after dev junk (radio_log (mRadio first)) (new_DABReceiver tuner board i sv cp l)) \<noteq> RtEnded \<and>
    mClockState ended = clkNormal \<and> mRadioState (mRadio second) = PwrOn \<and>
    rt_pc (receiver_after dev junk (radio_log (mRadio second)) (new_DABReceiver tuner board i sv cp l)) = RtEnded"
proof -
  have 1: "mRadio first = Radio_pwrOn sm1 v1 (mRadio c)" "mClockState first = clkAlarm" "mt_pc first = AtTest"
      "mAlarmMaintenanceThreadRunning first"
    by (simp_all add: first_def alarmNotify_def startAlarmMaintenanceThread_def stopAlarmMaintenanceThread_def)
  have 2: "mRadio ended = Radio_pwrOff (Radio_pwrOff (mRadio first))" "mClockState ended = clkNormal"
    using 1(2-) by (simp_all add: ended_def numeral_2_eq_2 maintenance_step_def maintenance_body_def end_alarm_def
        alarmOff_def alarmSnooze_def Let_def)
  have 3: "mRadio second = Radio_pwrOn sm2 v2 (mRadio ended)"
    by (simp add: second_def alarmNotify_def startAlarmMaintenanceThread_def stopAlarmMaintenanceThread_def)
  show ?thesis
    using assms(1) 2(2) receiver_after_runs [OF new_receiver, of dev junk "radio_log (mRadio second)"]
      receiver_after_runs [OF new_receiver, of dev junk "radio_log (mRadio first)"]
    by (simp add: 1(1) 2(1) 3)
qed

theorem snooze_and_off_silence_next_alarm_witness:
  "mRadioState (mRadio (alarmNotify 30 False ((maintenance_step ^^ 2) (alarmOff (alarmSnooze (alarmNotify 20 True new_AlarmClock)))))) = PwrOn \<and>
   rt_pc (receiver_after prompt_chip (\<lambda>_. False)
     (radio_log (mRadio (alarmNotify 30 False ((maintenance_step ^^ 2) (alarmOff (alarmSnooze (alarmNotify 20 True new_AlarmClock)))))))
     (new_DABReceiver (Some ex_tuner) True 3 25112 7 0)) = RtEnded"
proof -
  have "dab_balance (radio_log (mRadio new_AlarmClock)) = 0"
    using key_radio_counted [OF key_radio.register [OF key_radio.start], of "Some display_addr"]
    by (simp add: new_AlarmClock_def counted_def Let_def new_Radio_def registerRadioObserver_def split: if_splits)
  from snooze_and_off_silence_next_alarm [OF this, of prompt_chip "\<lambda>_. False" 20 True "Some ex_tuner" True 3 25112 7 0 30 False]
  show ?thesis by simp
qed

text \<open>
  C7. While a radio is used with its keys and the automatic power-off only, the receiver runs exactly when the
  radio is on: the calls that the radio has made of the receiver, from its construction on, leave the
  read thread of the receiver running exactly in the states where the radio is on.
\<close>

theorem keys_keep_receiver_in_step:
  assumes "key_radio r"
  shows "rt_pc (receiver_after dev junk (radio_log r) (new_DABReceiver tuner board i sv cp l)) \<noteq> RtEnded \<longleftrightarrow> mRadioState r = PwrOn"
  using key_radio_counted [OF assms] receiver_after_runs [OF new_receiver, of dev junk "radio_log r"] by (simp add: counted_def)

theorem keys_keep_receiver_in_step_witness:
  "rt_pc (receiver_after prompt_chip (\<lambda>_. False) (radio_log new_Radio) (new_DABReceiver (Some ex_tuner) True 3 25112 7 0)) = RtEnded \<longleftrightarrow>
     mRadioState new_Radio \<noteq> PwrOn"
  using keys_keep_receiver_in_step [OF key_radio.start, of prompt_chip "\<lambda>_. False" "Some ex_tuner" True 3 25112 7 0] by auto

end
